(* ===== verification/Prelude.thy ===== *)
theory Prelude
  imports Complex_Main "HOL-Library.Word"
begin

unbundle bit_operations_syntax

section \<open>Shared vocabulary\<close>

text \<open>
  What every component theory shares: the types the Python code computes with, the exceptions it
  raises, methods that may raise while changing state, and the generic facts about lists, words
  and chunks that the component proofs use.

  \<^item> \<open>bytes\<close> is Python's \<open>bytes\<close>: a list of 8-bit words.
  \<^item> \<open>secs\<close> is what an injected clock returns, a float number of seconds; it is a real here, so
    the rounding of float subtraction is not modelled.
  \<^item> \<open>exn\<close> names the exceptions the modelled code raises. The text of a message is left out.
    \<open>Fault n\<close> is any exception of a collaborator the code is handed (a radio, an encoder, a hook);
    \<open>n\<close> tells faults apart.
  \<^item> a method is a function from the state to a result and the next state. The state is returned
    with an exception too: what Python code mutated before it raised stays mutated.
\<close>

type_synonym byte = "8 word"
type_synonym bytes = "byte list"
type_synonym secs = real

datatype exn =
    ValueError
  | StructError
  | KeyError
  | IndexError
  | RuntimeError
  | AttributeError
  | TypeError
  | ArbiterStateError
  | AudioFormatMismatch
  | UnsupportedCapability
  | RadioUnavailable
  | OverflowError
  | NotImplementedError
  | RadioNotReady
  | Uvk5Timeout
  | Uvk5Closed
  | Uvk5KeyingError
  | Kv4pTimeout
  | Kv4pClosed
  | Kv4pKeyingError
  | AssertionError
  | TuneError
  | TuneBusy
  | OSError
  | HTTPException nat
  | Fault nat

type_synonym ('s, 'a) meth = "'s \<Rightarrow> (exn + 'a) \<times> 's"

named_theorems roundtrip_intros \<open>facts that a decoder inverts an encoder\<close>
named_theorems inv_intros \<open>facts that an operation keeps its component's invariant\<close>
named_theorems meth_simps \<open>how sequencing and handlers of methods compute\<close>

subsection \<open>Methods that may raise\<close>

text \<open>
  \<open>andthen m k\<close> is Python's sequencing: an exception of \<open>m\<close> skips \<open>k\<close>. \<open>catching m h\<close> is
  \<open>try: m except: h\<close>, the handler running in the state \<open>m\<close> left behind. \<open>guarded m\<close> is
  \<open>try: m except Exception: pass\<close>.
\<close>

definition returning :: "'a \<Rightarrow> ('s, 'a) meth" where
  "returning x s = (Inr x, s)"

definition raising :: "exn \<Rightarrow> ('s, 'a) meth" where
  "raising e s = (Inl e, s)"

definition andthen :: "('s, 'a) meth \<Rightarrow> ('a \<Rightarrow> ('s, 'b) meth) \<Rightarrow> ('s, 'b) meth" where
  "andthen m k s = (case m s of (Inl e, s') \<Rightarrow> (Inl e, s') | (Inr x, s') \<Rightarrow> k x s')"

definition catching :: "('s, 'a) meth \<Rightarrow> (exn \<Rightarrow> ('s, 'a) meth) \<Rightarrow> ('s, 'a) meth" where
  "catching m h s = (case m s of (Inl e, s') \<Rightarrow> h e s' | (Inr x, s') \<Rightarrow> (Inr x, s'))"

definition guarded :: "('s, unit) meth \<Rightarrow> ('s, unit) meth" where
  "guarded m = catching m (\<lambda>_. returning ())"

definition getting :: "('s \<Rightarrow> 'a) \<Rightarrow> ('s, 'a) meth" where
  "getting f s = (Inr (f s), s)"

definition modifying :: "('s \<Rightarrow> 's) \<Rightarrow> ('s, unit) meth" where
  "modifying f s = (Inr (), f s)"

lemma returning_apply [simp, meth_simps]: "returning x s = (Inr x, s)"
  by (simp add: returning_def)

lemma raising_apply [simp, meth_simps]: "raising e s = (Inl e, s)"
  by (simp add: raising_def)

lemma getting_apply [simp, meth_simps]: "getting f s = (Inr (f s), s)"
  by (simp add: getting_def)

lemma modifying_apply [simp, meth_simps]: "modifying f s = (Inr (), f s)"
  by (simp add: modifying_def)

lemma andthen_Inr [simp, meth_simps]: "m s = (Inr x, s') \<Longrightarrow> andthen m k s = k x s'"
  by (simp add: andthen_def)

lemma andthen_Inl [simp, meth_simps]: "m s = (Inl e, s') \<Longrightarrow> andthen m k s = (Inl e, s')"
  by (simp add: andthen_def)

lemma catching_Inr [simp, meth_simps]: "m s = (Inr x, s') \<Longrightarrow> catching m h s = (Inr x, s')"
  by (simp add: catching_def)

lemma catching_Inl [simp, meth_simps]: "m s = (Inl e, s') \<Longrightarrow> catching m h s = h e s'"
  by (simp add: catching_def)

lemma guarded_total [simp]: "fst (guarded m s) = Inr ()"
  by (auto simp: guarded_def catching_def split: prod.splits sum.splits)

lemma guarded_state [simp]: "snd (guarded m s) = snd (m s)"
  by (auto simp: guarded_def catching_def split: prod.splits sum.splits)

lemma guarded_apply: "guarded m s = (Inr (), snd (m s))"
  by (rule prod_eqI) simp_all

lemma andthen_guarded [simp, meth_simps]: "andthen (guarded m) k s = k () (snd (m s))"
  by (simp add: guarded_apply)

text \<open>
  \<open>ensures P m Q E\<close>: from a state with \<open>P\<close> the method ends in \<open>Q\<close> of its result, or raises and ends in \<open>E\<close>.
\<close>

definition ensures :: "('s \<Rightarrow> bool) \<Rightarrow> ('s, 'a) meth \<Rightarrow> ('a \<Rightarrow> 's \<Rightarrow> bool) \<Rightarrow> ('s \<Rightarrow> bool) \<Rightarrow> bool" where
  "ensures P m Q E \<longleftrightarrow> (\<forall>s. P s \<longrightarrow> (case m s of (Inl e, s') \<Rightarrow> E s' | (Inr x, s') \<Rightarrow> Q x s'))"

named_theorems ensures_intros \<open>rules of the program logic over methods\<close>

lemma ensures_andthen [ensures_intros]:
  "ensures P m Q E \<Longrightarrow> (\<And>x. ensures (Q x) (k x) R E) \<Longrightarrow> ensures P (andthen m k) R E"
  unfolding ensures_def andthen_def by (fastforce split: prod.splits sum.splits)

lemma ensures_modifying [ensures_intros]: "(\<And>s. P s \<Longrightarrow> Q () (f s)) \<Longrightarrow> ensures P (modifying f) Q E"
  by (simp add: ensures_def)

lemma ensures_returning: "(\<And>s. P s \<Longrightarrow> Q x s) \<Longrightarrow> ensures P (returning x) Q E"
  by (simp add: ensures_def)

lemma ensures_snd:
  "(\<And>s. P s \<Longrightarrow> I (snd (m s))) \<Longrightarrow> ensures P m (\<lambda>_. I) I"
  by (fastforce simp: ensures_def split: prod.splits sum.splits)

lemma ensures_inv_iff: "ensures I m (\<lambda>_. I) I \<longleftrightarrow> (\<forall>s. I s \<longrightarrow> I (snd (m s)))"
proof
  assume "ensures I m (\<lambda>_. I) I"
  then show "\<forall>s. I s \<longrightarrow> I (snd (m s))"
  proof (intro allI impI)
    fix s assume "I s"
    with \<open>ensures I m (\<lambda>_. I) I\<close> show "I (snd (m s))" by (cases "m s"; cases "fst (m s)") (auto simp: ensures_def)
  qed
qed (auto intro: ensures_snd)

lemma ensures_conseq:
  "ensures P m Q E \<Longrightarrow> (\<And>s. P' s \<Longrightarrow> P s) \<Longrightarrow> (\<And>x s. Q x s \<Longrightarrow> Q' x s) \<Longrightarrow> (\<And>s. E s \<Longrightarrow> E' s) \<Longrightarrow> ensures P' m Q' E'"
  unfolding ensures_def by (fastforce split: prod.splits sum.splits)

lemma ensuresD: "ensures P m Q E \<Longrightarrow> P s \<Longrightarrow> m s = (Inr x, s') \<Longrightarrow> Q x s'"
  by (auto simp: ensures_def)

subsection \<open>Lists read and cut the way Python slices\<close>

lemma take_append_length: "length xs = n \<Longrightarrow> take n (xs @ ys) = xs"
  by simp

lemma drop_append_length: "length xs = n \<Longrightarrow> drop n (xs @ ys) = ys"
  by simp

lemma butlast_last_cases: "xs \<noteq> [] \<Longrightarrow> xs = butlast xs @ [last xs]"
  by simp

lemma length_two_cases: "length xs = 2 \<Longrightarrow> \<exists>a b. xs = [a, b]"
  by (cases xs; cases "tl xs") auto

lemma nth_append_first: "i < length xs \<Longrightarrow> (xs @ ys) ! i = xs ! i"
  by (simp add: nth_append)

lemma set_takeD: "x \<in> set (take n xs) \<Longrightarrow> x \<in> set xs"
  by (rule in_set_takeD)

subsection \<open>Bytes and machine words\<close>

lemma uint_byte_bounds [simp]: "0 \<le> uint (b :: byte)" "uint (b :: byte) < 256"
  using uint_lt2p [of b] by simp_all

lemma uint_of_int_byte: "0 \<le> v \<Longrightarrow> v < 256 \<Longrightarrow> uint (word_of_int v :: byte) = v"
  by (simp add: uint_word_of_int)

lemma uint_byte_mod: "uint (word_of_int v :: byte) = v mod 256"
  by (simp only: uint_word_of_int) simp

lemma byte_of_int_mod: "(word_of_int (v mod 256) :: byte) = word_of_int v"
  by (rule word_uint_eqI) (simp only: uint_byte_mod mod_mod_trivial)

lemma byte_of_uint [simp]: "(word_of_int (uint b) :: byte) = b"
  by simp

lemma xor_twice [simp]: "(a XOR b) XOR b = (a :: byte)"
  by (simp add: ac_simps)

subsection \<open>Numbers\<close>

text \<open>Python's \<open>round\<close> to an integer: half-way cases go to the even neighbour.\<close>

definition py_round :: "real \<Rightarrow> int" where
  "py_round x =
     (let n = \<lfloor>x\<rfloor>; d = x - of_int n
      in if d < 1 / 2 \<or> (d = 1 / 2 \<and> even n) then n else n + 1)"

lemma py_round_int [simp]: "py_round (of_int n) = n"
  by (simp add: py_round_def)

lemma py_round_near: "\<bar>of_int (py_round x) - x\<bar> \<le> 1 / 2"
  by (simp add: py_round_def Let_def abs_le_iff)

lemma py_round_mono: "x \<le> y \<Longrightarrow> py_round x \<le> py_round y"
proof (cases "\<lfloor>x\<rfloor> = \<lfloor>y\<rfloor>")
  case False
  assume "x \<le> y"
  with False have "\<lfloor>x\<rfloor> < \<lfloor>y\<rfloor>" using floor_mono [of x y] by linarith
  then show ?thesis by (auto simp: py_round_def Let_def)
qed (auto simp: py_round_def Let_def)

end
