(* ===== verification/StreamCodec.thy ===== *)
theory StreamCodec
  imports Prelude
begin

section \<open>Streaming deframers: the interface three wire codecs share\<close>

text \<open>
  Three components read a serial byte stream in chunks of whatever size the operating system
  hands them (\<open>KissDecoder\<close>, \<open>Uvk5Decoder\<close>, \<open>DvDongleDecoder\<close>), and all three have the
  same contract with their transport: \<open>feed(chunk)\<close> returns the frames that \<open>chunk\<close> completes
  and keeps the rest. The locale \<open>stream_decoder\<close> states what makes that contract usable (the
  state after a chunk does not depend on where the chunk was cut), \<open>framed_codec\<close> adds the encoder
  of the same wire format and derives that a whole session of frames is read back, in order, under
  any chunking. Each codec's theory interprets both on its own definitions.
\<close>

text \<open>A transport's read loop: one \<open>feed\<close> call per chunk, the frames in order.\<close>

fun feed_all :: "('s \<Rightarrow> bytes \<Rightarrow> 's \<times> 'f list) \<Rightarrow> 's \<Rightarrow> bytes list \<Rightarrow> 's \<times> 'f list" where
  "feed_all feed s [] = (s, [])"
| "feed_all feed s (c # cs) =
     (let (s1, fs1) = feed s c; (s2, fs2) = feed_all feed s1 cs in (s2, fs1 @ fs2))"

text \<open>The per-byte loop of \<open>feed\<close> in a decoder that is a byte-at-a-time state machine.\<close>

fun feed_steps :: "('s \<Rightarrow> byte \<Rightarrow> 's \<times> 'f option) \<Rightarrow> 's \<Rightarrow> bytes \<Rightarrow> 's \<times> 'f list" where
  "feed_steps step s [] = (s, [])"
| "feed_steps step s (b # bs) =
     (let (s1, f) = step s b; (s2, fs) = feed_steps step s1 bs
      in (s2, (case f of None \<Rightarrow> fs | Some x \<Rightarrow> x # fs)))"

lemma feed_steps_append:
  "feed_steps step s (xs @ ys) =
     (let (s1, fs1) = feed_steps step s xs; (s2, fs2) = feed_steps step s1 ys in (s2, fs1 @ fs2))"
  by (induction xs arbitrary: s) (auto simp: Let_def split: prod.splits option.splits)

lemma feed_steps_append_pair:
  "feed_steps step s xs = (s1, fs1) \<Longrightarrow> feed_steps step s1 ys = (s2, fs2) \<Longrightarrow>
     feed_steps step s (xs @ ys) = (s2, fs1 @ fs2)"
  by (simp add: feed_steps_append)

lemma feed_steps_inv:
  assumes "\<And>s b. ok s \<Longrightarrow> ok (fst (step s b))"
  shows "ok s \<Longrightarrow> ok (fst (feed_steps step s bs))"
proof (induction bs arbitrary: s)
  case (Cons b bs)
  from assms Cons.prems have "ok (fst (step s b))" by blast
  from Cons.IH [OF this] show ?case by (auto simp: Let_def split: prod.splits)
qed simp

lemma feed_steps_outputs:
  assumes "\<And>s b. ok s \<Longrightarrow> ok (fst (step s b))"
    and "\<And>s b f. ok s \<Longrightarrow> snd (step s b) = Some f \<Longrightarrow> good f"
  shows "ok s \<Longrightarrow> list_all good (snd (feed_steps step s bs))"
proof (induction bs arbitrary: s)
  case (Cons b bs)
  obtain s1 f where st: "step s b = (s1, f)" by fastforce
  with assms(1) [OF Cons.prems, of b] have "ok s1" by simp
  from Cons.IH [OF this] assms(2) [OF Cons.prems, of b] st show ?case
    by (auto simp: Let_def split: prod.splits option.splits)
qed simp

locale stream_decoder =
  fixes feed :: "'s \<Rightarrow> bytes \<Rightarrow> 's \<times> 'f list"
    and ok :: "'s \<Rightarrow> bool"
  assumes feed_nil: "ok s \<Longrightarrow> feed s [] = (s, [])"
    and feed_append: "ok s \<Longrightarrow> feed s (xs @ ys) =
      (let (s1, fs1) = feed s xs; (s2, fs2) = feed s1 ys in (s2, fs1 @ fs2))"
    and feed_inv: "ok s \<Longrightarrow> ok (fst (feed s xs))"
begin

lemma feed_all_concat: "ok s \<Longrightarrow> feed_all feed s cs = feed s (concat cs)"
proof (induction cs arbitrary: s)
  case Nil
  then show ?case by (simp add: feed_nil)
next
  case (Cons c cs)
  from Cons.prems have "ok (fst (feed s c))" by (rule feed_inv)
  with Cons show ?case by (auto simp: feed_append split: prod.splits)
qed

lemma chunking_irrelevant:
  "ok s \<Longrightarrow> concat cs = concat ds \<Longrightarrow> feed_all feed s cs = feed_all feed s ds"
  by (simp add: feed_all_concat)

lemma feed_all_inv: "ok s \<Longrightarrow> ok (fst (feed_all feed s cs))"
  by (simp add: feed_all_concat feed_inv)

end

text \<open>
  \<open>ready s\<close> holds where a new frame starts cleanly; \<open>wf m\<close> are the messages the encoder is
  used on and \<open>out m\<close> is what the decoder reports for one.
\<close>

locale framed_codec = stream_decoder +
  fixes enc :: "'m \<Rightarrow> bytes"
    and wf :: "'m \<Rightarrow> bool"
    and out :: "'m \<Rightarrow> 'f"
    and ready :: "'s \<Rightarrow> bool"
  assumes one_frame: "ok s \<Longrightarrow> ready s \<Longrightarrow> wf m \<Longrightarrow>
      snd (feed s (enc m)) = [out m] \<and> ready (fst (feed s (enc m)))"
begin

lemma many_frames:
  "ok s \<Longrightarrow> ready s \<Longrightarrow> list_all wf ms \<Longrightarrow>
     snd (feed s (concat (map enc ms))) = map out ms \<and> ready (fst (feed s (concat (map enc ms))))"
proof (induction ms arbitrary: s)
  case Nil
  then show ?case by (simp add: feed_nil)
next
  case (Cons m ms)
  obtain s1 fs1 where f1: "feed s (enc m) = (s1, fs1)" by fastforce
  from one_frame [of s m] Cons.prems f1 have fs1: "fs1 = [out m]" and r1: "ready s1" by auto
  from feed_inv [OF Cons.prems(1), of "enc m"] f1 have "ok s1" by simp
  from Cons.IH [OF this r1] Cons.prems(3)
  have "snd (feed s1 (concat (map enc ms))) = map out ms"
    "ready (fst (feed s1 (concat (map enc ms))))" by simp_all
  with f1 fs1 Cons.prems(1) show ?case by (auto simp: feed_append split: prod.splits)
qed

lemma session_roundtrip:
  "ok s \<Longrightarrow> ready s \<Longrightarrow> list_all wf ms \<Longrightarrow> concat cs = concat (map enc ms) \<Longrightarrow>
     snd (feed_all feed s cs) = map out ms"
  by (simp add: feed_all_concat many_frames)

end

end
