(* ===== verification/StructPack.thy ===== *)
theory StructPack
  imports Prelude
begin

section \<open>Python's struct module, for the formats the code uses\<close>

text \<open>
  \<open>struct.pack\<close> and \<open>struct.unpack\<close> for little-endian standard-size formats (a leading
  \<open><\<close>, so no padding): \<open>B\<close>, \<open>b\<close>, \<open>H\<close>, \<open>h\<close>, \<open>I\<close>, \<open>i\<close> and \<open>f\<close>. A value
  outside the field's range raises \<open>struct.error\<close>, and so does a buffer of the wrong length. An \<open>f\<close>
  field is carried as its IEEE-754 binary32 bit pattern, a number below \<open>2 ^ 32\<close>: the
  conversion of a Python float to that pattern is the standard library's and is not modelled.
\<close>

datatype fmt = FmtB | Fmtb | FmtH | Fmth | FmtI | Fmti | Fmtf

fun fmt_size :: "fmt \<Rightarrow> nat" where
  "fmt_size FmtB = 1"
| "fmt_size Fmtb = 1"
| "fmt_size FmtH = 2"
| "fmt_size Fmth = 2"
| "fmt_size FmtI = 4"
| "fmt_size Fmti = 4"
| "fmt_size Fmtf = 4"

fun fmt_signed :: "fmt \<Rightarrow> bool" where
  "fmt_signed Fmtb = True"
| "fmt_signed Fmth = True"
| "fmt_signed Fmti = True"
| "fmt_signed _ = False"

definition fmt_span :: "fmt \<Rightarrow> int" where
  "fmt_span f = 256 ^ fmt_size f"

definition in_range :: "fmt \<Rightarrow> int \<Rightarrow> bool" where
  "in_range f v =
     (if fmt_signed f then - (fmt_span f div 2) \<le> v \<and> v < fmt_span f div 2
      else 0 \<le> v \<and> v < fmt_span f)"

definition calcsize :: "fmt list \<Rightarrow> nat" where
  "calcsize fs = sum_list (map fmt_size fs)"

subsection \<open>Little-endian integers\<close>

fun le_bytes :: "nat \<Rightarrow> int \<Rightarrow> bytes" where
  "le_bytes 0 v = []"
| "le_bytes (Suc n) v = word_of_int v # le_bytes n (v div 256)"

fun le_int :: "bytes \<Rightarrow> int" where
  "le_int [] = 0"
| "le_int (b # bs) = uint b + 256 * le_int bs"

lemma length_le_bytes [simp]: "length (le_bytes n v) = n"
  by (induction n arbitrary: v) auto

lemma le_int_bounds: "0 \<le> le_int bs \<and> le_int bs < 256 ^ length bs"
proof (induction bs)
  case (Cons b bs)
  have b: "uint b \<le> 255" "0 \<le> uint b" using uint_byte_bounds [of b] by linarith+
  from Cons.IH have "le_int bs + 1 \<le> 256 ^ length bs" by linarith
  then have "256 * (le_int bs + 1) \<le> 256 * 256 ^ length bs" by (rule mult_left_mono) simp
  with Cons.IH b show ?case by simp
qed simp

lemma le_int_le_bytes: "le_int (le_bytes n v) = v mod 256 ^ n"
proof (induction n arbitrary: v)
  case (Suc n)
  have "uint (word_of_int v :: byte) = v mod 256" by (simp add: uint_word_of_int)
  moreover have "v mod (256 * 256 ^ n) = 256 * (v div 256 mod 256 ^ n) + v mod 256"
    by (rule zmod_zmult2_eq) simp
  ultimately show ?case by (simp add: Suc)
qed simp

lemma le_int_le_bytes_id: "0 \<le> v \<Longrightarrow> v < 256 ^ n \<Longrightarrow> le_int (le_bytes n v) = v"
  by (simp add: le_int_le_bytes)

lemma le_bytes_le_int [simp]: "le_bytes (length bs) (le_int bs) = bs"
proof (induction bs)
  case (Cons b bs)
  have w: "(word_of_int (uint b + 256 * le_int bs) :: byte) = b"
    by (rule word_uint_eqI) (simp only: uint_byte_mod, simp)
  have "(uint b + 256 * le_int bs) div 256 = le_int bs" by simp
  with Cons w show ?case by simp
qed simp

lemma le_bytes_mod: "le_bytes n (v mod 256 ^ n) = le_bytes n v"
  by (metis le_bytes_le_int le_int_le_bytes length_le_bytes)

subsection \<open>pack and unpack\<close>

fun field_value :: "fmt \<Rightarrow> bytes \<Rightarrow> int" where
  "field_value f bs =
     (let v = le_int bs in if fmt_signed f \<and> fmt_span f div 2 \<le> v then v - fmt_span f else v)"

fun struct_pack :: "fmt list \<Rightarrow> int list \<Rightarrow> exn + bytes" where
  "struct_pack [] [] = Inr []"
| "struct_pack (f # fs) (v # vs) =
     (if in_range f v
      then (case struct_pack fs vs of
              Inl e \<Rightarrow> Inl e
            | Inr bs \<Rightarrow> Inr (le_bytes (fmt_size f) v @ bs))
      else Inl StructError)"
| "struct_pack _ _ = Inl StructError"

fun unpack_fields :: "fmt list \<Rightarrow> bytes \<Rightarrow> int list" where
  "unpack_fields [] bs = []"
| "unpack_fields (f # fs) bs =
     field_value f (take (fmt_size f) bs) # unpack_fields fs (drop (fmt_size f) bs)"

definition struct_unpack :: "fmt list \<Rightarrow> bytes \<Rightarrow> exn + int list" where
  "struct_unpack fs bs =
     (if length bs = calcsize fs then Inr (unpack_fields fs bs) else Inl StructError)"

lemma fmt_size_pos [simp]: "0 < fmt_size f"
  by (cases f) auto

lemma calcsize_simps [simp]: "calcsize [] = 0" "calcsize (f # fs) = fmt_size f + calcsize fs"
  by (simp_all add: calcsize_def)

lemma length_unpack_fields [simp]: "length (unpack_fields fs bs) = length fs"
  by (induction fs bs rule: unpack_fields.induct) auto

lemma fmt_span_even: "fmt_span f = 2 * (fmt_span f div 2)" and fmt_span_pos: "0 < fmt_span f"
  by (cases f; simp add: fmt_span_def)+

lemma field_value_le_bytes: "in_range f v \<Longrightarrow> field_value f (le_bytes (fmt_size f) v) = v"
proof -
  assume r: "in_range f v"
  let ?s = "fmt_span f"
  note e = fmt_span_even [of f] fmt_span_pos [of f]
  have le: "le_int (le_bytes (fmt_size f) v) = v mod ?s"
    by (simp add: le_int_le_bytes fmt_span_def)
  show ?thesis
  proof (cases "fmt_signed f \<and> v < 0")
    case True
    with r have "- (?s div 2) \<le> v" by (simp add: in_range_def)
    with True e have b: "0 \<le> v + ?s" "v + ?s < ?s" "?s div 2 \<le> v + ?s" by linarith+
    have "v mod ?s = (v + ?s) mod ?s" by simp
    also from b have "(v + ?s) mod ?s = v + ?s" by (intro mod_pos_pos_trivial) auto
    finally have m: "v mod ?s = v + ?s" .
    with True b le show ?thesis by (simp add: Let_def)
  next
    case False
    with r e have b: "0 \<le> v" "v < ?s" and c: "fmt_signed f \<longrightarrow> v < ?s div 2"
      by (auto simp: in_range_def split: if_splits)
    with le have "le_int (le_bytes (fmt_size f) v) = v" by simp
    with c show ?thesis by (auto simp: Let_def)
  qed
qed

lemma in_range_field_value: "length bs = fmt_size f \<Longrightarrow> in_range f (field_value f bs)"
proof -
  assume l: "length bs = fmt_size f"
  from le_int_bounds [of bs] l have "0 \<le> le_int bs" "le_int bs < fmt_span f"
    by (simp_all add: fmt_span_def)
  with fmt_span_even [of f] show ?thesis
    by (auto simp: in_range_def Let_def)
qed

lemma le_bytes_field_value: "length bs = fmt_size f \<Longrightarrow> le_bytes (fmt_size f) (field_value f bs) = bs"
proof -
  assume l: "length bs = fmt_size f"
  have "field_value f bs mod fmt_span f = le_int bs mod fmt_span f"
    by (simp add: Let_def flip: mod_diff_right_eq)
  then have "le_bytes (fmt_size f) (field_value f bs) = le_bytes (fmt_size f) (le_int bs)"
    unfolding fmt_span_def by (metis le_bytes_mod)
  with l show ?thesis by (metis le_bytes_le_int)
qed

declare field_value.simps [simp del]

lemma struct_pack_length: "struct_pack fs vs = Inr bs \<Longrightarrow> length bs = calcsize fs"
  by (induction fs vs arbitrary: bs rule: struct_pack.induct) (auto split: if_splits sum.splits)

lemma struct_pack_unpack_fields: "struct_pack fs vs = Inr bs \<Longrightarrow> unpack_fields fs bs = vs"
  by (induction fs vs arbitrary: bs rule: struct_pack.induct)
    (auto simp: field_value_le_bytes split: if_splits sum.splits)

theorem struct_roundtrip [roundtrip_intros]:
  "struct_pack fs vs = Inr bs \<Longrightarrow> struct_unpack fs bs = Inr vs"
  by (simp add: struct_unpack_def struct_pack_length struct_pack_unpack_fields)

lemma struct_unpack_fields_pack:
  "length bs = calcsize fs \<Longrightarrow> struct_pack fs (unpack_fields fs bs) = Inr bs"
proof (induction fs arbitrary: bs)
  case (Cons f fs)
  then have "length (take (fmt_size f) bs) = fmt_size f" by simp
  note t = in_range_field_value [OF this] le_bytes_field_value [OF this]
  from Cons.prems have "length (drop (fmt_size f) bs) = calcsize fs" by simp
  from Cons.IH [OF this] t show ?case by simp
qed simp

theorem struct_unroundtrip [roundtrip_intros]:
  "struct_unpack fs bs = Inr vs \<Longrightarrow> struct_pack fs vs = Inr bs"
  by (auto simp: struct_unpack_def struct_unpack_fields_pack split: if_splits)

lemma struct_unpack_length: "struct_unpack fs bs = Inr vs \<Longrightarrow> length vs = length fs"
  by (auto simp: struct_unpack_def split: if_splits)

lemma struct_unpack_ok_iff: "(\<exists>vs. struct_unpack fs bs = Inr vs) \<longleftrightarrow> length bs = calcsize fs"
  by (auto simp: struct_unpack_def)

lemma struct_pack_ok_iff: "(\<exists>bs. struct_pack fs vs = Inr bs) \<longleftrightarrow> list_all2 in_range fs vs"
  by (induction fs vs rule: struct_pack.induct) (auto split: sum.splits)

end
