(* ===== verification/Kiss.thy ===== *)
theory Kiss
  imports StreamCodec
begin

unbundle bit_operations_syntax

section \<open>KISS framing of the kv4p serial link\<close>

text \<open>
  \<open>radio_server/backends/kv4p/frames.py\<close>: the KISS escape and frame builders, the streaming
  deframer \<open>KissDecoder\<close> and the dispatch of a decoded frame. The deframer is the byte-at-a-time
  machine \<open>_process\<close>; \<open>feed\<close> folds it over a chunk. The theory shows that the decoder reads back
  every frame the builder writes, from any state and under any chunking, that it never holds more
  than \<open>KISS_MAX_FRAME_SIZE\<close> bytes, and that a vendor frame survives the whole trip.
\<close>

definition KISS_FEND :: byte where "KISS_FEND = 0xC0"
definition KISS_FESC :: byte where "KISS_FESC = 0xDB"
definition KISS_TFEND :: byte where "KISS_TFEND = 0xDC"
definition KISS_TFESC :: byte where "KISS_TFESC = 0xDD"
definition KISS_CMD_DATA :: byte where "KISS_CMD_DATA = 0x00"
definition KISS_CMD_SETHARDWARE :: byte where "KISS_CMD_SETHARDWARE = 0x06"
definition KISS_PORT_0 :: byte where "KISS_PORT_0 = 0x00"
definition KV4P_VENDOR_PREFIX :: bytes where "KV4P_VENDOR_PREFIX = [0x4B, 0x56, 0x34, 0x50]"
definition KV4P_PROTOCOL_VERSION :: byte where "KV4P_PROTOCOL_VERSION = 0x01"
definition KV4P_VENDOR_HEADER_LEN :: nat where "KV4P_VENDOR_HEADER_LEN = 6"
definition PROTO_MTU :: nat where "PROTO_MTU = 2048"
definition KISS_MAX_FRAME_SIZE :: nat where
  "KISS_MAX_FRAME_SIZE = PROTO_MTU + 1 + KV4P_VENDOR_HEADER_LEN"

lemmas kiss_consts = KISS_FEND_def KISS_FESC_def KISS_TFEND_def KISS_TFESC_def
lemmas kiss_cmds = KISS_CMD_DATA_def KISS_CMD_SETHARDWARE_def KISS_PORT_0_def
lemmas kiss_sizes = KISS_MAX_FRAME_SIZE_def PROTO_MTU_def KV4P_VENDOR_HEADER_LEN_def

subsection \<open>Encoding\<close>

fun kiss_escape_bytes :: "bytes \<Rightarrow> bytes" where
  "kiss_escape_bytes [] = []"
| "kiss_escape_bytes (b # bs) =
     (if b = KISS_FEND then [KISS_FESC, KISS_TFEND]
      else if b = KISS_FESC then [KISS_FESC, KISS_TFESC]
      else [b]) @ kiss_escape_bytes bs"

text \<open>The command byte is an unbounded Python int, masked to 8 bits and written un-escaped.\<close>

definition build_kiss_frame :: "int \<Rightarrow> bytes \<Rightarrow> bytes" where
  "build_kiss_frame command_byte payload =
     [KISS_FEND, word_of_int (command_byte AND 0xFF)] @ kiss_escape_bytes payload @ [KISS_FEND]"

definition build_vendor_frame :: "int \<Rightarrow> bytes \<Rightarrow> bytes" where
  "build_vendor_frame kv4p_command payload =
     (let body = KV4P_VENDOR_PREFIX
        @ [KV4P_PROTOCOL_VERSION, word_of_int (kv4p_command AND 0xFF)] @ payload
      in build_kiss_frame (uint KISS_CMD_SETHARDWARE) body)"

subsection \<open>The streaming deframer\<close>

record kiss_decoder =
  kd_buf :: bytes
  kd_escape :: bool
  kd_drop :: bool
  kd_in_frame :: bool

definition kiss_init :: kiss_decoder where
  "kiss_init = \<lparr>kd_buf = [], kd_escape = False, kd_drop = False, kd_in_frame = False\<rparr>"

definition kiss_reset :: "kiss_decoder \<Rightarrow> kiss_decoder" where
  "kiss_reset d = d\<lparr>kd_buf := [], kd_escape := False, kd_drop := False, kd_in_frame := False\<rparr>"

definition kiss_append :: "kiss_decoder \<Rightarrow> byte \<Rightarrow> kiss_decoder" where
  "kiss_append d b =
     (if KISS_MAX_FRAME_SIZE \<le> length (kd_buf d) then d\<lparr>kd_drop := True\<rparr>
      else d\<lparr>kd_buf := kd_buf d @ [b]\<rparr>)"

definition kiss_process :: "kiss_decoder \<Rightarrow> byte \<Rightarrow> kiss_decoder \<times> bytes option" where
  "kiss_process d b =
     (if b = KISS_FEND then
        (d\<lparr>kd_buf := [], kd_escape := False, kd_drop := False, kd_in_frame := True\<rparr>,
         if kd_buf d \<noteq> [] \<and> \<not> kd_drop d then Some (kd_buf d) else None)
      else if \<not> kd_in_frame d \<or> kd_drop d then (d, None)
      else if kd_escape d then
        (let d1 = d\<lparr>kd_escape := False\<rparr> in
         (if b = KISS_TFEND then kiss_append d1 KISS_FEND
          else if b = KISS_TFESC then kiss_append d1 KISS_FESC
          else d1\<lparr>kd_drop := True\<rparr>, None))
      else if b = KISS_FESC then (d\<lparr>kd_escape := True\<rparr>, None)
      else (kiss_append d b, None))"

definition kiss_feed :: "kiss_decoder \<Rightarrow> bytes \<Rightarrow> kiss_decoder \<times> bytes list" where
  "kiss_feed = feed_steps kiss_process"

subsection \<open>Dispatch of a decoded frame\<close>

datatype kiss_message = VendorFrame (vf_command: byte) (vf_payload: bytes) | Ax25Frame bytes

definition parse_vendor :: "bytes \<Rightarrow> kiss_message option" where
  "parse_vendor payload =
     (if length payload < KV4P_VENDOR_HEADER_LEN then None
      else if take 4 payload \<noteq> KV4P_VENDOR_PREFIX then None
      else if payload ! 4 \<noteq> KV4P_PROTOCOL_VERSION then None
      else Some (VendorFrame (payload ! 5) (drop KV4P_VENDOR_HEADER_LEN payload)))"

definition kiss_parse_frame :: "bytes \<Rightarrow> kiss_message option" where
  "kiss_parse_frame frame =
     (case frame of
        [] \<Rightarrow> None
      | command_byte # payload \<Rightarrow>
          (let port = drop_bit 4 command_byte; kiss_command = command_byte AND 0x0F in
           if port \<noteq> KISS_PORT_0 then None
           else if kiss_command = KISS_CMD_DATA then
             (if 0 < length payload \<and> length payload \<le> PROTO_MTU then Some (Ax25Frame payload)
              else None)
           else if kiss_command = KISS_CMD_SETHARDWARE then parse_vendor payload
           else None))"

subsection \<open>The decoder undoes the escape\<close>

lemma kiss_consts_distinct [simp]:
  "KISS_FEND \<noteq> KISS_FESC" "KISS_FESC \<noteq> KISS_FEND" "KISS_TFEND \<noteq> KISS_FEND" "KISS_TFESC \<noteq> KISS_FEND"
  "KISS_TFEND \<noteq> KISS_TFESC" "KISS_TFESC \<noteq> KISS_TFEND" "KISS_FEND \<noteq> KISS_TFEND" "KISS_FEND \<noteq> KISS_TFESC"
  by (simp_all add: kiss_consts)

lemma kiss_escape_no_FEND: "KISS_FEND \<notin> set (kiss_escape_bytes bs)"
  by (induction bs) auto

lemma kiss_escape_length:
  "length bs \<le> length (kiss_escape_bytes bs) \<and> length (kiss_escape_bytes bs) \<le> 2 * length bs"
  by (induction bs) auto

definition kiss_collecting :: "kiss_decoder \<Rightarrow> bytes \<Rightarrow> bool" where
  "kiss_collecting d bs \<longleftrightarrow>
     kd_buf d = bs \<and> \<not> kd_escape d \<and> \<not> kd_drop d \<and> kd_in_frame d"

lemma kiss_collect_escaped:
  "kiss_collecting d acc \<Longrightarrow> length acc + length bs \<le> KISS_MAX_FRAME_SIZE \<Longrightarrow>
     \<exists>d'. feed_steps kiss_process d (kiss_escape_bytes bs) = (d', []) \<and> kiss_collecting d' (acc @ bs)"
proof (induction bs arbitrary: d acc)
  case Nil
  then show ?case by simp
next
  case (Cons b bs)
  let ?e = "if b = KISS_FEND then [KISS_FESC, KISS_TFEND]
    else if b = KISS_FESC then [KISS_FESC, KISS_TFESC] else [b]"
  have "feed_steps kiss_process d ?e = (d\<lparr>kd_buf := acc @ [b]\<rparr>, [])"
    using Cons.prems
    by (auto simp: kiss_process_def kiss_append_def kiss_collecting_def Let_def)
  moreover have "kiss_collecting (d\<lparr>kd_buf := acc @ [b]\<rparr>) (acc @ [b])"
    using Cons.prems by (simp add: kiss_collecting_def)
  from Cons.IH [OF this] Cons.prems obtain d' where
    "feed_steps kiss_process (d\<lparr>kd_buf := acc @ [b]\<rparr>) (kiss_escape_bytes bs) = (d', [])"
    and "kiss_collecting d' ((acc @ [b]) @ bs)" by auto
  ultimately show ?case by (auto simp: feed_steps_append)
qed

definition kiss_sync :: kiss_decoder where
  "kiss_sync = \<lparr>kd_buf = [], kd_escape = False, kd_drop = False, kd_in_frame = True\<rparr>"

text \<open>What is left over when a delimiter arrives: a frame in progress, if it is deliverable.\<close>

definition kiss_pending :: "kiss_decoder \<Rightarrow> bytes list" where
  "kiss_pending d = (if kd_buf d \<noteq> [] \<and> \<not> kd_drop d then [kd_buf d] else [])"

lemma kiss_process_FEND:
  "kiss_process d KISS_FEND = (kiss_sync, if kiss_pending d = [] then None else Some (kd_buf d))"
  by (simp add: kiss_process_def kiss_sync_def kiss_pending_def)

lemma kiss_feed_frame:
  assumes c: "word_of_int (cmd AND 0xFF) \<notin> {KISS_FEND, KISS_FESC}"
    and l: "length payload < KISS_MAX_FRAME_SIZE"
  shows "kiss_feed d (build_kiss_frame cmd payload) =
    (kiss_sync, kiss_pending d @ [word_of_int (cmd AND 0xFF) # payload])"
proof -
  let ?c = "word_of_int (cmd AND 0xFF) :: byte"
  have "\<not> KISS_MAX_FRAME_SIZE \<le> length ([] :: bytes)" by (simp add: kiss_sizes)
  with c have step: "kiss_process kiss_sync ?c = (kiss_sync\<lparr>kd_buf := [?c]\<rparr>, None)"
    by (auto simp: kiss_process_def kiss_append_def kiss_sync_def)
  have "kiss_collecting (kiss_sync\<lparr>kd_buf := [?c]\<rparr>) [?c]"
    by (simp add: kiss_collecting_def kiss_sync_def)
  from kiss_collect_escaped [OF this, of payload] l obtain d' where
    body: "feed_steps kiss_process (kiss_sync\<lparr>kd_buf := [?c]\<rparr>) (kiss_escape_bytes payload) = (d', [])"
    and coll: "kiss_collecting d' (?c # payload)" by auto
  from coll have "kiss_pending d' = [?c # payload]" "kd_buf d' = ?c # payload"
    by (auto simp: kiss_pending_def kiss_collecting_def)
  with step body show ?thesis
    by (auto simp: kiss_feed_def build_kiss_frame_def feed_steps_append kiss_process_FEND
        kiss_pending_def)
qed

text \<open>A frame that would exceed the limit is dropped as a whole: nothing of it is delivered.\<close>

lemma kiss_drop_stays:
  "kd_drop d \<Longrightarrow> KISS_FEND \<notin> set bs \<Longrightarrow> feed_steps kiss_process d bs = (d, [])"
  by (induction bs) (auto simp: kiss_process_def)

lemma kiss_overflow_escaped:
  "kiss_collecting d acc \<Longrightarrow> length acc \<le> KISS_MAX_FRAME_SIZE \<Longrightarrow>
     KISS_MAX_FRAME_SIZE < length acc + length bs \<Longrightarrow>
     \<exists>d'. feed_steps kiss_process d (kiss_escape_bytes bs) = (d', []) \<and> kd_drop d'"
proof (induction bs arbitrary: d acc)
  case Nil
  then show ?case by simp
next
  case (Cons b bs)
  let ?e = "if b = KISS_FEND then [KISS_FESC, KISS_TFEND]
    else if b = KISS_FESC then [KISS_FESC, KISS_TFESC] else [b]"
  show ?case
  proof (cases "length acc < KISS_MAX_FRAME_SIZE")
    case True
    with Cons.prems have e: "feed_steps kiss_process d ?e = (d\<lparr>kd_buf := acc @ [b]\<rparr>, [])"
      by (auto simp: kiss_process_def kiss_append_def kiss_collecting_def Let_def)
    have "kiss_collecting (d\<lparr>kd_buf := acc @ [b]\<rparr>) (acc @ [b])"
      using Cons.prems by (simp add: kiss_collecting_def)
    from Cons.IH [OF this] True Cons.prems obtain d' where
      "feed_steps kiss_process (d\<lparr>kd_buf := acc @ [b]\<rparr>) (kiss_escape_bytes bs) = (d', [])" "kd_drop d'"
      by auto
    with e show ?thesis by (auto simp: feed_steps_append)
  next
    case False
    with Cons.prems have "feed_steps kiss_process d ?e = (d\<lparr>kd_drop := True\<rparr>, [])"
      by (auto simp: kiss_process_def kiss_append_def kiss_collecting_def Let_def)
    moreover have "feed_steps kiss_process (d\<lparr>kd_drop := True\<rparr>) (kiss_escape_bytes bs)
      = (d\<lparr>kd_drop := True\<rparr>, [])"
      by (rule kiss_drop_stays) (simp_all add: kiss_escape_no_FEND)
    ultimately show ?thesis by (simp add: feed_steps_append)
  qed
qed

lemma kiss_feed_oversize:
  assumes c: "word_of_int (cmd AND 0xFF) \<notin> {KISS_FEND, KISS_FESC}"
    and l: "KISS_MAX_FRAME_SIZE \<le> length payload"
  shows "kiss_feed d (build_kiss_frame cmd payload) = (kiss_sync, kiss_pending d)"
proof -
  let ?c = "word_of_int (cmd AND 0xFF) :: byte"
  have "\<not> KISS_MAX_FRAME_SIZE \<le> length ([] :: bytes)" by (simp add: kiss_sizes)
  with c have step: "kiss_process kiss_sync ?c = (kiss_sync\<lparr>kd_buf := [?c]\<rparr>, None)"
    by (auto simp: kiss_process_def kiss_append_def kiss_sync_def)
  have "kiss_collecting (kiss_sync\<lparr>kd_buf := [?c]\<rparr>) [?c]"
    by (simp add: kiss_collecting_def kiss_sync_def)
  from kiss_overflow_escaped [OF this, of payload] l obtain d' where
    body: "feed_steps kiss_process (kiss_sync\<lparr>kd_buf := [?c]\<rparr>) (kiss_escape_bytes payload) = (d', [])"
    and "kd_drop d'" by (auto simp: kiss_sizes)
  then have "kiss_pending d' = []" by (simp add: kiss_pending_def)
  with step body show ?thesis
    by (auto simp: kiss_feed_def build_kiss_frame_def feed_steps_append kiss_process_FEND
        kiss_pending_def)
qed

subsection \<open>The interfaces the transport relies on\<close>

definition kiss_inv :: "kiss_decoder \<Rightarrow> bool" where
  "kiss_inv d \<longleftrightarrow> length (kd_buf d) \<le> KISS_MAX_FRAME_SIZE"

lemma kiss_inv_process [inv_intros]: "kiss_inv d \<Longrightarrow> kiss_inv (fst (kiss_process d b))"
  by (auto simp: kiss_inv_def kiss_process_def kiss_append_def Let_def)

lemma kiss_inv_feed [inv_intros]: "kiss_inv d \<Longrightarrow> kiss_inv (fst (kiss_feed d bs))"
  unfolding kiss_feed_def by (rule feed_steps_inv) (rule kiss_inv_process)

lemma kiss_inv_init [simp]: "kiss_inv kiss_init" "kiss_inv kiss_sync" "kiss_inv (kiss_reset d)"
  by (simp_all add: kiss_inv_def kiss_init_def kiss_sync_def kiss_reset_def)

interpretation kiss: stream_decoder kiss_feed kiss_inv
  by unfold_locales (simp_all add: kiss_feed_def feed_steps_append kiss_inv_feed [unfolded kiss_feed_def])

definition vendor_wf :: "int \<times> bytes \<Rightarrow> bool" where
  "vendor_wf m \<longleftrightarrow> length (snd m) \<le> PROTO_MTU"

definition vendor_out :: "int \<times> bytes \<Rightarrow> bytes" where
  "vendor_out m = KISS_CMD_SETHARDWARE # KV4P_VENDOR_PREFIX
     @ [KV4P_PROTOCOL_VERSION, word_of_int (fst m AND 0xFF)] @ snd m"

definition kiss_ready :: "kiss_decoder \<Rightarrow> bool" where
  "kiss_ready d \<longleftrightarrow> kiss_pending d = []"

lemma kiss_feed_vendor:
  assumes "vendor_wf m"
  shows "kiss_feed d (build_vendor_frame (fst m) (snd m)) = (kiss_sync, kiss_pending d @ [vendor_out m])"
proof -
  let ?body = "KV4P_VENDOR_PREFIX @ [KV4P_PROTOCOL_VERSION, word_of_int (fst m AND 0xFF)] @ snd m"
  have "length ?body < KISS_MAX_FRAME_SIZE"
    using assms by (simp add: vendor_wf_def kiss_sizes KV4P_VENDOR_PREFIX_def)
  from kiss_feed_frame [OF _ this, of "uint KISS_CMD_SETHARDWARE" d] show ?thesis
    by (simp add: build_vendor_frame_def vendor_out_def kiss_cmds kiss_consts)
qed

interpretation kiss_vendor: framed_codec kiss_feed kiss_inv
  "\<lambda>m. build_vendor_frame (fst m) (snd m)" vendor_wf vendor_out kiss_ready
  by unfold_locales
    (simp_all add: kiss_feed_vendor kiss_ready_def kiss_pending_def kiss_sync_def)

lemma parse_vendor_out:
  "kiss_parse_frame (vendor_out m) = Some (VendorFrame (word_of_int (fst m AND 0xFF)) (snd m))"
  by (simp add: kiss_parse_frame_def vendor_out_def parse_vendor_def Let_def kiss_cmds kiss_sizes
      KV4P_VENDOR_PREFIX_def)

subsection \<open>Properties\<close>

text \<open>
  C34. A session on the kv4p link is read back exactly: however the operating system cuts the bytes
  of a sequence of vendor frames into reads, the decoder followed by \<open>parse_frame\<close> delivers each
  command and payload once, in order, for every command byte and every payload up to the MTU,
  including payloads full of delimiter and escape bytes.
\<close>

theorem kiss_session_roundtrip:
  assumes "list_all vendor_wf ms"
    and "concat cs = concat (map (\<lambda>m. build_vendor_frame (fst m) (snd m)) ms)"
  shows "map kiss_parse_frame (snd (feed_all kiss_feed kiss_init cs)) =
    map (\<lambda>m. Some (VendorFrame (word_of_int (fst m AND 0xFF)) (snd m))) ms"
proof -
  have "kiss_ready kiss_init" by (simp add: kiss_ready_def kiss_pending_def kiss_init_def)
  from kiss_vendor.session_roundtrip [OF _ this assms]
  have "snd (feed_all kiss_feed kiss_init cs) = map vendor_out ms" by simp
  then show ?thesis by (simp add: parse_vendor_out)
qed

theorem kiss_session_roundtrip_witness:
  "map kiss_parse_frame (snd (feed_all kiss_feed kiss_init
     [[0xC0, 6, 0x4B, 0x56, 0x34], [0x50, 1, 7, 0xDB], [0xDC, 0xDB, 0xDD, 0x41, 0xC0]]))
   = [Some (VendorFrame 7 [0xC0, 0xDB, 0x41])]"
  using kiss_session_roundtrip [of "[(7, [0xC0, 0xDB, 0x41])]"
      "[[0xC0, 6, 0x4B, 0x56, 0x34], [0x50, 1, 7, 0xDB], [0xDC, 0xDB, 0xDD, 0x41, 0xC0]]"]
  by (simp add: vendor_wf_def build_vendor_frame_def build_kiss_frame_def kiss_consts kiss_cmds
      kiss_sizes KV4P_VENDOR_PREFIX_def KV4P_PROTOCOL_VERSION_def Let_def)

text \<open>The decoder resynchronises on the next frame from any state, and a frame whose decoded length
  would exceed \<open>KISS_MAX_FRAME_SIZE\<close> is dropped whole, never truncated: after one built frame the
  decoder is back at the clean state and has delivered what was pending before, followed by the frame
  if and only if it fits.
\<close>

theorem kiss_frame_resync_or_drop:
  assumes "word_of_int (cmd AND 0xFF) \<notin> {KISS_FEND, KISS_FESC}"
  shows "kiss_feed d (build_kiss_frame cmd payload) =
    (kiss_sync, kiss_pending d @
       (if length payload < KISS_MAX_FRAME_SIZE then [word_of_int (cmd AND 0xFF) # payload] else []))"
  using kiss_feed_frame [OF assms] kiss_feed_oversize [OF assms] by simp

theorem kiss_frame_resync_or_drop_witness:
  "kiss_feed \<lparr>kd_buf = [9], kd_escape = True, kd_drop = True, kd_in_frame = True\<rparr> (build_kiss_frame 0 [0xC0])
   = (kiss_sync, [[0, 0xC0]])"
  using kiss_frame_resync_or_drop [of 0 "\<lparr>kd_buf = [9], kd_escape = True, kd_drop = True, kd_in_frame = True\<rparr>"
      "[0xC0]"]
  by (simp add: kiss_consts kiss_sizes kiss_pending_def)

end
