(* ===== verification/Kv4pStructs.thy ===== *)
theory Kv4pStructs
  imports StructPack
begin

unbundle bit_operations_syntax

section \<open>The packed structs of the kv4p protocol\<close>

text \<open>
  \<open>radio_server/backends/kv4p/frames.py\<close>: the flag words and the \<open>Version\<close>,
  \<open>HostDesiredState\<close>, \<open>DeviceState\<close>, \<open>Hello\<close> and \<open>WindowUpdate\<close> dataclasses with
  their \<open>pack\<close> and \<open>unpack\<close>. Field values are Python ints; a value that does not fit its
  field makes \<open>pack\<close> raise, as \<open>struct.pack\<close> does. Floats are carried as binary32 bit patterns
  (see StructPack).
\<close>

subsection \<open>Flag words\<close>

definition flag_bit :: "nat \<Rightarrow> int" where "flag_bit n = 2 ^ n"

datatype host_state_flag =
    HsRadioConfigValid | HsPttRequested | HsRxAudioOpen | HsHighPower | HsRssiEnabled
  | HsFilterPre | HsFilterHigh | HsFilterLow | HsTxAllowed | HsEnableStatusReports

fun host_flag_value :: "host_state_flag \<Rightarrow> int" where
  "host_flag_value HsRadioConfigValid = flag_bit 0"
| "host_flag_value HsPttRequested = flag_bit 1"
| "host_flag_value HsRxAudioOpen = flag_bit 2"
| "host_flag_value HsHighPower = flag_bit 3"
| "host_flag_value HsRssiEnabled = flag_bit 4"
| "host_flag_value HsFilterPre = flag_bit 5"
| "host_flag_value HsFilterHigh = flag_bit 6"
| "host_flag_value HsFilterLow = flag_bit 7"
| "host_flag_value HsTxAllowed = flag_bit 11"
| "host_flag_value HsEnableStatusReports = flag_bit 12"

datatype device_state_flag =
    DsRadioConfigValid | DsPttRequested | DsRxAudioOpen | DsHighPower | DsRssiEnabled
  | DsFilterPre | DsFilterHigh | DsFilterLow | DsPhysPttDown | DsTxActive | DsSquelched
  | DsTxAllowed | DsEnableStatusReports

fun device_flag_value :: "device_state_flag \<Rightarrow> int" where
  "device_flag_value DsRadioConfigValid = flag_bit 0"
| "device_flag_value DsPttRequested = flag_bit 1"
| "device_flag_value DsRxAudioOpen = flag_bit 2"
| "device_flag_value DsHighPower = flag_bit 3"
| "device_flag_value DsRssiEnabled = flag_bit 4"
| "device_flag_value DsFilterPre = flag_bit 5"
| "device_flag_value DsFilterHigh = flag_bit 6"
| "device_flag_value DsFilterLow = flag_bit 7"
| "device_flag_value DsPhysPttDown = flag_bit 8"
| "device_flag_value DsTxActive = flag_bit 9"
| "device_flag_value DsSquelched = flag_bit 10"
| "device_flag_value DsTxAllowed = flag_bit 11"
| "device_flag_value DsEnableStatusReports = flag_bit 12"

definition HOST_STATE_SESSION_FLAG_MASK :: int where
  "HOST_STATE_SESSION_FLAG_MASK =
     host_flag_value HsRxAudioOpen OR host_flag_value HsEnableStatusReports"

definition HOST_STATE_GLOBAL_FLAG_MASK :: int where
  "HOST_STATE_GLOBAL_FLAG_MASK =
     host_flag_value HsRadioConfigValid OR host_flag_value HsPttRequested
     OR host_flag_value HsHighPower OR host_flag_value HsRssiEnabled OR host_flag_value HsFilterPre
     OR host_flag_value HsFilterHigh OR host_flag_value HsFilterLow OR host_flag_value HsTxAllowed"

subsection \<open>The structs\<close>

record kv4p_version =
  ver :: int
  ver_radio_module_status :: int
  window_size :: int
  rf_module_type :: int
  min_radio_freq :: int
  max_radio_freq :: int
  features :: int

definition version_format :: "fmt list" where
  "version_format = [FmtH, Fmtb, FmtI, FmtB, Fmtf, Fmtf, FmtB]"

definition version_fields :: "kv4p_version \<Rightarrow> int list" where
  "version_fields v = [ver v, ver_radio_module_status v, window_size v, rf_module_type v,
     min_radio_freq v, max_radio_freq v, features v]"

definition version_pack :: "kv4p_version \<Rightarrow> exn + bytes" where
  "version_pack v = struct_pack version_format (version_fields v)"

definition version_unpack :: "bytes \<Rightarrow> exn + kv4p_version" where
  "version_unpack data =
     (case struct_unpack version_format data of
        Inr [a, b, c, d, e, f, g] \<Rightarrow>
          Inr \<lparr>ver = a, ver_radio_module_status = b, window_size = c, rf_module_type = d,
               min_radio_freq = e, max_radio_freq = f, features = g\<rparr>
      | _ \<Rightarrow> Inl StructError)"

record host_desired_state =
  hds_sequence :: int
  hds_memory_id :: int
  hds_flags :: int
  hds_bw :: int
  hds_freq_tx :: int
  hds_freq_rx :: int
  hds_ctcss_tx :: int
  hds_squelch :: int
  hds_ctcss_rx :: int

definition hds_format :: "fmt list" where
  "hds_format = [FmtI, Fmti, FmtH, FmtB, Fmtf, Fmtf, FmtB, FmtB, FmtB]"

definition hds_fields :: "host_desired_state \<Rightarrow> int list" where
  "hds_fields h = [hds_sequence h, hds_memory_id h, hds_flags h, hds_bw h, hds_freq_tx h,
     hds_freq_rx h, hds_ctcss_tx h, hds_squelch h, hds_ctcss_rx h]"

definition hds_pack :: "host_desired_state \<Rightarrow> exn + bytes" where
  "hds_pack h = struct_pack hds_format (hds_fields h)"

definition hds_unpack :: "bytes \<Rightarrow> exn + host_desired_state" where
  "hds_unpack data =
     (case struct_unpack hds_format data of
        Inr [a, b, c, d, e, f, g, h, i] \<Rightarrow>
          Inr \<lparr>hds_sequence = a, hds_memory_id = b, hds_flags = c, hds_bw = d, hds_freq_tx = e,
               hds_freq_rx = f, hds_ctcss_tx = g, hds_squelch = h, hds_ctcss_rx = i\<rparr>
      | _ \<Rightarrow> Inl StructError)"

record device_state =
  ds_applied_sequence :: int
  ds_memory_id :: int
  ds_flags :: int
  ds_bw :: int
  ds_freq_tx :: int
  ds_freq_rx :: int
  ds_ctcss_tx :: int
  ds_squelch :: int
  ds_ctcss_rx :: int
  ds_radio_module_status :: int
  ds_mode :: int
  ds_last_error :: int
  ds_latest_rssi :: int

definition ds_format :: "fmt list" where
  "ds_format = [FmtI, Fmti, FmtH, FmtB, Fmtf, Fmtf, FmtB, FmtB, FmtB, Fmtb, FmtB, FmtB, FmtB]"

definition ds_fields :: "device_state \<Rightarrow> int list" where
  "ds_fields d = [ds_applied_sequence d, ds_memory_id d, ds_flags d, ds_bw d, ds_freq_tx d,
     ds_freq_rx d, ds_ctcss_tx d, ds_squelch d, ds_ctcss_rx d, ds_radio_module_status d, ds_mode d,
     ds_last_error d, ds_latest_rssi d]"

definition ds_pack :: "device_state \<Rightarrow> exn + bytes" where
  "ds_pack d = struct_pack ds_format (ds_fields d)"

definition ds_unpack :: "bytes \<Rightarrow> exn + device_state" where
  "ds_unpack data =
     (case struct_unpack ds_format data of
        Inr [a, b, c, d, e, f, g, h, i, j, k, l, m] \<Rightarrow>
          Inr \<lparr>ds_applied_sequence = a, ds_memory_id = b, ds_flags = c, ds_bw = d, ds_freq_tx = e,
               ds_freq_rx = f, ds_ctcss_tx = g, ds_squelch = h, ds_ctcss_rx = i,
               ds_radio_module_status = j, ds_mode = k, ds_last_error = l, ds_latest_rssi = m\<rparr>
      | _ \<Rightarrow> Inl StructError)"

record kv4p_hello =
  hello_version :: kv4p_version
  hello_device_state :: device_state

definition VERSION_SIZE :: nat where "VERSION_SIZE = calcsize version_format"
definition DEVICE_STATE_SIZE :: nat where "DEVICE_STATE_SIZE = calcsize ds_format"
definition HELLO_SIZE :: nat where "HELLO_SIZE = VERSION_SIZE + DEVICE_STATE_SIZE"

definition kv4p_hello_pack :: "kv4p_hello \<Rightarrow> exn + bytes" where
  "kv4p_hello_pack h =
     (case version_pack (hello_version h) of
        Inl e \<Rightarrow> Inl e
      | Inr v \<Rightarrow> (case ds_pack (hello_device_state h) of Inl e \<Rightarrow> Inl e | Inr d \<Rightarrow> Inr (v @ d)))"

definition kv4p_hello_unpack :: "bytes \<Rightarrow> exn + kv4p_hello" where
  "kv4p_hello_unpack data =
     (if length data \<noteq> HELLO_SIZE then Inl ValueError
      else case version_unpack (take VERSION_SIZE data) of
             Inl e \<Rightarrow> Inl e
           | Inr v \<Rightarrow>
               (case ds_unpack (drop VERSION_SIZE data) of
                  Inl e \<Rightarrow> Inl e
                | Inr d \<Rightarrow> Inr \<lparr>hello_version = v, hello_device_state = d\<rparr>))"

definition window_update_pack :: "int \<Rightarrow> exn + bytes" where
  "window_update_pack n = struct_pack [FmtI] [n]"

definition window_update_unpack :: "bytes \<Rightarrow> exn + int" where
  "window_update_unpack data =
     (case struct_unpack [FmtI] data of Inr [a] \<Rightarrow> Inr a | _ \<Rightarrow> Inl StructError)"

subsection \<open>Round trips and sizes\<close>

lemma kv4p_sizes [simp]:
  "calcsize version_format = 17" "calcsize hds_format = 22" "calcsize ds_format = 26"
  by (simp_all add: version_format_def hds_format_def ds_format_def)

lemma version_roundtrip [roundtrip_intros]: "version_pack v = Inr bs \<Longrightarrow> version_unpack bs = Inr v"
  by (simp add: version_pack_def version_unpack_def struct_roundtrip [of version_format] version_fields_def)

lemma hds_roundtrip [roundtrip_intros]: "hds_pack h = Inr bs \<Longrightarrow> hds_unpack bs = Inr h"
  by (simp add: hds_pack_def hds_unpack_def struct_roundtrip [of hds_format] hds_fields_def)

lemma ds_roundtrip [roundtrip_intros]: "ds_pack d = Inr bs \<Longrightarrow> ds_unpack bs = Inr d"
  by (simp add: ds_pack_def ds_unpack_def struct_roundtrip [of ds_format] ds_fields_def)

lemma window_update_roundtrip [roundtrip_intros]:
  "window_update_pack n = Inr bs \<Longrightarrow> window_update_unpack bs = Inr n"
  unfolding window_update_pack_def by (drule struct_roundtrip) (simp add: window_update_unpack_def)

lemma version_pack_length: "version_pack v = Inr bs \<Longrightarrow> length bs = VERSION_SIZE"
  by (simp add: version_pack_def VERSION_SIZE_def struct_pack_length)

lemma ds_pack_length: "ds_pack d = Inr bs \<Longrightarrow> length bs = DEVICE_STATE_SIZE"
  by (simp add: ds_pack_def DEVICE_STATE_SIZE_def struct_pack_length)

lemma kv4p_hello_roundtrip [roundtrip_intros]:
  "kv4p_hello_pack h = Inr bs \<Longrightarrow> kv4p_hello_unpack bs = Inr h"
  by (auto simp: kv4p_hello_pack_def kv4p_hello_unpack_def HELLO_SIZE_def version_pack_length
      ds_pack_length version_roundtrip ds_roundtrip split: sum.splits)

text \<open>Unpacking a buffer of the right length always succeeds, and re-packs to the same bytes.\<close>

lemma ds_unpack_total: "length bs = 26 \<Longrightarrow> \<exists>d. ds_unpack bs = Inr d \<and> ds_pack d = Inr bs"
proof -
  assume "length bs = 26"
  then obtain vs where vs: "struct_unpack ds_format bs = Inr vs" by (simp add: struct_unpack_def)
  from struct_unpack_length [OF vs] have "length vs = 13" by (simp add: ds_format_def)
  then obtain a b c d e f g h i j k l m where "vs = [a, b, c, d, e, f, g, h, i, j, k, l, m]"
    by (auto simp: eval_nat_numeral length_Suc_conv)
  with vs struct_unroundtrip [OF vs] show ?thesis
    by (simp add: ds_unpack_def ds_pack_def ds_fields_def)
qed

lemma version_unpack_total: "length bs = 17 \<Longrightarrow> \<exists>v. version_unpack bs = Inr v \<and> version_pack v = Inr bs"
proof -
  assume "length bs = 17"
  then obtain vs where vs: "struct_unpack version_format bs = Inr vs" by (simp add: struct_unpack_def)
  from struct_unpack_length [OF vs] have "length vs = 7" by (simp add: version_format_def)
  then obtain a b c d e f g where "vs = [a, b, c, d, e, f, g]"
    by (auto simp: eval_nat_numeral length_Suc_conv)
  with vs struct_unroundtrip [OF vs] show ?thesis
    by (simp add: version_unpack_def version_pack_def version_fields_def)
qed

lemma hds_unpack_total: "length bs = 22 \<Longrightarrow> \<exists>h. hds_unpack bs = Inr h \<and> hds_pack h = Inr bs"
proof -
  assume "length bs = 22"
  then obtain vs where vs: "struct_unpack hds_format bs = Inr vs" by (simp add: struct_unpack_def)
  from struct_unpack_length [OF vs] have "length vs = 9" by (simp add: hds_format_def)
  then obtain a b c d e f g h i where "vs = [a, b, c, d, e, f, g, h, i]"
    by (auto simp: eval_nat_numeral length_Suc_conv)
  with vs struct_unroundtrip [OF vs] show ?thesis
    by (simp add: hds_unpack_def hds_pack_def hds_fields_def)
qed

lemma hds_pack_length: "hds_pack h = Inr bs \<Longrightarrow> length bs = 22"
  using struct_pack_length [of hds_format "hds_fields h" bs] by (simp add: hds_pack_def)

lemma kv4p_hello_unpack_ok:
  "length bs = HELLO_SIZE \<Longrightarrow> \<exists>h. kv4p_hello_unpack bs = Inr h \<and> kv4p_hello_pack h = Inr bs"
proof -
  assume l: "length bs = HELLO_SIZE"
  then have "length (take VERSION_SIZE bs) = 17" "length (drop VERSION_SIZE bs) = 26"
    by (simp_all add: HELLO_SIZE_def VERSION_SIZE_def DEVICE_STATE_SIZE_def)
  from version_unpack_total [OF this(1)] ds_unpack_total [OF this(2)] obtain v d where
    "version_unpack (take VERSION_SIZE bs) = Inr v" "version_pack v = Inr (take VERSION_SIZE bs)"
    "ds_unpack (drop VERSION_SIZE bs) = Inr d" "ds_pack d = Inr (drop VERSION_SIZE bs)" by blast
  with l have "kv4p_hello_unpack bs = Inr \<lparr>hello_version = v, hello_device_state = d\<rparr>"
    "kv4p_hello_pack \<lparr>hello_version = v, hello_device_state = d\<rparr> = Inr bs"
    by (simp_all add: kv4p_hello_unpack_def kv4p_hello_pack_def)
  then show ?thesis by blast
qed

lemma host_session_global_disjoint:
  "HOST_STATE_SESSION_FLAG_MASK AND HOST_STATE_GLOBAL_FLAG_MASK = 0"
  by (simp add: HOST_STATE_SESSION_FLAG_MASK_def HOST_STATE_GLOBAL_FLAG_MASK_def flag_bit_def)

subsection \<open>Properties\<close>

text \<open>The HELLO payload is a bijection between 43-byte buffers and well-ranged values: unpacking
  succeeds exactly on buffers of \<open>HELLO_SIZE\<close> bytes (anything else raises \<open>ValueError\<close>), and
  packing the value it returns gives the same bytes back.
\<close>

theorem kv4p_hello_bijection:
  "(kv4p_hello_unpack bs = Inr h \<longleftrightarrow> kv4p_hello_pack h = Inr bs) \<and>
   (kv4p_hello_unpack bs = Inl ValueError \<longleftrightarrow> length bs \<noteq> HELLO_SIZE)"
proof -
  have len: "kv4p_hello_unpack bs = Inr h' \<Longrightarrow> length bs = HELLO_SIZE" for h'
    by (auto simp: kv4p_hello_unpack_def split: if_splits)
  have "kv4p_hello_unpack bs = Inr h \<longleftrightarrow> kv4p_hello_pack h = Inr bs"
    using kv4p_hello_unpack_ok [of bs] len kv4p_hello_roundtrip by fastforce
  moreover have "kv4p_hello_unpack bs = Inl ValueError \<longleftrightarrow> length bs \<noteq> HELLO_SIZE"
    using kv4p_hello_unpack_ok [of bs] by (auto simp: kv4p_hello_unpack_def)
  ultimately show ?thesis by blast
qed

end
