(* ===== verification/Uvk5Framing.thy ===== *)
theory Uvk5Framing
  imports StreamCodec StructPack
begin

unbundle bit_operations_syntax

section \<open>Dock-protocol framing of the UV-K5 serial link\<close>

text \<open>
  \<open>radio_server/backends/uvk5/frames.py\<close>, first half: the CRC-16, the XOR obfuscation, the
  frame builder and the streaming deframer \<open>Uvk5Decoder\<close>. The CRC works on Python's unbounded
  integers with the masks of the source. The theory shows that the decoder reads back what the
  builder writes (with and without CRC checking, obfuscated or not, with line noise between
  frames), that it never buffers more than \<open>MAX_PAYLOAD_SIZE\<close> bytes, and that with CRC checking
  on a frame with one damaged body byte is not delivered.
\<close>

definition UVK5_PREAMBLE :: bytes where "UVK5_PREAMBLE = [0xAB, 0xCD]"
definition UVK5_FOOTER :: bytes where "UVK5_FOOTER = [0xDC, 0xBA]"
definition OBFUSCATION :: bytes where
  "OBFUSCATION =
    [0x16, 0x6C, 0x14, 0xE6, 0x2E, 0x91, 0x0D, 0x40,
     0x21, 0x35, 0xD5, 0x40, 0x13, 0x03, 0xE9, 0x80]"
definition MAX_PAYLOAD_SIZE :: nat where "MAX_PAYLOAD_SIZE = 254"
definition FRAME_OVERHEAD :: nat where "FRAME_OVERHEAD = 8"
definition INNER_HEADER :: "fmt list" where "INNER_HEADER = [FmtH, FmtH]"

lemmas uvk5_consts = UVK5_PREAMBLE_def UVK5_FOOTER_def

subsection \<open>CRC-16 and obfuscation\<close>

definition crc16_bit :: "int \<Rightarrow> int" where
  "crc16_bit crc =
     (let c = push_bit 1 crc; d = (if c AND 0x10000 \<noteq> 0 then c XOR 0x1021 else c) in d AND 0xFFFF)"

definition crc16_byte :: "int \<Rightarrow> byte \<Rightarrow> int" where
  "crc16_byte crc b = (crc16_bit ^^ 8) (crc XOR push_bit 8 (uint b))"

definition crc16 :: "bytes \<Rightarrow> int" where
  "crc16 data = foldl crc16_byte 0 data"

definition obfuscate :: "bytes \<Rightarrow> bytes" where
  "obfuscate data = map (\<lambda>(i, b). b XOR OBFUSCATION ! (i mod 16)) (enumerate 0 data)"

subsection \<open>Building a frame\<close>

definition uvk5_body :: "bytes \<Rightarrow> bool \<Rightarrow> bytes" where
  "uvk5_body payload obf =
     (let body = payload @ le_bytes 2 (crc16 payload) in if obf then obfuscate body else body)"

definition build_frame :: "int \<Rightarrow> bytes \<Rightarrow> bool \<Rightarrow> exn + bytes" where
  "build_frame command params obfuscate_body =
     (case struct_pack INNER_HEADER [command, int (length params)] of
        Inl e \<Rightarrow> Inl e
      | Inr hdr \<Rightarrow>
          (let payload = hdr @ params in
           if MAX_PAYLOAD_SIZE < length payload then Inl ValueError
           else case struct_pack [FmtH] [crc16 payload] of
                  Inl e \<Rightarrow> Inl e
                | Inr crc \<Rightarrow>
                    (case struct_pack [FmtH] [int (length payload)] of
                       Inl e \<Rightarrow> Inl e
                     | Inr len \<Rightarrow>
                         (let body = payload @ crc;
                              body' = (if obfuscate_body then obfuscate body else body)
                          in Inr (UVK5_PREAMBLE @ len @ body' @ UVK5_FOOTER)))))"

subsection \<open>The streaming deframer\<close>

datatype uvk5_stage =
  StIdle | StCd | StLenLo | StLenHi | StData | StCrcLo | StCrcHi | StDc | StBa

record uvk5_decoder =
  ud_obfuscated :: bool
  ud_validate_crc :: bool
  ud_stage :: uvk5_stage
  ud_size :: int
  ud_buf :: bytes
  ud_crc :: bytes

definition uvk5_reset :: "uvk5_decoder \<Rightarrow> uvk5_decoder" where
  "uvk5_reset d = d\<lparr>ud_stage := StIdle, ud_size := 0, ud_buf := [], ud_crc := []\<rparr>"

definition uvk5_init :: "bool \<Rightarrow> bool \<Rightarrow> uvk5_decoder" where
  "uvk5_init obfuscated validate_crc =
     \<lparr>ud_obfuscated = obfuscated, ud_validate_crc = validate_crc,
      ud_stage = StIdle, ud_size = 0, ud_buf = [], ud_crc = []\<rparr>"

text \<open>\<open>body[: size]\<close> with a non-negative size; \<open>struct.unpack("<H", crc_bytes)\<close> of the rest.\<close>

definition uvk5_finish :: "uvk5_decoder \<Rightarrow> bytes option" where
  "uvk5_finish d =
     (let body0 = ud_buf d @ ud_crc d;
          body = (if ud_obfuscated d then obfuscate body0 else body0);
          payload = take (nat (ud_size d)) body;
          crc_bytes = drop (nat (ud_size d)) body
      in if ud_validate_crc d \<and> struct_unpack [FmtH] crc_bytes \<noteq> Inr [crc16 payload] then None
         else Some payload)"

definition uvk5_step :: "uvk5_decoder \<Rightarrow> byte \<Rightarrow> uvk5_decoder \<times> bytes option" where
  "uvk5_step d b =
     (case ud_stage d of
        StIdle \<Rightarrow> (if b = UVK5_PREAMBLE ! 0 then d\<lparr>ud_stage := StCd\<rparr> else d, None)
      | StCd \<Rightarrow> (d\<lparr>ud_stage := (if b = UVK5_PREAMBLE ! 1 then StLenLo else StIdle)\<rparr>, None)
      | StLenLo \<Rightarrow> (d\<lparr>ud_size := uint b, ud_stage := StLenHi\<rparr>, None)
      | StLenHi \<Rightarrow>
          (let n = ud_size d OR push_bit 8 (uint b) in
           (d\<lparr>ud_size := n, ud_buf := [], ud_crc := [],
              ud_stage := (if n = 0 \<or> int MAX_PAYLOAD_SIZE < n then StIdle else StData)\<rparr>, None))
      | StData \<Rightarrow>
          (let buf = ud_buf d @ [b] in
           (d\<lparr>ud_buf := buf,
              ud_stage := (if ud_size d \<le> int (length buf) then StCrcLo else StData)\<rparr>, None))
      | StCrcLo \<Rightarrow> (d\<lparr>ud_crc := ud_crc d @ [b], ud_stage := StCrcHi\<rparr>, None)
      | StCrcHi \<Rightarrow> (d\<lparr>ud_crc := ud_crc d @ [b], ud_stage := StDc\<rparr>, None)
      | StDc \<Rightarrow> (d\<lparr>ud_stage := (if b = UVK5_FOOTER ! 0 then StBa else StIdle)\<rparr>, None)
      | StBa \<Rightarrow> (d\<lparr>ud_stage := StIdle\<rparr>, if b \<noteq> UVK5_FOOTER ! 1 then None else uvk5_finish d))"

definition uvk5_feed :: "uvk5_decoder \<Rightarrow> bytes \<Rightarrow> uvk5_decoder \<times> bytes list" where
  "uvk5_feed = feed_steps uvk5_step"

subsection \<open>The CRC is 16 bits wide and each of its steps is injective\<close>

lemma mask_16: "(x :: int) AND 0xFFFF = take_bit 16 x"
  by (simp add: take_bit_eq_mask mask_numeral)

lemma crc16_bit_range: "0 \<le> crc16_bit c \<and> crc16_bit c < 65536"
  by (simp add: crc16_bit_def Let_def mask_16 take_bit_eq_mod)

lemma crc16_bit_double:
  "crc16_bit c = take_bit 16 (if (2 * c) AND 0x10000 \<noteq> 0 then (2 * c) XOR 0x1021 else 2 * c)"
proof -
  have "push_bit 1 c = 2 * c" by (simp add: push_bit_eq_mult)
  then show ?thesis by (simp only: crc16_bit_def Let_def mask_16)
qed

text \<open>The step can be undone: bit 0 of the result says whether the polynomial was applied.\<close>

definition crc16_unbit :: "int \<Rightarrow> int" where
  "crc16_unbit r = (if odd r then ((r XOR 0x1021) + 0x10000) div 2 else r div 2)"

lemma crc16_unbit_bit:
  assumes "0 \<le> c" "c < 65536"
  shows "crc16_unbit (crc16_bit c) = c"
proof (cases "c < 32768")
  case True
  with assms have t: "take_bit 17 (2 * c) = 2 * c" "take_bit 16 (2 * c) = 2 * c"
    by (simp_all add: take_bit_eq_mod)
  have "(2 * c) AND 0x10000 = 0"
  proof (rule bit_eqI)
    fix n
    have "\<not> bit (2 * c) 16"
      using True assms by (simp add: bit_iff_odd)
    moreover have "bit (0x10000 :: int) n \<longleftrightarrow> n = 16"
      using bit_exp_iff [of 16 n, where 'a = int] by auto
    ultimately show "bit ((2 * c) AND 0x10000) n \<longleftrightarrow> bit (0 :: int) n"
      by (auto simp: bit_and_iff)
  qed
  then have "crc16_bit c = 2 * c" by (simp add: crc16_bit_double t)
  then show ?thesis by (simp add: crc16_unbit_def)
next
  case False
  with assms have "c div 32768 = 1"
    by (intro int_div_pos_eq [of c 32768 1 "c - 32768"]) auto
  then have b16: "bit (2 * c) 16" by (simp add: bit_iff_odd)
  have "bit ((2 * c) AND 0x10000) 16"
    using b16 bit_exp_iff [of 16 16, where 'a = int] by (simp add: bit_and_iff)
  then have nz: "(2 * c) AND 0x10000 \<noteq> 0" by (metis bit_0_eq bot_apply bot_bool_def)
  from False assms have t: "take_bit 16 (2 * c) = 2 * c - 65536"
    using int_mod_pos_eq [of "2 * c" 65536 1 "2 * c - 65536"] by (simp add: take_bit_eq_mod)
  have "take_bit 16 (0x1021 :: int) = 0x1021" by (simp add: take_bit_eq_mod)
  with nz have v: "crc16_bit c = (2 * c - 65536) XOR 0x1021"
    by (simp add: crc16_bit_double take_bit_xor t)
  have "odd ((2 * c - 65536) XOR 0x1021)" by (simp add: even_xor_iff)
  moreover have "((2 * c - 65536) XOR 0x1021) XOR 0x1021 = 2 * c - (65536 :: int)"
    by (simp only: xor.assoc xor_self_eq xor.right_neutral)
  ultimately show ?thesis by (simp add: crc16_unbit_def v)
qed

lemma crc16_bit_inj:
  "0 \<le> c \<Longrightarrow> c < 65536 \<Longrightarrow> 0 \<le> d \<Longrightarrow> d < 65536 \<Longrightarrow> crc16_bit c = crc16_bit d \<Longrightarrow> c = d"
  by (metis crc16_unbit_bit)

definition u16 :: "int \<Rightarrow> bool" where "u16 c \<longleftrightarrow> 0 \<le> c \<and> c < 65536"

lemma u16_bits: "u16 c \<Longrightarrow> u16 ((crc16_bit ^^ n) c)"
  using crc16_bit_range by (cases n) (auto simp: u16_def)

lemma crc16_bits_inj:
  "u16 c \<Longrightarrow> u16 d \<Longrightarrow> (crc16_bit ^^ n) c = (crc16_bit ^^ n) d \<Longrightarrow> c = d"
proof (induction n)
  case (Suc n)
  note u = u16_bits [OF Suc.prems(1), of n] u16_bits [OF Suc.prems(2), of n]
  from Suc.prems(3) have "crc16_bit ((crc16_bit ^^ n) c) = crc16_bit ((crc16_bit ^^ n) d)" by simp
  with u have "(crc16_bit ^^ n) c = (crc16_bit ^^ n) d"
    unfolding u16_def by (blast intro: crc16_bit_inj)
  with Suc show ?case by blast
qed simp

lemma u16_xor_byte: "u16 c \<Longrightarrow> u16 (c XOR push_bit 8 (uint (b :: byte)))"
proof -
  assume c: "u16 c"
  have "0 \<le> uint b" "uint b < 256" by simp_all
  then have "take_bit 16 (push_bit 8 (uint b)) = push_bit 8 (uint b)"
    by (simp add: take_bit_eq_mod push_bit_eq_mult)
  moreover from c have "take_bit 16 c = c" by (simp add: u16_def take_bit_eq_mod)
  ultimately have "take_bit 16 (c XOR push_bit 8 (uint b)) = c XOR push_bit 8 (uint b)"
    by (simp add: take_bit_xor)
  moreover have "0 \<le> take_bit 16 x \<and> take_bit 16 x < 65536" for x :: int
    by (simp add: take_bit_eq_mod)
  ultimately show ?thesis unfolding u16_def by metis
qed

lemma u16_crc_byte: "u16 c \<Longrightarrow> u16 (crc16_byte c b)"
  by (simp add: crc16_byte_def u16_bits u16_xor_byte)

lemma u16_crc_fold: "u16 c \<Longrightarrow> u16 (foldl crc16_byte c bs)"
  by (induction bs arbitrary: c) (simp_all add: u16_crc_byte)

lemma crc16_range [simp]: "u16 (crc16 bs)"
  unfolding crc16_def by (rule u16_crc_fold) (simp add: u16_def)

lemma xor_right_cancel: "(a :: int) XOR x = b XOR x \<Longrightarrow> a = b"
  by (metis xor.assoc xor_self_eq xor.right_neutral)

lemma crc16_byte_inj_crc: "u16 c \<Longrightarrow> u16 d \<Longrightarrow> crc16_byte c b = crc16_byte d b \<Longrightarrow> c = d"
  unfolding crc16_byte_def
  by (drule (2) crc16_bits_inj [OF u16_xor_byte u16_xor_byte]) (rule xor_right_cancel)

lemma crc16_byte_inj_byte: "u16 c \<Longrightarrow> crc16_byte c a = crc16_byte c b \<Longrightarrow> a = b"
proof -
  assume u: "u16 c" and e: "crc16_byte c a = crc16_byte c b"
  from crc16_bits_inj [OF u16_xor_byte [OF u] u16_xor_byte [OF u] e [unfolded crc16_byte_def]]
  have "c XOR push_bit 8 (uint a) = c XOR push_bit 8 (uint b)" .
  then have "push_bit 8 (uint a) = push_bit 8 (uint b)"
    by (metis xor.commute xor_right_cancel)
  then show ?thesis by (simp add: push_bit_eq_mult word_uint_eq_iff)
qed

lemma crc16_fold_inj:
  "u16 c \<Longrightarrow> u16 d \<Longrightarrow> foldl crc16_byte c bs = foldl crc16_byte d bs \<Longrightarrow> c = d"
proof (induction bs arbitrary: c d)
  case (Cons b bs)
  from Cons.IH [of "crc16_byte c b" "crc16_byte d b"] Cons.prems
  have "crc16_byte c b = crc16_byte d b" by (simp add: u16_crc_byte)
  with Cons.prems show ?case by (blast dest: crc16_byte_inj_crc)
qed simp

lemma crc16_one_byte: "crc16 (xs @ a # ys) = crc16 (xs @ b # ys) \<longleftrightarrow> a = b"
proof -
  have u: "u16 (foldl crc16_byte 0 xs)" by (rule u16_crc_fold) (simp add: u16_def)
  show ?thesis
    using crc16_fold_inj [OF u16_crc_byte [OF u] u16_crc_byte [OF u], of a ys b]
      crc16_byte_inj_byte [OF u, of a b]
    by (auto simp: crc16_def)
qed

text \<open>Damage in the two CRC bytes themselves is seen as well: they are the CRC, little-endian.\<close>

lemma u16_in_range [simp]: "in_range FmtH (crc16 bs)"
  using crc16_range [of bs] by (simp add: in_range_def fmt_span_def u16_def del: crc16_range)

lemma struct_pack_H [simp]: "in_range FmtH v \<Longrightarrow> struct_pack [FmtH] [v] = Inr (le_bytes 2 v)"
  by simp

lemma struct_unpack_crc: "struct_unpack [FmtH] (le_bytes 2 (crc16 bs)) = Inr [crc16 bs]"
  by (rule struct_roundtrip) simp

subsection \<open>Obfuscation is its own inverse\<close>

lemma length_obfuscate [simp]: "length (obfuscate bs) = length bs"
  by (simp add: obfuscate_def)

lemma obfuscate_eq_Nil [simp]: "obfuscate bs = [] \<longleftrightarrow> bs = []"
  by (simp flip: length_0_conv)

lemma nth_obfuscate:
  "i < length bs \<Longrightarrow> obfuscate bs ! i = bs ! i XOR OBFUSCATION ! (i mod 16)"
  by (simp add: obfuscate_def nth_enumerate_eq)

lemma obfuscate_twice [simp]: "obfuscate (obfuscate bs) = bs"
  by (rule nth_equalityI) (simp_all add: nth_obfuscate)

lemma obfuscate_inj: "obfuscate xs = obfuscate ys \<Longrightarrow> xs = ys"
  by (metis obfuscate_twice)

lemma obfuscate_update:
  "i < length bs \<Longrightarrow> obfuscate (bs[i := b]) = (obfuscate bs)[i := b XOR OBFUSCATION ! (i mod 16)]"
  by (rule nth_equalityI) (auto simp: nth_obfuscate nth_list_update)

subsection \<open>One frame through the decoder\<close>

definition uvk5_payload :: "int \<Rightarrow> bytes \<Rightarrow> bytes" where
  "uvk5_payload command params = le_bytes 2 command @ le_bytes 2 (int (length params)) @ params"

lemma length_uvk5_payload [simp]: "length (uvk5_payload c ps) = length ps + 4"
  by (simp add: uvk5_payload_def)

lemma length_uvk5_body [simp]: "length (uvk5_body payload obf) = length payload + 2"
  by (simp add: uvk5_body_def Let_def)

lemma build_frame_ok:
  "0 \<le> command \<Longrightarrow> command < 65536 \<Longrightarrow> length params \<le> 250 \<Longrightarrow>
   build_frame command params obf =
     Inr (UVK5_PREAMBLE @ le_bytes 2 (int (length params + 4))
       @ uvk5_body (uvk5_payload command params) obf @ UVK5_FOOTER)"
  using u16_in_range [of "uvk5_payload command params"]
  by (simp add: build_frame_def INNER_HEADER_def in_range_def fmt_span_def MAX_PAYLOAD_SIZE_def
      uvk5_body_def uvk5_payload_def Let_def add.commute)

lemma build_frame_too_long:
  "0 \<le> command \<Longrightarrow> command < 65536 \<Longrightarrow> 250 < length params \<Longrightarrow> length params < 65536 \<Longrightarrow>
   build_frame command params obf = Inl ValueError"
  by (simp add: build_frame_def INNER_HEADER_def in_range_def fmt_span_def MAX_PAYLOAD_SIZE_def Let_def)

lemma build_frame_bad:
  "\<not> (0 \<le> command \<and> command < 65536) \<or> 65536 \<le> length params \<Longrightarrow>
   build_frame command params obf = Inl StructError"
  by (auto simp: build_frame_def INNER_HEADER_def in_range_def fmt_span_def)

lemma build_frame_iff:
  "(\<exists>fr. build_frame command params obf = Inr fr) \<longleftrightarrow>
     0 \<le> command \<and> command < 65536 \<and> length params \<le> 250"
  using build_frame_ok [of command params obf] build_frame_too_long [of command params obf]
    build_frame_bad [of command params obf]
  by (cases "0 \<le> command \<and> command < 65536"; cases "length params \<le> 250";
      cases "65536 \<le> length params") auto

lemma or_push_bit_byte: "uint (lo :: byte) OR push_bit 8 (uint (hi :: byte)) = uint lo + 256 * uint hi"
proof -
  have "uint lo AND push_bit 8 (uint hi) = 0"
    by (rule bit_eqI) (auto simp: bit_and_iff bit_push_bit_iff bit_uint_iff)
  then show ?thesis by (simp add: push_bit_eq_mult flip: disjunctive_add_eq_or)
qed

lemma uvk5_collect:
  "ud_stage d = StData \<Longrightarrow> bs \<noteq> [] \<Longrightarrow> int (length (ud_buf d) + length bs) = ud_size d \<Longrightarrow>
   feed_steps uvk5_step d bs = (d\<lparr>ud_buf := ud_buf d @ bs, ud_stage := StCrcLo\<rparr>, [])"
proof (induction bs arbitrary: d)
  case (Cons b bs)
  show ?case
  proof (cases "bs = []")
    case True
    with Cons.prems show ?thesis by (simp add: uvk5_step_def)
  next
    case False
    with Cons.prems have st: "uvk5_step d b = (d\<lparr>ud_buf := ud_buf d @ [b], ud_stage := StData\<rparr>, None)"
      by (cases bs) (auto simp: uvk5_step_def Let_def)
    have "feed_steps uvk5_step (d\<lparr>ud_buf := ud_buf d @ [b], ud_stage := StData\<rparr>) bs =
      (d\<lparr>ud_buf := (ud_buf d @ [b]) @ bs, ud_stage := StCrcLo\<rparr>, [])"
      using Cons.IH [of "d\<lparr>ud_buf := ud_buf d @ [b], ud_stage := StData\<rparr>"] False Cons.prems by simp
    with st show ?thesis by simp
  qed
qed simp

lemma uvk5_skip_noise:
  "ud_stage d = StIdle \<Longrightarrow> UVK5_PREAMBLE ! 0 \<notin> set bs \<Longrightarrow> feed_steps uvk5_step d bs = (d, [])"
  by (induction bs) (auto simp: uvk5_step_def)

lemma uvk5_feed_raw:
  assumes idle: "ud_stage d = StIdle" and n: "1 \<le> n" "n \<le> MAX_PAYLOAD_SIZE"
    and body: "length body = n + 2"
  defines "d' \<equiv> d\<lparr>ud_size := int n, ud_buf := take n body, ud_crc := drop n body, ud_stage := StIdle\<rparr>"
  shows "uvk5_feed d (UVK5_PREAMBLE @ le_bytes 2 (int n) @ body @ UVK5_FOOTER) =
    (d', case uvk5_finish d' of None \<Rightarrow> [] | Some p \<Rightarrow> [p])"
proof -
  let ?d1 = "d\<lparr>ud_size := int n, ud_buf := [], ud_crc := [], ud_stage := StData\<rparr>"
  let ?d2 = "?d1\<lparr>ud_buf := take n body, ud_stage := StCrcLo\<rparr>"
  from n have n256: "n < 256" by (simp add: MAX_PAYLOAD_SIZE_def)
  then have lo: "uint (word_of_int (int n) :: byte) = int n" and hi: "int n div 256 = 0"
    by (simp_all only: uint_byte_mod) auto
  have "le_bytes 2 (int n) = [word_of_int (int n), 0]"
    by (simp add: eval_nat_numeral hi del: of_int_of_nat_eq)
  with idle n n256 lo have s1:
    "feed_steps uvk5_step d (UVK5_PREAMBLE @ le_bytes 2 (int n)) = (?d1, [])"
    by (simp add: uvk5_step_def uvk5_consts Let_def MAX_PAYLOAD_SIZE_def del: of_int_of_nat_eq)
  have s2: "feed_steps uvk5_step ?d1 (take n body) = (?d2, [])"
    using uvk5_collect [of ?d1 "take n body"] n body by (cases body) auto
  from body have "length (drop n body) = 2" by simp
  from length_two_cases [OF this] obtain a b where ab: "drop n body = [a, b]" by blast
  have "uvk5_finish (d'\<lparr>ud_stage := StBa\<rparr>) = uvk5_finish d'"
    by (simp add: uvk5_finish_def)
  then have s3: "feed_steps uvk5_step ?d2 (drop n body @ UVK5_FOOTER) =
      (d', case uvk5_finish d' of None \<Rightarrow> [] | Some p \<Rightarrow> [p])"
    unfolding ab d'_def by (simp add: uvk5_step_def uvk5_consts split: option.splits)
  have "UVK5_PREAMBLE @ le_bytes 2 (int n) @ body @ UVK5_FOOTER =
    (UVK5_PREAMBLE @ le_bytes 2 (int n)) @ take n body @ drop n body @ UVK5_FOOTER" by simp
  then show ?thesis
    unfolding uvk5_feed_def
    by (simp only: feed_steps_append_pair [OF s1 feed_steps_append_pair [OF s2 s3]] append_Nil)
qed

subsection \<open>What the frame decodes to\<close>

definition uvk5_collected :: "uvk5_decoder \<Rightarrow> nat \<Rightarrow> bytes \<Rightarrow> uvk5_decoder" where
  "uvk5_collected d n body =
     d\<lparr>ud_size := int n, ud_buf := take n body, ud_crc := drop n body, ud_stage := StIdle\<rparr>"

lemma uvk5_finish_collected:
  "uvk5_finish (uvk5_collected d n body) =
     (let b = (if ud_obfuscated d then obfuscate body else body) in
      if ud_validate_crc d \<and> struct_unpack [FmtH] (drop n b) \<noteq> Inr [crc16 (take n b)] then None
      else Some (take n b))"
  by (simp add: uvk5_finish_def uvk5_collected_def Let_def)

lemma uvk5_finish_good:
  "uvk5_finish (uvk5_collected d (length payload) (uvk5_body payload (ud_obfuscated d))) = Some payload"
  by (simp add: uvk5_finish_collected uvk5_body_def Let_def struct_unpack_crc)

lemma crc_detects:
  assumes i: "i < length payload + 2" and c: "c \<noteq> (payload @ le_bytes 2 (crc16 payload)) ! i"
  defines "b \<equiv> (payload @ le_bytes 2 (crc16 payload))[i := c]"
  shows "struct_unpack [FmtH] (drop (length payload) b) \<noteq> Inr [crc16 (take (length payload) b)]"
proof (cases "i < length payload")
  case True
  have "payload = take i payload @ payload ! i # drop (Suc i) payload"
    using True by (rule id_take_nth_drop)
  moreover have "payload[i := c] = take i payload @ c # drop (Suc i) payload"
    using True by (rule upd_conv_take_nth_drop)
  moreover have "c \<noteq> payload ! i" using c True by (simp add: nth_append)
  ultimately have "crc16 (payload[i := c]) \<noteq> crc16 payload"
    by (metis crc16_one_byte)
  with True show ?thesis by (simp add: b_def list_update_append struct_unpack_crc)
next
  case False
  let ?j = "i - length payload"
  have "(le_bytes 2 (crc16 payload))[?j := c] \<noteq> le_bytes 2 (crc16 payload)"
  proof
    assume "(le_bytes 2 (crc16 payload))[?j := c] = le_bytes 2 (crc16 payload)"
    then have "(le_bytes 2 (crc16 payload))[?j := c] ! ?j = le_bytes 2 (crc16 payload) ! ?j" by simp
    with False c i show False by (simp add: nth_append)
  qed
  then have "struct_unpack [FmtH] ((le_bytes 2 (crc16 payload))[?j := c]) \<noteq> Inr [crc16 payload]"
    by (metis struct_pack_H struct_unroundtrip sum.inject(2) u16_in_range)
  with False show ?thesis by (simp add: b_def list_update_append)
qed

lemma uvk5_finish_damaged:
  assumes "ud_validate_crc d" and i: "i < length payload + 2"
    and c: "c \<noteq> uvk5_body payload (ud_obfuscated d) ! i"
  shows "uvk5_finish (uvk5_collected d (length payload)
    ((uvk5_body payload (ud_obfuscated d))[i := c])) = None"
proof (cases "ud_obfuscated d")
  case False
  with assms crc_detects [OF i, of c] show ?thesis
    by (simp add: uvk5_finish_collected uvk5_body_def Let_def)
next
  case True
  let ?p = "payload @ le_bytes 2 (crc16 payload)" and ?o = "OBFUSCATION ! (i mod 16)"
  from True c i have "c \<noteq> ?p ! i XOR ?o" by (simp add: uvk5_body_def Let_def nth_obfuscate)
  then have "c XOR ?o \<noteq> ?p ! i" by (metis xor_twice)
  from crc_detects [OF i this] True assms(1) i show ?thesis
    by (simp add: uvk5_finish_collected uvk5_body_def Let_def obfuscate_update)
qed

lemma uvk5_feed_collected:
  assumes "ud_stage d = StIdle" "1 \<le> n" "n \<le> MAX_PAYLOAD_SIZE" "length body = n + 2"
  shows "uvk5_feed d (UVK5_PREAMBLE @ le_bytes 2 (int n) @ body @ UVK5_FOOTER) =
    (uvk5_collected d n body,
     case uvk5_finish (uvk5_collected d n body) of None \<Rightarrow> [] | Some p \<Rightarrow> [p])"
  using uvk5_feed_raw [OF assms] by (simp add: uvk5_collected_def)

subsection \<open>The interfaces the transport relies on\<close>

text \<open>What the decoder holds: never more than one frame of the allowed size.\<close>

definition uvk5_inv :: "uvk5_decoder \<Rightarrow> bool" where
  "uvk5_inv d \<longleftrightarrow>
     length (ud_buf d) \<le> MAX_PAYLOAD_SIZE \<and> length (ud_crc d) \<le> 2 \<and>
     (ud_stage d = StLenHi \<longrightarrow> 0 \<le> ud_size d \<and> ud_size d < 256) \<and>
     (ud_stage d = StData \<longrightarrow> int (length (ud_buf d)) < ud_size d \<and> ud_size d \<le> int MAX_PAYLOAD_SIZE
        \<and> ud_crc d = []) \<and>
     (ud_stage d \<in> {StCrcLo, StCrcHi, StDc, StBa} \<longrightarrow>
        0 < ud_size d \<and> ud_size d \<le> int MAX_PAYLOAD_SIZE) \<and>
     (ud_stage d = StCrcLo \<longrightarrow> int (length (ud_buf d)) = ud_size d \<and> ud_crc d = []) \<and>
     (ud_stage d = StCrcHi \<longrightarrow> int (length (ud_buf d)) = ud_size d \<and> length (ud_crc d) = 1) \<and>
     (ud_stage d \<in> {StDc, StBa} \<longrightarrow> int (length (ud_buf d)) = ud_size d \<and> length (ud_crc d) = 2)"

lemma uvk5_inv_step [inv_intros]: "uvk5_inv d \<Longrightarrow> uvk5_inv (fst (uvk5_step d b))"
proof (cases "ud_stage d = StLenHi")
  case True
  assume inv: "uvk5_inv d"
  define n where "n = (ud_size d OR push_bit 8 (uint b))"
  have "0 \<le> n" using inv True by (simp add: uvk5_inv_def n_def)
  then show ?thesis
    using inv True by (auto simp: uvk5_inv_def uvk5_step_def Let_def simp flip: n_def)
next
  case False
  assume "uvk5_inv d"
  with False show ?thesis
    by (cases "ud_stage d") (auto simp: uvk5_inv_def uvk5_step_def Let_def)
qed

lemma uvk5_step_output:
  "uvk5_inv d \<Longrightarrow> snd (uvk5_step d b) = Some p \<Longrightarrow> 0 < length p \<and> length p \<le> MAX_PAYLOAD_SIZE"
  by (cases "ud_stage d")
    (auto simp: uvk5_inv_def uvk5_step_def uvk5_finish_def Let_def split: if_splits)

lemma uvk5_feed_outputs:
  assumes "uvk5_inv d"
  shows "list_all (\<lambda>p. 0 < length p \<and> length p \<le> MAX_PAYLOAD_SIZE) (snd (uvk5_feed d bs))"
  unfolding uvk5_feed_def
  by (rule feed_steps_outputs [where ok = uvk5_inv])
    (use assms uvk5_inv_step uvk5_step_output in blast)+

lemma uvk5_step_flags [simp]:
  "ud_obfuscated (fst (uvk5_step d b)) = ud_obfuscated d"
  "ud_validate_crc (fst (uvk5_step d b)) = ud_validate_crc d"
  by (cases "ud_stage d"; simp add: uvk5_step_def Let_def)+

definition uvk5_ok :: "bool \<Rightarrow> uvk5_decoder \<Rightarrow> bool" where
  "uvk5_ok obf d \<longleftrightarrow> uvk5_inv d \<and> ud_obfuscated d = obf"

lemma uvk5_ok_feed [inv_intros]: "uvk5_ok obf d \<Longrightarrow> uvk5_ok obf (fst (uvk5_feed d bs))"
  unfolding uvk5_feed_def by (erule feed_steps_inv [rotated]) (simp add: uvk5_ok_def uvk5_inv_step)

lemma uvk5_ok_init [simp]: "uvk5_ok obf (uvk5_init obf v)"
  by (simp add: uvk5_ok_def uvk5_inv_def uvk5_init_def)

text \<open>A message on the wire: line noise without the preamble's first byte, then one frame.\<close>

type_synonym uvk5_sent = "bytes \<times> int \<times> bytes"

definition uvk5_enc :: "bool \<Rightarrow> uvk5_sent \<Rightarrow> bytes" where
  "uvk5_enc obf = (\<lambda>(noise, command, params).
     noise @ (case build_frame command params obf of Inl e \<Rightarrow> [] | Inr fr \<Rightarrow> fr))"

definition uvk5_wf :: "bool \<Rightarrow> uvk5_sent \<Rightarrow> bool" where
  "uvk5_wf obf = (\<lambda>(noise, command, params).
     UVK5_PREAMBLE ! 0 \<notin> set noise \<and>
     (case build_frame command params obf of Inl e \<Rightarrow> False | Inr fr \<Rightarrow> True))"

definition uvk5_out :: "uvk5_sent \<Rightarrow> bytes" where
  "uvk5_out = (\<lambda>(noise, command, params). uvk5_payload command params)"

definition uvk5_ready :: "uvk5_decoder \<Rightarrow> bool" where
  "uvk5_ready d \<longleftrightarrow> ud_stage d = StIdle"

interpretation uvk5: stream_decoder uvk5_feed "uvk5_ok obf" for obf
  by unfold_locales (simp_all add: uvk5_feed_def feed_steps_append uvk5_ok_feed [unfolded uvk5_feed_def])

lemma uvk5_feed_frame:
  assumes "uvk5_wf (ud_obfuscated d) m" "uvk5_ready d"
  shows "\<exists>d'. uvk5_feed d (uvk5_enc (ud_obfuscated d) m) = (d', [uvk5_out m]) \<and> uvk5_ready d'"
proof -
  obtain noise command params where m: "m = (noise, command, params)" by (cases m) auto
  let ?obf = "ud_obfuscated d" and ?p = "uvk5_payload command params"
  from assms(1) have noise: "UVK5_PREAMBLE ! 0 \<notin> set noise"
    and b: "0 \<le> command \<and> command < 65536 \<and> length params \<le> 250"
    using build_frame_iff [of command params ?obf] by (auto simp: m uvk5_wf_def split: sum.splits)
  then have "uvk5_enc ?obf m = noise @ UVK5_PREAMBLE @ le_bytes 2 (int (length ?p))
      @ uvk5_body ?p ?obf @ UVK5_FOOTER"
    by (simp add: m uvk5_enc_def build_frame_ok)
  moreover have idle: "ud_stage d = StIdle" using assms(2) by (simp add: uvk5_ready_def)
  have "uvk5_feed d (UVK5_PREAMBLE @ le_bytes 2 (int (length ?p)) @ uvk5_body ?p ?obf @ UVK5_FOOTER)
      = (uvk5_collected d (length ?p) (uvk5_body ?p ?obf), [?p])"
    using uvk5_feed_collected [OF idle, of "length ?p" "uvk5_body ?p ?obf"] uvk5_finish_good [of d ?p] b
    by (simp add: MAX_PAYLOAD_SIZE_def)
  ultimately have "uvk5_feed d (uvk5_enc ?obf m)
      = (uvk5_collected d (length ?p) (uvk5_body ?p ?obf), [?p])"
    using uvk5_skip_noise [OF idle noise] by (simp add: uvk5_feed_def feed_steps_append)
  then show ?thesis by (simp add: m uvk5_out_def uvk5_ready_def uvk5_collected_def)
qed

interpretation uvk5_session: framed_codec uvk5_feed "uvk5_ok obf" "uvk5_enc obf" "uvk5_wf obf"
  uvk5_out uvk5_ready for obf
proof unfold_locales
  fix s m
  assume "uvk5_ok obf s" "uvk5_ready s" "uvk5_wf obf m"
  then show "snd (uvk5_feed s (uvk5_enc obf m)) = [uvk5_out m] \<and>
      uvk5_ready (fst (uvk5_feed s (uvk5_enc obf m)))"
    using uvk5_feed_frame [of s m] by (auto simp: uvk5_ok_def)
qed

subsection \<open>Properties\<close>

text \<open>A session on the UV-K5 link is read back exactly: with either obfuscation setting, with CRC
  checking on or off, with line noise between frames and with the bytes cut into reads anywhere,
  the decoder delivers the payload of every frame \<open>build_frame\<close> can build, once and in order.
\<close>

theorem uvk5_session_roundtrip:
  assumes "list_all (uvk5_wf obf) ms" and "concat cs = concat (map (uvk5_enc obf) ms)"
  shows "snd (feed_all uvk5_feed (uvk5_init obf validate) cs) = map uvk5_out ms"
proof -
  have "uvk5_ready (uvk5_init obf validate)" by (simp add: uvk5_ready_def uvk5_init_def)
  from uvk5_session.session_roundtrip [OF uvk5_ok_init this assms] show ?thesis .
qed

theorem uvk5_session_roundtrip_witness:
  "snd (feed_all uvk5_feed (uvk5_init True True)
     [[0x00, 0xFF, 0xAB, 0xCD, 0x04], [0x00, 0x67, 0x64, 0x14], [0xE6, 0x4E, 0x0C, 0xDC, 0xBA]])
   = [[0x71, 0x08, 0x00, 0x00]]"
proof -
  have "build_frame 0x0871 [] True = Inr [0xAB, 0xCD, 0x04, 0x00, 0x67, 0x64, 0x14, 0xE6, 0x4E, 0x0C, 0xDC, 0xBA]"
    by code_simp
  moreover have "uvk5_payload 0x0871 [] = [0x71, 0x08, 0x00, 0x00]" by code_simp
  ultimately show ?thesis
    using uvk5_session_roundtrip [of True "[([0x00, 0xFF], 0x0871, [])]"
      "[[0x00, 0xFF, 0xAB, 0xCD, 0x04], [0x00, 0x67, 0x64, 0x14], [0xE6, 0x4E, 0x0C, 0xDC, 0xBA]]" True]
    by (simp add: uvk5_wf_def uvk5_enc_def uvk5_out_def uvk5_consts del: feed_all.simps)
qed

text \<open>With \<open>validate_crc\<close> a frame with one damaged byte in its payload or CRC is never delivered:
  whichever byte of the (obfuscated) body is changed to whatever other value, the decoder drops the
  frame and is back in its idle stage.
\<close>

theorem uvk5_damage_detected:
  assumes "1 \<le> length payload" "length payload \<le> MAX_PAYLOAD_SIZE"
    and "i < length payload + 2" "c \<noteq> uvk5_body payload obf ! i"
  shows "snd (uvk5_feed (uvk5_init obf True)
      (UVK5_PREAMBLE @ le_bytes 2 (int (length payload))
        @ (uvk5_body payload obf)[i := c] @ UVK5_FOOTER)) = []"
  using uvk5_feed_collected [of "uvk5_init obf True" "length payload" "(uvk5_body payload obf)[i := c]"]
    uvk5_finish_damaged [of "uvk5_init obf True" i payload c] assms
  by (simp add: uvk5_init_def)

theorem uvk5_damage_detected_witness:
  "snd (uvk5_feed (uvk5_init False True)
     (UVK5_PREAMBLE @ le_bytes 2 1 @ (uvk5_body [7] False)[0 := 9] @ UVK5_FOOTER)) = []"
  using uvk5_damage_detected [of "[7]" 0 9 False] by (simp add: MAX_PAYLOAD_SIZE_def uvk5_body_def)

text \<open>The decoder holds at most one maximal frame, whatever bytes arrive: its payload buffer never
  exceeds \<open>MAX_PAYLOAD_SIZE\<close> and its CRC buffer two bytes, and every payload it delivers has between
  one and \<open>MAX_PAYLOAD_SIZE\<close> bytes.
\<close>

theorem uvk5_bounded:
  "(let (d, ps) = feed_all uvk5_feed (uvk5_init obf validate) cs in
     length (ud_buf d) \<le> MAX_PAYLOAD_SIZE \<and> length (ud_crc d) \<le> 2 \<and>
     list_all (\<lambda>p. 0 < length p \<and> length p \<le> MAX_PAYLOAD_SIZE) ps)"
proof -
  obtain d ps where f: "uvk5_feed (uvk5_init obf validate) (concat cs) = (d, ps)" by fastforce
  from f uvk5_ok_feed [of obf "uvk5_init obf validate", OF uvk5_ok_init, of "concat cs"] have "uvk5_inv d"
    by (simp add: uvk5_ok_def)
  moreover have "uvk5_inv (uvk5_init obf validate)" by (simp add: uvk5_inv_def uvk5_init_def)
  from uvk5_feed_outputs [OF this, of "concat cs"] f
  have "list_all (\<lambda>p. 0 < length p \<and> length p \<le> MAX_PAYLOAD_SIZE) ps" by simp
  ultimately show ?thesis
    using uvk5.feed_all_concat [of obf "uvk5_init obf validate" cs] f by (simp add: uvk5_inv_def)
qed

end
