(* ===== verification/Uvk5Messages.thy ===== *)
theory Uvk5Messages
  imports Uvk5Framing
begin

unbundle bit_operations_syntax

section \<open>The dock commands and replies of the UV-K5\<close>

text \<open>
  \<open>radio_server/backends/uvk5/frames.py\<close>, second half: one constructor per dataclass, its
  \<open>__post_init__\<close> checks, its \<open>pack\<close> and \<open>unpack\<close>, and the dispatch \<open>parse_frame\<close>. Field
  values are Python ints; \<open>struct\<close> raises on a value that does not fit. An \<open>IntEnum\<close> status
  field holds a member or, for a number no member has, the plain number. The theory shows that every
  message that can be built comes back from its frame unchanged, that \<open>parse_frame\<close> never raises,
  and that the frames of the second receiver can only do the job their class names.
\<close>

subsection \<open>Opcodes\<close>

datatype dock_command =
    CmdHELLO | CmdKEYPRESS | CmdGET_SCREEN | CmdSCAN | CmdSCAN_ADJUST | CmdWRITE_REGISTERS
  | CmdREAD_REGISTERS | CmdWRITE_GPIO | CmdREAD_GPIO | CmdSTOCK_SET_MODULATION | CmdENTER_HW_MODE
  | CmdEXIT_HW_MODE | CmdEEPROM_READ | CmdEEPROM_READ_REPLY | CmdEEPROM_WRITE
  | CmdEEPROM_WRITE_REPLY | CmdRESET | CmdSET_VFO | CmdJET_SCAN | CmdSET_VFO_REPLY
  | CmdSET_MODULATION | CmdSET_MODULATION_REPLY | CmdSET_BROADCAST_FM | CmdSET_BROADCAST_FM_REPLY
  | CmdIM_HERE | CmdSCAN_REPLY | CmdREGISTER_INFO | CmdGPIO_INFO | CmdJET_SCAN_REPLY

fun opcode :: "dock_command \<Rightarrow> int" where
  "opcode CmdHELLO = 0x0514"
| "opcode CmdKEYPRESS = 0x0801"
| "opcode CmdGET_SCREEN = 0x0803"
| "opcode CmdSCAN = 0x0808"
| "opcode CmdSCAN_ADJUST = 0x0809"
| "opcode CmdWRITE_REGISTERS = 0x0850"
| "opcode CmdREAD_REGISTERS = 0x0851"
| "opcode CmdWRITE_GPIO = 0x0860"
| "opcode CmdREAD_GPIO = 0x0861"
| "opcode CmdSTOCK_SET_MODULATION = 0x0872"
| "opcode CmdENTER_HW_MODE = 0x0870"
| "opcode CmdEXIT_HW_MODE = 0x0871"
| "opcode CmdEEPROM_READ = 0x051B"
| "opcode CmdEEPROM_READ_REPLY = 0x051C"
| "opcode CmdEEPROM_WRITE = 0x051D"
| "opcode CmdEEPROM_WRITE_REPLY = 0x051E"
| "opcode CmdRESET = 0x05DD"
| "opcode CmdSET_VFO = 0x0873"
| "opcode CmdJET_SCAN = 0x0888"
| "opcode CmdSET_VFO_REPLY = 0x0874"
| "opcode CmdSET_MODULATION = 0x0877"
| "opcode CmdSET_MODULATION_REPLY = 0x0878"
| "opcode CmdSET_BROADCAST_FM = 0x0879"
| "opcode CmdSET_BROADCAST_FM_REPLY = 0x087A"
| "opcode CmdIM_HERE = 0x0515"
| "opcode CmdSCAN_REPLY = 0x0908"
| "opcode CmdREGISTER_INFO = 0x0951"
| "opcode CmdGPIO_INFO = 0x0961"
| "opcode CmdJET_SCAN_REPLY = 0x0988"

subsection \<open>Status bytes\<close>

datatype set_vfo_status =
  VfoAPPLIED | VfoERR_SHORT | VfoERR_BUSY | VfoERR_DIRECTION | VfoERR_FIELD | VfoERR_NO_HAL
  | VfoERR_BAND | VfoERR_TONE

definition set_vfo_status_table :: "(int \<times> set_vfo_status) list" where
  "set_vfo_status_table = [(0, VfoAPPLIED), (1, VfoERR_SHORT), (2, VfoERR_BUSY),
     (3, VfoERR_DIRECTION), (4, VfoERR_FIELD), (5, VfoERR_NO_HAL), (6, VfoERR_BAND), (7, VfoERR_TONE)]"

datatype modulation_status = ModAPPLIED | ModERR_SHORT | ModERR_BUSY | ModERR_FIELD | ModERR_NO_HAL

definition modulation_status_table :: "(int \<times> modulation_status) list" where
  "modulation_status_table =
     [(0, ModAPPLIED), (1, ModERR_SHORT), (2, ModERR_BUSY), (4, ModERR_FIELD), (5, ModERR_NO_HAL)]"

datatype broadcast_fm_status =
  FmAPPLIED | FmERR_SHORT | FmERR_BUSY | FmERR_FIELD | FmERR_NO_HAL | FmERR_BAND | FmERR_TX | FmERR_OFF

definition broadcast_fm_status_table :: "(int \<times> broadcast_fm_status) list" where
  "broadcast_fm_status_table = [(0, FmAPPLIED), (1, FmERR_SHORT), (2, FmERR_BUSY), (4, FmERR_FIELD),
     (5, FmERR_NO_HAL), (6, FmERR_BAND), (8, FmERR_TX), (9, FmERR_OFF)]"

text \<open>A status field: \<open>try: status = Enum(status) except ValueError: pass\<close>, and \<open>int(status)\<close>.\<close>

datatype 'e status = Member 'e | Unknown int

definition status_of :: "(int \<times> 'e) list \<Rightarrow> int \<Rightarrow> 'e status" where
  "status_of tbl n = (case map_of tbl n of Some e \<Rightarrow> Member e | None \<Rightarrow> Unknown n)"

fun status_int :: "(int \<times> 'e) list \<Rightarrow> 'e status \<Rightarrow> int" where
  "status_int tbl (Unknown n) = n"
| "status_int tbl (Member e) =
     (case List.find (\<lambda>p. snd p = e) tbl of Some p \<Rightarrow> fst p | None \<Rightarrow> -1)"

lemmas status_tables = set_vfo_status_table_def modulation_status_table_def broadcast_fm_status_table_def

text \<open>A field a caller filled from the wire or with a member: never a plain number of a member.\<close>

definition status_wf :: "(int \<times> 'e) list \<Rightarrow> 'e status \<Rightarrow> bool" where
  "status_wf tbl s = (case s of Member e \<Rightarrow> True | Unknown n \<Rightarrow> map_of tbl n = None)"

subsection \<open>Messages\<close>

datatype dock_message =
    Hello int
  | KeyPress int int int
  | GetScreen int
  | Scan int int int int
  | StockSetModulation int int
  | JetScan int int int
  | EnterHwMode
  | ExitHwMode
  | EepromRead (er_offset: int) (er_size: int) (er_timestamp: int) (er_padding: int)
  | EepromReadReply int int bytes int
  | EepromWrite (ew_offset: int) (ew_data: bytes) (ew_timestamp: int) (ew_allow: int)
  | EepromWriteReply int
  | Reset
  | SetVfoReply "set_vfo_status status" int int int int
  | SetVfo (sv_rx: int) (sv_offset: int) (sv_ctcss: int) (sv_direction: int) (sv_narrow: int) (sv_power: int)
  | SetVfoProbe
  | SetModulationReply "modulation_status status" int int int
  | SetModulation int
  | BroadcastFmReply "broadcast_fm_status status" int int int int
  | ProbeBroadcastFm
  | ClearBroadcastFm
  | SetBroadcastFm string int int
  | WriteRegisters "(int \<times> int) list"
  | ReadRegisters "int list"
  | WriteGpio "(int \<times> int) list"
  | ReadGpio "(int \<times> int) list"
  | ImHere bytes int int "int \<times> int \<times> int \<times> int"
  | ScanReply int int bytes
  | RegisterInfo int int
  | GpioInfo int int
  | JetScanReply "int list" "int list"
  | RawMessage int int bytes

subsection \<open>Constructors that check their fields\<close>

definition EEPROM_CHUNK :: nat where "EEPROM_CHUNK = 8"
definition OFFSET_NONE :: int where "OFFSET_NONE = 0"
definition OFFSET_ADD :: int where "OFFSET_ADD = 1"
definition OFFSET_SUB :: int where "OFFSET_SUB = 2"

definition CTCSS_OPTIONS :: "int list" where
  "CTCSS_OPTIONS =
    [670, 693, 719, 744, 770, 797, 825, 854, 885, 915,
     948, 974, 1000, 1035, 1072, 1109, 1148, 1188, 1230, 1273,
     1318, 1365, 1413, 1462, 1514, 1567, 1598, 1622, 1655, 1679,
     1713, 1738, 1773, 1799, 1835, 1862, 1899, 1928, 1966, 1995,
     2035, 2065, 2107, 2181, 2257, 2291, 2336, 2418, 2503, 2541]"

definition MODULATION_NAMES :: "(int \<times> string) list" where
  "MODULATION_NAMES = [(0, ''FM''), (1, ''AM'')]"

definition BROADCAST_FM_RASTER_HZ :: int where "BROADCAST_FM_RASTER_HZ = 100000"
definition BROADCAST_FM_BAND_MAX :: int where "BROADCAST_FM_BAND_MAX = 3"
definition BROADCAST_FM_ACTIONS :: "(string \<times> int) list" where
  "BROADCAST_FM_ACTIONS = [(''on'', 1), (''tune'', 2)]"
definition BROADCAST_FM_STATE_UNKNOWN :: int where "BROADCAST_FM_STATE_UNKNOWN = 0xFF"
definition BROADCAST_FM_BAND_UNKNOWN :: int where "BROADCAST_FM_BAND_UNKNOWN = 0xFF"
definition FLAG_TX_OK :: int where "FLAG_TX_OK = 0x01"
definition FLAG_FM_BLOCKS_TX :: int where "FLAG_FM_BLOCKS_TX = 0x02"

definition eeprom_read_new :: "int \<Rightarrow> int \<Rightarrow> int \<Rightarrow> int \<Rightarrow> exn + dock_message" where
  "eeprom_read_new offset sz timestamp padding =
     (if \<not> (0 \<le> offset \<and> offset \<le> 0xFFFF) then Inl ValueError
      else if \<not> (1 \<le> sz \<and> sz \<le> 128) then Inl ValueError
      else Inr (EepromRead offset sz timestamp padding))"

definition eeprom_write_new :: "int \<Rightarrow> bytes \<Rightarrow> int \<Rightarrow> int \<Rightarrow> exn + dock_message" where
  "eeprom_write_new offset data timestamp allow =
     (if \<not> (0 \<le> offset \<and> offset \<le> 0xFFFF) then Inl ValueError
      else if data = [] \<or> length data mod EEPROM_CHUNK \<noteq> 0 then Inl ValueError
      else if offset mod int EEPROM_CHUNK \<noteq> 0 then Inl ValueError
      else Inr (EepromWrite offset data timestamp allow))"

definition set_vfo_new :: "int \<Rightarrow> int \<Rightarrow> int \<Rightarrow> int \<Rightarrow> int \<Rightarrow> int \<Rightarrow> exn + dock_message" where
  "set_vfo_new rx_hz offset_hz ctcss direction narrow pwr =
     (if direction \<notin> {OFFSET_NONE, OFFSET_ADD, OFFSET_SUB} then Inl ValueError
      else if narrow \<notin> {0, 1} then Inl ValueError
      else if pwr \<notin> {0, 1, 2} then Inl ValueError
      else if rx_hz \<le> 0 then Inl ValueError
      else if ctcss \<noteq> 0 \<and> ctcss \<notin> set CTCSS_OPTIONS then Inl ValueError
      else if direction \<noteq> OFFSET_NONE \<and> offset_hz \<le> 0 then Inl ValueError
      else Inr (SetVfo rx_hz offset_hz ctcss direction narrow pwr))"

definition set_vfo_tx_hz :: "int \<Rightarrow> int \<Rightarrow> int \<Rightarrow> int" where
  "set_vfo_tx_hz rx_hz offset_hz direction =
     (if direction = OFFSET_ADD then rx_hz + offset_hz
      else if direction = OFFSET_SUB then rx_hz - offset_hz
      else rx_hz)"

definition set_modulation_new :: "int \<Rightarrow> exn + dock_message" where
  "set_modulation_new modulation =
     (if map_of MODULATION_NAMES modulation = None then Inl ValueError
      else Inr (SetModulation modulation))"

definition set_broadcast_fm_new :: "string \<Rightarrow> int option \<Rightarrow> int \<Rightarrow> exn + dock_message" where
  "set_broadcast_fm_new action hz band =
     (if map_of BROADCAST_FM_ACTIONS action = None then Inl ValueError
      else case hz of
        None \<Rightarrow> Inl ValueError
      | Some f \<Rightarrow>
          (if f \<le> 0 then Inl ValueError
           else if f mod BROADCAST_FM_RASTER_HZ \<noteq> 0 then Inl ValueError
           else if \<not> (0 \<le> band \<and> band \<le> BROADCAST_FM_BAND_MAX) then Inl ValueError
           else Inr (SetBroadcastFm action f band)))"

subsection \<open>Accessors of the second receiver's reply\<close>

definition fm_reply_ok :: "broadcast_fm_status status \<Rightarrow> bool" where
  "fm_reply_ok s = (s = Member FmAPPLIED)"

definition fm_reply_on :: "int \<Rightarrow> bool option" where
  "fm_reply_on state = (if state = BROADCAST_FM_STATE_UNKNOWN then None else Some (state \<noteq> 0))"

definition fm_reply_band :: "int \<Rightarrow> int option" where
  "fm_reply_band raw = (if raw = BROADCAST_FM_BAND_UNKNOWN then None else Some raw)"

definition fm_reply_hz :: "int \<Rightarrow> int option" where
  "fm_reply_hz raw = (if raw = 0 then None else Some raw)"

definition fm_reply_tx_ok :: "int \<Rightarrow> bool" where
  "fm_reply_tx_ok flags = (flags AND FLAG_TX_OK \<noteq> 0)"

definition fm_reply_blocks_tx :: "int \<Rightarrow> bool" where
  "fm_reply_blocks_tx flags = (flags AND FLAG_FM_BLOCKS_TX \<noteq> 0)"

definition fm_reply_will_key :: "int \<Rightarrow> bool" where
  "fm_reply_will_key flags = (fm_reply_tx_ok flags \<and> \<not> fm_reply_blocks_tx flags)"

subsection \<open>Packing\<close>

text \<open>The \<open>16s\<close> and \<open>100s\<close> fields: cut or padded with zeros to their width.\<close>

definition pack_s :: "nat \<Rightarrow> bytes \<Rightarrow> bytes" where
  "pack_s n bs = take n bs @ replicate (n - length bs) 0"

definition pack_then :: "exn + bytes \<Rightarrow> (bytes \<Rightarrow> exn + bytes) \<Rightarrow> exn + bytes" where
  "pack_then r k = (case r of Inl e \<Rightarrow> Inl e | Inr bs \<Rightarrow> k bs)"

fun pack_pairs :: "fmt \<Rightarrow> (int \<times> int) list \<Rightarrow> exn + bytes" where
  "pack_pairs f [] = Inr []"
| "pack_pairs f ((a, b) # ps) =
     pack_then (struct_pack [f, f] [a, b]) (\<lambda>x. pack_then (pack_pairs f ps) (\<lambda>y. Inr (x @ y)))"

definition hello_pack :: "int \<Rightarrow> exn + bytes" where
  "hello_pack timestamp = struct_pack [FmtI] [timestamp]"

definition key_press_pack :: "int \<Rightarrow> int \<Rightarrow> int \<Rightarrow> exn + bytes" where
  "key_press_pack key padding timestamp = struct_pack [FmtB, FmtB, FmtI] [key, padding, timestamp]"

definition get_screen_pack :: "int \<Rightarrow> exn + bytes" where
  "get_screen_pack timestamp = struct_pack [FmtI] [timestamp]"

definition scan_pack :: "int \<Rightarrow> int \<Rightarrow> int \<Rightarrow> int \<Rightarrow> exn + bytes" where
  "scan_pack mid_freq width density timestamp =
     struct_pack [FmtI, FmtI, FmtH, FmtI] [mid_freq, width, density, timestamp]"

definition stock_set_modulation_pack :: "int \<Rightarrow> int \<Rightarrow> exn + bytes" where
  "stock_set_modulation_pack len mode = struct_pack [FmtH, FmtH] [len, mode]"

definition jet_scan_pack :: "int \<Rightarrow> int \<Rightarrow> int \<Rightarrow> exn + bytes" where
  "jet_scan_pack start stop step = struct_pack [FmtI, FmtI, FmtI] [start, stop, step]"

definition eeprom_read_pack :: "int \<Rightarrow> int \<Rightarrow> int \<Rightarrow> int \<Rightarrow> exn + bytes" where
  "eeprom_read_pack offset sz timestamp padding =
     struct_pack [FmtH, FmtB, FmtB, FmtI] [offset, sz, padding, timestamp]"

definition eeprom_read_reply_pack :: "int \<Rightarrow> int \<Rightarrow> bytes \<Rightarrow> int \<Rightarrow> exn + bytes" where
  "eeprom_read_reply_pack offset sz data padding =
     pack_then (struct_pack [FmtH, FmtB, FmtB] [offset, sz, padding]) (\<lambda>h. Inr (h @ data))"

definition eeprom_write_pack :: "int \<Rightarrow> bytes \<Rightarrow> int \<Rightarrow> int \<Rightarrow> exn + bytes" where
  "eeprom_write_pack offset data timestamp allow =
     pack_then (struct_pack [FmtH, FmtB, FmtB, FmtI] [offset, int (length data), allow, timestamp])
       (\<lambda>h. Inr (h @ data))"

definition eeprom_write_reply_pack :: "int \<Rightarrow> exn + bytes" where
  "eeprom_write_reply_pack offset = struct_pack [FmtH] [offset]"

definition set_vfo_reply_pack ::
  "set_vfo_status status \<Rightarrow> int \<Rightarrow> int \<Rightarrow> int \<Rightarrow> int \<Rightarrow> exn + bytes" where
  "set_vfo_reply_pack status rx tx tone pwr =
     struct_pack [FmtB, FmtB, FmtI, FmtI, FmtH]
       [status_int set_vfo_status_table status, pwr, rx, tx, tone]"

definition set_vfo_pack :: "int \<Rightarrow> int \<Rightarrow> int \<Rightarrow> int \<Rightarrow> int \<Rightarrow> int \<Rightarrow> exn + bytes" where
  "set_vfo_pack rx off tone direction narrow pwr =
     struct_pack [FmtI, FmtI, FmtH, FmtB, FmtB, FmtB] [rx, off, tone, direction, narrow, pwr]"

definition set_modulation_reply_pack ::
  "modulation_status status \<Rightarrow> int \<Rightarrow> int \<Rightarrow> int \<Rightarrow> exn + bytes" where
  "set_modulation_reply_pack status modulation raw flags =
     struct_pack [FmtB, FmtB, FmtB, FmtB]
       [status_int modulation_status_table status, modulation, raw, flags]"

definition set_modulation_pack :: "int \<Rightarrow> exn + bytes" where
  "set_modulation_pack modulation = struct_pack [FmtB] [modulation]"

definition broadcast_fm_reply_pack ::
  "broadcast_fm_status status \<Rightarrow> int \<Rightarrow> int \<Rightarrow> int \<Rightarrow> int \<Rightarrow> exn + bytes" where
  "broadcast_fm_reply_pack status state raw_hz raw_band flags =
     struct_pack [FmtB, FmtB, FmtI, FmtB, FmtB]
       [status_int broadcast_fm_status_table status, state, raw_hz, raw_band, flags]"

definition probe_broadcast_fm_pack :: "exn + bytes" where
  "probe_broadcast_fm_pack = struct_pack [FmtB, FmtI, FmtB] [2, 0, 0]"

definition clear_broadcast_fm_pack :: "exn + bytes" where
  "clear_broadcast_fm_pack = struct_pack [FmtB, FmtI, FmtB] [0, 0, 0]"

definition set_broadcast_fm_pack :: "string \<Rightarrow> int \<Rightarrow> int \<Rightarrow> exn + bytes" where
  "set_broadcast_fm_pack action hz band =
     (case map_of BROADCAST_FM_ACTIONS action of
        None \<Rightarrow> Inl KeyError
      | Some a \<Rightarrow> struct_pack [FmtB, FmtI, FmtB] [a, hz, band])"

definition write_registers_pack :: "(int \<times> int) list \<Rightarrow> exn + bytes" where
  "write_registers_pack registers =
     pack_then (struct_pack [FmtH] [int (length registers)])
       (\<lambda>h. pack_then (pack_pairs FmtH registers) (\<lambda>b. Inr (h @ b)))"

definition read_registers_pack :: "int list \<Rightarrow> exn + bytes" where
  "read_registers_pack registers =
     struct_pack (FmtH # replicate (length registers) FmtH) (int (length registers) # registers)"

definition gpio_pack :: "(int \<times> int) list \<Rightarrow> exn + bytes" where
  "gpio_pack pins =
     pack_then (struct_pack [FmtH] [int (length pins)])
       (\<lambda>h. pack_then (pack_pairs FmtB pins) (\<lambda>b. Inr (h @ b)))"

definition im_here_pack :: "bytes \<Rightarrow> int \<Rightarrow> int \<Rightarrow> int \<times> int \<times> int \<times> int \<Rightarrow> exn + bytes" where
  "im_here_pack version aes lock challenge =
     (case challenge of (c0, c1, c2, c3) \<Rightarrow>
       pack_then (struct_pack [FmtB, FmtB] [aes, lock])
         (\<lambda>f. pack_then (struct_pack [FmtI, FmtI, FmtI, FmtI] [c0, c1, c2, c3])
           (\<lambda>c. Inr (pack_s 16 version @ f @ [0, 0] @ c))))"

definition scan_reply_pack :: "int \<Rightarrow> int \<Rightarrow> bytes \<Rightarrow> exn + bytes" where
  "scan_reply_pack len sync signals =
     pack_then (struct_pack [FmtB, FmtB] [len, sync]) (\<lambda>h. Inr (h @ pack_s 100 signals))"

definition register_info_pack :: "int \<Rightarrow> int \<Rightarrow> exn + bytes" where
  "register_info_pack register value = struct_pack [FmtH, FmtH] [register, value]"

definition gpio_info_pack :: "int \<Rightarrow> int \<Rightarrow> exn + bytes" where
  "gpio_info_pack gpio bitno = struct_pack [FmtB, FmtB] [gpio, bitno]"

definition jet_scan_reply_pack :: "int list \<Rightarrow> int list \<Rightarrow> exn + bytes" where
  "jet_scan_reply_pack freqs sigs =
     struct_pack (replicate 16 FmtI @ replicate 16 FmtH) (freqs @ sigs)"

subsection \<open>Unpacking\<close>

definition fixed_unpack :: "fmt list \<Rightarrow> (int list \<Rightarrow> exn + dock_message) \<Rightarrow> bytes \<Rightarrow> exn + dock_message" where
  "fixed_unpack fs mk data =
     (if length data \<noteq> calcsize fs then Inl ValueError
      else case struct_unpack fs data of Inl e \<Rightarrow> Inl e | Inr vs \<Rightarrow> mk vs)"

text \<open>\<open>struct.unpack\<close> of the leading bytes, and its \<open>struct.error\<close> when there are too few.\<close>

definition unpack_prefix :: "fmt list \<Rightarrow> bytes \<Rightarrow> exn + int list" where
  "unpack_prefix fs data = struct_unpack fs (take (calcsize fs) data)"

fun unpack_pairs :: "fmt \<Rightarrow> nat \<Rightarrow> bytes \<Rightarrow> (int \<times> int) list" where
  "unpack_pairs f 0 data = []"
| "unpack_pairs f (Suc n) data =
     (field_value f (take (fmt_size f) data),
      field_value f (take (fmt_size f) (drop (fmt_size f) data)))
     # unpack_pairs f n (drop (2 * fmt_size f) data)"

definition hello_unpack :: "bytes \<Rightarrow> exn + dock_message" where
  "hello_unpack = fixed_unpack [FmtI] (\<lambda>vs. case vs of [t] \<Rightarrow> Inr (Hello t) | _ \<Rightarrow> Inl StructError)"

definition key_press_unpack :: "bytes \<Rightarrow> exn + dock_message" where
  "key_press_unpack = fixed_unpack [FmtB, FmtB, FmtI]
     (\<lambda>vs. case vs of [k, p, t] \<Rightarrow> Inr (KeyPress k p t) | _ \<Rightarrow> Inl StructError)"

definition get_screen_unpack :: "bytes \<Rightarrow> exn + dock_message" where
  "get_screen_unpack = fixed_unpack [FmtI]
     (\<lambda>vs. case vs of [t] \<Rightarrow> Inr (GetScreen t) | _ \<Rightarrow> Inl StructError)"

definition scan_unpack :: "bytes \<Rightarrow> exn + dock_message" where
  "scan_unpack = fixed_unpack [FmtI, FmtI, FmtH, FmtI]
     (\<lambda>vs. case vs of [m, w, d, t] \<Rightarrow> Inr (Scan m w d t) | _ \<Rightarrow> Inl StructError)"

definition stock_set_modulation_unpack :: "bytes \<Rightarrow> exn + dock_message" where
  "stock_set_modulation_unpack = fixed_unpack [FmtH, FmtH]
     (\<lambda>vs. case vs of [l, m] \<Rightarrow> Inr (StockSetModulation l m) | _ \<Rightarrow> Inl StructError)"

definition jet_scan_unpack :: "bytes \<Rightarrow> exn + dock_message" where
  "jet_scan_unpack = fixed_unpack [FmtI, FmtI, FmtI]
     (\<lambda>vs. case vs of [a, b, c] \<Rightarrow> Inr (JetScan a b c) | _ \<Rightarrow> Inl StructError)"

definition enter_hw_mode_unpack :: "bytes \<Rightarrow> exn + dock_message" where
  "enter_hw_mode_unpack data = (if data \<noteq> [] then Inl ValueError else Inr EnterHwMode)"

definition exit_hw_mode_unpack :: "bytes \<Rightarrow> exn + dock_message" where
  "exit_hw_mode_unpack data = (if data \<noteq> [] then Inl ValueError else Inr ExitHwMode)"

definition reset_unpack :: "bytes \<Rightarrow> exn + dock_message" where
  "reset_unpack data = (if data \<noteq> [] then Inl ValueError else Inr Reset)"

definition eeprom_read_unpack :: "bytes \<Rightarrow> exn + dock_message" where
  "eeprom_read_unpack = fixed_unpack [FmtH, FmtB, FmtB, FmtI]
     (\<lambda>vs. case vs of [off, sz, pad, t] \<Rightarrow> eeprom_read_new off sz t pad | _ \<Rightarrow> Inl StructError)"

definition eeprom_read_reply_unpack :: "bytes \<Rightarrow> exn + dock_message" where
  "eeprom_read_reply_unpack data =
     (if length data < 4 then Inl ValueError
      else case unpack_prefix [FmtH, FmtB, FmtB] data of
             Inr [off, sz, pad] \<Rightarrow>
               (let body = drop 4 data in
                if int (length body) < sz then Inl ValueError
                else Inr (EepromReadReply off sz (take (nat sz) body) pad))
           | _ \<Rightarrow> Inl StructError)"

definition eeprom_write_unpack :: "bytes \<Rightarrow> exn + dock_message" where
  "eeprom_write_unpack data =
     (if length data < 8 then Inl ValueError
      else case unpack_prefix [FmtH, FmtB, FmtB, FmtI] data of
             Inr [off, sz, allow, t] \<Rightarrow>
               (let body = drop 8 data in
                if int (length body) < sz then Inl ValueError
                else eeprom_write_new off (take (nat sz) body) t allow)
           | _ \<Rightarrow> Inl StructError)"

definition eeprom_write_reply_unpack :: "bytes \<Rightarrow> exn + dock_message" where
  "eeprom_write_reply_unpack data =
     (if length data < 2 then Inl ValueError
      else case unpack_prefix [FmtH] data of
             Inr [off] \<Rightarrow> Inr (EepromWriteReply off)
           | _ \<Rightarrow> Inl StructError)"

definition set_vfo_reply_unpack :: "bytes \<Rightarrow> exn + dock_message" where
  "set_vfo_reply_unpack = fixed_unpack [FmtB, FmtB, FmtI, FmtI, FmtH]
     (\<lambda>vs. case vs of
        [status, pwr, rx, tx, tone] \<Rightarrow>
          Inr (SetVfoReply (status_of set_vfo_status_table status) rx tx tone pwr)
      | _ \<Rightarrow> Inl StructError)"

definition set_vfo_unpack :: "bytes \<Rightarrow> exn + dock_message" where
  "set_vfo_unpack = fixed_unpack [FmtI, FmtI, FmtH, FmtB, FmtB, FmtB]
     (\<lambda>vs. case vs of
        [rx, off, tone, direction, narrow, pwr] \<Rightarrow> set_vfo_new rx off tone direction narrow pwr
      | _ \<Rightarrow> Inl StructError)"

definition set_modulation_reply_unpack :: "bytes \<Rightarrow> exn + dock_message" where
  "set_modulation_reply_unpack = fixed_unpack [FmtB, FmtB, FmtB, FmtB]
     (\<lambda>vs. case vs of
        [status, modulation, raw, flags] \<Rightarrow>
          Inr (SetModulationReply (status_of modulation_status_table status) modulation raw flags)
      | _ \<Rightarrow> Inl StructError)"

definition set_modulation_unpack :: "bytes \<Rightarrow> exn + dock_message" where
  "set_modulation_unpack = fixed_unpack [FmtB]
     (\<lambda>vs. case vs of [m] \<Rightarrow> set_modulation_new m | _ \<Rightarrow> Inl StructError)"

definition broadcast_fm_reply_unpack :: "bytes \<Rightarrow> exn + dock_message" where
  "broadcast_fm_reply_unpack = fixed_unpack [FmtB, FmtB, FmtI, FmtB, FmtB]
     (\<lambda>vs. case vs of
        [status, state, hz, band, flags] \<Rightarrow>
          Inr (BroadcastFmReply (status_of broadcast_fm_status_table status) state hz band flags)
      | _ \<Rightarrow> Inl StructError)"

definition write_registers_unpack :: "bytes \<Rightarrow> exn + dock_message" where
  "write_registers_unpack data =
     (case unpack_prefix [FmtH] data of
        Inr [n] \<Rightarrow>
          (if int (length data) \<noteq> 2 + 4 * n then Inl ValueError
           else Inr (WriteRegisters (unpack_pairs FmtH (nat n) (drop 2 data))))
      | _ \<Rightarrow> Inl StructError)"

definition read_registers_unpack :: "bytes \<Rightarrow> exn + dock_message" where
  "read_registers_unpack data =
     (case unpack_prefix [FmtH] data of
        Inr [n] \<Rightarrow>
          (if int (length data) \<noteq> 2 + 2 * n then Inl ValueError
           else case struct_unpack (replicate (nat n) FmtH) (drop 2 data) of
                  Inl e \<Rightarrow> Inl e
                | Inr vs \<Rightarrow> Inr (ReadRegisters vs))
      | _ \<Rightarrow> Inl StructError)"

definition write_gpio_unpack :: "bytes \<Rightarrow> exn + dock_message" where
  "write_gpio_unpack data =
     (case unpack_prefix [FmtH] data of
        Inr [n] \<Rightarrow>
          (if int (length data) \<noteq> 2 + 2 * n then Inl ValueError
           else Inr (WriteGpio (unpack_pairs FmtB (nat n) (drop 2 data))))
      | _ \<Rightarrow> Inl StructError)"

definition read_gpio_unpack :: "bytes \<Rightarrow> exn + dock_message" where
  "read_gpio_unpack data =
     (case unpack_prefix [FmtH] data of
        Inr [n] \<Rightarrow>
          (if int (length data) \<noteq> 2 + 2 * n then Inl ValueError
           else Inr (ReadGpio (unpack_pairs FmtB (nat n) (drop 2 data))))
      | _ \<Rightarrow> Inl StructError)"

text \<open>\<open>"<16sBBxxIIII"\<close>, 36 bytes: the version, two flags, two pad bytes, the challenge.\<close>

definition im_here_unpack :: "bytes \<Rightarrow> exn + dock_message" where
  "im_here_unpack data =
     (if length data \<noteq> 36 then Inl ValueError
      else case (unpack_prefix [FmtB, FmtB] (drop 16 data),
                 unpack_prefix [FmtI, FmtI, FmtI, FmtI] (drop 20 data)) of
             (Inr [aes, lock], Inr [c0, c1, c2, c3]) \<Rightarrow>
               Inr (ImHere (take 16 data) aes lock (c0, c1, c2, c3))
           | _ \<Rightarrow> Inl StructError)"

definition scan_reply_unpack :: "bytes \<Rightarrow> exn + dock_message" where
  "scan_reply_unpack data =
     (if length data \<noteq> 102 then Inl ValueError
      else case unpack_prefix [FmtB, FmtB] data of
             Inr [len, sync] \<Rightarrow> Inr (ScanReply len sync (drop 2 data))
           | _ \<Rightarrow> Inl StructError)"

definition register_info_unpack :: "bytes \<Rightarrow> exn + dock_message" where
  "register_info_unpack = fixed_unpack [FmtH, FmtH]
     (\<lambda>vs. case vs of [r, v] \<Rightarrow> Inr (RegisterInfo r v) | _ \<Rightarrow> Inl StructError)"

definition gpio_info_unpack :: "bytes \<Rightarrow> exn + dock_message" where
  "gpio_info_unpack = fixed_unpack [FmtB, FmtB]
     (\<lambda>vs. case vs of [g, b] \<Rightarrow> Inr (GpioInfo g b) | _ \<Rightarrow> Inl StructError)"

definition jet_scan_reply_unpack :: "bytes \<Rightarrow> exn + dock_message" where
  "jet_scan_reply_unpack = fixed_unpack (replicate 16 FmtI @ replicate 16 FmtH)
     (\<lambda>vs. Inr (JetScanReply (take 16 vs) (drop 16 vs)))"

subsection \<open>Dispatch\<close>

text \<open>
  Each class's \<open>COMMAND\<close> and \<open>pack\<close>; \<open>RawMessage\<close> has neither. \<open>frame_of\<close> is the classes'
  \<open>to_frame\<close>. Five replies (\<open>ImHere\<close>, \<open>ScanReply\<close>, \<open>RegisterInfo\<close>, \<open>GpioInfo\<close>,
  \<open>JetScanReply\<close>) have no \<open>to_frame\<close> of their own; a fake radio frames them with the same
  \<open>build_frame\<close> call.
\<close>

fun message_command :: "dock_message \<Rightarrow> dock_command option" where
  "message_command (Hello _) = Some CmdHELLO"
| "message_command (KeyPress _ _ _) = Some CmdKEYPRESS"
| "message_command (GetScreen _) = Some CmdGET_SCREEN"
| "message_command (Scan _ _ _ _) = Some CmdSCAN"
| "message_command (StockSetModulation _ _) = Some CmdSTOCK_SET_MODULATION"
| "message_command (JetScan _ _ _) = Some CmdJET_SCAN"
| "message_command EnterHwMode = Some CmdENTER_HW_MODE"
| "message_command ExitHwMode = Some CmdEXIT_HW_MODE"
| "message_command (EepromRead _ _ _ _) = Some CmdEEPROM_READ"
| "message_command (EepromReadReply _ _ _ _) = Some CmdEEPROM_READ_REPLY"
| "message_command (EepromWrite _ _ _ _) = Some CmdEEPROM_WRITE"
| "message_command (EepromWriteReply _) = Some CmdEEPROM_WRITE_REPLY"
| "message_command Reset = Some CmdRESET"
| "message_command (SetVfoReply _ _ _ _ _) = Some CmdSET_VFO_REPLY"
| "message_command (SetVfo _ _ _ _ _ _) = Some CmdSET_VFO"
| "message_command SetVfoProbe = Some CmdSET_VFO"
| "message_command (SetModulationReply _ _ _ _) = Some CmdSET_MODULATION_REPLY"
| "message_command (SetModulation _) = Some CmdSET_MODULATION"
| "message_command (BroadcastFmReply _ _ _ _ _) = Some CmdSET_BROADCAST_FM_REPLY"
| "message_command ProbeBroadcastFm = Some CmdSET_BROADCAST_FM"
| "message_command ClearBroadcastFm = Some CmdSET_BROADCAST_FM"
| "message_command (SetBroadcastFm _ _ _) = Some CmdSET_BROADCAST_FM"
| "message_command (WriteRegisters _) = Some CmdWRITE_REGISTERS"
| "message_command (ReadRegisters _) = Some CmdREAD_REGISTERS"
| "message_command (WriteGpio _) = Some CmdWRITE_GPIO"
| "message_command (ReadGpio _) = Some CmdREAD_GPIO"
| "message_command (ImHere _ _ _ _) = Some CmdIM_HERE"
| "message_command (ScanReply _ _ _) = Some CmdSCAN_REPLY"
| "message_command (RegisterInfo _ _) = Some CmdREGISTER_INFO"
| "message_command (GpioInfo _ _) = Some CmdGPIO_INFO"
| "message_command (JetScanReply _ _) = Some CmdJET_SCAN_REPLY"
| "message_command (RawMessage _ _ _) = None"

fun message_pack :: "dock_message \<Rightarrow> exn + bytes" where
  "message_pack (Hello t) = hello_pack t"
| "message_pack (KeyPress k p t) = key_press_pack k p t"
| "message_pack (GetScreen t) = get_screen_pack t"
| "message_pack (Scan m w d t) = scan_pack m w d t"
| "message_pack (StockSetModulation l m) = stock_set_modulation_pack l m"
| "message_pack (JetScan a b c) = jet_scan_pack a b c"
| "message_pack EnterHwMode = Inr []"
| "message_pack ExitHwMode = Inr []"
| "message_pack (EepromRead off sz t pad) = eeprom_read_pack off sz t pad"
| "message_pack (EepromReadReply off sz d pad) = eeprom_read_reply_pack off sz d pad"
| "message_pack (EepromWrite off d t a) = eeprom_write_pack off d t a"
| "message_pack (EepromWriteReply off) = eeprom_write_reply_pack off"
| "message_pack Reset = Inr []"
| "message_pack (SetVfoReply s rx tx tone pwr) = set_vfo_reply_pack s rx tx tone pwr"
| "message_pack (SetVfo rx off tone d n pwr) = set_vfo_pack rx off tone d n pwr"
| "message_pack SetVfoProbe = Inr []"
| "message_pack (SetModulationReply s m raw fl) = set_modulation_reply_pack s m raw fl"
| "message_pack (SetModulation m) = set_modulation_pack m"
| "message_pack (BroadcastFmReply s st hz band fl) = broadcast_fm_reply_pack s st hz band fl"
| "message_pack ProbeBroadcastFm = probe_broadcast_fm_pack"
| "message_pack ClearBroadcastFm = clear_broadcast_fm_pack"
| "message_pack (SetBroadcastFm a hz band) = set_broadcast_fm_pack a hz band"
| "message_pack (WriteRegisters rs) = write_registers_pack rs"
| "message_pack (ReadRegisters rs) = read_registers_pack rs"
| "message_pack (WriteGpio ps) = gpio_pack ps"
| "message_pack (ReadGpio ps) = gpio_pack ps"
| "message_pack (ImHere v aes lock c) = im_here_pack v aes lock c"
| "message_pack (ScanReply l s sig) = scan_reply_pack l s sig"
| "message_pack (RegisterInfo r v) = register_info_pack r v"
| "message_pack (GpioInfo g b) = gpio_info_pack g b"
| "message_pack (JetScanReply fs ss) = jet_scan_reply_pack fs ss"
| "message_pack (RawMessage _ _ _) = Inl RuntimeError"

definition frame_of :: "dock_message \<Rightarrow> bool \<Rightarrow> exn + bytes" where
  "frame_of m obfuscate_body =
     (case message_command m of
        None \<Rightarrow> Inl RuntimeError
      | Some c \<Rightarrow> pack_then (message_pack m) (\<lambda>ps. build_frame (opcode c) ps obfuscate_body))"

definition DISPATCH :: "(int \<times> (bytes \<Rightarrow> exn + dock_message)) list" where
  "DISPATCH =
    [(opcode CmdHELLO, hello_unpack),
     (opcode CmdKEYPRESS, key_press_unpack),
     (opcode CmdGET_SCREEN, get_screen_unpack),
     (opcode CmdSCAN, scan_unpack),
     (opcode CmdSTOCK_SET_MODULATION, stock_set_modulation_unpack),
     (opcode CmdENTER_HW_MODE, enter_hw_mode_unpack),
     (opcode CmdEXIT_HW_MODE, exit_hw_mode_unpack),
     (opcode CmdSET_VFO, set_vfo_unpack),
     (opcode CmdSET_VFO_REPLY, set_vfo_reply_unpack),
     (opcode CmdSET_MODULATION, set_modulation_unpack),
     (opcode CmdSET_MODULATION_REPLY, set_modulation_reply_unpack),
     (opcode CmdSET_BROADCAST_FM_REPLY, broadcast_fm_reply_unpack),
     (opcode CmdEEPROM_READ, eeprom_read_unpack),
     (opcode CmdEEPROM_READ_REPLY, eeprom_read_reply_unpack),
     (opcode CmdEEPROM_WRITE, eeprom_write_unpack),
     (opcode CmdEEPROM_WRITE_REPLY, eeprom_write_reply_unpack),
     (opcode CmdRESET, reset_unpack),
     (opcode CmdJET_SCAN, jet_scan_unpack),
     (opcode CmdWRITE_REGISTERS, write_registers_unpack),
     (opcode CmdREAD_REGISTERS, read_registers_unpack),
     (opcode CmdWRITE_GPIO, write_gpio_unpack),
     (opcode CmdREAD_GPIO, read_gpio_unpack),
     (opcode CmdIM_HERE, im_here_unpack),
     (opcode CmdSCAN_REPLY, scan_reply_unpack),
     (opcode CmdREGISTER_INFO, register_info_unpack),
     (opcode CmdGPIO_INFO, gpio_info_unpack),
     (opcode CmdJET_SCAN_REPLY, jet_scan_reply_unpack)]"

text \<open>Only \<open>ValueError\<close> and \<open>struct.error\<close> are caught; any other exception would escape.\<close>

definition parse_frame :: "bytes \<Rightarrow> exn + dock_message option" where
  "parse_frame payload =
     (if length payload < calcsize INNER_HEADER then Inr None
      else case unpack_prefix INNER_HEADER payload of
             Inr [command, param_len] \<Rightarrow>
               (let params = drop (calcsize INNER_HEADER) payload;
                    raw = Inr (Some (RawMessage command param_len params))
                in case map_of DISPATCH command of
                     None \<Rightarrow> raw
                   | Some unpack \<Rightarrow>
                       (case unpack params of
                          Inr m \<Rightarrow> Inr (Some m)
                        | Inl e \<Rightarrow> (if e = ValueError \<or> e = StructError then raw else Inl e)))
           | Inr _ \<Rightarrow> Inl StructError
           | Inl e \<Rightarrow> Inl e)"

subsection \<open>Every message comes back from its parameters\<close>

lemma pack_then_Inr: "pack_then r k = Inr z \<longleftrightarrow> (\<exists>bs. r = Inr bs \<and> k bs = Inr z)"
  by (cases r) (auto simp: pack_then_def)

lemma fixed_unpack_pack: "struct_pack fs vs = Inr bs \<Longrightarrow> fixed_unpack fs mk bs = mk vs"
  by (simp add: fixed_unpack_def struct_pack_length struct_roundtrip)

lemma unpack_prefix_pack: "struct_pack fs vs = Inr bs \<Longrightarrow> unpack_prefix fs (bs @ rest) = Inr vs"
  by (simp add: unpack_prefix_def struct_pack_length struct_roundtrip)

lemma drop_pack: "struct_pack fs vs = Inr bs \<Longrightarrow> n = calcsize fs \<Longrightarrow> drop n (bs @ rest) = rest"
  by (simp add: struct_pack_length)

lemma take_pack: "struct_pack fs vs = Inr bs \<Longrightarrow> n = calcsize fs \<Longrightarrow> take n (bs @ rest) = bs"
  by (simp add: struct_pack_length)

lemma pack_pairs_roundtrip:
  "pack_pairs f ps = Inr bs \<Longrightarrow>
     unpack_pairs f (length ps) bs = ps \<and> length bs = 2 * fmt_size f * length ps"
proof (induction f ps arbitrary: bs rule: pack_pairs.induct)
  case (2 f a b ps)
  then obtain x y where xy: "struct_pack [f, f] [a, b] = Inr x" "pack_pairs f ps = Inr y" "bs = x @ y"
    by (auto simp: pack_then_Inr)
  from xy(1) have r: "in_range f a" "in_range f b" "x = le_bytes (fmt_size f) a @ le_bytes (fmt_size f) b"
    by (auto split: if_splits)
  from "2.IH" [of y] xy have "unpack_pairs f (length ps) y = ps" "length y = 2 * fmt_size f * length ps"
    by auto
  with xy r show ?case by (simp add: field_value_le_bytes)
qed simp

lemma status_of_int:
  "status_wf tbl s \<Longrightarrow> (\<forall>e. status_of tbl (status_int tbl (Member e)) = Member e) \<Longrightarrow>
     status_of tbl (status_int tbl s) = s"
  by (cases s) (auto simp: status_wf_def status_of_def)

lemma set_vfo_status_member: "status_of set_vfo_status_table (status_int set_vfo_status_table (Member e)) = Member e"
  by (cases e) (simp_all add: status_tables status_of_def)

lemma modulation_status_member:
  "status_of modulation_status_table (status_int modulation_status_table (Member e)) = Member e"
  by (cases e) (simp_all add: status_tables status_of_def)

lemma broadcast_fm_status_member:
  "status_of broadcast_fm_status_table (status_int broadcast_fm_status_table (Member e)) = Member e"
  by (cases e) (simp_all add: status_tables status_of_def)

lemma status_roundtrip [simp]:
  "status_wf set_vfo_status_table s \<Longrightarrow>
     status_of set_vfo_status_table (status_int set_vfo_status_table s) = s"
  "status_wf modulation_status_table t \<Longrightarrow>
     status_of modulation_status_table (status_int modulation_status_table t) = t"
  "status_wf broadcast_fm_status_table u \<Longrightarrow>
     status_of broadcast_fm_status_table (status_int broadcast_fm_status_table u) = u"
  by (simp_all add: status_of_int set_vfo_status_member modulation_status_member
      broadcast_fm_status_member del: status_int.simps)

text \<open>
  What a caller can have built and the dispatch table decodes: the \<open>__post_init__\<close> checks, and a
  length field that is the length of the data.
\<close>

fun message_wf :: "dock_message \<Rightarrow> bool" where
  "message_wf (EepromRead off sz t pad) = (eeprom_read_new off sz t pad = Inr (EepromRead off sz t pad))"
| "message_wf (EepromWrite off d t a) = (eeprom_write_new off d t a = Inr (EepromWrite off d t a))"
| "message_wf (SetVfo rx off tone d n pwr) =
     (set_vfo_new rx off tone d n pwr = Inr (SetVfo rx off tone d n pwr))"
| "message_wf (SetModulation m) = (set_modulation_new m = Inr (SetModulation m))"
| "message_wf (EepromReadReply off sz d pad) = (sz = int (length d))"
| "message_wf (SetVfoReply s _ _ _ _) = status_wf set_vfo_status_table s"
| "message_wf (SetModulationReply s _ _ _) = status_wf modulation_status_table s"
| "message_wf (BroadcastFmReply s _ _ _ _) = status_wf broadcast_fm_status_table s"
| "message_wf (ImHere v _ _ _) = (length v = 16)"
| "message_wf (ScanReply _ _ sig) = (length sig = 100)"
| "message_wf (JetScanReply fs ss) = (length fs = 16 \<and> length ss = 16)"
| "message_wf SetVfoProbe = False"
| "message_wf ProbeBroadcastFm = False"
| "message_wf ClearBroadcastFm = False"
| "message_wf (SetBroadcastFm _ _ _) = False"
| "message_wf (RawMessage _ _ _) = False"
| "message_wf _ = True"

lemmas fixed_packs =
  hello_pack_def key_press_pack_def get_screen_pack_def scan_pack_def stock_set_modulation_pack_def
  jet_scan_pack_def eeprom_read_pack_def set_vfo_reply_pack_def set_vfo_pack_def
  set_modulation_reply_pack_def set_modulation_pack_def broadcast_fm_reply_pack_def
  register_info_pack_def gpio_info_pack_def jet_scan_reply_pack_def

lemmas fixed_unpacks =
  hello_unpack_def key_press_unpack_def get_screen_unpack_def scan_unpack_def
  stock_set_modulation_unpack_def jet_scan_unpack_def eeprom_read_unpack_def
  set_vfo_reply_unpack_def set_vfo_unpack_def set_modulation_reply_unpack_def
  set_modulation_unpack_def broadcast_fm_reply_unpack_def register_info_unpack_def
  gpio_info_unpack_def jet_scan_reply_unpack_def

lemma header_data:
  "struct_pack fs vs = Inr h \<Longrightarrow>
     unpack_prefix fs (h @ d) = Inr vs \<and> length h = calcsize fs \<and> drop (calcsize fs) (h @ d) = d"
  by (simp add: unpack_prefix_pack struct_pack_length)

lemma eeprom_read_reply_roundtrip:
  assumes "eeprom_read_reply_pack off (int (length d)) d pad = Inr bs"
  shows "eeprom_read_reply_unpack bs = Inr (EepromReadReply off (int (length d)) d pad)"
proof -
  from assms obtain h where h: "struct_pack [FmtH, FmtB, FmtB] [off, int (length d), pad] = Inr h" "bs = h @ d"
    by (auto simp: eeprom_read_reply_pack_def pack_then_Inr simp del: struct_pack.simps)
  from header_data [OF h(1), of d] h(2) show ?thesis
    by (simp add: eeprom_read_reply_unpack_def Let_def)
qed

lemma eeprom_write_roundtrip:
  assumes "eeprom_write_pack off d t allow = Inr bs"
    and "eeprom_write_new off d t allow = Inr (EepromWrite off d t allow)"
  shows "eeprom_write_unpack bs = Inr (EepromWrite off d t allow)"
proof -
  from assms obtain h where
    h: "struct_pack [FmtH, FmtB, FmtB, FmtI] [off, int (length d), allow, t] = Inr h" "bs = h @ d"
    by (auto simp: eeprom_write_pack_def pack_then_Inr simp del: struct_pack.simps)
  from header_data [OF h(1), of d] h(2) assms(2) show ?thesis
    by (simp add: eeprom_write_unpack_def Let_def)
qed

lemma eeprom_write_reply_roundtrip:
  "eeprom_write_reply_pack off = Inr bs \<Longrightarrow> eeprom_write_reply_unpack bs = Inr (EepromWriteReply off)"
  using header_data [of "[FmtH]" "[off]" bs "[]"]
  by (simp add: eeprom_write_reply_pack_def eeprom_write_reply_unpack_def)

lemma counted_pairs:
  assumes "pack_then (struct_pack [FmtH] [int (length ps)])
      (\<lambda>h. pack_then (pack_pairs f ps) (\<lambda>b. Inr (h @ b))) = Inr bs"
  shows "unpack_prefix [FmtH] bs = Inr [int (length ps)] \<and>
    length bs = 2 + 2 * fmt_size f * length ps \<and> unpack_pairs f (length ps) (drop 2 bs) = ps"
proof -
  from assms obtain h b where hb: "struct_pack [FmtH] [int (length ps)] = Inr h" "pack_pairs f ps = Inr b"
    "bs = h @ b" by (auto simp: pack_then_Inr simp del: struct_pack.simps)
  from header_data [OF hb(1), of b] pack_pairs_roundtrip [OF hb(2)] hb(3) show ?thesis by simp
qed

lemma write_registers_roundtrip:
  "write_registers_pack rs = Inr bs \<Longrightarrow> write_registers_unpack bs = Inr (WriteRegisters rs)"
  using counted_pairs [of rs FmtH bs] by (simp add: write_registers_pack_def write_registers_unpack_def)

lemma gpio_roundtrip:
  "gpio_pack ps = Inr bs \<Longrightarrow> write_gpio_unpack bs = Inr (WriteGpio ps) \<and> read_gpio_unpack bs = Inr (ReadGpio ps)"
  using counted_pairs [of ps FmtB bs]
  by (simp add: gpio_pack_def write_gpio_unpack_def read_gpio_unpack_def)

lemma calcsize_replicate [simp]: "calcsize (replicate n f) = n * fmt_size f"
  by (induction n) simp_all

lemma read_registers_roundtrip:
  assumes "read_registers_pack rs = Inr bs"
  shows "read_registers_unpack bs = Inr (ReadRegisters rs)"
proof -
  let ?n = "length rs"
  from assms obtain b where b: "in_range FmtH (int ?n)" "struct_pack (replicate ?n FmtH) rs = Inr b"
    "bs = le_bytes 2 (int ?n) @ b"
    by (auto simp: read_registers_pack_def split: if_splits sum.splits)
  from b(1) have "struct_pack [FmtH] [int ?n] = Inr (le_bytes 2 (int ?n))" by simp
  from header_data [OF this, of b] struct_pack_length [OF b(2)] struct_roundtrip [OF b(2)] b(3)
  show ?thesis by (simp add: read_registers_unpack_def)
qed

lemma im_here_roundtrip:
  assumes "im_here_pack v aes lock c = Inr bs" "length v = 16"
  shows "im_here_unpack bs = Inr (ImHere v aes lock c)"
proof -
  obtain c0 c1 c2 c3 where c: "c = (c0, c1, c2, c3)" by (cases c) auto
  with assms obtain f g where fg: "struct_pack [FmtB, FmtB] [aes, lock] = Inr f"
    "struct_pack [FmtI, FmtI, FmtI, FmtI] [c0, c1, c2, c3] = Inr g" "bs = v @ f @ [0, 0] @ g"
    by (auto simp: im_here_pack_def pack_then_Inr pack_s_def simp del: struct_pack.simps)
  from header_data [OF fg(1), of "[0, 0] @ g"] header_data [OF fg(2), of "[]"] fg(3) assms(2) c
  show ?thesis by (simp add: im_here_unpack_def)
qed

lemma scan_reply_roundtrip:
  assumes "scan_reply_pack l sync sig = Inr bs" "length sig = 100"
  shows "scan_reply_unpack bs = Inr (ScanReply l sync sig)"
proof -
  from assms obtain h where h: "struct_pack [FmtB, FmtB] [l, sync] = Inr h" "bs = h @ sig"
    by (auto simp: scan_reply_pack_def pack_then_Inr pack_s_def simp del: struct_pack.simps)
  from header_data [OF h(1), of sig] h(2) assms(2) show ?thesis by (simp add: scan_reply_unpack_def)
qed

lemmas message_roundtrips =
  eeprom_read_reply_roundtrip eeprom_write_roundtrip eeprom_write_reply_roundtrip
  write_registers_roundtrip gpio_roundtrip read_registers_roundtrip im_here_roundtrip
  scan_reply_roundtrip

text \<open>The decoder the dispatch table holds for a well-formed message gives the message back.\<close>

lemma dispatch_message:
  "message_wf m \<Longrightarrow> message_command m = Some c \<Longrightarrow> message_pack m = Inr ps \<Longrightarrow>
     \<exists>unpack. map_of DISPATCH (opcode c) = Some unpack \<and> unpack ps = Inr m"
  by (cases m)
    (auto simp: DISPATCH_def fixed_packs fixed_unpacks fixed_unpack_pack message_roundtrips
      enter_hw_mode_unpack_def exit_hw_mode_unpack_def reset_unpack_def
      simp del: struct_pack.simps struct_pack_H)

subsection \<open>Nothing but ValueError and struct.error leaves an unpack\<close>

definition tame :: "exn + 'a \<Rightarrow> bool" where
  "tame r = (case r of Inl e \<Rightarrow> e = ValueError \<or> e = StructError | Inr _ \<Rightarrow> True)"

lemma tame_simps [simp]:
  "tame (Inr x)" "tame (Inl ValueError)" "tame (Inl StructError)"
  by (simp_all add: tame_def)

lemma tame_fixed: "(\<And>vs. tame (mk vs)) \<Longrightarrow> tame (fixed_unpack fs mk bs)"
  by (simp add: fixed_unpack_def struct_unpack_def)

lemma tame_prefix: "unpack_prefix fs bs = Inl e \<Longrightarrow> e = StructError"
  by (simp add: unpack_prefix_def struct_unpack_def split: if_splits)

lemma tame_new [simp]:
  "tame (eeprom_read_new a b c d)" "tame (eeprom_write_new a ds c d)"
  "tame (set_vfo_new a b c d e f)" "tame (set_modulation_new a)"
  by (simp_all add: eeprom_read_new_def eeprom_write_new_def set_vfo_new_def set_modulation_new_def)

lemma tame_fixed_unpacks:
  "tame (hello_unpack bs)" "tame (key_press_unpack bs)" "tame (get_screen_unpack bs)"
  "tame (scan_unpack bs)" "tame (stock_set_modulation_unpack bs)" "tame (jet_scan_unpack bs)"
  "tame (eeprom_read_unpack bs)" "tame (set_vfo_reply_unpack bs)" "tame (set_vfo_unpack bs)"
  "tame (set_modulation_reply_unpack bs)" "tame (set_modulation_unpack bs)"
  "tame (broadcast_fm_reply_unpack bs)" "tame (register_info_unpack bs)"
  "tame (gpio_info_unpack bs)" "tame (jet_scan_reply_unpack bs)"
  unfolding fixed_unpacks by (rule tame_fixed, simp split: list.splits)+

lemma tame_other_unpacks:
  "tame (enter_hw_mode_unpack bs)" "tame (exit_hw_mode_unpack bs)" "tame (reset_unpack bs)"
  "tame (eeprom_read_reply_unpack bs)" "tame (eeprom_write_unpack bs)"
  "tame (eeprom_write_reply_unpack bs)" "tame (write_registers_unpack bs)"
  "tame (read_registers_unpack bs)" "tame (write_gpio_unpack bs)" "tame (read_gpio_unpack bs)"
  "tame (im_here_unpack bs)" "tame (scan_reply_unpack bs)"
  by (simp_all add: enter_hw_mode_unpack_def exit_hw_mode_unpack_def reset_unpack_def
      eeprom_read_reply_unpack_def eeprom_write_unpack_def eeprom_write_reply_unpack_def
      write_registers_unpack_def read_registers_unpack_def write_gpio_unpack_def
      read_gpio_unpack_def im_here_unpack_def scan_reply_unpack_def Let_def struct_unpack_def
      split: sum.splits list.splits)

lemma tame_dispatch: "map_of DISPATCH c = Some unpack \<Longrightarrow> tame (unpack bs)"
  by (auto simp: DISPATCH_def tame_fixed_unpacks tame_other_unpacks split: if_splits)

subsection \<open>Properties\<close>

definition frame_bytes :: "bool \<Rightarrow> dock_message \<Rightarrow> bytes" where
  "frame_bytes obf m = (case frame_of m obf of Inl e \<Rightarrow> [] | Inr fr \<Rightarrow> fr)"

definition sendable :: "bool \<Rightarrow> dock_message \<Rightarrow> bool" where
  "sendable obf m = (message_wf m \<and> (case frame_of m obf of Inl e \<Rightarrow> False | Inr fr \<Rightarrow> True))"

definition sent_as :: "dock_message \<Rightarrow> uvk5_sent" where
  "sent_as m = (case (message_command m, message_pack m) of
     (Some c, Inr ps) \<Rightarrow> ([], opcode c, ps) | _ \<Rightarrow> ([], -1, []))"

lemma parse_uvk5_payload:
  assumes "0 \<le> command" "command < 65536" "length ps \<le> 250"
  shows "unpack_prefix INNER_HEADER (uvk5_payload command ps) = Inr [command, int (length ps)] \<and>
    drop (calcsize INNER_HEADER) (uvk5_payload command ps) = ps"
proof -
  from assms have "struct_pack INNER_HEADER [command, int (length ps)]
      = Inr (le_bytes 2 command @ le_bytes 2 (int (length ps)))"
    by (simp add: INNER_HEADER_def in_range_def fmt_span_def)
  from header_data [OF this, of ps] show ?thesis by (simp add: uvk5_payload_def)
qed

lemma opcode_range: "0 \<le> opcode c \<and> opcode c < 65536"
  by (cases c) simp_all

lemma sendable_message:
  assumes "sendable obf m"
  shows "frame_bytes obf m = uvk5_enc obf (sent_as m) \<and> uvk5_wf obf (sent_as m) \<and>
    parse_frame (uvk5_out (sent_as m)) = Inr (Some m)"
proof -
  from assms obtain c ps fr where m: "message_wf m" "message_command m = Some c"
    "message_pack m = Inr ps" "build_frame (opcode c) ps obf = Inr fr"
    by (auto simp: sendable_def frame_of_def pack_then_def split: option.splits sum.splits)
  then have "frame_of m obf = Inr fr" by (simp add: frame_of_def pack_then_def)
  with m have "frame_bytes obf m = uvk5_enc obf (sent_as m)" "uvk5_wf obf (sent_as m)"
    by (simp_all add: frame_bytes_def uvk5_enc_def uvk5_wf_def sent_as_def)
  moreover from m(4) have len: "length ps \<le> 250" using build_frame_iff [of "opcode c" ps obf] by blast
  from dispatch_message [OF m(1-3)] obtain unpack where
    "map_of DISPATCH (opcode c) = Some unpack" "unpack ps = Inr m" by blast
  with parse_uvk5_payload [of "opcode c" ps] opcode_range [of c] len m
  have "parse_frame (uvk5_out (sent_as m)) = Inr (Some m)"
    by (simp add: parse_frame_def uvk5_out_def sent_as_def INNER_HEADER_def)
  ultimately show ?thesis by blast
qed



text \<open>\<open>parse_frame\<close> never raises, whatever bytes a radio sends: the only answers are \<open>None\<close>, exactly
  for a payload too short for the inner header, and a message; an unknown opcode gives a
  \<open>RawMessage\<close> that keeps the opcode's parameters byte for byte.
\<close>

theorem parse_frame_total:
  "(\<exists>r. parse_frame payload = Inr r \<and> (r = None) = (length payload < 4)) \<and>
   (4 \<le> length payload \<and> map_of DISPATCH (le_int (take 2 payload)) = None \<longrightarrow>
      parse_frame payload =
        Inr (Some (RawMessage (le_int (take 2 payload)) (le_int (take 2 (drop 2 payload))) (drop 4 payload))))"
proof (cases "length payload < 4")
  case True
  then show ?thesis by (simp add: parse_frame_def INNER_HEADER_def)
next
  case False
  then have "unpack_prefix INNER_HEADER payload =
      Inr [le_int (take 2 payload), le_int (take 2 (drop 2 payload))]"
    by (simp add: unpack_prefix_def struct_unpack_def INNER_HEADER_def field_value.simps drop_take)
  with False show ?thesis
    using tame_dispatch [of "le_int (take 2 payload)" _ "drop 4 payload"]
    by (auto simp: parse_frame_def INNER_HEADER_def Let_def tame_def split: option.splits sum.splits)
qed

theorem parse_frame_total_witness:
  "parse_frame [1, 0, 2, 0, 9, 9] = Inr (Some (RawMessage 1 2 [9, 9]))"
  using parse_frame_total [of "[1, 0, 2, 0, 9, 9]"] by (simp add: DISPATCH_def)

text \<open>The second receiver's three frames cannot do each other's work. What \<open>SetBroadcastFm\<close> puts on
  the wire is an ON or TUNE action (never OFF) at a positive frequency on the 100 kHz raster in a
  band 0..3; \<open>ClearBroadcastFm\<close> always sends the OFF action; and \<open>ProbeBroadcastFm\<close> always sends
  TUNE at 0 Hz, which no \<open>SetBroadcastFm\<close> can build.
\<close>

theorem broadcast_fm_frames_disjoint:
  assumes "set_broadcast_fm_new action hz band = Inr m" and "message_pack m = Inr ps"
  shows "\<exists>a f. hz = Some f \<and> struct_unpack [FmtB, FmtI, FmtB] ps = Inr [a, f, band] \<and>
      (a = 1 \<and> action = ''on'' \<or> a = 2 \<and> action = ''tune'') \<and>
      0 < f \<and> f mod 100000 = 0 \<and> 0 \<le> band \<and> band \<le> 3 \<and>
      message_pack ClearBroadcastFm = Inr [0, 0, 0, 0, 0, 0] \<and>
      message_pack ProbeBroadcastFm = Inr [2, 0, 0, 0, 0, 0] \<and>
      ps \<noteq> [0, 0, 0, 0, 0, 0] \<and> ps \<noteq> [2, 0, 0, 0, 0, 0]"
proof -
  from assms(1) obtain f a where f: "hz = Some f" "0 < f" "f mod 100000 = 0" "0 \<le> band" "band \<le> 3"
    "map_of BROADCAST_FM_ACTIONS action = Some a" "m = SetBroadcastFm action f band"
    by (auto simp: set_broadcast_fm_new_def BROADCAST_FM_RASTER_HZ_def BROADCAST_FM_BAND_MAX_def
        split: if_splits option.splits)
  from f(6) have a: "a = 1 \<and> action = ''on'' \<or> a = 2 \<and> action = ''tune''"
    by (auto simp: BROADCAST_FM_ACTIONS_def split: if_splits)
  from f(6,7) assms(2) have ps: "struct_pack [FmtB, FmtI, FmtB] [a, f, band] = Inr ps"
    by (simp add: set_broadcast_fm_pack_def)
  have clear: "struct_pack [FmtB, FmtI, FmtB] [0, 0, 0] = Inr [0, 0, 0, 0, 0, 0]" by code_simp
  have probe: "struct_pack [FmtB, FmtI, FmtB] [2, 0, 0] = Inr [2, 0, 0, 0, 0, 0]" by code_simp
  have "ps \<noteq> [0, 0, 0, 0, 0, 0]" "ps \<noteq> [2, 0, 0, 0, 0, 0]"
    using struct_roundtrip [OF ps] struct_roundtrip [OF clear] struct_roundtrip [OF probe] f(2) by auto
  with f a struct_roundtrip [OF ps] clear probe show ?thesis
    by (auto simp: clear_broadcast_fm_pack_def probe_broadcast_fm_pack_def simp del: struct_pack.simps)
qed

theorem broadcast_fm_frames_disjoint_witness:
  "(104300000 :: int) mod 100000 = 0 \<and>
   message_pack (SetBroadcastFm ''on'' 104300000 0) \<noteq> message_pack ClearBroadcastFm"
proof -
  have m: "set_broadcast_fm_new ''on'' (Some 104300000) 0 = Inr (SetBroadcastFm ''on'' 104300000 0)"
    by code_simp
  have p: "message_pack (SetBroadcastFm ''on'' 104300000 0) = Inr [1, 0xE0, 0x7D, 0x37, 0x06, 0]"
    by code_simp
  from broadcast_fm_frames_disjoint [OF m p]
  have c: "message_pack ClearBroadcastFm = Inr [0, 0, 0, 0, 0, 0]" by blast
  show ?thesis unfolding p c by simp
qed

end
