(* ===== verification/Vfo.thy ===== *)
theory Vfo
  imports Uvk5Messages
begin

unbundle bit_operations_syntax

section \<open>VFO records in the UV-K5's EEPROM\<close>

text \<open>
  \<open>radio_server/backends/uvk5/vfo.py\<close>: the band table and \<open>band_for\<close>, the EEPROM addresses, the
  power scales, and \<open>VfoImage\<close> with \<open>pack_eeprom\<close> and \<open>unpack_eeprom\<close>. Frequencies are Python
  ints in Hz; the record holds units of 10 Hz. \<open>BandError\<close> is a \<open>ValueError\<close>. The theory shows
  which band a frequency gets, that the record reads back (exactly on the 10 Hz raster, within it
  otherwise), and that every record the server writes is accepted by the EEPROM command.
\<close>

definition HZ_PER_UNIT :: int where "HZ_PER_UNIT = 10"
definition FREQ_CHANNEL_FIRST :: int where "FREQ_CHANNEL_FIRST = 1024"

definition BAND_EDGES_HZ :: "(int \<times> int) list" where
  "BAND_EDGES_HZ =
    [(18000000, 108000000),
     (108000000, 137000000),
     (137000000, 174000000),
     (174000000, 350000000),
     (350000000, 400000000),
     (400000000, 470000000),
     (470000000, 1300000000)]"

definition FIRMWARE_POWER :: "int list" where "FIRMWARE_POWER = [1, 6, 7]"
definition POWER_LOW :: int where "POWER_LOW = 0"
definition POWER_MID :: int where "POWER_MID = 1"
definition POWER_HIGH :: int where "POWER_HIGH = 2"
definition VFO_BLOCK_BASE :: int where "VFO_BLOCK_BASE = 0x9000"
definition VFO_BLOCK_STRIDE :: int where "VFO_BLOCK_STRIDE = 32"
definition VFO_RECORD_LEN :: int where "VFO_RECORD_LEN = 16"
definition ATTR_BASE :: int where "ATTR_BASE = 0x8000"
definition ATTR_UNSET :: int where "ATTR_UNSET = 0xFFFF"
definition BOOT_INDEX_BLOCK :: int where "BOOT_INDEX_BLOCK = 0xA010"
definition BOOT_INDEX_LEN :: nat where "BOOT_INDEX_LEN = 16"
definition MODULATION_FM :: int where "MODULATION_FM = 0"
definition CODE_TYPE_OFF :: int where "CODE_TYPE_OFF = 0"
definition CODE_TYPE_CTCSS :: int where "CODE_TYPE_CTCSS = 1"
definition STEP_12_5KHZ :: int where "STEP_12_5KHZ = 4"

lemmas vfo_consts = HZ_PER_UNIT_def MODULATION_FM_def CODE_TYPE_OFF_def CODE_TYPE_CTCSS_def STEP_12_5KHZ_def OFFSET_NONE_def
  OFFSET_ADD_def OFFSET_SUB_def

subsection \<open>Power levels\<close>

datatype power_level = LevelLOW | LevelMID | LevelHIGH

definition power_steps :: "(power_level \<times> int) list" where
  "power_steps = [(LevelLOW, POWER_LOW), (LevelMID, POWER_MID), (LevelHIGH, POWER_HIGH)]"

fun level_step :: "power_level \<Rightarrow> int" where
  "level_step LevelLOW = POWER_LOW"
| "level_step LevelMID = POWER_MID"
| "level_step LevelHIGH = POWER_HIGH"

definition level_from_step :: "int \<Rightarrow> exn + power_level" where
  "level_from_step n =
     (case map_of (map (\<lambda>(l, s). (s, l)) power_steps) n of None \<Rightarrow> Inl KeyError | Some l \<Rightarrow> Inr l)"

definition level_from_firmware :: "int \<Rightarrow> power_level option" where
  "level_from_firmware v = map_of (map (\<lambda>(l, s). (FIRMWARE_POWER ! nat s, l)) power_steps) v"

subsection \<open>Bands and addresses\<close>

text \<open>The loop of \<open>band_for\<close>: \<open>n\<close> counts the bands still to be looked at, from the top.\<close>

fun band_scan :: "nat \<Rightarrow> int \<Rightarrow> exn + nat" where
  "band_scan 0 hz = Inl ValueError"
| "band_scan (Suc n) hz =
     (let (lower, upper) = BAND_EDGES_HZ ! n in
      if lower \<le> hz then (if upper < hz then Inl ValueError else Inr n) else band_scan n hz)"

definition band_for :: "int \<Rightarrow> exn + nat" where
  "band_for hz = band_scan (length BAND_EDGES_HZ) hz"

definition freq_channel :: "int \<Rightarrow> int" where
  "freq_channel band = FREQ_CHANNEL_FIRST + band"

definition vfo_addr :: "int \<Rightarrow> int \<Rightarrow> exn + int" where
  "vfo_addr band vfo_index =
     (if vfo_index \<notin> {0, 1} then Inl ValueError
      else if \<not> (0 \<le> band \<and> band < int (length BAND_EDGES_HZ)) then Inl ValueError
      else Inr (VFO_BLOCK_BASE + band * VFO_BLOCK_STRIDE + vfo_index * VFO_RECORD_LEN))"

definition attr_addr :: "int \<Rightarrow> int" where
  "attr_addr channel = ATTR_BASE + channel * 2"

definition attribute_word :: "int \<Rightarrow> int" where
  "attribute_word band = band AND 0x07"

definition pack_boot_indices :: "int \<times> int \<Rightarrow> int \<times> int \<Rightarrow> int \<times> int \<Rightarrow> exn + bytes" where
  "pack_boot_indices screen mr freq =
     struct_pack (replicate 8 FmtH)
       [fst screen, fst mr, fst freq, snd screen, snd mr, snd freq, 0, 0]"

definition unpack_boot_indices :: "bytes \<Rightarrow> exn + (int \<times> int) \<times> (int \<times> int) \<times> (int \<times> int)" where
  "unpack_boot_indices data =
     (if length data \<noteq> BOOT_INDEX_LEN then Inl ValueError
      else case struct_unpack (replicate 8 FmtH) data of
             Inr [s0, m0, f0, s1, m1, f1, n0, n1] \<Rightarrow> Inr ((s0, s1), (m0, m1), (f0, f1))
           | _ \<Rightarrow> Inl StructError)"

subsection \<open>VfoImage\<close>

record vfo_image =
  vi_rx_hz :: int
  vi_tx_hz :: int
  vi_ctcss_tenths :: int
  vi_narrow :: bool
  vi_power :: int

definition vfo_image_new :: "int \<Rightarrow> int \<Rightarrow> int \<Rightarrow> bool \<Rightarrow> int \<Rightarrow> exn + vfo_image" where
  "vfo_image_new rx tx ctcss narrow pwr =
     (if rx \<le> 0 \<or> tx \<le> 0 then Inl ValueError
      else if pwr \<notin> {POWER_LOW, POWER_MID, POWER_HIGH} then Inl ValueError
      else if ctcss \<noteq> 0 \<and> ctcss \<notin> set CTCSS_OPTIONS then Inl ValueError
      else case band_for rx of Inl e \<Rightarrow> Inl e | Inr _ \<Rightarrow>
           (case band_for tx of Inl e \<Rightarrow> Inl e | Inr _ \<Rightarrow>
             Inr \<lparr>vi_rx_hz = rx, vi_tx_hz = tx, vi_ctcss_tenths = ctcss, vi_narrow = narrow,
                  vi_power = pwr\<rparr>))"

definition vi_offset_hz :: "vfo_image \<Rightarrow> int" where
  "vi_offset_hz v = \<bar>vi_tx_hz v - vi_rx_hz v\<bar>"

definition vi_direction :: "vfo_image \<Rightarrow> int" where
  "vi_direction v =
     (if vi_rx_hz v < vi_tx_hz v then OFFSET_ADD
      else if vi_tx_hz v < vi_rx_hz v then OFFSET_SUB
      else OFFSET_NONE)"

text \<open>\<open>tuple.index\<close>: the first position, or \<open>ValueError\<close>.\<close>

fun index_of :: "'a list \<Rightarrow> 'a \<Rightarrow> exn + nat" where
  "index_of [] x = Inl ValueError"
| "index_of (y # ys) x =
     (if x = y then Inr 0 else case index_of ys x of Inl e \<Rightarrow> Inl e | Inr n \<Rightarrow> Inr (Suc n))"

definition vi_ctcss_index :: "vfo_image \<Rightarrow> exn + nat" where
  "vi_ctcss_index v = (if vi_ctcss_tenths v \<noteq> 0 then index_of CTCSS_OPTIONS (vi_ctcss_tenths v) else Inr 0)"

definition vfo_format :: "fmt list" where
  "vfo_format = [FmtI, FmtI] @ replicate 8 FmtB"

lemma calcsize_vfo_format [simp]: "calcsize vfo_format = 16"
  by (simp add: vfo_format_def eval_nat_numeral)

definition vfo_flags :: "vfo_image \<Rightarrow> int" where
  "vfo_flags v =
     (push_bit 6 0 OR push_bit 5 0 OR push_bit 2 (FIRMWARE_POWER ! nat (vi_power v))
        OR push_bit 1 (of_bool (vi_narrow v)) OR 0)"

definition pack_eeprom :: "vfo_image \<Rightarrow> exn + bytes" where
  "pack_eeprom v =
     (case vi_ctcss_index v of
        Inl e \<Rightarrow> Inl e
      | Inr idx \<Rightarrow>
          (let tone_type = (if vi_ctcss_tenths v \<noteq> 0 then CODE_TYPE_CTCSS else CODE_TYPE_OFF) in
           struct_pack vfo_format
             [vi_rx_hz v div HZ_PER_UNIT,
              vi_offset_hz v div HZ_PER_UNIT,
              0,
              int idx,
              push_bit 4 tone_type OR CODE_TYPE_OFF,
              push_bit 4 MODULATION_FM OR vi_direction v,
              vfo_flags v,
              0,
              STEP_12_5KHZ,
              0]))"

definition unpack_eeprom :: "bytes \<Rightarrow> exn + vfo_image" where
  "unpack_eeprom data =
     (if int (length data) \<noteq> VFO_RECORD_LEN then Inl ValueError
      else case struct_unpack vfo_format data of
        Inr [rx_u, off_u, rx_code, tx_code, types, mod_dir, flags, d13, step, scr] \<Rightarrow>
          (let rx_hz = rx_u * HZ_PER_UNIT;
               offset_hz = off_u * HZ_PER_UNIT;
               direction = mod_dir AND 0x0F;
               tx_hz = (if direction = OFFSET_ADD then rx_hz + offset_hz
                        else if direction = OFFSET_SUB then rx_hz - offset_hz
                        else rx_hz);
               is_ctcss = ((drop_bit 4 types AND 0x0F) = CODE_TYPE_CTCSS);
               fw_power = drop_bit 2 flags AND 0x07;
               pwr = (case index_of FIRMWARE_POWER fw_power of Inr n \<Rightarrow> int n | Inl e \<Rightarrow> POWER_HIGH)
           in if is_ctcss \<and> length CTCSS_OPTIONS \<le> nat tx_code then Inl IndexError
              else vfo_image_new rx_hz tx_hz
                     (if is_ctcss then CTCSS_OPTIONS ! nat tx_code else 0)
                     (drop_bit 1 flags AND 1 \<noteq> 0) pwr)
      | _ \<Rightarrow> Inl StructError)"

subsection \<open>Bands\<close>

lemma band_for_cases:
  "band_for hz =
     (if hz < 18000000 \<or> 1300000000 < hz then Inl ValueError
      else if hz < 108000000 then Inr 0
      else if hz < 137000000 then Inr 1
      else if hz < 174000000 then Inr 2
      else if hz < 350000000 then Inr 3
      else if hz < 400000000 then Inr 4
      else if hz < 470000000 then Inr 5
      else Inr 6)"
  by (simp add: band_for_def BAND_EDGES_HZ_def eval_nat_numeral)

lemma band_for_ok: "(\<exists>b. band_for hz = Inr b) \<longleftrightarrow> 18000000 \<le> hz \<and> hz \<le> 1300000000"
  by (simp add: band_for_cases)

lemma vfo_image_new_iff:
  "vfo_image_new rx tx ctcss narrow pwr = Inr v \<longleftrightarrow>
     18000000 \<le> rx \<and> rx \<le> 1300000000 \<and> 18000000 \<le> tx \<and> tx \<le> 1300000000 \<and>
     pwr \<in> {0, 1, 2} \<and> (ctcss = 0 \<or> ctcss \<in> set CTCSS_OPTIONS) \<and>
     v = \<lparr>vi_rx_hz = rx, vi_tx_hz = tx, vi_ctcss_tenths = ctcss, vi_narrow = narrow, vi_power = pwr\<rparr>"
  using band_for_ok [of rx] band_for_ok [of tx]
  by (auto simp: vfo_image_new_def POWER_LOW_def POWER_MID_def POWER_HIGH_def split: sum.splits)

subsection \<open>The record reads back\<close>

lemma index_of_mem: "x \<in> set xs \<Longrightarrow> \<exists>n < length xs. index_of xs x = Inr n \<and> xs ! n = x"
  by (induction xs) (auto split: sum.splits)

lemma vfo_flags_eq:
  "vi_power v \<in> {0, 1, 2} \<Longrightarrow>
     0 \<le> vfo_flags v \<and> vfo_flags v < 64 \<and> drop_bit 2 (vfo_flags v) AND 7 = FIRMWARE_POWER ! nat (vi_power v) \<and>
     (drop_bit 1 (vfo_flags v) AND 1 \<noteq> 0) = vi_narrow v"
  by (auto simp: vfo_flags_def FIRMWARE_POWER_def eval_nat_numeral)

definition vfo_valid :: "vfo_image \<Rightarrow> bool" where
  "vfo_valid v =
     (vfo_image_new (vi_rx_hz v) (vi_tx_hz v) (vi_ctcss_tenths v) (vi_narrow v) (vi_power v) = Inr v)"

lemma vfo_valid_iff:
  "vfo_valid v \<longleftrightarrow>
     18000000 \<le> vi_rx_hz v \<and> vi_rx_hz v \<le> 1300000000 \<and>
     18000000 \<le> vi_tx_hz v \<and> vi_tx_hz v \<le> 1300000000 \<and>
     vi_power v \<in> {0, 1, 2} \<and> (vi_ctcss_tenths v = 0 \<or> vi_ctcss_tenths v \<in> set CTCSS_OPTIONS)"
  by (cases v) (auto simp: vfo_valid_def vfo_image_new_iff)

text \<open>What the truncation to 10 Hz units leaves of the two frequencies.\<close>

definition vfo_stored_rx :: "vfo_image \<Rightarrow> int" where
  "vfo_stored_rx v = vi_rx_hz v div 10 * 10"

definition vfo_stored_tx :: "vfo_image \<Rightarrow> int" where
  "vfo_stored_tx v =
     (if vi_rx_hz v < vi_tx_hz v then vfo_stored_rx v + (vi_tx_hz v - vi_rx_hz v) div 10 * 10
      else vfo_stored_rx v - (vi_rx_hz v - vi_tx_hz v) div 10 * 10)"

lemma vfo_stored_bounds:
  assumes "vfo_valid v"
  shows "18000000 \<le> vfo_stored_rx v \<and> vfo_stored_rx v \<le> 1300000000 \<and>
    18000000 \<le> vfo_stored_tx v \<and> vfo_stored_tx v \<le> 1300000000 \<and>
    0 \<le> vi_rx_hz v - vfo_stored_rx v \<and> vi_rx_hz v - vfo_stored_rx v < 10 \<and>
    \<bar>vi_tx_hz v - vfo_stored_tx v\<bar> < 20"
proof -
  let ?r = "vi_rx_hz v" and ?t = "vi_tx_hz v"
  from assms have b: "18000000 \<le> ?r" "?r \<le> 1300000000" "18000000 \<le> ?t" "?t \<le> 1300000000"
    by (simp_all add: vfo_valid_iff)
  define a r where "a = ?r div 10" and "r = ?r mod 10"
  define d where "d = (if ?r < ?t then ?t - ?r else ?r - ?t)"
  define c s where "c = d div 10" and "s = d mod 10"
  have ar: "?r = 10 * a + r" "0 \<le> r" "r < 10" by (simp_all add: a_def r_def)
  have cs: "d = 10 * c + s" "0 \<le> s" "s < 10" by (simp_all add: c_def s_def)
  have rx: "vfo_stored_rx v = 10 * a" by (simp add: vfo_stored_rx_def a_def)
  have "0 \<le> d" by (simp add: d_def)
  then have c0: "0 \<le> c" by (simp add: c_def)
  from b(1) ar have a0: "1800000 \<le> a" by linarith
  show ?thesis
  proof (cases "?r < ?t")
    case True
    then have "vfo_stored_tx v = 10 * a + 10 * c" "?t = ?r + d"
      by (simp_all add: vfo_stored_tx_def rx c_def d_def)
    with b ar cs rx c0 a0 show ?thesis by simp
  next
    case False
    then have "vfo_stored_tx v = 10 * a - 10 * c" "?t = ?r - d"
      by (simp_all add: vfo_stored_tx_def rx c_def d_def)
    moreover from this(2) b(3) ar cs have "1800000 \<le> a - c" by linarith
    ultimately show ?thesis using b ar cs rx c0 by (intro conjI) linarith+
  qed
qed

lemma vfo_fields_in_range:
  assumes "vfo_valid v" "vi_ctcss_index v = Inr idx" "idx < 50"
  shows "\<exists>bs. struct_pack vfo_format
    [vi_rx_hz v div 10, vi_offset_hz v div 10, 0, int idx,
     push_bit 4 (if vi_ctcss_tenths v \<noteq> 0 then 1 else 0) OR 0, push_bit 4 0 OR vi_direction v,
     vfo_flags v, 0, 4, 0] = Inr bs"
proof -
  from assms(1) have "vi_power v \<in> {0, 1, 2}" by (simp add: vfo_valid_iff)
  from vfo_flags_eq [OF this] have f: "0 \<le> vfo_flags v" "vfo_flags v < 64" by simp_all
  have o: "0 \<le> vi_offset_hz v div 10" "vi_offset_hz v div 10 < 4294967296"
    "0 \<le> vi_rx_hz v div 10" "vi_rx_hz v div 10 < 4294967296"
    using assms(1) by (auto simp: vfo_valid_iff vi_offset_hz_def)
  have d: "vi_direction v \<in> {0, 1, 2}" by (simp add: vi_direction_def vfo_consts)
  show ?thesis
    unfolding struct_pack_ok_iff using f o d assms(3)
    by (auto simp: vfo_format_def in_range_def fmt_span_def eval_nat_numeral)
qed

lemma length_CTCSS_OPTIONS [simp]: "length CTCSS_OPTIONS = 50"
  by (simp add: CTCSS_OPTIONS_def)

lemma vfo_ctcss_index:
  "vfo_valid v \<Longrightarrow> \<exists>idx. vi_ctcss_index v = Inr idx \<and> idx < 50 \<and>
     (vi_ctcss_tenths v \<noteq> 0 \<longrightarrow> CTCSS_OPTIONS ! idx = vi_ctcss_tenths v)"
proof (cases "vi_ctcss_tenths v = 0")
  case False
  assume "vfo_valid v"
  with False have "vi_ctcss_tenths v \<in> set CTCSS_OPTIONS" by (simp add: vfo_valid_iff)
  from index_of_mem [OF this] False show ?thesis
    by (auto simp: vi_ctcss_index_def)
qed (simp add: vi_ctcss_index_def)

lemma power_back:
  "p \<in> {0, 1, 2} \<Longrightarrow>
     (case index_of FIRMWARE_POWER (FIRMWARE_POWER ! nat p) of Inr n \<Rightarrow> int n | Inl e \<Rightarrow> POWER_HIGH) = p"
  by (auto simp: FIRMWARE_POWER_def POWER_HIGH_def)

lemma pack_unpack_eeprom:
  assumes v: "vfo_valid v"
  shows "\<exists>bs. pack_eeprom v = Inr bs \<and> unpack_eeprom bs =
    Inr (v\<lparr>vi_rx_hz := vfo_stored_rx v, vi_tx_hz := vfo_stored_tx v\<rparr>)"
proof -
  from vfo_ctcss_index [OF v] obtain idx where idx: "vi_ctcss_index v = Inr idx" "idx < 50"
    "vi_ctcss_tenths v \<noteq> 0 \<longrightarrow> CTCSS_OPTIONS ! idx = vi_ctcss_tenths v" by blast
  from vfo_fields_in_range [OF v idx(1,2)] obtain bs where bs: "struct_pack vfo_format
    [vi_rx_hz v div 10, vi_offset_hz v div 10, 0, int idx,
     push_bit 4 (if vi_ctcss_tenths v \<noteq> 0 then 1 else 0) OR 0, push_bit 4 0 OR vi_direction v,
     vfo_flags v, 0, 4, 0] = Inr bs" by blast
  have pk: "pack_eeprom v = Inr bs"
    using bs idx(1) by (cases "vi_ctcss_tenths v = 0")
      (simp_all add: pack_eeprom_def vfo_consts del: struct_pack.simps)
  from struct_pack_length [OF bs] have len: "length bs = 16" by simp
  from v have p: "vi_power v \<in> {0, 1, 2}" by (simp add: vfo_valid_iff)
  note fl = vfo_flags_eq [OF p] power_back [OF p]
  define tx where "tx = vfo_stored_tx v"
  have dir: "vi_direction v = 0 \<and> vi_rx_hz v div 10 * 10 = tx \<or>
      vi_direction v = 1 \<and> vi_rx_hz v div 10 * 10 + vi_offset_hz v div 10 * 10 = tx \<or>
      vi_direction v = 2 \<and> vi_rx_hz v div 10 * 10 - vi_offset_hz v div 10 * 10 = tx"
    by (auto simp: tx_def vi_direction_def vfo_consts vfo_stored_tx_def vfo_stored_rx_def vi_offset_hz_def)
  have new: "vfo_image_new (vfo_stored_rx v) (vfo_stored_tx v) (vi_ctcss_tenths v) (vi_narrow v) (vi_power v)
      = Inr (v\<lparr>vi_rx_hz := vfo_stored_rx v, vi_tx_hz := vfo_stored_tx v\<rparr>)"
    using vfo_stored_bounds [OF v] v by (cases v) (auto simp: vfo_image_new_iff vfo_valid_iff)
  have "unpack_eeprom bs = Inr (v\<lparr>vi_rx_hz := vfo_stored_rx v, vi_tx_hz := vfo_stored_tx v\<rparr>)"
    unfolding unpack_eeprom_def
    using struct_roundtrip [OF bs] len fl idx new dir
    by (cases "vi_ctcss_tenths v = 0"; elim disjE)
      (simp_all add: VFO_RECORD_LEN_def Let_def vfo_consts vfo_stored_rx_def flip: tx_def)
  with pk show ?thesis by blast
qed

lemma boot_indices_roundtrip [roundtrip_intros]:
  "pack_boot_indices sc mr fr = Inr bs \<Longrightarrow> unpack_boot_indices bs = Inr (sc, mr, fr)"
  using struct_roundtrip [of "replicate 8 FmtH"
      "[fst sc, fst mr, fst fr, snd sc, snd mr, snd fr, 0, 0]" bs]
    struct_pack_length [of "replicate 8 FmtH"
      "[fst sc, fst mr, fst fr, snd sc, snd mr, snd fr, 0, 0]" bs]
  by (simp add: pack_boot_indices_def unpack_boot_indices_def BOOT_INDEX_LEN_def del: struct_pack.simps)

lemma level_step_roundtrip: "level_from_step (level_step l) = Inr l"
  by (cases l) (simp_all add: level_from_step_def power_steps_def POWER_LOW_def POWER_MID_def POWER_HIGH_def)

lemma level_firmware_roundtrip: "level_from_firmware (FIRMWARE_POWER ! nat (level_step l)) = Some l"
  by (cases l) (simp_all add: level_from_firmware_def power_steps_def POWER_LOW_def POWER_MID_def
      POWER_HIGH_def FIRMWARE_POWER_def)

lemma flags_byte:
  assumes "struct_pack vfo_format [a, b, c, d, e, f, g, h, i, j] = Inr bs"
  shows "bs ! 12 = word_of_int g"
  using assms by (auto simp: vfo_format_def eval_nat_numeral nth_append split: if_splits sum.splits)

lemma pack_eeprom_flags:
  assumes "vfo_valid v" "pack_eeprom v = Inr bs"
  shows "length bs = 16 \<and> bs ! 12 AND 0x40 = 0 \<and> bs ! 12 \<noteq> 0xFF"
proof -
  from assms(2) obtain a b c d e f h i j where
    bs: "struct_pack vfo_format [a, b, c, d, e, f, vfo_flags v, h, i, j] = Inr bs"
    by (auto simp: pack_eeprom_def Let_def simp del: struct_pack.simps split: sum.splits)
  have "vi_power v \<in> {0, 1, 2}" using assms(1) by (simp add: vfo_valid_iff)
  then have "vfo_flags v \<in> {4, 6, 24, 26, 28, 30}"
    by (cases "vi_narrow v") (auto simp: vfo_flags_def FIRMWARE_POWER_def)
  with flags_byte [OF bs] struct_pack_length [OF bs] show ?thesis by auto
qed

lemma vfo_addr_ok:
  "vfo_addr band i = Inr a \<longleftrightarrow> i \<in> {0, 1} \<and> 0 \<le> band \<and> band < 7 \<and> a = 36864 + 32 * band + 16 * i"
  by (auto simp: vfo_addr_def VFO_BLOCK_BASE_def VFO_BLOCK_STRIDE_def VFO_RECORD_LEN_def BAND_EDGES_HZ_def)

subsection \<open>Properties\<close>

text \<open>A channel written to the radio reads back as the channel that was asked for. Every valid
  \<open>VfoImage\<close> packs to a 16-byte record in which \<open>TX_LOCK\<close> is clear and the flags byte is not the
  "unprogrammed" 0xFF, and the record unpacks, without error, to the same tone, width and power, to
  a receive frequency less than 10 Hz and a transmit frequency less than 20 Hz away, and to exactly
  the same image when both frequencies are multiples of 10 Hz.
\<close>

theorem vfo_record_roundtrip:
  assumes "vfo_valid v"
  shows "\<exists>bs w. pack_eeprom v = Inr bs \<and> unpack_eeprom bs = Inr w \<and>
      length bs = 16 \<and> bs ! 12 AND 0x40 = 0 \<and> bs ! 12 \<noteq> 0xFF \<and>
      vi_ctcss_tenths w = vi_ctcss_tenths v \<and> vi_narrow w = vi_narrow v \<and> vi_power w = vi_power v \<and>
      \<bar>vi_rx_hz v - vi_rx_hz w\<bar> < 10 \<and> \<bar>vi_tx_hz v - vi_tx_hz w\<bar> < 20 \<and>
      (10 dvd vi_rx_hz v \<and> 10 dvd vi_tx_hz v \<longrightarrow> w = v)"
proof -
  let ?w = "v\<lparr>vi_rx_hz := vfo_stored_rx v, vi_tx_hz := vfo_stored_tx v\<rparr>"
  from pack_unpack_eeprom [OF assms] obtain bs where
    bs: "pack_eeprom v = Inr bs" "unpack_eeprom bs = Inr ?w" by blast
  have exact: "10 dvd vi_rx_hz v \<Longrightarrow> 10 dvd vi_tx_hz v \<Longrightarrow> ?w = v"
    by (cases v) (auto simp: vfo_stored_rx_def vfo_stored_tx_def)
  from pack_eeprom_flags [OF assms bs(1)] vfo_stored_bounds [OF assms] bs exact show ?thesis
    by (intro exI [of _ bs] exI [of _ ?w]) auto
qed

theorem vfo_record_roundtrip_witness:
  "pack_eeprom \<lparr>vi_rx_hz = 146940000, vi_tx_hz = 146340000, vi_ctcss_tenths = 1000, vi_narrow = False,
      vi_power = 2\<rparr> \<noteq> Inl ValueError"
proof -
  have "vfo_valid \<lparr>vi_rx_hz = 146940000, vi_tx_hz = 146340000, vi_ctcss_tenths = 1000,
      vi_narrow = False, vi_power = 2\<rparr>"
    by (simp add: vfo_valid_iff CTCSS_OPTIONS_def)
  from vfo_record_roundtrip [OF this] show ?thesis by auto
qed

text \<open>\<open>band_for\<close> gives the highest band whose lower edge is at or below the frequency, as the
  firmware does on the shared edges, and refuses exactly the frequencies outside the radio.
\<close>

theorem band_for_spec:
  "(band_for hz = Inr b \<longleftrightarrow>
      b < length BAND_EDGES_HZ \<and> fst (BAND_EDGES_HZ ! b) \<le> hz \<and> hz \<le> snd (BAND_EDGES_HZ ! b) \<and>
      (b = 6 \<or> hz < fst (BAND_EDGES_HZ ! Suc b))) \<and>
   (band_for hz = Inl ValueError \<longleftrightarrow> hz < 18000000 \<or> 1300000000 < hz)"
proof -
  have "b < 7 \<longleftrightarrow> b = 0 \<or> b = 1 \<or> b = 2 \<or> b = 3 \<or> b = 4 \<or> b = 5 \<or> b = 6" by linarith
  then show ?thesis
    by (auto simp: band_for_cases BAND_EDGES_HZ_def eval_nat_numeral)
qed

text \<open>The tuner's write is always accepted and never touches another slot: for a valid image and a
  band and VFO the radio has, the record is a legal \<open>EepromWrite\<close> that fits a frame, and the
  16-byte ranges of two different slots are disjoint.
\<close>

theorem vfo_write_accepted:
  assumes "vfo_valid v" "0 \<le> band" "band < 7" "i \<in> {0, 1}" "0 \<le> ts" "ts < 4294967296"
  shows "\<exists>a bs m fr. vfo_addr band i = Inr a \<and> pack_eeprom v = Inr bs \<and>
      eeprom_write_new a bs ts 0 = Inr m \<and> frame_of m obf = Inr fr \<and>
      (\<forall>band' i' a'. vfo_addr band' i' = Inr a' \<and> (band', i') \<noteq> (band, i) \<longrightarrow>
         a + 16 \<le> a' \<or> a' + 16 \<le> a)"
proof -
  let ?a = "36864 + 32 * band + 16 * i"
  from pack_unpack_eeprom [OF assms(1)] obtain bs where bs: "pack_eeprom v = Inr bs" by blast
  from pack_eeprom_flags [OF assms(1) bs] have len: "length bs = 16" by simp
  have addr: "vfo_addr band i = Inr ?a" using assms by (simp add: vfo_addr_ok)
  have "?a mod 8 = 0" by presburger
  with assms len have new: "eeprom_write_new ?a bs ts 0 = Inr (EepromWrite ?a bs ts 0)"
    by (auto simp: eeprom_write_new_def EEPROM_CHUNK_def)
  have "\<exists>ps. eeprom_write_pack ?a bs ts 0 = Inr ps \<and> length ps = 24"
    using assms len by (auto simp: eeprom_write_pack_def pack_then_def in_range_def fmt_span_def)
  then obtain fr where "frame_of (EepromWrite ?a bs ts 0) obf = Inr fr"
    using build_frame_iff by (fastforce simp: frame_of_def pack_then_def)
  moreover have "?a + 16 \<le> a' \<or> a' + 16 \<le> ?a"
    if "vfo_addr band' i' = Inr a'" "(band', i') \<noteq> (band, i)" for band' i' a'
    using that assms(4) by (auto simp: vfo_addr_ok)
  ultimately show ?thesis using addr bs new by blast
qed

theorem vfo_write_accepted_witness:
  "\<exists>a. vfo_addr 2 1 = Inr a \<and> a + 16 \<le> 0x9060"
proof -
  have "vfo_valid \<lparr>vi_rx_hz = 146520000, vi_tx_hz = 146520000, vi_ctcss_tenths = 0,
      vi_narrow = False, vi_power = 2\<rparr>"
    by (simp add: vfo_valid_iff)
  from vfo_write_accepted [OF this, of 2 1 0] show ?thesis by (auto simp: vfo_addr_ok)
qed

end
