(* ===== verification/DvDongle.thy ===== *)
theory DvDongle
  imports StreamCodec
begin

section \<open>The DV Dongle packet codec\<close>

text \<open>
  \<open>radio_server/vocoder/frames.py\<close>: the two-byte length/type word, the packets the host builds, the
  classification of the packets the dongle answers, and the streaming deframer with its loop over
  the buffered bytes. Lengths and types are Python integers; the header word is read and built with
  the source's shifts and masks.
\<close>

definition HEADER_LEN :: nat where "HEADER_LEN = 2"
definition LENGTH_MASK :: int where "LENGTH_MASK = 0x1FFF"
definition AMBE_PAYLOAD_LEN :: nat where "AMBE_PAYLOAD_LEN = 48"
definition AMBE_VOICE_OFFSET :: nat where "AMBE_VOICE_OFFSET = 24"
definition AMBE_VOICE_LEN :: nat where "AMBE_VOICE_LEN = 9"
definition AUDIO_PAYLOAD_LEN :: nat where "AUDIO_PAYLOAD_LEN = 320"
definition MAX_PACKET_LEN :: nat where "MAX_PACKET_LEN = HEADER_LEN + AUDIO_PAYLOAD_LEN"

definition TYPE_AUDIO :: int where "TYPE_AUDIO = 4"
definition TYPE_AMBE :: int where "TYPE_AMBE = 5"

definition RESP_NAME :: bytes where
  "RESP_NAME = [0x0E, 0x00, 0x01, 0x00] @ [0x44, 0x56, 0x20, 0x44, 0x6F, 0x6E, 0x67, 0x6C, 0x65, 0x00]"
definition REQ_START :: bytes where "REQ_START = [0x05, 0x00, 0x18, 0x00, 0x01]"
definition RESP_START :: bytes where "RESP_START = REQ_START"
definition REQ_STOP :: bytes where "REQ_STOP = [0x05, 0x00, 0x18, 0x00, 0x00]"
definition RESP_STOP :: bytes where "RESP_STOP = REQ_STOP"
definition RESP_NOP :: bytes where "RESP_NOP = [0x02, 0x00]"

definition AMBE_PARAMS_COMMON :: bytes where
  "AMBE_PARAMS_COMMON =
     [0xEC, 0x13, 0x00, 0x00, 0x30, 0x10, 0x00, 0x40, 0x00, 0x00, 0x00, 0x00,
      0x48, 0x00, 0x00, 0x00, 0x00, 0x00, 0x00, 0x00, 0xFF, 0x00]"
definition AMBE_ENC_PARAMS :: bytes where
  "AMBE_ENC_PARAMS = AMBE_PARAMS_COMMON @ [0x04, 0xF0] @ replicate (AMBE_PAYLOAD_LEN - 24) 0"
definition AMBE_DEC_PARAMS :: bytes where
  "AMBE_DEC_PARAMS = AMBE_PARAMS_COMMON @ [0x20, 0x80] @ replicate (AMBE_PAYLOAD_LEN - 24) 0"

record dv_packet =
  dvp_type :: int
  dvp_payload :: bytes

datatype response_kind = DvName | DvStart | DvStop | DvAmbe | DvAudio | DvNop | DvUnknown

definition dv_build_packet :: "int \<Rightarrow> bytes \<Rightarrow> exn + bytes" where
  "dv_build_packet type_bits payload =
     (let len = int HEADER_LEN + int (length payload)
      in if LENGTH_MASK < len then Inl ValueError
         else let word = push_bit 13 type_bits OR len
              in Inr ([word_of_int (word AND 0xFF), word_of_int (drop_bit 8 word AND 0xFF)] @ payload))"

definition build_ambe_packet :: "bytes \<Rightarrow> exn + bytes" where
  "build_ambe_packet payload =
     (if length payload \<noteq> AMBE_PAYLOAD_LEN then Inl ValueError else dv_build_packet TYPE_AMBE payload)"

definition build_audio_packet :: "bytes \<Rightarrow> exn + bytes" where
  "build_audio_packet pcm =
     (if length pcm \<noteq> AUDIO_PAYLOAD_LEN then Inl ValueError else dv_build_packet TYPE_AUDIO pcm)"

definition build_encode_config_packet :: "exn + bytes" where
  "build_encode_config_packet = build_ambe_packet AMBE_ENC_PARAMS"

definition build_decode_ambe_packet :: "bytes \<Rightarrow> exn + bytes" where
  "build_decode_ambe_packet vf =
     (if length vf \<noteq> AMBE_VOICE_LEN then Inl ValueError
      else build_ambe_packet (take AMBE_VOICE_OFFSET AMBE_DEC_PARAMS @ vf @
             drop (AMBE_VOICE_OFFSET + AMBE_VOICE_LEN) AMBE_DEC_PARAMS))"

definition build_decode_dummy_audio_packet :: "exn + bytes" where
  "build_decode_dummy_audio_packet = build_audio_packet (replicate AUDIO_PAYLOAD_LEN 0)"

text \<open>\<open>Packet.raw\<close> raises on an oversized payload, and \<open>classify\<close> with it.\<close>

definition dv_raw :: "dv_packet \<Rightarrow> exn + bytes" where
  "dv_raw p = dv_build_packet (dvp_type p) (dvp_payload p)"

definition dv_classify :: "dv_packet \<Rightarrow> exn + response_kind" where
  "dv_classify p =
     (if dvp_type p = TYPE_AMBE \<and> length (dvp_payload p) = AMBE_PAYLOAD_LEN then Inr DvAmbe
      else if dvp_type p = TYPE_AUDIO \<and> length (dvp_payload p) = AUDIO_PAYLOAD_LEN then Inr DvAudio
      else case dv_raw p of
        Inl e \<Rightarrow> Inl e
      | Inr raw \<Rightarrow>
          Inr (if raw = RESP_NAME then DvName
               else if raw = RESP_START then DvStart
               else if raw = RESP_STOP then DvStop
               else if raw = RESP_NOP then DvNop
               else DvUnknown))"

definition ambe_voice_frame :: "dv_packet \<Rightarrow> bytes" where
  "ambe_voice_frame p = take AMBE_VOICE_LEN (drop AMBE_VOICE_OFFSET (dvp_payload p))"

text \<open>The \<open>while\<close> loop of \<open>feed\<close> on the decoder's buffer, which is its whole state.\<close>

definition dv_word :: "bytes \<Rightarrow> int" where
  "dv_word buf = uint (buf ! 0) OR push_bit 8 (uint (buf ! 1))"

definition dv_length :: "bytes \<Rightarrow> nat" where
  "dv_length buf = nat (dv_word buf AND LENGTH_MASK)"

function dv_loop :: "bytes \<Rightarrow> bytes \<times> dv_packet list" where
  "dv_loop buf =
     (if length buf < HEADER_LEN then (buf, [])
      else if dv_length buf < HEADER_LEN \<or> MAX_PACKET_LEN < dv_length buf then dv_loop (tl buf)
      else if length buf < dv_length buf then (buf, [])
      else let (rest, ps) = dv_loop (drop (dv_length buf) buf)
           in (rest, \<lparr>dvp_type = drop_bit 13 (dv_word buf),
                      dvp_payload = drop HEADER_LEN (take (dv_length buf) buf)\<rparr> # ps))"
  by pat_completeness auto
termination
  by (relation "measure length") (auto simp: HEADER_LEN_def)

declare dv_loop.simps [simp del]

definition dv_feed :: "bytes \<Rightarrow> bytes \<Rightarrow> bytes \<times> dv_packet list" where
  "dv_feed buf chunk = dv_loop (buf @ chunk)"

lemmas dv_consts = HEADER_LEN_def LENGTH_MASK_def AMBE_PAYLOAD_LEN_def AMBE_VOICE_OFFSET_def
  AMBE_VOICE_LEN_def AUDIO_PAYLOAD_LEN_def MAX_PACKET_LEN_def TYPE_AUDIO_def TYPE_AMBE_def

subsection \<open>The header word\<close>

lemma or_push_bit_add:
  fixes a b :: int
  assumes "0 \<le> a" "a < 2 ^ n"
  shows "push_bit n b OR a = push_bit n b + a"
proof -
  have "push_bit n b AND a = 0"
  proof (rule bit_eqI)
    fix i
    have "take_bit n a = a" using assms by (simp add: take_bit_int_eq_self)
    then have "\<not> bit a i" if "n \<le> i" using that by (metis bit_take_bit_iff not_le)
    then show "bit (push_bit n b AND a) i = bit (0 :: int) i"
      by (auto simp: bit_and_iff bit_push_bit_iff)
  qed
  then show ?thesis by (simp add: disjunctive_add_eq_or)
qed

lemma dv_word_add: "dv_word buf = uint (buf ! 0) + 256 * uint (buf ! 1)"
  using or_push_bit_add [of "uint (buf ! 0)" 8 "uint (buf ! 1)"]
  by (simp add: dv_word_def or.commute push_bit_eq_mult)

lemma length_mask_mod: "w AND LENGTH_MASK = w mod 8192"
  using take_bit_eq_mask [of 13 w] by (simp add: LENGTH_MASK_def mask_eq_exp_minus_1 take_bit_eq_mod)

lemma dv_length_prefix: "2 \<le> length xs \<Longrightarrow> dv_length (xs @ ys) = dv_length xs"
  by (cases xs) (auto simp: dv_length_def dv_word_def nth_append)

lemma dv_word_prefix: "2 \<le> length xs \<Longrightarrow> dv_word (xs @ ys) = dv_word xs"
  by (cases xs) (auto simp: dv_word_def nth_append)

lemma dv_build_packet_word:
  assumes "0 \<le> t" "t < 8" "length payload + 2 \<le> 8191" "dv_build_packet t payload = Inr raw"
  shows "length raw = length payload + 2 \<and> drop 2 raw = payload \<and>
    dv_word (raw @ ys) = 8192 * t + int (length payload) + 2"
proof -
  let ?n = "int (length payload) + 2"
  let ?w = "8192 * t + ?n"
  from assms have w: "push_bit 13 t OR ?n = ?w" "0 \<le> ?w" "?w < 65536"
    using or_push_bit_add [of ?n 13 t] by (simp_all add: push_bit_eq_mult)
  have lo: "uint (word_of_int (?w AND 0xFF) :: byte) = ?w mod 256"
    using take_bit_eq_mask [of 8 ?w]
    by (simp add: mask_eq_exp_minus_1 take_bit_eq_mod uint_byte_mod)
  have hi: "uint (word_of_int (drop_bit 8 ?w AND 0xFF) :: byte) = ?w div 256"
    using take_bit_eq_mask [of 8 "drop_bit 8 ?w"] w
    by (simp add: mask_eq_exp_minus_1 take_bit_eq_mod uint_byte_mod drop_bit_eq_div)
  from assms w have raw: "raw = [word_of_int (?w AND 0xFF), word_of_int (drop_bit 8 ?w AND 0xFF)] @ payload"
    by (simp add: dv_build_packet_def dv_consts Let_def ac_simps)
  have "dv_word (raw @ ys) = ?w mod 256 + 256 * (?w div 256)"
    unfolding dv_word_add raw using lo hi by simp
  with raw show ?thesis by simp
qed

subsection \<open>The deframer\<close>

lemma dv_loop_append:
  "dv_loop (xs @ ys) =
     (let (r, f) = dv_loop xs; (r', f') = dv_loop (r @ ys) in (r', f @ f'))"
proof (induction xs rule: dv_loop.induct)
  case (1 buf)
  show ?case
  proof (cases "length buf < 2")
    case True
    then have "dv_loop buf = (buf, [])" by (simp add: dv_loop.simps [of buf] HEADER_LEN_def)
    then show ?thesis by (simp split: prod.splits)
  next
    case False
    then have ne: "buf \<noteq> []" and p: "dv_length (buf @ ys) = dv_length buf" "dv_word (buf @ ys) = dv_word buf"
      by (auto simp: dv_length_prefix dv_word_prefix)
    consider (desync) "dv_length buf < HEADER_LEN \<or> MAX_PACKET_LEN < dv_length buf"
      | (partial) "\<not> (dv_length buf < HEADER_LEN \<or> MAX_PACKET_LEN < dv_length buf)" "length buf < dv_length buf"
      | (whole) "\<not> (dv_length buf < HEADER_LEN \<or> MAX_PACKET_LEN < dv_length buf)" "\<not> length buf < dv_length buf"
      by blast
    then show ?thesis
    proof cases
      case desync
      with False have "dv_loop buf = dv_loop (tl buf)" by (simp add: dv_loop.simps [of buf] HEADER_LEN_def)
      moreover from desync False ne p have "dv_loop (buf @ ys) = dv_loop (tl buf @ ys)"
        by (simp add: dv_loop.simps [of "buf @ ys"] HEADER_LEN_def)
      ultimately show ?thesis using 1 desync False by (simp add: HEADER_LEN_def)
    next
      case partial
      with False have "dv_loop buf = (buf, [])" by (simp add: dv_loop.simps [of buf])
      then show ?thesis by (simp split: prod.splits)
    next
      case whole
      let ?n = "dv_length buf"
      let ?p = "\<lparr>dvp_type = drop_bit 13 (dv_word buf), dvp_payload = drop HEADER_LEN (take ?n buf)\<rparr>"
      obtain r f where r: "dv_loop (drop ?n buf) = (r, f)" by fastforce
      obtain r' f' where r': "dv_loop (r @ ys) = (r', f')" by fastforce
      from 1(2) [OF _ whole(1) whole(2)] False r r'
      have "dv_loop (drop ?n buf @ ys) = (r', f @ f')" by (simp add: HEADER_LEN_def)
      with whole False p have "dv_loop (buf @ ys) = (r', ?p # f @ f')"
        by (simp add: dv_loop.simps [of "buf @ ys"] HEADER_LEN_def)
      moreover from whole False r have "dv_loop buf = (r, ?p # f)"
        by (simp add: dv_loop.simps [of buf] HEADER_LEN_def)
      ultimately show ?thesis using r' by simp
    qed
  qed
qed

text \<open>Where the loop has stopped: a rest on which it makes no further progress.\<close>

definition dv_stuck :: "bytes \<Rightarrow> bool" where
  "dv_stuck buf \<longleftrightarrow> dv_loop buf = (buf, [])"

lemma dv_loop_stuck: "dv_stuck (fst (dv_loop buf)) \<and> length (fst (dv_loop buf)) < MAX_PACKET_LEN"
proof (induction buf rule: dv_loop.induct)
  case (1 buf)
  consider "length buf < HEADER_LEN"
    | "\<not> length buf < HEADER_LEN" "dv_length buf < HEADER_LEN \<or> MAX_PACKET_LEN < dv_length buf"
    | "\<not> length buf < HEADER_LEN" "\<not> (dv_length buf < HEADER_LEN \<or> MAX_PACKET_LEN < dv_length buf)"
      "length buf < dv_length buf"
    | "\<not> length buf < HEADER_LEN" "\<not> (dv_length buf < HEADER_LEN \<or> MAX_PACKET_LEN < dv_length buf)"
      "\<not> length buf < dv_length buf"
    by blast
  then show ?case
  proof cases
    case 1
    then show ?thesis by (simp add: dv_loop.simps [of buf] dv_stuck_def dv_consts)
  next
    case 2
    with "1.IH"(1) show ?thesis by (simp add: dv_loop.simps [of buf])
  next
    case 3
    then show ?thesis by (simp add: dv_loop.simps [of buf] dv_stuck_def)
  next
    case 4
    with "1.IH"(2) show ?thesis by (auto simp: dv_loop.simps [of buf] split: prod.splits)
  qed
qed

lemma dv_loop_nil [simp]: "dv_loop [] = ([], [])"
  by (simp add: dv_loop.simps HEADER_LEN_def)

interpretation dvd: stream_decoder dv_feed dv_stuck
proof
  fix s xs ys
  show "dv_stuck s \<Longrightarrow> dv_feed s [] = (s, [])" by (simp add: dv_feed_def dv_stuck_def)
  show "dv_feed s (xs @ ys) = (let (s1, fs1) = dv_feed s xs; (s2, fs2) = dv_feed s1 ys in (s2, fs1 @ fs2))"
    using dv_loop_append [of "s @ xs" ys] by (simp add: dv_feed_def)
  show "dv_stuck (fst (dv_feed s xs))" using dv_loop_stuck by (simp add: dv_feed_def)
qed

text \<open>The packets the wire can carry.\<close>

definition dv_wf :: "dv_packet \<Rightarrow> bool" where
  "dv_wf p \<longleftrightarrow> 0 \<le> dvp_type p \<and> dvp_type p < 8 \<and> length (dvp_payload p) \<le> AUDIO_PAYLOAD_LEN"

definition dv_enc :: "dv_packet \<Rightarrow> bytes" where
  "dv_enc p = (case dv_raw p of Inl e \<Rightarrow> [] | Inr raw \<Rightarrow> raw)"

lemma dv_raw_ok: "length (dvp_payload p) \<le> AUDIO_PAYLOAD_LEN \<Longrightarrow> \<exists>raw. dv_raw p = Inr raw"
  by (simp add: dv_raw_def dv_build_packet_def dv_consts Let_def)

lemma dv_one_packet [roundtrip_intros]:
  assumes "dv_wf p"
  shows "dv_loop (dv_enc p) = ([], [p])"
proof -
  from assms have wf: "0 \<le> dvp_type p" "dvp_type p < 8" "length (dvp_payload p) \<le> 320"
    by (simp_all add: dv_wf_def dv_consts)
  then obtain raw where raw: "dv_raw p = Inr raw" using dv_raw_ok [of p] by (auto simp: dv_consts)
  from dv_build_packet_word [OF wf(1,2), of "dvp_payload p" raw "[]"] wf(3) raw
  have w: "length raw = length (dvp_payload p) + 2" "drop 2 raw = dvp_payload p"
    "dv_word raw = 8192 * dvp_type p + int (length (dvp_payload p)) + 2"
    by (auto simp: dv_raw_def)
  let ?n = "int (length (dvp_payload p)) + 2"
  have "dv_word raw = ?n + dvp_type p * 8192" using w by simp
  moreover have "0 \<le> ?n" "?n < 8192" using wf by simp_all
  ultimately have l: "dv_length raw = length (dvp_payload p) + 2" and t: "drop_bit 13 (dv_word raw) = dvp_type p"
    by (simp_all add: dv_length_def length_mask_mod drop_bit_eq_div)
  show ?thesis
    using raw w l t wf by (simp add: dv_enc_def dv_loop.simps [of raw] dv_consts)
qed

interpretation dvc: framed_codec dv_feed dv_stuck dv_enc dv_wf id "\<lambda>buf. buf = []"
  by unfold_locales (simp add: dv_feed_def dv_one_packet)

text \<open>Whatever chunks the serial reads return, a decoder that starts with an empty buffer reads a
  session of dongle packets (types 0 to 7, up to the 320 bytes of an audio payload) back exactly, in
  order.\<close>

theorem dv_session_roundtrip:
  assumes "list_all dv_wf ps" and "concat chunks = concat (map dv_enc ps)"
  shows "snd (feed_all dv_feed [] chunks) = ps"
  using dvc.session_roundtrip [of "[]" ps chunks] assms by (simp add: dv_stuck_def)

theorem dv_session_roundtrip_witness:
  "snd (feed_all dv_feed [] [[0x05], [0x00, 0x18, 0x00], [], [0x01, 0x02, 0x00]])
     = [\<lparr>dvp_type = 0, dvp_payload = [0x18, 0x00, 0x01]\<rparr>, \<lparr>dvp_type = 0, dvp_payload = []\<rparr>]"
  by (rule dv_session_roundtrip) (code_simp, code_simp)

text \<open>Chunking, memory and junk.\<close>

lemma dv_chunking_irrelevant:
  "concat cs = concat ds \<Longrightarrow> feed_all dv_feed [] cs = feed_all dv_feed [] ds"
  by (rule dvd.chunking_irrelevant) (simp_all add: dv_stuck_def)

lemma dv_buffer_bounded: "length (fst (feed_all dv_feed [] cs)) < MAX_PACKET_LEN"
proof -
  have "feed_all dv_feed [] cs = dv_feed [] (concat cs)"
    by (rule dvd.feed_all_concat) (simp add: dv_stuck_def)
  then show ?thesis using dv_loop_stuck [of "concat cs"] by (simp add: dv_feed_def)
qed

lemma dv_loop_wf: "list_all dv_wf (snd (dv_loop buf))"
proof (induction buf rule: dv_loop.induct)
  case (1 buf)
  have "0 \<le> dv_word buf \<and> dv_word buf < 65536" unfolding dv_word_add
    using uint_byte_bounds [of "buf ! 0"] uint_byte_bounds [of "buf ! 1"] by linarith
  then have t: "0 \<le> drop_bit 13 (dv_word buf) \<and> drop_bit 13 (dv_word buf) < 8"
    by (simp add: drop_bit_eq_div) linarith
  then have "dv_wf \<lparr>dvp_type = drop_bit 13 (dv_word buf),
      dvp_payload = drop HEADER_LEN (take (dv_length buf) buf)\<rparr>"
    if "\<not> MAX_PACKET_LEN < dv_length buf"
    using that by (simp add: dv_wf_def dv_consts)
  with 1 show ?case
    by (subst dv_loop.simps) (auto split: prod.splits)
qed

text \<open>Every packet the deframer reports, on any bytes at all, is well formed; its classification
  never raises, and re-encoding it gives a packet that reads back as itself.\<close>

theorem dv_decoded_packets_ok:
  "list_all (\<lambda>p. dv_wf p \<and> (\<exists>k. dv_classify p = Inr k) \<and> dv_loop (dv_enc p) = ([], [p]))
     (snd (feed_all dv_feed [] cs))"
proof -
  have "feed_all dv_feed [] cs = dv_feed [] (concat cs)"
    by (rule dvd.feed_all_concat) (simp add: dv_stuck_def)
  with dv_loop_wf [of "concat cs"] have "list_all dv_wf (snd (feed_all dv_feed [] cs))"
    by (simp add: dv_feed_def)
  moreover have "\<exists>k. dv_classify p = Inr k" if "dv_wf p" for p
    using that dv_raw_ok [of p] by (auto simp: dv_classify_def dv_wf_def)
  ultimately show ?thesis
    by (auto simp: list_all_iff dv_one_packet)
qed

subsection \<open>What the host builds\<close>

lemma AMBE_DEC_PARAMS_length [simp]: "length AMBE_DEC_PARAMS = 48" "length AMBE_ENC_PARAMS = 48"
  by (simp_all add: AMBE_DEC_PARAMS_def AMBE_ENC_PARAMS_def AMBE_PARAMS_COMMON_def dv_consts)

lemma build_decode_ambe_packet_voice:
  assumes "length vf = AMBE_VOICE_LEN"
  shows "\<exists>raw p. build_decode_ambe_packet vf = Inr raw \<and> dv_loop raw = ([], [p]) \<and>
    dv_classify p = Inr DvAmbe \<and> ambe_voice_frame p = vf"
proof -
  let ?pl = "take AMBE_VOICE_OFFSET AMBE_DEC_PARAMS @ vf @
             drop (AMBE_VOICE_OFFSET + AMBE_VOICE_LEN) AMBE_DEC_PARAMS"
  let ?p = "\<lparr>dvp_type = TYPE_AMBE, dvp_payload = ?pl\<rparr>"
  from assms have l: "length ?pl = 48" by (simp add: dv_consts)
  then have "dv_wf ?p" by (simp add: dv_wf_def dv_consts)
  moreover obtain raw where raw: "dv_raw ?p = Inr raw" using dv_raw_ok [of ?p] l by (auto simp: dv_consts)
  ultimately have "dv_loop raw = ([], [?p])" using dv_one_packet [of ?p] by (simp add: dv_enc_def)
  moreover have "build_decode_ambe_packet vf = Inr raw"
    using assms l raw by (simp add: build_decode_ambe_packet_def build_ambe_packet_def dv_raw_def AMBE_PAYLOAD_LEN_def)
  moreover have "dv_classify ?p = Inr DvAmbe" using l by (simp add: dv_classify_def AMBE_PAYLOAD_LEN_def)
  moreover have "ambe_voice_frame ?p = vf" using assms by (simp add: ambe_voice_frame_def dv_consts)
  ultimately show ?thesis by blast
qed

end
