(* ===== verification/DStarFrames.thy ===== *)
theory DStarFrames
  imports Prelude
begin

section \<open>The D-STAR radio header and the DSRP packets\<close>

text \<open>
  \<open>radio_server/dstar/header.py\<close> (callsign fields, CRC-16/X-25, the 41-byte radio header) and
  \<open>radio_server/dstar/dsrp.py\<close> (the packets between a repeater and its gateway). A Python \<open>str\<close> is a
  list of code points here, since \<open>decode("ascii", "replace")\<close> puts U+FFFD for a byte above 127 and
  \<open>encode\<close> puts a question mark; \<open>str.upper\<close> is modelled on ASCII and leaves other code points alone.
  The CRC register is a 16-bit word: the source's value never leaves that range.
\<close>

type_synonym pystr = "nat list"

definition encode_replace :: "pystr \<Rightarrow> bytes" where
  "encode_replace s = map (\<lambda>c. if c < 128 then of_nat c else 0x3F) s"

definition decode_replace :: "bytes \<Rightarrow> pystr" where
  "decode_replace bs = map (\<lambda>b. if unat b < 128 then unat b else 0xFFFD) bs"

definition upper :: "pystr \<Rightarrow> pystr" where
  "upper s = map (\<lambda>c. if 97 \<le> c \<and> c \<le> 122 then c - 32 else c) s"

definition ljust :: "nat \<Rightarrow> bytes \<Rightarrow> bytes" where
  "ljust n bs = bs @ replicate (n - length bs) 0x20"

definition rjust :: "nat \<Rightarrow> bytes \<Rightarrow> bytes" where
  "rjust n bs = replicate (n - length bs) 0x20 @ bs"

text \<open>A slice assignment \<open>buf[off : off + len(bs)] = bs\<close> inside the buffer.\<close>

definition set_slice :: "nat \<Rightarrow> bytes \<Rightarrow> bytes \<Rightarrow> bytes" where
  "set_slice off bs buf = take off buf @ bs @ drop (off + length bs) buf"

definition RADIO_HEADER_LEN :: nat where "RADIO_HEADER_LEN = 41"
definition LONG_CALLSIGN_LEN :: nat where "LONG_CALLSIGN_LEN = 8"
definition SHORT_CALLSIGN_LEN :: nat where "SHORT_CALLSIGN_LEN = 4"
definition OFF_RPT2 :: nat where "OFF_RPT2 = 3"
definition OFF_RPT1 :: nat where "OFF_RPT1 = 11"
definition OFF_UR :: nat where "OFF_UR = 19"
definition OFF_MY1 :: nat where "OFF_MY1 = 27"
definition OFF_MY2 :: nat where "OFF_MY2 = 35"
definition OFF_CRC :: nat where "OFF_CRC = 39"
definition CHECKSUM_BYPASS :: bytes where "CHECKSUM_BYPASS = [0xFF, 0xFF]"

lemmas hdr_consts = RADIO_HEADER_LEN_def LONG_CALLSIGN_LEN_def SHORT_CALLSIGN_LEN_def OFF_RPT2_def
  OFF_RPT1_def OFF_UR_def OFF_MY1_def OFF_MY2_def OFF_CRC_def

subsection \<open>The checksum\<close>

definition x25_shift :: "16 word \<Rightarrow> 16 word" where
  "x25_shift crc = (if crc AND 1 \<noteq> 0 then drop_bit 1 crc XOR 0x8408 else drop_bit 1 crc)"

definition x25_entry :: "nat \<Rightarrow> 16 word" where
  "x25_entry i = (x25_shift ^^ 8) (of_nat i)"

definition CRC_TABLE :: "16 word list" where
  "CRC_TABLE = map x25_entry [0..<256]"

definition x25_update :: "16 word \<Rightarrow> byte \<Rightarrow> 16 word" where
  "x25_update crc b = drop_bit 8 crc XOR CRC_TABLE ! unat ((crc XOR ucast b) AND 0xFF)"

definition crc16_x25 :: "bytes \<Rightarrow> 16 word" where
  "crc16_x25 bs = NOT (foldl x25_update 0xFFFF bs)"

definition checksum_bytes :: "bytes \<Rightarrow> bytes" where
  "checksum_bytes body =
     (let crc = crc16_x25 body in [ucast (crc AND 0xFF), ucast (drop_bit 8 crc AND 0xFF)])"

subsection \<open>Callsign fields\<close>

definition format_callsign :: "pystr \<Rightarrow> pystr \<Rightarrow> exn + bytes" where
  "format_callsign callsign mdl =
     (let call = take LONG_CALLSIGN_LEN (upper callsign);
          field = set_slice 0 (encode_replace call) (replicate LONG_CALLSIGN_LEN 0x20)
      in if mdl = [] then Inr field
         else let m = hd (upper mdl)
              in if 256 \<le> m then Inl ValueError
                 else let field = field[LONG_CALLSIGN_LEN - 1 := of_nat m]
                      in Inr (if LONG_CALLSIGN_LEN \<le> length call
                              then set_slice 0 (encode_replace (take (LONG_CALLSIGN_LEN - 1) call)) field
                              else field))"

definition pad :: "pystr \<Rightarrow> nat \<Rightarrow> bytes" where
  "pad txt n = ljust n (take n (encode_replace txt))"

definition format_urcall :: "pystr \<Rightarrow> bytes" where
  "format_urcall ur =
     (let txt = take LONG_CALLSIGN_LEN (encode_replace (upper ur))
      in if length txt = 1 then rjust LONG_CALLSIGN_LEN txt else ljust LONG_CALLSIGN_LEN txt)"

subsection \<open>Build and parse\<close>

record radio_header =
  rh_rpt1 :: pystr
  rh_rpt2 :: pystr
  rh_ur :: pystr
  rh_my1 :: pystr
  rh_my2 :: pystr
  rh_flags :: "int \<times> int \<times> int"
  rh_checksum_ok :: bool

definition build_header :: "bytes \<Rightarrow> bytes \<Rightarrow> bytes \<Rightarrow> bytes \<Rightarrow> bytes \<Rightarrow> int \<times> int \<times> int \<Rightarrow> bytes" where
  "build_header rpt1 rpt2 ur my1 my2 flags =
     (let body = replicate (RADIO_HEADER_LEN - 2) 0;
          body = body[0 := word_of_int (fst flags AND 0xFF)];
          body = body[1 := word_of_int (fst (snd flags) AND 0xFF)];
          body = body[2 := word_of_int (snd (snd flags) AND 0xFF)];
          body = set_slice OFF_RPT1 (ljust LONG_CALLSIGN_LEN (take LONG_CALLSIGN_LEN rpt1)) body;
          body = set_slice OFF_RPT2 (ljust LONG_CALLSIGN_LEN (take LONG_CALLSIGN_LEN rpt2)) body;
          body = set_slice OFF_UR (ljust LONG_CALLSIGN_LEN (take LONG_CALLSIGN_LEN ur)) body;
          body = set_slice OFF_MY1 (ljust LONG_CALLSIGN_LEN (take LONG_CALLSIGN_LEN my1)) body;
          body = set_slice OFF_MY2 (ljust SHORT_CALLSIGN_LEN (take SHORT_CALLSIGN_LEN my2)) body
      in body @ checksum_bytes body)"

definition build_voice_header :: "pystr \<Rightarrow> pystr \<Rightarrow> pystr \<Rightarrow> pystr \<Rightarrow> pystr \<Rightarrow> exn + bytes" where
  "build_voice_header callsign mdl ur my2 gateway_module =
     (case format_callsign callsign mdl of Inl e \<Rightarrow> Inl e | Inr rpt1 \<Rightarrow>
      (case format_callsign callsign gateway_module of Inl e \<Rightarrow> Inl e | Inr rpt2 \<Rightarrow>
       (case format_callsign callsign [] of Inl e \<Rightarrow> Inl e | Inr my1 \<Rightarrow>
          Inr (build_header rpt1 rpt2 (format_urcall ur) my1 (pad my2 SHORT_CALLSIGN_LEN) (0, 0, 0)))))"

definition parse_header :: "bytes \<Rightarrow> exn + radio_header" where
  "parse_header d =
     (if length d < RADIO_HEADER_LEN - 2 then Inl ValueError
      else let field = (\<lambda>off n. decode_replace (take n (drop off d)));
               checksum_ok =
                 (if RADIO_HEADER_LEN \<le> length d
                  then let on_wire = take 2 (drop OFF_CRC d)
                       in on_wire = CHECKSUM_BYPASS \<or> on_wire = checksum_bytes (take (RADIO_HEADER_LEN - 2) d)
                  else True)
           in Inr \<lparr>rh_rpt1 = field OFF_RPT1 LONG_CALLSIGN_LEN, rh_rpt2 = field OFF_RPT2 LONG_CALLSIGN_LEN,
                   rh_ur = field OFF_UR LONG_CALLSIGN_LEN, rh_my1 = field OFF_MY1 LONG_CALLSIGN_LEN,
                   rh_my2 = field OFF_MY2 SHORT_CALLSIGN_LEN,
                   rh_flags = (uint (d ! 0), uint (d ! 1), uint (d ! 2)),
                   rh_checksum_ok = checksum_ok\<rparr>)"

subsection \<open>DSRP packets\<close>

definition DSRP_MAGIC :: bytes where "DSRP_MAGIC = [0x44, 0x53, 0x52, 0x50]"
definition TYPE_POLL :: byte where "TYPE_POLL = 0x0A"
definition TYPE_HEADER :: byte where "TYPE_HEADER = 0x20"
definition TYPE_DATA :: byte where "TYPE_DATA = 0x21"
definition TYPE_REGISTER :: byte where "TYPE_REGISTER = 0x0B"
definition TYPE_TEXT :: byte where "TYPE_TEXT = 0x00"
definition TYPE_TEMPTEXT :: byte where "TYPE_TEMPTEXT = 0x01"
definition TYPE_STATUS :: byte where "TYPE_STATUS = 0x04"
definition END_BIT :: int where "END_BIT = 0x40"
definition SEQ_MAX :: int where "SEQ_MAX = 0x14"
definition VOICE_FRAME_LEN :: nat where "VOICE_FRAME_LEN = 9"
definition SLOW_DATA_LEN :: nat where "SLOW_DATA_LEN = 3"
definition DV_FRAME_LEN :: nat where "DV_FRAME_LEN = VOICE_FRAME_LEN + SLOW_DATA_LEN"
definition DATA_SYNC :: bytes where "DATA_SYNC = [0x55, 0x2D, 0x16]"
definition SLOW_DATA_FILLER :: bytes where "SLOW_DATA_FILLER = replicate SLOW_DATA_LEN 0"
definition NULL_AMBE :: bytes where
  "NULL_AMBE = [0x9E, 0x8D, 0x32, 0x88, 0x26, 0x1A, 0x3F, 0x61, 0xE8]"

definition build_poll :: "pystr \<Rightarrow> bytes" where
  "build_poll txt = DSRP_MAGIC @ [TYPE_POLL] @ encode_replace txt @ [0x00]"

definition build_header_packet :: "bytes \<Rightarrow> int \<Rightarrow> exn + bytes" where
  "build_header_packet rh session_id =
     (if length rh \<noteq> RADIO_HEADER_LEN then Inl ValueError
      else let sid = session_id AND 0xFFFF
           in Inr (DSRP_MAGIC @ [TYPE_HEADER, word_of_int (drop_bit 8 sid), word_of_int (sid AND 0xFF), 0x00] @ rh))"

definition build_dv_frame :: "bytes \<Rightarrow> bytes \<Rightarrow> exn + bytes" where
  "build_dv_frame ambe slow =
     (if length ambe \<noteq> VOICE_FRAME_LEN then Inl ValueError
      else if length slow \<noteq> SLOW_DATA_LEN then Inl ValueError
      else Inr (ambe @ slow))"

definition build_data_packet :: "bytes \<Rightarrow> int \<Rightarrow> int \<Rightarrow> bool \<Rightarrow> int \<Rightarrow> exn + bytes" where
  "build_data_packet dv session_id seq_no end_flag errors =
     (if length dv \<noteq> DV_FRAME_LEN then Inl ValueError
      else let sid = session_id AND 0xFFFF;
               seqb = (seq_no AND 0x3F) OR (if end_flag then END_BIT else 0)
           in Inr (DSRP_MAGIC @ [TYPE_DATA, word_of_int (drop_bit 8 sid), word_of_int (sid AND 0xFF),
                     word_of_int seqb, word_of_int (errors AND 0xFF)] @ dv))"

definition slow_data_for_seq :: "int \<Rightarrow> bytes" where
  "slow_data_for_seq seq_no = (if seq_no = 0 then DATA_SYNC else SLOW_DATA_FILLER)"

definition next_seq :: "int \<Rightarrow> int" where
  "next_seq seq_no = (if SEQ_MAX \<le> seq_no then 0 else seq_no + 1)"

datatype message_kind = MkHeader | MkData | MkText | MkStatus | MkRegister | MkPoll | MkUnknown

record dsrp_message =
  dm_kind :: message_kind
  dm_session_id :: int
  dm_radio_header :: bytes
  dm_seq_no :: int
  dm_end :: bool
  dm_dv_frame :: bytes
  dm_errors :: int
  dm_text :: pystr

definition dsrp_message_of :: "message_kind \<Rightarrow> dsrp_message" where
  "dsrp_message_of k = \<lparr>dm_kind = k, dm_session_id = 0, dm_radio_header = [], dm_seq_no = 0,
     dm_end = False, dm_dv_frame = [], dm_errors = 0, dm_text = []\<rparr>"

definition voice_frame :: "bytes \<Rightarrow> bytes" where
  "voice_frame dv = take VOICE_FRAME_LEN dv"

definition dsrp_text :: "bytes \<Rightarrow> pystr" where
  "dsrp_text packet = decode_replace (takeWhile (\<lambda>b. b \<noteq> 0) (drop 5 packet))"

definition dsrp_parse :: "bytes \<Rightarrow> dsrp_message" where
  "dsrp_parse packet =
     (if length packet < 5 \<or> take 4 packet \<noteq> DSRP_MAGIC then dsrp_message_of MkUnknown
      else let ptype = packet ! 4; n = length packet in
        if ptype = TYPE_HEADER \<and> 8 + RADIO_HEADER_LEN \<le> n then
          (dsrp_message_of MkHeader)
            \<lparr>dm_session_id := push_bit 8 (uint (packet ! 5)) OR uint (packet ! 6),
             dm_radio_header := take RADIO_HEADER_LEN (drop 8 packet)\<rparr>
        else if ptype = TYPE_DATA \<and> 9 + DV_FRAME_LEN \<le> n then
          (let seqb = uint (packet ! 7) in
           (dsrp_message_of MkData)
            \<lparr>dm_session_id := push_bit 8 (uint (packet ! 5)) OR uint (packet ! 6),
             dm_seq_no := seqb AND 0x3F,
             dm_end := (seqb AND END_BIT \<noteq> 0),
             dm_errors := uint (packet ! 8),
             dm_dv_frame := take DV_FRAME_LEN (drop 9 packet)\<rparr>)
        else if ptype = TYPE_TEXT \<or> ptype = TYPE_TEMPTEXT then
          (dsrp_message_of MkText)\<lparr>dm_text := dsrp_text packet\<rparr>
        else if ptype = TYPE_STATUS then (dsrp_message_of MkStatus)\<lparr>dm_text := dsrp_text packet\<rparr>
        else if ptype = TYPE_REGISTER then (dsrp_message_of MkRegister)\<lparr>dm_text := dsrp_text packet\<rparr>
        else if ptype = TYPE_POLL then (dsrp_message_of MkPoll)\<lparr>dm_text := dsrp_text packet\<rparr>
        else dsrp_message_of MkUnknown)"

subsection \<open>The table-driven checksum is the bitwise one\<close>

lemma x25_shift_alt: "x25_shift c = drop_bit 1 c XOR (if bit c 0 then 0x8408 else 0)"
  by (simp add: x25_shift_def bit_0 and_one_eq odd_iff_mod_2_eq_one)

lemma x25_shift_xor: "x25_shift (a XOR b) = x25_shift a XOR x25_shift b"
  by (rule bit_word_eqI) (auto simp: x25_shift_alt bit_simps)

lemma x25_shifts_xor: "(x25_shift ^^ n) (a XOR b) = (x25_shift ^^ n) a XOR (x25_shift ^^ n) b"
  by (induction n) (simp_all add: x25_shift_xor)

lemma x25_shifts_high:
  "n \<le> k \<Longrightarrow> (\<forall>i < k. \<not> bit w i) \<Longrightarrow> (x25_shift ^^ n) w = drop_bit n w"
  by (induction n) (auto simp: x25_shift_alt bit_simps drop_bit_drop_bit)

lemma x25_update_bitwise [code]: "x25_update crc b = (x25_shift ^^ 8) (crc XOR ucast b)"
proof -
  let ?w = "crc XOR ucast b"
  let ?lo = "?w AND 0xFF" and ?hi = "push_bit 8 (drop_bit 8 crc)"
  have w: "?w = ?lo XOR ?hi"
  proof (rule bit_word_eqI)
    fix n assume "n < LENGTH(16)"
    have m: "bit (0xFF :: 16 word) n \<longleftrightarrow> n < 8" 
      using bit_mask_iff [where 'a = "16 word", of 8 n] \<open>n < LENGTH(16)\<close>
      by (simp add: mask_eq_exp_minus_1)
    have "bit (ucast b :: 16 word) n \<Longrightarrow> n < 8"
      by (auto simp: bit_ucast_iff dest: bit_imp_le_length)
    with m \<open>n < LENGTH(16)\<close> show "bit ?w n = bit (?lo XOR ?hi) n"
      by (auto simp: bit_and_iff bit_xor_iff bit_push_bit_iff bit_drop_bit_eq)
  qed
  have small: "unat ?lo < 256"
    using word_and_le1 [of ?w "0xFF"] by (simp add: word_le_nat_alt)
  then have "CRC_TABLE ! unat ?lo = (x25_shift ^^ 8) ?lo"
    by (simp add: CRC_TABLE_def x25_entry_def)
  moreover have "(x25_shift ^^ 8) ?hi = drop_bit 8 crc"
  proof -
    have "(x25_shift ^^ 8) ?hi = drop_bit 8 ?hi"
      by (rule x25_shifts_high [of 8 8]) (simp_all add: bit_push_bit_iff)
    also have "\<dots> = drop_bit 8 crc"
      by (rule bit_word_eqI) (auto simp: bit_simps dest: bit_imp_le_length)
    finally show ?thesis .
  qed
  ultimately show ?thesis
    unfolding x25_update_def by (subst w) (simp add: x25_shifts_xor xor.commute)
qed

lemma x25_shift_eq_0: "x25_shift c = 0 \<Longrightarrow> c = 0"
proof (rule bit_word_eqI)
  fix n assume z: "x25_shift c = 0" and n: "n < LENGTH(16)"
  have "\<not> bit c 0"
  proof
    assume "bit c 0"
    with z have "drop_bit 1 c XOR 0x8408 = 0" by (simp only: x25_shift_alt if_True)
    then have "bit (drop_bit 1 c XOR 0x8408) 15 = bit (0 :: 16 word) 15" by (rule arg_cong)
    moreover have "bit (drop_bit 1 c) 15 = bit c 16" by (simp add: bit_drop_bit_eq)
    moreover have "\<not> bit c 16" by (rule impossible_bit) simp
    moreover have "bit (0x8408 :: 16 word) 15" by code_simp
    ultimately show False by (simp only: bit_xor_iff bit_0_eq bot_apply bot_bool_def simp_thms)
  qed
  with z have "drop_bit 1 c = 0" by (simp only: x25_shift_alt if_False simp_thms xor.right_neutral)
  moreover have "bit c (Suc m) = bit (drop_bit 1 c) m" for m by (simp add: bit_drop_bit_eq)
  ultimately have "\<not> bit c (Suc m)" for m by simp
  with \<open>\<not> bit c 0\<close> show "bit c n = bit 0 n" by (cases n) simp_all
qed

lemma word_xor_eq_0: "a XOR b = (0 :: 16 word) \<Longrightarrow> a = b"
proof -
  assume z: "a XOR b = 0"
  have "a = (a XOR b) XOR b" by (rule bit_word_eqI) (auto simp: bit_xor_iff)
  with z show "a = b" by simp
qed

lemma word_xor_cancel: "a XOR c = b XOR (c :: 16 word) \<Longrightarrow> a = b"
proof -
  assume "a XOR c = b XOR c"
  then have "(a XOR c) XOR c = (b XOR c) XOR c" by simp
  then show "a = b" by (simp add: xor.assoc)
qed

lemma x25_shift_inj: "x25_shift a = x25_shift b \<Longrightarrow> a = b"
  by (rule word_xor_eq_0, rule x25_shift_eq_0) (simp add: x25_shift_xor)

lemma x25_shifts_inj: "(x25_shift ^^ n) a = (x25_shift ^^ n) b \<Longrightarrow> a = b"
  by (induction n) (auto dest: x25_shift_inj)

lemma x25_update_inj_state: "x25_update a b = x25_update a' b \<Longrightarrow> a = a'"
  unfolding x25_update_bitwise by (drule x25_shifts_inj) (rule word_xor_cancel)

lemma ucast_byte_inj: "(ucast b :: 16 word) = ucast b' \<Longrightarrow> b = (b' :: byte)"
proof (rule bit_word_eqI)
  fix n assume eq: "(ucast b :: 16 word) = ucast b'" and n: "n < LENGTH(8)"
  from eq have "bit (ucast b :: 16 word) n = bit (ucast b' :: 16 word) n" by simp
  with n show "bit b n = bit b' n" by (simp add: bit_ucast_iff)
qed

lemma x25_update_inj_byte: "x25_update a b = x25_update a b' \<Longrightarrow> b = b'"
proof -
  assume "x25_update a b = x25_update a b'"
  then have "a XOR ucast b = a XOR ucast b'" unfolding x25_update_bitwise by (rule x25_shifts_inj)
  then have "ucast b XOR a = ucast b' XOR a" by (simp only: xor.commute)
  then have "(ucast b :: 16 word) = ucast b'" by (rule word_xor_cancel)
  then show "b = b'" by (rule ucast_byte_inj)
qed

lemma x25_foldl_inj: "foldl x25_update a bs = foldl x25_update a' bs \<Longrightarrow> a = a'"
  by (induction bs arbitrary: a a') (auto dest: x25_update_inj_state)

lemma crc16_x25_one_byte:
  assumes "i < length bs" "crc16_x25 (bs[i := b]) = crc16_x25 bs"
  shows "b = bs ! i"
proof -
  have "foldl x25_update 0xFFFF (bs[i := b]) = foldl x25_update 0xFFFF bs"
    using assms(2) by (simp add: crc16_x25_def)
  then have "foldl x25_update 0xFFFF (take i bs @ b # drop (Suc i) bs) =
      foldl x25_update 0xFFFF (take i bs @ bs ! i # drop (Suc i) bs)"
    by (simp only: upd_conv_take_nth_drop [OF assms(1)] id_take_nth_drop [OF assms(1), symmetric])
  then have "x25_update (foldl x25_update 0xFFFF (take i bs)) b =
      x25_update (foldl x25_update 0xFFFF (take i bs)) (bs ! i)"
    unfolding foldl_append foldl_Cons by (rule x25_foldl_inj)
  then show ?thesis by (rule x25_update_inj_byte)
qed

lemma checksum_bytes_inj: "checksum_bytes xs = checksum_bytes ys \<Longrightarrow> crc16_x25 xs = crc16_x25 ys"
proof (rule bit_word_eqI)
  let ?x = "crc16_x25 xs" and ?y = "crc16_x25 ys"
  fix n assume eq: "checksum_bytes xs = checksum_bytes ys" and n: "n < LENGTH(16)"
  have m: "bit (0xFF :: 16 word) k \<longleftrightarrow> k < 8" if "k < 16" for k
    using bit_mask_iff [where 'a = "16 word", of 8 k] that by (simp add: mask_eq_exp_minus_1)
  from eq have lo: "ucast (?x AND 0xFF) = (ucast (?y AND 0xFF) :: byte)"
    and hi: "ucast (drop_bit 8 ?x AND 0xFF) = (ucast (drop_bit 8 ?y AND 0xFF) :: byte)"
    by (simp_all add: checksum_bytes_def Let_def)
  show "bit ?x n = bit ?y n"
  proof (cases "n < 8")
    case True
    from lo have "bit (ucast (?x AND 0xFF) :: byte) n = bit (ucast (?y AND 0xFF) :: byte) n" by simp
    with True n m show ?thesis by (simp add: bit_ucast_iff bit_and_iff)
  next
    case False
    from hi have "bit (ucast (drop_bit 8 ?x AND 0xFF) :: byte) (n - 8) =
      bit (ucast (drop_bit 8 ?y AND 0xFF) :: byte) (n - 8)" by simp
    moreover from False n have "n - 8 < 8" "8 + (n - 8) = n" by auto
    ultimately show ?thesis using n m by (simp add: bit_ucast_iff bit_and_iff bit_drop_bit_eq)
  qed
qed

lemma checksum_bytes_length [simp]: "length (checksum_bytes bs) = 2"
  by (simp add: checksum_bytes_def Let_def)

subsection \<open>Headers\<close>

lemma ljust_length [simp]: "length (ljust n bs) = max n (length bs)"
  by (simp add: ljust_def)

lemma ljust_take_length [simp]: "length (ljust n (take n bs)) = n"
  by simp

definition flag_bytes :: "int \<times> int \<times> int \<Rightarrow> bytes" where
  "flag_bytes f = [word_of_int (fst f AND 0xFF), word_of_int (fst (snd f) AND 0xFF),
     word_of_int (snd (snd f) AND 0xFF)]"

definition header_body :: "bytes \<Rightarrow> bytes \<Rightarrow> bytes \<Rightarrow> bytes \<Rightarrow> bytes \<Rightarrow> int \<times> int \<times> int \<Rightarrow> bytes" where
  "header_body rpt1 rpt2 ur my1 my2 flags =
     flag_bytes flags @ ljust 8 (take 8 rpt2) @ ljust 8 (take 8 rpt1) @ ljust 8 (take 8 ur) @
     ljust 8 (take 8 my1) @ ljust 4 (take 4 my2)"

lemma header_body_length [simp]: "length (header_body rpt1 rpt2 ur my1 my2 flags) = 39"
  by (simp add: header_body_def flag_bytes_def del: ljust_length)

lemma build_header_layout:
  "build_header rpt1 rpt2 ur my1 my2 flags =
     header_body rpt1 rpt2 ur my1 my2 flags @ checksum_bytes (header_body rpt1 rpt2 ur my1 my2 flags)"
proof -
  let ?f = "flag_bytes flags"
  have r: "replicate 39 (0 :: byte) = replicate 3 0 @ replicate 8 0 @ replicate 8 0 @ replicate 8 0 @ replicate 8 0 @ replicate 4 0"
    by (simp add: replicate_add [symmetric])
  have a: "set_slice off new (pre @ old @ post) = pre @ new @ post"
    if "length pre = off" "length old = length new" for off new pre old post
    using that by (simp add: set_slice_def)
  have f: "list_update (list_update (list_update (replicate 39 (0 :: byte)) 0 a) 1 b) 2 c = [a, b, c] @ replicate 36 0" for a b c
    by (simp add: numeral_eq_Suc)
  have r': "replicate 36 (0 :: byte) = replicate 8 0 @ replicate 8 0 @ replicate 8 0 @ replicate 8 0 @ replicate 4 0"
    by (simp add: replicate_add [symmetric])
  define A where "A = ljust 8 (take 8 rpt1)"
  define B where "B = ljust 8 (take 8 rpt2)"
  define C where "C = ljust 8 (take 8 ur)"
  define D where "D = ljust 8 (take 8 my1)"
  define E where "E = ljust 4 (take 4 my2)"
  have l: "length A = 8" "length B = 8" "length C = 8" "length D = 8" "length E = 4" "length ?f = 3"
    by (simp_all add: A_def B_def C_def D_def E_def flag_bytes_def del: ljust_length)
  let ?z8 = "replicate 8 (0 :: byte)" and ?z4 = "replicate 4 (0 :: byte)"
  have 1: "set_slice 11 A (?f @ ?z8 @ ?z8 @ ?z8 @ ?z8 @ ?z4) = ?f @ ?z8 @ A @ ?z8 @ ?z8 @ ?z4"
    using a [of "?f @ ?z8" 11 ?z8 A "?z8 @ ?z8 @ ?z4"] l by simp
  have 2: "set_slice 3 B (?f @ ?z8 @ A @ ?z8 @ ?z8 @ ?z4) = ?f @ B @ A @ ?z8 @ ?z8 @ ?z4"
    using a [of "?f" 3 ?z8 B] l by simp
  have 3: "set_slice 19 C (?f @ B @ A @ ?z8 @ ?z8 @ ?z4) = ?f @ B @ A @ C @ ?z8 @ ?z4"
    using a [of "?f @ B @ A" 19 ?z8 C "?z8 @ ?z4"] l by simp
  have 4: "set_slice 27 D (?f @ B @ A @ C @ ?z8 @ ?z4) = ?f @ B @ A @ C @ D @ ?z4"
    using a [of "?f @ B @ A @ C" 27 ?z8 D "?z4"] l by simp
  have 5: "set_slice 35 E (?f @ B @ A @ C @ D @ ?z4) = ?f @ B @ A @ C @ D @ E"
    using a [of "?f @ B @ A @ C @ D" 35 ?z4 E "[]"] l by simp
  have 0: "list_update (list_update (list_update (replicate (41 - 2) (0 :: byte))
        0 (word_of_int (fst flags AND 0xFF)))
        1 (word_of_int (fst (snd flags) AND 0xFF))) 2 (word_of_int (snd (snd flags) AND 0xFF)) =
      ?f @ ?z8 @ ?z8 @ ?z8 @ ?z8 @ ?z4"
    using f r' by (simp add: flag_bytes_def)
  show ?thesis
    unfolding build_header_def Let_def hdr_consts 0 A_def [symmetric] B_def [symmetric]
      C_def [symmetric] D_def [symmetric] E_def [symmetric] 1 2 3 4 5
    by (simp add: header_body_def A_def B_def C_def D_def E_def)
qed

lemma build_header_length [simp]: "length (build_header rpt1 rpt2 ur my1 my2 flags) = 41"
  by (simp add: build_header_layout)

lemma and_ff_mod: "x AND 0xFF = x mod (256 :: int)"
  using take_bit_eq_mask [of 8 x] by (simp add: mask_eq_exp_minus_1 take_bit_eq_mod)

lemma uint_and_ff: "uint (word_of_int (x AND 0xFF) :: byte) = x mod 256"
  by (simp only: and_ff_mod byte_of_int_mod uint_byte_mod)

text \<open>Parsing a header the server built gives the route back: every callsign field as it was given,
  cut or padded to its width, each flag modulo 256, and a valid checksum.\<close>

theorem dstar_header_roundtrip:
  "parse_header (build_header rpt1 rpt2 ur my1 my2 flags) =
     Inr \<lparr>rh_rpt1 = decode_replace (ljust 8 (take 8 rpt1)), rh_rpt2 = decode_replace (ljust 8 (take 8 rpt2)),
          rh_ur = decode_replace (ljust 8 (take 8 ur)), rh_my1 = decode_replace (ljust 8 (take 8 my1)),
          rh_my2 = decode_replace (ljust 4 (take 4 my2)),
          rh_flags = (fst flags mod 256, fst (snd flags) mod 256, snd (snd flags) mod 256),
          rh_checksum_ok = True\<rparr>"
proof -
  define A where "A = ljust 8 (take 8 rpt1)"
  define B where "B = ljust 8 (take 8 rpt2)"
  define C where "C = ljust 8 (take 8 ur)"
  define D where "D = ljust 8 (take 8 my1)"
  define E where "E = ljust 4 (take 4 my2)"
  let ?F = "flag_bytes flags"
  let ?b = "?F @ B @ A @ C @ D @ E"
  have l: "length A = 8" "length B = 8" "length C = 8" "length D = 8" "length E = 4" "length ?F = 3"
    by (simp_all add: A_def B_def C_def D_def E_def flag_bytes_def del: ljust_length)
  have h: "build_header rpt1 rpt2 ur my1 my2 flags = ?b @ checksum_bytes ?b"
    by (simp add: build_header_layout header_body_def A_def B_def C_def D_def E_def)
  have "uint (?F ! 0) = fst flags mod 256" "uint (?F ! 1) = fst (snd flags) mod 256"
    "uint (?F ! 2) = snd (snd flags) mod 256"
    by (simp_all add: flag_bytes_def uint_and_ff)
  then show ?thesis
    unfolding h A_def [symmetric] B_def [symmetric] C_def [symmetric] D_def [symmetric] E_def [symmetric]
    using l by (simp add: parse_header_def hdr_consts Let_def nth_append)
qed

lemma parse_header_checksum:
  assumes "length h = 41"
  shows "\<exists>r. parse_header h = Inr r \<and> (rh_checksum_ok r \<longleftrightarrow>
    drop 39 h = CHECKSUM_BYPASS \<or> drop 39 h = checksum_bytes (take 39 h))"
  using assms by (simp add: parse_header_def hdr_consts Let_def)

text \<open>A header damaged in one byte, of the route or of the checksum itself, is reported with a bad
  checksum, unless its checksum bytes now read as the gateway's accept-anything value.\<close>

theorem dstar_header_damage_detected:
  assumes "h = build_header rpt1 rpt2 ur my1 my2 flags" and "i < 41" and "b \<noteq> h ! i"
    and "drop 39 (h[i := b]) \<noteq> CHECKSUM_BYPASS"
  shows "\<exists>r. parse_header (h[i := b]) = Inr r \<and> \<not> rh_checksum_ok r"
proof -
  let ?B = "header_body rpt1 rpt2 ur my1 my2 flags"
  have h: "h = ?B @ checksum_bytes ?B" using assms(1) by (simp only: build_header_layout)
  have "drop 39 (h[i := b]) \<noteq> checksum_bytes (take 39 (h[i := b]))"
  proof (cases "i < 39")
    case True
    then have "take 39 (h[i := b]) = ?B[i := b]" "drop 39 (h[i := b]) = checksum_bytes ?B" "h ! i = ?B ! i"
      by (simp_all add: h list_update_append nth_append)
    with assms(3) True crc16_x25_one_byte [of i ?B b] checksum_bytes_inj [of "?B[i := b]" ?B] show ?thesis
      by (metis header_body_length)
  next
    case False
    then have "take 39 (h[i := b]) = ?B" "drop 39 (h[i := b]) = (checksum_bytes ?B)[i - 39 := b]"
      "h ! i = checksum_bytes ?B ! (i - 39)"
      by (simp_all add: h list_update_append nth_append)
    moreover have "i - 39 < length (checksum_bytes ?B)" using False assms(2) by simp
    ultimately show ?thesis using assms(3) by (metis nth_list_update_eq)
  qed
  moreover obtain r where "parse_header (h[i := b]) = Inr r" and
    "rh_checksum_ok r \<longleftrightarrow> drop 39 (h[i := b]) = CHECKSUM_BYPASS \<or>
       drop 39 (h[i := b]) = checksum_bytes (take 39 (h[i := b]))"
    using parse_header_checksum [of "h[i := b]"] assms(1) by auto
  ultimately show ?thesis using assms(4) by blast
qed

theorem dstar_header_damage_detected_witness:
  "\<exists>h b r. h = build_header [0x41] [0x42] [0x43] [0x44] [] (0, 0, 0) \<and> b \<in> {0, 1} \<and>
     parse_header (h[39 := b]) = Inr r \<and> \<not> rh_checksum_ok r"
proof -
  let ?h = "build_header [0x41] [0x42] [0x43] [0x44] [] (0, 0, 0)"
  define b :: byte where "b = (if ?h ! 39 = 0 then 1 else 0)"
  have "b \<noteq> ?h ! 39" "b \<in> {0, 1}" by (auto simp: b_def)
  moreover have "hd (drop 39 (?h[39 := b])) = b" by (simp add: hd_drop_conv_nth)
  then have "drop 39 (?h[39 := b]) \<noteq> CHECKSUM_BYPASS" by (auto simp: CHECKSUM_BYPASS_def b_def)
  ultimately show ?thesis using dstar_header_damage_detected [OF refl, of 39 b] by fastforce
qed

subsection \<open>Packets\<close>

lemma session_id_bytes:
  "push_bit 8 (uint (word_of_int (drop_bit 8 (s AND 0xFFFF)) :: byte)) OR
     uint (word_of_int ((s AND 0xFFFF) AND 0xFF) :: byte) = s mod 65536"
proof -
  have m: "s AND 0xFFFF = s mod 65536"
    using take_bit_eq_mask [of 16 s] by (simp add: mask_eq_exp_minus_1 take_bit_eq_mod)
  let ?t = "s mod 65536"
  have t: "0 \<le> ?t" "?t < 65536" by simp_all
  have d: "drop_bit 8 ?t = ?t div 256" by (simp add: drop_bit_eq_div)
  from t have "0 \<le> ?t div 256" "?t div 256 < 256" by linarith+
  then have hi: "uint (word_of_int (?t div 256) :: byte) = ?t div 256" by (rule uint_of_int_byte)
  have "push_bit 8 (?t div 256) OR ?t mod 256 = ?t"
  proof (rule bit_eqI)
    fix n
    have "?t div 256 = drop_bit 8 ?t" "?t mod 256 = take_bit 8 ?t"
      by (simp_all add: drop_bit_eq_div take_bit_eq_mod)
    then show "bit (push_bit 8 (?t div 256) OR ?t mod 256) n = bit ?t n"
      by (auto simp: bit_or_iff bit_push_bit_iff bit_drop_bit_eq bit_take_bit_iff)
  qed
  moreover have "uint (word_of_int ((s AND 0xFFFF) AND 0xFF) :: byte) = ?t mod 256"
    unfolding uint_and_ff m ..
  ultimately show ?thesis by (simp only: m d hi)
qed

lemma seq_byte:
  "uint (word_of_int ((n AND 0x3F) OR (if e then END_BIT else 0)) :: byte) AND 0x3F = n mod 64"
  "uint (word_of_int ((n AND 0x3F) OR (if e then END_BIT else 0)) :: byte) AND END_BIT \<noteq> 0 \<longleftrightarrow> e"
proof -
  have m: "n AND 0x3F = n mod 64"
    using take_bit_eq_mask [of 6 n] by (simp add: mask_eq_exp_minus_1 take_bit_eq_mod)
  let ?k = "n mod 64"
  have k: "take_bit 6 ?k = ?k" "0 \<le> ?k" "?k < 64" by (simp_all add: take_bit_eq_mod)
  have kb: "\<not> bit ?k i" if "6 \<le> i" for i using that k(1) by (metis bit_take_bit_iff not_le)
  let ?s = "?k OR (if e then END_BIT else 0)"
  have s: "?s = ?k + (if e then 64 else 0)"
  proof (cases e)
    case True
    have "?k AND 64 = 0"
    proof (rule bit_eqI)
      fix i
      have "bit (64 :: int) i \<longleftrightarrow> i = 6" using bit_exp_iff [where 'a = int, of 6 i] by auto
      with kb [of i] show "bit (?k AND 64) i = bit (0 :: int) i" by (auto simp: bit_and_iff)
    qed
    with True show ?thesis by (simp add: END_BIT_def disjunctive_add_eq_or)
  qed simp
  have u: "uint (word_of_int ?s :: byte) = ?s" using s k by (intro uint_of_int_byte) auto
  have "(?k + (if e then 64 else 0)) AND 0x3F = ?k"
    using take_bit_eq_mask [of 6 "?k + 64"] take_bit_eq_mask [of 6 ?k]
    by (simp add: mask_eq_exp_minus_1 take_bit_eq_mod)
  then show "uint (word_of_int ((n AND 0x3F) OR (if e then END_BIT else 0)) :: byte) AND 0x3F = n mod 64"
    unfolding m u unfolding s .
  have b6: "bit (64 :: int) i \<longleftrightarrow> i = 6" for i using bit_exp_iff [where 'a = int, of 6 i] by auto
  have "bit (?s AND END_BIT) 6 = e" using kb [of 6] b6 by (simp add: END_BIT_def bit_and_iff bit_or_iff)
  moreover have "\<not> bit (?s AND END_BIT) i" if "i \<noteq> 6" for i using b6 that by (simp add: END_BIT_def bit_and_iff)
  ultimately have "?s AND END_BIT \<noteq> 0 \<longleftrightarrow> e" by (metis bit_0_eq bot_apply bot_bool_def bit_eqI)
  then show "uint (word_of_int ((n AND 0x3F) OR (if e then END_BIT else 0)) :: byte) AND END_BIT \<noteq> 0 \<longleftrightarrow> e"
    unfolding m u .
qed

lemma dsrp_parse_header_packet:
  "length rh = RADIO_HEADER_LEN \<Longrightarrow>
     dsrp_parse (DSRP_MAGIC @ [TYPE_HEADER, hi, lo, z] @ rh) =
       (dsrp_message_of MkHeader)\<lparr>dm_session_id := push_bit 8 (uint hi) OR uint lo, dm_radio_header := rh\<rparr>"
  by (simp add: dsrp_parse_def DSRP_MAGIC_def TYPE_HEADER_def RADIO_HEADER_LEN_def)

lemma dsrp_parse_data_packet:
  "length dv = DV_FRAME_LEN \<Longrightarrow>
     dsrp_parse (DSRP_MAGIC @ [TYPE_DATA, hi, lo, s, er] @ dv) =
       (dsrp_message_of MkData)\<lparr>dm_session_id := push_bit 8 (uint hi) OR uint lo,
          dm_seq_no := uint s AND 0x3F, dm_end := (uint s AND END_BIT \<noteq> 0), dm_errors := uint er,
          dm_dv_frame := dv\<rparr>"
  by (simp add: dsrp_parse_def DSRP_MAGIC_def TYPE_HEADER_def TYPE_DATA_def DV_FRAME_LEN_def
    VOICE_FRAME_LEN_def SLOW_DATA_LEN_def Let_def)

text \<open>A header packet and a data packet parse back as what was sent: the session id modulo
  \<open>2^16\<close>, the radio header, the sequence number modulo 64 apart from the end mark, the error count
  modulo 256 and the voice frame.\<close>

theorem dsrp_roundtrip:
  assumes "length rh = RADIO_HEADER_LEN" and "length dv = DV_FRAME_LEN"
  shows "\<exists>p q. build_header_packet rh sid = Inr p \<and>
    dsrp_parse p = (dsrp_message_of MkHeader)\<lparr>dm_session_id := sid mod 65536, dm_radio_header := rh\<rparr> \<and>
    build_data_packet dv sid n e err = Inr q \<and>
    dsrp_parse q = (dsrp_message_of MkData)\<lparr>dm_session_id := sid mod 65536, dm_seq_no := n mod 64,
      dm_end := e, dm_errors := err mod 256, dm_dv_frame := dv\<rparr>"
proof -
  let ?s = "sid AND 0xFFFF"
  let ?p = "DSRP_MAGIC @ [TYPE_HEADER, word_of_int (drop_bit 8 ?s), word_of_int (?s AND 0xFF), 0x00] @ rh"
  let ?q = "DSRP_MAGIC @ [TYPE_DATA, word_of_int (drop_bit 8 ?s), word_of_int (?s AND 0xFF),
    word_of_int ((n AND 0x3F) OR (if e then END_BIT else 0)), word_of_int (err AND 0xFF)] @ dv"
  have "dsrp_parse ?p = (dsrp_message_of MkHeader)\<lparr>dm_session_id := sid mod 65536, dm_radio_header := rh\<rparr>"
    unfolding dsrp_parse_header_packet [OF assms(1)] session_id_bytes ..
  moreover have "dsrp_parse ?q = (dsrp_message_of MkData)\<lparr>dm_session_id := sid mod 65536,
      dm_seq_no := n mod 64, dm_end := e, dm_errors := err mod 256, dm_dv_frame := dv\<rparr>"
    unfolding dsrp_parse_data_packet [OF assms(2)] session_id_bytes seq_byte
    by (simp only: uint_and_ff)
  ultimately show ?thesis
    using assms by (simp add: build_header_packet_def build_data_packet_def Let_def)
qed

theorem dsrp_roundtrip_witness:
  "\<exists>p. build_header_packet (replicate 41 7) 65537 = Inr p \<and>
    dsrp_parse p = (dsrp_message_of MkHeader)\<lparr>dm_session_id := 1, dm_radio_header := replicate 41 7\<rparr>"
  using dsrp_roundtrip [of "replicate 41 7" "replicate 12 9" 65537 3 True 0]
  by (auto simp: RADIO_HEADER_LEN_def DV_FRAME_LEN_def VOICE_FRAME_LEN_def SLOW_DATA_LEN_def)

lemma dsrp_poll_roundtrip:
  assumes "\<forall>c \<in> set txt. 0 < c \<and> c < 128"
  shows "dsrp_parse (build_poll txt) = (dsrp_message_of MkPoll)\<lparr>dm_text := txt\<rparr>"
proof -
  have nz: "(of_nat c :: byte) \<noteq> 0" and u: "unat (of_nat c :: byte) = c" if "c \<in> set txt" for c
  proof -
    from assms that have "0 < c" "c < 128" by auto
    then show "unat (of_nat c :: byte) = c" by (simp add: unat_of_nat)
    with \<open>0 < c\<close> show "(of_nat c :: byte) \<noteq> 0" by (metis less_irrefl unat_0)
  qed
  have e: "encode_replace txt = map of_nat txt" using assms by (auto simp: encode_replace_def)
  have "takeWhile (\<lambda>b. b \<noteq> 0) (map of_nat txt @ [0 :: byte]) = map of_nat txt"
    using nz by (simp add: takeWhile_append)
  moreover have "decode_replace (map of_nat txt) = txt"
    using u assms by (auto simp: decode_replace_def intro: map_idI)
  ultimately have "dsrp_text (build_poll txt) = txt"
    by (simp add: dsrp_text_def build_poll_def e DSRP_MAGIC_def TYPE_POLL_def)
  then show ?thesis
    by (simp add: dsrp_parse_def build_poll_def DSRP_MAGIC_def TYPE_POLL_def TYPE_HEADER_def TYPE_DATA_def
      TYPE_TEXT_def TYPE_TEMPTEXT_def TYPE_STATUS_def TYPE_REGISTER_def)
qed

text \<open>Sequence numbers: a superframe has 21 frames.\<close>

lemma next_seq_iter: "(next_seq ^^ n) 0 = int (n mod 21)"
proof (induction n)
  case (Suc n)
  have "n mod 21 < 21" by simp
  with Suc show ?case by (auto simp: next_seq_def SEQ_MAX_def mod_Suc)
qed simp

end
