(* ===== verification/Arbiter.thy ===== *)
theory Arbiter
  imports Prelude
begin

section \<open>The half-duplex radio arbiter\<close>

text \<open>
  \<open>radio_server/arbiter/state.py\<close>: the two latches, the derived mode with TX priority, the four
  operations and the \<open>on_change\<close> notifications. The injected callback is modelled by the list of
  its calls; whether one is wired is a field. Callers hold no lock here: each operation is one
  step, and the theorems speak about every sequence of operations.
\<close>

datatype radio_mode = IDLE | RECEIVING | TRANSMITTING

instantiation radio_mode :: linorder
begin

fun mode_rank :: "radio_mode \<Rightarrow> nat" where
  "mode_rank IDLE = 0"
| "mode_rank RECEIVING = 1"
| "mode_rank TRANSMITTING = 2"

definition less_eq_radio_mode :: "radio_mode \<Rightarrow> radio_mode \<Rightarrow> bool" where
  "less_eq_radio_mode a b = (mode_rank a \<le> mode_rank b)"

definition less_radio_mode :: "radio_mode \<Rightarrow> radio_mode \<Rightarrow> bool" where
  "less_radio_mode a b = (mode_rank a < mode_rank b)"

instance
proof
  fix x y z :: radio_mode
  show "x < y \<longleftrightarrow> x \<le> y \<and> \<not> y \<le> x" by (auto simp: less_eq_radio_mode_def less_radio_mode_def)
  show "x \<le> x" by (simp add: less_eq_radio_mode_def)
  show "x \<le> y \<Longrightarrow> y \<le> z \<Longrightarrow> x \<le> z" by (simp add: less_eq_radio_mode_def)
  show "x \<le> y \<Longrightarrow> y \<le> x \<Longrightarrow> x = y" by (cases x; cases y) (simp_all add: less_eq_radio_mode_def)
  show "x \<le> y \<or> y \<le> x" by (auto simp: less_eq_radio_mode_def)
qed

end

record arbiter =
  ab_transmitting :: bool
  ab_receiving :: bool
  ab_wired :: bool
  ab_changes :: "radio_mode list"

definition arbiter_init :: "bool \<Rightarrow> arbiter" where
  "arbiter_init wired =
     \<lparr>ab_transmitting = False, ab_receiving = False, ab_wired = wired, ab_changes = []\<rparr>"

definition arb_mode :: "arbiter \<Rightarrow> radio_mode" where
  "arb_mode a =
     (if ab_transmitting a then TRANSMITTING else if ab_receiving a then RECEIVING else IDLE)"

definition arb_notify :: "radio_mode \<Rightarrow> arbiter \<Rightarrow> arbiter" where
  "arb_notify before a =
     (let after = arb_mode a in
      if ab_wired a \<and> after \<noteq> before then a\<lparr>ab_changes := ab_changes a @ [after]\<rparr> else a)"

definition acquire_tx :: "(arbiter, unit) meth" where
  "acquire_tx a =
     (if ab_transmitting a then (Inl ArbiterStateError, a)
      else (Inr (), arb_notify (arb_mode a) (a\<lparr>ab_transmitting := True\<rparr>)))"

definition release_tx :: "arbiter \<Rightarrow> arbiter" where
  "release_tx a = arb_notify (arb_mode a) (a\<lparr>ab_transmitting := False\<rparr>)"

definition begin_receive :: "arbiter \<Rightarrow> arbiter" where
  "begin_receive a = arb_notify (arb_mode a) (a\<lparr>ab_receiving := True\<rparr>)"

definition end_receive :: "arbiter \<Rightarrow> arbiter" where
  "end_receive a = arb_notify (arb_mode a) (a\<lparr>ab_receiving := False\<rparr>)"

subsection \<open>Any sequence of calls\<close>

datatype arb_op = AcquireTx | ReleaseTx | BeginReceive | EndReceive

fun arb_apply :: "arb_op \<Rightarrow> arbiter \<Rightarrow> arbiter" where
  "arb_apply AcquireTx a = snd (acquire_tx a)"
| "arb_apply ReleaseTx a = release_tx a"
| "arb_apply BeginReceive a = begin_receive a"
| "arb_apply EndReceive a = end_receive a"

fun arb_accepted :: "arb_op \<Rightarrow> arbiter \<Rightarrow> bool" where
  "arb_accepted AcquireTx a = (fst (acquire_tx a) = Inr ())"
| "arb_accepted op a = False"

text \<open>The states passed through, the first one included, and how often TX was granted.\<close>

fun arb_states :: "arbiter \<Rightarrow> arb_op list \<Rightarrow> arbiter list" where
  "arb_states a [] = [a]"
| "arb_states a (op # ops) = a # arb_states (arb_apply op a) ops"

fun arb_grants :: "arbiter \<Rightarrow> arb_op list \<Rightarrow> nat" where
  "arb_grants a [] = 0"
| "arb_grants a (op # ops) = of_bool (arb_accepted op a) + arb_grants (arb_apply op a) ops"

definition arb_final :: "arbiter \<Rightarrow> arb_op list \<Rightarrow> arbiter" where
  "arb_final a ops = foldl (\<lambda>s op. arb_apply op s) a ops"

lemmas arb_defs = acquire_tx_def release_tx_def begin_receive_def end_receive_def arb_notify_def
  arb_mode_def Let_def

lemma arb_mode_max:
  "arb_mode a = max (if ab_transmitting a then TRANSMITTING else IDLE)
                    (if ab_receiving a then RECEIVING else IDLE)"
  by (auto simp: arb_mode_def max_def less_eq_radio_mode_def)

lemma arb_apply_wired [simp]: "ab_wired (arb_apply op a) = ab_wired a"
  by (cases op) (auto simp: arb_defs)

text \<open>One step notifies exactly when the derived mode moved, with the new mode.\<close>

lemma arb_apply_changes:
  "ab_changes (arb_apply op a) =
     ab_changes a @ (if ab_wired a \<and> arb_mode (arb_apply op a) \<noteq> arb_mode a
                     then [arb_mode (arb_apply op a)] else [])"
  by (cases op) (auto simp: arb_defs)

lemma arb_grant_transmitting:
  "arb_accepted op a \<Longrightarrow> \<not> ab_transmitting a \<and> ab_transmitting (arb_apply op a)"
  by (cases op) (auto simp: acquire_tx_def arb_notify_def Let_def split: if_splits)

lemma arb_keeps_transmitting:
  "op \<noteq> ReleaseTx \<Longrightarrow> ab_transmitting a \<Longrightarrow> ab_transmitting (arb_apply op a)"
  by (cases op) (auto simp: arb_defs)

lemma arb_changes_run:
  "ab_wired a \<Longrightarrow>
     ab_changes (arb_final a ops) = ab_changes a @ tl (remdups_adj (map arb_mode (arb_states a ops)))"
proof (induction ops arbitrary: a)
  case Nil
  then show ?case by (simp add: arb_final_def)
next
  case (Cons op ops)
  let ?b = "arb_apply op a"
  obtain ms where ms: "map arb_mode (arb_states ?b ops) = arb_mode ?b # ms" by (cases ops) auto
  from Cons.prems Cons.IH [of ?b]
  have "ab_changes (arb_final ?b ops) = ab_changes ?b @ tl (remdups_adj (arb_mode ?b # ms))"
    by (simp add: ms)
  moreover have "arb_final a (op # ops) = arb_final ?b ops" by (simp add: arb_final_def)
  ultimately show ?case
    using Cons.prems by (simp add: ms arb_apply_changes remdups_adj_Cons split: list.splits)
qed

lemma arb_grants_bound:
  "arb_grants a ops + of_bool (ab_transmitting a)
     \<le> length (filter (\<lambda>op. op = ReleaseTx) ops) + 1"
proof (induction ops arbitrary: a)
  case (Cons op ops)
  let ?b = "arb_apply op a"
  from Cons.IH [of ?b] show ?case
    using arb_grant_transmitting [of op a] arb_keeps_transmitting [of op a]
    by (cases "op = ReleaseTx"; cases "arb_accepted op a"; cases "ab_transmitting a") auto
qed simp

subsection \<open>Properties\<close>

text \<open>The ledger sees exactly the mode changes: for every sequence of arbiter calls the wired
  callback has been called with the derived mode of every state that differs from the one before,
  once each and in order, and never for a latch flip that leaves the mode unchanged.
\<close>

theorem arbiter_notifies_mode_changes:
  "IDLE # ab_changes (arb_final (arbiter_init True) ops) =
     remdups_adj (map arb_mode (arb_states (arbiter_init True) ops))"
proof -
  let ?ms = "remdups_adj (map arb_mode (arb_states (arbiter_init True) ops))"
  have "hd ?ms = IDLE" "?ms \<noteq> []"
    by (cases ops; simp add: hd_remdups_adj arb_mode_def arbiter_init_def)+
  then have "?ms = IDLE # tl ?ms" by (metis list.collapse)
  moreover have "ab_wired (arbiter_init True)" "ab_changes (arbiter_init True) = []"
    by (simp_all add: arbiter_init_def)
  ultimately show ?thesis using arb_changes_run [of "arbiter_init True" ops] by simp
qed

text \<open>The transmitter is granted to one talker at a time: in any sequence of calls the number of
  granted \<open>acquire_tx\<close> is at most one more than the number of releases, a claim on a held
  transmitter raises and changes nothing, and TX always wins the derived mode.
\<close>

theorem arbiter_single_talker:
  "arb_grants (arbiter_init w) ops \<le> length (filter (\<lambda>op. op = ReleaseTx) ops) + 1 \<and>
   (acquire_tx a = (Inl ArbiterStateError, a)) = ab_transmitting a \<and>
   (arb_mode a = TRANSMITTING) = ab_transmitting a \<and>
   arb_mode a = max (if ab_transmitting a then TRANSMITTING else IDLE)
                    (if ab_receiving a then RECEIVING else IDLE)"
proof -
  have "arb_grants (arbiter_init w) ops \<le> length (filter (\<lambda>op. op = ReleaseTx) ops) + 1"
    using arb_grants_bound [of "arbiter_init w" ops] by (simp add: arbiter_init_def)
  moreover have "(acquire_tx a = (Inl ArbiterStateError, a)) = ab_transmitting a"
    by (simp add: acquire_tx_def)
  moreover have "(arb_mode a = TRANSMITTING) = ab_transmitting a"
    by (simp add: arb_mode_def)
  ultimately show ?thesis using arb_mode_max [of a] by blast
qed

end
