(* ===== verification/Auth.thy ===== *)
theory Auth
  imports Prelude
begin

section \<open>Login codes and the session gate\<close>

text \<open>
  \<open>radio_server/auth/totp.py\<close>, \<open>auth/fixed.py\<close> and \<open>auth/session.py\<close>. The code generator
  \<open>pyotp.TOTP.at\<close> is third-party: it is the parameter \<open>code_at\<close>, a function from Unix seconds to the
  code string, and nothing is assumed of it. \<open>hmac.compare_digest\<close> is string equality. The locales
  \<open>verifier\<close> and \<open>single_use_verifier\<close> state what \<open>AuthGate\<close> relies on; both verifiers of the
  code are interpretations, the fixed code only of the first.
\<close>

subsection \<open>TotpVerifier\<close>

text \<open>Python's \<open>int(x)\<close> of a float: truncation towards zero.\<close>

definition py_int :: "real \<Rightarrow> int" where
  "py_int x = (if 0 \<le> x then \<lfloor>x\<rfloor> else \<lceil>x\<rceil>)"

record totp =
  tv_interval :: int
  tv_consumed :: "(string \<times> int) set"

definition totp_init :: "int \<Rightarrow> totp" where
  "totp_init interval = \<lparr>tv_interval = interval, tv_consumed = {}\<rparr>"

definition step_at :: "totp \<Rightarrow> secs \<Rightarrow> int" where
  "step_at v now = py_int now div tv_interval v"

definition totp_prune :: "int \<Rightarrow> totp \<Rightarrow> totp" where
  "totp_prune now_step v =
     v\<lparr>tv_consumed := {k \<in> tv_consumed v. now_step - 1 \<le> snd k}\<rparr>"

text \<open>The loop over the offsets: the first matching step decides.\<close>

fun totp_scan :: "(int \<Rightarrow> string) \<Rightarrow> string \<Rightarrow> int list \<Rightarrow> totp \<Rightarrow> bool \<times> totp" where
  "totp_scan code_at code [] v = (False, v)"
| "totp_scan code_at code (step # steps) v =
     (if code_at (step * tv_interval v) = code then
        (if (code, step) \<in> tv_consumed v then (False, v)
         else (True, v\<lparr>tv_consumed := insert (code, step) (tv_consumed v)\<rparr>))
      else totp_scan code_at code steps v)"

definition verify_and_burn :: "(int \<Rightarrow> string) \<Rightarrow> totp \<Rightarrow> string \<Rightarrow> secs \<Rightarrow> bool \<times> totp" where
  "verify_and_burn code_at v code now =
     (let now_step = step_at v now
      in totp_scan code_at code [now_step - 1, now_step, now_step + 1] (totp_prune now_step v))"

definition current_code :: "(int \<Rightarrow> string) \<Rightarrow> secs \<Rightarrow> string" where
  "current_code code_at now = code_at (py_int now)"

definition seconds_remaining :: "totp \<Rightarrow> secs \<Rightarrow> int" where
  "seconds_remaining v now = tv_interval v - (py_int now mod tv_interval v)"

subsection \<open>FixedCodeVerifier\<close>

text \<open>The state is the configured code itself: nothing is ever consumed.\<close>

definition fixed_verify :: "string \<Rightarrow> string \<Rightarrow> secs \<Rightarrow> bool \<times> string" where
  "fixed_verify fixed code now =
     (if fixed = [] \<or> code = [] then False else fixed = code, fixed)"

subsection \<open>AuthGate\<close>

record session =
  ss_authenticated :: bool
  ss_last_activity :: secs

definition session_init :: session where
  "session_init = \<lparr>ss_authenticated = False, ss_last_activity = 0\<rparr>"

datatype 'd outcome = ACCEPTED | REJECTED | COMMAND 'd

definition expire_if_idle :: "secs \<Rightarrow> session \<Rightarrow> secs \<Rightarrow> bool \<times> session" where
  "expire_if_idle timeout s now =
     (if ss_authenticated s \<and> timeout < now - ss_last_activity s
      then (True, s\<lparr>ss_authenticated := False\<rparr>) else (False, s))"

definition logout :: "session \<Rightarrow> bool \<times> session" where
  "logout s = (if \<not> ss_authenticated s then (False, s) else (True, s\<lparr>ss_authenticated := False\<rparr>))"

definition open_session :: "session \<Rightarrow> secs \<Rightarrow> bool \<times> session" where
  "open_session s now =
     (let s1 = s\<lparr>ss_last_activity := now\<rparr> in
      if ss_authenticated s1 then (False, s1) else (True, s1\<lparr>ss_authenticated := True\<rparr>))"

text \<open>
  \<open>verify\<close> is the verifier's \<open>verify_and_burn\<close>, \<open>None\<close> where the gate has no verifier (only sound
  with \<open>enforce\<close> off). The dispatch hook may change the session it is handed and may raise.
\<close>

definition on_dtmf ::
  "('v \<Rightarrow> string \<Rightarrow> secs \<Rightarrow> bool \<times> 'v) option \<Rightarrow> (string \<Rightarrow> (session, 'd) meth) \<Rightarrow> bool \<Rightarrow> secs \<Rightarrow>
   string \<Rightarrow> secs \<Rightarrow> 'v \<times> session \<Rightarrow> (exn + 'd outcome) \<times> ('v \<times> session)" where
  "on_dtmf verify dispatch enforce timeout digits now st =
     (let (v, s0) = st;
          s1 = snd (expire_if_idle timeout s0 now);
          s = s1\<lparr>ss_last_activity := now\<rparr>;
          command = (\<lambda>s. case dispatch digits s of
              (Inl e, s') \<Rightarrow> (Inl e, (v, s')) | (Inr d, s') \<Rightarrow> (Inr (COMMAND d), (v, s')))
      in if \<not> enforce then command (s\<lparr>ss_authenticated := True\<rparr>)
         else if \<not> ss_authenticated s then
           (case verify of
              None \<Rightarrow> (Inl AttributeError, (v, s))
            | Some f \<Rightarrow>
                (let (ok, v') = f v digits now in
                 if ok then (Inr ACCEPTED, (v', s\<lparr>ss_authenticated := True\<rparr>))
                 else (Inr REJECTED, (v', s))))
         else command s)"

subsection \<open>What the gate relies on\<close>

locale verifier =
  fixes verify :: "'v \<Rightarrow> string \<Rightarrow> secs \<Rightarrow> bool \<times> 'v"
    and vok :: "'v \<Rightarrow> bool"
  assumes verify_keeps: "vok v \<Longrightarrow> vok (snd (verify v code now))"
begin

abbreviation gate where
  "gate dispatch timeout \<equiv> on_dtmf (Some verify) dispatch True timeout"

lemma gate_keeps: "vok v \<Longrightarrow> vok (fst (snd (gate dispatch timeout digits now (v, s))))"
  using verify_keeps [of v digits now]
  by (auto simp: on_dtmf_def Let_def split: prod.splits sum.splits)

text \<open>A command runs only for a session that was open and not idle past the timeout.\<close>

lemma gate_command:
  assumes "fst (gate dispatch timeout digits now (v, s)) = Inr (COMMAND d)"
  shows "ss_authenticated s \<and> now - ss_last_activity s \<le> timeout \<and>
    fst (snd (gate dispatch timeout digits now (v, s))) = v"
  using assms
  by (auto simp: on_dtmf_def Let_def expire_if_idle_def split: prod.splits sum.splits if_splits)

text \<open>A session is opened by the gate only when the verifier accepted the digits.\<close>

lemma gate_opens:
  assumes "fst (gate dispatch timeout digits now (v, s)) = Inr ACCEPTED"
  shows "fst (verify v digits now)"
  using assms by (auto simp: on_dtmf_def Let_def split: prod.splits sum.splits if_splits)

lemma gate_rejected:
  assumes "fst (gate dispatch timeout digits now (v, s)) = Inr REJECTED"
  shows "\<not> fst (verify v digits now) \<and> \<not> ss_authenticated (snd (snd (gate dispatch timeout digits now (v, s))))"
  using assms by (auto simp: on_dtmf_def Let_def split: prod.splits sum.splits if_splits)

end

text \<open>
  A verifier whose accepted keys are spent: an accepted key was not burned and is burned afterwards,
  and a key that leaves the burned set is dead from then on, too old ever to be accepted again.
\<close>

locale single_use_verifier = verifier verify vok
  for verify :: "'v \<Rightarrow> string \<Rightarrow> secs \<Rightarrow> bool \<times> 'v" and vok +
  fixes key :: "'v \<Rightarrow> string \<Rightarrow> secs \<Rightarrow> 'k"
    and burned :: "'v \<Rightarrow> 'k set"
    and dead :: "secs \<Rightarrow> 'k \<Rightarrow> bool"
  assumes accept_fresh: "vok v \<Longrightarrow> fst (verify v code now) \<Longrightarrow>
      key v code now \<notin> burned v \<and> key v code now \<in> burned (snd (verify v code now)) \<and>
      \<not> dead now (key v code now)"
    and burned_or_dead: "vok v \<Longrightarrow> k \<in> burned v \<Longrightarrow>
      k \<in> burned (snd (verify v code now)) \<or> dead now k"
    and dead_mono: "dead now k \<Longrightarrow> now \<le> now' \<Longrightarrow> dead now' k"

fun accepted_keys ::
  "('v \<Rightarrow> string \<Rightarrow> secs \<Rightarrow> bool \<times> 'v) \<Rightarrow> ('v \<Rightarrow> string \<Rightarrow> secs \<Rightarrow> 'k) \<Rightarrow> 'v \<Rightarrow> (string \<times> secs) list \<Rightarrow> 'k list"
where
  "accepted_keys verify key v [] = []"
| "accepted_keys verify key v ((code, now) # calls) =
     (let (ok, v') = verify v code now
      in (if ok then [key v code now] else []) @ accepted_keys verify key v' calls)"

context single_use_verifier
begin

lemma no_reaccept:
  "vok v \<Longrightarrow> k \<in> burned v \<or> dead t k \<Longrightarrow> sorted (t # map snd calls) \<Longrightarrow>
     k \<notin> set (accepted_keys verify key v calls)"
proof (induction calls arbitrary: v t)
  case (Cons call calls)
  obtain code now where c: "call = (code, now)" by fastforce
  obtain ok v' where v': "verify v code now = (ok, v')" by fastforce
  from Cons.prems(3) c have tn: "t \<le> now" and srt: "sorted (now # map snd calls)" by auto
  from verify_keeps [OF Cons.prems(1), of code now] v' have "vok v'" by simp
  moreover from Cons.prems(1,2) tn burned_or_dead [of v k code now] dead_mono [of t k now] v'
  have kd: "k \<in> burned v' \<or> dead now k" by auto
  ultimately have "k \<notin> set (accepted_keys verify key v' calls)" using Cons.IH srt by blast
  moreover have "ok \<Longrightarrow> key v code now \<noteq> k"
    using accept_fresh [OF Cons.prems(1), of code now] v' Cons.prems(2) dead_mono [of t k now] tn by auto
  ultimately show ?case by (auto simp: c v' Let_def)
qed simp

lemma accepted_distinct:
  "vok v \<Longrightarrow> sorted (map snd calls) \<Longrightarrow> distinct (accepted_keys verify key v calls)"
proof (induction calls arbitrary: v)
  case (Cons call calls)
  obtain code now where c: "call = (code, now)" by fastforce
  obtain ok v' where v': "verify v code now = (ok, v')" by fastforce
  from verify_keeps [OF Cons.prems(1), of code now] v' have ok': "vok v'" by simp
  from Cons.IH [OF ok'] Cons.prems(2) c have "distinct (accepted_keys verify key v' calls)" by simp
  moreover have "ok \<Longrightarrow> key v code now \<notin> set (accepted_keys verify key v' calls)"
    using accept_fresh [OF Cons.prems(1), of code now] v' c Cons.prems(2)
    by (intro no_reaccept [OF ok', of _ now]) auto
  ultimately show ?case by (auto simp: c v' Let_def)
qed simp

end

subsection \<open>The two verifiers\<close>

definition totp_ok :: "int \<Rightarrow> totp \<Rightarrow> bool" where
  "totp_ok interval v = (tv_interval v = interval \<and> 0 < interval)"

text \<open>The pair a successful call burns: the code and the first step of the window it matches.\<close>

definition totp_key :: "(int \<Rightarrow> string) \<Rightarrow> totp \<Rightarrow> string \<Rightarrow> secs \<Rightarrow> string \<times> int" where
  "totp_key code_at v code now =
     (let n = step_at v now in
      (code, if code_at ((n - 1) * tv_interval v) = code then n - 1
             else if code_at (n * tv_interval v) = code then n else n + 1))"

definition totp_dead :: "int \<Rightarrow> secs \<Rightarrow> string \<times> int \<Rightarrow> bool" where
  "totp_dead interval now k = (0 < interval \<and> snd k < py_int now div interval - 1)"

lemma py_int_mono: "x \<le> y \<Longrightarrow> py_int x \<le> py_int y"
proof -
  assume "x \<le> y"
  moreover have "\<lceil>x\<rceil> \<le> \<lfloor>y\<rfloor>" if "x < 0" "0 \<le> y"
  proof -
    from that have "\<lceil>x\<rceil> \<le> 0" "0 \<le> \<lfloor>y\<rfloor>" by (simp_all add: ceiling_le_iff)
    then show ?thesis by linarith
  qed
  ultimately show ?thesis by (auto simp: py_int_def floor_mono ceiling_mono)
qed

lemma totp_accept:
  assumes "fst (verify_and_burn code_at v code now)"
  shows "totp_key code_at v code now \<notin> tv_consumed v \<and> step_at v now - 1 \<le> snd (totp_key code_at v code now) \<and>
    snd (totp_key code_at v code now) \<le> step_at v now + 1 \<and>
    code_at (snd (totp_key code_at v code now) * tv_interval v) = code \<and>
    tv_consumed (snd (verify_and_burn code_at v code now)) =
      insert (totp_key code_at v code now) {k \<in> tv_consumed v. step_at v now - 1 \<le> snd k}"
  using assms by (auto simp: verify_and_burn_def totp_key_def totp_prune_def Let_def split: if_splits)

lemma totp_refuse:
  "\<not> fst (verify_and_burn code_at v code now) \<Longrightarrow>
     tv_consumed (snd (verify_and_burn code_at v code now)) = {k \<in> tv_consumed v. step_at v now - 1 \<le> snd k}"
  by (auto simp: verify_and_burn_def totp_prune_def Let_def split: if_splits)

lemma totp_live_kept:
  "k \<in> tv_consumed v \<Longrightarrow> step_at v now - 1 \<le> snd k \<Longrightarrow>
     k \<in> tv_consumed (snd (verify_and_burn code_at v code now))"
  using totp_accept [of code_at v code now] totp_refuse [of code_at v code now]
  by (cases "fst (verify_and_burn code_at v code now)") simp_all

lemma totp_interval [simp]: "tv_interval (snd (verify_and_burn code_at v code now)) = tv_interval v"
  by (auto simp: verify_and_burn_def totp_prune_def Let_def)

interpretation totp: single_use_verifier "verify_and_burn code_at" "totp_ok interval" "totp_key code_at"
  tv_consumed "totp_dead interval" for code_at interval
proof unfold_locales
  fix v code now
  assume ok: "totp_ok interval v"
  then show "totp_ok interval (snd (verify_and_burn code_at v code now))" by (simp add: totp_ok_def)
  show "totp_key code_at v code now \<notin> tv_consumed v \<and>
      totp_key code_at v code now \<in> tv_consumed (snd (verify_and_burn code_at v code now)) \<and>
      \<not> totp_dead interval now (totp_key code_at v code now)"
    if "fst (verify_and_burn code_at v code now)"
    using totp_accept [OF that] ok by (auto simp: totp_dead_def totp_ok_def step_at_def)
  show "k \<in> tv_consumed (snd (verify_and_burn code_at v code now)) \<or> totp_dead interval now k"
    if "k \<in> tv_consumed v" for k
    using totp_live_kept [OF that, of now code_at code] ok
    by (cases "step_at v now - 1 \<le> snd k") (auto simp: totp_dead_def totp_ok_def step_at_def)
next
  fix now now' :: secs and k
  assume d: "totp_dead interval now k" and le: "now \<le> now'"
  then have "py_int now div interval \<le> py_int now' div interval"
    by (intro zdiv_mono1 py_int_mono) (auto simp: totp_dead_def)
  with d show "totp_dead interval now' k" by (auto simp: totp_dead_def)
qed

interpretation fixed_code: verifier fixed_verify "\<lambda>c. c = fixed" for fixed
  by unfold_locales (simp add: fixed_verify_def)

subsection \<open>Sessions over a whole conversation\<close>

text \<open>
  What may happen to one session: keyed digits, the controller's idle poll, the forced logout and
  the operator's open (which needs no code). Commands are run by \<open>dispatch\<close>.
\<close>

datatype gate_event = Dtmf string secs | Poll secs | Logout | OperatorOpen secs

fun gate_event_time :: "gate_event \<Rightarrow> secs option" where
  "gate_event_time (Dtmf _ t) = Some t"
| "gate_event_time (Poll t) = Some t"
| "gate_event_time Logout = None"
| "gate_event_time (OperatorOpen t) = Some t"

definition gate_step ::
  "('v \<Rightarrow> string \<Rightarrow> secs \<Rightarrow> bool \<times> 'v) \<Rightarrow> (string \<Rightarrow> (session, 'd) meth) \<Rightarrow> secs \<Rightarrow>
   gate_event \<Rightarrow> 'v \<times> session \<Rightarrow> (exn + 'd outcome) option \<times> ('v \<times> session)" where
  "gate_step verify dispatch timeout ev st =
     (case ev of
        Dtmf digits now \<Rightarrow>
          (let (r, st') = on_dtmf (Some verify) dispatch True timeout digits now st in (Some r, st'))
      | Poll now \<Rightarrow> (None, fst st, snd (expire_if_idle timeout (snd st) now))
      | Logout \<Rightarrow> (None, fst st, snd (logout (snd st)))
      | OperatorOpen now \<Rightarrow> (None, fst st, snd (open_session (snd st) now)))"

fun gate_run ::
  "('v \<Rightarrow> string \<Rightarrow> secs \<Rightarrow> bool \<times> 'v) \<Rightarrow> (string \<Rightarrow> (session, 'd) meth) \<Rightarrow> secs \<Rightarrow>
   'v \<times> session \<Rightarrow> gate_event list \<Rightarrow> (exn + 'd outcome) option list \<times> ('v \<times> session)" where
  "gate_run verify dispatch timeout st [] = ([], st)"
| "gate_run verify dispatch timeout st (ev # evs) =
     (let (r, st1) = gate_step verify dispatch timeout ev st;
          (rs, st2) = gate_run verify dispatch timeout st1 evs
      in (r # rs, st2))"

text \<open>A dispatch hook that never opens a session itself: the built-in commands only close one.\<close>

definition never_opens :: "(string \<Rightarrow> (session, 'd) meth) \<Rightarrow> bool" where
  "never_opens dispatch \<longleftrightarrow>
     (\<forall>digits s. ss_authenticated (snd (dispatch digits s)) \<longrightarrow> ss_authenticated s)"

definition login_event :: "(exn + 'd outcome) option \<Rightarrow> gate_event \<Rightarrow> bool" where
  "login_event r ev = (r = Some (Inr ACCEPTED) \<or> (\<exists>t. ev = OperatorOpen t))"

lemma gate_step_opens:
  assumes "never_opens dispatch" "gate_step verify dispatch timeout ev (v, s) = (r, (v', s'))"
    and "ss_authenticated s'"
  shows "ss_authenticated s \<or> login_event r ev"
  using assms
  by (cases ev)
    (auto simp: gate_step_def on_dtmf_def login_event_def expire_if_idle_def logout_def open_session_def
      Let_def never_opens_def split: prod.splits sum.splits if_splits)

lemma gate_run_opens:
  "never_opens dispatch \<Longrightarrow> gate_run verify dispatch timeout (v, s) evs = (rs, (v', s')) \<Longrightarrow>
     ss_authenticated s' \<Longrightarrow>
     ss_authenticated s \<or> (\<exists>i < length evs. login_event (rs ! i) (evs ! i))"
proof (induction evs arbitrary: v s rs)
  case (Cons ev evs)
  obtain r v1 s1 where g: "gate_step verify dispatch timeout ev (v, s) = (r, (v1, s1))"
    by (metis surj_pair)
  obtain rs1 v2 s2 where h: "gate_run verify dispatch timeout (v1, s1) evs = (rs1, (v2, s2))"
    by (metis surj_pair)
  from Cons.prems(2) g h have rs: "rs = r # rs1" and st: "v2 = v'" "s2 = s'" by auto
  from Cons.IH [OF Cons.prems(1), of v1 s1 rs1] h st Cons.prems(3)
  have "ss_authenticated s1 \<or> (\<exists>i < length evs. login_event (rs1 ! i) (evs ! i))" by simp
  then show ?case
  proof
    assume "ss_authenticated s1"
    from gate_step_opens [OF Cons.prems(1) g this] show ?thesis by (auto simp: rs)
  next
    assume "\<exists>i < length evs. login_event (rs1 ! i) (evs ! i)"
    then obtain i where "i < length evs" "login_event (rs1 ! i) (evs ! i)" by blast
    then show ?thesis by (auto simp: rs intro!: exI [of _ "Suc i"])
  qed
qed simp

subsection \<open>Properties\<close>

text \<open>
  C1. TOTP codes are single-use: over any sequence of presentations at times that never run
  backwards, no (code, time step) pair is accepted twice, whatever codes the generator produces and
  however the presentations are timed, pruning of old burns included.
\<close>

theorem totp_single_use:
  assumes "0 < tv_interval v" "sorted (map snd calls)"
  shows "distinct (accepted_keys (verify_and_burn code_at) (totp_key code_at) v calls)"
  using assms by (intro totp.accepted_distinct [of "tv_interval v"]) (simp_all add: totp_ok_def)

theorem totp_single_use_witness:
  "distinct (accepted_keys (verify_and_burn (\<lambda>t. ''123456'')) (totp_key (\<lambda>t. ''123456''))
     (totp_init 30) [(''123456'', 100), (''123456'', 110)])"
  by (rule totp_single_use) (simp_all add: totp_init_def)

text \<open>A code is accepted exactly when it is the code of the current step or a neighbour and the first
  such step has not been burned; acceptance burns exactly that pair, and every call, accepted or
  refused, drops exactly the burns that have fallen out of the window.
\<close>

theorem totp_verify_spec:
  "(let n = step_at v now; interval = tv_interval v; k = totp_key code_at v code now;
        (ok, v') = verify_and_burn code_at v code now
    in (ok \<longleftrightarrow> code \<in> {code_at ((n - 1) * interval), code_at (n * interval), code_at ((n + 1) * interval)}
          \<and> k \<notin> tv_consumed v) \<and>
       tv_consumed v' = {q \<in> tv_consumed v. n - 1 \<le> snd q} \<union> (if ok then {k} else {}))"
  by (auto simp: verify_and_burn_def totp_prune_def totp_key_def Let_def)



text \<open>A command runs only on a live session: when an enforced gate dispatches digits, the session was
  authenticated before and had been idle no longer than the timeout, and the verifier was not
  consulted, so no code is burned by a command.
\<close>

theorem command_needs_live_session:
  assumes "fst (on_dtmf (Some (verify_and_burn code_at)) dispatch True timeout digits now (v, s))
      = Inr (COMMAND d)"
  shows "ss_authenticated s \<and> now - ss_last_activity s \<le> timeout \<and>
    fst (snd (on_dtmf (Some (verify_and_burn code_at)) dispatch True timeout digits now (v, s))) = v"
  by (rule totp.gate_command [OF assms])

theorem command_needs_live_session_witness:
  "(10 :: real) - 4 \<le> 300"
  using command_needs_live_session [of "\<lambda>t. ''7''" "\<lambda>digits s. (Inr (0 :: nat), s)" 300 "''5''" 10
      "totp_init 30" "\<lparr>ss_authenticated = True, ss_last_activity = 4\<rparr>" 0]
  by (simp add: on_dtmf_def expire_if_idle_def)

text \<open>
  The single use rests on a clock that does not run backwards: after a step back a burn that was
  pruned can be repeated.
\<close>

lemma totp_replay_after_clock_step_back:
  "accepted_keys (verify_and_burn (\<lambda>t. if t = 60 then ''1'' else ''0'')) (totp_key (\<lambda>t. if t = 60 then ''1'' else ''0''))
     (totp_init 30) [(''1'', 60), (''5'', 150), (''1'', 60)] = [(''1'', 2), (''1'', 2)]"
  by (simp add: verify_and_burn_def totp_prune_def totp_init_def totp_key_def step_at_def py_int_def Let_def)

end
