(* ===== verification/StationId.thy ===== *)
theory StationId
  imports Prelude
begin

section \<open>Automatic station identification\<close>

text \<open>
  \<open>radio_server/services/station_id.py\<close>: \<open>StationId\<close>, the transmit seam of the controller, and
  \<open>StreamingId\<close>, the identifier the streaming sessions consult. The encoder is a parameter: the ID
  audio it renders, or the exception it raises. The radio of \<open>StationId\<close> is a parameter too: which
  transmissions raise is an arbitrary function of the number of the attempt. What went on the air is
  recorded with the time handed to the operation; an attempt that raised counts as not on the air.
\<close>

definition DEFAULT_ID_INTERVAL :: secs where "DEFAULT_ID_INTERVAL = 600"
definition MAX_ID_INTERVAL :: secs where "MAX_ID_INTERVAL = 600"

text \<open>\<open>_due\<close>, the same method in both classes.\<close>

definition id_due :: "secs \<Rightarrow> secs option \<Rightarrow> secs \<Rightarrow> bool" where
  "id_due interval last_id now = (case last_id of None \<Rightarrow> True | Some t \<Rightarrow> interval \<le> now - t)"

subsection \<open>StationId\<close>

record station =
  sid_transmitted :: bool
  sid_last_id :: "secs option"
  sid_air :: "(secs \<times> bytes) list"
  sid_attempts :: nat

record id_config =
  ic_interval :: secs
  ic_audio :: "exn + bytes"
  ic_fault :: "nat \<Rightarrow> exn option"

definition station_init :: station where
  "station_init = \<lparr>sid_transmitted = False, sid_last_id = None, sid_air = [], sid_attempts = 0\<rparr>"

definition sid_radio :: "id_config \<Rightarrow> secs \<Rightarrow> bytes \<Rightarrow> (station, unit) meth" where
  "sid_radio c now frame s =
     (let s1 = s\<lparr>sid_attempts := Suc (sid_attempts s)\<rparr> in
      case ic_fault c (sid_attempts s) of
        Some e \<Rightarrow> (Inl e, s1)
      | None \<Rightarrow> (Inr (), s1\<lparr>sid_air := sid_air s @ [(now, frame)]\<rparr>))"

definition sid_id_audio :: "id_config \<Rightarrow> (station, bytes) meth" where
  "sid_id_audio c s = (ic_audio c, s)"

definition sid_transmit :: "id_config \<Rightarrow> bytes \<Rightarrow> secs \<Rightarrow> (station, unit) meth" where
  "sid_transmit c audio now s =
     (let identified = id_due (ic_interval c) (sid_last_id s) now in
      andthen (if identified
               then andthen (sid_id_audio c) (\<lambda>i. returning (i @ audio)) else returning audio)
        (\<lambda>frame. andthen (sid_radio c now frame)
          (\<lambda>_. andthen (if identified then modifying (\<lambda>s. s\<lparr>sid_last_id := Some now\<rparr>) else returning ())
            (\<lambda>_. modifying (\<lambda>s. s\<lparr>sid_transmitted := True\<rparr>)))) s)"

definition sid_identify :: "id_config \<Rightarrow> secs \<Rightarrow> (station, unit) meth" where
  "sid_identify c now =
     andthen (sid_id_audio c) (\<lambda>i. andthen (sid_radio c now i)
       (\<lambda>_. modifying (\<lambda>s. s\<lparr>sid_last_id := Some now, sid_transmitted := True\<rparr>)))"

definition sid_check :: "id_config \<Rightarrow> secs \<Rightarrow> (station, bool) meth" where
  "sid_check c now s =
     (if sid_transmitted s \<and> id_due (ic_interval c) (sid_last_id s) now then
        andthen (sid_id_audio c) (\<lambda>i. andthen (sid_radio c now i)
          (\<lambda>_. andthen (modifying (\<lambda>s. s\<lparr>sid_last_id := Some now\<rparr>)) (\<lambda>_. returning True))) s
      else (Inr False, s))"

definition sid_reset :: "station \<Rightarrow> station" where
  "sid_reset s = s\<lparr>sid_transmitted := False, sid_last_id := None\<rparr>"

definition sid_sign_off :: "id_config \<Rightarrow> secs \<Rightarrow> (station, bool) meth" where
  "sid_sign_off c now s =
     (if sid_transmitted s then
        andthen (sid_id_audio c) (\<lambda>i. andthen (sid_radio c now i)
          (\<lambda>_. andthen (modifying sid_reset) (\<lambda>_. returning True))) s
      else (Inr False, sid_reset s))"

definition sid_begin_session :: "station \<Rightarrow> station" where
  "sid_begin_session s = sid_reset s"

datatype sid_op =
  SidTransmit bytes secs | SidIdentify secs | SidCheck secs | SidSignOff secs | SidBegin

fun sid_apply :: "id_config \<Rightarrow> sid_op \<Rightarrow> station \<Rightarrow> station" where
  "sid_apply c (SidTransmit audio now) s = snd (sid_transmit c audio now s)"
| "sid_apply c (SidIdentify now) s = snd (sid_identify c now s)"
| "sid_apply c (SidCheck now) s = snd (sid_check c now s)"
| "sid_apply c (SidSignOff now) s = snd (sid_sign_off c now s)"
| "sid_apply c SidBegin s = sid_begin_session s"

definition sid_run :: "id_config \<Rightarrow> sid_op list \<Rightarrow> station \<Rightarrow> station" where
  "sid_run c ops s = foldl (\<lambda>s op. sid_apply c op s) s ops"

subsection \<open>StreamingId\<close>

record streaming =
  sm_last_id :: "secs option"
  sm_transmitted :: bool

definition streaming_init :: streaming where
  "streaming_init = \<lparr>sm_last_id = None, sm_transmitted = False\<rparr>"

text \<open>The timer is stamped first and the audio rendered second, as the source does.\<close>

definition sm_render :: "exn + bytes \<Rightarrow> secs \<Rightarrow> (streaming, bytes option) meth" where
  "sm_render audio now s =
     (let s1 = s\<lparr>sm_last_id := Some now\<rparr>
      in (case audio of Inl e \<Rightarrow> Inl e | Inr i \<Rightarrow> Inr (Some i), s1))"

definition key_up_id :: "secs \<Rightarrow> exn + bytes \<Rightarrow> secs \<Rightarrow> (streaming, bytes option) meth" where
  "key_up_id interval audio now s =
     (let s1 = s\<lparr>sm_transmitted := True\<rparr> in
      if id_due interval (sm_last_id s1) now then sm_render audio now s1 else (Inr None, s1))"

definition periodic_id :: "secs \<Rightarrow> exn + bytes \<Rightarrow> secs \<Rightarrow> (streaming, bytes option) meth" where
  "periodic_id interval audio now s =
     (if id_due interval (sm_last_id s) now then sm_render audio now s else (Inr None, s))"

definition sign_off_id :: "secs \<Rightarrow> exn + bytes \<Rightarrow> secs \<Rightarrow> (streaming, bytes option) meth" where
  "sign_off_id interval audio now s =
     (if sm_transmitted s \<and> id_due interval (sm_last_id s) now then sm_render audio now s
      else (Inr None, s))"

subsection \<open>What is on the air is identified\<close>

text \<open>
  \<open>carries i f\<close>: the frame begins with the ID audio \<open>i\<close>. Entry \<open>n\<close> of the air log is identified if
  it carries the ID or an earlier entry less than the interval before it does.
\<close>

definition carries :: "bytes \<Rightarrow> bytes \<Rightarrow> bool" where
  "carries i f = (take (length i) f = i)"

definition identified_at :: "secs \<Rightarrow> bytes \<Rightarrow> (secs \<times> bytes) list \<Rightarrow> nat \<Rightarrow> bool" where
  "identified_at interval i air n \<longleftrightarrow>
     carries i (snd (air ! n)) \<or>
     (\<exists>m < n. carries i (snd (air ! m)) \<and> fst (air ! n) - fst (air ! m) < interval)"

definition sid_inv :: "id_config \<Rightarrow> bytes \<Rightarrow> station \<Rightarrow> bool" where
  "sid_inv c i s \<longleftrightarrow>
     (\<forall>n < length (sid_air s). identified_at (ic_interval c) i (sid_air s) n) \<and>
     (\<forall>t. sid_last_id s = Some t \<longrightarrow>
        (\<exists>m < length (sid_air s). fst (sid_air s ! m) = t \<and> carries i (snd (sid_air s ! m))))"

lemma carries_simps [simp]: "carries i i" "carries i (i @ f)"
  by (simp_all add: carries_def)

lemma identified_at_snoc:
  assumes n: "n < length air" and i: "identified_at d i air n"
  shows "identified_at d i (air @ [x]) n"
proof -
  have e: "m \<le> n \<Longrightarrow> (air @ [x]) ! m = air ! m" for m using n by (simp add: nth_append)
  from i show ?thesis unfolding identified_at_def by (metis e less_imp_le order_refl)
qed

lemma sid_air_snoc:
  assumes inv: "sid_inv c i s"
    and new: "carries i f \<or> (\<exists>t. sid_last_id s = Some t \<and> now - t < ic_interval c)"
  shows "(\<forall>n < length (sid_air s @ [(now, f)]). identified_at (ic_interval c) i (sid_air s @ [(now, f)]) n)"
proof (intro allI impI)
  fix n
  assume n: "n < length (sid_air s @ [(now, f)])"
  show "identified_at (ic_interval c) i (sid_air s @ [(now, f)]) n"
  proof (cases "n < length (sid_air s)")
    case True
    with inv show ?thesis by (simp add: sid_inv_def identified_at_snoc)
  next
    case False
    with n have e: "n = length (sid_air s)" by simp
    from new show ?thesis
    proof
      assume "carries i f"
      then show ?thesis by (simp add: identified_at_def e)
    next
      assume "\<exists>t. sid_last_id s = Some t \<and> now - t < ic_interval c"
      then obtain t where t: "sid_last_id s = Some t" "now - t < ic_interval c" by blast
      from inv have "\<forall>t. sid_last_id s = Some t \<longrightarrow>
          (\<exists>m < length (sid_air s). fst (sid_air s ! m) = t \<and> carries i (snd (sid_air s ! m)))"
        unfolding sid_inv_def by (rule conjunct2)
      with t(1) obtain m where "m < length (sid_air s)" "fst (sid_air s ! m) = t"
        "carries i (snd (sid_air s ! m))" by blast
      with t(2) show ?thesis
        unfolding identified_at_def by (intro disjI2 exI [of _ m]) (simp add: e nth_append)
    qed
  qed
qed

lemma sid_inv_radio:
  assumes inv: "sid_inv c i s"
    and new: "carries i f \<or> (\<exists>t. sid_last_id s = Some t \<and> now - t < ic_interval c)"
    and s': "sid_radio c now f s = (r, s')"
  shows "sid_inv c i s' \<and> (r = Inr () \<longrightarrow> sid_air s' = sid_air s @ [(now, f)]) \<and>
    sid_last_id s' = sid_last_id s \<and> sid_transmitted s' = sid_transmitted s"
proof (cases "ic_fault c (sid_attempts s)")
  case None
  with s' have e: "r = Inr ()" "s' = s\<lparr>sid_attempts := Suc (sid_attempts s), sid_air := sid_air s @ [(now, f)]\<rparr>"
    by (auto simp: sid_radio_def Let_def)
  have "\<exists>m < length (sid_air s @ [(now, f)]). fst ((sid_air s @ [(now, f)]) ! m) = t \<and>
      carries i (snd ((sid_air s @ [(now, f)]) ! m))" if "sid_last_id s = Some t" for t
    using inv that by (fastforce simp: sid_inv_def nth_append)
  with sid_air_snoc [OF inv new] e show ?thesis by (auto simp: sid_inv_def)
next
  case (Some e)
  with s' inv show ?thesis by (auto simp: sid_radio_def Let_def sid_inv_def)
qed

text \<open>After a transmission that carried the ID at \<open>now\<close> the timer may be stamped with \<open>now\<close>.\<close>

lemma sid_inv_stamp:
  assumes "sid_inv c i s" "sid_air s = air @ [(now, f)]" "carries i f"
  shows "sid_inv c i (s\<lparr>sid_last_id := Some now\<rparr>)"
  using assms by (auto simp: sid_inv_def intro!: exI [of _ "length air"])

lemma sid_inv_flags [simp]:
  "sid_inv c i (s\<lparr>sid_transmitted := b\<rparr>) = sid_inv c i s"
  "sid_inv c i (s\<lparr>sid_transmitted := b, sid_last_id := t\<rparr>) = sid_inv c i (s\<lparr>sid_last_id := t\<rparr>)"
  "sid_inv c i s \<Longrightarrow> sid_inv c i (sid_reset s)"
  by (simp_all add: sid_inv_def sid_reset_def)

lemma sid_inv_id_over:
  assumes inv: "sid_inv c i s" and audio: "ic_audio c = Inr i"
    and s': "andthen (sid_id_audio c) (\<lambda>i. sid_radio c now i) s = (r, s')"
  shows "sid_inv c i s' \<and> (r = Inr () \<longrightarrow> sid_inv c i (s'\<lparr>sid_last_id := Some now\<rparr>))"
proof -
  from s' audio have r: "sid_radio c now i s = (r, s')" by (simp add: sid_id_audio_def)
  from sid_inv_radio [OF inv _ this] have "sid_inv c i s'"
    and "r = Inr () \<longrightarrow> sid_air s' = sid_air s @ [(now, i)]" by simp_all
  then show ?thesis using sid_inv_stamp [of c i s' "sid_air s" now i] by simp
qed

lemma sid_inv_transmit [inv_intros]:
  assumes inv: "sid_inv c i s" and audio: "ic_audio c = Inr i"
  shows "sid_inv c i (snd (sid_transmit c a now s))"
proof (cases "id_due (ic_interval c) (sid_last_id s) now")
  case True
  obtain r s' where r: "sid_radio c now (i @ a) s = (r, s')" by fastforce
  from sid_inv_radio [OF inv _ r] have "sid_inv c i s'"
    and "r = Inr () \<longrightarrow> sid_air s' = sid_air s @ [(now, i @ a)]" by simp_all
  with sid_inv_stamp [of c i s' "sid_air s" now "i @ a"] True audio r show ?thesis
    by (cases r) (simp_all add: sid_transmit_def sid_id_audio_def andthen_def)
next
  case False
  then have "\<exists>t. sid_last_id s = Some t \<and> now - t < ic_interval c"
    by (auto simp: id_due_def split: option.splits)
  moreover obtain r s' where r: "sid_radio c now a s = (r, s')" by fastforce
  ultimately have "sid_inv c i s'" using sid_inv_radio [OF inv _ r] by blast
  with False r show ?thesis by (cases r) (simp_all add: sid_transmit_def andthen_def)
qed

lemma sid_inv_only_id [inv_intros]:
  assumes inv: "sid_inv c i s" and audio: "ic_audio c = Inr i"
  shows "sid_inv c i (snd (sid_identify c now s))" "sid_inv c i (snd (sid_check c now s))"
    "sid_inv c i (snd (sid_sign_off c now s))"
proof -
  obtain r s' where r: "sid_radio c now i s = (r, s')" by fastforce
  with audio have "andthen (sid_id_audio c) (\<lambda>i. sid_radio c now i) s = (r, s')"
    by (simp add: sid_id_audio_def)
  note i = sid_inv_id_over [OF inv audio this]
  show "sid_inv c i (snd (sid_identify c now s))"
    using i r audio by (cases r) (auto simp: sid_identify_def sid_id_audio_def andthen_def)
  show "sid_inv c i (snd (sid_check c now s))"
    using i r audio inv by (cases r) (auto simp: sid_check_def sid_id_audio_def andthen_def)
  show "sid_inv c i (snd (sid_sign_off c now s))"
    using i r audio inv by (cases r) (auto simp: sid_sign_off_def sid_id_audio_def andthen_def)
qed

lemma sid_inv_run: "sid_inv c i s \<Longrightarrow> ic_audio c = Inr i \<Longrightarrow> sid_inv c i (sid_run c ops s)"
  unfolding sid_run_def
proof (induction ops arbitrary: s)
  case (Cons op ops)
  then have "sid_inv c i (sid_apply c op s)"
    by (cases op) (auto intro: inv_intros simp: sid_begin_session_def)
  with Cons show ?case by simp
qed simp

lemma sid_inv_init [simp]: "sid_inv c i station_init"
  by (simp add: sid_inv_def station_init_def)

text \<open>An operation that raises changes neither the timer nor the session flag.\<close>

lemma sid_radio_raise:
  "sid_radio c now f s = (Inl e, s') \<Longrightarrow> sid_last_id s' = sid_last_id s \<and> sid_transmitted s' = sid_transmitted s"
  by (auto simp: sid_radio_def Let_def split: option.splits)

lemma sid_fault_keeps:
  "fst (sid_transmit c a now s) = Inl e \<Longrightarrow>
     sid_last_id (snd (sid_transmit c a now s)) = sid_last_id s \<and>
     sid_transmitted (snd (sid_transmit c a now s)) = sid_transmitted s"
  "fst (sid_identify c now s) = Inl e \<Longrightarrow>
     sid_last_id (snd (sid_identify c now s)) = sid_last_id s \<and>
     sid_transmitted (snd (sid_identify c now s)) = sid_transmitted s"
  "fst (sid_check c now s) = Inl e \<Longrightarrow>
     sid_last_id (snd (sid_check c now s)) = sid_last_id s \<and>
     sid_transmitted (snd (sid_check c now s)) = sid_transmitted s"
  "fst (sid_sign_off c now s) = Inl e \<Longrightarrow>
     sid_last_id (snd (sid_sign_off c now s)) = sid_last_id s \<and>
     sid_transmitted (snd (sid_sign_off c now s)) = sid_transmitted s"
  by (auto simp: sid_transmit_def sid_identify_def sid_check_def sid_sign_off_def sid_id_audio_def
      andthen_def Let_def split: prod.splits sum.splits if_splits dest: sid_radio_raise)

subsection \<open>Properties\<close>

text \<open>
  C18. Part 97 for the controller's transmissions: whatever is sent through \<open>StationId\<close>, whatever the
  radio refuses and at whatever times, every frame that goes on the air carries the station ID or is
  preceded on the air by a frame that carries it less than one interval earlier.
\<close>

theorem station_always_identified:
  assumes "ic_audio c = Inr i" and "n < length (sid_air (sid_run c ops station_init))"
  shows "identified_at (ic_interval c) i (sid_air (sid_run c ops station_init)) n"
  using sid_inv_run [OF sid_inv_init assms(1), of ops] assms(2) by (simp add: sid_inv_def)

theorem station_always_identified_witness:
  "identified_at 600 [9] [(0, [9, 1]), (100, [2])] 1"
  using station_always_identified [of "\<lparr>ic_interval = 600, ic_audio = Inr [9], ic_fault = (\<lambda>_. None)\<rparr>"
      "[9]" 1 "[SidTransmit [1] 0, SidTransmit [2] 100]"]
  by (simp add: sid_run_def sid_transmit_def sid_radio_def sid_id_audio_def station_init_def id_due_def)

text \<open>A transmission that fails leaves the ID due: an operation of \<open>StationId\<close> that raises changes
  neither the time of the last ID nor the session flag, so an ID that never went out is never counted.
\<close>

theorem station_fault_keeps_due:
  assumes "s' = snd (sid_transmit c a now s) \<and> fst (sid_transmit c a now s) = Inl e \<or>
      s' = snd (sid_identify c now s) \<and> fst (sid_identify c now s) = Inl e \<or>
      s' = snd (sid_check c now s) \<and> fst (sid_check c now s) = Inl e \<or>
      s' = snd (sid_sign_off c now s) \<and> fst (sid_sign_off c now s) = Inl e"
  shows "sid_last_id s' = sid_last_id s \<and> sid_transmitted s' = sid_transmitted s"
  using assms by (elim disjE conjE) (simp_all add: sid_fault_keeps)

theorem station_fault_keeps_due_witness:
  "sid_last_id (snd (sid_identify \<lparr>ic_interval = 600, ic_audio = Inr [9], ic_fault = (\<lambda>_. Some (Fault 0))\<rparr>
     5 station_init)) = None"
  using station_fault_keeps_due [of "snd (sid_identify
      \<lparr>ic_interval = 600, ic_audio = Inr [9], ic_fault = (\<lambda>_. Some (Fault 0))\<rparr> 5 station_init)"
      "\<lparr>ic_interval = 600, ic_audio = Inr [9], ic_fault = (\<lambda>_. Some (Fault 0))\<rparr>" "[]" 5 station_init "Fault 0"]
  by (simp add: sid_identify_def sid_id_audio_def sid_radio_def station_init_def)

end
