(* ===== verification/Tx.thy ===== *)
theory Tx
  imports Arbiter StationId
begin

section \<open>Streaming transmission: TxSession, TxSlot and the key-up pre-wait\<close>

text \<open>
  \<open>radio_server/tx/session.py\<close> and \<open>tx/lockout.py\<close>. A \<open>TxSession\<close> calls its collaborators (the
  radio, the key-edge callback, the recorder) through \<open>tx_call\<close>, which records the call with the
  clock reading of the operation and lets it succeed or raise as an arbitrary function \<open>fault\<close> of the
  number of the call and the call itself. So every theorem about a session covers every pattern of
  failures. A \<open>ptt\<close> call that raises is taken to have left the line as it was. \<open>BaseException\<close>s that
  are not \<open>Exception\<close>s (an interrupt of the process) are not modelled. The station-ID seam is the
  locale \<open>tx_identifier\<close>, interpreted on \<open>StreamingId\<close>.
\<close>

definition CANONICAL_FRAME_BYTES :: nat where "CANONICAL_FRAME_BYTES = 2"

datatype tx_call =
  CallPtt bool | CallTransmit bytes | CallOnKey bool | CallRecord bytes | CallEndSegment

record 'i tx_session =
  ts_keyed :: bool
  ts_last_active :: "secs option"
  ts_arbiter :: arbiter
  ts_ident :: 'i
  ts_log :: "(secs \<times> tx_call \<times> bool) list"

record 'i tx_config =
  tc_idle_timeout :: secs
  tc_has_on_key :: bool
  tc_station_id :: bool
  tc_key_up_id :: "secs \<Rightarrow> ('i, bytes option) meth"
  tc_periodic_id :: "secs \<Rightarrow> ('i, bytes option) meth"
  tc_sign_off_id :: "secs \<Rightarrow> ('i, bytes option) meth"
  tc_fault :: "nat \<Rightarrow> tx_call \<Rightarrow> exn option"

definition tx_init :: "arbiter \<Rightarrow> 'i \<Rightarrow> 'i tx_session" where
  "tx_init arb ident =
     \<lparr>ts_keyed = False, ts_last_active = None, ts_arbiter = arb, ts_ident = ident, ts_log = []\<rparr>"

definition tx_call :: "'i tx_config \<Rightarrow> secs \<Rightarrow> tx_call \<Rightarrow> ('i tx_session, unit) meth" where
  "tx_call c now call s =
     (case tc_fault c (length (ts_log s)) call of
        None \<Rightarrow> (Inr (), s\<lparr>ts_log := ts_log s @ [(now, call, True)]\<rparr>)
      | Some e \<Rightarrow> (Inl e, s\<lparr>ts_log := ts_log s @ [(now, call, False)]\<rparr>))"

text \<open>A call on the identifier, and the transmission of what it returned.\<close>

definition tx_ident_call ::
  "'i tx_config \<Rightarrow> secs \<Rightarrow> (secs \<Rightarrow> ('i, bytes option) meth) \<Rightarrow> ('i tx_session, unit) meth" where
  "tx_ident_call c now f s =
     (if \<not> tc_station_id c then (Inr (), s)
      else case f now (ts_ident s) of
             (Inl e, i) \<Rightarrow> (Inl e, s\<lparr>ts_ident := i\<rparr>)
           | (Inr None, i) \<Rightarrow> (Inr (), s\<lparr>ts_ident := i\<rparr>)
           | (Inr (Some audio), i) \<Rightarrow> tx_call c now (CallTransmit audio) (s\<lparr>ts_ident := i\<rparr>))"

definition tx_on_key :: "'i tx_config \<Rightarrow> secs \<Rightarrow> bool \<Rightarrow> ('i tx_session, unit) meth" where
  "tx_on_key c now b = (if tc_has_on_key c then tx_call c now (CallOnKey b) else returning ())"

definition tx_acquire :: "('i tx_session, unit) meth" where
  "tx_acquire s = (let (r, a) = acquire_tx (ts_arbiter s) in (r, s\<lparr>ts_arbiter := a\<rparr>))"

definition tx_release :: "('i tx_session, unit) meth" where
  "tx_release = modifying (\<lambda>s. s\<lparr>ts_arbiter := release_tx (ts_arbiter s)\<rparr>)"

definition tx_close :: "'i tx_config \<Rightarrow> secs \<Rightarrow> ('i tx_session, unit) meth" where
  "tx_close c now s =
     (if ts_keyed s then
        andthen (guarded (tx_ident_call c now (tc_sign_off_id c)))
          (\<lambda>_. andthen (tx_call c now (CallPtt False))
          (\<lambda>_. andthen (modifying (\<lambda>s. s\<lparr>ts_keyed := False\<rparr>))
          (\<lambda>_. andthen (tx_on_key c now False)
          (\<lambda>_. andthen tx_release
          (\<lambda>_. guarded (tx_call c now CallEndSegment)))))) s
      else (Inr (), s))"

definition tx_key_up :: "'i tx_config \<Rightarrow> secs \<Rightarrow> ('i tx_session, unit) meth" where
  "tx_key_up c now =
     andthen tx_acquire
       (\<lambda>_. andthen (catching (tx_call c now (CallPtt True))
               (\<lambda>e. andthen (guarded tx_release) (\<lambda>_. raising e)))
       (\<lambda>_. andthen (modifying (\<lambda>s. s\<lparr>ts_keyed := True\<rparr>))
       (\<lambda>_. catching (andthen (tx_on_key c now True) (\<lambda>_. tx_ident_call c now (tc_key_up_id c)))
              (\<lambda>e. andthen (guarded (tx_close c now)) (\<lambda>_. raising e)))))"

definition tx_feed :: "'i tx_config \<Rightarrow> bytes \<Rightarrow> secs \<Rightarrow> ('i tx_session, unit) meth" where
  "tx_feed c data now s =
     (if length data mod CANONICAL_FRAME_BYTES \<noteq> 0 then (Inl AudioFormatMismatch, s)
      else if data = [] then (Inr (), s)
      else andthen (if \<not> ts_keyed s then tx_key_up c now else tx_ident_call c now (tc_periodic_id c))
             (\<lambda>_. andthen (tx_call c now (CallTransmit data))
             (\<lambda>_. andthen (modifying (\<lambda>s. s\<lparr>ts_last_active := Some now\<rparr>))
             (\<lambda>_. guarded (tx_call c now (CallRecord data))))) s)"

definition tx_touch :: "secs \<Rightarrow> 'i tx_session \<Rightarrow> 'i tx_session" where
  "tx_touch now s = (if ts_keyed s then s\<lparr>ts_last_active := Some now\<rparr> else s)"

definition idle_elapsed :: "'i tx_config \<Rightarrow> secs \<Rightarrow> 'i tx_session \<Rightarrow> bool" where
  "idle_elapsed c now s =
     (case ts_last_active s of
        None \<Rightarrow> False
      | Some t \<Rightarrow> ts_keyed s \<and> tc_idle_timeout c \<le> now - t)"

definition tx_on_idle :: "'i tx_config \<Rightarrow> secs \<Rightarrow> ('i tx_session, bool) meth" where
  "tx_on_idle c now s =
     (if idle_elapsed c now s then andthen (tx_close c now) (\<lambda>_. returning True) s else (Inr False, s))"

datatype tx_op = TxFeed bytes secs | TxTouch secs | TxOnIdle secs | TxClose secs

fun tx_apply :: "'i tx_config \<Rightarrow> tx_op \<Rightarrow> 'i tx_session \<Rightarrow> 'i tx_session" where
  "tx_apply c (TxFeed data now) s = snd (tx_feed c data now s)"
| "tx_apply c (TxTouch now) s = tx_touch now s"
| "tx_apply c (TxOnIdle now) s = snd (tx_on_idle c now s)"
| "tx_apply c (TxClose now) s = snd (tx_close c now s)"

definition tx_run :: "'i tx_config \<Rightarrow> tx_op list \<Rightarrow> 'i tx_session \<Rightarrow> 'i tx_session" where
  "tx_run c ops s = foldl (\<lambda>s op. tx_apply c op s) s ops"

lemma arbiter_init_free: "\<not> ab_transmitting (arbiter_init w)"
  by (simp add: arbiter_init_def)

subsection \<open>The line, and what is sent while it is up\<close>

definition line_after :: "bool \<Rightarrow> secs \<times> tx_call \<times> bool \<Rightarrow> bool" where
  "line_after up entry =
     (case entry of (_, CallPtt b, True) \<Rightarrow> b | _ \<Rightarrow> up)"

definition line_up :: "(secs \<times> tx_call \<times> bool) list \<Rightarrow> bool" where
  "line_up calls = foldl line_after False calls"

text \<open>Every transmission in the log was made with the line up.\<close>

fun only_keyed :: "bool \<Rightarrow> (secs \<times> tx_call \<times> bool) list \<Rightarrow> bool" where
  "only_keyed up [] = True"
| "only_keyed up (x # xs) =
     ((case x of (_, CallTransmit _, _) \<Rightarrow> up | _ \<Rightarrow> True) \<and> only_keyed (line_after up x) xs)"

lemma line_up_append [simp]: "line_up (l @ xs) = foldl line_after (line_up l) xs"
  by (simp add: line_up_def)

lemma only_keyed_append_gen:
  "only_keyed up (l @ xs) \<longleftrightarrow> only_keyed up l \<and> only_keyed (foldl line_after up l) xs"
  by (induction l arbitrary: up) auto

lemma only_keyed_append [simp]:
  "only_keyed False (l @ xs) \<longleftrightarrow> only_keyed False l \<and> only_keyed (line_up l) xs"
  by (simp add: only_keyed_append_gen line_up_def)

lemma line_after_simps [simp]:
  "line_after up (t, CallPtt b, ok) = (if ok then b else up)"
  "line_after up (t, CallTransmit a, ok) = up"
  "line_after up (t, CallOnKey b, ok) = up"
  "line_after up (t, CallRecord a, ok) = up"
  "line_after up (t, CallEndSegment, ok) = up"
  by (simp_all add: line_after_def)

lemma line_up_Nil [simp]: "line_up [] = False"
  by (simp add: line_up_def)

definition tx_inv :: "'i tx_session \<Rightarrow> bool" where
  "tx_inv s \<longleftrightarrow>
     ts_keyed s = line_up (ts_log s) \<and> ts_keyed s = ab_transmitting (ts_arbiter s) \<and>
     only_keyed False (ts_log s)"

lemma tx_inv_simps [simp]:
  "tx_inv (s\<lparr>ts_ident := x\<rparr>) = tx_inv s"
  "tx_inv (s\<lparr>ts_last_active := t\<rparr>) = tx_inv s"
  by (simp_all add: tx_inv_def)

text \<open>The key-edge publisher never raises: \<open>create_app\<close> wires one that swallows its own faults.\<close>

definition on_key_safe :: "'i tx_config \<Rightarrow> bool" where
  "on_key_safe c \<longleftrightarrow> (\<forall>n b. tc_fault c n (CallOnKey b) = None)"

text \<open>Calls that leave the line alone keep the invariant of a keyed session.\<close>

lemma tx_call_inv:
  assumes "tx_inv s" "ts_keyed s \<or> (\<forall>a. call \<noteq> CallTransmit a)" "\<forall>b. call \<noteq> CallPtt b"
  shows "tx_inv (snd (tx_call c now call s)) \<and> ts_keyed (snd (tx_call c now call s)) = ts_keyed s \<and>
    ts_arbiter (snd (tx_call c now call s)) = ts_arbiter s"
  using assms
  by (cases call; cases "tc_fault c (length (ts_log s)) call") (simp_all add: tx_call_def tx_inv_def)

lemma tx_ident_inv:
  assumes "tx_inv s" "ts_keyed s"
  shows "tx_inv (snd (tx_ident_call c now f s)) \<and> ts_keyed (snd (tx_ident_call c now f s)) \<and>
    ts_arbiter (snd (tx_ident_call c now f s)) = ts_arbiter s"
proof -
  have i: "tx_inv (s\<lparr>ts_ident := x\<rparr>)" "ts_keyed (s\<lparr>ts_ident := x\<rparr>)" for x
    using assms by simp_all
  have "tx_inv (snd (tx_call c now (CallTransmit a) (s\<lparr>ts_ident := x\<rparr>))) \<and>
      ts_keyed (snd (tx_call c now (CallTransmit a) (s\<lparr>ts_ident := x\<rparr>))) \<and>
      ts_arbiter (snd (tx_call c now (CallTransmit a) (s\<lparr>ts_ident := x\<rparr>))) = ts_arbiter s" for a x
    using tx_call_inv [OF i(1), of x "CallTransmit a" c now] i(2) by simp
  then show ?thesis
    using assms by (auto simp: tx_ident_call_def split: prod.splits sum.splits option.splits)
qed

lemma release_transmitting [simp]: "\<not> ab_transmitting (release_tx a)"
  by (simp add: release_tx_def arb_notify_def Let_def)

lemma acquire_transmitting:
  "\<not> ab_transmitting a \<Longrightarrow>
     acquire_tx a = (Inr (), snd (acquire_tx a)) \<and> ab_transmitting (snd (acquire_tx a))"
  by (simp add: acquire_tx_def arb_notify_def Let_def)

lemma tx_close_inv [inv_intros]:
  assumes inv: "tx_inv s" and safe: "on_key_safe c"
  shows "tx_inv (snd (tx_close c now s)) \<and>
    (fst (tx_close c now s) = Inr () \<longrightarrow> \<not> ts_keyed (snd (tx_close c now s))) \<and>
    ((\<forall>n. tc_fault c n (CallPtt False) = None) \<longrightarrow> fst (tx_close c now s) = Inr ())"
proof (cases "ts_keyed s")
  case False
  with inv show ?thesis by (simp add: tx_close_def)
next
  case True
  define s1 where "s1 = snd (tx_ident_call c now (tc_sign_off_id c) s)"
  from tx_ident_inv [OF inv True] have s1: "tx_inv s1" "ts_keyed s1" by (simp_all add: s1_def)
  show ?thesis
  proof (cases "tc_fault c (length (ts_log s1)) (CallPtt False)")
    case (Some e)
    then have "tx_close c now s = (Inl e, s1\<lparr>ts_log := ts_log s1 @ [(now, CallPtt False, False)]\<rparr>)"
      using True by (simp add: tx_close_def s1_def [symmetric] tx_call_def)
    with s1 Some show ?thesis by (auto simp: tx_inv_def)
  next
    case None
    define s2 where "s2 = s1\<lparr>ts_log := ts_log s1 @ [(now, CallPtt False, True)], ts_keyed := False\<rparr>"
    have "fst (tx_on_key c now False s2) = Inr ()"
      using safe by (simp add: tx_on_key_def tx_call_def on_key_safe_def)
    then obtain s3 where s3: "tx_on_key c now False s2 = (Inr (), s3)"
      by (metis prod.collapse)
    then have l3: "ts_log s3 = ts_log s2 \<or> ts_log s3 = ts_log s2 @ [(now, CallOnKey False, True)]"
      and k3: "\<not> ts_keyed s3"
      using safe by (auto simp: tx_on_key_def tx_call_def on_key_safe_def s2_def split: if_splits)
    define s4 where "s4 = s3\<lparr>ts_arbiter := release_tx (ts_arbiter s3)\<rparr>"
    have "tx_inv s4"
      using s1 l3 k3 by (auto simp: tx_inv_def s4_def s2_def)
    moreover have "tx_close c now s = guarded (tx_call c now CallEndSegment) s4"
      using True None s3
      by (simp add: tx_close_def s1_def [symmetric] tx_call_def s2_def s4_def tx_release_def)
    moreover have "\<not> ts_keyed s4" using k3 by (simp add: s4_def)
    ultimately show ?thesis
      using tx_call_inv [of s4 CallEndSegment c now] by (simp add: guarded_apply)
  qed
qed

lemma tx_key_up_inv [inv_intros]:
  assumes inv: "tx_inv s" and unkeyed: "\<not> ts_keyed s" and safe: "on_key_safe c"
  shows "tx_inv (snd (tx_key_up c now s)) \<and>
    (fst (tx_key_up c now s) = Inr () \<longrightarrow> ts_keyed (snd (tx_key_up c now s))) \<and>
    ((\<forall>n. tc_fault c n (CallPtt False) = None) \<and> fst (tx_key_up c now s) \<noteq> Inr () \<longrightarrow>
       \<not> ts_keyed (snd (tx_key_up c now s)))"
proof -
  define s1 where "s1 = s\<lparr>ts_arbiter := snd (acquire_tx (ts_arbiter s))\<rparr>"
  from inv unkeyed have na: "\<not> ab_transmitting (ts_arbiter s)" by (simp add: tx_inv_def)
  then have a: "tx_acquire s = (Inr (), s1)"
    using acquire_transmitting [OF na] by (cases "acquire_tx (ts_arbiter s)") (simp add: tx_acquire_def s1_def)
  have k1: "\<not> ts_keyed s1" "ab_transmitting (ts_arbiter s1)" "ts_log s1 = ts_log s"
    using unkeyed acquire_transmitting [OF na] by (simp_all add: s1_def)
  show ?thesis
  proof (cases "tc_fault c (length (ts_log s1)) (CallPtt True)")
    case (Some e)
    then have "tx_key_up c now s = (Inl e, s1\<lparr>ts_log := ts_log s1 @ [(now, CallPtt True, False)],
        ts_arbiter := release_tx (ts_arbiter s1)\<rparr>)"
      using a by (simp add: tx_key_up_def tx_call_def tx_release_def catching_def andthen_def
          guarded_apply)
    with inv k1 unkeyed show ?thesis by (auto simp: tx_inv_def)
  next
    case None
    define s2 where "s2 = s1\<lparr>ts_log := ts_log s1 @ [(now, CallPtt True, True)], ts_keyed := True\<rparr>"
    have s2: "tx_inv s2" "ts_keyed s2"
      using inv k1 by (auto simp: tx_inv_def s2_def)
    let ?m = "andthen (tx_on_key c now True) (\<lambda>_. tx_ident_call c now (tc_key_up_id c))"
    have k: "tx_key_up c now s =
        catching ?m (\<lambda>e. andthen (guarded (tx_close c now)) (\<lambda>_. raising e)) s2"
      using a None by (simp add: tx_key_up_def tx_call_def s2_def catching_def [of "tx_call c now (CallPtt True)" for c now])
    obtain s3 where s3: "tx_on_key c now True s2 = (Inr (), s3)" "tx_inv s3" "ts_keyed s3"
      using safe s2 tx_call_inv [OF s2(1), of "CallOnKey True" c now]
      by (cases "tc_has_on_key c") (auto simp: tx_on_key_def tx_call_def on_key_safe_def)
    obtain r s4 where s4: "tx_ident_call c now (tc_key_up_id c) s3 = (r, s4)" by fastforce
    with tx_ident_inv [OF s3(2,3), of c now "tc_key_up_id c"] have i4: "tx_inv s4" "ts_keyed s4" by simp_all
    from s3(1) s4 have m: "?m s2 = (r, s4)" by simp
    show ?thesis
    proof (cases r)
      case (Inr u)
      with m i4 k show ?thesis by simp
    next
      case (Inl e)
      with m k have "tx_key_up c now s = (Inl e, snd (tx_close c now s4))" by (simp add: guarded_apply)
      with tx_close_inv [OF i4(1) safe, of now] show ?thesis by auto
    qed
  qed
qed

lemma tx_feed_inv [inv_intros]:
  assumes inv: "tx_inv s" and safe: "on_key_safe c"
  shows "tx_inv (snd (tx_feed c data now s))"
proof -
  let ?k = "if \<not> ts_keyed s then tx_key_up c now else tx_ident_call c now (tc_periodic_id c)"
  obtain r s1 where s1: "?k s = (r, s1)" by fastforce
  have i1: "tx_inv s1" "r = Inr () \<Longrightarrow> ts_keyed s1"
    using tx_key_up_inv [OF inv _ safe, of now] tx_ident_inv [OF inv, of c now "tc_periodic_id c"] s1
    by (cases "ts_keyed s"; force)+
  have rest: "tx_inv (snd (andthen (tx_call c now (CallTransmit data))
      (\<lambda>_. andthen (modifying (\<lambda>s. s\<lparr>ts_last_active := Some now\<rparr>))
      (\<lambda>_. guarded (tx_call c now (CallRecord data)))) s1))" if k: "ts_keyed s1"
  proof -
    obtain q s2 where s2: "tx_call c now (CallTransmit data) s1 = (q, s2)" by fastforce
    with tx_call_inv [OF i1(1), of "CallTransmit data" c now] k have i2: "tx_inv s2" by auto
    then have "tx_inv (s2\<lparr>ts_last_active := Some now\<rparr>)" by simp
    from tx_call_inv [OF this, of "CallRecord data" c now] i2 s2 show ?thesis
      by (cases q) (auto simp: guarded_apply andthen_def)
  qed
  show ?thesis
    using inv i1 rest s1 by (cases r) (auto simp: tx_feed_def andthen_def [of ?k])
qed

lemma tx_apply_inv: "tx_inv s \<Longrightarrow> on_key_safe c \<Longrightarrow> tx_inv (tx_apply c op s)"
proof (cases op)
  case (TxOnIdle now)
  assume "tx_inv s" "on_key_safe c"
  with TxOnIdle tx_close_inv [of s c now] show ?thesis
    by (auto simp: tx_on_idle_def andthen_def split: prod.splits sum.splits)
qed (simp_all add: tx_feed_inv tx_close_inv tx_touch_def)

lemma tx_run_inv: "tx_inv s \<Longrightarrow> on_key_safe c \<Longrightarrow> tx_inv (tx_run c ops s)"
  unfolding tx_run_def by (induction ops arbitrary: s) (simp_all add: tx_apply_inv)

lemma tx_init_inv [simp]: "\<not> ab_transmitting arb \<Longrightarrow> tx_inv (tx_init arb ident)"
  by (simp add: tx_inv_def tx_init_def)

subsection \<open>The station-ID seam\<close>

text \<open>
  Entry \<open>k\<close> of the log is covered if it is not a transmission that went out, or it is the ID audio,
  or the ID audio went out less than an interval
  earlier (or at the same clock reading).
\<close>

definition entry_covered ::
  "secs \<Rightarrow> bytes \<Rightarrow> (secs \<times> tx_call \<times> bool) list \<Rightarrow> secs \<times> tx_call \<times> bool \<Rightarrow> bool" where
  "entry_covered interval i before x =
     (case x of
        (now, CallTransmit a, True) \<Rightarrow>
          a = i \<or>
          (\<exists>t. (t, CallTransmit i, True) \<in> set before \<and> (now - t < interval \<or> now = t))
      | _ \<Rightarrow> True)"

definition covered :: "secs \<Rightarrow> bytes \<Rightarrow> (secs \<times> tx_call \<times> bool) list \<Rightarrow> bool" where
  "covered interval i l \<longleftrightarrow> (\<forall>k < length l. entry_covered interval i (take k l) (l ! k))"

lemma covered_Nil [simp]: "covered d i []"
  by (simp add: covered_def)

lemma covered_snoc [simp]: "covered d i (l @ [x]) \<longleftrightarrow> covered d i l \<and> entry_covered d i l x"
  by (auto simp: covered_def less_Suc_eq nth_append)

text \<open>
  What \<open>TxSession\<close> relies on: an identifier that returns no audio at key-up or mid-over has identified
  less than an interval ago, and the time it remembers is that of the last audio it returned.
\<close>

locale tx_identifier =
  fixes kup per soff :: "secs \<Rightarrow> ('i, bytes option) meth"
    and last_id :: "'i \<Rightarrow> secs option"
    and interval :: secs
    and id_audio :: bytes
  assumes kup_law: "kup now i = (r, i') \<Longrightarrow>
      (r = Inr (Some id_audio) \<and> last_id i' = Some now) \<or>
      (r = Inr None \<and> last_id i' = last_id i \<and> (\<exists>t. last_id i = Some t \<and> now - t < interval))"
    and per_law: "per now i = (r, i') \<Longrightarrow>
      (r = Inr (Some id_audio) \<and> last_id i' = Some now) \<or>
      (r = Inr None \<and> last_id i' = last_id i \<and> (\<exists>t. last_id i = Some t \<and> now - t < interval))"
    and soff_law: "soff now i = (r, i') \<Longrightarrow>
      (r = Inr (Some id_audio) \<and> last_id i' = Some now) \<or> (r = Inr None \<and> last_id i' = last_id i)"
begin

definition id_inv :: "'i tx_session \<Rightarrow> bool" where
  "id_inv s \<longleftrightarrow> covered interval id_audio (ts_log s) \<and>
     (\<forall>t. last_id (ts_ident s) = Some t \<longrightarrow> (t, CallTransmit id_audio, True) \<in> set (ts_log s))"

definition recent :: "secs \<Rightarrow> 'i tx_session \<Rightarrow> bool" where
  "recent now s \<longleftrightarrow> (\<exists>t. last_id (ts_ident s) = Some t \<and> (now - t < interval \<or> now = t))"

definition uses :: "'i tx_config \<Rightarrow> bool" where
  "uses c \<longleftrightarrow> tc_station_id c \<and> tc_key_up_id c = kup \<and> tc_periodic_id c = per \<and>
     tc_sign_off_id c = soff \<and> (\<forall>n a. tc_fault c n (CallTransmit a) = None)"

lemma id_inv_simps [simp]:
  "id_inv (s\<lparr>ts_keyed := b\<rparr>) = id_inv s" "id_inv (s\<lparr>ts_arbiter := a\<rparr>) = id_inv s"
  "id_inv (s\<lparr>ts_last_active := t\<rparr>) = id_inv s"
  "recent now (s\<lparr>ts_keyed := b\<rparr>) = recent now s" "recent now (s\<lparr>ts_arbiter := a\<rparr>) = recent now s"
  by (simp_all add: id_inv_def recent_def)

lemma id_call:
  assumes inv: "id_inv s" and ok: "\<And>a. call = CallTransmit a \<Longrightarrow> recent now s"
  shows "id_inv (snd (tx_call c now call s)) \<and> ts_ident (snd (tx_call c now call s)) = ts_ident s"
proof -
  have "entry_covered interval id_audio (ts_log s) (now, call, ok')" for ok'
    using inv ok by (cases call; cases ok') (auto simp: entry_covered_def id_inv_def recent_def)
  with inv show ?thesis by (auto simp: tx_call_def id_inv_def split: option.splits)
qed

lemma id_render:
  assumes u: "uses c" and inv: "id_inv s" and l: "last_id i = Some now"
  shows "id_inv (snd (tx_call c now (CallTransmit id_audio) (s\<lparr>ts_ident := i\<rparr>))) \<and>
    recent now (snd (tx_call c now (CallTransmit id_audio) (s\<lparr>ts_ident := i\<rparr>)))"
  using assms
  by (auto simp: tx_call_def uses_def id_inv_def recent_def entry_covered_def)

lemma id_ident_due:
  assumes u: "uses c" and inv: "id_inv s" and m: "m = kup \<or> m = per"
  shows "id_inv (snd (tx_ident_call c now m s)) \<and> recent now (snd (tx_ident_call c now m s))"
proof -
  obtain r i where ri: "m now (ts_ident s) = (r, i)" by fastforce
  from m kup_law per_law ri
  have "(r = Inr (Some id_audio) \<and> last_id i = Some now) \<or>
    (r = Inr None \<and> last_id i = last_id (ts_ident s) \<and>
      (\<exists>t. last_id (ts_ident s) = Some t \<and> now - t < interval))" by blast
  then show ?thesis
  proof
    assume "r = Inr (Some id_audio) \<and> last_id i = Some now"
    with id_render [OF u inv, of i now] u ri show ?thesis
      by (simp add: tx_ident_call_def uses_def)
  next
    assume "r = Inr None \<and> last_id i = last_id (ts_ident s) \<and>
      (\<exists>t. last_id (ts_ident s) = Some t \<and> now - t < interval)"
    with u inv ri show ?thesis
      by (auto simp: tx_ident_call_def uses_def id_inv_def recent_def)
  qed
qed

lemma id_sign_off:
  assumes u: "uses c" and inv: "id_inv s"
  shows "id_inv (snd (tx_ident_call c now soff s))"
proof -
  obtain r i where ri: "soff now (ts_ident s) = (r, i)" by fastforce
  from soff_law [OF ri] show ?thesis
  proof
    assume "r = Inr (Some id_audio) \<and> last_id i = Some now"
    with id_render [OF u inv, of i now] u ri show ?thesis
      by (simp add: tx_ident_call_def uses_def)
  next
    assume "r = Inr None \<and> last_id i = last_id (ts_ident s)"
    with u inv ri show ?thesis by (auto simp: tx_ident_call_def uses_def id_inv_def)
  qed
qed

lemma id_pair: "m s = (r, s') \<Longrightarrow> id_inv (snd (m s)) \<Longrightarrow> id_inv s'"
  by simp

lemma id_close: "uses c \<Longrightarrow> id_inv s \<Longrightarrow> id_inv (snd (tx_close c now s))"
proof (cases "ts_keyed s")
  case True
  assume u: "uses c" and inv: "id_inv s"
  define s1 where "s1 = snd (tx_ident_call c now (tc_sign_off_id c) s)"
  have i1: "id_inv s1" using id_sign_off [OF u inv] u by (simp add: s1_def uses_def)
  obtain r2 s2 where s2: "tx_call c now (CallPtt False) s1 = (r2, s2)" by fastforce
  with id_call [OF i1, of "CallPtt False" now c] have i2: "id_inv s2" by simp
  then have i2': "id_inv (s2\<lparr>ts_keyed := False\<rparr>)" by simp
  obtain r3 s3 where s3: "tx_on_key c now False (s2\<lparr>ts_keyed := False\<rparr>) = (r3, s3)" by fastforce
  with id_call [OF i2', of "CallOnKey False" now c] i2' have i3: "id_inv s3"
    by (cases "tc_has_on_key c") (auto simp: tx_on_key_def)
  then have "id_inv (s3\<lparr>ts_arbiter := release_tx (ts_arbiter s3)\<rparr>)" by simp
  from id_call [OF this, of CallEndSegment now c] i2 i3 s2 s3 True show ?thesis
    by (cases r2; cases r3)
      (simp_all add: tx_close_def s1_def [symmetric] andthen_def guarded_apply tx_release_def)
qed (simp add: tx_close_def)

lemma id_key_up:
  assumes u: "uses c" and inv: "id_inv s"
  shows "id_inv (snd (tx_key_up c now s)) \<and>
    (fst (tx_key_up c now s) = Inr () \<longrightarrow> recent now (snd (tx_key_up c now s)))"
proof -
  obtain r1 s1 where s1: "tx_acquire s = (r1, s1)" by fastforce
  with inv have i1: "id_inv s1" by (auto simp: tx_acquire_def Let_def split: prod.splits)
  obtain r2 s2 where s2: "tx_call c now (CallPtt True) s1 = (r2, s2)" by fastforce
  with id_call [OF i1, of "CallPtt True" now c] have i2: "id_inv s2" by simp
  then have i2': "id_inv (s2\<lparr>ts_keyed := True\<rparr>)" by simp
  obtain r3 s3 where s3: "tx_on_key c now True (s2\<lparr>ts_keyed := True\<rparr>) = (r3, s3)" by fastforce
  with id_call [OF i2', of "CallOnKey True" now c] i2' have i3: "id_inv s3"
    by (cases "tc_has_on_key c") (auto simp: tx_on_key_def)
  obtain r4 s4 where s4: "tx_ident_call c now (tc_key_up_id c) s3 = (r4, s4)" by fastforce
  with id_ident_due [OF u i3, of kup now] u have i4: "id_inv s4" "recent now s4"
    by (auto simp: uses_def)
  show ?thesis
    using s1 s2 s3 s4 i1 i2 i3 i4 id_close [OF u i4(1), of now] id_close [OF u i3, of now]
    by (cases r1; cases r2; cases r3; cases r4)
      (simp_all add: tx_key_up_def andthen_def catching_def guarded_apply tx_release_def)
qed

lemma id_feed:
  assumes u: "uses c" and inv: "id_inv s"
  shows "id_inv (snd (tx_feed c data now s))"
proof -
  let ?k = "if \<not> ts_keyed s then tx_key_up c now else tx_ident_call c now (tc_periodic_id c)"
  obtain r1 s1 where s1: "?k s = (r1, s1)" by fastforce
  have i1: "id_inv s1" "r1 = Inr () \<longrightarrow> recent now s1"
    using id_key_up [OF u inv, of now] id_ident_due [OF u inv, of per now] s1 u
    by (cases "ts_keyed s"; force simp: uses_def)+
  show ?thesis
  proof (cases "r1 = Inr ()")
    case False
    with i1 inv s1 show ?thesis by (cases r1) (auto simp: tx_feed_def andthen_def [of ?k])
  next
    case True
    obtain r2 s2 where s2: "tx_call c now (CallTransmit data) s1 = (r2, s2)" by fastforce
    with id_call [OF i1(1), of "CallTransmit data" now c] i1(2) True have i2: "id_inv s2" by auto
    then have "id_inv (s2\<lparr>ts_last_active := Some now\<rparr>)" by simp
    from id_call [OF this, of "CallRecord data" now c] i2 inv s1 s2 True show ?thesis
      by (cases r2) (auto simp: tx_feed_def andthen_def guarded_apply)
  qed
qed

lemma id_apply: "uses c \<Longrightarrow> id_inv s \<Longrightarrow> id_inv (tx_apply c op s)"
proof (cases op)
  case (TxOnIdle now)
  assume "uses c" "id_inv s"
  with TxOnIdle id_close [of c s now] show ?thesis
    by (auto simp: tx_on_idle_def andthen_def split: prod.splits sum.splits)
qed (simp_all add: id_feed id_close tx_touch_def)

lemma id_run: "uses c \<Longrightarrow> id_inv s \<Longrightarrow> id_inv (tx_run c ops s)"
  unfolding tx_run_def by (induction ops arbitrary: s) (simp_all add: id_apply)

lemma always_covered:
  assumes "uses c" "last_id ident = None"
  shows "covered interval id_audio (ts_log (tx_run c ops (tx_init arb ident)))"
proof -
  have "id_inv (tx_init arb ident)" using assms(2) by (simp add: id_inv_def tx_init_def)
  from id_run [OF assms(1) this, of ops] show ?thesis by (simp add: id_inv_def)
qed

end

lemma streaming_laws:
  "key_up_id d (Inr i) now s = (r, s') \<Longrightarrow>
     (r = Inr (Some i) \<and> sm_last_id s' = Some now) \<or>
     (r = Inr None \<and> sm_last_id s' = sm_last_id s \<and> (\<exists>t. sm_last_id s = Some t \<and> now - t < d))"
  "periodic_id d (Inr i) now s = (r, s') \<Longrightarrow>
     (r = Inr (Some i) \<and> sm_last_id s' = Some now) \<or>
     (r = Inr None \<and> sm_last_id s' = sm_last_id s \<and> (\<exists>t. sm_last_id s = Some t \<and> now - t < d))"
  "sign_off_id d (Inr i) now s = (r, s') \<Longrightarrow>
     (r = Inr (Some i) \<and> sm_last_id s' = Some now) \<or> (r = Inr None \<and> sm_last_id s' = sm_last_id s)"
  by (auto simp: key_up_id_def periodic_id_def sign_off_id_def sm_render_def id_due_def Let_def
      split: if_splits option.splits)

interpretation streaming: tx_identifier "key_up_id interval (Inr i)" "periodic_id interval (Inr i)"
  "sign_off_id interval (Inr i)" sm_last_id interval i for interval i
  by unfold_locales (use streaming_laws in blast)+

text \<open>A session wired to \<open>StreamingId\<close>.\<close>

definition streaming_config ::
  "secs \<Rightarrow> secs \<Rightarrow> bool \<Rightarrow> exn + bytes \<Rightarrow> (nat \<Rightarrow> tx_call \<Rightarrow> exn option) \<Rightarrow> streaming tx_config" where
  "streaming_config idle_timeout interval has_on_key audio fault =
     \<lparr>tc_idle_timeout = idle_timeout, tc_has_on_key = has_on_key, tc_station_id = True,
      tc_key_up_id = key_up_id interval audio, tc_periodic_id = periodic_id interval audio,
      tc_sign_off_id = sign_off_id interval audio, tc_fault = fault\<rparr>"

subsection \<open>TxSlot\<close>

record tx_slot =
  sl_occupied :: bool
  sl_holder :: "string option"
  sl_acquired_at :: "secs option"
  sl_refused :: "string \<Rightarrow> nat option"

definition slot_init :: tx_slot where
  "slot_init = \<lparr>sl_occupied = False, sl_holder = None, sl_acquired_at = None, sl_refused = Map.empty\<rparr>"

text \<open>\<open>holder or "unknown"\<close>: an absent or empty label.\<close>

definition slot_label :: "string option \<Rightarrow> string" where
  "slot_label holder = (case holder of None \<Rightarrow> ''unknown'' | Some l \<Rightarrow> if l = [] then ''unknown'' else l)"

definition try_acquire :: "string option \<Rightarrow> secs \<Rightarrow> tx_slot \<Rightarrow> bool \<times> tx_slot" where
  "try_acquire holder now s =
     (if sl_occupied s then
        (let l = slot_label holder; n = (case sl_refused s l of None \<Rightarrow> 0 | Some n \<Rightarrow> n) in
         (False, s\<lparr>sl_refused := (sl_refused s)(l \<mapsto> n + 1)\<rparr>))
      else (True, s\<lparr>sl_occupied := True, sl_holder := holder, sl_acquired_at := Some now\<rparr>))"

definition slot_release :: "tx_slot \<Rightarrow> tx_slot" where
  "slot_release s = s\<lparr>sl_occupied := False, sl_holder := None, sl_acquired_at := None\<rparr>"

definition slot_held_s :: "secs \<Rightarrow> tx_slot \<Rightarrow> secs option" where
  "slot_held_s now s = (case sl_acquired_at s of None \<Rightarrow> None | Some t \<Rightarrow> Some (now - t))"

datatype slot_op = SlotTry "string option" secs | SlotRelease

text \<open>Runs a sequence; the list has the answer of every claim.\<close>

fun slot_run :: "tx_slot \<Rightarrow> slot_op list \<Rightarrow> (string option \<times> bool) list \<times> tx_slot" where
  "slot_run s [] = ([], s)"
| "slot_run s (SlotTry h t # ops) =
     (let (ok, s1) = try_acquire h t s; (rs, s2) = slot_run s1 ops in ((h, ok) # rs, s2))"
| "slot_run s (SlotRelease # ops) = slot_run (slot_release s) ops"

definition refusals :: "string \<Rightarrow> (string option \<times> bool) list \<Rightarrow> nat" where
  "refusals l rs = length (filter (\<lambda>(h, ok). \<not> ok \<and> slot_label h = l) rs)"

definition grants :: "(string option \<times> bool) list \<Rightarrow> nat" where
  "grants rs = length (filter snd rs)"

lemma slot_run_refused:
  "slot_run s ops = (rs, s') \<Longrightarrow>
     sl_refused s' l = (if sl_refused s l = None \<and> refusals l rs = 0 then None
       else Some ((case sl_refused s l of None \<Rightarrow> 0 | Some n \<Rightarrow> n) + refusals l rs))"
proof (induction s ops arbitrary: rs rule: slot_run.induct)
  case (2 s h t ops)
  obtain ok s1 where a: "try_acquire h t s = (ok, s1)" by fastforce
  obtain rs1 where b: "slot_run s1 ops = (rs1, s')" "rs = (h, ok) # rs1"
    using "2.prems" a by (auto split: prod.splits)
  from "2.IH" [OF a [symmetric] refl b(1)] a b(2) show ?case
    by (auto simp: try_acquire_def refusals_def Let_def split: if_splits option.splits)
qed (auto simp: refusals_def slot_release_def split: option.splits)

lemma slot_run_grants:
  "slot_run s ops = (rs, s') \<Longrightarrow>
     grants rs + of_bool (sl_occupied s) \<le> length (filter (\<lambda>op. op = SlotRelease) ops) + 1"
proof (induction s ops arbitrary: rs rule: slot_run.induct)
  case (2 s h t ops)
  obtain ok s1 where a: "try_acquire h t s = (ok, s1)" by fastforce
  obtain rs1 where b: "slot_run s1 ops = (rs1, s')" "rs = (h, ok) # rs1"
    using "2.prems" a by (auto split: prod.splits)
  from "2.IH" [OF a [symmetric] refl b(1)] a b(2) show ?case
    by (auto simp: try_acquire_def grants_def Let_def split: if_splits)
next
  case (3 s ops)
  then have "grants rs + of_bool (sl_occupied (slot_release s))
      \<le> length (filter (\<lambda>op. op = SlotRelease) ops) + 1" by simp
  then show ?case by (auto simp: slot_release_def)
qed (simp add: grants_def)

lemma slot_run_stamp:
  "slot_run s ops = (rs, s') \<Longrightarrow> sl_occupied s = (sl_acquired_at s \<noteq> None) \<Longrightarrow>
     sl_occupied s' = (sl_acquired_at s' \<noteq> None)"
proof (induction s ops arbitrary: rs rule: slot_run.induct)
  case (2 s h t ops)
  obtain ok s1 where a: "try_acquire h t s = (ok, s1)" by fastforce
  obtain rs1 where b: "slot_run s1 ops = (rs1, s')" using "2.prems" a by (auto split: prod.splits)
  have "sl_occupied s1 = (sl_acquired_at s1 \<noteq> None)"
    using a "2.prems"(2) by (auto simp: try_acquire_def Let_def split: if_splits)
  with "2.IH" [OF a [symmetric] refl b] show ?case .
qed (simp_all add: slot_release_def)

subsection \<open>Waiting out a transmit lockout\<close>

text \<open>
  What \<open>getattr(radio, "tx_ready_in")\<close> finds: nothing callable, a probe that raises, or one that
  answers \<open>None\<close>, something \<open>float\<close> refuses, or a number.
\<close>

datatype lockout_probe = NoProbe | ProbeRaises | ProbeNone | ProbeNotNumber | ProbeSeconds secs

definition MAX_TX_LOCKOUT_WAIT_S :: secs where "MAX_TX_LOCKOUT_WAIT_S = 6.5"

definition tx_lockout_remaining :: "lockout_probe \<Rightarrow> secs option" where
  "tx_lockout_remaining p =
     (case p of ProbeSeconds r \<Rightarrow> (if 0 < r then Some r else None) | _ \<Rightarrow> None)"

definition await_tx_ready :: "lockout_probe \<Rightarrow> secs" where
  "await_tx_ready p =
     (case tx_lockout_remaining p of None \<Rightarrow> 0 | Some r \<Rightarrow> min r MAX_TX_LOCKOUT_WAIT_S)"

subsection \<open>Properties\<close>

text \<open>
  C19. The line, the session and the arbiter never disagree: for every sequence of operations of a
  \<open>TxSession\<close> and every pattern of failures of the radio, the identifier, the recorder (only the
  key-edge publisher is taken not to raise), \<open>_keyed\<close>, the PTT line and the arbiter's TX latch are
  equal after every operation, and every transmission was made with the line up.
\<close>

theorem tx_session_consistent:
  assumes "on_key_safe c" "\<not> ab_transmitting arb"
  shows "(let s = tx_run c ops (tx_init arb ident) in
    ts_keyed s = line_up (ts_log s) \<and> ts_keyed s = ab_transmitting (ts_arbiter s) \<and>
    only_keyed False (ts_log s))"
  using tx_run_inv [OF tx_init_inv [OF assms(2)] assms(1), of ops ident]
  unfolding tx_inv_def Let_def .

theorem tx_session_consistent_witness:
  "(let s = tx_run (streaming_config 2 600 True (Inr [9])
        (\<lambda>n call. if call = CallTransmit [9] then Some (Fault 0) else None))
        [TxFeed [1, 2] 0, TxClose 1] (tx_init (arbiter_init False) streaming_init)
    in ts_keyed s = ab_transmitting (ts_arbiter s))"
proof -
  have "on_key_safe (streaming_config 2 600 True (Inr [9])
      (\<lambda>n call. if call = CallTransmit [9] then Some (Fault 0) else None))"
    unfolding on_key_safe_def streaming_config_def by simp
  from tx_session_consistent [OF this arbiter_init_free] show ?thesis
    unfolding Let_def by (rule conjunct2 [THEN conjunct1])
qed

text \<open>Closing always gives the radio back: if \<open>ptt(False)\<close> itself does not raise, \<open>close\<close> returns
  normally with the session unkeyed, the line down and the arbiter released, whatever the sign-off
  ID and the recorder do; and a failed key-up leaves exactly that state too.
\<close>

theorem tx_close_releases:
  assumes "tx_inv s" "on_key_safe c" "\<forall>n. tc_fault c n (CallPtt False) = None"
  shows "(let (r, s') = tx_close c now s in
      r = Inr () \<and> \<not> ts_keyed s' \<and> \<not> line_up (ts_log s') \<and> \<not> ab_transmitting (ts_arbiter s')) \<and>
    (\<not> ts_keyed s \<and> fst (tx_key_up c now s) \<noteq> Inr () \<longrightarrow>
      (let s' = snd (tx_key_up c now s) in
       \<not> ts_keyed s' \<and> \<not> line_up (ts_log s') \<and> \<not> ab_transmitting (ts_arbiter s')))"
proof -
  have free: "\<not> ts_keyed q \<and> \<not> line_up (ts_log q) \<and> \<not> ab_transmitting (ts_arbiter q)"
    if "tx_inv q" "\<not> ts_keyed q" for q :: "'a tx_session"
    using that by (simp add: tx_inv_def)
  have "fst (tx_close c now s) = Inr ()" using tx_close_inv [OF assms(1,2), of now] assms(3) by blast
  moreover have "\<not> ts_keyed (snd (tx_close c now s))" "tx_inv (snd (tx_close c now s))"
    using tx_close_inv [OF assms(1,2), of now] assms(3) by blast+
  moreover have "tx_inv (snd (tx_key_up c now s)) \<and> \<not> ts_keyed (snd (tx_key_up c now s))"
    if "\<not> ts_keyed s" "fst (tx_key_up c now s) \<noteq> Inr ()"
    using tx_key_up_inv [OF assms(1) that(1) assms(2), of now] assms(3) that(2) by blast
  ultimately show ?thesis by (auto simp: Let_def case_prod_beta dest: free)
qed

theorem tx_close_releases_witness:
  "\<not> ts_keyed (snd (tx_close (streaming_config 2 600 True (Inr [9]) (\<lambda>_ _. None)) 5
     (tx_init (arbiter_init False) streaming_init)))"
  using tx_close_releases [of "tx_init (arbiter_init False) streaming_init"
      "streaming_config 2 600 True (Inr [9]) (\<lambda>_ _. None)" 5]
  by (simp add: on_key_safe_def streaming_config_def arbiter_init_def Let_def split: prod.splits)

text \<open>
  C20. Part 97 for streaming: as long as the radio's transmissions succeed, every frame a session with
  \<open>StreamingId\<close> puts on the air is the ID or follows an ID that went out less than one interval
  before, whatever the sequence of operations and their times.
\<close>

theorem streaming_identified:
  assumes "\<forall>n a. fault n (CallTransmit a) = None"
  shows "covered interval i (ts_log (tx_run
    (streaming_config idle_timeout interval has_on_key (Inr i) fault) ops (tx_init arb streaming_init)))"
  by (rule streaming.always_covered)
    (use assms in \<open>simp_all add: streaming.uses_def streaming_config_def streaming_init_def\<close>)

theorem streaming_identified_witness:
  "covered 600 [9] (ts_log (tx_run (streaming_config 2 600 False (Inr [9]) (\<lambda>_ _. None))
     [TxFeed [1, 2] 0, TxFeed [3, 4] 700] (tx_init (arbiter_init False) streaming_init)))"
  using streaming_identified [of "\<lambda>_ _. None"] by simp

text \<open>A failed ID is counted as sent: when the transmission of the key-up ID raises, the session
  unwinds, but \<open>StreamingId\<close> has already stamped its timer, so a frame fed within the interval keys
  up and is transmitted with no ID anywhere on the air.
\<close>

theorem streaming_id_lost_after_fault:
  assumes "data \<noteq> []" "even (length data)" "now1 \<le> now2" "now2 - now1 < interval"
    and "fault = (\<lambda>n call. if n = 1 then Some (Fault 0) else None)"
  shows "map snd (ts_log (tx_run (streaming_config idle_timeout interval False (Inr i) fault)
      [TxFeed data now1, TxFeed data now2] (tx_init (arbiter_init False) streaming_init))) =
    [(CallPtt True, True), (CallTransmit i, False), (CallPtt False, True), (CallEndSegment, True),
     (CallPtt True, True), (CallTransmit data, True), (CallRecord data, True)]"
proof -
  from assms(2) have "length data mod 2 = 0" by (simp add: even_iff_mod_2_eq_zero)
  with assms(1,3,4) show ?thesis
    unfolding assms(5)
    by (simp add: tx_run_def tx_feed_def streaming_config_def CANONICAL_FRAME_BYTES_def tx_init_def
        tx_key_up_def tx_acquire_def acquire_tx_def arb_notify_def tx_call_def tx_on_key_def
        tx_ident_call_def key_up_id_def id_due_def streaming_init_def sm_render_def tx_close_def
        sign_off_id_def guarded_apply tx_release_def catching_def andthen_def arbiter_init_def
        release_tx_def Let_def)
qed

theorem streaming_id_lost_after_fault_witness:
  "map snd (ts_log (tx_run (streaming_config 2 600 False (Inr [9]) (\<lambda>n call. if n = 1 then Some (Fault 0) else None))
      [TxFeed [1, 2] 0, TxFeed [1, 2] 1] (tx_init (arbiter_init False) streaming_init))) ! 5
   = (CallTransmit [1, 2], True)"
  using streaming_id_lost_after_fault [of "[1, 2]" 0 1 600 _ 2 "[9]", OF _ _ _ _ refl] by simp

text \<open>One talker per slot, and a truthful ledger: in any sequence of claims and releases at most one
  more claim is granted than there are releases, and the refusal count of every label is exactly the
  number of refused claims made under it, kept across releases.
\<close>

theorem tx_slot_exclusive:
  "(let (rs, s) = slot_run slot_init ops in
     grants rs \<le> length (filter (\<lambda>op. op = SlotRelease) ops) + 1 \<and>
     sl_refused s l = (if refusals l rs = 0 then None else Some (refusals l rs)) \<and>
     (sl_occupied s = (sl_acquired_at s \<noteq> None)))"
proof -
  obtain rs s where r: "slot_run slot_init ops = (rs, s)" by fastforce
  have "sl_occupied slot_init = (sl_acquired_at slot_init \<noteq> None)" by (simp add: slot_init_def)
  then have "sl_occupied s = (sl_acquired_at s \<noteq> None)" using slot_run_stamp [OF r] by blast
  with slot_run_refused [OF r, of l] slot_run_grants [OF r] r show ?thesis
    by (simp add: slot_init_def)
qed

text \<open>The pre-wait is bounded: \<open>await_tx_ready\<close> never waits longer than the cap, never a negative time,
  and at least as long as the radio asks for whenever that is within the cap.
\<close>

theorem lockout_wait_bounded:
  "0 \<le> await_tx_ready p \<and> await_tx_ready p \<le> MAX_TX_LOCKOUT_WAIT_S \<and>
   (await_tx_ready (ProbeSeconds r) = (if r \<le> 0 then 0 else if r \<le> 6.5 then r else 6.5))"
  by (auto simp: await_tx_ready_def tx_lockout_remaining_def MAX_TX_LOCKOUT_WAIT_S_def
      split: lockout_probe.splits)

end
