(* ===== verification/Tot.thy ===== *)
theory Tot
  imports Prelude
begin

section \<open>The transmitter time-out timer\<close>

text \<open>
  \<open>radio_server/tx/tot.py\<close>: \<open>TotRadio\<close>, the watchdog around the wrapped radio's \<open>ptt\<close> and
  \<open>transmit\<close>. Its methods hold the lock only around parts of their work, so the model has one
  definition per locked section, and two step relations over a world of in-flight calls:
  \<open>tot_step\<close> interleaves the sections and the wrapped radio's calls of any number of callers and
  timer threads; \<open>tot_calm\<close> is the restriction in which a \<open>ptt\<close> call is not interrupted and no
  call overlaps a one-shot \<open>transmit\<close>, timer threads excepted. A token is a number, fresh for each
  arming; a cancelled timer may still fire, with a stale token. Calls of the wrapped radio succeed.
  Time is the world's clock; the timer thread is timely: no time passes beyond a live deadline.
\<close>

record tot_radio =
  tr_tot :: secs
  tr_timer :: "(nat \<times> secs) option"
  tr_token :: "nat option"
  tr_fresh :: nat
  tr_keyed :: bool
  tr_locked :: bool

definition tot_init :: "secs \<Rightarrow> tot_radio" where
  "tot_init tot = \<lparr>tr_tot = tot, tr_timer = None, tr_token = None, tr_fresh = 0,
     tr_keyed = False, tr_locked = False\<rparr>"

definition tot_disarm :: "tot_radio \<Rightarrow> tot_radio" where
  "tot_disarm r = r\<lparr>tr_token := None, tr_timer := None\<rparr>"

definition tot_arm :: "secs \<Rightarrow> tot_radio \<Rightarrow> tot_radio" where
  "tot_arm now r =
     (let r1 = tot_disarm r in
      if 0 < tr_tot r1 then
        r1\<lparr>tr_token := Some (tr_fresh r1), tr_timer := Some (tr_fresh r1, now + tr_tot r1),
           tr_fresh := Suc (tr_fresh r1)\<rparr>
      else r1)"

text \<open>The locked section of \<open>_fire\<close>: whether the forced \<open>ptt(False)\<close> follows.\<close>

definition tot_fire :: "nat \<Rightarrow> tot_radio \<Rightarrow> bool \<times> tot_radio" where
  "tot_fire token r =
     (if tr_token r \<noteq> Some token then (False, r)
      else (True, r\<lparr>tr_timer := None, tr_token := None, tr_keyed := False,
                    tr_locked := (if tr_keyed r then True else tr_locked r)\<rparr>))"

definition tot_ptt :: "bool \<Rightarrow> secs \<Rightarrow> tot_radio \<Rightarrow> tot_radio" where
  "tot_ptt on now r =
     (let r1 = r\<lparr>tr_locked := False, tr_keyed := on\<rparr>
      in if on then tot_arm now r1 else tot_disarm r1)"

text \<open>\<open>None\<close>: the audio is dropped. \<open>Some one_shot\<close>: the wrapped \<open>transmit\<close> is called next.\<close>

definition tot_transmit :: "secs \<Rightarrow> tot_radio \<Rightarrow> bool option \<times> tot_radio" where
  "tot_transmit now r =
     (if tr_locked r then (None, r)
      else let one_shot = (\<not> tr_keyed r)
           in (Some one_shot, if one_shot then tot_arm now r else r))"

definition tot_transmit_done :: "bool \<Rightarrow> tot_radio \<Rightarrow> tot_radio" where
  "tot_transmit_done one_shot r = (if one_shot \<and> \<not> tr_locked r then tot_disarm r else r)"

definition tot_close :: "tot_radio \<Rightarrow> tot_radio" where
  "tot_close r = (tot_disarm r)\<lparr>tr_keyed := False, tr_locked := False\<rparr>"

lemmas tot_defs = tot_disarm_def tot_arm_def tot_fire_def tot_ptt_def tot_transmit_def
  tot_transmit_done_def tot_close_def Let_def

subsection \<open>The world\<close>

text \<open>
  \<open>tw_line\<close> is the PTT line of the wrapped radio, \<open>tw_since\<close> when \<open>ptt(True)\<close> last put it up,
  \<open>tw_calls\<close> the \<open>ptt\<close> calls past their locked section, \<open>tw_clips\<close> the \<open>transmit\<close> calls in
  progress with their \<open>one_shot\<close> flags.
\<close>

record tot_world =
  tw_radio :: tot_radio
  tw_line :: bool
  tw_since :: secs
  tw_now :: secs
  tw_calls :: "bool list"
  tw_clips :: "bool list"

definition tot_world_init :: "secs \<Rightarrow> tot_world" where
  "tot_world_init tot = \<lparr>tw_radio = tot_init tot, tw_line = False, tw_since = 0, tw_now = 0,
     tw_calls = [], tw_clips = []\<rparr>"

text \<open>The wrapped radio's \<open>ptt(on)\<close>.\<close>

definition line_set :: "bool \<Rightarrow> tot_world \<Rightarrow> tot_world" where
  "line_set on w = w\<lparr>tw_line := on, tw_since := (if on then tw_now w else tw_since w)\<rparr>"

definition may_pass :: "tot_world \<Rightarrow> secs \<Rightarrow> bool" where
  "may_pass w t = (tw_now w \<le> t \<and>
     (case tr_timer (tw_radio w) of None \<Rightarrow> True | Some (k, deadline) \<Rightarrow> t \<le> deadline))"

inductive tot_step :: "tot_world \<Rightarrow> tot_world \<Rightarrow> bool" where
  pass: "may_pass w t \<Longrightarrow> tot_step w (w\<lparr>tw_now := t\<rparr>)"
| ptt_section: "tot_step w (w\<lparr>tw_radio := tot_ptt on (tw_now w) (tw_radio w), tw_calls := on # tw_calls w\<rparr>)"
| ptt_call: "on \<in> set (tw_calls w) \<Longrightarrow>
    tot_step w ((line_set on w)\<lparr>tw_calls := remove1 on (tw_calls w)\<rparr>)"
| transmit_section: "tot_transmit (tw_now w) (tw_radio w) = (Some one_shot, r) \<Longrightarrow>
    tot_step w (w\<lparr>tw_radio := r, tw_clips := one_shot # tw_clips w\<rparr>)"
| transmit_done: "one_shot \<in> set (tw_clips w) \<Longrightarrow>
    tot_step w (w\<lparr>tw_radio := tot_transmit_done one_shot (tw_radio w),
      tw_clips := remove1 one_shot (tw_clips w)\<rparr>)"
| fire: "tot_fire token (tw_radio w) = (True, r) \<Longrightarrow>
    tot_step w (w\<lparr>tw_radio := r, tw_calls := False # tw_calls w\<rparr>)"

inductive tot_calm :: "tot_world \<Rightarrow> tot_world \<Rightarrow> bool" where
  pass: "may_pass w t \<Longrightarrow> tot_calm w (w\<lparr>tw_now := t\<rparr>)"
| ptt: "True \<notin> set (tw_clips w) \<Longrightarrow>
    tot_calm w (line_set on (w\<lparr>tw_radio := tot_ptt on (tw_now w) (tw_radio w)\<rparr>))"
| transmit: "True \<notin> set (tw_clips w) \<Longrightarrow> tot_transmit (tw_now w) (tw_radio w) = (Some one_shot, r) \<Longrightarrow>
    tot_calm w (w\<lparr>tw_radio := r, tw_clips := one_shot # tw_clips w\<rparr>)"
| transmit_done: "one_shot \<in> set (tw_clips w) \<Longrightarrow>
    tot_calm w (w\<lparr>tw_radio := tot_transmit_done one_shot (tw_radio w),
      tw_clips := remove1 one_shot (tw_clips w)\<rparr>)"
| fire: "tot_fire token (tw_radio w) = (True, r) \<Longrightarrow> tot_calm w (line_set False (w\<lparr>tw_radio := r\<rparr>))"
| close: "True \<notin> set (tw_clips w) \<Longrightarrow>
    tot_calm w (line_set False (w\<lparr>tw_radio := tot_close (tw_radio w)\<rparr>))"

inductive_cases tot_calm_cases: "tot_calm w w'"

definition tot_reach :: "secs \<Rightarrow> tot_world \<Rightarrow> bool" where
  "tot_reach tot w = tot_step\<^sup>*\<^sup>* (tot_world_init tot) w"

definition tot_calm_reach :: "secs \<Rightarrow> tot_world \<Rightarrow> bool" where
  "tot_calm_reach tot w = tot_calm\<^sup>*\<^sup>* (tot_world_init tot) w"

subsection \<open>The calm invariant\<close>

definition tot_inv :: "tot_world \<Rightarrow> bool" where
  "tot_inv w \<longleftrightarrow>
     (let r = tw_radio w in
      (tw_line w \<longrightarrow> tr_keyed r) \<and>
      (tr_keyed r \<longrightarrow> True \<notin> set (tw_clips w) \<and> \<not> tr_locked r) \<and>
      (tr_keyed r \<and> 0 < tr_tot r \<longrightarrow>
         (\<exists>k. tr_timer r = Some (k, tw_since w + tr_tot r) \<and> tr_token r = Some k
            \<and> tw_now w \<le> tw_since w + tr_tot r)))"

lemma tot_inv_init: "tot_inv (tot_world_init tot)"
  by (simp add: tot_inv_def tot_world_init_def tot_init_def)

lemma tot_of_ops [simp]:
  "tr_tot (tot_arm now r) = tr_tot r" "tr_tot (tot_disarm r) = tr_tot r"
  by (simp_all add: tot_defs)

lemma tot_inv_calm [inv_intros]: "tot_calm w w' \<Longrightarrow> tot_inv w \<Longrightarrow> tot_inv w'"
proof (induction rule: tot_calm.induct)
  case (pass w t)
  then show ?case by (auto simp: tot_inv_def may_pass_def Let_def)
next
  case (ptt w on)
  then show ?case by (auto simp: tot_inv_def line_set_def tot_defs)
next
  case (transmit w one_shot r)
  then show ?case by (auto simp: tot_inv_def tot_defs split: if_splits)
next
  case (transmit_done one_shot w)
  then show ?case
    by (auto simp: tot_inv_def tot_transmit_done_def tot_disarm_def Let_def dest: set_remove1_subset [THEN subsetD])
next
  case (fire token w r)
  then show ?case by (auto simp: tot_inv_def line_set_def tot_defs split: if_splits)
next
  case (close w)
  then show ?case by (auto simp: tot_inv_def line_set_def tot_defs)
qed

lemma tot_calm_tot: "tot_calm w w' \<Longrightarrow> tr_tot (tw_radio w') = tr_tot (tw_radio w)"
  by (induction rule: tot_calm.induct) (auto simp: line_set_def tot_defs split: if_splits)

lemma tot_calm_reach_inv:
  "tot_calm_reach tot w \<Longrightarrow> tot_inv w \<and> tr_tot (tw_radio w) = tot"
  unfolding tot_calm_reach_def
proof (induction rule: rtranclp_induct)
  case base
  show ?case by (simp add: tot_inv_init) (simp add: tot_world_init_def tot_init_def)
next
  case (step w w')
  then show ?case by (auto intro: tot_inv_calm simp: tot_calm_tot)
qed

subsection \<open>Properties\<close>



text \<open>With overlapping calls it does not: for every time-out and every duration there is a run in
  which a one-shot \<open>transmit\<close> is in progress while \<open>ptt(True)\<close> keys the radio, the clip's
  \<open>finally\<close> disarms the watchdog that \<open>ptt(True)\<close> had armed, and the line then stays up for that
  duration with no call in flight and no timer armed.
\<close>

theorem tot_overlap_unbounded:
  "\<exists>w. tot_reach tot w \<and> tw_line w \<and> tw_calls w = [] \<and> tw_clips w = [] \<and> tr_keyed (tw_radio w) \<and>
     tr_timer (tw_radio w) = None \<and> tw_now w - tw_since w = \<bar>d\<bar>"
proof -
  let ?w0 = "tot_world_init tot"
  define r1 where "r1 = tot_arm 0 (tot_init tot)"
  define r2 where "r2 = tot_ptt True 0 r1"
  define w1 where "w1 = ?w0\<lparr>tw_radio := r1, tw_clips := [True]\<rparr>"
  define w2 where "w2 = w1\<lparr>tw_radio := r2, tw_calls := [True]\<rparr>"
  define w3 where "w3 = (line_set True w2)\<lparr>tw_calls := []\<rparr>"
  define w4 where "w4 = w3\<lparr>tw_radio := tot_disarm r2, tw_clips := []\<rparr>"
  define w5 where "w5 = w4\<lparr>tw_now := \<bar>d\<bar>\<rparr>"
  note ws = w1_def w2_def w3_def w4_def w5_def tot_world_init_def line_set_def
  have t: "tot_transmit 0 (tot_init tot) = (Some True, r1)"
    by (simp add: tot_transmit_def r1_def tot_init_def)
  have r2: "\<not> tr_locked r2" "tr_keyed r2" by (simp_all add: r2_def tot_ptt_def tot_arm_def tot_disarm_def Let_def)
  have "tot_step ?w0 w1"
    using tot_step.transmit_section [of ?w0 True r1] t by (simp add: ws)
  moreover have "tot_step w1 w2"
    using tot_step.ptt_section [of w1 True] by (simp add: ws flip: r2_def)
  moreover have "tot_step w2 w3"
    using tot_step.ptt_call [of True w2] by (simp add: ws)
  moreover have "tot_step w3 w4"
    using tot_step.transmit_done [of True w3] r2 by (simp add: ws tot_transmit_done_def)
  moreover have "tot_step w4 w5"
    using tot_step.pass [of w4 "\<bar>d\<bar>"] by (simp add: ws may_pass_def tot_disarm_def)
  ultimately have "tot_reach tot w5"
    unfolding tot_reach_def by (meson converse_rtranclp_into_rtranclp rtranclp.rtrancl_refl)
  moreover have "tw_line w5 \<and> tw_calls w5 = [] \<and> tw_clips w5 = [] \<and> tr_keyed (tw_radio w5) \<and>
      tr_timer (tw_radio w5) = None \<and> tw_now w5 - tw_since w5 = \<bar>d\<bar>"
    using r2 by (simp add: ws tot_disarm_def)
  ultimately show ?thesis by blast
qed

end
