(* ===== verification/Scan.thy ===== *)
theory Scan
  imports Prelude
begin

section \<open>The software scan engine\<close>

text \<open>
  \<open>radio_server/scan/engine.py\<close>: the plan, the clock-driven machine \<open>tick\<close> with its resume modes,
  and the synchronous \<open>sweep\<close>. The radio is a parameter: \<open>busy n f\<close> is what the \<open>n\<close>-th
  \<open>status().busy\<close> read answers when the radio is tuned to \<open>f\<close>; its calls do not raise. What the
  engine does to the outside (tuning, busy reads, events) is recorded in order. Whether the arbiter
  is transmitting is an input of each tick.
\<close>

datatype resume_mode = CARRIER | TIMED | HOLD
datatype scan_phase = PhScanning | PhActive | PhDwelling | PhResumed | PhStopped

record scan_plan =
  sp_channels :: "int list"
  sp_lockout :: "int set"
  sp_priority :: "int option"

text \<open>Python's \<open>range(a, b, s)\<close> for a positive step: \<open>n\<close> bounds the number of elements.\<close>

fun py_range :: "nat \<Rightarrow> int \<Rightarrow> int \<Rightarrow> int \<Rightarrow> int list" where
  "py_range 0 a b s = []"
| "py_range (Suc n) a b s = (if a < b then a # py_range n (a + s) b s else [])"

definition plan_from_range :: "int \<Rightarrow> int \<Rightarrow> int \<Rightarrow> int set \<Rightarrow> int option \<Rightarrow> exn + scan_plan" where
  "plan_from_range start stop step lockout priority =
     (if step \<le> 0 then Inl ValueError
      else if stop < start then Inl ValueError
      else Inr \<lparr>sp_channels = py_range (nat (stop + 1 - start)) start (stop + 1) step,
                sp_lockout = lockout, sp_priority = priority\<rparr>)"

definition active_channels :: "scan_plan \<Rightarrow> int list" where
  "active_channels p = filter (\<lambda>c. c \<notin> sp_lockout p) (sp_channels p)"

datatype scan_obs = Tune int | ReadBusy bool | Emit scan_phase int "nat option"

datatype scan_state = ScIdle | ScListening | ScDwelling | ScHeld | ScDone

record scan_engine =
  se_active :: "int list"
  se_priority :: "int option"
  se_mode :: resume_mode
  se_dwell :: secs
  se_settle :: secs
  se_state :: scan_state
  se_i :: nat
  se_freq :: "int option"
  se_channel :: "nat option"
  se_tuned_at :: secs
  se_deadline :: secs
  se_obs :: "scan_obs list"

text \<open>The constructor's capability guard and initial state.\<close>

definition scan_init :: "bool \<Rightarrow> scan_plan \<Rightarrow> resume_mode \<Rightarrow> secs \<Rightarrow> secs \<Rightarrow> exn + scan_engine" where
  "scan_init has_scan p mode dwell settle =
     (if \<not> has_scan then Inl UnsupportedCapability
      else Inr \<lparr>se_active = active_channels p, se_priority = sp_priority p, se_mode = mode,
        se_dwell = dwell, se_settle = settle, se_state = ScIdle, se_i = 0, se_freq = None,
        se_channel = None, se_tuned_at = 0, se_deadline = 0, se_obs = []\<rparr>)"

definition scan_emit :: "scan_phase \<Rightarrow> int \<Rightarrow> nat option \<Rightarrow> scan_engine \<Rightarrow> scan_engine" where
  "scan_emit ph f ch e = e\<lparr>se_obs := se_obs e @ [Emit ph f ch]\<rparr>"

definition scan_tune :: "int \<Rightarrow> scan_engine \<Rightarrow> scan_engine" where
  "scan_tune f e = e\<lparr>se_obs := se_obs e @ [Tune f]\<rparr>"

text \<open>The frequency the radio is on: the last tuning.\<close>

definition tunes :: "scan_obs list \<Rightarrow> int list" where
  "tunes obs = concat (map (\<lambda>x. case x of Tune f \<Rightarrow> [f] | _ \<Rightarrow> []) obs)"

definition busy_reads :: "scan_obs list \<Rightarrow> nat" where
  "busy_reads obs = length (filter (\<lambda>x. case x of ReadBusy b \<Rightarrow> True | _ \<Rightarrow> False) obs)"

definition read_busy :: "(nat \<Rightarrow> int option \<Rightarrow> bool) \<Rightarrow> scan_engine \<Rightarrow> bool \<times> scan_engine" where
  "read_busy busy e =
     (let ts = tunes (se_obs e);
          b = busy (busy_reads (se_obs e)) (if ts = [] then None else Some (last ts))
      in (b, e\<lparr>se_obs := se_obs e @ [ReadBusy b]\<rparr>))"

definition next_index :: "scan_engine \<Rightarrow> nat" where
  "next_index e = (se_i e + 1) mod length (se_active e)"

definition begin_listen :: "int \<Rightarrow> nat \<Rightarrow> secs \<Rightarrow> scan_engine \<Rightarrow> scan_engine" where
  "begin_listen f ch now e =
     scan_emit PhScanning f (Some ch)
       ((scan_tune f e)\<lparr>se_freq := Some f, se_channel := Some ch, se_tuned_at := now,
          se_state := ScListening\<rparr>)"

definition begin_dwell :: "int \<Rightarrow> nat option \<Rightarrow> secs \<Rightarrow> scan_engine \<Rightarrow> scan_engine" where
  "begin_dwell f ch now e =
     (let e1 = scan_emit PhActive f ch (e\<lparr>se_freq := Some f, se_channel := ch\<rparr>);
          e2 = (case se_mode e1 of
                  HOLD \<Rightarrow> e1\<lparr>se_state := ScHeld\<rparr>
                | TIMED \<Rightarrow> e1\<lparr>se_deadline := now + se_dwell e1, se_state := ScDwelling\<rparr>
                | CARRIER \<Rightarrow> e1\<lparr>se_state := ScDwelling\<rparr>)
      in scan_emit PhDwelling f ch e2)"

definition scan_next :: "secs \<Rightarrow> scan_engine \<Rightarrow> scan_engine" where
  "scan_next now e =
     (let i = next_index e in begin_listen (se_active e ! i) i now (e\<lparr>se_i := i\<rparr>))"

definition scan_advance :: "(nat \<Rightarrow> int option \<Rightarrow> bool) \<Rightarrow> secs \<Rightarrow> scan_engine \<Rightarrow> scan_engine" where
  "scan_advance busy now e =
     (case se_priority e of
        None \<Rightarrow> scan_next now e
      | Some p \<Rightarrow>
          (let (b, e1) = read_busy busy (scan_tune p e) in
           if b then begin_dwell p None now (scan_emit PhScanning p None e1)
           else scan_next now e1))"

definition scan_start :: "secs \<Rightarrow> scan_engine \<Rightarrow> scan_engine" where
  "scan_start now e =
     (if se_active e = [] then e\<lparr>se_state := ScDone\<rparr>
      else begin_listen (se_active e ! 0) 0 now (e\<lparr>se_i := 0\<rparr>))"

definition scan_tick :: "(nat \<Rightarrow> int option \<Rightarrow> bool) \<Rightarrow> bool \<Rightarrow> secs \<Rightarrow> scan_engine \<Rightarrow> scan_engine" where
  "scan_tick busy transmitting now e =
     (if transmitting then e
      else case se_state e of
        ScIdle \<Rightarrow> scan_start now e
      | ScHeld \<Rightarrow> e
      | ScDone \<Rightarrow> e
      | ScListening \<Rightarrow>
          (if now < se_tuned_at e + se_settle e then e
           else let (b, e1) = read_busy busy e in
                if b then begin_dwell (the (se_freq e1)) (se_channel e1) now e1
                else scan_advance busy now e1)
      | ScDwelling \<Rightarrow>
          (case se_mode e of
             CARRIER \<Rightarrow>
               (let (b, e1) = read_busy busy e in
                if \<not> b then scan_advance busy now
                              (scan_emit PhResumed (the (se_freq e1)) (se_channel e1) e1)
                else e1)
           | TIMED \<Rightarrow>
               (if se_deadline e \<le> now then
                  scan_advance busy now (scan_emit PhResumed (the (se_freq e)) (se_channel e) e)
                else e)
           | HOLD \<Rightarrow> e))"

fun scan_run :: "(nat \<Rightarrow> int option \<Rightarrow> bool) \<Rightarrow> (bool \<times> secs) list \<Rightarrow> scan_engine \<Rightarrow> scan_engine" where
  "scan_run busy [] e = e"
| "scan_run busy ((tx, now) # ts) e = scan_run busy ts (scan_tick busy tx now e)"

subsection \<open>The synchronous sweep\<close>

text \<open>The body of the loop over the remaining channels, from index \<open>idx\<close> on.\<close>

fun sweep_loop ::
  "(nat \<Rightarrow> int option \<Rightarrow> bool) \<Rightarrow> nat \<Rightarrow> int list \<Rightarrow> scan_engine \<Rightarrow> int option \<times> scan_engine" where
  "sweep_loop busy idx [] e = (None, e\<lparr>se_state := ScDone\<rparr>)"
| "sweep_loop busy idx (f # fs) e =
     (let (hit, e1) =
        (if 0 < idx then
           (case se_priority e of
              None \<Rightarrow> (None, e)
            | Some p \<Rightarrow>
                (let (b, e1) = read_busy busy (scan_tune p e) in
                 if b then
                   (Some p, scan_emit PhDwelling p None ((scan_emit PhActive p None
                      ((scan_emit PhScanning p None e1)\<lparr>se_freq := Some p, se_channel := None\<rparr>))
                      \<lparr>se_state := ScHeld\<rparr>))
                 else (None, e1)))
         else (None, e))
      in case hit of
           Some p \<Rightarrow> (Some p, e1)
         | None \<Rightarrow>
             (let e2 = scan_emit PhScanning f (Some idx)
                ((scan_tune f (e1\<lparr>se_i := idx\<rparr>))\<lparr>se_freq := Some f, se_channel := Some idx\<rparr>);
                  (b, e3) = read_busy busy e2
              in if b then
                   (Some f, scan_emit PhDwelling f (Some idx)
                      ((scan_emit PhActive f (Some idx) e3)\<lparr>se_state := ScHeld\<rparr>))
                 else sweep_loop busy (Suc idx) fs e3))"

definition scan_sweep ::
  "(nat \<Rightarrow> int option \<Rightarrow> bool) \<Rightarrow> scan_engine \<Rightarrow> int option \<times> scan_engine" where
  "scan_sweep busy e =
     (if se_active e = [] then (None, e\<lparr>se_state := ScDone\<rparr>)
      else sweep_loop busy 0 (se_active e) e)"

subsection \<open>The range\<close>

lemma py_range_mem:
  "0 < s \<Longrightarrow> b - a \<le> int n \<Longrightarrow> x \<in> set (py_range n a b s) \<longleftrightarrow> a \<le> x \<and> x < b \<and> (x - a) mod s = 0"
proof (induction n arbitrary: a)
  case (Suc n)
  show ?case
  proof (cases "a < b")
    case True
    from Suc.prems have "b - (a + s) \<le> int n" by simp
    note IH = Suc.IH [OF Suc.prems(1) this]
    have e: "(x - (a + s)) mod s = (x - a) mod s" by (simp add: diff_diff_eq [symmetric])
    show ?thesis
    proof (cases "x = a")
      case True
      with \<open>a < b\<close> show ?thesis by simp
    next
      case False
      have "a + s \<le> x" if "a \<le> x" "(x - a) mod s = 0"
      proof -
        from that(2) obtain k where k: "x - a = s * k" by (metis dvd_def dvd_eq_mod_eq_0)
        with that(1) False Suc.prems(1) have "0 < s * k" by linarith
        with Suc.prems(1) have "0 < k" by (simp add: zero_less_mult_iff)
        with Suc.prems(1) have "s * 1 \<le> s * k" by (intro mult_left_mono) auto
        with k show ?thesis by linarith
      qed
      with \<open>a < b\<close> False IH e Suc.prems(1) show ?thesis by auto
    qed
  qed auto
qed auto

lemma py_range_sorted: "0 < s \<Longrightarrow> sorted_wrt (<) (py_range n a b s) \<and> (\<forall>x \<in> set (py_range n a b s). a \<le> x)"
proof (induction n arbitrary: a)
  case (Suc n)
  from Suc.IH [of "a + s"] Suc.prems show ?case by force
qed simp

subsection \<open>What the operations keep\<close>

definition on_air :: "scan_engine \<Rightarrow> int option" where
  "on_air e = (let ts = tunes (se_obs e) in if ts = [] then None else Some (last ts))"

lemma tunes_simps [simp]:
  "tunes [] = []"
  "tunes (obs @ obs') = tunes obs @ tunes obs'"
  "tunes (Tune f # obs) = f # tunes obs"
  "tunes (ReadBusy b # obs) = tunes obs"
  "tunes (Emit ph g ch # obs) = tunes obs"
  by (simp_all add: tunes_def)

lemmas scan_prims = scan_emit_def scan_tune_def read_busy_def begin_listen_def begin_dwell_def Let_def

definition scan_ok :: "scan_engine \<Rightarrow> bool" where
  "scan_ok e \<longleftrightarrow>
     set (tunes (se_obs e)) \<subseteq> set (se_active e) \<union> set_option (se_priority e) \<and>
     (se_state e \<in> {ScListening, ScDwelling, ScHeld} \<longrightarrow>
        se_active e \<noteq> [] \<and> se_freq e \<noteq> None \<and> se_freq e = on_air e)"

text \<open>What every operation leaves alone.\<close>

definition scan_frame :: "scan_engine \<Rightarrow> scan_engine \<Rightarrow> bool" where
  "scan_frame e e' \<longleftrightarrow> se_active e' = se_active e \<and> se_priority e' = se_priority e \<and>
     se_mode e' = se_mode e \<and> se_dwell e' = se_dwell e \<and> se_settle e' = se_settle e"

lemma scan_frame_refl [simp]: "scan_frame e e"
  by (simp add: scan_frame_def)

lemma scan_frame_trans: "scan_frame a b \<Longrightarrow> scan_frame b c \<Longrightarrow> scan_frame a c"
  by (simp add: scan_frame_def)

lemma scan_next_ok:
  assumes "set (tunes (se_obs e)) \<subseteq> set (se_active e) \<union> set_option (se_priority e)" "se_active e \<noteq> []"
  shows "scan_ok (scan_next now e)"
proof -
  have "se_active e ! ((se_i e + 1) mod length (se_active e)) \<in> set (se_active e)"
    using assms(2) by (intro nth_mem) simp
  with assms show ?thesis
    by (simp add: scan_next_def next_index_def scan_ok_def on_air_def scan_prims)
qed

lemma scan_next_frame [simp]: "scan_frame e (scan_next now e)"
  by (simp add: scan_next_def scan_frame_def scan_prims)

lemma scan_advance_ok:
  assumes "set (tunes (se_obs e)) \<subseteq> set (se_active e) \<union> set_option (se_priority e)" "se_active e \<noteq> []"
  shows "scan_ok (scan_advance busy now e)"
proof (cases "se_priority e")
  case None
  with assms show ?thesis by (simp add: scan_advance_def scan_next_ok)
next
  case (Some p)
  have "scan_ok (scan_next now (snd (read_busy busy (scan_tune p e))))"
    by (rule scan_next_ok) (use assms Some in \<open>auto simp: scan_prims\<close>)
  with assms Some show ?thesis
    by (auto simp: scan_advance_def scan_ok_def on_air_def scan_prims split: resume_mode.splits)
qed

lemma scan_advance_frame [simp]: "scan_frame e (scan_advance busy now e)"
  by (auto simp: scan_advance_def scan_next_def scan_frame_def scan_prims
      split: option.splits resume_mode.splits)

lemma read_busy_ok [simp]:
  "scan_ok (snd (read_busy busy e)) = scan_ok e" "scan_frame e (snd (read_busy busy e))"
  by (simp_all add: scan_ok_def scan_frame_def on_air_def scan_prims)

lemma scan_tick_ok [inv_intros]:
  assumes "scan_ok e"
  shows "scan_ok (scan_tick busy tx now e)"
proof -
  have adv: "scan_ok (scan_advance busy now e')"
    if "se_state e \<in> {ScListening, ScDwelling}" "scan_frame e e'" "tunes (se_obs e') = tunes (se_obs e)" for e'
    by (rule scan_advance_ok) (use assms that in \<open>auto simp: scan_ok_def scan_frame_def\<close>)
  show ?thesis
  proof (cases "se_state e")
    case ScIdle
    with assms show ?thesis
      by (auto simp: scan_tick_def scan_start_def scan_ok_def on_air_def scan_prims)
  next
    case ScListening
    let ?r = "snd (read_busy busy e)"
    have "scan_ok (scan_advance busy now ?r)"
      by (rule adv) (simp_all add: ScListening scan_frame_def scan_prims)
    moreover have "scan_ok (begin_dwell (the (se_freq ?r)) (se_channel ?r) now ?r)"
      using assms ScListening
      by (auto simp: scan_ok_def on_air_def scan_prims split: resume_mode.splits)
    ultimately show ?thesis using assms ScListening
      by (auto simp: scan_tick_def split: prod.splits)
  next
    case ScDwelling
    let ?r = "snd (read_busy busy e)"
    have "scan_ok (scan_advance busy now (scan_emit PhResumed f ch e'))" if "e' = e \<or> e' = ?r" for f ch e'
      by (rule adv) (use that in \<open>auto simp: ScDwelling scan_frame_def scan_prims\<close>)
    moreover have "scan_ok ?r" using assms by simp
    ultimately show ?thesis using assms ScDwelling
      by (cases "read_busy busy e") (auto simp: scan_tick_def split: resume_mode.splits)
  qed (use assms in \<open>simp_all add: scan_tick_def\<close>)
qed

lemma scan_tick_frame [simp]: "scan_frame e (scan_tick busy tx now e)"
  by (auto simp: scan_tick_def scan_start_def scan_advance_def scan_next_def scan_frame_def scan_prims
      split: option.splits resume_mode.splits scan_state.splits)

lemma scan_run_keeps:
  "scan_ok e \<Longrightarrow> scan_ok (scan_run busy ts e) \<and> scan_frame e (scan_run busy ts e)"
proof (induction busy ts e rule: scan_run.induct)
  case (2 busy tx now ts e)
  then show ?case by (auto intro: scan_tick_ok scan_frame_trans [OF scan_tick_frame])
qed simp

lemma scan_init_ok:
  assumes "scan_init True p mode dwell settle = Inr e"
  shows "scan_ok e \<and> se_active e = active_channels p \<and> se_priority e = sp_priority p \<and> se_obs e = [] \<and>
    se_state e = ScIdle \<and> se_mode e = mode \<and> se_dwell e = dwell \<and> se_settle e = settle"
proof -
  from assms have "e = \<lparr>se_active = active_channels p, se_priority = sp_priority p, se_mode = mode,
        se_dwell = dwell, se_settle = settle, se_state = ScIdle, se_i = 0, se_freq = None,
        se_channel = None, se_tuned_at = 0, se_deadline = 0, se_obs = []\<rparr>"
    by (simp add: scan_init_def)
  then show ?thesis by (simp add: scan_ok_def)
qed

text \<open>However the scan is ticked, whatever the radio answers and whenever the arbiter is
  transmitting, the engine tunes the radio to no frequency but a plan channel that is not locked out,
  or the priority channel; and while it listens, dwells or holds, the frequency it reports is the one
  the radio is really on.\<close>

theorem scan_tunes_only_plan:
  assumes "scan_init True p mode dwell settle = Inr e"
  shows "set (tunes (se_obs (scan_run busy ts e)))
           \<subseteq> {c \<in> set (sp_channels p). c \<notin> sp_lockout p} \<union> set_option (sp_priority p) \<and>
         (se_state (scan_run busy ts e) \<in> {ScListening, ScDwelling, ScHeld} \<longrightarrow>
            se_freq (scan_run busy ts e) = on_air (scan_run busy ts e) \<and>
            on_air (scan_run busy ts e) \<noteq> None)"
proof -
  from scan_init_ok [OF assms] scan_run_keeps [of e busy ts]
  have "scan_ok (scan_run busy ts e)" "se_active (scan_run busy ts e) = active_channels p"
    "se_priority (scan_run busy ts e) = sp_priority p"
    by (auto simp: scan_frame_def)
  moreover have "set (active_channels p) = {c \<in> set (sp_channels p). c \<notin> sp_lockout p}"
    by (auto simp: active_channels_def)
  ultimately show ?thesis unfolding scan_ok_def by (metis (no_types))
qed

definition demo_plan :: scan_plan where
  "demo_plan = \<lparr>sp_channels = [146520000, 146535000, 146550000], sp_lockout = {146535000},
     sp_priority = Some 146535000\<rparr>"

theorem scan_tunes_only_plan_witness:
  "\<exists>e. scan_init True demo_plan CARRIER 5 0 = Inr e \<and>
     set (tunes (se_obs (scan_run (\<lambda>n f. n = 1) [(False, 0), (False, 1), (False, 2)] e)))
       \<subseteq> {c \<in> set (sp_channels demo_plan). c \<notin> sp_lockout demo_plan} \<union> set_option (sp_priority demo_plan)"
proof -
  obtain e where e: "scan_init True demo_plan CARRIER 5 0 = Inr e" by (simp add: scan_init_def)
  show ?thesis using scan_tunes_only_plan [OF e, of "\<lambda>n f. n = 1" "[(False, 0), (False, 1), (False, 2)]"] e
    by blast
qed

subsection \<open>The sweep as a search\<close>

text \<open>The order in which a sweep peeks: the priority channel between any two plan channels.\<close>

fun peek_order :: "int option \<Rightarrow> int list \<Rightarrow> int list" where
  "peek_order q [] = []"
| "peek_order q [f] = [f]"
| "peek_order None (f # g # fs) = f # peek_order None (g # fs)"
| "peek_order (Some p) (f # g # fs) = f # p # peek_order (Some p) (g # fs)"

text \<open>A radio whose channels are steadily busy or clear.\<close>

definition steady :: "(int \<Rightarrow> bool) \<Rightarrow> nat \<Rightarrow> int option \<Rightarrow> bool" where
  "steady B n f = (case f of None \<Rightarrow> False | Some g \<Rightarrow> B g)"

text \<open>The elements looked at by a search: up to the first hit, included.\<close>

fun looked_at :: "('a \<Rightarrow> bool) \<Rightarrow> 'a list \<Rightarrow> 'a list" where
  "looked_at B [] = []"
| "looked_at B (x # xs) = (if B x then [x] else x # looked_at B xs)"

definition peek_from :: "nat \<Rightarrow> int option \<Rightarrow> int list \<Rightarrow> int list" where
  "peek_from idx q fs = (case q of Some p \<Rightarrow> if 0 < idx \<and> fs \<noteq> [] then p # peek_order q fs else peek_order q fs
     | None \<Rightarrow> peek_order q fs)"

lemma peek_order_None [simp]: "peek_order None fs = fs"
  by (induction "None :: int option" fs rule: peek_order.induct) auto

lemma peek_order_Some: "peek_order (Some p) (f # fs) = f # peek_from (Suc idx) (Some p) fs"
  by (cases fs) (auto simp: peek_from_def)

lemma sweep_loop_spec:
  "fst (sweep_loop (steady B) idx fs e) = find B (peek_from idx (se_priority e) fs) \<and>
   tunes (se_obs (snd (sweep_loop (steady B) idx fs e)))
     = tunes (se_obs e) @ looked_at B (peek_from idx (se_priority e) fs) \<and>
   (se_state (snd (sweep_loop (steady B) idx fs e)) = ScHeld \<longleftrightarrow>
      find B (peek_from idx (se_priority e) fs) \<noteq> None)"
proof (induction "steady B" idx fs e rule: sweep_loop.induct)
  case (1 idx e)
  show ?case by (simp add: peek_from_def split: option.splits)
next
  case (2 idx f fs e)
  show ?case
  proof (cases "se_priority e")
    case None
    with 2 show ?thesis by (auto simp: scan_prims steady_def peek_from_def)
  next
    case (Some p)
    note po = peek_order_Some [of p f fs idx]
    show ?thesis
    proof (cases "0 < idx")
      case False
      with 2 Some po show ?thesis by (auto simp: scan_prims steady_def peek_from_def)
    next
      case True
      with 2 Some po show ?thesis by (auto simp: scan_prims steady_def peek_from_def)
    qed
  qed
qed

text \<open>A sweep over a radio whose channels are steadily busy or clear is a search: it returns the
  first busy frequency of the active channels, the priority channel being peeked at between any two of
  them, and None when all are clear; it tunes exactly the frequencies up to that one, in that order, and
  ends held just when it found one.\<close>

theorem scan_sweep_searches:
  assumes "scan_init True p mode dwell settle = Inr e"
  shows "fst (scan_sweep (steady B) e) = find B (peek_order (sp_priority p) (active_channels p)) \<and>
         tunes (se_obs (snd (scan_sweep (steady B) e)))
           = looked_at B (peek_order (sp_priority p) (active_channels p)) \<and>
         (se_state (snd (scan_sweep (steady B) e)) = ScHeld \<longleftrightarrow>
            (\<exists>f \<in> set (peek_order (sp_priority p) (active_channels p)). B f))"
proof -
  note i = scan_init_ok [OF assms]
  have "peek_from 0 q fs = peek_order q fs" for q fs by (simp add: peek_from_def split: option.splits)
  with sweep_loop_spec [of B 0 "active_channels p" e] i show ?thesis
    by (auto simp: scan_sweep_def find_None_iff)
qed

theorem scan_sweep_searches_witness:
  "\<exists>e. scan_init True demo_plan CARRIER 5 0 = Inr e \<and>
     fst (scan_sweep (steady (\<lambda>f. f > 146530000)) e) = Some 146535000"
proof -
  obtain e where e: "scan_init True demo_plan CARRIER 5 0 = Inr e" by (simp add: scan_init_def)
  from scan_sweep_searches [OF e, of "\<lambda>f. f > 146530000"] e show ?thesis
    by (simp add: demo_plan_def active_channels_def)
qed

subsection \<open>A quiet band is visited cyclically\<close>

definition spaced :: "secs \<Rightarrow> secs list \<Rightarrow> bool" where
  "spaced d ts \<longleftrightarrow> successively (\<lambda>a b. a + d \<le> b) ts"

lemma quiet_tick:
  assumes "se_state e = ScListening" "se_priority e = None" "se_tuned_at e + se_settle e \<le> now"
    "se_active e \<noteq> []"
  shows "scan_tick (\<lambda>n f. False) False now e =
    scan_next now (snd (read_busy (\<lambda>n f. False) e))"
  using assms by (simp add: scan_tick_def scan_advance_def scan_prims)

lemma quiet_run:
  assumes "se_state e = ScListening" "se_priority e = None" "se_active e \<noteq> []"
    "spaced (se_settle e) (se_tuned_at e # ts)"
  shows "tunes (se_obs (scan_run (\<lambda>n f. False) (map (Pair False) ts) e)) =
    tunes (se_obs e) @ map (\<lambda>k. se_active e ! ((se_i e + k) mod length (se_active e))) [1..<Suc (length ts)]"
  using assms
proof (induction ts arbitrary: e)
  case (Cons t ts)
  let ?e = "scan_next t (snd (read_busy (\<lambda>n f. False) e))"
  have step: "scan_tick (\<lambda>n f. False) False t e = ?e"
    by (rule quiet_tick) (use Cons.prems in \<open>auto simp: spaced_def\<close>)
  have f: "se_state ?e = ScListening" "se_priority ?e = None" "se_active ?e = se_active e"
    "se_settle ?e = se_settle e" "se_tuned_at ?e = t" "se_i ?e = Suc (se_i e) mod length (se_active e)"
    "tunes (se_obs ?e) = tunes (se_obs e) @ [se_active e ! (Suc (se_i e) mod length (se_active e))]"
    using Cons.prems by (simp_all add: scan_next_def next_index_def scan_prims)
  have "tunes (se_obs (scan_run (\<lambda>n f. False) (map (Pair False) ts) ?e)) = tunes (se_obs ?e) @
      map (\<lambda>k. se_active e ! ((Suc (se_i e) mod length (se_active e) + k) mod length (se_active e)))
        [1..<Suc (length ts)]"
    using Cons.IH [of ?e] Cons.prems f by (simp add: spaced_def del: upt_Suc)
  also have "\<dots> = tunes (se_obs e) @
      map (\<lambda>k. se_active e ! ((se_i e + k) mod length (se_active e))) (1 # map Suc [1..<Suc (length ts)])"
    unfolding f(7) by (simp add: mod_add_left_eq del: upt_Suc)
  also have "1 # map Suc [1..<Suc (length ts)] = [1..<Suc (length (t # ts))]"
    by (simp add: map_Suc_upt upt_conv_Cons del: upt_Suc)
  finally show ?case using step by simp
qed simp

text \<open>On a quiet band, ticked no faster than the settle time and with no priority channel, the scan
  never stops and visits the active channels in plan order, wrapping round: the \<open>k\<close>-th tick tunes
  channel \<open>k mod n\<close>.\<close>

theorem scan_visits_cyclically:
  assumes "scan_init True p mode dwell settle = Inr e" "sp_priority p = None" "active_channels p \<noteq> []"
    and "spaced settle ts"
  shows "tunes (se_obs (scan_run (\<lambda>n f. False) (map (Pair False) ts) e)) =
    map (\<lambda>k. active_channels p ! (k mod length (active_channels p))) [0..<length ts]"
proof (cases ts)
  case Nil
  with scan_init_ok [OF assms(1)] show ?thesis by simp
next
  case (Cons t us)
  note i = scan_init_ok [OF assms(1)]
  let ?e = "scan_tick (\<lambda>n f. False) False t e"
  have f: "se_state ?e = ScListening" "se_priority ?e = None" "se_active ?e = active_channels p"
    "se_settle ?e = settle" "se_tuned_at ?e = t" "se_i ?e = 0" "tunes (se_obs ?e) = [active_channels p ! 0]"
    using i assms(2,3) by (simp_all add: scan_tick_def scan_start_def scan_prims)
  from quiet_run [of ?e us] f assms(3,4) Cons show ?thesis
    by (simp add: upt_conv_Cons spaced_def del: upt_Suc)
qed

theorem scan_visits_cyclically_witness:
  "\<exists>e. scan_init True (demo_plan\<lparr>sp_priority := None\<rparr>) CARRIER 5 1 = Inr e \<and>
     tunes (se_obs (scan_run (\<lambda>n f. False) (map (Pair False) [0, 1, 2]) e)) =
       [146520000, 146550000, 146520000]"
proof -
  obtain e where e: "scan_init True (demo_plan\<lparr>sp_priority := None\<rparr>) CARRIER 5 1 = Inr e"
    by (simp add: scan_init_def)
  have "active_channels (demo_plan\<lparr>sp_priority := None\<rparr>) = [146520000, 146550000]"
    by (simp add: demo_plan_def active_channels_def)
  with scan_visits_cyclically [OF e, of "[0, 1, 2]"] e show ?thesis
    by (simp add: spaced_def upt_conv_Cons)
qed

subsection \<open>The range plan\<close>

lemma plan_from_range_spec:
  "plan_from_range start stop step lk pr = Inl e \<Longrightarrow> step \<le> 0 \<or> stop < start"
  "plan_from_range start stop step lk pr = Inr p \<Longrightarrow>
     sorted_wrt (<) (sp_channels p) \<and> sp_lockout p = lk \<and> sp_priority p = pr \<and>
     (f \<in> set (sp_channels p) \<longleftrightarrow> start \<le> f \<and> f \<le> stop \<and> (f - start) mod step = 0)"
proof -
  assume "plan_from_range start stop step lk pr = Inl e"
  then show "step \<le> 0 \<or> stop < start" by (auto simp: plan_from_range_def split: if_splits)
next
  assume "plan_from_range start stop step lk pr = Inr p"
  then have "0 < step" "start \<le> stop"
    and p: "p = \<lparr>sp_channels = py_range (nat (stop + 1 - start)) start (stop + 1) step,
                sp_lockout = lk, sp_priority = pr\<rparr>"
    by (auto simp: plan_from_range_def split: if_splits)
  then show "sorted_wrt (<) (sp_channels p) \<and> sp_lockout p = lk \<and> sp_priority p = pr \<and>
     (f \<in> set (sp_channels p) \<longleftrightarrow> start \<le> f \<and> f \<le> stop \<and> (f - start) mod step = 0)"
    using py_range_mem [of step "stop + 1" start "nat (stop + 1 - start)" f]
      py_range_sorted [of step "nat (stop + 1 - start)" start "stop + 1"]
    unfolding p by (simp add: zless_add1_eq order_le_less)
qed

end
