(* ===== verification/Controller.thy ===== *)
theory Controller
  imports Auth StationId Scan
begin

section \<open>The controller loop\<close>

text \<open>
  \<open>Controller\<close> of \<open>radio_server/controller/engine.py\<close> with the \<open>Dispatcher\<close> of
  \<open>radio_server/services/dispatch.py\<close>: one iteration routes keyed entries through the gate, runs
  built-in commands and services, closes an idle session, forces the periodic station ID and ticks
  an attached scan. The gate and its session are those of Auth, the station ID that of StationId,
  the scan that of Scan.

  What the controller is constructed with is a \<open>ctl_config\<close>. The DTMF input's decoded entries are
  an argument of \<open>ctl_step\<close>; the event sink and the link hook are recorded and do not raise. A service
  is a function of the session that gives audio or raises. The clock stands still during one call,
  so the dispatcher's own clock reading is the step's \<open>now\<close>. The gate's dispatch hook is the
  dispatcher, as \<open>build_controller\<close> wires it; the gate calls it as its last action, so here the gate
  hands the digits back and the dispatcher runs right after it. \<open>cc_has_dispatcher\<close> is whether the
  controller holds it too, for \<open>trigger\<close>.
\<close>

datatype ctl_event =
    EvSessionOpen
  | EvId
  | EvSessionClose bool
  | EvTxFailed string exn
  | EvAuthAccepted
  | EvAuthRejected
  | EvCommand string
  | EvLink "string option"

record 'v ctl_config =
  cc_verify :: "('v \<Rightarrow> string \<Rightarrow> secs \<Rightarrow> bool \<times> 'v) option"
  cc_enforce :: bool
  cc_timeout :: secs
  cc_id :: id_config
  cc_registry :: "string \<Rightarrow> (string \<times> (session \<Rightarrow> exn + bytes)) option"
  cc_has_dispatcher :: bool
  cc_login_audio :: "bytes option"
  cc_timeout_audio :: "bytes option"
  cc_logout_audio :: "bytes option"
  cc_id_digits :: "string set"
  cc_logout_digits :: "string set"
  cc_link_digits :: "string \<Rightarrow> string option"
  cc_link_off_digits :: "string set"
  cc_link_audio :: "string \<Rightarrow> bytes option"
  cc_link_off_audio :: "bytes option"
  cc_busy :: "nat \<Rightarrow> int option \<Rightarrow> bool"

record 'v ctl =
  ct_verifier :: 'v
  ct_session :: session
  ct_station :: station
  ct_events :: "ctl_event list"
  ct_links :: "string option list"
  ct_scan :: "scan_engine option"

definition ctl_init :: "'v \<Rightarrow> 'v ctl" where
  "ctl_init v = \<lparr>ct_verifier = v, ct_session = session_init, ct_station = station_init, ct_events = [],
     ct_links = [], ct_scan = None\<rparr>"

definition ctl_emit :: "ctl_event \<Rightarrow> ('v ctl, unit) meth" where
  "ctl_emit ev = modifying (\<lambda>st. st\<lparr>ct_events := ct_events st @ [ev]\<rparr>)"

definition on_link :: "string option \<Rightarrow> ('v ctl, unit) meth" where
  "on_link slug = modifying (\<lambda>st. st\<lparr>ct_links := ct_links st @ [slug]\<rparr>)"

subsection \<open>Keying the station\<close>

text \<open>\<open>_keying\<close>: \<open>None\<close> is its \<open>False\<close>, the sentinel for a refused call.\<close>

definition keying :: "bool \<Rightarrow> string \<Rightarrow> (station, 'a) meth \<Rightarrow> ('v ctl, 'a option) meth" where
  "keying strict what call st =
     (case call (ct_station st) of
        (Inr x, s) \<Rightarrow> (Inr (Some x), st\<lparr>ct_station := s\<rparr>)
      | (Inl e, s) \<Rightarrow>
          andthen (ctl_emit (EvTxFailed what e))
            (\<lambda>_. if strict then raising e else returning None) (st\<lparr>ct_station := s\<rparr>))"

definition ctl_close_session ::
  "'v ctl_config \<Rightarrow> bool \<Rightarrow> secs \<Rightarrow> bytes option \<Rightarrow> ('v ctl, bool) meth" where
  "ctl_close_session c strict now audio =
     andthen (case audio of
                None \<Rightarrow> returning None
              | Some a \<Rightarrow> keying strict ''announcement'' (sid_transmit (cc_id c) a now))
       (\<lambda>_. andthen (keying strict ''station_id'' (sid_sign_off (cc_id c) now))
         (\<lambda>sent. andthen (ctl_emit (EvSessionClose (sent = Some True)))
           (\<lambda>_. returning (sent = Some True))))"

definition run_command :: "'v ctl_config \<Rightarrow> bool \<Rightarrow> string \<Rightarrow> secs \<Rightarrow> ('v ctl, bool) meth" where
  "run_command c strict digit now =
     (if digit \<in> cc_id_digits c then
        andthen (keying strict ''station_id'' (sid_identify (cc_id c) now))
          (\<lambda>r. andthen (if r \<noteq> None then ctl_emit EvId else returning ()) (\<lambda>_. returning True))
      else if digit \<in> cc_logout_digits c then
        (\<lambda>st. let (closed, s) = logout (ct_session st); st1 = st\<lparr>ct_session := s\<rparr> in
           if closed then
             andthen (ctl_close_session c strict now (cc_logout_audio c)) (\<lambda>_. returning True) st1
           else (Inr True, st1))
      else case cc_link_digits c digit of
        Some slug \<Rightarrow>
          andthen (on_link (Some slug))
            (\<lambda>_. andthen (case cc_link_audio c slug of
                            None \<Rightarrow> returning None
                          | Some a \<Rightarrow> keying strict ''announcement'' (sid_transmit (cc_id c) a now))
              (\<lambda>_. andthen (ctl_emit (EvLink (Some slug))) (\<lambda>_. returning True)))
      | None \<Rightarrow>
          (if digit \<in> cc_link_off_digits c then
             andthen (on_link None)
               (\<lambda>_. andthen (case cc_link_off_audio c of
                               None \<Rightarrow> returning None
                             | Some a \<Rightarrow> keying strict ''announcement'' (sid_transmit (cc_id c) a now))
                 (\<lambda>_. andthen (ctl_emit (EvLink None)) (\<lambda>_. returning True)))
           else returning False))"

subsection \<open>The dispatcher\<close>

record dispatch_result =
  dr_digits :: string
  dr_service :: "string option"
  dr_transmitted :: bool
  dr_error :: "exn option"

text \<open>A raising service escapes; a raising transmission is reported in the result.\<close>

definition dispatch_call ::
  "'v ctl_config \<Rightarrow> string \<Rightarrow> secs \<Rightarrow> ('v ctl, dispatch_result) meth" where
  "dispatch_call c digits now st =
     (case cc_registry c digits of
        None \<Rightarrow> (Inr \<lparr>dr_digits = digits, dr_service = None, dr_transmitted = False, dr_error = None\<rparr>, st)
      | Some (name, service) \<Rightarrow>
          (case service (ct_session st) of
             Inl e \<Rightarrow> (Inl e, st)
           | Inr audio \<Rightarrow>
               (case sid_transmit (cc_id c) audio now (ct_station st) of
                  (Inl e, s) \<Rightarrow>
                    (Inr \<lparr>dr_digits = digits, dr_service = Some name, dr_transmitted = False,
                          dr_error = Some e\<rparr>, st\<lparr>ct_station := s\<rparr>)
                | (Inr _, s) \<Rightarrow>
                    (Inr \<lparr>dr_digits = digits, dr_service = Some name, dr_transmitted = True,
                          dr_error = None\<rparr>, st\<lparr>ct_station := s\<rparr>))))"

subsection \<open>The API's two entries\<close>

record trigger_result =
  tr_builtin :: bool
  tr_service :: "string option"
  tr_transmitted :: bool

definition ctl_trigger :: "'v ctl_config \<Rightarrow> string \<Rightarrow> secs \<Rightarrow> ('v ctl, trigger_result) meth" where
  "ctl_trigger c digit now =
     andthen (run_command c True digit now)
       (\<lambda>b. if b then returning \<lparr>tr_builtin = True, tr_service = None, tr_transmitted = True\<rparr>
        else if \<not> cc_has_dispatcher c then
          returning \<lparr>tr_builtin = False, tr_service = None, tr_transmitted = False\<rparr>
        else
            andthen (dispatch_call c digit now)
              (\<lambda>r. andthen (case dr_error r of
                              Some e \<Rightarrow> ctl_emit (EvTxFailed ''service'' e) | None \<Rightarrow> returning ())
                (\<lambda>_. andthen (if dr_transmitted r then ctl_emit (EvCommand (the (dr_service r))) else returning ())
                  (\<lambda>_. returning \<lparr>tr_builtin = False, tr_service = dr_service r,
                                  tr_transmitted = dr_transmitted r\<rparr>))))"

record open_result =
  or_opened :: bool
  or_announced :: "bool option"

definition ctl_open_session :: "'v ctl_config \<Rightarrow> secs \<Rightarrow> ('v ctl, open_result) meth" where
  "ctl_open_session c now st =
     (let (opened, s) = open_session (ct_session st) now; st1 = st\<lparr>ct_session := s\<rparr> in
      if \<not> opened then (Inr \<lparr>or_opened = False, or_announced = None\<rparr>, st1)
      else andthen (case cc_login_audio c of
                      None \<Rightarrow> returning None
                    | Some a \<Rightarrow> andthen (keying False ''announcement'' (sid_transmit (cc_id c) a now))
                                  (\<lambda>r. returning (Some (r \<noteq> None))))
             (\<lambda>ann. andthen (ctl_emit EvAuthAccepted)
               (\<lambda>_. andthen (ctl_emit EvSessionOpen)
                 (\<lambda>_. returning \<lparr>or_opened = True, or_announced = ann\<rparr>)))
             (st1\<lparr>ct_station := sid_begin_session (ct_station st1)\<rparr>))"

subsection \<open>One iteration\<close>

definition arm_station :: "('v ctl, unit) meth" where
  "arm_station = modifying (\<lambda>st. st\<lparr>ct_station := sid_begin_session (ct_station st)\<rparr>)"

text \<open>The gate with the dispatcher behind it.\<close>

definition gate_entry ::
  "'v ctl_config \<Rightarrow> string \<Rightarrow> secs \<Rightarrow> ('v ctl, dispatch_result outcome) meth" where
  "gate_entry c entry now st =
     (let (r, (v, s)) = on_dtmf (cc_verify c) (\<lambda>d s. (Inr d, s)) (cc_enforce c) (cc_timeout c) entry now
                          (ct_verifier st, ct_session st);
          st1 = st\<lparr>ct_verifier := v, ct_session := s\<rparr>
      in case r of
           Inl e \<Rightarrow> (Inl e, st1)
         | Inr ACCEPTED \<Rightarrow> (Inr ACCEPTED, st1)
         | Inr REJECTED \<Rightarrow> (Inr REJECTED, st1)
         | Inr (COMMAND d) \<Rightarrow> andthen (dispatch_call c d now) (\<lambda>r. returning (COMMAND r)) st1)"

text \<open>
  The body of the loop over the entries: the outcome appended (without a dispatch result for the
  un-gated link disconnect) and whether the entry signed off.
\<close>

definition route_outcome ::
  "'v ctl_config \<Rightarrow> bool \<Rightarrow> secs \<Rightarrow> dispatch_result outcome \<Rightarrow> ('v ctl, bool) meth" where
  "route_outcome c was now outcome st =
     (case outcome of
        ACCEPTED \<Rightarrow>
          andthen arm_station
            (\<lambda>_. andthen (case cc_login_audio c of
                            None \<Rightarrow> returning None
                          | Some a \<Rightarrow> keying False ''announcement'' (sid_transmit (cc_id c) a now))
              (\<lambda>_. andthen (ctl_emit EvAuthAccepted)
                (\<lambda>_. andthen (ctl_emit EvSessionOpen) (\<lambda>_. returning False)))) st
      | REJECTED \<Rightarrow> andthen (ctl_emit EvAuthRejected) (\<lambda>_. returning False) st
      | COMMAND r \<Rightarrow>
          andthen (if \<not> was \<and> ss_authenticated (ct_session st)
                   then andthen arm_station (\<lambda>_. ctl_emit EvSessionOpen) else returning ())
            (\<lambda>_. andthen (case dr_error r of
                            Some e \<Rightarrow> ctl_emit (EvTxFailed ''service'' e) | None \<Rightarrow> returning ())
              (\<lambda>_. andthen (run_command c False (dr_digits r) now)
                (\<lambda>b. if b then returning (dr_digits r \<in> cc_logout_digits c)
                     else andthen (if dr_transmitted r then ctl_emit (EvCommand (the (dr_service r)))
                                   else returning ())
                            (\<lambda>_. returning False)))) st)"

definition route_entry ::
  "'v ctl_config \<Rightarrow> string \<Rightarrow> secs \<Rightarrow> ('v ctl, dispatch_result option outcome \<times> bool) meth" where
  "route_entry c entry now st =
     (if entry \<in> cc_link_off_digits c then
        andthen (run_command c False entry now) (\<lambda>_. returning (COMMAND None, False)) st
      else
        andthen (gate_entry c entry now)
          (\<lambda>outcome. andthen (route_outcome c (ss_authenticated (ct_session st)) now outcome)
            (\<lambda>so. returning (case outcome of ACCEPTED \<Rightarrow> ACCEPTED | REJECTED \<Rightarrow> REJECTED
                             | COMMAND r \<Rightarrow> COMMAND (Some r), so))) st)"

fun route_entries ::
  "'v ctl_config \<Rightarrow> string list \<Rightarrow> secs \<Rightarrow> ('v ctl, dispatch_result option outcome list \<times> bool) meth" where
  "route_entries c [] now = returning ([], False)"
| "route_entries c (e # es) now =
     andthen (route_entry c e now)
       (\<lambda>(o1, s1). andthen (route_entries c es now) (\<lambda>(os, s2). returning (o1 # os, s1 \<or> s2)))"

record step_result =
  sr_entries :: "string list"
  sr_outcomes :: "dispatch_result option outcome list"
  sr_session_open :: bool
  sr_id_sent :: bool
  sr_signed_off :: bool
  sr_scanning :: bool

text \<open>The idle close or the periodic ID, whichever applies.\<close>

definition ctl_upkeep :: "'v ctl_config \<Rightarrow> secs \<Rightarrow> ('v ctl, bool \<times> bool) meth" where
  "ctl_upkeep c now st =
     (let (expired, s) = expire_if_idle (cc_timeout c) (ct_session st) now; st1 = st\<lparr>ct_session := s\<rparr> in
      if expired then
        andthen (ctl_close_session c False now (cc_timeout_audio c)) (\<lambda>_. returning (False, True)) st1
      else if ss_authenticated (ct_session st1) then
        andthen (keying False ''station_id'' (sid_check (cc_id c) now))
          (\<lambda>r. andthen (if r = Some True then ctl_emit EvId else returning ())
            (\<lambda>_. returning (r = Some True, False))) st1
      else (Inr (False, False), st1))"

definition tick_scan :: "'v ctl_config \<Rightarrow> bool \<Rightarrow> secs \<Rightarrow> ('v ctl, bool) meth" where
  "tick_scan c transmitting now st =
     (case ct_scan st of
        None \<Rightarrow> (Inr False, st)
      | Some e \<Rightarrow> (Inr True, st\<lparr>ct_scan := Some (scan_tick (cc_busy c) transmitting now e)\<rparr>))"

definition ctl_step ::
  "'v ctl_config \<Rightarrow> bool \<Rightarrow> secs \<Rightarrow> string list \<Rightarrow> ('v ctl, step_result) meth" where
  "ctl_step c transmitting now entries =
     andthen (route_entries c entries now)
       (\<lambda>(outcomes, so1). andthen (ctl_upkeep c now)
         (\<lambda>(id_sent, so2). andthen (tick_scan c transmitting now)
           (\<lambda>scanning st.
              (Inr \<lparr>sr_entries = entries, sr_outcomes = outcomes,
                    sr_session_open = ss_authenticated (ct_session st), sr_id_sent = id_sent,
                    sr_signed_off = (so1 \<or> so2), sr_scanning = scanning\<rparr>, st))))"

text \<open>
  What drives a controller: the loop's steps (an escaping exception is dropped by the receive pump
  and the next frame is stepped again), the operator's service button and the operator's login.
\<close>

datatype ctl_op = OpStep bool secs "string list" | OpTrigger string secs | OpOpen secs

fun ctl_apply :: "'v ctl_config \<Rightarrow> ctl_op \<Rightarrow> 'v ctl \<Rightarrow> 'v ctl" where
  "ctl_apply c (OpStep tx now es) st = snd (ctl_step c tx now es st)"
| "ctl_apply c (OpTrigger d now) st = snd (ctl_trigger c d now st)"
| "ctl_apply c (OpOpen now) st = snd (ctl_open_session c now st)"

fun ctl_run :: "'v ctl_config \<Rightarrow> ctl_op list \<Rightarrow> 'v ctl \<Rightarrow> 'v ctl" where
  "ctl_run c [] st = st"
| "ctl_run c (op # ops) st = ctl_run c ops (ctl_apply c op st)"

subsection \<open>Without a login nothing goes on the air\<close>

lemma gate_entry_rejected:
  assumes "cc_enforce c" "cc_verify c = Some f" "\<not> ss_authenticated (ct_session st) \<or>
      cc_timeout c < now - ss_last_activity (ct_session st)"
    and "\<not> fst (f (ct_verifier st) e now)"
  shows "gate_entry c e now st = (Inr REJECTED, st\<lparr>ct_verifier := snd (f (ct_verifier st) e now),
    ct_session := \<lparr>ss_authenticated = False, ss_last_activity = now\<rparr>\<rparr>)"
  using assms
  by (cases "f (ct_verifier st) e now")
    (auto simp: gate_entry_def on_dtmf_def expire_if_idle_def Let_def)

lemma route_entry_rejected:
  assumes "cc_enforce c" "cc_verify c = Some f" "\<not> ss_authenticated (ct_session st) \<or>
      cc_timeout c < now - ss_last_activity (ct_session st)"
    and "\<not> fst (f (ct_verifier st) e now)" "e \<notin> cc_link_off_digits c"
  shows "route_entry c e now st = (Inr (REJECTED, False),
    st\<lparr>ct_verifier := snd (f (ct_verifier st) e now),
       ct_session := \<lparr>ss_authenticated = False, ss_last_activity = now\<rparr>,
       ct_events := ct_events st @ [EvAuthRejected]\<rparr>)"
  using gate_entry_rejected [OF assms(1-4)] assms(5)
  by (simp add: route_entry_def route_outcome_def ctl_emit_def)

definition locked_out :: "'v ctl \<Rightarrow> 'v ctl \<Rightarrow> nat \<Rightarrow> bool" where
  "locked_out st st' n \<longleftrightarrow> ct_station st' = ct_station st \<and> ct_links st' = ct_links st \<and>
     \<not> ss_authenticated (ct_session st') \<and> ct_events st' = ct_events st @ replicate n EvAuthRejected"

lemma locked_out_trans: "locked_out a b n \<Longrightarrow> locked_out b d m \<Longrightarrow> locked_out a d (n + m)"
  by (simp add: locked_out_def replicate_add)

lemma locked_out_entries:
  assumes "cc_enforce c" "cc_verify c = Some f" "\<not> ss_authenticated (ct_session st)"
    and "\<forall>e \<in> set es. e \<notin> cc_link_off_digits c \<and> (\<forall>v. \<not> fst (f v e now))"
  shows "\<exists>os st'. route_entries c es now st = (Inr (os, False), st') \<and> locked_out st st' (length es)"
  using assms(3,4)
proof (induction es arbitrary: st)
  case Nil
  then show ?case by (simp add: locked_out_def)
next
  case (Cons e es)
  from Cons.prems have "\<not> fst (f (ct_verifier st) e now)" "e \<notin> cc_link_off_digits c" by auto
  from route_entry_rejected [OF assms(1,2) _ this] Cons.prems(1)
  obtain s1 where s1: "route_entry c e now st = (Inr (REJECTED, False), s1)" "locked_out st s1 1"
    by (auto simp: locked_out_def)
  then have "\<not> ss_authenticated (ct_session s1)" by (simp add: locked_out_def)
  from Cons.IH [OF this] Cons.prems(2)
  obtain os s2 where s2: "route_entries c es now s1 = (Inr (os, False), s2)" "locked_out s1 s2 (length es)"
    by auto
  from locked_out_trans [OF s1(2) s2(2)] s1(1) s2(1) show ?case by simp
qed

lemma locked_out_step:
  assumes "cc_enforce c" "cc_verify c = Some f" "\<not> ss_authenticated (ct_session st)"
    and "\<forall>e \<in> set es. e \<notin> cc_link_off_digits c \<and> (\<forall>v. \<not> fst (f v e now))"
  shows "locked_out st (snd (ctl_step c tx now es st)) (length es)"
proof -
  from locked_out_entries [OF assms]
  obtain os s1 where s1: "route_entries c es now st = (Inr (os, False), s1)" "locked_out st s1 (length es)"
    by blast
  then have "ctl_upkeep c now s1 = (Inr (False, False), s1)"
    by (simp add: ctl_upkeep_def expire_if_idle_def locked_out_def)
  with s1 show ?thesis
    by (auto simp: ctl_step_def tick_scan_def locked_out_def andthen_def split: option.splits)
qed


text \<open>A small station: a fixed code, one service, the shipped built-in digits.\<close>

definition demo_ctl :: "string ctl_config" where
  "demo_ctl = \<lparr>cc_verify = Some fixed_verify, cc_enforce = True, cc_timeout = 300,
     cc_id = \<lparr>ic_interval = 600, ic_audio = Inr [1], ic_fault = (\<lambda>n. None)\<rparr>,
     cc_registry = (\<lambda>d. if d = ''1'' then Some (''time'', \<lambda>s. Inr [7]) else None),
     cc_has_dispatcher = True, cc_login_audio = Some [2], cc_timeout_audio = None, cc_logout_audio = None,
     cc_id_digits = {''4''}, cc_logout_digits = {''99''}, cc_link_digits = (\<lambda>d. None),
     cc_link_off_digits = {''98''}, cc_link_audio = (\<lambda>d. None), cc_link_off_audio = None,
     cc_busy = (\<lambda>n f. False)\<rparr>"

definition demo_start :: "string ctl" where
  "demo_start = ctl_init ''123456''"


subsection \<open>The session ledger\<close>

definition opens :: "ctl_event list \<Rightarrow> nat" where
  "opens evs = length (filter (\<lambda>e. e = EvSessionOpen) evs)"

definition closes :: "ctl_event list \<Rightarrow> nat" where
  "closes evs = length (filter (\<lambda>e. \<exists>b. e = EvSessionClose b) evs)"

text \<open>\<open>ledger_moves st st'\<close>: the opens and closes recorded match the change of the session.\<close>

definition of_auth :: "'v ctl \<Rightarrow> nat" where
  "of_auth st = (if ss_authenticated (ct_session st) then 1 else 0)"

definition ledger_ok :: "'v ctl \<Rightarrow> bool" where
  "ledger_ok st \<longleftrightarrow> opens (ct_events st) = closes (ct_events st) + of_auth st"

definition quiet :: "'v ctl \<Rightarrow> 'v ctl \<Rightarrow> bool" where
  "quiet st st' \<longleftrightarrow> ct_session st' = ct_session st \<and> opens (ct_events st') = opens (ct_events st) \<and>
     closes (ct_events st') = closes (ct_events st)"

lemma opens_closes_simps [simp]:
  "opens [] = 0" "opens (a @ b) = opens a + opens b"
  "opens (e # es) = (if e = EvSessionOpen then 1 else 0) + opens es"
  "closes [] = 0" "closes (a @ b) = closes a + closes b"
  "closes (e # es) = (case e of EvSessionClose x \<Rightarrow> 1 | _ \<Rightarrow> 0) + closes es"
  by (auto simp: opens_def closes_def split: ctl_event.splits)

lemma quiet_refl [simp]: "quiet st st"
  by (simp add: quiet_def)

lemma quiet_trans: "quiet a b \<Longrightarrow> quiet b d \<Longrightarrow> quiet a d"
  by (simp add: quiet_def)

lemma quiet_ledger: "quiet st st' \<Longrightarrow> ledger_ok st' = ledger_ok st"
  by (simp add: quiet_def ledger_ok_def of_auth_def)

lemma quiet_andthen:
  assumes "\<And>st. quiet st (snd (m st))" "\<And>x st. quiet st (snd (k x st))"
  shows "quiet st (snd (andthen m k st))"
proof (cases "m st")
  case (Pair r s)
  with assms(1) [of st] assms(2) [of s] show ?thesis
    by (cases r) (auto intro: quiet_trans)
qed

lemma quiet_prims [simp]:
  "quiet st (snd (returning x st))" "quiet st (snd (raising e st))" "quiet st (snd (on_link l st))"
  "quiet st (snd (arm_station st))"
  by (simp_all add: quiet_def on_link_def arm_station_def)

lemma quiet_emit [simp]:
  "e \<noteq> EvSessionOpen \<Longrightarrow> \<forall>b. e \<noteq> EvSessionClose b \<Longrightarrow> quiet st (snd (ctl_emit e st))"
  by (auto simp: quiet_def ctl_emit_def split: ctl_event.splits)

lemma quiet_station [simp]: "quiet st (st\<lparr>ct_station := s\<rparr>)"
  by (simp add: quiet_def)

lemma quiet_keying [simp]: "quiet st (snd (keying strict what call st))"
proof (cases "call (ct_station st)")
  case (Pair r s)
  show ?thesis
  proof (cases r)
    case (Inl e)
    have "quiet (st\<lparr>ct_station := s\<rparr>) (snd (andthen (ctl_emit (EvTxFailed what e))
            (\<lambda>_. if strict then raising e else returning None) (st\<lparr>ct_station := s\<rparr>)))"
      by (rule quiet_andthen) simp_all
    with Pair Inl show ?thesis by (auto simp: keying_def intro: quiet_trans [OF quiet_station])
  qed (use Pair in \<open>simp add: keying_def\<close>)
qed

lemma keying_lenient: "\<exists>r st'. keying False what call st = (Inr r, st') \<and> quiet st st'"
  using quiet_keying [of st False what call]
  by (cases "call (ct_station st)"; cases "fst (call (ct_station st))") (auto simp: keying_def ctl_emit_def)

lemma quiet_run_command:
  "digit \<notin> cc_logout_digits c \<Longrightarrow> quiet st (snd (run_command c strict digit now st))"
  by (auto simp: run_command_def intro!: quiet_andthen split: option.splits)

lemma close_session_lenient:
  "\<exists>b st'. ctl_close_session c False now audio st = (Inr b, st') \<and> ct_session st' = ct_session st \<and>
     opens (ct_events st') = opens (ct_events st) \<and> closes (ct_events st') = Suc (closes (ct_events st))"
proof -
  obtain r s1 where s1: "(case audio of None \<Rightarrow> returning None
      | Some a \<Rightarrow> keying False ''announcement'' (sid_transmit (cc_id c) a now)) st = (Inr r, s1)" "quiet st s1"
    using keying_lenient [of "''announcement''" "sid_transmit (cc_id c) (the audio) now" st]
    by (cases audio) auto
  obtain r2 s2 where s2: "keying False ''station_id'' (sid_sign_off (cc_id c) now) s1 = (Inr r2, s2)" "quiet s1 s2"
    using keying_lenient by blast
  from s1(2) s2(2) show ?thesis
    by (simp add: ctl_close_session_def s1(1) s2(1) ctl_emit_def quiet_def)
qed

text \<open>A built-in run without \<open>strict\<close> keeps the books, the logout included, and never raises.\<close>

definition books_kept :: "'v ctl \<Rightarrow> 'v ctl \<Rightarrow> bool" where
  "books_kept st st' \<longleftrightarrow> (ledger_ok st \<longrightarrow> ledger_ok st') \<and>
     (ct_session st' = ct_session st \<or> \<not> ss_authenticated (ct_session st'))"

lemma quiet_books: "quiet st st' \<Longrightarrow> books_kept st st'"
  by (simp add: books_kept_def quiet_ledger) (simp add: quiet_def)

lemma books_kept_trans: "books_kept a b \<Longrightarrow> quiet b d \<Longrightarrow> books_kept a d"
  by (auto simp: books_kept_def quiet_ledger) (auto simp: quiet_def)

lemma books_kept_trans2: "quiet a b \<Longrightarrow> books_kept b d \<Longrightarrow> books_kept a d"
  by (auto simp: books_kept_def quiet_ledger) (auto simp: quiet_def)

lemma run_command_books: "books_kept st (snd (run_command c False digit now st))"
proof (cases "digit \<in> cc_logout_digits c \<and> digit \<notin> cc_id_digits c")
  case False
  then have "quiet st (snd (run_command c False digit now st))"
    by (auto simp: run_command_def intro!: quiet_andthen split: option.splits)
  then show ?thesis by (rule quiet_books)
next
  case True
  let ?s1 = "st\<lparr>ct_session := snd (logout (ct_session st))\<rparr>"
  show ?thesis
  proof (cases "ss_authenticated (ct_session st)")
    case auth: True
    obtain b s2 where s2: "ctl_close_session c False now (cc_logout_audio c) ?s1 = (Inr b, s2)"
      "ct_session s2 = ct_session ?s1" "opens (ct_events s2) = opens (ct_events st)"
      "closes (ct_events s2) = Suc (closes (ct_events st))"
      using close_session_lenient [of c now "cc_logout_audio c" ?s1] by auto
    from True auth s2(1) have "snd (run_command c False digit now st) = s2"
      by (simp add: run_command_def logout_def)
    with auth s2 show ?thesis by (simp add: books_kept_def ledger_ok_def of_auth_def logout_def)
  next
    case unauth: False
    with True show ?thesis by (simp add: run_command_def logout_def quiet_books)
  qed
qed

lemma quiet_dispatch [simp]: "quiet st (snd (dispatch_call c d now st))"
  by (auto simp: dispatch_call_def quiet_def split: option.splits sum.splits prod.splits)

text \<open>Whoever is logged in has been active within the timeout.\<close>

definition live :: "'v ctl_config \<Rightarrow> secs \<Rightarrow> 'v ctl \<Rightarrow> bool" where
  "live c now st \<longleftrightarrow> (ss_authenticated (ct_session st) \<longrightarrow> now - ss_last_activity (ct_session st) \<le> cc_timeout c)"

lemma books_live: "books_kept st st' \<Longrightarrow> live c now st \<Longrightarrow> live c now st'"
  by (auto simp: books_kept_def live_def)

text \<open>What the gate does to a live session, with login enforced.\<close>

lemma gate_entry_live:
  assumes "cc_enforce c" "live c now st" "0 \<le> cc_timeout c"
  shows "case gate_entry c e now st of
      (Inl x, st') \<Rightarrow> of_auth st' = of_auth st \<and> ct_events st' = ct_events st \<and> live c now st'
    | (Inr ACCEPTED, st') \<Rightarrow> of_auth st = 0 \<and> of_auth st' = 1 \<and> ct_events st' = ct_events st \<and> live c now st'
    | (Inr REJECTED, st') \<Rightarrow> of_auth st = 0 \<and> of_auth st' = 0 \<and> ct_events st' = ct_events st \<and> live c now st'
    | (Inr (COMMAND r), st') \<Rightarrow> of_auth st = 1 \<and> of_auth st' = 1 \<and> ct_events st' = ct_events st \<and> live c now st'"
proof -
  have d: "of_auth (snd (dispatch_call c d now s)) = of_auth s \<and>
      ct_session (snd (dispatch_call c d now s)) = ct_session s \<and>
      ct_events (snd (dispatch_call c d now s)) = ct_events s" for d s
    by (auto simp: dispatch_call_def of_auth_def split: option.splits sum.splits prod.splits)
  show ?thesis
  proof (cases "ss_authenticated (ct_session st)")
    case True
    let ?s1 = "st\<lparr>ct_session := (ct_session st)\<lparr>ss_last_activity := now\<rparr>\<rparr>"
    from True assms have "gate_entry c e now st = andthen (dispatch_call c e now) (\<lambda>r. returning (COMMAND r)) ?s1"
      by (simp add: gate_entry_def on_dtmf_def expire_if_idle_def live_def Let_def)
    moreover obtain r s2 where s2: "dispatch_call c e now ?s1 = (r, s2)" by fastforce
    ultimately show ?thesis using d [of e ?s1] True assms(3)
      by (cases r) (auto simp: of_auth_def live_def)
  next
    case False
    with assms show ?thesis
      by (auto simp: gate_entry_def on_dtmf_def expire_if_idle_def Let_def of_auth_def live_def
        split: option.splits prod.splits)
  qed
qed

lemma route_entry_books:
  assumes "cc_enforce c" "live c now st" "0 \<le> cc_timeout c" "ledger_ok st"
  shows "ledger_ok (snd (route_entry c e now st)) \<and> live c now (snd (route_entry c e now st))"
proof (cases "e \<in> cc_link_off_digits c")
  case True
  have "snd (route_entry c e now st) = snd (run_command c False e now st)"
    using True by (auto simp: route_entry_def andthen_def split: prod.splits sum.splits)
  with run_command_books [of st c e now] books_live [of st _ c now] assms show ?thesis
    by (auto simp: books_kept_def)
next
  case False
  obtain r s1 where g: "gate_entry c e now st = (r, s1)" by fastforce
  note gl = gate_entry_live [OF assms(1-3), of e, unfolded g]
  let ?was = "ss_authenticated (ct_session st)"
  show ?thesis
  proof (cases r)
    case (Inl x)
    with False g gl assms(4) show ?thesis by (simp add: route_entry_def ledger_ok_def)
  next
    case (Inr out)
    have fin: "snd (route_entry c e now st) = snd (route_outcome c ?was now out s1)"
      using False g Inr by (auto simp: route_entry_def andthen_def split: prod.splits sum.splits)
    show ?thesis
    proof (cases out)
      case ACCEPTED
      let ?s2 = "snd (arm_station s1)"
      have as: "arm_station s1 = (Inr (), ?s2)" "quiet s1 ?s2" by (simp_all add: arm_station_def)
      obtain a s3 where s3: "(case cc_login_audio c of None \<Rightarrow> returning None
          | Some a \<Rightarrow> keying False ''announcement'' (sid_transmit (cc_id c) a now)) ?s2 = (Inr a, s3)"
        "quiet ?s2 s3"
        using keying_lenient [of "''announcement''" "sid_transmit (cc_id c) (the (cc_login_audio c)) now" ?s2]
        by (cases "cc_login_audio c") auto
      from quiet_trans [OF as(2) s3(2)] have q: "quiet s1 s3" .
      have "snd (route_outcome c ?was now out s1) = s3\<lparr>ct_events := ct_events s3 @ [EvAuthAccepted] @ [EvSessionOpen]\<rparr>"
        using ACCEPTED as(1) s3(1) by (simp add: route_outcome_def ctl_emit_def)
      with fin q gl Inr ACCEPTED assms(4) show ?thesis
        by (simp add: ledger_ok_def of_auth_def quiet_def live_def split: if_splits)
    next
      case REJECTED
      with fin gl Inr assms(4) show ?thesis
        by (simp add: route_outcome_def ctl_emit_def ledger_ok_def of_auth_def live_def)
    next
      case (COMMAND d)
      let ?e = "case dr_error d of Some e \<Rightarrow> ctl_emit (EvTxFailed ''service'' e) | None \<Rightarrow> returning ()"
      have "quiet s1 (snd (?e s1))" by (simp split: option.splits)
      moreover obtain s2 where s2: "?e s1 = (Inr (), s2)"
        by (cases "dr_error d") (auto simp: ctl_emit_def)
      ultimately have q2: "quiet s1 s2" by simp
      obtain b s3 where s3: "run_command c False (dr_digits d) now s2 = (b, s3)" by fastforce
      from books_kept_trans2 [OF q2] run_command_books [of s2 c "dr_digits d" now] s3
      have b3: "books_kept s1 s3" by simp
      from gl Inr COMMAND have auth: "?was" by (simp add: of_auth_def split: if_splits)
      have "quiet s3 (snd (route_outcome c ?was now out s1))"
      proof (cases b)
        case (Inl x)
        with COMMAND auth s2 s3 show ?thesis by (simp add: route_outcome_def)
      next
        case (Inr bb)
        then have "snd (route_outcome c ?was now out s1) =
          snd ((if bb then returning (dr_digits d \<in> cc_logout_digits c)
               else andthen (if dr_transmitted d then ctl_emit (EvCommand (the (dr_service d))) else returning ())
                            (\<lambda>_. returning False)) s3)"
          using COMMAND auth s2 s3 by (simp add: route_outcome_def)
        then show ?thesis by (auto intro: quiet_andthen)
      qed
      with b3 have "books_kept s1 (snd (route_outcome c ?was now out s1))" by (rule books_kept_trans)
      with fin gl Inr COMMAND assms(4) books_live [of s1 _ c now] show ?thesis
        by (auto simp: books_kept_def ledger_ok_def)
    qed
  qed
qed

lemma route_entries_books:
  assumes "cc_enforce c" "0 \<le> cc_timeout c"
  shows "live c now st \<Longrightarrow> ledger_ok st \<Longrightarrow>
    ledger_ok (snd (route_entries c es now st)) \<and> live c now (snd (route_entries c es now st))"
proof (induction es arbitrary: st)
  case (Cons e es)
  obtain r s1 where s1: "route_entry c e now st = (r, s1)" by fastforce
  with route_entry_books [OF assms(1) Cons.prems(1) assms(2) Cons.prems(2), of e]
  have "ledger_ok s1" "live c now s1" by simp_all
  from Cons.IH [OF this(2,1)] s1 this show ?case
    by (cases r) (auto simp: andthen_def split: prod.splits sum.splits)
qed simp

lemma upkeep_books: "ledger_ok st \<Longrightarrow> ledger_ok (snd (ctl_upkeep c now st))"
proof -
  assume l: "ledger_ok st"
  let ?x = "expire_if_idle (cc_timeout c) (ct_session st) now"
  show ?thesis
  proof (cases "fst ?x")
    case True
    let ?s1 = "st\<lparr>ct_session := snd ?x\<rparr>"
    obtain b s2 where s2: "ctl_close_session c False now (cc_timeout_audio c) ?s1 = (Inr b, s2)"
      "ct_session s2 = ct_session ?s1" "opens (ct_events s2) = opens (ct_events st)"
      "closes (ct_events s2) = Suc (closes (ct_events st))"
      using close_session_lenient [of c now "cc_timeout_audio c" ?s1] by auto
    from True s2(1) have "snd (ctl_upkeep c now st) = s2"
      by (cases ?x) (simp add: ctl_upkeep_def)
    with s2 True l show ?thesis
      by (auto simp: ledger_ok_def of_auth_def expire_if_idle_def split: if_splits)
  next
    case False
    then have x: "?x = (False, ct_session st)" by (auto simp: expire_if_idle_def split: if_splits)
    obtain r s2 where s2: "keying False ''station_id'' (sid_check (cc_id c) now) st = (Inr r, s2)" "quiet st s2"
      using keying_lenient by blast
    have "quiet s2 (snd (andthen (if r = Some True then ctl_emit EvId else returning ())
            (\<lambda>_. returning (r = Some True, False)) s2))"
      by (rule quiet_andthen) auto
    with s2 x l show ?thesis
      by (auto simp: ctl_upkeep_def dest: quiet_trans quiet_ledger)
  qed
qed

lemma tick_scan_books: "ledger_ok (snd (tick_scan c tx now st)) = ledger_ok st"
  by (auto simp: tick_scan_def ledger_ok_def of_auth_def split: option.splits)

lemma tick_scan_frame [simp]:
  "ct_session (snd (tick_scan c tx now st)) = ct_session st" "ct_events (snd (tick_scan c tx now st)) = ct_events st"
  "ct_station (snd (tick_scan c tx now st)) = ct_station st"
  by (auto simp: tick_scan_def split: option.splits)

lemma ctl_step_state:
  "route_entries c es now st = (Inr os, s1) \<Longrightarrow> ctl_upkeep c now s1 = (Inr u, s2) \<Longrightarrow>
     snd (ctl_step c tx now es st) = snd (tick_scan c tx now s2)"
  by (cases os; cases u) (auto simp: ctl_step_def tick_scan_def andthen_def split: option.splits)

lemma step_books:
  assumes "cc_enforce c" "0 \<le> cc_timeout c" "ledger_ok st" "es = [] \<or> live c now st"
  shows "ledger_ok (snd (ctl_step c tx now es st))"
proof -
  obtain r s1 where s1: "route_entries c es now st = (r, s1)" by fastforce
  with route_entries_books [OF assms(1,2) _ assms(3), of now es] assms(3,4) have l1: "ledger_ok s1"
    by (cases es) auto
  show ?thesis
  proof (cases r)
    case (Inl e)
    with s1 l1 show ?thesis by (simp add: ctl_step_def)
  next
    case (Inr os)
    obtain u s2 where s2: "ctl_upkeep c now s1 = (u, s2)" by fastforce
    with upkeep_books [OF l1, of c now] have l2: "ledger_ok s2" by simp
    from s1 s2 Inr l2 tick_scan_books [of c tx now s2] show ?thesis
      by (cases u; cases os) (auto simp: ctl_step_def andthen_def split: prod.splits sum.splits)
  qed
qed

lemma open_books: "ledger_ok st \<Longrightarrow> ledger_ok (snd (ctl_open_session c now st))"
proof -
  assume l: "ledger_ok st"
  let ?s1 = "st\<lparr>ct_session := snd (open_session (ct_session st) now)\<rparr>"
  let ?s2 = "?s1\<lparr>ct_station := sid_begin_session (ct_station ?s1)\<rparr>"
  let ?m = "case cc_login_audio c of None \<Rightarrow> returning None
    | Some a \<Rightarrow> andthen (keying False ''announcement'' (sid_transmit (cc_id c) a now)) (\<lambda>r. returning (Some (r \<noteq> None)))"
  obtain a s3 where s3: "?m ?s2 = (Inr a, s3)" "quiet ?s2 s3"
    using keying_lenient [of "''announcement''" "sid_transmit (cc_id c) (the (cc_login_audio c)) now" ?s2]
    by (cases "cc_login_audio c") auto
  show ?thesis
  proof (cases "ss_authenticated (ct_session st)")
    case True
    with l show ?thesis by (simp add: ctl_open_session_def open_session_def ledger_ok_def of_auth_def Let_def)
  next
    case False
    with s3(1) have "snd (ctl_open_session c now st) = s3\<lparr>ct_events := ct_events s3 @ [EvAuthAccepted] @ [EvSessionOpen]\<rparr>"
      by (simp add: ctl_open_session_def open_session_def ctl_emit_def Let_def)
    with s3(2) False l show ?thesis
      by (simp add: ledger_ok_def of_auth_def quiet_def open_session_def Let_def)
  qed
qed

lemma quiet_trigger:
  assumes "digit \<notin> cc_logout_digits c"
  shows "quiet st (snd (ctl_trigger c digit now st))"
proof -
  have "quiet s (snd ((if b then returning \<lparr>tr_builtin = True, tr_service = None, tr_transmitted = True\<rparr>
        else if \<not> cc_has_dispatcher c then
          returning \<lparr>tr_builtin = False, tr_service = None, tr_transmitted = False\<rparr>
        else
            andthen (dispatch_call c digit now)
              (\<lambda>r. andthen (case dr_error r of
                              Some e \<Rightarrow> ctl_emit (EvTxFailed ''service'' e) | None \<Rightarrow> returning ())
                (\<lambda>_. andthen (if dr_transmitted r then ctl_emit (EvCommand (the (dr_service r))) else returning ())
                  (\<lambda>_. returning \<lparr>tr_builtin = False, tr_service = dr_service r,
                                  tr_transmitted = dr_transmitted r\<rparr>)))) s))" for b s
    by (auto intro!: quiet_andthen split: option.splits)
  then show ?thesis unfolding ctl_trigger_def
    by (intro quiet_andthen quiet_run_command [OF assms]) blast
qed

text \<open>
  When the books can be trusted: no entry reaches the gate of a session that has been idle past the
  timeout, and the service button is not used for the forced logout. The two theorems after this one
  show what happens otherwise.
\<close>

fun op_prompt :: "'v ctl_config \<Rightarrow> ctl_op \<Rightarrow> 'v ctl \<Rightarrow> bool" where
  "op_prompt c (OpStep tx now es) st = (es = [] \<or> live c now st)"
| "op_prompt c (OpTrigger d now) st = (d \<notin> cc_logout_digits c)"
| "op_prompt c (OpOpen now) st = True"

fun prompt :: "'v ctl_config \<Rightarrow> ctl_op list \<Rightarrow> 'v ctl \<Rightarrow> bool" where
  "prompt c [] st = True"
| "prompt c (op # ops) st = (op_prompt c op st \<and> prompt c ops (ctl_apply c op st))"



text \<open>A session that is idle past the timeout when a wrong code is keyed, before the loop has polled
  it, is dropped by the gate itself: the iteration records the rejection but no close, and the station
  does not send its closing ID, although it would have done both had nothing been keyed.\<close>

theorem idle_session_lost_to_entry:
  assumes "cc_enforce c" "cc_verify c = Some f" "ss_authenticated (ct_session st)"
    and "cc_timeout c < now - ss_last_activity (ct_session st)"
    and "e \<notin> cc_link_off_digits c" "\<not> fst (f (ct_verifier st) e now)"
  shows "let lost = snd (ctl_step c tx now [e] st); polled = snd (ctl_step c tx now [] st) in
    \<not> ss_authenticated (ct_session lost) \<and> ct_station lost = ct_station st \<and>
    ct_events lost = ct_events st @ [EvAuthRejected] \<and>
    \<not> ss_authenticated (ct_session polled) \<and> closes (ct_events polled) = Suc (closes (ct_events st))"
proof -
  let ?s1 = "st\<lparr>ct_verifier := snd (f (ct_verifier st) e now),
       ct_session := \<lparr>ss_authenticated = False, ss_last_activity = now\<rparr>,
       ct_events := ct_events st @ [EvAuthRejected]\<rparr>"
  from route_entry_rejected [OF assms(1,2) _ assms(6,5)] assms(4)
  have "route_entries c [e] now st = (Inr ([REJECTED], False), ?s1)" by simp
  moreover have "ctl_upkeep c now ?s1 = (Inr (False, False), ?s1)"
    by (simp add: ctl_upkeep_def expire_if_idle_def)
  ultimately have lost: "snd (ctl_step c tx now [e] st) = snd (tick_scan c tx now ?s1)"
    by (rule ctl_step_state)
  let ?p1 = "st\<lparr>ct_session := (ct_session st)\<lparr>ss_authenticated := False\<rparr>\<rparr>"
  obtain b p2 where p2: "ctl_close_session c False now (cc_timeout_audio c) ?p1 = (Inr b, p2)"
    "ct_session p2 = ct_session ?p1" "closes (ct_events p2) = Suc (closes (ct_events st))"
    using close_session_lenient [of c now "cc_timeout_audio c" ?p1] by auto
  then have "ctl_upkeep c now st = (Inr (False, True), p2)"
    using assms(3,4) by (simp add: ctl_upkeep_def expire_if_idle_def)
  then have "snd (ctl_step c tx now [] st) = snd (tick_scan c tx now p2)"
    by (intro ctl_step_state) simp_all
  with lost p2 show ?thesis by (simp add: Let_def)
qed

theorem idle_session_lost_to_entry_witness:
  "let st = ctl_run demo_ctl [OpOpen 5] demo_start; lost = snd (ctl_step demo_ctl False 400 [''111''] st) in
     ct_events lost = ct_events st @ [EvAuthRejected] \<and> ct_station lost = ct_station st"
proof -
  let ?st = "ctl_run demo_ctl [OpOpen 5] demo_start"
  have a: "ss_authenticated (ct_session ?st)" and l: "ss_last_activity (ct_session ?st) = 5"
    and v: "ct_verifier ?st = ''123456''"
    by (simp_all add: ctl_open_session_def open_session_def demo_ctl_def demo_start_def ctl_init_def
      session_init_def Let_def keying_def sid_transmit_def sid_radio_def sid_id_audio_def sid_begin_session_def
      sid_reset_def station_init_def id_due_def ctl_emit_def andthen_def)
  have c: "cc_enforce demo_ctl" "cc_verify demo_ctl = Some fixed_verify" "cc_timeout demo_ctl = 300"
    "''111'' \<notin> cc_link_off_digits demo_ctl"
    by (simp_all add: demo_ctl_def)
  have "cc_timeout demo_ctl < 400 - ss_last_activity (ct_session ?st)" unfolding c(3) l by simp
  moreover have "\<not> fst (fixed_verify (ct_verifier ?st) ''111'' 400)" unfolding v by (simp add: fixed_verify_def)
  ultimately have t: "cc_timeout demo_ctl < 400 - ss_last_activity (ct_session ?st)"
    "\<not> fst (fixed_verify (ct_verifier ?st) ''111'' 400)" by blast+
  from idle_session_lost_to_entry [OF c(1,2) a t(1) c(4) t(2), of False] show ?thesis
    by (simp add: Let_def)
qed

text \<open>The service button's forced logout, on a radio that refuses the closing ID, closes the session
  and raises before the close is recorded: the ledger keeps a session that is no longer open.\<close>

theorem trigger_logout_unrecorded:
  assumes "digit \<in> cc_logout_digits c" "digit \<notin> cc_id_digits c" "cc_logout_audio c = None"
    and "ss_authenticated (ct_session st)" "sid_transmitted (ct_station st)"
    and "ic_audio (cc_id c) = Inr i" "ic_fault (cc_id c) (sid_attempts (ct_station st)) = Some x"
  shows "fst (ctl_trigger c digit now st) = Inl x \<and>
    \<not> ss_authenticated (ct_session (snd (ctl_trigger c digit now st))) \<and>
    ct_events (snd (ctl_trigger c digit now st)) = ct_events st @ [EvTxFailed ''station_id'' x]"
  using assms
  by (simp add: ctl_trigger_def run_command_def logout_def ctl_close_session_def keying_def sid_sign_off_def
    sid_id_audio_def sid_radio_def ctl_emit_def andthen_def Let_def)

theorem trigger_logout_unrecorded_witness:
  "let c = demo_ctl\<lparr>cc_id := (cc_id demo_ctl)\<lparr>ic_fault := (\<lambda>n. if n = 1 then Some (Fault 0) else None)\<rparr>\<rparr>;
       st = demo_start\<lparr>ct_session := \<lparr>ss_authenticated = True, ss_last_activity = 5\<rparr>,
              ct_station := station_init\<lparr>sid_transmitted := True, sid_attempts := 1\<rparr>\<rparr>
   in ct_events (snd (ctl_trigger c ''99'' 7 st)) = ct_events st @ [EvTxFailed ''station_id'' (Fault 0)]"
  using trigger_logout_unrecorded [of "''99''"
      "demo_ctl\<lparr>cc_id := (cc_id demo_ctl)\<lparr>ic_fault := (\<lambda>n. if n = 1 then Some (Fault 0) else None)\<rparr>\<rparr>"
      "demo_start\<lparr>ct_session := \<lparr>ss_authenticated = True, ss_last_activity = 5\<rparr>,
              ct_station := station_init\<lparr>sid_transmitted := True, sid_attempts := 1\<rparr>\<rparr>" "[1]" "Fault 0" 7]
  by (simp add: demo_ctl_def Let_def)

end
