(* ===== verification/Dtmf.thy ===== *)
theory Dtmf
  imports Prelude
begin

section \<open>DTMF: from detector blocks to entries\<close>

text \<open>
  \<open>radio_server/audio/dtmf.py\<close>: the key table, the per-block classification of the native detector on
  its sixteen tone powers, the onset/gap machine \<open>GoertzelStream._advance\<close>, the window de-duplication
  of \<open>BufferedDtmfInput\<close>, the line parser of the multimon decoders and the framing grammar. The
  signal processing itself (resampling, the matrix product that gives the powers) is numpy and soxr:
  what it yields for a frame is an argument here. Powers are real numbers.
\<close>

definition DTMF_FREQS :: "(char \<times> int \<times> int) list" where
  "DTMF_FREQS =
     [(CHR ''1'', 697, 1209), (CHR ''2'', 697, 1336), (CHR ''3'', 697, 1477), (CHR ''A'', 697, 1633),
      (CHR ''4'', 770, 1209), (CHR ''5'', 770, 1336), (CHR ''6'', 770, 1477), (CHR ''B'', 770, 1633),
      (CHR ''7'', 852, 1209), (CHR ''8'', 852, 1336), (CHR ''9'', 852, 1477), (CHR ''C'', 852, 1633),
      (CHR ''*'', 941, 1209), (CHR ''0'', 941, 1336), (CHR ''#'', 941, 1477), (CHR ''D'', 941, 1633)]"

definition NATIVE_LOWS :: "int list" where
  "NATIVE_LOWS = sort (remdups (map (\<lambda>x. fst (snd x)) DTMF_FREQS))"

definition NATIVE_HIGHS :: "int list" where
  "NATIVE_HIGHS = sort (remdups (map (\<lambda>x. snd (snd x)) DTMF_FREQS))"

definition NATIVE_KEY_BY_PAIR :: "int \<times> int \<Rightarrow> char option" where
  "NATIVE_KEY_BY_PAIR p = map_of (map (\<lambda>(k, lo, hi). ((lo, hi), k)) DTMF_FREQS) p"

definition SUBMIT :: char where "SUBMIT = CHR ''#''"
definition CLEAR :: char where "CLEAR = CHR ''*''"
definition NATIVE_ONSET_BLOCKS :: nat where "NATIVE_ONSET_BLOCKS = 1"
definition NATIVE_RELEASE_BLOCKS :: nat where "NATIVE_RELEASE_BLOCKS = 1"
definition NATIVE_ENERGY_FLOOR :: real where "NATIVE_ENERGY_FLOOR = 2 / 1000"
definition NATIVE_GROUP_DOMINANCE :: real where "NATIVE_GROUP_DOMINANCE = 4"
definition NATIVE_SECOND_HARMONIC :: real where "NATIVE_SECOND_HARMONIC = 4"

subsection \<open>Classifying one block\<close>

text \<open>\<open>numpy.argmax\<close>: the first index of the maximum; \<open>numpy.delete\<close> of one index.\<close>

definition argmax :: "real list \<Rightarrow> nat" where
  "argmax xs = length (takeWhile (\<lambda>x. x \<noteq> Max (set xs)) xs)"

definition np_delete :: "real list \<Rightarrow> nat \<Rightarrow> real list" where
  "np_delete xs i = take i xs @ drop (Suc i) xs"

definition gz_classify ::
  "real \<Rightarrow> real \<Rightarrow> real list \<Rightarrow> real list \<Rightarrow> real list \<Rightarrow> real list \<Rightarrow> char option" where
  "gz_classify forward_twist reverse_twist lo hi lo_h2 hi_h2 =
     (let li = argmax lo; hj = argmax hi; lo_max = lo ! li; hi_max = hi ! hj in
      if lo_max < NATIVE_ENERGY_FLOOR \<or> hi_max < NATIVE_ENERGY_FLOOR then None
      else let lo_rest = Max (set (np_delete lo li)); hi_rest = Max (set (np_delete hi hj)) in
      if lo_max < NATIVE_GROUP_DOMINANCE * lo_rest \<or> hi_max < NATIVE_GROUP_DOMINANCE * hi_rest then None
      else if forward_twist * lo_max < hi_max \<or> reverse_twist * hi_max < lo_max then None
      else if lo_max < NATIVE_SECOND_HARMONIC * lo_h2 ! li \<or> hi_max < NATIVE_SECOND_HARMONIC * hi_h2 ! hj then None
      else NATIVE_KEY_BY_PAIR (NATIVE_LOWS ! li, NATIVE_HIGHS ! hj))"

subsection \<open>The onset/gap machine\<close>

record goertzel =
  gz_keys :: string
  gz_held :: "char option"
  gz_gap_run :: nat
  gz_candidate :: "char option"
  gz_candidate_run :: nat
  gz_closed :: bool

definition gz_init :: goertzel where
  "gz_init = \<lparr>gz_keys = [], gz_held = None, gz_gap_run = 0, gz_candidate = None, gz_candidate_run = 0,
     gz_closed = False\<rparr>"

definition gz_advance :: "char option \<Rightarrow> goertzel \<Rightarrow> goertzel" where
  "gz_advance digit g =
     (if digit \<noteq> None \<and> digit = gz_held g then g\<lparr>gz_gap_run := 0\<rparr>
      else
        let g1 = g\<lparr>gz_gap_run := gz_gap_run g + 1\<rparr>;
            g2 = (if NATIVE_RELEASE_BLOCKS \<le> gz_gap_run g1 then g1\<lparr>gz_held := None\<rparr> else g1)
        in case digit of
             None \<Rightarrow> g2\<lparr>gz_candidate := None, gz_candidate_run := 0\<rparr>
           | Some d \<Rightarrow>
               (let g3 = (if digit = gz_candidate g2 then g2\<lparr>gz_candidate_run := gz_candidate_run g2 + 1\<rparr>
                          else g2\<lparr>gz_candidate := digit, gz_candidate_run := 1\<rparr>)
                in if NATIVE_ONSET_BLOCKS \<le> gz_candidate_run g3 \<and> gz_held g3 = None then
                     g3\<lparr>gz_keys := gz_keys g3 @ [d], gz_held := digit, gz_gap_run := 0,
                        gz_candidate := None, gz_candidate_run := 0\<rparr>
                   else g3))"

text \<open>\<open>write\<close>, given the classifications of the blocks the chunk completes.\<close>

definition gz_write :: "char option list \<Rightarrow> goertzel \<Rightarrow> goertzel" where
  "gz_write blocks g = (if gz_closed g then g else fold gz_advance blocks g)"

definition gz_read :: "goertzel \<Rightarrow> string \<times> goertzel" where
  "gz_read g = (gz_keys g, g\<lparr>gz_keys := []\<rparr>)"

definition gz_close :: "goertzel \<Rightarrow> goertzel" where
  "gz_close g = g\<lparr>gz_closed := True\<rparr>"

subsection \<open>The framer\<close>

record framer =
  fr_buffer :: string
  fr_last_at :: "secs option"

definition framer_init :: framer where
  "framer_init = \<lparr>fr_buffer = [], fr_last_at = None\<rparr>"

definition fr_expire :: "secs \<Rightarrow> secs \<Rightarrow> framer \<Rightarrow> framer" where
  "fr_expire timeout now f =
     (case fr_last_at f of
        None \<Rightarrow> f
      | Some t \<Rightarrow> if fr_buffer f \<noteq> [] \<and> timeout \<le> now - t then f\<lparr>fr_buffer := []\<rparr> else f)"

definition fr_feed :: "secs \<Rightarrow> char \<Rightarrow> secs \<Rightarrow> framer \<Rightarrow> string option \<times> framer" where
  "fr_feed timeout digit now f =
     (let f1 = (fr_expire timeout now f)\<lparr>fr_last_at := Some now\<rparr> in
      if digit = CLEAR then (None, f1\<lparr>fr_buffer := []\<rparr>)
      else if digit = SUBMIT then
        (if fr_buffer f1 = [] then (None, f1) else (Some (fr_buffer f1), f1\<lparr>fr_buffer := []\<rparr>))
      else (None, f1\<lparr>fr_buffer := fr_buffer f1 @ [digit]\<rparr>))"

definition fr_tick :: "secs \<Rightarrow> secs \<Rightarrow> framer \<Rightarrow> framer" where
  "fr_tick timeout now f = fr_expire timeout now f"

text \<open>The loop over decoded keys, which \<open>DtmfInput.pump\<close> and \<open>StreamingDtmfInput._feed\<close> share.\<close>

fun feed_keys :: "secs \<Rightarrow> string \<Rightarrow> secs \<Rightarrow> framer \<Rightarrow> string list \<times> framer" where
  "feed_keys timeout [] now f = ([], f)"
| "feed_keys timeout (d # ds) now f =
     (let (e, f1) = fr_feed timeout d now f; (es, f2) = feed_keys timeout ds now f1
      in (case e of None \<Rightarrow> es | Some x \<Rightarrow> x # es, f2))"

subsection \<open>The two inputs\<close>

record streaming_input =
  si_stream :: goertzel
  si_framer :: framer
  si_heard :: string

text \<open>\<open>pump\<close>: the key hook hears every key, then the framer gets it.\<close>

definition si_feed :: "secs \<Rightarrow> secs \<Rightarrow> streaming_input \<Rightarrow> string list \<times> streaming_input" where
  "si_feed timeout now s =
     (let (digits, g) = gz_read (si_stream s); (es, f) = feed_keys timeout digits now (si_framer s)
      in (es, s\<lparr>si_stream := g, si_framer := f, si_heard := si_heard s @ digits\<rparr>))"

definition si_pump ::
  "secs \<Rightarrow> char option list \<Rightarrow> secs \<Rightarrow> streaming_input \<Rightarrow> string list \<times> streaming_input" where
  "si_pump timeout blocks now s =
     si_feed timeout now (s\<lparr>si_stream := gz_write blocks (si_stream s)\<rparr>)"

record buffered_input =
  bi_buf :: bytes
  bi_last_digit :: "char option"
  bi_framer :: framer
  bi_heard :: string

text \<open>The loop of \<open>_decode_window\<close> over the decoder's keys.\<close>

fun bi_loop :: "bool \<Rightarrow> secs \<Rightarrow> string \<Rightarrow> secs \<Rightarrow> buffered_input \<Rightarrow> string list \<times> buffered_input" where
  "bi_loop dedup timeout [] now s = ([], s)"
| "bi_loop dedup timeout (d # ds) now s =
     (if dedup \<and> Some d = bi_last_digit s then bi_loop dedup timeout ds now s
      else
        let s1 = (if dedup then s\<lparr>bi_last_digit := Some d\<rparr> else s);
            (e, f) = fr_feed timeout d now (bi_framer s1);
            (es, s2) = bi_loop dedup timeout ds now (s1\<lparr>bi_framer := f, bi_heard := bi_heard s1 @ [d]\<rparr>)
        in (case e of None \<Rightarrow> es | Some x \<Rightarrow> x # es, s2))"

definition bi_decode_window ::
  "(bytes \<Rightarrow> string) \<Rightarrow> bool \<Rightarrow> secs \<Rightarrow> secs \<Rightarrow> buffered_input \<Rightarrow> string list \<times> buffered_input" where
  "bi_decode_window decode dedup timeout now s =
     (if bi_buf s = [] then ([], s)
      else let digits = decode (bi_buf s); s1 = s\<lparr>bi_buf := []\<rparr> in
           if dedup \<and> digits = [] then ([], s1\<lparr>bi_last_digit := None\<rparr>)
           else bi_loop dedup timeout digits now s1)"

definition bi_pump ::
  "(bytes \<Rightarrow> string) \<Rightarrow> nat \<Rightarrow> bool \<Rightarrow> secs \<Rightarrow> bytes \<Rightarrow> secs \<Rightarrow> buffered_input \<Rightarrow>
   string list \<times> buffered_input" where
  "bi_pump decode window_bytes dedup timeout frame now s =
     (let s1 = s\<lparr>bi_buf := bi_buf s @ frame\<rparr> in
      if window_bytes \<le> length (bi_buf s1) then bi_decode_window decode dedup timeout now s1 else ([], s1))"

subsection \<open>The decoders' output lines\<close>

definition py_space :: "char \<Rightarrow> bool" where
  "py_space c = (c \<in> {CHR '' '', CHR 0x09, CHR 0x0A, CHR 0x0B, CHR 0x0C, CHR 0x0D, CHR 0x1C, CHR 0x1D, CHR 0x1E, CHR 0x1F})"

definition py_strip :: "string \<Rightarrow> string" where
  "py_strip s = rev (dropWhile py_space (rev (dropWhile py_space s)))"

definition dtmf_digit :: "string \<Rightarrow> string" where
  "dtmf_digit line =
     (let l = py_strip line in
      if take 5 l = ''DTMF:'' then
        (let token = py_strip (drop 5 l) in if token = [] then [] else [hd token])
      else [])"

definition resolve_decode_mode :: "string \<Rightarrow> string \<Rightarrow> string \<times> string" where
  "resolve_decode_mode mode multimon_bin =
     (if mode \<noteq> ''auto'' then (mode, []) else (''native'', ''bench-verified, ADR 0060''))"

subsection \<open>One key per press\<close>

text \<open>What was emitted so far, and what is held, is the onset of each run of equal blocks.\<close>

definition onsets :: "char option list \<Rightarrow> string" where
  "onsets blocks = map the (filter (\<lambda>x. x \<noteq> None) (remdups_adj blocks))"

lemma remdups_adj_snoc:
  "remdups_adj (xs @ [x]) = (if xs \<noteq> [] \<and> last xs = x then remdups_adj xs else remdups_adj xs @ [x])"
  by (induction xs rule: remdups_adj.induct) auto

definition gz_at :: "goertzel \<Rightarrow> char option list \<Rightarrow> goertzel \<Rightarrow> bool" where
  "gz_at g0 blocks g \<longleftrightarrow>
     gz_keys g = gz_keys g0 @ onsets blocks \<and>
     gz_held g = (if blocks = [] then None else last blocks) \<and>
     gz_candidate g = None \<and> gz_candidate_run g = 0"

lemma gz_at_advance: "gz_at g0 blocks g \<Longrightarrow> gz_at g0 (blocks @ [b]) (gz_advance b g)"
  by (auto simp: gz_at_def gz_advance_def onsets_def remdups_adj_snoc NATIVE_RELEASE_BLOCKS_def
    NATIVE_ONSET_BLOCKS_def Let_def split: option.splits)

lemma gz_at_fold: "gz_at g0 xs g \<Longrightarrow> gz_at g0 (xs @ blocks) (fold gz_advance blocks g)"
proof (induction blocks arbitrary: xs g)
  case (Cons b blocks)
  from Cons.IH [OF gz_at_advance [OF Cons.prems]] show ?case by simp
qed simp

text \<open>C22. The native detector emits one key per press: over any sequence of classified blocks, cut into
  writes in any way, the keys are those of the block sequence with equal neighbours merged and silence
  left out. A held tone gives one key; the same key again after a silent block gives another.\<close>

theorem native_one_key_per_press:
  "gz_keys (fold gz_write chunks gz_init) = map the (filter (\<lambda>x. x \<noteq> None) (remdups_adj (concat chunks)))"
proof -
  have open_fold: "gz_closed (fold gz_advance blocks g) = gz_closed g" for blocks g
    by (induction blocks arbitrary: g) (auto simp: gz_advance_def Let_def split: option.splits)
  have "\<not> gz_closed g \<Longrightarrow> fold gz_write chunks g = fold gz_advance (concat chunks) g" for g
    by (induction chunks arbitrary: g) (auto simp: gz_write_def open_fold)
  moreover have "gz_at gz_init [] gz_init" by (simp add: gz_at_def gz_init_def onsets_def)
  note gz_at_fold [OF this, of "concat chunks"]
  ultimately show ?thesis by (simp add: gz_at_def onsets_def gz_init_def)
qed

subsection \<open>What is keyed is what is entered\<close>

text \<open>Keys with their times, one after another.\<close>

fun framer_run :: "secs \<Rightarrow> (char \<times> secs) list \<Rightarrow> framer \<Rightarrow> string list \<times> framer" where
  "framer_run timeout [] f = ([], f)"
| "framer_run timeout ((d, now) # ks) f =
     (let (e, f1) = fr_feed timeout d now f; (es, f2) = framer_run timeout ks f1
      in (case e of None \<Rightarrow> es | Some x \<Rightarrow> x # es, f2))"

definition brisk :: "secs \<Rightarrow> secs list \<Rightarrow> bool" where
  "brisk timeout ts \<longleftrightarrow> successively (\<lambda>a b. b - a < timeout) ts"

definition plain :: "string \<Rightarrow> bool" where
  "plain e \<longleftrightarrow> SUBMIT \<notin> set e \<and> CLEAR \<notin> set e"

lemma framer_run_append:
  "framer_run timeout (xs @ ys) f =
     (let (es, f1) = framer_run timeout xs f; (es', f2) = framer_run timeout ys f1 in (es @ es', f2))"
  by (induction timeout xs f rule: framer_run.induct) (auto simp: Let_def split: prod.splits option.splits)

lemma framer_run_pair:
  "framer_run timeout xs f = (a, f1) \<Longrightarrow> framer_run timeout ys f1 = (b, f2) \<Longrightarrow>
     framer_run timeout (xs @ ys) f = (a @ b, f2)"
  by (simp add: framer_run_append)

text \<open>The framer is in time for a key at \<open>t\<close>.\<close>

definition in_time :: "secs \<Rightarrow> secs \<Rightarrow> framer \<Rightarrow> bool" where
  "in_time timeout t f \<longleftrightarrow> (\<forall>l. fr_last_at f = Some l \<longrightarrow> t - l < timeout)"

lemma in_time_expire: "in_time timeout t f \<Longrightarrow> fr_expire timeout t f = f"
  by (auto simp: in_time_def fr_expire_def split: option.splits)

lemma run_plain:
  assumes "plain (map fst ks)" "brisk timeout (map snd ks)" "ks \<noteq> [] \<Longrightarrow> in_time timeout (snd (hd ks)) f"
  shows "framer_run timeout ks f = ([], f\<lparr>fr_buffer := fr_buffer f @ map fst ks,
     fr_last_at := (if ks = [] then fr_last_at f else Some (snd (last ks)))\<rparr>)"
  using assms
proof (induction ks arbitrary: f)
  case (Cons k ks)
  obtain d t where k: "k = (d, t)" by fastforce
  let ?f1 = "f\<lparr>fr_last_at := Some t, fr_buffer := fr_buffer f @ [d]\<rparr>"
  from Cons.prems k have "fr_feed timeout d t f = (None, ?f1)"
    by (auto simp: fr_feed_def in_time_expire plain_def)
  moreover have "framer_run timeout ks ?f1 = ([], ?f1\<lparr>fr_buffer := fr_buffer ?f1 @ map fst ks,
     fr_last_at := (if ks = [] then fr_last_at ?f1 else Some (snd (last ks)))\<rparr>)"
    using Cons.prems k
    by (intro Cons.IH) (auto simp: plain_def brisk_def in_time_def successively_Cons hd_map)
  ultimately show ?case by (simp add: k)
qed simp

text \<open>One attempt: keys thrown away with the star key, then the entry and the hash key.\<close>

definition attempt_keys :: "string \<times> string \<Rightarrow> string" where
  "attempt_keys a = fst a @ [CLEAR] @ snd a @ [SUBMIT]"

lemma run_attempt:
  assumes "map fst ks = attempt_keys (a, e)" "plain a" "plain e" "e \<noteq> []"
    and "brisk timeout (map snd ks)" "in_time timeout (snd (hd ks)) f"
  shows "framer_run timeout ks f = ([e], \<lparr>fr_buffer = [], fr_last_at = Some (snd (last ks))\<rparr>)"
proof -
  from assms(1) obtain k1 r1 where r1: "ks = k1 @ r1" "map fst k1 = a" "map fst r1 = [CLEAR] @ e @ [SUBMIT]"
    by (auto simp: attempt_keys_def map_eq_append_conv)
  from r1(3) obtain c r2 where r2: "r1 = c # r2" "fst c = CLEAR" "map fst r2 = e @ [SUBMIT]" by auto
  from r2(3) obtain k2 r3 where r3: "r2 = k2 @ r3" "map fst k2 = e" "map fst r3 = [SUBMIT]"
    by (auto simp: map_eq_append_conv)
  from r3(3) obtain s where s: "r3 = [s]" "fst s = SUBMIT" by auto
  note ks = r1(1)[unfolded r2(1) r3(1) s(1)]
  have ne: "k2 \<noteq> []" using r3(2) assms(4) by auto
  have br: "successively (\<lambda>a b. b - a < timeout) (map snd k1 @ snd c # map snd k2 @ [snd s])"
    using assms(5) by (simp add: ks brisk_def)
  then have b1: "brisk timeout (map snd k1)"
    and b2: "successively (\<lambda>a b. b - a < timeout) (snd c # map snd k2 @ [snd s])"
    by (simp_all add: successively_append_iff brisk_def)
  from b2 ne have b3: "successively (\<lambda>a b. b - a < timeout) (map snd k2 @ [snd s])"
    "snd (hd k2) - snd c < timeout"
    by (auto simp: successively_Cons hd_append hd_map)
  from b3(1) ne have b4: "brisk timeout (map snd k2)" "snd s - snd (last k2) < timeout"
    by (auto simp: successively_append_iff brisk_def last_map)
  have t1: "k1 \<noteq> [] \<Longrightarrow> in_time timeout (snd (hd k1)) f" using assms(6) by (simp add: ks)
  have p1: "plain (map fst k1)" and p2: "plain (map fst k2)" using assms(2,3) r1(2) r3(2) by simp_all
  let ?f1 = "f\<lparr>fr_buffer := fr_buffer f @ map fst k1, fr_last_at := (if k1 = [] then fr_last_at f else Some (snd (last k1)))\<rparr>"
  note 1 = run_plain [OF p1 b1 t1]
  let ?f2 = "\<lparr>fr_buffer = [], fr_last_at = Some (snd c)\<rparr>"
  have 2: "framer_run timeout [c] ?f1 = ([], ?f2)"
    by (cases c) (use r2(2) in \<open>simp add: fr_feed_def fr_expire_def split: option.splits\<close>)
  let ?f3 = "\<lparr>fr_buffer = e, fr_last_at = Some (snd (last k2))\<rparr>"
  have "in_time timeout (snd (hd k2)) ?f2" using b3(2) by (simp add: in_time_def)
  from run_plain [OF p2 b4(1) this] ne r3(2) have 3: "framer_run timeout k2 ?f2 = ([], ?f3)" by simp
  have 4: "framer_run timeout [s] ?f3 = ([e], \<lparr>fr_buffer = [], fr_last_at = Some (snd s)\<rparr>)"
    by (cases s) (use s(2) b4(2) assms(4) in \<open>simp add: fr_feed_def fr_expire_def SUBMIT_def CLEAR_def\<close>)
  have "framer_run timeout (k1 @ [c] @ k2 @ [s]) f = ([e], \<lparr>fr_buffer = [], fr_last_at = Some (snd s)\<rparr>)"
    using framer_run_pair [OF 1 framer_run_pair [OF 2 framer_run_pair [OF 3 4]]] by simp
  then show ?thesis by (simp add: ks)
qed

lemma run_attempts:
  assumes "\<forall>a \<in> set as. plain (fst a) \<and> plain (snd a) \<and> snd a \<noteq> []"
  shows "map fst ks = concat (map attempt_keys as) \<Longrightarrow> brisk timeout (map snd ks) \<Longrightarrow>
    (ks \<noteq> [] \<Longrightarrow> in_time timeout (snd (hd ks)) f) \<Longrightarrow> fst (framer_run timeout ks f) = map snd as"
  using assms
proof (induction as arbitrary: ks f)
  case Nil
  then show ?case by simp
next
  case (Cons a as)
  from Cons.prems(1) obtain k1 k2 where k: "ks = k1 @ k2" "map fst k1 = attempt_keys a"
    "map fst k2 = concat (map attempt_keys as)"
    by (auto simp: map_eq_append_conv)
  have ne: "k1 \<noteq> []" using k(2) by (auto simp: attempt_keys_def)
  have br: "brisk timeout (map snd k1)" "brisk timeout (map snd k2)"
    "k2 \<noteq> [] \<Longrightarrow> snd (hd k2) - snd (last k1) < timeout"
    using Cons.prems(2) ne by (auto simp: k(1) brisk_def successively_append_iff last_map hd_map)
  let ?f = "\<lparr>fr_buffer = [], fr_last_at = Some (snd (last k1))\<rparr>"
  have 1: "framer_run timeout k1 f = ([snd a], ?f)"
    by (rule run_attempt [where a = "fst a"]) (use k(2) Cons.prems(3,4) br(1) ne in \<open>auto simp: k(1)\<close>)
  have "fst (framer_run timeout k2 ?f) = map snd as"
    by (rule Cons.IH [OF k(3) br(2)]) (use br(3) Cons.prems(4) in \<open>auto simp: in_time_def\<close>)
  moreover obtain es g where "framer_run timeout k2 ?f = (es, g)" by fastforce
  ultimately show ?case using framer_run_pair [OF 1, of k2 es g] by (simp add: k(1))
qed



text \<open>A partial entry does not survive a pause of the timeout.\<close>

lemma framer_stale_partial_dropped:
  assumes "fr_last_at f = Some l" "timeout \<le> now - l"
  shows "fr_feed timeout d now f = fr_feed timeout d now framer_init"
  using assms by (cases f) (auto simp: fr_feed_def fr_expire_def framer_init_def Let_def)

subsection \<open>The streaming input\<close>

lemma feed_keys_run: "feed_keys timeout ds now f = framer_run timeout (map (\<lambda>d. (d, now)) ds) f"
  by (induction timeout ds now f rule: feed_keys.induct) (auto simp: Let_def split: prod.splits)

lemma si_heard_pump: "si_heard (snd (si_pump timeout blocks now s)) =
    si_heard s @ gz_keys (gz_write blocks (si_stream s))"
  by (simp add: si_pump_def si_feed_def gz_read_def split: prod.splits)

subsection \<open>The key table\<close>

lemma dtmf_key_table: "(k, lo, hi) \<in> set DTMF_FREQS \<longleftrightarrow> NATIVE_KEY_BY_PAIR (lo, hi) = Some k"
proof -
  have "distinct (map fst (map (\<lambda>(k, lo, hi). ((lo, hi), k)) DTMF_FREQS))"
    by (simp add: DTMF_FREQS_def)
  from map_of_eq_Some_iff [OF this, of "(lo, hi)" k] show ?thesis
    unfolding NATIVE_KEY_BY_PAIR_def by (auto simp: image_iff intro!: bexI [of _ "(k, lo, hi)"])
qed

lemma gz_classify_loud:
  assumes "gz_classify fw rv lo hi lo2 hi2 = Some k"
  shows "NATIVE_ENERGY_FLOOR \<le> lo ! argmax lo \<and> NATIVE_ENERGY_FLOOR \<le> hi ! argmax hi \<and>
    hi ! argmax hi \<le> fw * lo ! argmax lo \<and> lo ! argmax lo \<le> rv * hi ! argmax hi"
  using assms by (auto simp: gz_classify_def Let_def split: if_splits)

end
