(* ===== verification/Gate.thy ===== *)
theory Gate
  imports Prelude
begin

section \<open>The receive gates\<close>

text \<open>
  \<open>radio_server/activity/gate.py\<close>: the level measure, the audio-level gate with its hysteresis and hang
  time, the polled gate's fail-closed cache with edge-only logging, and the choice of the gate by
  backend. Levels are real numbers; the clock's reading is an argument.
\<close>

subsection \<open>The level of a frame\<close>

text \<open>\<open>numpy.frombuffer(..., "<i2")\<close> on the even part of the buffer.\<close>

fun s16_samples :: "bytes \<Rightarrow> int list" where
  "s16_samples (lo # hi # rest) =
     (let u = uint lo + 256 * uint hi in (if u < 32768 then u else u - 65536) # s16_samples rest)"
| "s16_samples _ = []"

definition frame_rms :: "bytes \<Rightarrow> real" where
  "frame_rms buf =
     (let pcm = s16_samples buf in
      if pcm = [] then 0
      else sqrt (sum_list (map (\<lambda>x. (real_of_int x)\<^sup>2) pcm) / real (length pcm)))"

lemma frame_rms_nonneg: "0 \<le> frame_rms buf"
proof -
  have "0 \<le> sum_list (map (\<lambda>x. (real_of_int x)\<^sup>2) pcm)" for pcm
    by (rule sum_list_nonneg) auto
  then show ?thesis by (simp add: frame_rms_def Let_def)
qed

subsection \<open>AudioLevelGate\<close>

record level_gate =
  lg_on :: real
  lg_off :: real
  lg_hang :: secs
  lg_open :: bool
  lg_active_until :: "secs option"

definition level_gate_init :: "real \<Rightarrow> real \<Rightarrow> secs \<Rightarrow> exn + level_gate" where
  "level_gate_init on_threshold off_threshold hang =
     (if on_threshold \<le> off_threshold then Inl ValueError
      else Inr \<lparr>lg_on = on_threshold, lg_off = off_threshold, lg_hang = hang, lg_open = False,
                lg_active_until = None\<rparr>)"

definition level_gate_level :: "secs \<Rightarrow> real \<Rightarrow> level_gate \<Rightarrow> bool \<times> level_gate" where
  "level_gate_level now level g =
     (let threshold = (if lg_open g then lg_off g else lg_on g) in
      if threshold \<le> level then (True, g\<lparr>lg_open := True, lg_active_until := Some (now + lg_hang g)\<rparr>)
      else if lg_open g \<and> (case lg_active_until g of None \<Rightarrow> False | Some t \<Rightarrow> now < t) then (True, g)
      else (False, g\<lparr>lg_open := False, lg_active_until := None\<rparr>))"

definition level_gate_call :: "secs \<Rightarrow> bytes \<Rightarrow> level_gate \<Rightarrow> bool \<times> level_gate" where
  "level_gate_call now frame g = level_gate_level now (frame_rms frame) g"

fun level_gate_run :: "(secs \<times> bytes) list \<Rightarrow> level_gate \<Rightarrow> bool list \<times> level_gate" where
  "level_gate_run [] g = ([], g)"
| "level_gate_run ((now, frame) # fs) g =
     (let (b, g1) = level_gate_call now frame g; (bs, g2) = level_gate_run fs g1 in (b # bs, g2))"

subsection \<open>PolledGate\<close>

datatype gate_log = LogFailing | LogAnswering

record polled_gate =
  pg_busy :: bool
  pg_failing :: bool
  pg_log :: "gate_log list"

definition polled_init :: polled_gate where
  "polled_init = \<lparr>pg_busy = False, pg_failing = False, pg_log = []\<rparr>"

text \<open>One poll, given what the inner gate does: answers or raises.\<close>

definition poll_once :: "exn + bool \<Rightarrow> polled_gate \<Rightarrow> polled_gate" where
  "poll_once inner g =
     (case inner of
        Inl e \<Rightarrow>
          (let g1 = g\<lparr>pg_busy := False\<rparr> in
           if \<not> pg_failing g1 then g1\<lparr>pg_failing := True, pg_log := pg_log g1 @ [LogFailing]\<rparr> else g1)
      | Inr b \<Rightarrow>
          (let g1 = g\<lparr>pg_busy := b\<rparr> in
           if pg_failing g1 then g1\<lparr>pg_failing := False, pg_log := pg_log g1 @ [LogAnswering]\<rparr> else g1))"

definition polled_call :: "polled_gate \<Rightarrow> bool" where
  "polled_call g = pg_busy g"

subsection \<open>Choosing the gate\<close>

datatype squelch_mode = SqOff | SqAudio | SqCat
datatype rx_gate = PassThrough | PolledCat | LevelGate level_gate

definition resolve_squelch_mode :: "(string \<Rightarrow> squelch_mode) \<Rightarrow> string \<Rightarrow> squelch_mode" where
  "resolve_squelch_mode settings backend =
     (if backend = ''uvk5'' then settings ''uvk5.squelch_mode''
      else if backend = ''baofeng'' then settings ''baofeng.squelch_mode''
      else settings ''audio.squelch'')"

definition build_rx_gate ::
  "(string \<Rightarrow> squelch_mode) \<Rightarrow> string \<Rightarrow> real \<Rightarrow> real \<Rightarrow> secs \<Rightarrow> exn + rx_gate" where
  "build_rx_gate settings backend on_rms off_rms hang =
     (let mode = resolve_squelch_mode settings backend in
      if mode = SqOff then Inr PassThrough
      else if mode = SqCat then Inr PolledCat
      else case level_gate_init on_rms off_rms hang of Inl e \<Rightarrow> Inl e | Inr g \<Rightarrow> Inr (LevelGate g))"

subsection \<open>When the level gate is open\<close>

text \<open>
  Frame \<open>k\<close> of a stream is let through: some frame \<open>j\<close> was loud enough to open the gate, and every
  frame since was loud enough to hold it or came within the hang time of one that was.
\<close>

definition passes :: "real \<Rightarrow> real \<Rightarrow> secs \<Rightarrow> (secs \<times> real) list \<Rightarrow> nat \<Rightarrow> bool" where
  "passes on off hang fs k \<longleftrightarrow>
     (\<exists>j \<le> k. on \<le> snd (fs ! j) \<and>
       (\<forall>i. j < i \<and> i \<le> k \<longrightarrow>
          (\<exists>m. j \<le> m \<and> m \<le> i \<and> off \<le> snd (fs ! m) \<and> (m = i \<or> fst (fs ! i) < fst (fs ! m) + hang))))"

lemma passes_append: "k < length fs \<Longrightarrow> passes on off hang (fs @ gs) k = passes on off hang fs k"
proof -
  assume "k < length fs"
  then have e: "i \<le> k \<Longrightarrow> (fs @ gs) ! i = fs ! i" for i by (simp add: nth_append)
  show ?thesis by (simp add: passes_def e cong: conj_cong imp_cong)
qed

lemma passes_last:
  assumes "off < on" "length fs = Suc n" "n \<noteq> 0 \<Longrightarrow> passes on off hang fs (n - 1) \<Longrightarrow>
      m < n \<and> off \<le> snd (fs ! m) \<and> (\<forall>i. m < i \<and> i < n \<longrightarrow> snd (fs ! i) < off)"
    and "sorted (map fst fs)"
  shows "passes on off hang fs n \<longleftrightarrow> on \<le> snd (fs ! n) \<or>
    (n \<noteq> 0 \<and> passes on off hang fs (n - 1) \<and> (off \<le> snd (fs ! n) \<or> fst (fs ! n) < fst (fs ! m) + hang))"
proof
  assume p: "passes on off hang fs n"
  then obtain j where j: "j \<le> n" "on \<le> snd (fs ! j)"
    "\<forall>i. j < i \<and> i \<le> n \<longrightarrow> (\<exists>m. j \<le> m \<and> m \<le> i \<and> off \<le> snd (fs ! m) \<and> (m = i \<or> fst (fs ! i) < fst (fs ! m) + hang))"
    by (auto simp: passes_def)
  show "on \<le> snd (fs ! n) \<or>
    (n \<noteq> 0 \<and> passes on off hang fs (n - 1) \<and> (off \<le> snd (fs ! n) \<or> fst (fs ! n) < fst (fs ! m) + hang))"
  proof (cases "j = n")
    case False
    with j(1) have jn: "j < n" by simp
    then have n0: "n \<noteq> 0" by simp
    have "j \<le> n - 1" using jn by simp
    moreover have "\<forall>i. j < i \<and> i \<le> n - 1 \<longrightarrow> (\<exists>m. j \<le> m \<and> m \<le> i \<and> off \<le> snd (fs ! m) \<and>
        (m = i \<or> fst (fs ! i) < fst (fs ! m) + hang))"
      using j(3) by (metis diff_le_self le_trans)
    ultimately have pp: "passes on off hang fs (n - 1)" using j(2) unfolding passes_def by blast
    note m = assms(3) [OF n0 pp]
    from j(3) jn obtain m' where m': "j \<le> m'" "m' \<le> n" "off \<le> snd (fs ! m')"
      "m' = n \<or> fst (fs ! n) < fst (fs ! m') + hang" by blast
    show ?thesis
    proof (cases "m' = n")
      case True
      with m'(3) n0 pp show ?thesis by blast
    next
      case False
      with m'(2) have "m' < n" by simp
      with m m'(3) have "m' \<le> m" by (metis not_less)
      then have "fst (fs ! m') \<le> fst (fs ! m)"
        using sorted_nth_mono [OF assms(4), of m' m] m assms(2) by simp
      with m'(4) False have "fst (fs ! n) < fst (fs ! m) + hang" by linarith
      with n0 pp show ?thesis by blast
    qed
  qed (use j in blast)
next
  assume "on \<le> snd (fs ! n) \<or>
    (n \<noteq> 0 \<and> passes on off hang fs (n - 1) \<and> (off \<le> snd (fs ! n) \<or> fst (fs ! n) < fst (fs ! m) + hang))"
  then show "passes on off hang fs n"
  proof
    assume "on \<le> snd (fs ! n)"
    then show ?thesis by (auto simp: passes_def intro: exI [of _ n])
  next
    assume a: "n \<noteq> 0 \<and> passes on off hang fs (n - 1) \<and> (off \<le> snd (fs ! n) \<or> fst (fs ! n) < fst (fs ! m) + hang)"
    then obtain j where j: "j \<le> n - 1" "on \<le> snd (fs ! j)"
      "\<forall>i. j < i \<and> i \<le> n - 1 \<longrightarrow> (\<exists>m. j \<le> m \<and> m \<le> i \<and> off \<le> snd (fs ! m) \<and> (m = i \<or> fst (fs ! i) < fst (fs ! m) + hang))"
      by (auto simp: passes_def)
    from assms(3) a have m: "m < n" "off \<le> snd (fs ! m)" "\<forall>i. m < i \<and> i < n \<longrightarrow> snd (fs ! i) < off" by auto
    have "j \<le> m"
    proof (rule ccontr)
      assume "\<not> j \<le> m"
      with m(3) j(1) a have "snd (fs ! j) < off" by auto
      with j(2) assms(1) show False by linarith
    qed
    have "\<exists>m. j \<le> m \<and> m \<le> i \<and> off \<le> snd (fs ! m) \<and> (m = i \<or> fst (fs ! i) < fst (fs ! m) + hang)"
      if "j < i \<and> i \<le> n" for i
    proof (cases "i = n")
      case True
      from a have "off \<le> snd (fs ! n) \<or> fst (fs ! n) < fst (fs ! m) + hang" by blast
      then show ?thesis
      proof
        assume "off \<le> snd (fs ! n)"
        with True that show ?thesis by (intro exI [of _ n]) auto
      next
        assume "fst (fs ! n) < fst (fs ! m) + hang"
        with True m(1,2) \<open>j \<le> m\<close> show ?thesis by (intro exI [of _ m]) auto
      qed
    next
      case False
      with that have "j < i \<and> i \<le> n - 1" by auto
      with j(3) show ?thesis by blast
    qed
    moreover have "j \<le> n" using j(1) by simp
    ultimately show ?thesis using j(2) unfolding passes_def by blast
  qed
qed

text \<open>The gate after a stream of frames: what its state stands for.\<close>

definition gate_tracks :: "level_gate \<Rightarrow> (secs \<times> real) list \<Rightarrow> level_gate \<Rightarrow> bool" where
  "gate_tracks g0 fs g \<longleftrightarrow>
     lg_on g = lg_on g0 \<and> lg_off g = lg_off g0 \<and> lg_hang g = lg_hang g0 \<and>
     (lg_open g \<longleftrightarrow> fs \<noteq> [] \<and> passes (lg_on g0) (lg_off g0) (lg_hang g0) fs (length fs - 1)) \<and>
     (lg_open g \<longrightarrow> (\<exists>m < length fs. lg_off g0 \<le> snd (fs ! m) \<and>
        (\<forall>i. m < i \<and> i < length fs \<longrightarrow> snd (fs ! i) < lg_off g0) \<and>
        lg_active_until g = Some (fst (fs ! m) + lg_hang g0)))"

lemma gate_tracks_step:
  assumes t: "gate_tracks g0 fs g" and "lg_off g0 < lg_on g0" and "sorted (map fst (fs @ [(now, level)]))"
    and c: "level_gate_level now level g = (b, g')"
  shows "gate_tracks g0 (fs @ [(now, level)]) g' \<and>
    b = passes (lg_on g0) (lg_off g0) (lg_hang g0) (fs @ [(now, level)]) (length fs)"
proof -
  let ?on = "lg_on g0" and ?off = "lg_off g0" and ?h = "lg_hang g0"
  let ?fs = "fs @ [(now, level)]" and ?n = "length fs"
  have nth: "i < ?n \<Longrightarrow> ?fs ! i = fs ! i" for i by (simp add: nth_append)
  have new: "?fs ! ?n = (now, level)" by simp
  define m where "m = (SOME m. m < ?n \<and> ?off \<le> snd (fs ! m) \<and>
      (\<forall>i. m < i \<and> i < ?n \<longrightarrow> snd (fs ! i) < ?off) \<and> lg_active_until g = Some (fst (fs ! m) + ?h))"
  have m: "m < ?n \<and> ?off \<le> snd (fs ! m) \<and> (\<forall>i. m < i \<and> i < ?n \<longrightarrow> snd (fs ! i) < ?off) \<and>
      lg_active_until g = Some (fst (fs ! m) + ?h)" if "lg_open g"
  proof -
    from t that have "\<exists>m. m < ?n \<and> ?off \<le> snd (fs ! m) \<and>
      (\<forall>i. m < i \<and> i < ?n \<longrightarrow> snd (fs ! i) < ?off) \<and> lg_active_until g = Some (fst (fs ! m) + ?h)"
      by (simp add: gate_tracks_def)
    then show ?thesis unfolding m_def by (rule someI_ex)
  qed
  have op: "lg_open g \<longleftrightarrow> ?n \<noteq> 0 \<and> passes ?on ?off ?h ?fs (?n - 1)"
    using t by (cases "fs = []") (simp_all add: gate_tracks_def passes_append)
  have "?n \<noteq> 0 \<Longrightarrow> passes ?on ?off ?h ?fs (?n - 1) \<Longrightarrow>
      m < ?n \<and> ?off \<le> snd (?fs ! m) \<and> (\<forall>i. m < i \<and> i < ?n \<longrightarrow> snd (?fs ! i) < ?off)"
    using op m by (simp add: nth)
  from passes_last [OF assms(2) _ this assms(3)]
  have pl: "passes ?on ?off ?h ?fs ?n \<longleftrightarrow> ?on \<le> level \<or>
      (lg_open g \<and> (?off \<le> level \<or> now < fst (?fs ! m) + ?h))"
    using op by (simp add: new)
  have g: "lg_on g = ?on" "lg_off g = ?off" "lg_hang g = ?h" using t by (simp_all add: gate_tracks_def)
  consider (loud) "(if lg_open g then ?off else ?on) \<le> level"
    | (hang) "lg_open g" "\<not> ?off \<le> level" "now < fst (fs ! m) + ?h"
    | (shut) "\<not> (if lg_open g then ?off else ?on) \<le> level" "\<not> (lg_open g \<and> now < fst (fs ! m) + ?h)"
    by (cases "lg_open g") auto
  then show ?thesis
  proof cases
    case loud
    then have e: "b = True" "g' = g\<lparr>lg_open := True, lg_active_until := Some (now + ?h)\<rparr>"
      using c g by (cases "lg_open g"; simp add: level_gate_level_def)+
    from loud pl have p: "passes ?on ?off ?h ?fs ?n" by (auto split: if_splits)
    moreover have "?off \<le> level" using loud assms(2) by (auto split: if_splits)
    ultimately have "gate_tracks g0 ?fs g'"
      unfolding gate_tracks_def e using g by (auto intro!: exI [of _ ?n])
    with e p show ?thesis by simp
  next
    case hang
    with m have mm: "m < ?n" "?off \<le> snd (fs ! m)" "\<forall>i. m < i \<and> i < ?n \<longrightarrow> snd (fs ! i) < ?off"
      "lg_active_until g = Some (fst (fs ! m) + ?h)" by auto
    have e: "b = True" "g' = g" using hang c g mm(4) by (simp_all add: level_gate_level_def)
    from hang pl nth mm(1) have p: "passes ?on ?off ?h ?fs ?n" by simp
    have "gate_tracks g0 ?fs g"
      unfolding gate_tracks_def using g p hang mm
      by (auto simp: nth less_Suc_eq intro!: exI [of _ m])
    with e p show ?thesis by simp
  next
    case shut
    have "\<not> (lg_open g \<and> (case lg_active_until g of None \<Rightarrow> False | Some t \<Rightarrow> now < t))"
      using shut(2) m by auto
    then have e: "b = False" "g' = g\<lparr>lg_open := False, lg_active_until := None\<rparr>"
      using shut(1) c g by (auto simp: level_gate_level_def Let_def split: if_splits)
    have p: "\<not> passes ?on ?off ?h ?fs ?n"
      using shut pl m nth assms(2) by (auto split: if_splits)
    then show ?thesis unfolding gate_tracks_def using e g by simp
  qed
qed

lemma gate_tracks_run:
  assumes "lg_off g0 < lg_on g0"
  shows "gate_tracks g0 (map (\<lambda>(t, f). (t, frame_rms f)) xs) g \<Longrightarrow> sorted (map fst (xs @ ys)) \<Longrightarrow> k < length ys \<Longrightarrow>
    fst (level_gate_run ys g) ! k =
      passes (lg_on g0) (lg_off g0) (lg_hang g0) (map (\<lambda>(t, f). (t, frame_rms f)) (xs @ ys)) (length xs + k)"
proof (induction ys arbitrary: xs g k)
  case (Cons y ys)
  obtain now frame where y: "y = (now, frame)" by fastforce
  obtain b g1 where b: "level_gate_call now frame g = (b, g1)" by fastforce
  let ?L = "map (\<lambda>(t, f). (t, frame_rms f))"
  have "map fst (?L zs) = map fst zs" for zs :: "(secs \<times> bytes) list" by (induction zs) auto
  moreover have "sorted (map fst xs @ [now])" using Cons.prems(2) y by (auto simp: sorted_append)
  ultimately have srt: "sorted (map fst (?L xs @ [(now, frame_rms frame)]))"
    by (simp only: map_append list.map fst_conv)
  from gate_tracks_step [OF Cons.prems(1) assms srt b [unfolded level_gate_call_def]]
  have tr: "gate_tracks g0 (?L (xs @ [y])) g1"
    and bb: "b = passes (lg_on g0) (lg_off g0) (lg_hang g0) (?L (xs @ [y])) (length xs)"
    using y by simp_all
  show ?case
  proof (cases k)
    case 0
    have "passes (lg_on g0) (lg_off g0) (lg_hang g0) (?L (xs @ [y]) @ ?L ys) (length xs) =
        passes (lg_on g0) (lg_off g0) (lg_hang g0) (?L (xs @ [y])) (length xs)"
      by (rule passes_append) simp
    with 0 b bb y show ?thesis by (simp split: prod.splits)
  next
    case (Suc k')
    from Cons.IH [OF tr, of k'] Cons.prems(2,3) Suc
    have "fst (level_gate_run ys g1) ! k' =
      passes (lg_on g0) (lg_off g0) (lg_hang g0) (?L ((xs @ [y]) @ ys)) (length (xs @ [y]) + k')" by simp
    moreover obtain bs g2 where "level_gate_run ys g1 = (bs, g2)" by fastforce
    ultimately show ?thesis using Suc b y by simp
  qed
qed simp

text \<open>On frames in time order, the level gate lets exactly those through that its thresholds and hang
  time say: frame \<open>k\<close> passes when some earlier or equal frame reached the on-threshold and every frame
  since then reached the off-threshold or came within the hang time of one that did.\<close>

theorem level_gate_passes:
  assumes "level_gate_init on off hang = Inr g" and "sorted (map fst fs)" and "k < length fs"
  shows "fst (level_gate_run fs g) ! k = passes on off hang (map (\<lambda>(t, f). (t, frame_rms f)) fs) k"
proof -
  from assms(1) have g: "off < on" "g = \<lparr>lg_on = on, lg_off = off, lg_hang = hang, lg_open = False,
      lg_active_until = None\<rparr>"
    by (auto simp: level_gate_init_def split: if_splits)
  then have "gate_tracks g (map (\<lambda>(t, f). (t, frame_rms f)) []) g" by (simp add: gate_tracks_def)
  from gate_tracks_run [OF _ this, of fs k] assms(2,3) g show ?thesis by simp
qed

theorem level_gate_passes_witness:
  "\<exists>g. level_gate_init 500 300 1 = Inr g \<and>
     fst (level_gate_run [(0, []), (2, [0])] g) ! 1 =
       passes 500 300 1 (map (\<lambda>(t, f). (t, frame_rms f)) [(0, []), (2, [0])]) 1"
proof -
  obtain g where g: "level_gate_init 500 300 1 = Inr g" by (simp add: level_gate_init_def)
  from level_gate_passes [OF g, of "[(0, []), (2, [0])]" 1] g show ?thesis by simp
qed

subsection \<open>The polled gate\<close>

lemma poll_fails_closed: "\<not> polled_call (poll_once (Inl e) g)"
  by (simp add: polled_call_def poll_once_def Let_def)

text \<open>The log alternates, beginning with a failure, and its last line says how the gate is.\<close>

definition polled_ok :: "polled_gate \<Rightarrow> bool" where
  "polled_ok g \<longleftrightarrow> distinct_adj (pg_log g) \<and> (pg_log g \<noteq> [] \<longrightarrow> hd (pg_log g) = LogFailing) \<and>
     (pg_failing g \<longleftrightarrow> pg_log g \<noteq> [] \<and> last (pg_log g) = LogFailing) \<and> (pg_failing g \<longrightarrow> \<not> pg_busy g)"

lemma polled_ok_step [inv_intros]: "polled_ok g \<Longrightarrow> polled_ok (poll_once r g)"
  by (cases "pg_log g = []"; cases "last (pg_log g)")
    (auto simp: polled_ok_def poll_once_def Let_def distinct_adj_append_iff split: sum.splits)

lemma polled_ok_run: "polled_ok (fold poll_once rs polled_init)"
proof -
  have "polled_ok g \<Longrightarrow> polled_ok (fold poll_once rs g)" for g
    by (induction rs arbitrary: g) (auto intro: polled_ok_step)
  then show ?thesis by (simp add: polled_ok_def polled_init_def)
qed

end
