(* ===== verification/DStarClient.thy ===== *)
theory DStarClient
  imports DStarFrames
begin

section \<open>The gateway client\<close>

text \<open>
  \<open>radio_server/dstar/client.py\<close>: \<open>UdpGatewayClient\<close> with its registration, poll cadence, dispatch
  and send path, and \<open>MockGatewayClient\<close>. The socket is the log of the datagrams handed to
  \<open>sendto\<close>, each with the outcome the environment gives it (\<open>fault\<close>, indexed by the number of the
  attempt: an \<open>OSError\<close> is logged and swallowed). A sink is a flag: whether one is wired; the messages
  it was called with are a list, and what it raises is swallowed by the reader, so it has no effect
  here. The protocol \<open>GatewayClient\<close> is the locale \<open>gateway\<close>, interpreted on both clients.
\<close>

record gw_client =
  gc_register_name :: pystr
  gc_poll_interval :: secs
  gc_open :: bool
  gc_registered :: bool
  gc_last_poll :: secs
  gc_on_header :: bool
  gc_on_data :: bool
  gc_wire :: "(bytes \<times> bool) list"
  gc_dispatched :: "dsrp_message list"

type_synonym send_fault = "nat \<Rightarrow> bool"

definition gc_init :: "pystr \<Rightarrow> pystr \<Rightarrow> secs \<Rightarrow> gw_client" where
  "gc_init register_name mdl poll_interval =
     \<lparr>gc_register_name = (if register_name = [] then mdl else register_name),
      gc_poll_interval = poll_interval, gc_open = False, gc_registered = False, gc_last_poll = 0,
      gc_on_header = False, gc_on_data = False, gc_wire = [], gc_dispatched = []\<rparr>"

definition gc_send :: "send_fault \<Rightarrow> bytes \<Rightarrow> gw_client \<Rightarrow> gw_client" where
  "gc_send fault packet c =
     (if \<not> gc_open c then c
      else c\<lparr>gc_wire := gc_wire c @ [(packet, \<not> fault (length (gc_wire c)))]\<rparr>)"

definition gc_poll :: "send_fault \<Rightarrow> gw_client \<Rightarrow> gw_client" where
  "gc_poll fault c = gc_send fault (build_poll (gc_register_name c)) c"

definition gc_register :: "send_fault \<Rightarrow> gw_client \<Rightarrow> gw_client" where
  "gc_register fault c = gc_poll fault c"

definition gc_send_header :: "send_fault \<Rightarrow> bytes \<Rightarrow> int \<Rightarrow> (gw_client, unit) meth" where
  "gc_send_header fault h sid c =
     (case build_header_packet h sid of Inl e \<Rightarrow> (Inl e, c) | Inr p \<Rightarrow> (Inr (), gc_send fault p c))"

definition gc_send_data ::
  "send_fault \<Rightarrow> bytes \<Rightarrow> int \<Rightarrow> int \<Rightarrow> bool \<Rightarrow> int \<Rightarrow> (gw_client, unit) meth" where
  "gc_send_data fault dv sid seq_no end_flag errors c =
     (case build_data_packet dv sid seq_no end_flag errors of
        Inl e \<Rightarrow> (Inl e, c) | Inr p \<Rightarrow> (Inr (), gc_send fault p c))"

definition gc_start :: "send_fault \<Rightarrow> exn option \<Rightarrow> secs \<Rightarrow> (gw_client, unit) meth" where
  "gc_start fault socket_error now c =
     (if gc_open c then (Inr (), c)
      else case socket_error of
             Some e \<Rightarrow> (Inl e, c)
           | None \<Rightarrow> (Inr (), (gc_register fault (c\<lparr>gc_open := True\<rparr>))\<lparr>gc_last_poll := now\<rparr>))"

definition gc_close :: "gw_client \<Rightarrow> gw_client" where
  "gc_close c = c\<lparr>gc_open := False, gc_registered := False\<rparr>"

definition gc_handle_packet :: "bytes \<Rightarrow> gw_client \<Rightarrow> gw_client" where
  "gc_handle_packet data c =
     (let msg = dsrp_parse data;
          c = (if dm_kind msg \<noteq> MkUnknown then c\<lparr>gc_registered := True\<rparr> else c)
      in if dm_kind msg = MkHeader \<and> gc_on_header c \<or> dm_kind msg = MkData \<and> gc_on_data c
         then c\<lparr>gc_dispatched := gc_dispatched c @ [msg]\<rparr> else c)"

definition gc_tick :: "send_fault \<Rightarrow> secs \<Rightarrow> gw_client \<Rightarrow> gw_client" where
  "gc_tick fault now c =
     (if gc_poll_interval c \<le> now - gc_last_poll c
      then (gc_poll fault c)\<lparr>gc_last_poll := now\<rparr> else c)"

text \<open>
  One turn of the reader thread: \<open>recvfrom\<close> gave \<open>data\<close>, which is empty on a timeout or an error,
  and the clock then reads \<open>now\<close>. The thread ends when the socket is gone.
\<close>

definition gc_reader_turn :: "send_fault \<Rightarrow> bytes \<Rightarrow> secs \<Rightarrow> gw_client \<Rightarrow> gw_client" where
  "gc_reader_turn fault data now c =
     (if \<not> gc_open c then c
      else gc_tick fault now (if data \<noteq> [] then gc_handle_packet data c else c))"

subsection \<open>The simulated client\<close>

record mock_gateway =
  mg_running :: bool
  mg_registered :: bool
  mg_register_count :: nat
  mg_poll_count :: nat
  mg_sent :: "dsrp_message list"
  mg_on_header :: bool
  mg_on_data :: bool
  mg_injected :: "dsrp_message list"

definition mg_init :: mock_gateway where
  "mg_init = \<lparr>mg_running = False, mg_registered = False, mg_register_count = 0, mg_poll_count = 0,
     mg_sent = [], mg_on_header = False, mg_on_data = False, mg_injected = []\<rparr>"

definition mg_register :: "mock_gateway \<Rightarrow> mock_gateway" where
  "mg_register g = g\<lparr>mg_registered := True, mg_register_count := mg_register_count g + 1\<rparr>"

definition mg_start :: "mock_gateway \<Rightarrow> mock_gateway" where
  "mg_start g = mg_register (g\<lparr>mg_running := True\<rparr>)"

definition mg_poll :: "mock_gateway \<Rightarrow> mock_gateway" where
  "mg_poll g = g\<lparr>mg_poll_count := mg_poll_count g + 1\<rparr>"

definition mg_send_header :: "bytes \<Rightarrow> int \<Rightarrow> (mock_gateway, unit) meth" where
  "mg_send_header h sid g =
     (case build_header_packet h sid of
        Inl e \<Rightarrow> (Inl e, g) | Inr p \<Rightarrow> (Inr (), g\<lparr>mg_sent := mg_sent g @ [dsrp_parse p]\<rparr>))"

definition mg_send_data :: "bytes \<Rightarrow> int \<Rightarrow> int \<Rightarrow> bool \<Rightarrow> int \<Rightarrow> (mock_gateway, unit) meth" where
  "mg_send_data dv sid seq_no end_flag errors g =
     (case build_data_packet dv sid seq_no end_flag errors of
        Inl e \<Rightarrow> (Inl e, g) | Inr p \<Rightarrow> (Inr (), g\<lparr>mg_sent := mg_sent g @ [dsrp_parse p]\<rparr>))"

definition mg_inject :: "bytes \<Rightarrow> mock_gateway \<Rightarrow> mock_gateway" where
  "mg_inject packet g =
     (let msg = dsrp_parse packet
      in if dm_kind msg = MkHeader \<and> mg_on_header g \<or> dm_kind msg = MkData \<and> mg_on_data g
         then g\<lparr>mg_injected := mg_injected g @ [msg]\<rparr> else g)"

definition mg_close :: "mock_gateway \<Rightarrow> mock_gateway" where
  "mg_close g = g\<lparr>mg_running := False\<rparr>"

subsection \<open>The protocol of a gateway client\<close>

text \<open>
  What the bridge relies on: a stream packet of the right length is accepted and reaches the gateway
  after those sent before it. \<open>sent\<close> is what the gateway can read of the stream packets, \<open>up\<close> that
  the link takes packets. A call of the bridge on the protocol is a \<open>gw_call\<close>.
\<close>

datatype gw_call = GwHeader bytes int | GwData bytes int int bool

fun gw_call_ok :: "gw_call \<Rightarrow> bool" where
  "gw_call_ok (GwHeader h sid) = (length h = RADIO_HEADER_LEN)"
| "gw_call_ok (GwData dv sid seq_no e) = (length dv = DV_FRAME_LEN)"

fun gw_message :: "gw_call \<Rightarrow> dsrp_message" where
  "gw_message (GwHeader h sid) =
     (dsrp_message_of MkHeader)\<lparr>dm_session_id := sid mod 65536, dm_radio_header := h\<rparr>"
| "gw_message (GwData dv sid seq_no e) =
     (dsrp_message_of MkData)\<lparr>dm_session_id := sid mod 65536, dm_seq_no := seq_no mod 64, dm_end := e,
        dm_errors := 0, dm_dv_frame := dv\<rparr>"

locale gateway =
  fixes send_header :: "bytes \<Rightarrow> int \<Rightarrow> ('c, unit) meth"
    and send_data :: "bytes \<Rightarrow> int \<Rightarrow> int \<Rightarrow> bool \<Rightarrow> int \<Rightarrow> ('c, unit) meth"
    and up :: "'c \<Rightarrow> bool"
    and sent :: "'c \<Rightarrow> dsrp_message list"
  assumes header_law: "up c \<Longrightarrow> length h = RADIO_HEADER_LEN \<Longrightarrow>
      \<exists>c'. send_header h sid c = (Inr (), c') \<and> up c' \<and> sent c' = sent c @ [gw_message (GwHeader h sid)]"
    and data_law: "up c \<Longrightarrow> length dv = DV_FRAME_LEN \<Longrightarrow>
      \<exists>c'. send_data dv sid n e 0 c = (Inr (), c') \<and> up c' \<and> sent c' = sent c @ [gw_message (GwData dv sid n e)]"
begin

fun play :: "gw_call \<Rightarrow> 'c \<Rightarrow> 'c" where
  "play (GwHeader h sid) c = snd (send_header h sid c)"
| "play (GwData dv sid n e) c = snd (send_data dv sid n e 0 c)"

lemma play_one:
  "up c \<Longrightarrow> gw_call_ok call \<Longrightarrow> up (play call c) \<and> sent (play call c) = sent c @ [gw_message call]"
proof (cases call)
  case (GwHeader h sid)
  assume "up c" "gw_call_ok call"
  with GwHeader header_law [of c h sid] show ?thesis by auto
next
  case (GwData dv sid n e)
  assume "up c" "gw_call_ok call"
  with GwData data_law [of c dv sid n e] show ?thesis by auto
qed

lemma play_all:
  "up c \<Longrightarrow> list_all gw_call_ok calls \<Longrightarrow>
     up (fold play calls c) \<and> sent (fold play calls c) = sent c @ map gw_message calls"
proof (induction calls arbitrary: c)
  case (Cons call calls)
  with play_one [of c call] Cons.IH [of "play call c"] show ?case by auto
qed simp

end

definition gc_up :: "send_fault \<Rightarrow> gw_client \<Rightarrow> bool" where
  "gc_up fault c \<longleftrightarrow> gc_open c \<and> (\<forall>n. \<not> fault n)"

definition gc_stream_sent :: "gw_client \<Rightarrow> dsrp_message list" where
  "gc_stream_sent c =
     filter (\<lambda>m. dm_kind m = MkHeader \<or> dm_kind m = MkData) (map (dsrp_parse \<circ> fst) (filter snd (gc_wire c)))"

lemma built_header:
  assumes "length h = RADIO_HEADER_LEN"
  shows "\<exists>p. build_header_packet h sid = Inr p \<and> dsrp_parse p = gw_message (GwHeader h sid)"
  using dsrp_roundtrip [OF assms, of "replicate DV_FRAME_LEN 0" sid 0 False 0] by auto

lemma built_data:
  assumes "length dv = DV_FRAME_LEN"
  shows "\<exists>q. build_data_packet dv sid n e 0 = Inr q \<and> dsrp_parse q = gw_message (GwData dv sid n e)"
  using dsrp_roundtrip [OF _ assms, of "replicate RADIO_HEADER_LEN 0" sid n e 0] by auto

interpretation udp: gateway "gc_send_header fault" "gc_send_data fault" "gc_up fault" gc_stream_sent
proof
  fix c :: gw_client and h :: bytes and sid
  assume u: "gc_up fault c" and h: "length h = RADIO_HEADER_LEN"
  from u built_header [OF h, of sid] show "\<exists>c'. gc_send_header fault h sid c = (Inr (), c') \<and> gc_up fault c' \<and>
      gc_stream_sent c' = gc_stream_sent c @ [gw_message (GwHeader h sid)]"
    by (auto simp: gc_send_header_def gc_send_def gc_up_def gc_stream_sent_def dsrp_message_of_def)
next
  fix c :: gw_client and dv :: bytes and sid n e
  assume u: "gc_up fault c" and d: "length dv = DV_FRAME_LEN"
  from u built_data [OF d, of sid n e] show "\<exists>c'. gc_send_data fault dv sid n e 0 c = (Inr (), c') \<and> gc_up fault c' \<and>
      gc_stream_sent c' = gc_stream_sent c @ [gw_message (GwData dv sid n e)]"
    by (auto simp: gc_send_data_def gc_send_def gc_up_def gc_stream_sent_def dsrp_message_of_def)
qed

interpretation mock: gateway mg_send_header mg_send_data mg_running mg_sent
proof
  fix c :: mock_gateway and h :: bytes and sid
  assume u: "mg_running c" and h: "length h = RADIO_HEADER_LEN"
  from u built_header [OF h, of sid] show "\<exists>c'. mg_send_header h sid c = (Inr (), c') \<and> mg_running c' \<and>
      mg_sent c' = mg_sent c @ [gw_message (GwHeader h sid)]"
    by (auto simp: mg_send_header_def)
next
  fix c :: mock_gateway and dv :: bytes and sid n e
  assume u: "mg_running c" and d: "length dv = DV_FRAME_LEN"
  from u built_data [OF d, of sid n e] show "\<exists>c'. mg_send_data dv sid n e 0 c = (Inr (), c') \<and> mg_running c' \<and>
      mg_sent c' = mg_sent c @ [gw_message (GwData dv sid n e)]"
    by (auto simp: mg_send_data_def)
qed

subsection \<open>Registration and the poll cadence\<close>

datatype gc_op = GcStart "exn option" secs | GcClose | GcReader bytes secs | GcHeader bytes int
  | GcData bytes int int bool

fun gc_apply :: "send_fault \<Rightarrow> gc_op \<Rightarrow> gw_client \<Rightarrow> gw_client" where
  "gc_apply fault (GcStart err now) c = snd (gc_start fault err now c)"
| "gc_apply fault GcClose c = gc_close c"
| "gc_apply fault (GcReader data now) c = gc_reader_turn fault data now c"
| "gc_apply fault (GcHeader h sid) c = snd (gc_send_header fault h sid c)"
| "gc_apply fault (GcData dv sid n e) c = snd (gc_send_data fault dv sid n e 0 c)"

definition gc_run :: "send_fault \<Rightarrow> gc_op list \<Rightarrow> gw_client \<Rightarrow> gw_client" where
  "gc_run fault ops c = foldl (\<lambda>c op. gc_apply fault op c) c ops"

definition gateway_answer :: "gc_op \<Rightarrow> bool" where
  "gateway_answer op =
     (case op of GcReader data now \<Rightarrow> data \<noteq> [] \<and> dm_kind (dsrp_parse data) \<noteq> MkUnknown | _ \<Rightarrow> False)"

lemma gc_send_keeps [simp]:
  "gc_open (gc_send fault p c) = gc_open c" "gc_registered (gc_send fault p c) = gc_registered c"
  "gc_last_poll (gc_send fault p c) = gc_last_poll c" "gc_poll_interval (gc_send fault p c) = gc_poll_interval c"
  by (simp_all add: gc_send_def)

lemma gc_handle_packet_keeps [simp]:
  "gc_open (gc_handle_packet d c) = gc_open c" "gc_last_poll (gc_handle_packet d c) = gc_last_poll c"
  "gc_poll_interval (gc_handle_packet d c) = gc_poll_interval c"
  "gc_registered (gc_handle_packet d c) = (gc_registered c \<or> dm_kind (dsrp_parse d) \<noteq> MkUnknown)"
  by (simp_all add: gc_handle_packet_def Let_def)

lemma gc_apply_registered:
  "gc_registered (gc_apply fault op c) \<longleftrightarrow>
     op \<noteq> GcClose \<and> (gc_registered c \<or> gc_open c \<and> gateway_answer op)"
  by (cases op)
    (simp_all add: gateway_answer_def gc_start_def gc_register_def gc_poll_def gc_close_def gc_reader_turn_def
      gc_tick_def gc_send_header_def gc_send_data_def split: option.splits sum.splits)

lemma gc_run_snoc [simp]: "gc_run fault (ops @ [op]) c = gc_apply fault op (gc_run fault ops c)"
  by (simp add: gc_run_def)

text \<open>The client calls itself registered exactly when the gateway has answered since the socket was
  last closed: some read of a well-formed packet, made with the socket open, has no close after it.
  Sending polls never sets the flag.
\<close>

theorem registered_iff_answered:
  "gc_registered (gc_run fault ops (gc_init name mdl interval)) \<longleftrightarrow>
     (\<exists>before op after. ops = before @ op # after \<and> gateway_answer op \<and> GcClose \<notin> set after \<and>
        gc_open (gc_run fault before (gc_init name mdl interval)))"
proof (induction ops rule: rev_induct)
  case Nil
  show ?case by (simp add: gc_run_def gc_init_def)
next
  case (snoc x ops)
  let ?o = "\<lambda>before. gc_open (gc_run fault before (gc_init name mdl interval))"
  have "(\<exists>before op after. ops @ [x] = before @ op # after \<and> gateway_answer op \<and> GcClose \<notin> set after \<and> ?o before)
      \<longleftrightarrow> (?o ops \<and> gateway_answer x) \<or>
        (x \<noteq> GcClose \<and> (\<exists>before op after. ops = before @ op # after \<and> gateway_answer op \<and> GcClose \<notin> set after \<and> ?o before))"
    (is "?l \<longleftrightarrow> ?r")
  proof
    assume ?l
    then obtain before op after where
      h: "ops @ [x] = before @ op # after" "gateway_answer op" "GcClose \<notin> set after" "?o before" by blast
    show ?r
    proof (cases after rule: rev_cases)
      case Nil
      with h show ?thesis by simp
    next
      case (snoc after' y)
      with h show ?thesis by auto
    qed
  next
    assume ?r
    then show ?l
    proof
      assume "?o ops \<and> gateway_answer x"
      then show ?l by (intro exI [of _ ops] exI [of _ x] exI [of _ "[]"]) simp
    next
      assume "x \<noteq> GcClose \<and> (\<exists>before op after. ops = before @ op # after \<and> gateway_answer op \<and> GcClose \<notin> set after \<and> ?o before)"
      then obtain before op after where
        "x \<noteq> GcClose" "ops = before @ op # after" "gateway_answer op" "GcClose \<notin> set after" "?o before" by blast
      then show ?l by (intro exI [of _ before] exI [of _ op] exI [of _ "after @ [x]"]) simp
    qed
  qed
  moreover have "gateway_answer x \<Longrightarrow> x \<noteq> GcClose" by (auto simp: gateway_answer_def)
  ultimately show ?case using snoc.IH by (auto simp: gc_apply_registered)
qed

text \<open>A reader turn on an open socket leaves less than a poll interval since the last poll.\<close>

lemma reader_turn_polls:
  assumes "gc_open c" "0 < gc_poll_interval c"
  shows "now - gc_last_poll (gc_reader_turn fault data now c) < gc_poll_interval c"
  using assms by (simp add: gc_reader_turn_def gc_tick_def gc_poll_def)

end
