(* ===== verification/DStarBridge.thy ===== *)
theory DStarBridge
  imports DStarClient Tx
begin

section \<open>The D-STAR bridge: state and operations\<close>

text \<open>
  \<open>radio_server/dstar/bridge.py\<close>. All state of a \<open>DStarBridge\<close> is touched on one event loop, so its
  behaviour is a sequence of segments between two awaits. Each segment is a function of this theory;
  what an await returns (a queue entry, a time-out, the result or exception of a decode, an encode or
  a flush on the vocoder's executor) is an argument of the segment that follows it, and the place a
  coroutine is suspended at is part of the state: \<open>db_rx_phase\<close> for \<open>_reflector_to_rf\<close>, \<open>db_rf_wait\<close>
  and \<open>db_op_wait\<close> for a \<open>_feed_rf\<close> called by the RF pump and by the browser operator. A segment
  reads the clock once here. The vocoder, the resamplers and the level gates are parameters; the
  transmit session, the slot and the arbiter are those of \<open>Tx\<close> and \<open>Arbiter\<close>. The arbiter, the slot,
  the identifier and the log of the radio's calls are shared, so they are fields of the bridge's
  state, and a session is its own two fields on top of them. Log lines and the decode probe are left
  out; \<open>status\<close> only reads.
\<close>

datatype bridge_mode = ModeIdle | ModeRx | ModeTx

datatype over_source = FromRf | FromOp

datatype cut_cause =
  CutEnd | CutNewStream | CutIdle | CutStreamQuiet | CutDeadAir | CutOverCap | CutWatchdog | CutTeardown
  | CutTxRefused | CutRelayError

text \<open>What \<open>_reflector_to_rf\<close> does when the flush it awaits is over.\<close>

datatype after_flush = ThenGet | ThenLoop | ThenLatch dsrp_message

datatype rx_phase =
  AtTop | AtGet | AtDecode dsrp_message | AtFlush cut_cause after_flush | Ended

record ('i, 'g) bridge_config =
  bc_callsign :: pystr
  bc_module :: pystr
  bc_ur_call :: pystr
  bc_tx_hang :: secs
  bc_max_over :: secs
  bc_dead_air :: secs
  bc_queue_maxsize :: nat
  bc_command_frames :: nat
  bc_tx_to_rf :: bool
  bc_rx_to_reflector :: bool
  bc_streaming :: bool
  bc_stream_opens :: "nat \<Rightarrow> bool"
  bc_monitor_hub :: bool
  bc_on_activity :: bool
  bc_rf_gate :: "(secs \<Rightarrow> bytes \<Rightarrow> 'g \<Rightarrow> bool \<times> 'g) option"
  bc_rx_gate :: "(secs \<Rightarrow> bytes \<Rightarrow> 'g \<Rightarrow> bool \<times> 'g) option"
  bc_resample_8k :: "bytes \<Rightarrow> bytes"
  bc_to_canonical :: "bytes \<Rightarrow> bytes"
  bc_session :: "'i tx_config"

record ('i, 'g) bridge =
  db_running :: bool
  db_mode :: bridge_mode
  db_tx_source :: "over_source option"
  db_rx_queue :: "dsrp_message list option"
  db_rx_phase :: rx_phase
  db_rx_session :: "(bool \<times> secs option) option"
  db_rx_slot_held :: bool
  db_rx_over_deadline :: "secs option"
  db_rx_decode_stream :: bool
  db_last_gate_pass :: secs
  db_rx_gate_state :: 'g
  db_rx_stream_id :: "int option"
  db_last_rx_stream_id :: "int option"
  db_rx_decode_failing :: bool
  db_enq_stream_id :: "int option"
  db_enq_prev_seq :: "int option"
  db_rx_frames :: nat
  db_rx_overs :: nat
  db_rx_dropped_busy :: nat
  db_rx_arbiter_conflicts :: nat
  db_rx_key_refusals :: nat
  db_rx_relay_errors :: nat
  db_rx_reheaders :: nat
  db_rx_seq_lost :: int
  db_rx_queue_drops :: nat
  db_rx_relatches :: nat
  db_rx_idle_cuts :: nat
  db_rx_stream_cuts :: nat
  db_rx_dead_air_cuts :: nat
  db_rf_pump :: bool
  db_rf_wait :: bool
  db_op_wait :: bool
  db_rf_gate_state :: 'g
  db_tx_pcm :: bytes
  db_tx_session_id :: int
  db_tx_seq :: int
  db_session_counter :: int
  db_last_tx_feed :: secs
  db_tx_frames :: nat
  db_tx_overs :: nat
  db_tx_dropped_busy :: nat
  db_tx_deafened :: nat
  db_deafened_reason :: "string option"
  db_calls :: "gw_call list"
  db_published :: "bytes list"
  db_activity :: "(pystr \<times> pystr \<times> bool) list"
  db_arbiter :: arbiter
  db_slot :: tx_slot
  db_ident :: 'i
  db_radio_log :: "(secs \<times> tx_call \<times> bool) list"

definition bridge_init :: "arbiter \<Rightarrow> tx_slot \<Rightarrow> 'i \<Rightarrow> 'g \<Rightarrow> 'g \<Rightarrow> ('i, 'g) bridge" where
  "bridge_init arb slot ident rxg rfg =
     \<lparr>db_running = False, db_mode = ModeIdle, db_tx_source = None, db_rx_queue = None, db_rx_phase = Ended,
      db_rx_session = None, db_rx_slot_held = False, db_rx_over_deadline = None, db_rx_decode_stream = False,
      db_last_gate_pass = 0, db_rx_gate_state = rxg, db_rx_stream_id = None, db_last_rx_stream_id = None,
      db_rx_decode_failing = False, db_enq_stream_id = None, db_enq_prev_seq = None, db_rx_frames = 0,
      db_rx_overs = 0, db_rx_dropped_busy = 0, db_rx_arbiter_conflicts = 0, db_rx_key_refusals = 0,
      db_rx_relay_errors = 0, db_rx_reheaders = 0, db_rx_seq_lost = 0, db_rx_queue_drops = 0,
      db_rx_relatches = 0, db_rx_idle_cuts = 0, db_rx_stream_cuts = 0, db_rx_dead_air_cuts = 0,
      db_rf_pump = False, db_rf_wait = False, db_op_wait = False, db_rf_gate_state = rfg, db_tx_pcm = [],
      db_tx_session_id = 0, db_tx_seq = 0, db_session_counter = 0, db_last_tx_feed = 0, db_tx_frames = 0,
      db_tx_overs = 0, db_tx_dropped_busy = 0, db_tx_deafened = 0, db_deafened_reason = None, db_calls = [],
      db_published = [], db_activity = [], db_arbiter = arb, db_slot = slot, db_ident = ident,
      db_radio_log = []\<rparr>"

subsection \<open>Activity\<close>

text \<open>\<open>str.strip\<close> on what \<open>decode("ascii", "replace")\<close> can produce.\<close>

definition py_space :: "nat \<Rightarrow> bool" where
  "py_space c \<longleftrightarrow> (9 \<le> c \<and> c \<le> 13) \<or> (28 \<le> c \<and> c \<le> 32)"

definition strip :: "pystr \<Rightarrow> pystr" where
  "strip s = rev (dropWhile py_space (rev (dropWhile py_space s)))"

definition report_activity ::
  "('i, 'g) bridge_config \<Rightarrow> bytes option \<Rightarrow> bool \<Rightarrow> ('i, 'g) bridge \<Rightarrow> ('i, 'g) bridge" where
  "report_activity c rh outbound s =
     (if \<not> bc_on_activity c then s
      else case rh of
        None \<Rightarrow> s\<lparr>db_activity := db_activity s @ [(bc_callsign c, [], outbound)]\<rparr>
      | Some raw \<Rightarrow>
          (case parse_header raw of
             Inl e \<Rightarrow> s
           | Inr hdr \<Rightarrow>
               let my1 = strip (rh_my1 hdr); mycall = (if my1 = [] then bc_callsign c else my1)
               in s\<lparr>db_activity := db_activity s @ [(mycall, strip (rh_ur hdr), outbound)]\<rparr>))"

subsection \<open>The keying session over the shared radio\<close>

definition session_view :: "bool \<times> secs option \<Rightarrow> ('i, 'g) bridge \<Rightarrow> 'i tx_session" where
  "session_view x s = \<lparr>ts_keyed = fst x, ts_last_active = snd x, ts_arbiter = db_arbiter s,
     ts_ident = db_ident s, ts_log = db_radio_log s\<rparr>"

definition session_store :: "'i tx_session \<Rightarrow> ('i, 'g) bridge \<Rightarrow> ('i, 'g) bridge" where
  "session_store t s = s\<lparr>db_rx_session := Some (ts_keyed t, ts_last_active t), db_arbiter := ts_arbiter t,
     db_ident := ts_ident t, db_radio_log := ts_log t\<rparr>"

text \<open>The session is built with the bridge's hang as its idle time-out.\<close>

definition session_config :: "('i, 'g) bridge_config \<Rightarrow> 'i tx_config" where
  "session_config c = (bc_session c)\<lparr>tc_idle_timeout := bc_tx_hang c\<rparr>"

definition close_session :: "('i, 'g) bridge_config \<Rightarrow> secs \<Rightarrow> ('i, 'g) bridge \<Rightarrow> ('i, 'g) bridge" where
  "close_session c now s =
     (case db_rx_session s of
        None \<Rightarrow> s
      | Some x \<Rightarrow>
          let s = session_store (snd (tx_close (session_config c) now (session_view x s))) s;
              s = (if db_rx_slot_held s
                   then s\<lparr>db_slot := slot_release (db_slot s), db_rx_slot_held := False\<rparr> else s)
          in s\<lparr>db_rx_session := None\<rparr>)"

definition session_idle :: "('i, 'g) bridge_config \<Rightarrow> secs \<Rightarrow> ('i, 'g) bridge \<Rightarrow> bool" where
  "session_idle c now s =
     (case db_rx_session s of None \<Rightarrow> False | Some x \<Rightarrow> idle_elapsed (session_config c) now (session_view x s))"

definition over_expired :: "secs \<Rightarrow> ('i, 'g) bridge \<Rightarrow> bool" where
  "over_expired now s = (case db_rx_over_deadline s of None \<Rightarrow> False | Some d \<Rightarrow> d \<le> now)"

definition dead_air_elapsed :: "('i, 'g) bridge_config \<Rightarrow> secs \<Rightarrow> ('i, 'g) bridge \<Rightarrow> bool" where
  "dead_air_elapsed c now s =
     (0 < bc_dead_air c \<and> db_rx_session s \<noteq> None \<and> bc_dead_air c \<le> now - db_last_gate_pass s)"

definition end_rx ::
  "('i, 'g) bridge_config \<Rightarrow> cut_cause \<Rightarrow> secs \<Rightarrow> ('i, 'g) bridge \<Rightarrow> ('i, 'g) bridge" where
  "end_rx c cause now s =
     (let was_open = (db_mode s = ModeRx \<or> db_rx_session s \<noteq> None);
          s = s\<lparr>db_rx_decode_stream := False\<rparr>;
          s = close_session c now s;
          s = s\<lparr>db_rx_over_deadline := None, db_rx_stream_id := None\<rparr>;
          s = (if cause = CutEnd \<or> cause = CutTeardown then s\<lparr>db_last_rx_stream_id := None\<rparr> else s);
          s = (if db_mode s = ModeRx then s\<lparr>db_mode := ModeIdle\<rparr> else s)
      in if \<not> was_open then s
         else if cause = CutIdle \<or> cause = CutWatchdog then s\<lparr>db_rx_idle_cuts := db_rx_idle_cuts s + 1\<rparr>
         else if cause = CutStreamQuiet then s\<lparr>db_rx_stream_cuts := db_rx_stream_cuts s + 1\<rparr>
         else if cause = CutDeadAir then s\<lparr>db_rx_dead_air_cuts := db_rx_dead_air_cuts s + 1\<rparr>
         else s)"

definition watchdog ::
  "('i, 'g) bridge_config \<Rightarrow> secs \<Rightarrow> ('i, 'g) bridge \<Rightarrow> ('i, 'g) bridge" where
  "watchdog c now s =
     (if db_rx_session s \<noteq> None \<and> (session_idle c now s \<or> over_expired now s \<or> dead_air_elapsed c now s)
      then end_rx c CutWatchdog now s else s)"

definition force_unkey ::
  "('i, 'g) bridge_config \<Rightarrow> secs \<Rightarrow> ('i, 'g) bridge \<Rightarrow> ('i, 'g) bridge" where
  "force_unkey c now s =
     (let s = s\<lparr>db_rx_decode_stream := False\<rparr>;
          s = close_session c now s;
          s = s\<lparr>db_rx_over_deadline := None\<rparr>;
          t = snd (tx_call (bc_session c) now (CallPtt False) (session_view (False, None) s))
      in s\<lparr>db_radio_log := ts_log t, db_mode := ModeIdle, db_tx_source := None\<rparr>)"

subsection \<open>Reflector to RF\<close>

definition enqueue_rx ::
  "('i, 'g) bridge_config \<Rightarrow> dsrp_message \<Rightarrow> ('i, 'g) bridge \<Rightarrow> ('i, 'g) bridge" where
  "enqueue_rx c msg s =
     (let s = (if dm_kind msg = MkData then
                 let s = (if Some (dm_session_id msg) \<noteq> db_enq_stream_id s
                          then s\<lparr>db_enq_stream_id := Some (dm_session_id msg), db_enq_prev_seq := None\<rparr> else s)
                 in if dm_end msg then s\<lparr>db_enq_prev_seq := None\<rparr>
                    else let prev = db_enq_prev_seq s; s = s\<lparr>db_enq_prev_seq := Some (dm_seq_no msg)\<rparr>
                         in case prev of None \<Rightarrow> s
                            | Some p \<Rightarrow> s\<lparr>db_rx_seq_lost := db_rx_seq_lost s + (dm_seq_no msg - p - 1) mod (SEQ_MAX + 1)\<rparr>
               else s)
      in case db_rx_queue s of
           None \<Rightarrow> s
         | Some q \<Rightarrow>
             if 0 < bc_queue_maxsize c \<and> bc_queue_maxsize c \<le> length q
             then s\<lparr>db_rx_queue_drops := db_rx_queue_drops s + 1, db_rx_queue := Some (tl q @ [msg])\<rparr>
             else s\<lparr>db_rx_queue := Some (q @ [msg])\<rparr>)"

definition latch_over ::
  "('i, 'g) bridge_config \<Rightarrow> int \<Rightarrow> ('i, 'g) bridge \<Rightarrow> ('i, 'g) bridge" where
  "latch_over c session_id s =
     s\<lparr>db_mode := ModeRx, db_rx_stream_id := Some session_id, db_last_rx_stream_id := Some session_id,
       db_rx_decode_stream := (db_rx_decode_stream s \<or> bc_streaming c \<and> bc_stream_opens c (db_rx_overs s)),
       db_rx_decode_failing := False, db_rx_overs := db_rx_overs s + 1\<rparr>"

definition open_rx_session ::
  "('i, 'g) bridge_config \<Rightarrow> secs \<Rightarrow> ('i, 'g) bridge \<Rightarrow> ('i, 'g) bridge" where
  "open_rx_session c now s =
     (if db_rx_session s \<noteq> None then s
      else let (ok, slot) = try_acquire (Some ''dstar-relay'') now (db_slot s)
           in s\<lparr>db_rx_slot_held := ok, db_slot := slot, db_rx_session := Some (False, None),
                db_rx_over_deadline := (if 0 < bc_max_over c then Some (now + bc_max_over c) else None)\<rparr>)"

text \<open>The call \<open>session.feed\<close> of an open session.\<close>

definition feed_session ::
  "('i, 'g) bridge_config \<Rightarrow> bytes \<Rightarrow> secs \<Rightarrow> (('i, 'g) bridge, unit) meth" where
  "feed_session c data now s =
     (case db_rx_session s of
        None \<Rightarrow> (Inr (), s)
      | Some x \<Rightarrow> let (r, t) = tx_feed (session_config c) data now (session_view x s) in (r, session_store t s))"

text \<open>\<open>_emit_rx_pcm\<close>, in three parts: the monitor and the level gate, the handlers around \<open>feed\<close>, the whole.\<close>

definition rx_gate_frame ::
  "('i, 'g) bridge_config \<Rightarrow> secs \<Rightarrow> bytes \<Rightarrow> ('i, 'g) bridge \<Rightarrow> bool \<times> ('i, 'g) bridge" where
  "rx_gate_frame c now frame48 s =
     (let s = s\<lparr>db_rx_frames := db_rx_frames s + 1\<rparr>;
          s = (if bc_monitor_hub c then s\<lparr>db_published := db_published s @ [frame48]\<rparr> else s)
      in case bc_rx_gate c of
           None \<Rightarrow> (True, s)
         | Some gate \<Rightarrow> let (passes, g) = gate now frame48 (db_rx_gate_state s) in (passes, s\<lparr>db_rx_gate_state := g\<rparr>))"

definition after_feed ::
  "('i, 'g) bridge_config \<Rightarrow> secs \<Rightarrow> exn + unit \<Rightarrow> ('i, 'g) bridge \<Rightarrow> ('i, 'g) bridge" where
  "after_feed c now r s =
     (case r of
        Inr u \<Rightarrow> s
      | Inl AudioFormatMismatch \<Rightarrow> s
      | Inl ArbiterStateError \<Rightarrow> s\<lparr>db_rx_arbiter_conflicts := db_rx_arbiter_conflicts s + 1\<rparr>
      | Inl RadioUnavailable \<Rightarrow>
          end_rx c CutTxRefused now (s\<lparr>db_rx_key_refusals := db_rx_key_refusals s + 1\<rparr>)
      | Inl e \<Rightarrow>
          end_rx c CutRelayError now (s\<lparr>db_rx_relay_errors := db_rx_relay_errors s + 1\<rparr>))"

definition emit_rx_pcm ::
  "('i, 'g) bridge_config \<Rightarrow> secs \<Rightarrow> bytes \<Rightarrow> ('i, 'g) bridge \<Rightarrow> ('i, 'g) bridge" where
  "emit_rx_pcm c now pcm8 s =
     (if db_mode s \<noteq> ModeRx then s
      else let frame48 = bc_to_canonical c pcm8;
               (passes, s) = rx_gate_frame c now frame48 s
           in if \<not> passes then s
              else let s = open_rx_session c now (s\<lparr>db_last_gate_pass := now\<rparr>);
                       (r, s) = feed_session c frame48 now s
                   in after_feed c now r s)"

definition emit_all ::
  "('i, 'g) bridge_config \<Rightarrow> secs \<Rightarrow> bytes list \<Rightarrow> ('i, 'g) bridge \<Rightarrow> ('i, 'g) bridge" where
  "emit_all c now pcms s = fold (emit_rx_pcm c now) pcms s"

text \<open>
  What \<open>_reflector_to_rf\<close> does after \<open>_flush_and_end_rx\<close> returned, up to its next await;
  the top of the loop is a point of its own, since no state changes between the two.
\<close>

definition rx_continue ::
  "('i, 'g) bridge_config \<Rightarrow> after_flush \<Rightarrow> ('i, 'g) bridge \<Rightarrow> ('i, 'g) bridge" where
  "rx_continue c next s =
     (case next of
        ThenGet \<Rightarrow> s\<lparr>db_rx_phase := AtGet\<rparr>
      | ThenLoop \<Rightarrow> s\<lparr>db_rx_phase := AtTop\<rparr>
      | ThenLatch msg \<Rightarrow>
          (report_activity c (Some (dm_radio_header msg)) False (latch_over c (dm_session_id msg) s))
            \<lparr>db_rx_phase := AtTop\<rparr>)"

definition flush_and_end_rx ::
  "('i, 'g) bridge_config \<Rightarrow> cut_cause \<Rightarrow> after_flush \<Rightarrow> secs \<Rightarrow> ('i, 'g) bridge \<Rightarrow> ('i, 'g) bridge" where
  "flush_and_end_rx c cause next now s =
     (if db_rx_decode_stream s \<and> db_mode s = ModeRx then s\<lparr>db_rx_phase := AtFlush cause next\<rparr>
      else rx_continue c next (end_rx c cause now s))"

definition rx_flushed ::
  "('i, 'g) bridge_config \<Rightarrow> exn + bytes list \<Rightarrow> secs \<Rightarrow> ('i, 'g) bridge \<Rightarrow> ('i, 'g) bridge" where
  "rx_flushed c r now s =
     (case db_rx_phase s of
        AtFlush cause next \<Rightarrow>
          rx_continue c next (end_rx c cause now
            (emit_all c now (case r of Inl e \<Rightarrow> [] | Inr tail \<Rightarrow> tail) s))
      | _ \<Rightarrow> s)"

definition rx_top ::
  "('i, 'g) bridge_config \<Rightarrow> secs \<Rightarrow> ('i, 'g) bridge \<Rightarrow> ('i, 'g) bridge" where
  "rx_top c now s =
     (if db_rx_session s \<noteq> None \<and> over_expired now s then flush_and_end_rx c CutOverCap ThenGet now s
      else if db_rx_session s \<noteq> None \<and> session_idle c now s then flush_and_end_rx c CutIdle ThenGet now s
      else if db_rx_session s \<noteq> None \<and> dead_air_elapsed c now s then flush_and_end_rx c CutDeadAir ThenGet now s
      else s\<lparr>db_rx_phase := AtGet\<rparr>)"

definition rx_timeout ::
  "('i, 'g) bridge_config \<Rightarrow> secs \<Rightarrow> ('i, 'g) bridge \<Rightarrow> ('i, 'g) bridge" where
  "rx_timeout c now s = flush_and_end_rx c CutStreamQuiet ThenLoop now s"

definition rx_header ::
  "('i, 'g) bridge_config \<Rightarrow> dsrp_message \<Rightarrow> secs \<Rightarrow> ('i, 'g) bridge \<Rightarrow> ('i, 'g) bridge" where
  "rx_header c msg now s =
     (if db_mode s = ModeTx then s\<lparr>db_rx_dropped_busy := db_rx_dropped_busy s + 1, db_rx_phase := AtTop\<rparr>
      else if db_mode s = ModeRx \<and> Some (dm_session_id msg) = db_rx_stream_id s
      then s\<lparr>db_rx_reheaders := db_rx_reheaders s + 1, db_rx_phase := AtTop\<rparr>
      else flush_and_end_rx c CutNewStream (ThenLatch msg) now s)"

definition rx_data ::
  "('i, 'g) bridge_config \<Rightarrow> dsrp_message \<Rightarrow> secs \<Rightarrow> ('i, 'g) bridge \<Rightarrow> ('i, 'g) bridge" where
  "rx_data c msg now s =
     (if db_mode s = ModeTx then s\<lparr>db_rx_dropped_busy := db_rx_dropped_busy s + 1, db_rx_phase := AtTop\<rparr>
      else if db_mode s = ModeIdle then
        (if Some (dm_session_id msg) \<noteq> db_last_rx_stream_id s \<or> db_rx_decode_failing s
         then s\<lparr>db_rx_dropped_busy := db_rx_dropped_busy s + 1, db_rx_phase := AtTop\<rparr>
         else (latch_over c (dm_session_id msg) s)
                \<lparr>db_rx_relatches := db_rx_relatches s + 1, db_rx_phase := AtDecode msg\<rparr>)
      else s\<lparr>db_rx_phase := AtDecode msg\<rparr>)"

definition rx_message ::
  "('i, 'g) bridge_config \<Rightarrow> secs \<Rightarrow> ('i, 'g) bridge \<Rightarrow> ('i, 'g) bridge" where
  "rx_message c now s =
     (case db_rx_queue s of
        Some (msg # q) \<Rightarrow>
          let s = s\<lparr>db_rx_queue := Some q\<rparr>
          in if dm_kind msg = MkHeader then rx_header c msg now s
             else if dm_kind msg = MkData then rx_data c msg now s
             else s\<lparr>db_rx_phase := AtTop\<rparr>
      | _ \<Rightarrow> s)"

definition play_ambe ::
  "('i, 'g) bridge_config \<Rightarrow> exn + bytes list \<Rightarrow> secs \<Rightarrow> ('i, 'g) bridge \<Rightarrow> ('i, 'g) bridge" where
  "play_ambe c r now s =
     (case r of
        Inl e \<Rightarrow> s\<lparr>db_rx_decode_failing := True\<rparr>
      | Inr pcms \<Rightarrow> emit_all c now pcms (s\<lparr>db_rx_decode_failing := False\<rparr>))"

definition touch_session :: "secs \<Rightarrow> ('i, 'g) bridge \<Rightarrow> ('i, 'g) bridge" where
  "touch_session now s =
     (case db_rx_session s of None \<Rightarrow> s | Some x \<Rightarrow> session_store (tx_touch now (session_view x s)) s)"

definition rx_decoded ::
  "('i, 'g) bridge_config \<Rightarrow> exn + bytes list \<Rightarrow> secs \<Rightarrow> ('i, 'g) bridge \<Rightarrow> ('i, 'g) bridge" where
  "rx_decoded c r now s =
     (case db_rx_phase s of
        AtDecode msg \<Rightarrow>
          let s = play_ambe c r now s;
              s = (if db_rx_session s \<noteq> None \<and> \<not> db_rx_decode_failing s then touch_session now s else s)
          in if dm_end msg then flush_and_end_rx c CutEnd ThenLoop now s else s\<lparr>db_rx_phase := AtTop\<rparr>
      | _ \<Rightarrow> s)"

subsection \<open>RF and the operator to the reflector\<close>

definition PCM_BYTES_PER_FRAME :: nat where "PCM_BYTES_PER_FRAME = 320"

definition gw_do :: "gw_call \<Rightarrow> ('i, 'g) bridge \<Rightarrow> ('i, 'g) bridge" where
  "gw_do call s = s\<lparr>db_calls := db_calls s @ [call]\<rparr>"

definition alloc_session_id :: "('i, 'g) bridge \<Rightarrow> int \<times> ('i, 'g) bridge" where
  "alloc_session_id s =
     (let n = (db_session_counter s + 1) mod 0xFFFF in (n + 1, s\<lparr>db_session_counter := n\<rparr>))"

text \<open>The defaults of \<open>build_voice_header\<close>: \<open>my2\<close> is INFO, the gateway module G.\<close>

definition voice_header :: "('i, 'g) bridge_config \<Rightarrow> pystr \<Rightarrow> exn + bytes" where
  "voice_header c ur = build_voice_header (bc_callsign c) (bc_module c) ur [73, 78, 70, 79] [71]"

definition open_tx ::
  "('i, 'g) bridge_config \<Rightarrow> over_source \<Rightarrow> secs \<Rightarrow> (('i, 'g) bridge, unit) meth" where
  "open_tx c source now s =
     (let s = s\<lparr>db_mode := ModeTx, db_tx_source := Some source, db_tx_overs := db_tx_overs s + 1\<rparr>;
          (sid, s) = alloc_session_id s;
          s = s\<lparr>db_tx_session_id := sid, db_tx_seq := 0, db_tx_pcm := [], db_last_tx_feed := now\<rparr>
      in case voice_header c (bc_ur_call c) of
           Inl e \<Rightarrow> (Inl e, s)
         | Inr header \<Rightarrow> (Inr (), report_activity c None True (gw_do (GwHeader header sid) s)))"

definition end_tx :: "over_source option \<Rightarrow> ('i, 'g) bridge \<Rightarrow> ('i, 'g) bridge" where
  "end_tx source s =
     (if db_mode s \<noteq> ModeTx \<or> db_tx_source s \<noteq> source then s
      else let s = gw_do (GwData (NULL_AMBE @ slow_data_for_seq (db_tx_seq s)) (db_tx_session_id s) (db_tx_seq s) True) s
           in s\<lparr>db_tx_pcm := [], db_mode := ModeIdle, db_tx_source := None\<rparr>)"

definition set_wait :: "over_source \<Rightarrow> bool \<Rightarrow> ('i, 'g) bridge \<Rightarrow> ('i, 'g) bridge" where
  "set_wait source b s = (case source of FromRf \<Rightarrow> s\<lparr>db_rf_wait := b\<rparr> | FromOp \<Rightarrow> s\<lparr>db_op_wait := b\<rparr>)"

text \<open>
  The head of the loop of \<open>_feed_rf\<close>: cut a chunk off the buffer and await its encoding, or return.
\<close>

definition feed_next :: "over_source \<Rightarrow> ('i, 'g) bridge \<Rightarrow> ('i, 'g) bridge" where
  "feed_next source s =
     (if PCM_BYTES_PER_FRAME \<le> length (db_tx_pcm s)
      then set_wait source True (s\<lparr>db_tx_pcm := drop PCM_BYTES_PER_FRAME (db_tx_pcm s)\<rparr>)
      else set_wait source False s)"

definition feed_rf ::
  "('i, 'g) bridge_config \<Rightarrow> over_source \<Rightarrow> bytes \<Rightarrow> ('i, 'g) bridge \<Rightarrow> ('i, 'g) bridge" where
  "feed_rf c source pcm48 s = feed_next source (s\<lparr>db_tx_pcm := db_tx_pcm s @ bc_resample_8k c pcm48\<rparr>)"

text \<open>
  The encoder answered. A codec that returns a frame of the wrong length makes \<open>build_dv_frame\<close> raise,
  outside the handler: the exception leaves \<open>_feed_rf\<close>.
\<close>

definition encoded :: "over_source \<Rightarrow> exn + bytes \<Rightarrow> secs \<Rightarrow> (('i, 'g) bridge, unit) meth" where
  "encoded source r now s =
     (case r of
        Inl e \<Rightarrow> (Inr (), feed_next source s)
      | Inr ambe \<Rightarrow>
          (case build_dv_frame ambe (slow_data_for_seq (db_tx_seq s)) of
             Inl e \<Rightarrow> (Inl e, set_wait source False s)
           | Inr dv \<Rightarrow>
               let s = gw_do (GwData dv (db_tx_session_id s) (db_tx_seq s) False) s;
                   s = s\<lparr>db_tx_frames := db_tx_frames s + 1, db_tx_seq := next_seq (db_tx_seq s), db_last_tx_feed := now\<rparr>
               in (Inr (), feed_next source s)))"

definition reap_stale_tx :: "('i, 'g) bridge_config \<Rightarrow> secs \<Rightarrow> ('i, 'g) bridge \<Rightarrow> ('i, 'g) bridge" where
  "reap_stale_tx c now s =
     (if db_mode s \<noteq> ModeTx then s
      else if bc_tx_hang c \<le> now - db_last_tx_feed s then end_tx (db_tx_source s) s
      else s)"

text \<open>\<open>reason\<close> is what \<open>relay_mute_reason\<close> says of the radio now; without the callable it is None.\<close>

definition deafened :: "string option \<Rightarrow> ('i, 'g) bridge \<Rightarrow> bool \<times> ('i, 'g) bridge" where
  "deafened reason s =
     (case reason of
        None \<Rightarrow> (False, s\<lparr>db_deafened_reason := None\<rparr>)
      | Some r \<Rightarrow> (True, s\<lparr>db_tx_deafened := db_tx_deafened s + 1, db_deafened_reason := Some r\<rparr>))"

text \<open>An exception that leaves the pump's loop ends the task through its \<open>finally\<close>.\<close>

definition pump_died :: "('i, 'g) bridge \<Rightarrow> ('i, 'g) bridge" where
  "pump_died s = (end_tx (Some FromRf) s)\<lparr>db_rf_pump := False, db_rf_wait := False\<rparr>"

definition rf_frame ::
  "('i, 'g) bridge_config \<Rightarrow> bytes \<Rightarrow> string option \<Rightarrow> secs \<Rightarrow> ('i, 'g) bridge \<Rightarrow> ('i, 'g) bridge" where
  "rf_frame c pcm reason now s =
     (let (passes, g) = (case bc_rf_gate c of None \<Rightarrow> (True, db_rf_gate_state s)
                         | Some gate \<Rightarrow> gate now pcm (db_rf_gate_state s));
          s = s\<lparr>db_rf_gate_state := g\<rparr>
      in if \<not> passes then reap_stale_tx c now s
         else let (deaf, s) = deafened reason s
              in if deaf then reap_stale_tx c now s
                 else if db_mode s = ModeRx \<or> (db_mode s = ModeTx \<and> db_tx_source s \<noteq> Some FromRf)
                 then s\<lparr>db_tx_dropped_busy := db_tx_dropped_busy s + 1\<rparr>
                 else if db_mode s = ModeIdle
                 then (case open_tx c FromRf now s of
                         (Inl e, s) \<Rightarrow> pump_died s
                       | (Inr u, s) \<Rightarrow> feed_rf c FromRf pcm s)
                 else feed_rf c FromRf pcm s)"

definition rf_timeout ::
  "('i, 'g) bridge_config \<Rightarrow> secs \<Rightarrow> ('i, 'g) bridge \<Rightarrow> ('i, 'g) bridge" where
  "rf_timeout c now s = reap_stale_tx c now s"

definition rf_encoded :: "exn + bytes \<Rightarrow> secs \<Rightarrow> ('i, 'g) bridge \<Rightarrow> ('i, 'g) bridge" where
  "rf_encoded r now s = (case encoded FromRf r now s of (Inl e, s) \<Rightarrow> pump_died s | (Inr u, s) \<Rightarrow> s)"

definition send_operator_audio ::
  "('i, 'g) bridge_config \<Rightarrow> bytes \<Rightarrow> secs \<Rightarrow> (('i, 'g) bridge, unit) meth" where
  "send_operator_audio c pcm48 now s =
     (if \<not> db_running s then (Inr (), s)
      else if db_mode s = ModeRx \<or> (db_mode s = ModeTx \<and> db_tx_source s \<noteq> Some FromOp)
      then (Inr (), s\<lparr>db_tx_dropped_busy := db_tx_dropped_busy s + 1\<rparr>)
      else andthen (if db_mode s = ModeIdle then open_tx c FromOp now else returning ())
             (\<lambda>_. modifying (feed_rf c FromOp pcm48)) s)"

definition end_operator_over :: "('i, 'g) bridge \<Rightarrow> ('i, 'g) bridge" where
  "end_operator_over s = end_tx (Some FromOp) s"

subsection \<open>Link commands, start and teardown\<close>

text \<open>\<open>n\<close> silence frames from sequence number \<open>seq_no\<close> on, then the end frame.\<close>

fun command_frames :: "nat \<Rightarrow> int \<Rightarrow> int \<Rightarrow> gw_call list" where
  "command_frames 0 sid seq_no = [GwData (NULL_AMBE @ slow_data_for_seq seq_no) sid seq_no True]"
| "command_frames (Suc n) sid seq_no =
     GwData (NULL_AMBE @ slow_data_for_seq seq_no) sid seq_no False # command_frames n sid (next_seq seq_no)"

definition send_link_command ::
  "('i, 'g) bridge_config \<Rightarrow> pystr \<Rightarrow> (('i, 'g) bridge, bool) meth" where
  "send_link_command c urcall s =
     (if \<not> db_running s \<or> db_mode s \<noteq> ModeIdle then (Inr False, s)
      else let (sid, s) = alloc_session_id s
           in case voice_header c urcall of
                Inl e \<Rightarrow> (Inl e, s)
              | Inr header \<Rightarrow>
                  (Inr True, fold gw_do (GwHeader header sid # command_frames (bc_command_frames c) sid 0) s))"

definition keepalive_due :: "secs \<Rightarrow> secs \<Rightarrow> secs \<Rightarrow> ('i, 'g) bridge \<Rightarrow> bool" where
  "keepalive_due keepalive last_vox now s =
     (db_mode s = ModeIdle \<and> \<not> now - last_vox < keepalive / 2)"

text \<open>
  Teardown runs \<open>_force_unkey\<close> and then cancels the tasks, with no await between; the cancelled
  tasks' \<open>finally\<close> clauses follow.
\<close>

definition teardown ::
  "('i, 'g) bridge_config \<Rightarrow> secs \<Rightarrow> ('i, 'g) bridge \<Rightarrow> ('i, 'g) bridge" where
  "teardown c now s =
     (let s = force_unkey c now s;
          s = (if db_rx_phase s \<noteq> Ended then end_rx c CutTeardown now s else s);
          s = (if db_rf_pump s then pump_died s else s)
      in s\<lparr>db_rx_phase := Ended, db_rx_queue := None, db_mode := ModeIdle, db_tx_source := None\<rparr>)"

definition bridge_stop ::
  "('i, 'g) bridge_config \<Rightarrow> secs \<Rightarrow> ('i, 'g) bridge \<Rightarrow> ('i, 'g) bridge" where
  "bridge_stop c now s = (if db_running s then teardown c now (s\<lparr>db_running := False\<rparr>) else s)"

text \<open>
  \<open>vocoder_error\<close> is what the factory raises when the dongle is busy, \<open>late_error\<close> what anything after
  it raises (the gateway's socket, the rx demand): then the half-open start is rolled back.
\<close>

definition bridge_start ::
  "('i, 'g) bridge_config \<Rightarrow> exn option \<Rightarrow> exn option \<Rightarrow> secs \<Rightarrow> (('i, 'g) bridge, unit) meth" where
  "bridge_start c vocoder_error late_error now s =
     (if db_running s then (Inr (), s)
      else case vocoder_error of
        Some e \<Rightarrow> (Inl e, s)
      | None \<Rightarrow>
          (case late_error of
             Some e \<Rightarrow> (Inl e, teardown c now s)
           | None \<Rightarrow>
               (Inr (), s\<lparr>db_running := True,
                  db_rx_queue := (if bc_tx_to_rf c then Some [] else db_rx_queue s),
                  db_rx_phase := (if bc_tx_to_rf c then AtTop else Ended),
                  db_rf_pump := bc_rx_to_reflector c, db_rf_wait := False\<rparr>)))"

subsection \<open>The event loop\<close>

text \<open>
  One event of the loop: the segment that runs next. \<open>OtherKeys\<close> and \<open>OtherUnkeys\<close> are the other users
  of the arbiter, \<open>OtherTakesSlot\<close> and \<open>OtherFreesSlot\<close> those of the slot; each frees only what it took.
\<close>

datatype bridge_event =
    EvInbound dsrp_message
  | EvTop secs | EvMessage secs | EvRxTimeout secs
  | EvDecoded "exn + bytes list" secs | EvFlushed "exn + bytes list" secs
  | EvWatchdog secs
  | EvRfFrame bytes "string option" secs | EvRfTimeout secs | EvRfEncoded "exn + bytes" secs
  | EvOpFrame bytes secs | EvOpEncoded "exn + bytes" secs | EvOpEnd
  | EvCommand pystr
  | EvStart "exn option" "exn option" secs | EvStop secs
  | EvOther "arbiter \<Rightarrow> arbiter" "tx_slot \<Rightarrow> tx_slot"

text \<open>
  When a segment can run: where its coroutine is suspended. The operator's calls are awaited
  serially, and the watchdog lives as long as the drain task.
\<close>

fun ev_enabled :: "bridge_event \<Rightarrow> ('i, 'g) bridge \<Rightarrow> bool" where
  "ev_enabled (EvInbound msg) s = True"
| "ev_enabled (EvTop now) s = (db_rx_phase s = AtTop)"
| "ev_enabled (EvMessage now) s = (db_rx_phase s = AtGet \<and> db_rx_queue s \<noteq> None \<and> db_rx_queue s \<noteq> Some [])"
| "ev_enabled (EvRxTimeout now) s = (db_rx_phase s = AtGet \<and> db_rx_queue s = Some [])"
| "ev_enabled (EvDecoded r now) s = (case db_rx_phase s of AtDecode msg \<Rightarrow> True | _ \<Rightarrow> False)"
| "ev_enabled (EvFlushed r now) s = (case db_rx_phase s of AtFlush cause next \<Rightarrow> True | _ \<Rightarrow> False)"
| "ev_enabled (EvWatchdog now) s = (db_rx_phase s \<noteq> Ended)"
| "ev_enabled (EvRfFrame pcm reason now) s = (db_rf_pump s \<and> \<not> db_rf_wait s)"
| "ev_enabled (EvRfTimeout now) s = (db_rf_pump s \<and> \<not> db_rf_wait s)"
| "ev_enabled (EvRfEncoded r now) s = (db_rf_pump s \<and> db_rf_wait s)"
| "ev_enabled (EvOpFrame pcm now) s = (\<not> db_op_wait s)"
| "ev_enabled (EvOpEncoded r now) s = db_op_wait s"
| "ev_enabled EvOpEnd s = (\<not> db_op_wait s)"
| "ev_enabled (EvCommand urcall) s = True"
| "ev_enabled (EvStart e1 e2 now) s = True"
| "ev_enabled (EvStop now) s = True"
| "ev_enabled (EvOther f g) s = True"

fun ev_apply :: "('i, 'g) bridge_config \<Rightarrow> bridge_event \<Rightarrow> ('i, 'g) bridge \<Rightarrow> ('i, 'g) bridge" where
  "ev_apply c (EvInbound msg) s = enqueue_rx c msg s"
| "ev_apply c (EvTop now) s = rx_top c now s"
| "ev_apply c (EvMessage now) s = rx_message c now s"
| "ev_apply c (EvRxTimeout now) s = rx_timeout c now s"
| "ev_apply c (EvDecoded r now) s = rx_decoded c r now s"
| "ev_apply c (EvFlushed r now) s = rx_flushed c r now s"
| "ev_apply c (EvWatchdog now) s = watchdog c now s"
| "ev_apply c (EvRfFrame pcm reason now) s = rf_frame c pcm reason now s"
| "ev_apply c (EvRfTimeout now) s = rf_timeout c now s"
| "ev_apply c (EvRfEncoded r now) s = rf_encoded r now s"
| "ev_apply c (EvOpFrame pcm now) s = snd (send_operator_audio c pcm now s)"
| "ev_apply c (EvOpEncoded r now) s = snd (encoded FromOp r now s)"
| "ev_apply c EvOpEnd s = end_operator_over s"
| "ev_apply c (EvCommand urcall) s = snd (send_link_command c urcall s)"
| "ev_apply c (EvStart e1 e2 now) s = snd (bridge_start c e1 e2 now s)"
| "ev_apply c (EvStop now) s = bridge_stop c now s"
| "ev_apply c (EvOther f g) s = s\<lparr>db_arbiter := f (db_arbiter s), db_slot := g (db_slot s)\<rparr>"

text \<open>
  The states reached from a new bridge when every event is enabled and \<open>admits\<close> it.
\<close>

inductive bridge_reach ::
  "('i, 'g) bridge_config \<Rightarrow> (bridge_event \<Rightarrow> ('i, 'g) bridge \<Rightarrow> bool) \<Rightarrow> ('i, 'g) bridge \<Rightarrow> bool"
  for c :: "('i, 'g) bridge_config" and admits :: "bridge_event \<Rightarrow> ('i, 'g) bridge \<Rightarrow> bool"
where
  reach_new: "bridge_reach c admits (bridge_init arb slot ident rxg rfg)"
| reach_step: "bridge_reach c admits s \<Longrightarrow> ev_enabled ev s \<Longrightarrow> admits ev s \<Longrightarrow>
    bridge_reach c admits (ev_apply c ev s)"

fun ev_run :: "('i, 'g) bridge_config \<Rightarrow> bridge_event list \<Rightarrow> ('i, 'g) bridge \<Rightarrow> ('i, 'g) bridge" where
  "ev_run c [] s = s"
| "ev_run c (ev # evs) s = ev_run c evs (ev_apply c ev s)"

text \<open>A run all of whose events are enabled and admitted; what it reaches is reachable.\<close>

fun legal ::
  "('i, 'g) bridge_config \<Rightarrow> (bridge_event \<Rightarrow> ('i, 'g) bridge \<Rightarrow> bool) \<Rightarrow> bridge_event list \<Rightarrow> ('i, 'g) bridge \<Rightarrow> bool" where
  "legal c admits [] s = True"
| "legal c admits (ev # evs) s = (ev_enabled ev s \<and> admits ev s \<and> legal c admits evs (ev_apply c ev s))"

lemma legal_reach: "bridge_reach c admits s \<Longrightarrow> legal c admits evs s \<Longrightarrow> bridge_reach c admits (ev_run c evs s)"
  by (induction evs arbitrary: s) (simp_all add: reach_step)

subsection \<open>A bridge for the examples\<close>

text \<open>
  The bridge of one concrete configuration, with the default bounds, no gates and a radio that never
  fails, and a run that keys it.
\<close>

definition demo_session :: "unit tx_config" where
  "demo_session = \<lparr>tc_idle_timeout = 1, tc_has_on_key = False, tc_station_id = False,
     tc_key_up_id = (\<lambda>_. returning None), tc_periodic_id = (\<lambda>_. returning None),
     tc_sign_off_id = (\<lambda>_. returning None), tc_fault = (\<lambda>_ _. None)\<rparr>"

definition demo_config :: "(unit, unit) bridge_config" where
  "demo_config = \<lparr>bc_callsign = [65, 69, 57, 83], bc_module = [65], bc_ur_call = [67, 81], bc_tx_hang = 1,
     bc_max_over = 60, bc_dead_air = 10, bc_queue_maxsize = 64, bc_command_frames = 0, bc_tx_to_rf = True,
     bc_rx_to_reflector = True, bc_streaming = True, bc_stream_opens = (\<lambda>_. True), bc_monitor_hub = False,
     bc_on_activity = False, bc_rf_gate = None, bc_rx_gate = None, bc_resample_8k = (\<lambda>x. x),
     bc_to_canonical = (\<lambda>x. x), bc_session = demo_session\<rparr>"

definition demo_new :: "(unit, unit) bridge" where
  "demo_new = bridge_init (arbiter_init False) slot_init () () ()"

definition demo_header :: "int \<Rightarrow> dsrp_message" where
  "demo_header sid = (dsrp_message_of MkHeader)\<lparr>dm_session_id := sid\<rparr>"

definition demo_data :: "int \<Rightarrow> bool \<Rightarrow> dsrp_message" where
  "demo_data sid e = (dsrp_message_of MkData)\<lparr>dm_session_id := sid, dm_end := e\<rparr>"

definition demo_keyed :: "bridge_event list" where
  "demo_keyed = [EvStart None None 0, EvInbound (demo_header 7), EvTop 0, EvMessage 0,
     EvInbound (demo_data 7 False), EvTop 0, EvMessage 0, EvDecoded (Inr [[1, 2]]) 0]"

lemma demo_new_reach: "bridge_reach demo_config admits demo_new"
  unfolding demo_new_def by (rule reach_new)

end
