(* ===== verification/BoundedQueue.thy ===== *)
theory BoundedQueue
  imports Prelude
begin

section \<open>Queues that shed their oldest item\<close>

text \<open>
  Several components hand frames over through a bounded \<open>asyncio.Queue\<close> filled with the same three
  lines: \<open>put_nowait\<close>, and on \<open>QueueFull\<close> a \<open>get_nowait\<close> and a second \<open>put_nowait\<close>. The locale states
  what one such push does; its lemma is the contract: a queue that is not read holds the newest
  \<open>cap\<close> items in order, and the drop counter is what is missing.
\<close>

locale drop_oldest =
  fixes items :: "'s \<Rightarrow> 'x list"
    and push :: "'x \<Rightarrow> 's \<Rightarrow> 's"
    and live :: "'s \<Rightarrow> bool"
    and cap :: nat
  assumes push_items: "live s \<Longrightarrow>
      items (push x s) = (if cap \<le> length (items s) then tl (items s) @ [x] else items s @ [x])"
    and push_live: "live s \<Longrightarrow> live (push x s)"
begin

lemma push_length: "live s \<Longrightarrow> 0 < cap \<Longrightarrow> length (items s) \<le> cap \<Longrightarrow> length (items (push x s)) \<le> cap"
  by (auto simp: push_items)

lemma pushes:
  "live s \<Longrightarrow> 0 < cap \<Longrightarrow> length (items s) \<le> cap \<Longrightarrow>
     items (fold push xs s) = drop (length (items s) + length xs - cap) (items s @ xs) \<and> live (fold push xs s)"
proof (induction xs arbitrary: s)
  case (Cons x xs)
  have p: "live (push x s)" "length (items (push x s)) \<le> cap" using Cons.prems by (auto intro: push_live push_length)
  note ih = Cons.IH [OF p(1) Cons.prems(2) p(2)]
  show ?case
  proof (cases "cap \<le> length (items s)")
    case True
    with Cons.prems have l: "length (items s) = cap" by simp
    with Cons.prems have i: "items (push x s) = tl (items s) @ [x]" by (simp add: push_items)
    obtain y ys where "items s = y # ys" using l Cons.prems(2) by (cases "items s") auto
    moreover from this l have "cap = Suc (length ys)" by simp
    ultimately show ?thesis using ih i by simp
  next
    case False
    with Cons.prems have "items (push x s) = items s @ [x]" by (simp add: push_items)
    with ih False show ?thesis by simp
  qed
qed simp

lemma pushes_suffix:
  "live s \<Longrightarrow> 0 < cap \<Longrightarrow> items s = [] \<Longrightarrow> items (fold push xs s) = drop (length xs - cap) xs"
  using pushes [of s xs] by simp

end

text \<open>A queue that counts what it sheds.\<close>

locale counted_drop_oldest = drop_oldest +
  fixes drops :: "'s \<Rightarrow> nat"
  assumes push_drops: "live s \<Longrightarrow> drops (push x s) = drops s + of_bool (cap \<le> length (items s))"
begin

lemma pushes_counted:
  "live s \<Longrightarrow> 0 < cap \<Longrightarrow> length (items s) \<le> cap \<Longrightarrow>
     drops (fold push xs s) = drops s + (length (items s) + length xs - cap)"
proof (induction xs arbitrary: s)
  case (Cons x xs)
  have p: "live (push x s)" "length (items (push x s)) \<le> cap" using Cons.prems by (auto intro: push_live push_length)
  from Cons.IH [OF p(1) Cons.prems(2) p(2)] Cons.prems show ?case
    by (cases "items s") (auto simp: push_items push_drops)
qed simp

end

end
