(* ===== verification/DStarBridgeRx.thy ===== *)
theory DStarBridgeRx
  imports DStarBridge BoundedQueue
begin

section \<open>The D-STAR bridge, reflector to RF\<close>

text \<open>
  What the inbound half promises: the transmitter is up only inside a latched over, the slot is
  released exactly when it was taken, an over ends within its bounds, a finished stream never comes
  back, the queue is bounded and the loss counter counts the frames the network did not deliver.
\<close>

subsection \<open>What the inbound operations leave alone\<close>

definition tx_part where
  "tx_part s = (db_tx_source s, db_rf_pump s, db_rf_wait s, db_op_wait s, db_tx_pcm s, db_tx_session_id s,
     db_tx_seq s, db_session_counter s, db_calls s, db_running s, db_last_tx_feed s)"

lemma session_store_simps [simp]:
  "tx_part (session_store t s) = tx_part s" "db_mode (session_store t s) = db_mode s"
  "db_rx_phase (session_store t s) = db_rx_phase s" "db_rx_slot_held (session_store t s) = db_rx_slot_held s"
  "db_rx_session (session_store t s) = Some (ts_keyed t, ts_last_active t)"
  "db_rx_over_deadline (session_store t s) = db_rx_over_deadline s" "db_slot (session_store t s) = db_slot s"
  "db_rx_stream_id (session_store t s) = db_rx_stream_id s" "db_arbiter (session_store t s) = ts_arbiter t"
  "db_last_rx_stream_id (session_store t s) = db_last_rx_stream_id s"
  "db_radio_log (session_store t s) = ts_log t" "db_rx_queue (session_store t s) = db_rx_queue s"
  "db_last_gate_pass (session_store t s) = db_last_gate_pass s"
  by (simp_all add: session_store_def tx_part_def)

lemma session_view_simps [simp]:
  "ts_keyed (session_view x s) = fst x" "ts_log (session_view x s) = db_radio_log s"
  "ts_arbiter (session_view x s) = db_arbiter s" "ts_last_active (session_view x s) = snd x"
  by (simp_all add: session_view_def)

lemma close_session_simps [simp]:
  "tx_part (close_session c now s) = tx_part s" "db_mode (close_session c now s) = db_mode s"
  "db_rx_phase (close_session c now s) = db_rx_phase s" "db_rx_session (close_session c now s) = None"
  "db_rx_over_deadline (close_session c now s) = db_rx_over_deadline s"
  "db_rx_stream_id (close_session c now s) = db_rx_stream_id s"
  "db_last_rx_stream_id (close_session c now s) = db_last_rx_stream_id s"
  "db_rx_queue (close_session c now s) = db_rx_queue s"
  by (simp_all add: close_session_def Let_def tx_part_def session_store_def split: option.splits)

lemma end_rx_simps [simp]:
  "tx_part (end_rx c cause now s) = tx_part s" "db_rx_session (end_rx c cause now s) = None"
  "db_mode (end_rx c cause now s) = (if db_mode s = ModeRx then ModeIdle else db_mode s)"
  "db_rx_phase (end_rx c cause now s) = db_rx_phase s" "db_rx_over_deadline (end_rx c cause now s) = None"
  "db_rx_stream_id (end_rx c cause now s) = None"
  "db_last_rx_stream_id (end_rx c cause now s) =
     (if cause = CutEnd \<or> cause = CutTeardown then None else db_last_rx_stream_id s)"
  "db_rx_queue (end_rx c cause now s) = db_rx_queue s"
proof -
  define u where "u = close_session c now (s\<lparr>db_rx_decode_stream := False\<rparr>)"
  have u: "tx_part u = tx_part s" "db_rx_session u = None" "db_mode u = db_mode s" "db_rx_phase u = db_rx_phase s"
    "db_last_rx_stream_id u = db_last_rx_stream_id s" "db_rx_queue u = db_rx_queue s"
    by (simp_all add: u_def tx_part_def [of "s\<lparr>db_rx_decode_stream := False\<rparr>"] tx_part_def [of s])
  show "tx_part (end_rx c cause now s) = tx_part s" "db_rx_session (end_rx c cause now s) = None"
    "db_mode (end_rx c cause now s) = (if db_mode s = ModeRx then ModeIdle else db_mode s)"
    "db_rx_phase (end_rx c cause now s) = db_rx_phase s" "db_rx_over_deadline (end_rx c cause now s) = None"
    "db_rx_stream_id (end_rx c cause now s) = None"
    "db_last_rx_stream_id (end_rx c cause now s) =
       (if cause = CutEnd \<or> cause = CutTeardown then None else db_last_rx_stream_id s)"
    "db_rx_queue (end_rx c cause now s) = db_rx_queue s"
    using u unfolding end_rx_def u_def [symmetric] Let_def by (simp_all add: tx_part_def)
qed

text \<open>What closing a session does to the radio's side of the state.\<close>

definition radio_part where
  "radio_part s = (db_arbiter s, db_ident s, db_radio_log s, db_slot s, db_rx_slot_held s)"

lemma end_rx_radio: "radio_part (end_rx c cause now s) = radio_part (close_session c now s)"
proof -
  have "close_session c now (s\<lparr>db_rx_decode_stream := False\<rparr>) =
      (close_session c now s)\<lparr>db_rx_decode_stream := False\<rparr>"
    by (simp add: close_session_def Let_def session_store_def session_view_def split: option.splits)
  then show ?thesis by (simp add: end_rx_def Let_def radio_part_def)
qed

lemma close_session_None: "db_rx_session s = None \<Longrightarrow> close_session c now s = s"
  by (simp add: close_session_def)

lemma close_session_Some:
  assumes "db_rx_session s = Some x"
  shows "radio_part (close_session c now s) =
    (let t = snd (tx_close (session_config c) now (session_view x s))
     in (ts_arbiter t, ts_ident t, ts_log t,
         if db_rx_slot_held s then slot_release (db_slot s) else db_slot s, False))"
  using assms by (simp add: close_session_def radio_part_def Let_def session_store_def)

subsection \<open>The shape of the inbound state\<close>

definition rx_inv :: "('i, 'g) bridge \<Rightarrow> bool" where
  "rx_inv s \<longleftrightarrow>
     (db_rx_session s \<noteq> None \<longrightarrow> db_mode s = ModeRx) \<and>
     (db_rx_slot_held s \<longrightarrow> db_rx_session s \<noteq> None) \<and>
     (db_rx_over_deadline s \<noteq> None \<longrightarrow> db_rx_session s \<noteq> None) \<and>
     (db_mode s = ModeRx \<longrightarrow> db_rx_stream_id s \<noteq> None)"

lemma rx_inv_gate_pass [simp]: "rx_inv (s\<lparr>db_last_gate_pass := t\<rparr>) = rx_inv s"
  by (simp add: rx_inv_def)

lemma end_rx_slot [simp]: "rx_inv s \<Longrightarrow> \<not> db_rx_slot_held (end_rx c cause now s)"
proof -
  assume i: "rx_inv s"
  have "db_rx_slot_held (end_rx c cause now s) = db_rx_slot_held (close_session c now s)"
    using end_rx_radio [of c cause now s] by (simp add: radio_part_def)
  moreover have "\<not> db_rx_slot_held (close_session c now s)"
  proof (cases "db_rx_session s")
    case None
    with i show ?thesis by (simp add: close_session_None rx_inv_def)
  next
    case (Some x)
    from close_session_Some [OF this, of c now] show ?thesis by (simp add: radio_part_def Let_def)
  qed
  ultimately show ?thesis by simp
qed

lemma end_rx_inv [inv_intros]: "rx_inv s \<Longrightarrow> rx_inv (end_rx c cause now s)"
  by (frule end_rx_slot [of s c cause now]) (auto simp: rx_inv_def)

lemma end_rx_idle: "rx_inv s \<Longrightarrow> db_mode (end_rx c cause now s) \<noteq> ModeRx"
  by simp

lemma latch_over_inv [inv_intros]: "rx_inv s \<Longrightarrow> rx_inv (latch_over c i s)"
  by (auto simp: rx_inv_def latch_over_def)

lemma report_activity_simps [simp]:
  "rx_inv (report_activity c rh b s) = rx_inv s" "db_mode (report_activity c rh b s) = db_mode s"
  "db_rx_phase (report_activity c rh b s) = db_rx_phase s" "radio_part (report_activity c rh b s) = radio_part s"
  "db_rx_session (report_activity c rh b s) = db_rx_session s"
  "db_rx_over_deadline (report_activity c rh b s) = db_rx_over_deadline s"
  "tx_part (report_activity c rh b s) = tx_part s"
  "db_last_rx_stream_id (report_activity c rh b s) = db_last_rx_stream_id s"
  "db_rx_stream_id (report_activity c rh b s) = db_rx_stream_id s"
  "db_rx_queue (report_activity c rh b s) = db_rx_queue s"
  by (simp_all add: report_activity_def rx_inv_def radio_part_def tx_part_def Let_def split: option.splits sum.splits)

lemma open_rx_session_inv [inv_intros]:
  "rx_inv s \<Longrightarrow> db_mode s = ModeRx \<Longrightarrow> rx_inv (open_rx_session c now s)"
  by (auto simp: open_rx_session_def rx_inv_def split: prod.splits)

lemma open_rx_session_simps [simp]:
  "db_mode (open_rx_session c now s) = db_mode s" "db_rx_session (open_rx_session c now s) \<noteq> None"
  "db_rx_phase (open_rx_session c now s) = db_rx_phase s" "tx_part (open_rx_session c now s) = tx_part s"
  "db_last_rx_stream_id (open_rx_session c now s) = db_last_rx_stream_id s"
  "db_rx_stream_id (open_rx_session c now s) = db_rx_stream_id s"
  "db_rx_queue (open_rx_session c now s) = db_rx_queue s"
  "db_arbiter (open_rx_session c now s) = db_arbiter s" "db_radio_log (open_rx_session c now s) = db_radio_log s"
  by (auto simp: open_rx_session_def tx_part_def split: prod.splits)

lemma session_store_inv [inv_intros]: "rx_inv s \<Longrightarrow> db_rx_session s \<noteq> None \<Longrightarrow> rx_inv (session_store t s)"
  by (auto simp: rx_inv_def session_store_def)

text \<open>A call of \<open>feed\<close> changes the session and the radio's side, whatever it returns.\<close>

lemma feed_session_form:
  assumes "db_rx_session s = Some x"
  obtains r t where "tx_feed (session_config c) data now (session_view x s) = (r, t)"
    "feed_session c data now s = (r, session_store t s)"
  using assms by (cases "tx_feed (session_config c) data now (session_view x s)") (simp add: feed_session_def)

lemma after_feed_cases:
  obtains "after_feed c now r s = s"
  | "after_feed c now r s = s\<lparr>db_rx_arbiter_conflicts := db_rx_arbiter_conflicts s + 1\<rparr>"
  | "after_feed c now r s = end_rx c CutTxRefused now (s\<lparr>db_rx_key_refusals := db_rx_key_refusals s + 1\<rparr>)"
  | "after_feed c now r s = end_rx c CutRelayError now (s\<lparr>db_rx_relay_errors := db_rx_relay_errors s + 1\<rparr>)"
proof -
  have "after_feed c now r s = s \<or>
    after_feed c now r s = s\<lparr>db_rx_arbiter_conflicts := db_rx_arbiter_conflicts s + 1\<rparr> \<or>
    after_feed c now r s = end_rx c CutTxRefused now (s\<lparr>db_rx_key_refusals := db_rx_key_refusals s + 1\<rparr>) \<or>
    after_feed c now r s = end_rx c CutRelayError now (s\<lparr>db_rx_relay_errors := db_rx_relay_errors s + 1\<rparr>)"
  proof (cases r)
    case (Inl e)
    then show ?thesis by (cases e) (simp_all add: after_feed_def)
  qed (simp add: after_feed_def)
  with that show thesis by blast
qed

lemma rx_gate_frame_simps:
  assumes "rx_gate_frame c now d s = (b, s')"
  shows "rx_inv s' = rx_inv s \<and> db_mode s' = db_mode s \<and> db_rx_phase s' = db_rx_phase s \<and>
    db_rx_session s' = db_rx_session s \<and> db_rx_over_deadline s' = db_rx_over_deadline s \<and>
    radio_part s' = radio_part s \<and> tx_part s' = tx_part s \<and>
    db_last_rx_stream_id s' = db_last_rx_stream_id s \<and> db_rx_queue s' = db_rx_queue s"
  using assms
  by (auto simp: rx_gate_frame_def Let_def rx_inv_def radio_part_def tx_part_def split: option.splits if_splits prod.splits)

text \<open>
  One rule for what an emitted frame can do: nothing, pass the gate only, or open a session and feed
  it, after which the over may have ended.
\<close>

lemma emit_rx_pcm_cases [case_names closed gated fed]:
  fixes c :: "('i, 'g) bridge_config"
  assumes closed: "db_mode s \<noteq> ModeRx \<Longrightarrow> P s"
    and gated: "\<And>b s'. db_mode s = ModeRx \<Longrightarrow> rx_gate_frame c now (bc_to_canonical c pcm) s = (b, s') \<Longrightarrow> P s'"
    and fed: "\<And>s' x r t. db_mode s = ModeRx \<Longrightarrow> rx_gate_frame c now (bc_to_canonical c pcm) s = (True, s') \<Longrightarrow>
        db_rx_session (open_rx_session c now (s'\<lparr>db_last_gate_pass := now\<rparr>)) = Some x \<Longrightarrow>
        tx_feed (session_config c) (bc_to_canonical c pcm) now
          (session_view x (open_rx_session c now (s'\<lparr>db_last_gate_pass := now\<rparr>))) = (r, t) \<Longrightarrow>
        P (after_feed c now r (session_store t (open_rx_session c now (s'\<lparr>db_last_gate_pass := now\<rparr>))))"
  shows "P (emit_rx_pcm c now pcm s)"
proof (cases "db_mode s = ModeRx")
  case False
  with closed show ?thesis by (simp add: emit_rx_pcm_def)
next
  case True
  obtain b s' where g: "rx_gate_frame c now (bc_to_canonical c pcm) s = (b, s')" by fastforce
  show ?thesis
  proof (cases b)
    case False
    with True g gated show ?thesis by (simp add: emit_rx_pcm_def)
  next
    case b: True
    let ?o = "open_rx_session c now (s'\<lparr>db_last_gate_pass := now\<rparr>)"
    obtain x where x: "db_rx_session ?o = Some x" using open_rx_session_simps(2) by blast
    then obtain r t where
      "tx_feed (session_config c) (bc_to_canonical c pcm) now (session_view x ?o) = (r, t)"
      "feed_session c (bc_to_canonical c pcm) now ?o = (r, session_store t ?o)"
      by (rule feed_session_form)
    with True b g x fed show ?thesis by (simp add: emit_rx_pcm_def)
  qed
qed

lemma after_feed_inv [inv_intros]: "rx_inv s \<Longrightarrow> rx_inv (after_feed c now r s)"
proof -
  assume i: "rx_inv s"
  have "rx_inv (s\<lparr>db_rx_key_refusals := n\<rparr>)" "rx_inv (s\<lparr>db_rx_relay_errors := n\<rparr>)"
    "rx_inv (s\<lparr>db_rx_arbiter_conflicts := n\<rparr>)" for n
    using i by (simp_all add: rx_inv_def)
  with i show ?thesis by (cases rule: after_feed_cases [of c now r s]) (simp_all add: end_rx_inv)
qed

lemma emit_rx_pcm_inv [inv_intros]: "rx_inv s \<Longrightarrow> rx_inv (emit_rx_pcm c now pcm s)"
proof (rule emit_rx_pcm_cases)
  fix s' x r t
  assume i: "rx_inv s" and m: "db_mode s = ModeRx"
    and g: "rx_gate_frame c now (bc_to_canonical c pcm) s = (True, s')"
  from rx_gate_frame_simps [OF g] i m have "rx_inv (s'\<lparr>db_last_gate_pass := now\<rparr>)" "db_mode s' = ModeRx"
    by simp_all
  then have "rx_inv (open_rx_session c now (s'\<lparr>db_last_gate_pass := now\<rparr>))"
    by (intro open_rx_session_inv) simp_all
  then show "rx_inv (after_feed c now r (session_store t (open_rx_session c now (s'\<lparr>db_last_gate_pass := now\<rparr>))))"
    by (intro after_feed_inv session_store_inv) simp_all
qed (use rx_gate_frame_simps in blast)+

subsection \<open>A rule for what every inbound segment keeps\<close>

text \<open>
  \<open>rx_core\<close> is what the inbound half shares with the radio. A property of the state that ignores
  counters and survives the primitive steps end, open and feed survives the emission of decoded audio
  (\<open>emitting\<close>); if it survives latch and touch too, it survives every inbound segment (\<open>inbound\<close>).
\<close>

definition rx_core where
  "rx_core s = (db_rx_session s, db_rx_slot_held s, db_rx_over_deadline s, db_rx_stream_id s, db_arbiter s,
     db_ident s, db_radio_log s, db_slot s)"

lemma rx_core_simps [simp]:
  "rx_core (s\<lparr>db_rx_phase := ph\<rparr>) = rx_core s" "rx_core (s\<lparr>db_rx_queue := q\<rparr>) = rx_core s"
  "rx_core (s\<lparr>db_rx_frames := n\<rparr>) = rx_core s" "rx_core (s\<lparr>db_published := bs\<rparr>) = rx_core s"
  "rx_core (s\<lparr>db_rx_gate_state := g\<rparr>) = rx_core s" "rx_core (s\<lparr>db_last_gate_pass := now\<rparr>) = rx_core s"
  "rx_core (s\<lparr>db_rx_arbiter_conflicts := n\<rparr>) = rx_core s" "rx_core (s\<lparr>db_rx_key_refusals := n\<rparr>) = rx_core s"
  "rx_core (s\<lparr>db_rx_relay_errors := n\<rparr>) = rx_core s" "rx_core (s\<lparr>db_rx_decode_failing := b\<rparr>) = rx_core s"
  "rx_core (s\<lparr>db_rx_dropped_busy := n\<rparr>) = rx_core s" "rx_core (s\<lparr>db_rx_reheaders := n\<rparr>) = rx_core s"
  "rx_core (s\<lparr>db_rx_relatches := n\<rparr>) = rx_core s" "rx_core (s\<lparr>db_activity := a\<rparr>) = rx_core s"
  by (simp_all add: rx_core_def)

lemma tx_part_simps [simp]:
  "tx_part (s\<lparr>db_rx_phase := ph\<rparr>) = tx_part s" "tx_part (s\<lparr>db_rx_queue := q\<rparr>) = tx_part s"
  "tx_part (s\<lparr>db_rx_frames := n\<rparr>) = tx_part s" "tx_part (s\<lparr>db_published := bs\<rparr>) = tx_part s"
  "tx_part (s\<lparr>db_rx_gate_state := g\<rparr>) = tx_part s" "tx_part (s\<lparr>db_last_gate_pass := now\<rparr>) = tx_part s"
  "tx_part (s\<lparr>db_rx_arbiter_conflicts := n\<rparr>) = tx_part s" "tx_part (s\<lparr>db_rx_key_refusals := n\<rparr>) = tx_part s"
  "tx_part (s\<lparr>db_rx_relay_errors := n\<rparr>) = tx_part s" "tx_part (s\<lparr>db_rx_decode_failing := b\<rparr>) = tx_part s"
  "tx_part (s\<lparr>db_rx_dropped_busy := n\<rparr>) = tx_part s" "tx_part (s\<lparr>db_rx_reheaders := n\<rparr>) = tx_part s"
  "tx_part (s\<lparr>db_rx_relatches := n\<rparr>) = tx_part s" "tx_part (s\<lparr>db_activity := a\<rparr>) = tx_part s"
  "tx_part (latch_over c i s) = tx_part s"
  by (simp_all add: tx_part_def latch_over_def)

lemma rx_core_report [simp]: "rx_core (report_activity c rh b s) = rx_core s"
  by (simp add: report_activity_def rx_core_def Let_def split: option.splits sum.splits)

lemma enqueue_rx_keeps [simp]:
  "rx_core (enqueue_rx c msg s) = rx_core s" "tx_part (enqueue_rx c msg s) = tx_part s"
  "db_mode (enqueue_rx c msg s) = db_mode s" "db_rx_phase (enqueue_rx c msg s) = db_rx_phase s"
  "db_last_rx_stream_id (enqueue_rx c msg s) = db_last_rx_stream_id s"
  "db_last_gate_pass (enqueue_rx c msg s) = db_last_gate_pass s"
  by (simp_all add: enqueue_rx_def Let_def rx_core_def tx_part_def split: option.splits)

locale emitting =
  fixes c :: "('i, 'g) bridge_config" and P :: "('i, 'g) bridge \<Rightarrow> bool"
  assumes core: "rx_core s' = rx_core s \<Longrightarrow> tx_part s' = tx_part s \<Longrightarrow> db_mode s' = db_mode s \<Longrightarrow> P s \<Longrightarrow> P s'"
    and ends: "P s \<Longrightarrow> P (end_rx c cause now s)"
    and opens: "P s \<Longrightarrow> db_mode s = ModeRx \<Longrightarrow> P (open_rx_session c now s)"
    and feeds: "P s \<Longrightarrow> db_mode s = ModeRx \<Longrightarrow> db_rx_session s = Some x \<Longrightarrow>
        tx_feed (session_config c) data now (session_view x s) = (r, t) \<Longrightarrow> P (session_store t s)"
begin

lemma emit: "P s \<Longrightarrow> P (emit_rx_pcm c now pcm s)"
proof (rule emit_rx_pcm_cases)
  fix b s'
  assume "P s" and g: "rx_gate_frame c now (bc_to_canonical c pcm) s = (b, s')"
  show "P s'"
    by (rule core [OF _ _ _ \<open>P s\<close>])
      (use g in \<open>auto simp: rx_gate_frame_def Let_def rx_core_def tx_part_def split: option.splits if_splits prod.splits\<close>)
next
  fix s' x r t
  assume p: "P s" and m: "db_mode s = ModeRx" and g: "rx_gate_frame c now (bc_to_canonical c pcm) s = (True, s')"
    and x: "db_rx_session (open_rx_session c now (s'\<lparr>db_last_gate_pass := now\<rparr>)) = Some x"
    and t: "tx_feed (session_config c) (bc_to_canonical c pcm) now
      (session_view x (open_rx_session c now (s'\<lparr>db_last_gate_pass := now\<rparr>))) = (r, t)"
  have "P s'"
    by (rule core [OF _ _ _ p])
      (use g in \<open>auto simp: rx_gate_frame_def Let_def rx_core_def tx_part_def split: option.splits if_splits prod.splits\<close>)
  then have "P (s'\<lparr>db_last_gate_pass := now\<rparr>)" by (rule core [rotated -1]) simp_all
  moreover have m': "db_mode s' = ModeRx" using rx_gate_frame_simps [OF g] m by simp
  ultimately have "P (open_rx_session c now (s'\<lparr>db_last_gate_pass := now\<rparr>))" by (intro opens) simp_all
  then have q: "P (session_store t (open_rx_session c now (s'\<lparr>db_last_gate_pass := now\<rparr>)))"
    using m' x t by (intro feeds) simp_all
  have up: "P u \<Longrightarrow> P (u\<lparr>db_rx_arbiter_conflicts := n\<rparr>)" "P u \<Longrightarrow> P (u\<lparr>db_rx_key_refusals := n\<rparr>)"
    "P u \<Longrightarrow> P (u\<lparr>db_rx_relay_errors := n\<rparr>)" for u n
    by (erule core [rotated -1]; simp)+
  from q show "P (after_feed c now r (session_store t (open_rx_session c now (s'\<lparr>db_last_gate_pass := now\<rparr>))))"
    by (cases rule: after_feed_cases [of c now r "session_store t (open_rx_session c now (s'\<lparr>db_last_gate_pass := now\<rparr>))"])
      (simp_all add: ends up)
qed

lemma emits: "P s \<Longrightarrow> P (emit_all c now pcms s)"
  unfolding emit_all_def by (induction pcms arbitrary: s) (simp_all add: emit)

end

locale inbound = emitting +
  assumes latches: "P s \<Longrightarrow> P (latch_over c i s)"
    and touches: "P s \<Longrightarrow> db_rx_session s = Some x \<Longrightarrow>
        P (session_store (tx_touch now (session_view x s)) s)"
begin

lemma cont: "P s \<Longrightarrow> P (rx_continue c next s)"
proof (cases "next")
  case (ThenLatch msg)
  assume "P s"
  then have "P (latch_over c (dm_session_id msg) s)" by (rule latches)
  then show ?thesis by (rule core [rotated -1]) (simp_all add: ThenLatch rx_continue_def)
qed (erule core [rotated -1], simp_all add: rx_continue_def)+

lemma flush: "P s \<Longrightarrow> P (flush_and_end_rx c cause next now s)"
proof (cases "db_rx_decode_stream s \<and> db_mode s = ModeRx")
  case True
  assume "P s"
  then show ?thesis by (rule core [rotated -1]) (simp_all add: flush_and_end_rx_def True)
qed (auto simp: flush_and_end_rx_def intro: cont ends)

lemma flushed: "P s \<Longrightarrow> P (rx_flushed c r now s)"
  by (simp add: rx_flushed_def cont ends emits split: rx_phase.splits)

lemma top: "P s \<Longrightarrow> P (rx_top c now s)"
proof -
  assume p: "P s"
  then have "P (s\<lparr>db_rx_phase := AtGet\<rparr>)" by (rule core [rotated -1]) simp_all
  with p show ?thesis by (simp add: rx_top_def flush)
qed

lemma timeout: "P s \<Longrightarrow> P (rx_timeout c now s)"
  by (simp add: rx_timeout_def flush)

lemma header: "P s \<Longrightarrow> P (rx_header c msg now s)"
proof -
  assume p: "P s"
  then have "P (s\<lparr>db_rx_dropped_busy := n, db_rx_phase := AtTop\<rparr>)" "P (s\<lparr>db_rx_reheaders := n, db_rx_phase := AtTop\<rparr>)"
    for n by (rule core [rotated -1], simp, simp, simp)+
  with p show ?thesis by (simp add: rx_header_def flush)
qed

lemma data: "P s \<Longrightarrow> P (rx_data c msg now s)"
proof -
  assume p: "P s"
  then have a: "P (s\<lparr>db_rx_dropped_busy := n, db_rx_phase := AtTop\<rparr>)" "P (s\<lparr>db_rx_phase := AtDecode msg\<rparr>)"
    for n by (rule core [rotated -1], simp, simp, simp)+
  from p have "P (latch_over c (dm_session_id msg) s)" by (rule latches)
  then have "P ((latch_over c (dm_session_id msg) s)\<lparr>db_rx_relatches := n, db_rx_phase := AtDecode msg\<rparr>)" for n
    by (rule core [rotated -1]) simp_all
  with a show ?thesis by (simp add: rx_data_def)
qed

lemma message: "P s \<Longrightarrow> P (rx_message c now s)"
proof -
  assume p: "P s"
  then have q: "P (s\<lparr>db_rx_queue := q\<rparr>)" "P (s\<lparr>db_rx_queue := q, db_rx_phase := AtTop\<rparr>)" for q
    by (rule core [rotated -1], simp, simp, simp)+
  with p show ?thesis by (auto simp: rx_message_def Let_def header data split: option.splits list.splits)
qed

lemma decoded: "P s \<Longrightarrow> P (rx_decoded c r now s)"
proof -
  assume p: "P s"
  have f: "P u \<Longrightarrow> P (u\<lparr>db_rx_decode_failing := b\<rparr>)" "P u \<Longrightarrow> P (u\<lparr>db_rx_phase := ph\<rparr>)" for u b ph
    by (erule core [rotated -1]; simp)+
  have "P u \<Longrightarrow> P (touch_session now u)" for u
    by (simp add: touch_session_def touches split: option.splits)
  moreover have "P (play_ambe c r now s)" using p by (simp add: play_ambe_def f emits split: sum.splits)
  ultimately show ?thesis using p by (simp add: rx_decoded_def Let_def f flush split: rx_phase.splits)
qed

lemma dog: "P s \<Longrightarrow> P (watchdog c now s)"
  by (simp add: watchdog_def ends)

lemma inbound_queue: "P s \<Longrightarrow> P (enqueue_rx c msg s)"
  by (erule core [rotated -1]) simp_all

end

subsection \<open>The transmitter is up only in a latched over\<close>

text \<open>
  The session invariant of \<open>Tx\<close> for an arbiter others use as well: while the session is not keyed,
  someone else may hold it.
\<close>

definition shared_inv :: "'i tx_session \<Rightarrow> bool" where
  "shared_inv t \<longleftrightarrow> ts_keyed t = line_up (ts_log t) \<and> (ts_keyed t \<longrightarrow> ab_transmitting (ts_arbiter t)) \<and>
     only_keyed False (ts_log t)"

lemma shared_inv_cases: "shared_inv t \<Longrightarrow> tx_inv t \<or> \<not> ts_keyed t \<and> ab_transmitting (ts_arbiter t)"
  by (auto simp: shared_inv_def tx_inv_def)

lemma tx_inv_shared: "tx_inv t \<Longrightarrow> shared_inv t"
  by (auto simp: shared_inv_def tx_inv_def)

lemma shared_feed [inv_intros]:
  assumes "shared_inv t" "on_key_safe k"
  shows "shared_inv (snd (tx_feed k data now t))"
proof (cases "tx_inv t")
  case True
  from tx_feed_inv [OF this assms(2)] show ?thesis by (rule tx_inv_shared)
next
  case False
  with shared_inv_cases [OF assms(1)] have "\<not> ts_keyed t" "ab_transmitting (ts_arbiter t)" by auto
  then have "snd (tx_feed k data now t) = t"
    by (simp add: tx_feed_def tx_key_up_def tx_acquire_def acquire_tx_def)
  with assms(1) show ?thesis by simp
qed

lemma shared_close [inv_intros]:
  assumes "shared_inv t" "on_key_safe k" "\<forall>n. tc_fault k n (CallPtt False) = None"
  shows "shared_inv (snd (tx_close k now t)) \<and> \<not> ts_keyed (snd (tx_close k now t))"
proof (cases "tx_inv t")
  case True
  from tx_close_inv [OF this assms(2), of now] assms(3) show ?thesis by (auto intro: tx_inv_shared)
next
  case False
  with shared_inv_cases [OF assms(1)] have "\<not> ts_keyed t" by auto
  with assms(1) show ?thesis by (simp add: tx_close_def)
qed

definition current_session :: "('i, 'g) bridge \<Rightarrow> 'i tx_session" where
  "current_session s = session_view (case db_rx_session s of None \<Rightarrow> (False, None) | Some x \<Rightarrow> x) s"

definition slot_ok :: "('i, 'g) bridge \<Rightarrow> bool" where
  "slot_ok s \<longleftrightarrow> (db_rx_slot_held s \<longrightarrow>
     sl_occupied (db_slot s) \<and> sl_holder (db_slot s) = Some ''dstar-relay'')"

definition ptt_inv :: "('i, 'g) bridge \<Rightarrow> bool" where
  "ptt_inv s \<longleftrightarrow> rx_inv s \<and> slot_ok s \<and> shared_inv (current_session s)"

text \<open>A radio that always drops PTT, with a key-edge publisher that never raises.\<close>

definition unkeys :: "('i, 'g) bridge_config \<Rightarrow> bool" where
  "unkeys c \<longleftrightarrow> (\<forall>n. tc_fault (bc_session c) n (CallPtt False) = None) \<and> on_key_safe (bc_session c)"

lemma unkeysD:
  "unkeys c \<Longrightarrow> on_key_safe (session_config c) \<and> (\<forall>n. tc_fault (session_config c) n (CallPtt False) = None)"
  by (simp add: unkeys_def session_config_def on_key_safe_def)

lemma current_session_store [simp]: "current_session (session_store t s) = t"
  by (simp add: current_session_def session_store_def session_view_def)

lemma current_session_core: "rx_core s' = rx_core s \<Longrightarrow> current_session s' = current_session s"
  by (simp add: rx_core_def current_session_def session_view_def split: option.splits)

lemma current_session_mode [simp]: "current_session (s\<lparr>db_mode := m\<rparr>) = current_session s"
  by (simp add: current_session_def session_view_def split: option.splits)

lemma current_session_latch [simp]: "current_session (latch_over c i s) = current_session s"
  by (simp add: current_session_def session_view_def latch_over_def split: option.splits)

lemma current_session_close:
  assumes "shared_inv (current_session s)" "unkeys c"
  shows "shared_inv (current_session (close_session c now s))"
proof (cases "db_rx_session s")
  case None
  with assms show ?thesis by (simp add: close_session_None)
next
  case (Some x)
  let ?t = "snd (tx_close (session_config c) now (session_view x s))"
  from Some assms(1) have "shared_inv (session_view x s)" by (simp add: current_session_def)
  from shared_close [OF this, of "session_config c" now] unkeysD [OF assms(2)]
  have t: "shared_inv ?t" "\<not> ts_keyed ?t" by simp_all
  have "ts_keyed (current_session (close_session c now s)) = False \<and>
      ts_log (current_session (close_session c now s)) = ts_log ?t"
    using Some by (simp add: current_session_def close_session_def Let_def session_store_def)
  with t show ?thesis by (simp add: shared_inv_def)
qed

lemma current_session_end: "shared_inv (current_session (end_rx c cause now s)) =
    shared_inv (current_session (close_session c now s))"
  using end_rx_radio [of c cause now s]
  by (simp add: current_session_def radio_part_def session_view_def)

lemma ptt_inbound: "unkeys c \<Longrightarrow> inbound c ptt_inv"
proof
  assume u: "unkeys c"
  note k = unkeysD [OF u]
  fix s s' :: "('a, 'b) bridge"
  show "ptt_inv s \<Longrightarrow> ptt_inv (end_rx c cause now s)" for cause now
    using u by (simp add: ptt_inv_def end_rx_inv current_session_end current_session_close slot_ok_def)
  show "ptt_inv s \<Longrightarrow> ptt_inv (latch_over c i s)" for i
    by (simp add: ptt_inv_def latch_over_inv) (simp add: slot_ok_def latch_over_def)
  show "ptt_inv (open_rx_session c now s)" if p: "ptt_inv s" "db_mode s = ModeRx" for now
  proof (cases "db_rx_session s")
    case None
    have "ts_keyed (current_session (open_rx_session c now s)) = ts_keyed (current_session s) \<and>
      ts_log (current_session (open_rx_session c now s)) = ts_log (current_session s)"
      using None by (simp add: current_session_def open_rx_session_def split: prod.splits)
    moreover have "slot_ok (open_rx_session c now s)"
      using None by (auto simp: slot_ok_def open_rx_session_def try_acquire_def Let_def)
    ultimately show ?thesis using None p
      by (auto simp: ptt_inv_def shared_inv_def current_session_def intro: open_rx_session_inv)
  qed (use p in \<open>simp add: open_rx_session_def\<close>)
  show "ptt_inv (session_store t s)" if p: "ptt_inv s" "db_rx_session s = Some x"
    and f: "tx_feed (session_config c) data now (session_view x s) = (r, t)" for x data now r t
  proof -
    from p have "shared_inv (session_view x s)" by (simp add: ptt_inv_def current_session_def)
    from shared_feed [OF this, of "session_config c" data now] k f have "shared_inv t" by simp
    with p show ?thesis by (simp add: ptt_inv_def session_store_inv slot_ok_def)
  qed
  show "ptt_inv (session_store (tx_touch now (session_view x s)) s)"
    if p: "ptt_inv s" "db_rx_session s = Some x" for x now
  proof -
    from p have "shared_inv (session_view x s)" by (simp add: ptt_inv_def current_session_def)
    then have "shared_inv (tx_touch now (session_view x s))" by (simp add: tx_touch_def shared_inv_def)
    with p show ?thesis by (simp add: ptt_inv_def session_store_inv slot_ok_def)
  qed
  show "rx_core s' = rx_core s \<Longrightarrow> tx_part s' = tx_part s \<Longrightarrow> db_mode s' = db_mode s \<Longrightarrow> ptt_inv s \<Longrightarrow> ptt_inv s'"
    using current_session_core [of s' s] by (simp add: ptt_inv_def rx_inv_def rx_core_def slot_ok_def)
qed

interpretation ptt: inbound c "\<lambda>s. unkeys c \<longrightarrow> ptt_inv s" for c
proof (cases "unkeys c")
  case True
  then have "inbound c ptt_inv" by (rule ptt_inbound)
  with True show "inbound c (\<lambda>s. unkeys c \<longrightarrow> ptt_inv s)" by simp
qed (unfold_locales, simp_all)

subsection \<open>The outbound segments and the inbound state\<close>

definition tx_side :: "('i, 'g) bridge \<Rightarrow> ('i, 'g) bridge \<Rightarrow> bool" where
  "tx_side s s' \<longleftrightarrow> rx_core s' = rx_core s \<and>
     (db_mode s' = db_mode s \<or> db_mode s \<noteq> ModeRx \<and> db_mode s' \<noteq> ModeRx)"

lemma tx_side_trans: "tx_side a b \<Longrightarrow> tx_side b d \<Longrightarrow> tx_side a d"
  by (auto simp: tx_side_def)

lemma tx_side_refl [simp]: "tx_side s s"
  by (simp add: tx_side_def)

lemma end_tx_side [simp]: "tx_side s (end_tx source s)"
  by (simp add: tx_side_def end_tx_def gw_do_def rx_core_def Let_def)

lemma feed_next_side [simp]: "tx_side s (feed_next source s)"
  by (cases source) (simp_all add: tx_side_def feed_next_def set_wait_def rx_core_def)

lemma feed_rf_side [simp]: "tx_side s (feed_rf c source pcm s)"
  unfolding feed_rf_def
  by (rule tx_side_trans [OF _ feed_next_side]) (simp add: tx_side_def rx_core_def)

lemma gw_do_side [simp]: "tx_side s (gw_do call s)"
  by (simp add: tx_side_def gw_do_def rx_core_def)

lemma gw_dos_side: "tx_side s (fold gw_do calls s)"
  by (induction calls arbitrary: s) (auto intro: tx_side_trans [OF gw_do_side])

lemma report_side [simp]: "tx_side s (report_activity c rh b s)"
  by (simp add: tx_side_def)

lemma open_tx_side: "db_mode s \<noteq> ModeRx \<Longrightarrow> tx_side s (snd (open_tx c source now s))"
  by (cases "voice_header c (bc_ur_call c)")
    (simp_all add: open_tx_def alloc_session_id_def Let_def tx_side_def, simp_all add: rx_core_def gw_do_def)

lemma reap_side [simp]: "tx_side s (reap_stale_tx c now s)"
  by (simp add: reap_stale_tx_def)

lemma set_wait_side [simp]: "tx_side s (set_wait source b s)"
  by (cases source) (simp_all add: tx_side_def set_wait_def rx_core_def)

lemma pump_died_side [simp]: "tx_side s (pump_died s)"
  unfolding pump_died_def
  by (rule tx_side_trans [OF end_tx_side [of s "Some FromRf"]]) (simp add: tx_side_def rx_core_def)

lemma encoded_side: "tx_side s (snd (encoded source r now s))"
proof -
  have "tx_side s ((gw_do call s)\<lparr>db_tx_frames := n, db_tx_seq := q, db_last_tx_feed := t\<rparr>)" for call n q t
    by (rule tx_side_trans [OF gw_do_side [of s call]]) (simp add: tx_side_def rx_core_def)
  then show ?thesis
    by (auto simp: encoded_def Let_def intro: tx_side_trans [OF _ feed_next_side] split: sum.splits)
qed

lemma outbound_side:
  "tx_side s (rf_frame c pcm reason now s)" "tx_side s (rf_timeout c now s)" "tx_side s (rf_encoded r now s)"
  "tx_side s (snd (send_operator_audio c pcm now s))" "tx_side s (end_operator_over s)"
  "tx_side s (snd (send_link_command c urcall s))"
proof -
  note trans = tx_side_trans
  have op: "tx_side u (case open_tx c FromRf now u of (Inl e, w) \<Rightarrow> pump_died w | (Inr x, w) \<Rightarrow> feed_rf c FromRf pcm w)"
    if "db_mode u \<noteq> ModeRx" for u
    using open_tx_side [OF that, of c FromRf now]
    by (cases "open_tx c FromRf now u") (auto intro: trans split: sum.splits)
  have body: "tx_side u (if db_mode u = ModeRx \<or> (db_mode u = ModeTx \<and> db_tx_source u \<noteq> Some FromRf)
                 then u\<lparr>db_tx_dropped_busy := n\<rparr>
                 else if db_mode u = ModeIdle
                 then (case open_tx c FromRf now u of (Inl e, w) \<Rightarrow> pump_died w | (Inr x, w) \<Rightarrow> feed_rf c FromRf pcm w)
                 else feed_rf c FromRf pcm u)" for u n
    using op [of u] by (simp add: tx_side_def [of u "u\<lparr>db_tx_dropped_busy := n\<rparr>"] rx_core_def)
  have df: "tx_side u (snd (deafened reason u))" for u
    by (simp add: deafened_def tx_side_def rx_core_def split: option.splits)
  have gt: "tx_side s (s\<lparr>db_rf_gate_state := g\<rparr>)" for g by (simp add: tx_side_def rx_core_def)
  obtain b g where bg: "(case bc_rf_gate c of None \<Rightarrow> (True, db_rf_gate_state s)
      | Some gate \<Rightarrow> gate now pcm (db_rf_gate_state s)) = (b, g)" by fastforce
  obtain d u where du: "deafened reason (s\<lparr>db_rf_gate_state := g\<rparr>) = (d, u)" by fastforce
  have su: "tx_side s u" using trans [OF gt [of g] df [of "s\<lparr>db_rf_gate_state := g\<rparr>"]] du by simp
  show "tx_side s (rf_frame c pcm reason now s)"
    unfolding rf_frame_def bg Let_def prod.case du
    using trans [OF gt [of g] reap_side] trans [OF su reap_side] trans [OF su body] by simp
  show "tx_side s (rf_timeout c now s)" by (simp add: rf_timeout_def)
  show "tx_side s (rf_encoded r now s)"
    using encoded_side [of s FromRf r now]
    by (cases "encoded FromRf r now s") (auto simp: rf_encoded_def intro: trans split: sum.splits)
  show "tx_side s (end_operator_over s)" by (simp add: end_operator_over_def)
  show "tx_side s (snd (send_operator_audio c pcm now s))"
  proof (cases "open_tx c FromOp now s")
    case (Pair r w)
    have "tx_side s (s\<lparr>db_tx_dropped_busy := n\<rparr>)" for n by (simp add: tx_side_def rx_core_def)
    moreover have "db_mode s = ModeIdle \<Longrightarrow> tx_side s w" using open_tx_side [of s c FromOp now] Pair by simp
    ultimately show ?thesis using Pair trans [OF _ feed_rf_side, of s w]
      by (cases r; cases "db_mode s") (auto simp: send_operator_audio_def andthen_def)
  qed
  have "tx_side s (s\<lparr>db_session_counter := n\<rparr>)" for n by (simp add: tx_side_def rx_core_def)
  then show "tx_side s (snd (send_link_command c urcall s))"
    by (auto simp: send_link_command_def alloc_session_id_def Let_def intro: trans [OF _ gw_dos_side]
        intro: trans [OF trans [OF _ gw_do_side] gw_dos_side] split: sum.splits)
qed

lemma tx_side_ptt: "tx_side s s' \<Longrightarrow> ptt_inv s \<Longrightarrow> ptt_inv s'"
  using current_session_core [of s' s]
  by (auto simp: tx_side_def ptt_inv_def rx_inv_def slot_ok_def rx_core_def)

subsection \<open>Teardown\<close>

lemma tx_call_log: "ts_log (snd (tx_call k now call t)) =
    ts_log t @ [(now, call, tc_fault k (length (ts_log t)) call = None)]"
  by (simp add: tx_call_def split: option.splits)

lemma tx_call_log_only: "snd (tx_call k now call t) = t\<lparr>ts_log := ts_log (snd (tx_call k now call t))\<rparr>"
  by (simp add: tx_call_def split: option.splits)

lemma force_unkey_log:
  "\<exists>l ok. db_radio_log (force_unkey c now s) = l @ [(now, CallPtt False, ok)]"
  by (simp add: force_unkey_def Let_def tx_call_log)

lemma force_unkey_simps [simp]:
  "db_rx_session (force_unkey c now s) = None" "db_mode (force_unkey c now s) = ModeIdle"
  "db_rx_over_deadline (force_unkey c now s) = None" "db_tx_source (force_unkey c now s) = None"
  "db_rx_phase (force_unkey c now s) = db_rx_phase s" "db_rf_pump (force_unkey c now s) = db_rf_pump s"
  by (simp_all add: force_unkey_def Let_def close_session_def session_store_def split: option.splits)

lemma end_rx_closed: "db_rx_session s = None \<Longrightarrow> radio_part (end_rx c cause now s) = radio_part s"
  by (simp add: end_rx_radio close_session_None)

lemma pump_died_idle: "db_mode s \<noteq> ModeTx \<Longrightarrow> pump_died s = s\<lparr>db_rf_pump := False, db_rf_wait := False\<rparr>"
  by (simp add: pump_died_def end_tx_def)

lemma teardown_radio: "radio_part (teardown c now s) = radio_part (force_unkey c now s)"
  using end_rx_closed [of "force_unkey c now s" c CutTeardown now]
  by (simp add: teardown_def Let_def pump_died_idle) (simp add: radio_part_def)

lemma teardown_simps [simp]:
  "db_rx_session (teardown c now s) = None" "db_mode (teardown c now s) = ModeIdle"
  "db_rx_over_deadline (teardown c now s) = None" "db_tx_source (teardown c now s) = None"
  by (simp_all add: teardown_def Let_def pump_died_idle)

lemma current_session_radio:
  "db_rx_session s = db_rx_session s' \<Longrightarrow> radio_part s = radio_part s' \<Longrightarrow> current_session s = current_session s'"
  by (simp add: current_session_def session_view_def radio_part_def)

lemma ptt_teardown:
  assumes "unkeys c" "ptt_inv s"
  shows "ptt_inv (teardown c now s)"
proof -
  define u where "u = close_session c now (s\<lparr>db_rx_decode_stream := False\<rparr>)"
  have "current_session (s\<lparr>db_rx_decode_stream := False\<rparr>) = current_session s"
    by (rule current_session_core) (simp add: rx_core_def)
  with current_session_close [of "s\<lparr>db_rx_decode_stream := False\<rparr>" c now] assms
  have u: "shared_inv (current_session u)" "db_rx_session u = None"
    by (simp_all add: ptt_inv_def u_def)
  define l where "l = db_radio_log (force_unkey c now s)"
  from assms(1) have "l = db_radio_log u @ [(now, CallPtt False, True)]"
    by (simp add: unkeys_def l_def force_unkey_def Let_def u_def [symmetric] tx_call_log)
  moreover have "\<not> line_up (db_radio_log u) \<and> only_keyed False (db_radio_log u)"
    using u by (simp add: shared_inv_def current_session_def)
  ultimately have l: "\<not> line_up l \<and> only_keyed False l" by simp
  have "radio_part (end_rx c CutTeardown now s) = radio_part (close_session c now s)" by (rule end_rx_radio)
  have "db_rx_slot_held u = db_rx_slot_held (force_unkey c now s)"
    by (simp add: force_unkey_def Let_def u_def)
  moreover have "\<not> db_rx_slot_held u"
  proof (cases "db_rx_session s")
    case None
    with assms(2) show ?thesis by (simp add: u_def close_session_None ptt_inv_def rx_inv_def)
  next
    case (Some x)
    then have "db_rx_session (s\<lparr>db_rx_decode_stream := False\<rparr>) = Some x" by simp
    from close_session_Some [OF this, of c now] show ?thesis by (simp add: u_def radio_part_def Let_def)
  qed
  ultimately have "\<not> db_rx_slot_held (teardown c now s)" "db_radio_log (teardown c now s) = l"
    using teardown_radio [of c now s] by (simp_all add: radio_part_def l_def)
  with l show ?thesis
    by (simp add: ptt_inv_def rx_inv_def slot_ok_def shared_inv_def current_session_def)
qed

text \<open>
  The other users of the arbiter and of the slot: none frees what the bridge holds.
\<close>

definition considerate :: "bridge_event \<Rightarrow> ('i, 'g) bridge \<Rightarrow> bool" where
  "considerate ev s =
     (case ev of
        EvOther f g \<Rightarrow>
          (ts_keyed (current_session s) \<longrightarrow> ab_transmitting (f (db_arbiter s))) \<and>
          (db_rx_slot_held s \<longrightarrow> sl_occupied (g (db_slot s)) \<and> sl_holder (g (db_slot s)) = sl_holder (db_slot s))
      | _ \<Rightarrow> True)"

lemma ptt_start:
  assumes "unkeys c" "ptt_inv s" shows "ptt_inv (snd (bridge_start c e1 e2 now s))"
proof -
  have "ptt_inv (s\<lparr>db_running := True, db_rx_queue := q, db_rx_phase := ph, db_rf_pump := b, db_rf_wait := w\<rparr>)"
    "ptt_inv (s\<lparr>db_running := True, db_rx_phase := ph, db_rf_pump := b, db_rf_wait := w\<rparr>)" for q ph b w
    by (rule tx_side_ptt [OF _ assms(2)], simp add: tx_side_def rx_core_def)+
  with assms show ?thesis by (simp add: bridge_start_def ptt_teardown split: option.splits)
qed

lemma ptt_stop:
  assumes "unkeys c" "ptt_inv s" shows "ptt_inv (bridge_stop c now s)"
proof -
  have "ptt_inv (s\<lparr>db_running := False\<rparr>)"
    by (rule tx_side_ptt [OF _ assms(2)]) (simp add: tx_side_def rx_core_def)
  with assms show ?thesis by (simp add: bridge_stop_def ptt_teardown)
qed

lemma ptt_other: "considerate (EvOther f g) s \<Longrightarrow> ptt_inv s \<Longrightarrow> ptt_inv (ev_apply c (EvOther f g) s)"
  by (auto simp: considerate_def ptt_inv_def rx_inv_def slot_ok_def shared_inv_def current_session_def
      split: option.splits)

lemma ptt_event:
  assumes u: "unkeys c" and p: "ptt_inv s" and e: "considerate ev s"
  shows "ptt_inv (ev_apply c ev s)"
proof -
  note rules = ptt.inbound_queue ptt.top ptt.message ptt.timeout ptt.decoded ptt.flushed ptt.dog
  note inb = rules [where c = c and s = s, simplified u p simp_thms, OF TrueI]
  show ?thesis
    by (cases ev) (use p inb u tx_side_ptt [OF outbound_side(1)] tx_side_ptt [OF outbound_side(2)]
        tx_side_ptt [OF outbound_side(3)] tx_side_ptt [OF outbound_side(4)] tx_side_ptt [OF outbound_side(5)]
        tx_side_ptt [OF outbound_side(6)] tx_side_ptt [OF encoded_side] ptt_start ptt_stop ptt_other e in auto)
qed

lemma reach_ptt: "bridge_reach c considerate s \<Longrightarrow> unkeys c \<Longrightarrow> ptt_inv s"
proof (induction rule: bridge_reach.induct)
  case (reach_new arb slot ident rxg rfg)
  show ?case
    by (simp add: ptt_inv_def rx_inv_def slot_ok_def shared_inv_def current_session_def session_view_def bridge_init_def)
next
  case (reach_step s ev)
  then show ?case by (auto intro: ptt_event)
qed

text \<open>
  C15. The bridge never leaves the transmitter on outside an over. In every state reached by any
  interleaving of network messages, decodes, time-outs, watchdog ticks, operator audio, starts and
  stops, with any pattern of radio faults except a \<open>ptt(False)\<close> that raises, the PTT line is up only
  while a reflector over is latched, its session open and the arbiter held; all audio went out with
  the line up; and the talker slot is held by the bridge only in such an over.
\<close>

theorem bridge_ptt_inside_over:
  assumes "bridge_reach c considerate s" "unkeys c"
  shows "(line_up (db_radio_log s) \<longrightarrow>
      db_mode s = ModeRx \<and> db_rx_session s \<noteq> None \<and> ab_transmitting (db_arbiter s)) \<and>
    only_keyed False (db_radio_log s) \<and>
    (db_rx_slot_held s \<longrightarrow> db_mode s = ModeRx \<and> sl_holder (db_slot s) = Some ''dstar-relay'')"
proof -
  from reach_ptt [OF assms] show ?thesis
    by (cases "db_rx_session s") (auto simp: ptt_inv_def rx_inv_def slot_ok_def shared_inv_def current_session_def)
qed

lemma demo_unkeys: "unkeys demo_config"
  by (simp add: unkeys_def demo_config_def demo_session_def on_key_safe_def)

lemma demo_keyed_reach: "bridge_reach demo_config considerate (ev_run demo_config demo_keyed demo_new)"
  by (rule legal_reach [OF demo_new_reach]) code_simp

theorem bridge_ptt_inside_over_witness:
  "line_up (db_radio_log (ev_run demo_config demo_keyed demo_new)) \<and>
   db_mode (ev_run demo_config demo_keyed demo_new) = ModeRx"
proof -
  have "line_up (db_radio_log (ev_run demo_config demo_keyed demo_new))" by code_simp
  with bridge_ptt_inside_over [OF demo_keyed_reach demo_unkeys] show ?thesis by blast
qed

subsection \<open>An over ends within its bounds\<close>

definition deadline_inv :: "secs option \<Rightarrow> ('i, 'g) bridge \<Rightarrow> bool" where
  "deadline_inv d s \<longleftrightarrow>
     (if db_rx_session s = None then db_mode s \<noteq> ModeRx else db_rx_over_deadline s = d)"

interpretation dl: emitting c "deadline_inv d" for c d
proof
  fix s s' :: "('a, 'b) bridge"
  show "rx_core s' = rx_core s \<Longrightarrow> tx_part s' = tx_part s \<Longrightarrow> db_mode s' = db_mode s \<Longrightarrow>
      deadline_inv d s \<Longrightarrow> deadline_inv d s'"
    by (simp add: deadline_inv_def rx_core_def)
  show "deadline_inv d s \<Longrightarrow> deadline_inv d (end_rx c cause now s)" for cause now
    by (simp add: deadline_inv_def)
  show "deadline_inv d s \<Longrightarrow> db_mode s = ModeRx \<Longrightarrow> deadline_inv d (open_rx_session c now s)" for now
    by (cases "db_rx_session s") (simp_all add: deadline_inv_def open_rx_session_def)
  show "deadline_inv d s \<Longrightarrow> db_rx_session s = Some x \<Longrightarrow> deadline_inv d (session_store t s)" for x t
    by (simp add: deadline_inv_def)
qed

definition kept :: "secs option \<Rightarrow> ('i, 'g) bridge \<Rightarrow> bool" where
  "kept d s \<longleftrightarrow> (db_rx_session s \<noteq> None \<longrightarrow> db_rx_over_deadline s = d)"

lemma kept_cont [simp]: "db_rx_session s = None \<Longrightarrow> kept d (rx_continue c next s)"
  by (cases "next") (simp_all add: kept_def rx_continue_def latch_over_def)

lemma kept_flush: "kept d s \<Longrightarrow> kept d (flush_and_end_rx c cause next now s)"
  by (auto simp: flush_and_end_rx_def) (simp add: kept_def)

lemma kept_side: "tx_side s s' \<Longrightarrow> kept d s \<Longrightarrow> kept d s'"
  by (simp add: kept_def tx_side_def rx_core_def)

lemma kept_data: "kept d s \<Longrightarrow> kept d (rx_data c msg now s)"
  by (auto simp: rx_data_def kept_def latch_over_def)

lemma kept_header: "kept d s \<Longrightarrow> kept d (rx_header c msg now s)"
  using kept_flush [of d s c CutNewStream "ThenLatch msg" now] by (auto simp: rx_header_def kept_def)

lemma kept_touch: "kept d s \<Longrightarrow> kept d (touch_session now s)"
  by (simp add: kept_def touch_session_def split: option.splits)

lemma kept_decoded:
  assumes i: "rx_inv s" and o: "db_rx_session s \<noteq> None"
  shows "kept (db_rx_over_deadline s) (rx_decoded c r now s)"
proof -
  let ?d = "db_rx_over_deadline s"
  have q: "deadline_inv ?d (s\<lparr>db_rx_decode_failing := b\<rparr>)" for b using o by (auto simp: deadline_inv_def)
  have "deadline_inv ?d (play_ambe c r now s)"
    using q dl.emits [OF q] by (simp add: play_ambe_def split: sum.splits)
  then have p: "kept ?d (play_ambe c r now s)" by (simp add: deadline_inv_def kept_def)
  have ph: "kept ?d u \<Longrightarrow> kept ?d (u\<lparr>db_rx_phase := x\<rparr>)" for u x by (simp add: kept_def)
  have "kept ?d s" using o by (simp add: kept_def)
  with p kept_touch [OF p, of now] show ?thesis
    by (auto simp: rx_decoded_def Let_def intro: kept_flush ph split: rx_phase.splits)
qed

lemma kept_simps [simp]:
  "kept d (enqueue_rx c msg s) = kept d s" "kept d (watchdog c now s) = (kept d s \<or> db_rx_session (watchdog c now s) = None)"
  "kept d (teardown c now s)"
  using enqueue_rx_keeps(1) [of c msg s]
  by (auto simp: kept_def rx_core_def watchdog_def)

lemma deadline_fixed:
  assumes i: "rx_inv s" and o: "db_rx_session s \<noteq> None"
  shows "kept (db_rx_over_deadline s) (ev_apply c ev s)"
proof -
  let ?d = "db_rx_over_deadline s"
  have k: "kept ?d s" using o by (simp add: kept_def)
  have q: "kept ?d (s\<lparr>db_rx_queue := x\<rparr>)" "kept ?d (s\<lparr>db_rx_queue := x, db_rx_phase := ph\<rparr>)"
    "kept ?d (s\<lparr>db_rx_phase := ph\<rparr>)" for x ph using k by (simp_all add: kept_def)
  have st: "kept ?d (snd (bridge_start c e1 e2 now s))" "kept ?d (bridge_stop c now s)" for e1 e2 now
    using k by (auto simp: bridge_start_def bridge_stop_def split: option.splits) (auto simp: kept_def)
  have fl: "kept ?d (rx_flushed c r now s)" for r now using k by (auto simp: rx_flushed_def split: rx_phase.splits)
  have ms: "kept ?d (rx_message c now s)" for now
    using k q by (auto simp: rx_message_def Let_def kept_header kept_data split: option.splits list.splits)
  have tp: "kept ?d (rx_top c now s)" "kept ?d (rx_timeout c now s)" for now
    using k q by (simp_all add: rx_top_def rx_timeout_def kept_flush)
  have ot: "kept ?d (ev_apply c (EvOther f g) s)" for f g using k by (simp add: kept_def)
  show ?thesis
    by (cases ev) (use k st fl ms tp kept_decoded [OF i o] ot kept_side [OF outbound_side(1)]
        kept_side [OF outbound_side(2)] kept_side [OF outbound_side(3)] kept_side [OF outbound_side(4)]
        kept_side [OF outbound_side(5)] kept_side [OF outbound_side(6)] kept_side [OF encoded_side] in auto)
qed

interpretation rxi: inbound c rx_inv for c
proof
  fix s s' :: "('a, 'b) bridge"
  show "rx_core s' = rx_core s \<Longrightarrow> tx_part s' = tx_part s \<Longrightarrow> db_mode s' = db_mode s \<Longrightarrow> rx_inv s \<Longrightarrow> rx_inv s'"
    by (simp add: rx_inv_def rx_core_def)
qed (simp_all add: inv_intros)

lemma tx_side_rx_inv: "tx_side s s' \<Longrightarrow> rx_inv s \<Longrightarrow> rx_inv s'"
  by (auto simp: tx_side_def rx_inv_def rx_core_def)

lemma rx_inv_teardown: "rx_inv s \<Longrightarrow> rx_inv (teardown c now s)"
proof -
  assume i: "rx_inv s"
  have "db_rx_slot_held (force_unkey c now s) = db_rx_slot_held (close_session c now (s\<lparr>db_rx_decode_stream := False\<rparr>))"
    by (simp add: force_unkey_def Let_def)
  also have "\<dots> = False"
  proof (cases "db_rx_session s")
    case None
    with i show ?thesis by (simp add: close_session_None rx_inv_def)
  next
    case (Some x)
    then have "db_rx_session (s\<lparr>db_rx_decode_stream := False\<rparr>) = Some x" by simp
    from close_session_Some [OF this, of c now] show ?thesis by (simp add: radio_part_def Let_def)
  qed
  finally have "\<not> db_rx_slot_held (teardown c now s)"
    using teardown_radio [of c now s] by (simp add: radio_part_def)
  then show ?thesis by (simp add: rx_inv_def)
qed

lemma rx_inv_event: "rx_inv s \<Longrightarrow> rx_inv (ev_apply c ev s)"
proof -
  assume i: "rx_inv s"
  have up: "rx_inv (s\<lparr>db_running := b\<rparr>)"
    "rx_inv (s\<lparr>db_running := b, db_rx_queue := q, db_rx_phase := ph, db_rf_pump := p, db_rf_wait := w\<rparr>)"
    "rx_inv (s\<lparr>db_running := b, db_rx_phase := ph, db_rf_pump := p, db_rf_wait := w\<rparr>)"
    "rx_inv (s\<lparr>db_arbiter := a, db_slot := sl\<rparr>)" for b q ph p w a sl
    using i by (simp_all add: rx_inv_def)
  then have st: "rx_inv (snd (bridge_start c e1 e2 now s))" "rx_inv (bridge_stop c now s)" for e1 e2 now
    using i by (simp_all add: bridge_start_def bridge_stop_def rx_inv_teardown split: option.splits)
  show ?thesis
    by (cases ev) (use i st up rxi.inbound_queue rxi.top rxi.message rxi.timeout rxi.decoded rxi.flushed rxi.dog
      tx_side_rx_inv [OF outbound_side(1)] tx_side_rx_inv [OF outbound_side(2)] tx_side_rx_inv [OF outbound_side(3)]
      tx_side_rx_inv [OF outbound_side(4)] tx_side_rx_inv [OF outbound_side(5)] tx_side_rx_inv [OF outbound_side(6)]
      tx_side_rx_inv [OF encoded_side] in auto)
qed

lemma reach_rx_inv: "bridge_reach c admits s \<Longrightarrow> rx_inv s"
  by (induction rule: bridge_reach.induct) (simp_all add: rx_inv_event, simp add: rx_inv_def bridge_init_def)

text \<open>An over whose session stays open all along a run.\<close>

fun open_throughout :: "('i, 'g) bridge_config \<Rightarrow> bridge_event list \<Rightarrow> ('i, 'g) bridge \<Rightarrow> bool" where
  "open_throughout c [] s = (db_rx_session s \<noteq> None)"
| "open_throughout c (ev # evs) s = (db_rx_session s \<noteq> None \<and> open_throughout c evs (ev_apply c ev s))"

lemma open_throughout_start: "open_throughout c evs s \<Longrightarrow> db_rx_session s \<noteq> None"
  by (cases evs) simp_all

lemma watchdog_deadline:
  "db_rx_session (watchdog c now s) \<noteq> None \<Longrightarrow> db_rx_over_deadline s = Some d \<Longrightarrow> now < d"
  by (auto simp: watchdog_def over_expired_def split: if_splits)

lemma open_throughout_deadline:
  "rx_inv s \<Longrightarrow> db_rx_over_deadline s = Some d \<Longrightarrow> open_throughout c evs s \<Longrightarrow> EvWatchdog now \<in> set evs \<Longrightarrow> now < d"
proof (induction evs arbitrary: s)
  case (Cons ev evs)
  then have o: "db_rx_session s \<noteq> None" and t: "open_throughout c evs (ev_apply c ev s)" by simp_all
  from t have o': "db_rx_session (ev_apply c ev s) \<noteq> None" by (rule open_throughout_start)
  show ?case
  proof (cases "ev = EvWatchdog now")
    case True
    with o' Cons.prems(2) watchdog_deadline [of c now s d] show ?thesis by simp
  next
    case False
    have "db_rx_over_deadline (ev_apply c ev s) = Some d"
      using deadline_fixed [OF Cons.prems(1) o, of c ev] o' Cons.prems(2) by (simp add: kept_def)
    with Cons.IH [OF rx_inv_event [OF Cons.prems(1)] _ t] Cons.prems(4) False show ?thesis by simp
  qed
qed simp

text \<open>
  C24. An over is bounded. Opening a session at clock reading \<open>t\<close> sets the deadline \<open>t + max_over\<close>,
  and whatever happens then, decodes that park, frames that keep coming, a gate that stays open,
  the over does not outlive a watchdog tick at or after it: as long as it has stayed open, every tick
  so far came before the deadline.
\<close>

theorem over_ends_by_deadline:
  assumes "bridge_reach c admits s" and "db_rx_session s \<noteq> None" and "0 < bc_max_over c"
  shows "(\<forall>s0 t. db_rx_session s0 = None \<longrightarrow>
      db_rx_over_deadline (open_rx_session c t s0) = Some (t + bc_max_over c)) \<and>
    (\<forall>d evs now. db_rx_over_deadline s = Some d \<longrightarrow> open_throughout c evs s \<longrightarrow> EvWatchdog now \<in> set evs \<longrightarrow>
      now < d)"
proof (intro conjI allI impI)
  show "db_rx_over_deadline (open_rx_session c t s0) = Some (t + bc_max_over c)"
    if "db_rx_session s0 = None" for s0 t
    using that assms(3) by (auto simp: open_rx_session_def split: prod.splits)
  show "now < d" if "db_rx_over_deadline s = Some d" "open_throughout c evs s" "EvWatchdog now \<in> set evs" for d evs now
    using open_throughout_deadline [OF reach_rx_inv [OF assms(1)] that] .
qed

theorem over_ends_by_deadline_witness:
  "db_rx_over_deadline (ev_run demo_config demo_keyed demo_new) = Some 60 \<and> (1 / 2 :: real) < 60"
proof -
  let ?s = "ev_run demo_config demo_keyed demo_new"
  have o: "db_rx_session ?s = Some (True, Some 0)" and d: "db_rx_over_deadline ?s = Some 60" by code_simp+
  have t: "open_throughout demo_config [EvTop 0, EvWatchdog (1 / 2)] ?s" by code_simp
  have "db_rx_session ?s \<noteq> None" and "0 < bc_max_over demo_config" using o by (simp_all add: demo_config_def)
  from over_ends_by_deadline [OF demo_keyed_reach this] d t show ?thesis by auto
qed

text \<open>Right after a watchdog tick, a transmitter that is still up is inside every bound: the stream is
  live, the content is not silent and the over is within its cap.
\<close>

theorem watchdog_leaves_live_over:
  assumes "bridge_reach c considerate s" "unkeys c"
  shows "let s' = watchdog c now s in line_up (db_radio_log s') \<longrightarrow>
    \<not> session_idle c now s' \<and> \<not> over_expired now s' \<and>
    (0 < bc_dead_air c \<longrightarrow> now - db_last_gate_pass s' < bc_dead_air c)"
proof -
  from ptt_event [OF assms(2) reach_ptt [OF assms], of "EvWatchdog now"]
  have "ptt_inv (watchdog c now s)" by (simp add: considerate_def)
  then have "line_up (db_radio_log (watchdog c now s)) \<Longrightarrow> db_rx_session (watchdog c now s) \<noteq> None"
    by (cases "db_rx_session (watchdog c now s)") (auto simp: ptt_inv_def shared_inv_def current_session_def)
  then show ?thesis
    by (auto simp: watchdog_def dead_air_elapsed_def Let_def split: if_splits)
qed

theorem watchdog_leaves_live_over_witness:
  "line_up (db_radio_log (watchdog demo_config (1 / 2) (ev_run demo_config demo_keyed demo_new))) \<and>
   \<not> session_idle demo_config (1 / 2) (watchdog demo_config (1 / 2) (ev_run demo_config demo_keyed demo_new))"
proof -
  have "line_up (db_radio_log (watchdog demo_config (1 / 2) (ev_run demo_config demo_keyed demo_new)))" by code_simp
  with watchdog_leaves_live_over [OF demo_keyed_reach demo_unkeys, of "1 / 2"] show ?thesis
    unfolding Let_def by blast
qed

text \<open>Stopping unkeys. Whatever state a running bridge is in and whatever the radio raised before, the
  last thing \<open>stop\<close> does to the radio is a direct \<open>ptt(False)\<close>; the line can stay up only if that
  very call raised. The latch is idle, and no session, slot or deadline is left.
\<close>

theorem stop_unkeys:
  assumes "db_running s" "rx_inv s"
  shows "let s' = bridge_stop c now s in
    (\<exists>l ok. db_radio_log s' = l @ [(now, CallPtt False, ok)] \<and> (line_up (db_radio_log s') \<longrightarrow> \<not> ok)) \<and>
    db_mode s' = ModeIdle \<and> db_rx_session s' = None \<and> \<not> db_rx_slot_held s' \<and> db_rx_over_deadline s' = None"
proof -
  define u where "u = s\<lparr>db_running := False\<rparr>"
  from assms(2) have "rx_inv (teardown c now u)" by (intro rx_inv_teardown) (simp add: rx_inv_def u_def)
  moreover obtain l ok where l: "db_radio_log (teardown c now u) = l @ [(now, CallPtt False, ok)]"
    using force_unkey_log [of c now u] teardown_radio [of c now u] by (auto simp: radio_part_def)
  moreover have "line_up (db_radio_log (teardown c now u)) \<longrightarrow> \<not> ok" using l by simp
  ultimately show ?thesis using assms(1) by (simp add: bridge_stop_def u_def [symmetric] Let_def rx_inv_def)
qed

theorem stop_unkeys_witness:
  "line_up (db_radio_log (ev_run demo_config demo_keyed demo_new)) \<and>
   db_mode (bridge_stop demo_config 3 (ev_run demo_config demo_keyed demo_new)) = ModeIdle"
proof -
  have "line_up (db_radio_log (ev_run demo_config demo_keyed demo_new))"
    and "db_running (ev_run demo_config demo_keyed demo_new)" by code_simp+
  with stop_unkeys [OF _ reach_rx_inv [OF demo_keyed_reach], of demo_config 3] show ?thesis
    unfolding Let_def by blast
qed

subsection \<open>A finished stream does not come back\<close>

text \<open>
  After the end frame of a stream, \<open>trail\<close> is what may still sit in the queue: data frames, of that
  stream or any other, and no header.
\<close>

fun drain :: "('i, 'g) bridge_config \<Rightarrow> secs \<Rightarrow> nat \<Rightarrow> ('i, 'g) bridge \<Rightarrow> ('i, 'g) bridge" where
  "drain c now 0 s = s"
| "drain c now (Suc n) s = drain c now n (rx_message c now (rx_top c now s))"

lemma ended_data_dropped:
  assumes "db_mode s = ModeIdle" "db_rx_session s = None" "db_last_rx_stream_id s = None" "db_rx_phase s = AtTop"
    and "db_rx_queue s = Some (msg # q)" "dm_kind msg = MkData"
  shows "rx_message c now (rx_top c now s) =
    s\<lparr>db_rx_queue := Some q, db_rx_dropped_busy := db_rx_dropped_busy s + 1\<rparr>"
  using assms by (simp add: rx_top_def rx_message_def rx_data_def)

lemma ended_drains:
  "db_mode s = ModeIdle \<Longrightarrow> db_rx_session s = None \<Longrightarrow> db_last_rx_stream_id s = None \<Longrightarrow> db_rx_phase s = AtTop \<Longrightarrow>
   db_rx_queue s = Some trail \<Longrightarrow> \<forall>m \<in> set trail. dm_kind m = MkData \<Longrightarrow>
   drain c now (length trail) s =
     s\<lparr>db_rx_queue := Some [], db_rx_dropped_busy := db_rx_dropped_busy s + length trail\<rparr>"
proof (induction trail arbitrary: s)
  case (Cons m trail)
  have "rx_message c now (rx_top c now s) =
      s\<lparr>db_rx_queue := Some trail, db_rx_dropped_busy := db_rx_dropped_busy s + 1\<rparr>" (is "_ = ?s")
    using Cons.prems by (intro ended_data_dropped) auto
  moreover have "drain c now (length trail) ?s =
      ?s\<lparr>db_rx_queue := Some [], db_rx_dropped_busy := db_rx_dropped_busy ?s + length trail\<rparr>"
    using Cons.prems by (intro Cons.IH) simp_all
  ultimately show ?case by simp
qed simp

lemma emit_queue:
  "db_rx_queue (emit_rx_pcm c now pcm s) = db_rx_queue s \<and>
   (db_mode s \<noteq> ModeTx \<longrightarrow> db_mode (emit_rx_pcm c now pcm s) \<noteq> ModeTx)"
proof (rule emit_rx_pcm_cases)
  fix s' x r t
  assume m: "db_mode s = ModeRx" and g: "rx_gate_frame c now (bc_to_canonical c pcm) s = (True, s')"
  let ?u = "session_store t (open_rx_session c now (s'\<lparr>db_last_gate_pass := now\<rparr>))"
  from rx_gate_frame_simps [OF g] m have "db_mode ?u = ModeRx" "db_rx_queue ?u = db_rx_queue s" by simp_all
  then show "db_rx_queue (after_feed c now r ?u) = db_rx_queue s \<and>
      (db_mode s \<noteq> ModeTx \<longrightarrow> db_mode (after_feed c now r ?u) \<noteq> ModeTx)"
    by (cases rule: after_feed_cases [of c now r ?u]) simp_all
qed (auto dest: rx_gate_frame_simps)

lemma emits_queue:
  "db_rx_queue (emit_all c now pcms s) = db_rx_queue s \<and>
   (db_mode s \<noteq> ModeTx \<longrightarrow> db_mode (emit_all c now pcms s) \<noteq> ModeTx)"
  unfolding emit_all_def
proof (induction pcms arbitrary: s)
  case (Cons p pcms)
  from Cons.IH [of "emit_rx_pcm c now p s"] emit_queue [of c now p s] show ?case by simp
qed simp

text \<open>A finished stream never keys the transmitter again: once the end frame of an over has been
  played and its tail flushed, any number of data frames that trail behind it are dropped and counted,
  and nothing else changes: no latch, no session, no call on the radio. Only a header can start an
  over.
\<close>

theorem finished_stream_stays_finished:
  assumes "db_mode s \<noteq> ModeTx" "db_rx_phase s = AtFlush CutEnd ThenLoop"
    and "db_rx_queue s = Some trail" "\<forall>m \<in> set trail. dm_kind m = MkData"
  shows "let s1 = rx_flushed c r t s in
    db_mode s1 = ModeIdle \<and> db_rx_session s1 = None \<and>
    drain c now (length trail) s1 =
      s1\<lparr>db_rx_queue := Some [], db_rx_dropped_busy := db_rx_dropped_busy s1 + length trail\<rparr>"
proof -
  define e where "e = emit_all c t (case r of Inl e \<Rightarrow> [] | Inr tail \<Rightarrow> tail) s"
  have e: "db_mode e \<noteq> ModeTx \<and> db_rx_queue e = Some trail"
    using emits_queue [of c t _ s] assms(1,3) by (simp add: e_def)
  have "rx_flushed c r t s = (end_rx c CutEnd t e)\<lparr>db_rx_phase := AtTop\<rparr>"
    using assms(2) by (simp add: rx_flushed_def rx_continue_def e_def)
  moreover have "db_mode (end_rx c CutEnd t e) = ModeIdle" using e by (cases "db_mode e") simp_all
  ultimately show ?thesis
    using ended_drains [of "rx_flushed c r t s" trail c now] assms(4) e by (simp add: Let_def)
qed

definition demo_ending :: "(unit, unit) bridge" where
  "demo_ending = ev_run demo_config (demo_keyed @ [EvInbound (demo_data 7 True), EvTop 0, EvMessage 0, EvDecoded (Inr []) 0,
     EvInbound (demo_data 7 False), EvInbound (demo_data 7 False)]) demo_new"

theorem finished_stream_stays_finished_witness:
  "db_mode demo_ending = ModeRx \<and>
   db_rx_dropped_busy (drain demo_config 1 2 (rx_flushed demo_config (Inr []) 0 demo_ending)) =
     db_rx_dropped_busy (rx_flushed demo_config (Inr []) 0 demo_ending) + 2"
proof -
  have m: "db_mode demo_ending = ModeRx" and p: "db_rx_phase demo_ending = AtFlush CutEnd ThenLoop"
    and q: "db_rx_queue demo_ending = Some [demo_data 7 False, demo_data 7 False]" by code_simp+
  have d: "\<forall>m \<in> set [demo_data 7 False, demo_data 7 False]. dm_kind m = MkData"
    by (simp add: demo_data_def dsrp_message_of_def)
  from m have "db_mode demo_ending \<noteq> ModeTx" by simp
  from finished_stream_stays_finished [OF this p q d, of demo_config "Inr []" 0 1] m show ?thesis
    by (simp add: Let_def numeral_2_eq_2)
qed

subsection \<open>The inbound queue and the loss counter\<close>

interpretation rxq: counted_drop_oldest "\<lambda>s. the (db_rx_queue s)" "enqueue_rx c"
  "\<lambda>s. db_rx_queue s \<noteq> None \<and> 0 < bc_queue_maxsize c" "bc_queue_maxsize c" db_rx_queue_drops for c
  by unfold_locales (auto simp: enqueue_rx_def Let_def split: option.splits)

text \<open>The inbound queue is bounded and sheds the oldest: however many messages arrive while the drain
  loop is parked, the queue holds the newest \<open>maxsize\<close> of them in order, and \<open>rx_queue_drops\<close> is
  exactly the number missing.
\<close>

theorem rx_queue_keeps_newest:
  assumes "db_rx_queue s = Some q" "0 < bc_queue_maxsize c" "length q \<le> bc_queue_maxsize c"
  shows "let s' = fold (enqueue_rx c) msgs s; lost = length q + length msgs - bc_queue_maxsize c in
    db_rx_queue s' = Some (drop lost (q @ msgs)) \<and> db_rx_queue_drops s' = db_rx_queue_drops s + lost"
proof -
  from rxq.pushes [of s c msgs] rxq.pushes_counted [of s c msgs] assms show ?thesis by (auto simp: Let_def)
qed

theorem rx_queue_keeps_newest_witness:
  "(let s = demo_new\<lparr>db_rx_queue := Some []\<rparr>;
        s' = fold (enqueue_rx (demo_config\<lparr>bc_queue_maxsize := 2\<rparr>)) [demo_header 1, demo_header 2, demo_header 3] s
    in db_rx_queue s' = Some [demo_header 2, demo_header 3])"
  using rx_queue_keeps_newest [of "demo_new\<lparr>db_rx_queue := Some []\<rparr>" "[]" "demo_config\<lparr>bc_queue_maxsize := 2\<rparr>"
      "[demo_header 1, demo_header 2, demo_header 3]"]
  by (simp add: Let_def)

text \<open>The frame that is \<open>k\<close>-th in its stream carries the sequence number \<open>k mod 21\<close>.\<close>

definition stream_frame :: "int \<Rightarrow> nat \<Rightarrow> dsrp_message" where
  "stream_frame sid k = (dsrp_message_of MkData)\<lparr>dm_session_id := sid, dm_seq_no := int (k mod 21)\<rparr>"

text \<open>The frames a receiver misses between the first and the last it got.\<close>

definition missing :: "nat list \<Rightarrow> nat set" where
  "missing ks = {hd ks..last ks} - set ks"

text \<open>Increasing positions with fewer than 21 frames lost in a row.\<close>

fun short_gaps :: "nat list \<Rightarrow> bool" where
  "short_gaps (a # b # ks) = (a < b \<and> b \<le> a + 21 \<and> short_gaps (b # ks))"
| "short_gaps ks = True"

lemma seq_gap: "a < b \<Longrightarrow> b \<le> a + 21 \<Longrightarrow> (int (b mod 21) - int (a mod 21) - 1) mod 21 = int b - int a - 1"
proof -
  assume ab: "a < b" "b \<le> a + 21"
  have "(x mod 21 - y mod 21 - 1) mod 21 = (x - y - 1) mod (21 :: int)" for x y
    by (metis mod_diff_eq mod_diff_left_eq)
  then have "(int (b mod 21) - int (a mod 21) - 1) mod 21 = (int b - int a - 1) mod 21" by (simp add: zmod_int)
  also have "\<dots> = int b - int a - 1" using ab by simp
  finally show ?thesis .
qed

lemma enqueue_next:
  assumes "db_enq_stream_id s = Some sid" "db_enq_prev_seq s = Some (int (a mod 21))" "a < b" "b \<le> a + 21"
  shows "db_enq_stream_id (enqueue_rx c (stream_frame sid b) s) = Some sid \<and>
    db_enq_prev_seq (enqueue_rx c (stream_frame sid b) s) = Some (int (b mod 21)) \<and>
    db_rx_seq_lost (enqueue_rx c (stream_frame sid b) s) = db_rx_seq_lost s + (int b - int a - 1)"
  using assms seq_gap [of a b]
  by (simp add: enqueue_rx_def stream_frame_def dsrp_message_of_def Let_def SEQ_MAX_def split: option.splits)

lemma short_gaps_sorted: "short_gaps (a # ks) \<Longrightarrow> x \<in> set ks \<Longrightarrow> a < x"
proof (induction ks arbitrary: a)
  case (Cons b ks)
  then have "a < b" "short_gaps (b # ks)" by simp_all
  with Cons.IH [of b] Cons.prems(2) show ?case by auto
qed simp

lemma missing_Cons:
  assumes "short_gaps (a # b # ks)"
  shows "int (card (missing (a # b # ks))) = int (card (missing (b # ks))) + (int b - int a - 1)"
proof -
  have ab: "a < b" using assms by simp
  have up: "b \<le> last (b # ks)"
  proof (cases "ks = []")
    case False
    then have "last ks \<in> set ks" by (rule last_in_set)
    with assms False short_gaps_sorted [of b ks "last ks"] show ?thesis by simp
  qed simp
  have "missing (a # b # ks) = {a<..<b} \<union> missing (b # ks)"
    using ab up short_gaps_sorted [of b ks] assms by (auto simp: missing_def) (force simp: not_less)+
  moreover have "{a<..<b} \<inter> missing (b # ks) = {}" by (auto simp: missing_def)
  moreover have "finite (missing (b # ks))" by (simp add: missing_def)
  ultimately show ?thesis using ab by (simp add: card_Un_disjoint)
qed

lemma enqueue_rest:
  "db_enq_stream_id s = Some sid \<Longrightarrow> db_enq_prev_seq s = Some (int (a mod 21)) \<Longrightarrow> short_gaps (a # ks) \<Longrightarrow>
   db_rx_seq_lost (fold (enqueue_rx c) (map (stream_frame sid) ks) s) =
     db_rx_seq_lost s + int (card (missing (a # ks)))"
proof (induction ks arbitrary: a s)
  case Nil
  then show ?case by (simp add: missing_def)
next
  case (Cons b ks)
  from Cons.prems have "a < b" "b \<le> a + 21" by simp_all
  note n = enqueue_next [OF Cons.prems(1,2) this, of c]
  from Cons.IH [of "enqueue_rx c (stream_frame sid b) s" b] n Cons.prems(3) missing_Cons [OF Cons.prems(3)]
  show ?case by simp
qed

text \<open>\<open>rx_seq_lost\<close> counts what the network did not deliver. When the frames of a stream arrive in
  order with fewer than 21 lost in a row, the counter grows by exactly the number of frames missing
  between the first and the last received, whatever the queue dropped.
\<close>

theorem seq_lost_counts_missing:
  assumes "ks \<noteq> []" "short_gaps ks" "db_enq_stream_id s \<noteq> Some sid"
  shows "db_rx_seq_lost (fold (enqueue_rx c) (map (stream_frame sid) ks) s) =
    db_rx_seq_lost s + int (card (missing ks))"
proof (cases ks)
  case (Cons k ks')
  let ?s = "enqueue_rx c (stream_frame sid k) s"
  have "db_enq_stream_id ?s = Some sid \<and> db_enq_prev_seq ?s = Some (int (k mod 21)) \<and> db_rx_seq_lost ?s = db_rx_seq_lost s"
    using assms(3) by (auto simp: enqueue_rx_def stream_frame_def dsrp_message_of_def Let_def split: option.splits)
  with enqueue_rest [of ?s sid k ks' c] assms(2) Cons show ?thesis by simp
qed (use assms in simp)

theorem seq_lost_counts_missing_witness:
  "db_rx_seq_lost (fold (enqueue_rx demo_config) (map (stream_frame 7) [0, 1, 4, 25]) demo_new) =
     int (card (missing [0, 1, 4, 25]))"
  using seq_lost_counts_missing [of "[0, 1, 4, 25]" demo_new 7 demo_config]
  by (simp add: demo_new_def bridge_init_def)

end
