(* ===== verification/DStarBridgeTx.thy ===== *)
theory DStarBridgeTx
  imports DStarBridgeRx
begin

section \<open>The D-STAR bridge, RF and operator to the reflector\<close>

text \<open>
  What the gateway receives is a sequence of streams: a header, data frames numbered modulo 21 under
  the header's session id, and one end frame. The abstract specification is the automaton
  \<open>out_step\<close>; the bridge implements it as long as an encode does not outlast the reaper and no over is
  torn down (\<open>timely\<close>), and the closed theorems at the end show what happens otherwise.
\<close>

datatype out_state = OutIdle | OutOpen int int

definition out_step :: "out_state \<Rightarrow> dsrp_message \<Rightarrow> out_state option" where
  "out_step st m =
     (case st of
        OutIdle \<Rightarrow>
          if dm_kind m = MkHeader \<and> length (dm_radio_header m) = RADIO_HEADER_LEN \<and> dm_session_id m \<noteq> 0
          then Some (OutOpen (dm_session_id m) 0) else None
      | OutOpen sid n \<Rightarrow>
          if dm_kind m = MkData \<and> dm_session_id m = sid \<and> dm_seq_no m = n \<and>
            length (dm_dv_frame m) = DV_FRAME_LEN \<and> drop VOICE_FRAME_LEN (dm_dv_frame m) = slow_data_for_seq n \<and>
            (dm_end m \<longrightarrow> voice_frame (dm_dv_frame m) = NULL_AMBE)
          then Some (if dm_end m then OutIdle else OutOpen sid (next_seq n)) else None)"

fun out_run :: "out_state \<Rightarrow> dsrp_message list \<Rightarrow> out_state option" where
  "out_run st [] = Some st"
| "out_run st (m # ms) = (case out_step st m of None \<Rightarrow> None | Some st' \<Rightarrow> out_run st' ms)"

lemma out_run_append: "out_run st (ms @ ms') = (case out_run st ms of None \<Rightarrow> None | Some st' \<Rightarrow> out_run st' ms')"
  by (induction ms arbitrary: st) (auto split: option.splits)

subsection \<open>Session ids and packets\<close>

lemma alloc_session_id_range:
  assumes "alloc_session_id s = (sid, s')"
  shows "1 \<le> sid \<and> sid \<le> 65535 \<and> 0 \<le> db_session_counter s' \<and> db_session_counter s' < 65535 \<and>
    sid = db_session_counter s' + 1"
  using assms pos_mod_bound [of 65535 "db_session_counter s + 1"] pos_mod_sign [of 65535 "db_session_counter s + 1"]
  by (auto simp: alloc_session_id_def Let_def)

text \<open>The session id of an over is a nonzero 16-bit number, so the wire format carries it unchanged,
  and it differs from that of the over before.
\<close>

theorem session_id_bounds:
  assumes "alloc_session_id s = (sid, s')" "alloc_session_id s' = (sid', s'')"
  shows "1 \<le> sid \<and> sid \<le> 65535 \<and> sid AND 0xFFFF = sid \<and> sid' \<noteq> sid"
proof -
  from alloc_session_id_range [OF assms(1)] have r: "1 \<le> sid" "sid \<le> 65535" "sid = db_session_counter s' + 1" by simp_all
  moreover have "sid AND 0xFFFF = sid mod 65536"
    using take_bit_eq_mask [of 16 sid] by (simp add: take_bit_eq_mod mask_eq_exp_minus_1)
  moreover have "sid' \<noteq> sid"
  proof (cases "sid = 65535")
    case False
    with r assms(2) show ?thesis by (auto simp: alloc_session_id_def Let_def)
  qed (use r assms(2) in \<open>auto simp: alloc_session_id_def Let_def\<close>)
  ultimately show ?thesis by simp
qed

theorem session_id_bounds_witness:
  "alloc_session_id (bridge_init (arbiter_init False) slot_init () () ()) =
     (2, (bridge_init (arbiter_init False) slot_init () () ())\<lparr>db_session_counter := 1\<rparr>) \<and>
   (2 :: int) AND 0xFFFF = 2"
proof -
  let ?s = "bridge_init (arbiter_init False) slot_init () () () :: (unit, unit) bridge"
  let ?t = "?s\<lparr>db_session_counter := 1\<rparr>"
  have a: "alloc_session_id ?s = (2, ?t)" by (simp add: alloc_session_id_def bridge_init_def)
  have b: "alloc_session_id ?t = (3, ?t\<lparr>db_session_counter := 2\<rparr>)" by (simp add: alloc_session_id_def)
  from session_id_bounds [OF a b] a show ?thesis by blast
qed

lemma voice_header_length: "voice_header c ur = Inr h \<Longrightarrow> length h = RADIO_HEADER_LEN"
  by (auto simp: voice_header_def build_voice_header_def RADIO_HEADER_LEN_def split: sum.splits)

lemma slow_data_length [simp]: "length (slow_data_for_seq n) = SLOW_DATA_LEN"
  by (simp add: slow_data_for_seq_def DATA_SYNC_def SLOW_DATA_FILLER_def SLOW_DATA_LEN_def)

lemma null_ambe_length [simp]: "length NULL_AMBE = VOICE_FRAME_LEN"
  by (simp add: NULL_AMBE_def VOICE_FRAME_LEN_def)

lemma build_dv_frame_ok:
  "build_dv_frame ambe (slow_data_for_seq n) = Inr dv \<Longrightarrow>
     length dv = DV_FRAME_LEN \<and> voice_frame dv = ambe \<and> drop VOICE_FRAME_LEN dv = slow_data_for_seq n"
  by (auto simp: build_dv_frame_def DV_FRAME_LEN_def voice_frame_def split: if_splits)

definition seq_ok :: "int \<Rightarrow> bool" where "seq_ok n \<longleftrightarrow> 0 \<le> n \<and> n \<le> 20"

lemma next_seq_ok: "seq_ok n \<Longrightarrow> seq_ok (next_seq n)"
  by (simp add: seq_ok_def next_seq_def SEQ_MAX_def)

text \<open>One packet, read by the specification.\<close>

lemma out_header:
  assumes "voice_header c ur = Inr h" "1 \<le> sid" "sid \<le> 65535"
  shows "out_step OutIdle (gw_message (GwHeader h sid)) = Some (OutOpen sid 0) \<and> gw_call_ok (GwHeader h sid)"
  using voice_header_length [OF assms(1)] assms(2,3) by (simp add: out_step_def dsrp_message_of_def)

lemma out_data:
  assumes "build_dv_frame ambe (slow_data_for_seq n) = Inr dv" "seq_ok n" "1 \<le> sid" "sid \<le> 65535" "e \<longrightarrow> ambe = NULL_AMBE"
  shows "out_step (OutOpen sid n) (gw_message (GwData dv sid n e)) =
      Some (if e then OutIdle else OutOpen sid (next_seq n)) \<and> gw_call_ok (GwData dv sid n e)"
  using build_dv_frame_ok [OF assms(1)] assms(2-5) by (simp add: out_step_def dsrp_message_of_def seq_ok_def)

lemma null_dv: "build_dv_frame NULL_AMBE (slow_data_for_seq n) = Inr (NULL_AMBE @ slow_data_for_seq n)"
  by (simp add: build_dv_frame_def)

lemma out_commands:
  "seq_ok n \<Longrightarrow> 1 \<le> sid \<Longrightarrow> sid \<le> 65535 \<Longrightarrow>
     out_run (OutOpen sid n) (map gw_message (command_frames k sid n)) = Some OutIdle \<and>
     list_all gw_call_ok (command_frames k sid n)"
proof (induction k arbitrary: n)
  case 0
  from out_data [OF null_dv, of n sid True] 0 show ?case by simp
next
  case (Suc k)
  from out_data [OF null_dv, of n sid False] Suc.prems Suc.IH [OF next_seq_ok] show ?case by simp
qed

subsection \<open>The bridge implements the specification\<close>

definition out_abs :: "('i, 'g) bridge \<Rightarrow> out_state" where
  "out_abs s = (if db_mode s = ModeTx then OutOpen (db_tx_session_id s) (db_tx_seq s) else OutIdle)"

definition out_inv :: "('i, 'g) bridge \<Rightarrow> bool" where
  "out_inv s \<longleftrightarrow>
     out_run OutIdle (map gw_message (db_calls s)) = Some (out_abs s) \<and> list_all gw_call_ok (db_calls s) \<and>
     (db_mode s = ModeTx \<longrightarrow>
        1 \<le> db_tx_session_id s \<and> db_tx_session_id s \<le> 65535 \<and> seq_ok (db_tx_seq s) \<and> db_tx_source s \<noteq> None) \<and>
     (db_rf_wait s \<longrightarrow> db_mode s = ModeTx \<and> db_tx_source s = Some FromRf) \<and>
     (db_op_wait s \<longrightarrow> db_mode s = ModeTx \<and> db_tx_source s = Some FromOp)"

text \<open>
  The outbound fields, and the fields nothing outbound depends on.
\<close>

lemma out_inv_tx_part:
  assumes "tx_part s' = tx_part s" "db_mode s' = ModeTx \<longleftrightarrow> db_mode s = ModeTx" "out_inv s"
  shows "out_inv s'"
  using assms by (auto simp: out_inv_def out_abs_def tx_part_def)

text \<open>
  Events that do not cut an over short under the feet of a suspended coroutine: the reaper does not
  fire while the operator's frame is being encoded, a flush is over before an outbound over opens, and
  the bridge is not torn down in the middle of an outbound over.
\<close>

definition timely :: "('i, 'g) bridge_config \<Rightarrow> bridge_event \<Rightarrow> ('i, 'g) bridge \<Rightarrow> bool" where
  "timely c ev s =
     (case ev of
        EvRfFrame pcm reason now \<Rightarrow> db_op_wait s \<longrightarrow> now - db_last_tx_feed s < bc_tx_hang c
      | EvRfTimeout now \<Rightarrow> db_op_wait s \<longrightarrow> now - db_last_tx_feed s < bc_tx_hang c
      | EvFlushed r now \<Rightarrow> db_mode s \<noteq> ModeTx
      | EvStop now \<Rightarrow> db_mode s \<noteq> ModeTx
      | EvStart e1 e2 now \<Rightarrow> db_mode s \<noteq> ModeTx
      | _ \<Rightarrow> True)"

lemma gw_do_simps [simp]:
  "db_calls (gw_do call s) = db_calls s @ [call]" "db_mode (gw_do call s) = db_mode s"
  "db_tx_source (gw_do call s) = db_tx_source s" "db_tx_session_id (gw_do call s) = db_tx_session_id s"
  "db_tx_seq (gw_do call s) = db_tx_seq s" "db_rf_wait (gw_do call s) = db_rf_wait s"
  "db_op_wait (gw_do call s) = db_op_wait s"
  by (simp_all add: gw_do_def)

lemma out_end_tx:
  assumes i: "out_inv s" and w: "db_tx_source s = source \<longrightarrow> \<not> db_op_wait s \<and> \<not> db_rf_wait s"
  shows "out_inv (end_tx source s)"
proof (cases "db_mode s = ModeTx \<and> db_tx_source s = source")
  case True
  with i have r: "out_run OutIdle (map gw_message (db_calls s)) = Some (OutOpen (db_tx_session_id s) (db_tx_seq s))"
    and b: "seq_ok (db_tx_seq s)" "1 \<le> db_tx_session_id s" "db_tx_session_id s \<le> 65535"
    by (simp_all add: out_inv_def out_abs_def)
  let ?call = "GwData (NULL_AMBE @ slow_data_for_seq (db_tx_seq s)) (db_tx_session_id s) (db_tx_seq s) True"
  from out_data [OF null_dv b, of True]
  have o: "out_step (OutOpen (db_tx_session_id s) (db_tx_seq s)) (gw_message ?call) = Some OutIdle" "gw_call_ok ?call"
    by simp_all
  have e: "end_tx source s = (gw_do ?call s)\<lparr>db_tx_pcm := [], db_mode := ModeIdle, db_tx_source := None\<rparr>"
    using True by (simp add: end_tx_def)
  show ?thesis
    using i w True r o unfolding e out_inv_def out_abs_def
    by (simp add: out_run_append del: gw_message.simps gw_call_ok.simps)
qed (use i in \<open>auto simp: end_tx_def\<close>)

lemma out_feed_next:
  assumes "out_inv s" "db_mode s = ModeTx" "db_tx_source s = Some source"
  shows "out_inv (feed_next source s)"
  using assms by (cases source) (auto simp: feed_next_def set_wait_def out_inv_def out_abs_def)

lemma out_feed_rf:
  assumes "out_inv s" "db_mode s = ModeTx" "db_tx_source s = Some source"
  shows "out_inv (feed_rf c source pcm s)"
  unfolding feed_rf_def
  using assms by (intro out_feed_next) (simp_all add: out_inv_def out_abs_def)

lemma out_open_tx:
  assumes i: "out_inv s" and m: "db_mode s = ModeIdle" and h: "voice_header c (bc_ur_call c) = Inr h"
  obtains s' where "open_tx c source now s = (Inr (), s')" "out_inv s'" "db_mode s' = ModeTx"
    "db_tx_source s' = Some source"
proof -
  define n where "n = (db_session_counter s + 1) mod 65535"
  have r: "1 \<le> n + 1" "n + 1 \<le> 65535"
    using pos_mod_bound [of 65535 "db_session_counter s + 1"] pos_mod_sign [of 65535 "db_session_counter s + 1"]
    by (simp_all add: n_def)
  from out_header [OF h r] have o: "out_step OutIdle (gw_message (GwHeader h (n + 1))) = Some (OutOpen (n + 1) 0)"
    "gw_call_ok (GwHeader h (n + 1))" by simp_all
  let ?s = "s\<lparr>db_mode := ModeTx, db_tx_source := Some source, db_tx_overs := db_tx_overs s + 1, db_session_counter := n,
    db_tx_session_id := n + 1, db_tx_seq := 0, db_tx_pcm := [], db_last_tx_feed := now\<rparr>"
  let ?t = "report_activity c None True (gw_do (GwHeader h (n + 1)) ?s)"
  have e: "open_tx c source now s = (Inr (), ?t)"
    using h by (simp add: open_tx_def alloc_session_id_def n_def Let_def)
  have "tx_part ?t = tx_part (gw_do (GwHeader h (n + 1)) ?s)" by simp
  then have t: "db_tx_source ?t = Some source" "db_calls ?t = db_calls s @ [GwHeader h (n + 1)]"
    "db_tx_session_id ?t = n + 1" "db_tx_seq ?t = 0" "db_rf_wait ?t = db_rf_wait s" "db_op_wait ?t = db_op_wait s"
    by (simp_all add: tx_part_def)
  have "db_mode ?t = ModeTx" by simp
  moreover have "out_inv ?t"
    using i m o r t by (simp add: out_inv_def out_abs_def out_run_append seq_ok_def del: gw_message.simps gw_call_ok.simps)
  ultimately show thesis using that e t(1) by blast
qed

lemma out_encoded:
  assumes i: "out_inv s" and m: "db_mode s = ModeTx" "db_tx_source s = Some source"
  obtains r' s' where "encoded source r now s = (r', s')" "out_inv s'"
    "r' \<noteq> Inr () \<longrightarrow> (case source of FromRf \<Rightarrow> \<not> db_rf_wait s' | FromOp \<Rightarrow> \<not> db_op_wait s')"
proof (cases r)
  case (Inl e)
  with out_feed_next [OF i m] that show thesis by (simp add: encoded_def)
next
  case (Inr ambe)
  show thesis
  proof (cases "build_dv_frame ambe (slow_data_for_seq (db_tx_seq s))")
    case (Inl e)
    have "out_inv (set_wait source False s)" using i m by (cases source) (auto simp: set_wait_def out_inv_def out_abs_def)
    moreover have "case source of FromRf \<Rightarrow> \<not> db_rf_wait (set_wait source False s)
        | FromOp \<Rightarrow> \<not> db_op_wait (set_wait source False s)"
      by (cases source) (simp_all add: set_wait_def)
    moreover have "encoded source r now s = (Inl e, set_wait source False s)" using Inl Inr by (simp add: encoded_def)
    ultimately show thesis using that by blast
  next
    case dv: (Inr dv)
    let ?call = "GwData dv (db_tx_session_id s) (db_tx_seq s) False"
    let ?s = "(gw_do ?call s)\<lparr>db_tx_frames := db_tx_frames s + 1, db_tx_seq := next_seq (db_tx_seq s), db_last_tx_feed := now\<rparr>"
    from i m have b: "seq_ok (db_tx_seq s)" "1 \<le> db_tx_session_id s" "db_tx_session_id s \<le> 65535"
      and r: "out_run OutIdle (map gw_message (db_calls s)) = Some (OutOpen (db_tx_session_id s) (db_tx_seq s))"
      by (simp_all add: out_inv_def out_abs_def)
    from out_data [OF dv b, of False]
    have o: "out_step (OutOpen (db_tx_session_id s) (db_tx_seq s)) (gw_message ?call) =
        Some (OutOpen (db_tx_session_id s) (next_seq (db_tx_seq s)))" "gw_call_ok ?call" by simp_all
    have "out_inv ?s"
      using i m o r b next_seq_ok [OF b(1)]
      by (simp add: out_inv_def out_abs_def out_run_append del: gw_message.simps gw_call_ok.simps)
    then have "out_inv (feed_next source ?s)" using m by (intro out_feed_next) simp_all
    moreover have "encoded source r now s = (Inr (), feed_next source ?s)"
      using Inr dv by (simp add: encoded_def gw_do_def Let_def)
    ultimately show thesis using that by blast
  qed
qed

lemma out_irrelevant [simp]:
  "out_inv (s\<lparr>db_rf_gate_state := g\<rparr>) = out_inv s" "out_inv (s\<lparr>db_tx_deafened := n\<rparr>) = out_inv s"
  "out_inv (s\<lparr>db_deafened_reason := r\<rparr>) = out_inv s" "out_inv (s\<lparr>db_tx_dropped_busy := n\<rparr>) = out_inv s"
  "out_inv (s\<lparr>db_session_counter := i\<rparr>) = out_inv s" "out_inv (s\<lparr>db_rx_phase := ph\<rparr>) = out_inv s"
  "out_inv (s\<lparr>db_running := b\<rparr>) = out_inv s"
  by (simp_all add: out_inv_def out_abs_def)

lemma out_waits:
  "out_inv s \<Longrightarrow> db_rf_wait s \<Longrightarrow> db_mode s = ModeTx \<and> db_tx_source s = Some FromRf"
  "out_inv s \<Longrightarrow> db_op_wait s \<Longrightarrow> db_mode s = ModeTx \<and> db_tx_source s = Some FromOp"
  by (simp_all add: out_inv_def)

lemma out_reap:
  assumes "out_inv s" "\<not> db_rf_wait s" "db_op_wait s \<longrightarrow> now - db_last_tx_feed s < bc_tx_hang c"
  shows "out_inv (reap_stale_tx c now s)"
  using assms by (auto simp: reap_stale_tx_def intro: out_end_tx)

lemma out_pump_died:
  assumes "out_inv s" "\<not> db_rf_wait s"
  shows "out_inv (pump_died s)"
proof -
  have "out_inv (end_tx (Some FromRf) s)" using assms out_waits(2) [OF assms(1)] by (intro out_end_tx) auto
  then show ?thesis by (auto simp: pump_died_def out_inv_def out_abs_def)
qed

lemma out_rf_frame:
  assumes i: "out_inv s" and w: "\<not> db_rf_wait s" and t: "db_op_wait s \<longrightarrow> now - db_last_tx_feed s < bc_tx_hang c"
    and h: "voice_header c (bc_ur_call c) = Inr hdr"
  shows "out_inv (rf_frame c pcm reason now s)"
proof -
  obtain b g where bg: "(case bc_rf_gate c of None \<Rightarrow> (True, db_rf_gate_state s)
      | Some gate \<Rightarrow> gate now pcm (db_rf_gate_state s)) = (b, g)" by fastforce
  obtain d u where du: "deafened reason (s\<lparr>db_rf_gate_state := g\<rparr>) = (d, u)" by fastforce
  have u: "out_inv u" "\<not> db_rf_wait u" "db_op_wait u \<longrightarrow> now - db_last_tx_feed u < bc_tx_hang c"
    using i w t du by (auto simp: deafened_def split: option.splits)
  have "out_inv (case open_tx c FromRf now u of (Inl e, v) \<Rightarrow> pump_died v | (Inr x, v) \<Rightarrow> feed_rf c FromRf pcm v)"
    if m: "db_mode u = ModeIdle"
  proof -
    obtain v where "open_tx c FromRf now u = (Inr (), v)" "out_inv v" "db_mode v = ModeTx" "db_tx_source v = Some FromRf"
      using out_open_tx [OF u(1) m h] .
    then show ?thesis by (simp add: out_feed_rf)
  qed
  moreover have "out_inv (feed_rf c FromRf pcm u)" if "db_mode u = ModeTx" "db_tx_source u = Some FromRf"
    using out_feed_rf [OF u(1) that] .
  ultimately have "out_inv (if db_mode u = ModeRx \<or> (db_mode u = ModeTx \<and> db_tx_source u \<noteq> Some FromRf)
      then u\<lparr>db_tx_dropped_busy := db_tx_dropped_busy u + 1\<rparr>
      else if db_mode u = ModeIdle
      then (case open_tx c FromRf now u of (Inl e, v) \<Rightarrow> pump_died v | (Inr x, v) \<Rightarrow> feed_rf c FromRf pcm v)
      else feed_rf c FromRf pcm u)" using u(1) by (cases "db_mode u") auto
  moreover have "out_inv (reap_stale_tx c now (s\<lparr>db_rf_gate_state := g\<rparr>))" "out_inv (reap_stale_tx c now u)"
    using i w t u by (auto intro: out_reap)
  ultimately show ?thesis unfolding rf_frame_def bg Let_def prod.case du by simp
qed

lemma out_rf_encoded:
  assumes i: "out_inv s" and w: "db_rf_wait s"
  shows "out_inv (rf_encoded r now s)"
proof -
  from out_waits(1) [OF i w] have m: "db_mode s = ModeTx" "db_tx_source s = Some FromRf" by simp_all
  obtain r' s' where e: "encoded FromRf r now s = (r', s')" "out_inv s'" "r' \<noteq> Inr () \<longrightarrow> \<not> db_rf_wait s'"
    using out_encoded [OF i m] by (metis over_source.simps(3))
  then show ?thesis by (cases r') (simp_all add: rf_encoded_def out_pump_died)
qed

lemma out_operator:
  assumes i: "out_inv s" and h: "voice_header c (bc_ur_call c) = Inr hdr"
  shows "out_inv (snd (send_operator_audio c pcm now s))"
proof (cases "db_mode s")
  case ModeIdle
  obtain v where "open_tx c FromOp now s = (Inr (), v)" "out_inv v" "db_mode v = ModeTx" "db_tx_source v = Some FromOp"
    using out_open_tx [OF i ModeIdle h] .
  with i ModeIdle show ?thesis by (simp add: send_operator_audio_def out_feed_rf)
qed (use i in \<open>auto simp: send_operator_audio_def intro: out_feed_rf\<close>)

lemma fold_gw_do: "fold gw_do calls s = s\<lparr>db_calls := db_calls s @ calls\<rparr>"
  by (induction calls arbitrary: s) (simp_all add: gw_do_def)

lemma out_command:
  assumes i: "out_inv s" shows "out_inv (snd (send_link_command c urcall s))"
proof (cases "db_running s \<and> db_mode s = ModeIdle")
  case True
  obtain sid u where a: "alloc_session_id s = (sid, u)" by fastforce
  then obtain n where u: "u = s\<lparr>db_session_counter := n\<rparr>" by (auto simp: alloc_session_id_def Let_def)
  show ?thesis
  proof (cases "voice_header c urcall")
    case (Inl e)
    with True a u i show ?thesis by (simp add: send_link_command_def)
  next
    case (Inr h)
    from alloc_session_id_range [OF a] have r: "1 \<le> sid" "sid \<le> 65535" by simp_all
    let ?calls = "GwHeader h sid # command_frames (bc_command_frames c) sid 0"
    have o: "out_run OutIdle (map gw_message ?calls) = Some OutIdle" "list_all gw_call_ok ?calls"
      using out_header [OF Inr r] out_commands [of 0 sid "bc_command_frames c"] r by (simp_all add: seq_ok_def)
    have "snd (send_link_command c urcall s) = s\<lparr>db_session_counter := n, db_calls := db_calls s @ ?calls\<rparr>"
      using True a u Inr by (simp add: send_link_command_def fold_gw_do gw_do_def)
    then show ?thesis using i True o by (simp add: out_inv_def out_abs_def out_run_append del: out_run.simps)
  qed
qed (use i in \<open>simp add: send_link_command_def\<close>)

text \<open>Inbound segments leave the outbound state alone, and the latch in or out of TX.\<close>

interpretation away: inbound c "\<lambda>s. tx_part s = p \<and> db_mode s \<noteq> ModeTx" for c p
proof
  fix s s' :: "('a, 'b) bridge"
  show "tx_part s = p \<and> db_mode s \<noteq> ModeTx \<Longrightarrow> tx_part (latch_over c i s) = p \<and> db_mode (latch_over c i s) \<noteq> ModeTx" for i
    by simp (simp add: latch_over_def)
qed simp_all

lemma inbound_in_tx:
  assumes "db_mode s = ModeTx"
  shows "tx_part (rx_top c now s) = tx_part s \<and> db_mode (rx_top c now s) = ModeTx"
    "tx_part (rx_message c now s) = tx_part s \<and> db_mode (rx_message c now s) = ModeTx"
    "tx_part (rx_timeout c now s) = tx_part s \<and> db_mode (rx_timeout c now s) = ModeTx"
    "tx_part (rx_decoded c r now s) = tx_part s \<and> db_mode (rx_decoded c r now s) = ModeTx"
    "tx_part (watchdog c now s) = tx_part s \<and> db_mode (watchdog c now s) = ModeTx"
proof -
  have f: "tx_part (flush_and_end_rx c cause next now u) = tx_part u \<and> db_mode (flush_and_end_rx c cause next now u) = ModeTx"
    if "db_mode u = ModeTx" "next = ThenGet \<or> next = ThenLoop" for cause "next" u
    using that by (auto simp: flush_and_end_rx_def rx_continue_def)
  show "tx_part (rx_top c now s) = tx_part s \<and> db_mode (rx_top c now s) = ModeTx"
    using assms f by (simp add: rx_top_def)
  show "tx_part (rx_timeout c now s) = tx_part s \<and> db_mode (rx_timeout c now s) = ModeTx"
    using assms f by (simp add: rx_timeout_def)
  show "tx_part (rx_message c now s) = tx_part s \<and> db_mode (rx_message c now s) = ModeTx"
    using assms by (simp add: rx_message_def rx_header_def rx_data_def Let_def split: option.splits list.splits)
  show "tx_part (watchdog c now s) = tx_part s \<and> db_mode (watchdog c now s) = ModeTx"
    using assms by (simp add: watchdog_def)
  have e: "emit_all c now pcms u = u" if "db_mode u = ModeTx" for pcms u
    unfolding emit_all_def using that by (induction pcms) (simp_all add: emit_rx_pcm_def)
  define u where "u = play_ambe c r now s"
  have u: "tx_part u = tx_part s" "db_mode u = ModeTx"
    using assms e by (simp_all add: u_def play_ambe_def split: sum.splits)
  then have "tx_part (touch_session now u) = tx_part s" "db_mode (touch_session now u) = ModeTx"
    by (simp_all add: touch_session_def split: option.splits)
  with u assms f show "tx_part (rx_decoded c r now s) = tx_part s \<and> db_mode (rx_decoded c r now s) = ModeTx"
    by (auto simp: rx_decoded_def u_def [symmetric] Let_def split: rx_phase.splits)
qed

lemma inbound_keeps_tx:
  "tx_part (rx_top c now s) = tx_part s \<and> (db_mode (rx_top c now s) = ModeTx \<longleftrightarrow> db_mode s = ModeTx)"
  "tx_part (rx_message c now s) = tx_part s \<and> (db_mode (rx_message c now s) = ModeTx \<longleftrightarrow> db_mode s = ModeTx)"
  "tx_part (rx_timeout c now s) = tx_part s \<and> (db_mode (rx_timeout c now s) = ModeTx \<longleftrightarrow> db_mode s = ModeTx)"
  "tx_part (rx_decoded c r now s) = tx_part s \<and> (db_mode (rx_decoded c r now s) = ModeTx \<longleftrightarrow> db_mode s = ModeTx)"
  "tx_part (watchdog c now s) = tx_part s \<and> (db_mode (watchdog c now s) = ModeTx \<longleftrightarrow> db_mode s = ModeTx)"
  "db_mode s \<noteq> ModeTx \<Longrightarrow> tx_part (rx_flushed c r now s) = tx_part s \<and> db_mode (rx_flushed c r now s) \<noteq> ModeTx"
  using inbound_in_tx(1,2,3,5) [of s c now] inbound_in_tx(4) [of s c r now] away.top [of s "tx_part s" c now]
    away.message [of s "tx_part s" c now] away.timeout [of s "tx_part s" c now] away.decoded [of s "tx_part s" c]
    away.dog [of s "tx_part s" c now] away.flushed [of s "tx_part s" c]
  by (cases "db_mode s = ModeTx"; simp)+

lemma force_unkey_tx:
  "db_calls (force_unkey c now s) = db_calls s" "db_op_wait (force_unkey c now s) = db_op_wait s"
  "db_rf_wait (force_unkey c now s) = db_rf_wait s"
proof -
  have "tx_part (close_session c now (s\<lparr>db_rx_decode_stream := False\<rparr>)) = tx_part s"
    by simp (simp add: tx_part_def)
  then show "db_calls (force_unkey c now s) = db_calls s" "db_op_wait (force_unkey c now s) = db_op_wait s"
    "db_rf_wait (force_unkey c now s) = db_rf_wait s"
    by (simp_all add: force_unkey_def Let_def tx_part_def)
qed

lemma teardown_tx:
  "db_calls (teardown c now s) = db_calls s" "db_op_wait (teardown c now s) = db_op_wait s"
  "db_rf_wait (teardown c now s) \<Longrightarrow> db_rf_wait s"
proof -
  define u where "u = force_unkey c now s"
  define v where "v = (if db_rx_phase u \<noteq> Ended then end_rx c CutTeardown now u else u)"
  have "tx_part v = tx_part u" "db_mode v = ModeIdle" by (simp_all add: v_def u_def)
  then have v: "db_calls v = db_calls s" "db_op_wait v = db_op_wait s" "db_rf_wait v = db_rf_wait s"
    using force_unkey_tx [of c now s] by (simp_all add: tx_part_def u_def)
  have t: "teardown c now s = (if db_rf_pump v then v\<lparr>db_rf_pump := False, db_rf_wait := False\<rparr> else v)
      \<lparr>db_rx_phase := Ended, db_rx_queue := None, db_mode := ModeIdle, db_tx_source := None\<rparr>"
    using \<open>db_mode v = ModeIdle\<close> by (simp add: teardown_def u_def [symmetric] v_def [symmetric] pump_died_idle Let_def)
  from v show "db_calls (teardown c now s) = db_calls s" "db_op_wait (teardown c now s) = db_op_wait s"
    "db_rf_wait (teardown c now s) \<Longrightarrow> db_rf_wait s"
    unfolding t by (simp_all split: if_splits)
qed

lemma out_teardown: "out_inv s \<Longrightarrow> db_mode s \<noteq> ModeTx \<Longrightarrow> out_inv (teardown c now s)"
  using teardown_tx [of c now s] by (auto simp: out_inv_def out_abs_def)

lemma out_start: "out_inv s \<Longrightarrow> db_mode s \<noteq> ModeTx \<Longrightarrow> out_inv (snd (bridge_start c e1 e2 now s))"
proof -
  assume i: "out_inv s" "db_mode s \<noteq> ModeTx"
  have "out_inv (s\<lparr>db_running := True, db_rx_queue := q, db_rx_phase := ph, db_rf_pump := b, db_rf_wait := False\<rparr>)"
    "out_inv (s\<lparr>db_running := True, db_rx_phase := ph, db_rf_pump := b, db_rf_wait := False\<rparr>)" for q ph b
    using i by (simp_all add: out_inv_def out_abs_def)
  with i show ?thesis by (simp add: bridge_start_def out_teardown split: option.splits)
qed

lemma out_stop: "out_inv s \<Longrightarrow> db_mode s \<noteq> ModeTx \<Longrightarrow> out_inv (bridge_stop c now s)"
  by (simp add: bridge_stop_def out_teardown)

lemma out_event:
  assumes i: "out_inv s" and e: "ev_enabled ev s" and t: "timely c ev s"
    and h: "voice_header c (bc_ur_call c) = Inr hdr"
  shows "out_inv (ev_apply c ev s)"
proof (cases ev)
  case (EvInbound msg)
  with i show ?thesis by (auto intro: out_inv_tx_part)
next
  case (EvTop now)
  with i inbound_keeps_tx(1) [of c now s] show ?thesis by (auto intro: out_inv_tx_part)
next
  case (EvMessage now)
  with i inbound_keeps_tx(2) [of c now s] show ?thesis by (auto intro: out_inv_tx_part)
next
  case (EvRxTimeout now)
  with i inbound_keeps_tx(3) [of c now s] show ?thesis by (auto intro: out_inv_tx_part)
next
  case (EvDecoded r now)
  with i inbound_keeps_tx(4) [of c r now s] show ?thesis by (auto intro: out_inv_tx_part)
next
  case (EvFlushed r now)
  with t have "db_mode s \<noteq> ModeTx" by (simp add: timely_def)
  with EvFlushed i inbound_keeps_tx(6) [of s c r now] show ?thesis by (auto intro: out_inv_tx_part)
next
  case (EvWatchdog now)
  with i inbound_keeps_tx(5) [of c now s] show ?thesis by (auto intro: out_inv_tx_part)
next
  case (EvRfFrame pcm reason now)
  with i e t h show ?thesis by (auto simp: timely_def intro: out_rf_frame)
next
  case (EvRfTimeout now)
  with i e t show ?thesis by (auto simp: timely_def rf_timeout_def intro: out_reap)
next
  case (EvRfEncoded r now)
  with i e show ?thesis by (auto intro: out_rf_encoded)
next
  case (EvOpFrame pcm now)
  with i h show ?thesis by (auto intro: out_operator)
next
  case (EvOpEncoded r now)
  with i e out_waits(2) [OF i] have m: "db_mode s = ModeTx" "db_tx_source s = Some FromOp" by simp_all
  obtain r' s' where "encoded FromOp r now s = (r', s')" "out_inv s'" using out_encoded [OF i m] by metis
  with EvOpEncoded show ?thesis by simp
next
  case EvOpEnd
  have "out_inv (end_tx (Some FromOp) s)"
    using i e EvOpEnd out_waits(1) [OF i] by (intro out_end_tx) auto
  with EvOpEnd show ?thesis by (simp add: end_operator_over_def)
next
  case (EvCommand urcall)
  with i show ?thesis by (auto intro: out_command)
next
  case (EvStart e1 e2 now)
  with i t show ?thesis by (auto simp: timely_def intro: out_start)
next
  case (EvStop now)
  with i t show ?thesis by (auto simp: timely_def intro: out_stop)
next
  case (EvOther f g)
  with i show ?thesis by (simp add: out_inv_def out_abs_def)
qed

lemma reach_out:
  "bridge_reach c (timely c) s \<Longrightarrow> voice_header c (bc_ur_call c) = Inr hdr \<Longrightarrow> out_inv s"
proof (induction rule: bridge_reach.induct)
  case (reach_new arb slot ident rxg rfg)
  show ?case by (simp add: out_inv_def out_abs_def bridge_init_def)
next
  case (reach_step s ev)
  then show ?case by (auto intro: out_event)
qed

text \<open>The bridge's calls as operations of the UDP client.\<close>

fun gc_op_of :: "gw_call \<Rightarrow> gc_op" where
  "gc_op_of (GwHeader h sid) = GcHeader h sid"
| "gc_op_of (GwData dv sid n e) = GcData dv sid n e"

lemma udp_play: "fold (udp.play fault) calls g = gc_run fault (map gc_op_of calls) g"
proof -
  have "udp.play fault call g = gc_apply fault (gc_op_of call) g" for call g by (cases call) simp_all
  then show ?thesis by (induction calls arbitrary: g) (simp_all add: gc_run_def)
qed


subsection \<open>What a late encode, a late flush and a stop do to a stream\<close>

text \<open>An encode that outlasts the hang ends in the wrong stream. While the operator's frame is being
  encoded, the RF pump's silence reaps the operator's over and its next frame opens an over of its own;
  when the encoder answers, the operator's voice goes out under the RF over's session id, as that
  stream's first frame.
\<close>

theorem late_encode_crosses_streams:
  assumes "db_mode s = ModeTx" "db_tx_source s = Some FromOp" "db_op_wait s" "db_rf_pump s" "\<not> db_rf_wait s"
    and "bc_tx_hang c \<le> now - db_last_tx_feed s" "bc_rf_gate c = None"
    and "voice_header c (bc_ur_call c) = Inr h" "length ambe = VOICE_FRAME_LEN"
  shows "let s' = ev_run c [EvRfTimeout now, EvRfFrame pcm None now, EvOpEncoded (Inr ambe) now] s;
      sid = (db_session_counter s + 1) mod 65535 + 1
    in db_tx_source s' = Some FromRf \<and> db_tx_session_id s' = sid \<and>
      db_calls s' = db_calls s @
        [GwData (NULL_AMBE @ slow_data_for_seq (db_tx_seq s)) (db_tx_session_id s) (db_tx_seq s) True,
         GwHeader h sid, GwData (ambe @ DATA_SYNC) sid 0 False]"
proof -
  let ?fin = "GwData (NULL_AMBE @ slow_data_for_seq (db_tx_seq s)) (db_tx_session_id s) (db_tx_seq s) True"
  let ?sid = "(db_session_counter s + 1) mod 65535 + 1"
  define s1 where "s1 = (gw_do ?fin s)\<lparr>db_tx_pcm := [], db_mode := ModeIdle, db_tx_source := None\<rparr>"
  have 1: "ev_apply c (EvRfTimeout now) s = s1"
    using assms(1,2,6) by (simp add: rf_timeout_def reap_stale_tx_def end_tx_def s1_def)
  define s2 where "s2 = snd (open_tx c FromRf now (s1\<lparr>db_deafened_reason := None\<rparr>))"
  have o: "open_tx c FromRf now (s1\<lparr>db_deafened_reason := None\<rparr>) = (Inr (), s2)"
    using assms(8) by (simp add: open_tx_def alloc_session_id_def Let_def s2_def)
  have "tx_part s2 = tx_part (gw_do (GwHeader h ?sid)
      (s1\<lparr>db_deafened_reason := None, db_mode := ModeTx, db_tx_source := Some FromRf, db_tx_overs := db_tx_overs s1 + 1,
        db_session_counter := ?sid - 1, db_tx_session_id := ?sid, db_tx_seq := 0, db_tx_pcm := [], db_last_tx_feed := now\<rparr>))"
    using assms(8) by (simp add: s2_def open_tx_def alloc_session_id_def Let_def s1_def gw_do_def)
  then have s2: "db_tx_source s2 = Some FromRf" "db_tx_session_id s2 = ?sid" "db_tx_seq s2 = 0"
    "db_calls s2 = db_calls s @ [?fin, GwHeader h ?sid]"
    by (simp_all add: tx_part_def s1_def)
  define s3 where "s3 = feed_rf c FromRf pcm s2"
  have "rf_frame c pcm None now s1 = s3"
    using assms(7) o by (simp add: rf_frame_def deafened_def s3_def) (simp add: s1_def)
  then have 2: "ev_apply c (EvRfFrame pcm None now) s1 = s3" by simp
  have s3: "db_tx_source s3 = Some FromRf" "db_tx_session_id s3 = ?sid" "db_tx_seq s3 = 0" "db_calls s3 = db_calls s2"
    using s2 by (simp_all add: s3_def feed_rf_def feed_next_def set_wait_def)
  have "build_dv_frame ambe (slow_data_for_seq 0) = Inr (ambe @ DATA_SYNC)"
    using assms(9) slow_data_length [of 0] by (simp add: build_dv_frame_def slow_data_for_seq_def)
  then have 3: "snd (encoded FromOp (Inr ambe) now s3) = feed_next FromOp
      ((gw_do (GwData (ambe @ DATA_SYNC) ?sid 0 False) s3)
        \<lparr>db_tx_frames := db_tx_frames s3 + 1, db_tx_seq := next_seq 0, db_last_tx_feed := now\<rparr>)"
    using s3 by (simp add: encoded_def gw_do_def Let_def)
  have fn: "db_tx_source (feed_next FromOp u) = db_tx_source u" "db_tx_session_id (feed_next FromOp u) = db_tx_session_id u"
    "db_calls (feed_next FromOp u) = db_calls u" for u by (simp_all add: feed_next_def set_wait_def)
  show ?thesis
    by (simp only: ev_run.simps 1 2 Let_def ev_apply.simps(12) 3 fn) (simp add: s3 s2)
qed

text \<open>A flush that outlasts the watchdog takes the latch from an open outbound over. The watchdog has
  ended the inbound over, so the bridge is idle and the operator may open an over; when the flush
  returns, \<open>_reflector_to_rf\<close> latches the new inbound stream without looking. Then the bridge is in RX
  with the operator's stream still open on the reflector, and ending the operator's over sends nothing.
\<close>

theorem late_flush_steals_latch:
  assumes "db_rx_phase s = AtFlush cause (ThenLatch msg)" "db_mode s = ModeIdle" "db_running s"
    and "voice_header c (bc_ur_call c) = Inr h"
  shows "let s' = ev_run c [EvOpFrame pcm now, EvFlushed r later] s;
      sid = (db_session_counter s + 1) mod 65535 + 1
    in db_mode s' = ModeRx \<and> db_tx_source s' = Some FromOp \<and> db_calls s' = db_calls s @ [GwHeader h sid] \<and>
      end_operator_over s' = s'"
proof -
  let ?sid = "(db_session_counter s + 1) mod 65535 + 1"
  define s1 where "s1 = snd (open_tx c FromOp now s)"
  have o: "open_tx c FromOp now s = (Inr (), s1)"
    using assms(4) by (simp add: open_tx_def alloc_session_id_def Let_def s1_def)
  have "tx_part s1 = tx_part (gw_do (GwHeader h ?sid)
      (s\<lparr>db_mode := ModeTx, db_tx_source := Some FromOp, db_tx_overs := db_tx_overs s + 1,
        db_session_counter := ?sid - 1, db_tx_session_id := ?sid, db_tx_seq := 0, db_tx_pcm := [], db_last_tx_feed := now\<rparr>))"
    and m1: "db_mode s1 = ModeTx" "db_rx_phase s1 = db_rx_phase s"
    using assms(4) by (simp_all add: s1_def open_tx_def alloc_session_id_def Let_def) (simp add: gw_do_def)
  then have s1: "db_tx_source s1 = Some FromOp" "db_calls s1 = db_calls s @ [GwHeader h ?sid]"
    by (simp_all add: tx_part_def)
  define s2 where "s2 = feed_rf c FromOp pcm s1"
  have 1: "ev_apply c (EvOpFrame pcm now) s = s2"
    using assms(2,3) o by (simp add: send_operator_audio_def s2_def)
  have s2: "db_tx_source s2 = Some FromOp" "db_calls s2 = db_calls s1" "db_mode s2 = ModeTx"
    "db_rx_phase s2 = AtFlush cause (ThenLatch msg)"
    using s1 m1 assms(1) by (simp_all add: s2_def feed_rf_def feed_next_def set_wait_def)
  have e: "emit_all c later pcms s2 = s2" for pcms
    unfolding emit_all_def using s2(3) by (induction pcms) (simp_all add: emit_rx_pcm_def)
  define s3 where "s3 = rx_flushed c r later s2"
  have s3: "s3 = (report_activity c (Some (dm_radio_header msg)) False
      (latch_over c (dm_session_id msg) (end_rx c cause later s2)))\<lparr>db_rx_phase := AtTop\<rparr>"
    using s2(4) e by (simp add: s3_def rx_flushed_def rx_continue_def)
  then have "tx_part s3 = tx_part s2" by simp
  with s2 s1 have "db_tx_source s3 = Some FromOp" "db_calls s3 = db_calls s @ [GwHeader h ?sid]"
    by (simp_all add: tx_part_def)
  moreover have "db_mode s3 = ModeRx" using s3 by simp (simp add: latch_over_def)
  ultimately show ?thesis
    using 1 by (simp add: Let_def s3_def [symmetric] end_operator_over_def end_tx_def)
qed

text \<open>Stopping the bridge in the middle of an outbound over leaves the stream open on the reflector:
  the teardown clears the latch before the pump's \<open>finally\<close> runs, so the end frame that clause would
  send is not sent.
\<close>

theorem stop_sends_no_end_frame:
  "db_calls (bridge_stop c now s) = db_calls s"
  using teardown_tx(1) [of c now "s\<lparr>db_running := False\<rparr>"] by (simp add: bridge_stop_def)

subsection \<open>The examples\<close>

lemma demo_voice_header: "\<exists>h. voice_header demo_config (bc_ur_call demo_config) = Inr h"
proof -
  have "\<exists>b. format_callsign [65, 69, 57, 83] m = Inr b" if "m = [] \<or> m = [65] \<or> m = [71]" for m
    using that by (auto simp: format_callsign_def Let_def upper_def)
  then obtain a b d where "format_callsign [65, 69, 57, 83] [65] = Inr a" "format_callsign [65, 69, 57, 83] [71] = Inr b"
    "format_callsign [65, 69, 57, 83] [] = Inr d" by metis
  then show ?thesis by (simp add: voice_header_def build_voice_header_def demo_config_def)
qed

lemma demo_config_simps:
  "bc_tx_hang demo_config = 1" "bc_rx_to_reflector demo_config" "bc_tx_to_rf demo_config" "bc_on_activity demo_config = False"
  "bc_resample_8k demo_config = (\<lambda>x. x)" "bc_rf_gate demo_config = None"
  by (simp_all add: demo_config_def)

definition demo_talking :: "bridge_event list" where
  "demo_talking = [EvStart None None 0, EvOpFrame (replicate 320 0) 0]"

lemmas demo_talking_simps = demo_talking_def demo_new_def bridge_init_def bridge_start_def send_operator_audio_def
  open_tx_def alloc_session_id_def gw_do_def report_activity_def feed_rf_def feed_next_def set_wait_def
  PCM_BYTES_PER_FRAME_def demo_config_simps timely_def


theorem late_encode_crosses_streams_witness:
  "db_tx_source (ev_run demo_config [EvRfTimeout 5, EvRfFrame [] None 5, EvOpEncoded (Inr NULL_AMBE) 5]
     (ev_run demo_config demo_talking demo_new)) = Some FromRf"
proof -
  let ?s = "ev_run demo_config demo_talking demo_new"
  obtain h where h: "voice_header demo_config (bc_ur_call demo_config) = Inr h" using demo_voice_header by blast
  have s: "db_mode ?s = ModeTx" "db_tx_source ?s = Some FromOp" "db_op_wait ?s" "db_rf_pump ?s" "\<not> db_rf_wait ?s"
    "bc_tx_hang demo_config \<le> 5 - db_last_tx_feed ?s" using h by (simp_all add: demo_talking_simps)
  have "bc_rf_gate demo_config = None" "length NULL_AMBE = VOICE_FRAME_LEN" by (simp_all add: demo_config_def)
  from late_encode_crosses_streams [OF s this(1) h this(2), of "[]"] show ?thesis unfolding Let_def by blast
qed

theorem late_flush_steals_latch_witness:
  "\<exists>s. bridge_reach demo_config considerate s \<and> db_mode s = ModeIdle \<and>
     db_mode (ev_run demo_config [EvOpFrame [] 5, EvFlushed (Inr []) 6] s) = ModeRx \<and>
     db_tx_source (ev_run demo_config [EvOpFrame [] 5, EvFlushed (Inr []) 6] s) = Some FromOp"
proof -
  let ?evs = "demo_keyed @ [EvInbound (demo_header 8), EvTop 0, EvMessage 0, EvWatchdog 5]"
  let ?s = "ev_run demo_config ?evs demo_new"
  obtain h where h: "voice_header demo_config (bc_ur_call demo_config) = Inr h" using demo_voice_header by blast
  have "legal demo_config considerate ?evs demo_new" by code_simp
  then have r: "bridge_reach demo_config considerate ?s" by (rule legal_reach [OF demo_new_reach])
  have s: "db_rx_phase ?s = AtFlush CutNewStream (ThenLatch (demo_header 8))" "db_mode ?s = ModeIdle" "db_running ?s"
    by code_simp+
  from late_flush_steals_latch [OF s h, of "[]" 5 "Inr []" 6] r s(2) show ?thesis unfolding Let_def by blast
qed

end
