(* ===== verification/Hubs.thy ===== *)
theory Hubs
  imports BoundedQueue "HOL-Library.Sublist"
begin

section \<open>The event hub, the audio hub and the DTMF mute\<close>

text \<open>
  \<open>radio_server/api/events.py\<close> (\<open>EventHub\<close>), \<open>radio_server/rx/hub.py\<close> (\<open>AudioHub\<close>) and
  \<open>radio_server/link/mute.py\<close> (\<open>DtmfMuteGate\<close>). A queue object is a number; the heap of queues is a
  function from it, since a subscriber keeps reading its queue after the hub forgot it. The set of
  subscribers of the audio hub is a list without repetitions: \<open>publish\<close> does not depend on its order.
  An event is its type and its JSON payload.
\<close>

text \<open>\<open>asyncio.Queue(maxsize)\<close>: a maximum of zero or less means no bound.\<close>

definition q_full :: "int \<Rightarrow> 'x list \<Rightarrow> bool" where
  "q_full maxsize q \<longleftrightarrow> 0 < maxsize \<and> maxsize \<le> int (length q)"

subsection \<open>Events\<close>

datatype json = JNull | JBool bool | JInt int | JStr string | JList "json list" | JObj "(string \<times> json) list"

datatype hub_event = Event (ev_type: string) (ev_data: "(string \<times> json) list")

definition as_json :: "hub_event \<Rightarrow> json" where
  "as_json e = JObj [(''type'', JStr (ev_type e)), (''data'', JObj (ev_data e))]"

definition overflow_event :: "nat \<Rightarrow> int \<Rightarrow> hub_event" where
  "overflow_event missed maxsize =
     Event ''overflow'' [(''missed'', JInt (int missed)), (''queue_maxsize'', JInt maxsize)]"

datatype overflow_policy = DROP_OLDEST | DROP_SUBSCRIBER

definition DEFAULT_EVENT_QUEUE_MAXSIZE :: int where "DEFAULT_EVENT_QUEUE_MAXSIZE = 160"

record event_hub =
  eh_maxsize :: int
  eh_subscribers :: "(nat \<times> overflow_policy) list"
  eh_queue :: "nat \<Rightarrow> hub_event list"
  eh_next :: nat
  eh_published :: nat
  eh_deepest :: nat
  eh_dropped_subscribers :: nat
  eh_dropped_deliveries :: nat

definition event_hub_init :: "int \<Rightarrow> event_hub" where
  "event_hub_init maxsize = \<lparr>eh_maxsize = maxsize, eh_subscribers = [], eh_queue = (\<lambda>_. []), eh_next = 0,
     eh_published = 0, eh_deepest = 0, eh_dropped_subscribers = 0, eh_dropped_deliveries = 0\<rparr>"

definition eh_subscribe :: "overflow_policy \<Rightarrow> event_hub \<Rightarrow> nat \<times> event_hub" where
  "eh_subscribe on_overflow h =
     (eh_next h, h\<lparr>eh_subscribers := eh_subscribers h @ [(eh_next h, on_overflow)],
        eh_queue := (eh_queue h)(eh_next h := []), eh_next := eh_next h + 1\<rparr>)"

definition eh_unsubscribe :: "nat \<Rightarrow> event_hub \<Rightarrow> event_hub" where
  "eh_unsubscribe i h = h\<lparr>eh_subscribers := filter (\<lambda>(j, _). j \<noteq> i) (eh_subscribers h)\<rparr>"

definition eh_overflow :: "nat \<Rightarrow> overflow_policy \<Rightarrow> hub_event \<Rightarrow> event_hub \<Rightarrow> event_hub" where
  "eh_overflow i policy event h =
     (if policy \<noteq> DROP_SUBSCRIBER
      then h\<lparr>eh_queue := (eh_queue h)(i := tl (eh_queue h i) @ [event]),
             eh_dropped_deliveries := eh_dropped_deliveries h + 1\<rparr>
      else let missed = length (eh_queue h i) + 1
           in (eh_unsubscribe i h)
                \<lparr>eh_queue := (eh_queue h)(i := [overflow_event missed (eh_maxsize h)]),
                 eh_dropped_subscribers := eh_dropped_subscribers h + 1,
                 eh_dropped_deliveries := eh_dropped_deliveries h + missed\<rparr>)"

definition eh_deliver :: "hub_event \<Rightarrow> nat \<times> overflow_policy \<Rightarrow> event_hub \<Rightarrow> event_hub" where
  "eh_deliver event sub h =
     (let (i, policy) = sub;
          h = (if q_full (eh_maxsize h) (eh_queue h i) then eh_overflow i policy event h
               else h\<lparr>eh_queue := (eh_queue h)(i := eh_queue h i @ [event])\<rparr>)
      in h\<lparr>eh_deepest := max (eh_deepest h) (length (eh_queue h i))\<rparr>)"

definition eh_publish :: "hub_event \<Rightarrow> event_hub \<Rightarrow> event_hub" where
  "eh_publish event h = fold (eh_deliver event) (eh_subscribers h) (h\<lparr>eh_published := eh_published h + 1\<rparr>)"

text \<open>A subscriber reads one event off its queue.\<close>

definition eh_get :: "nat \<Rightarrow> event_hub \<Rightarrow> hub_event option \<times> event_hub" where
  "eh_get i h = (case eh_queue h i of [] \<Rightarrow> (None, h) | e # q \<Rightarrow> (Some e, h\<lparr>eh_queue := (eh_queue h)(i := q)\<rparr>))"

definition eh_stats :: "event_hub \<Rightarrow> (string \<times> int) list" where
  "eh_stats h = [(''published'', int (eh_published h)), (''subscribers'', int (length (eh_subscribers h))),
     (''queue_maxsize'', eh_maxsize h), (''deepest_queue'', int (eh_deepest h)),
     (''dropped_subscribers'', int (eh_dropped_subscribers h)),
     (''dropped_deliveries'', int (eh_dropped_deliveries h))]"

subsection \<open>The audio hub\<close>

definition DEFAULT_AUDIO_QUEUE_MAXSIZE :: int where "DEFAULT_AUDIO_QUEUE_MAXSIZE = 64"

record audio_hub =
  ah_maxsize :: int
  ah_subscribers :: "nat list"
  ah_queue :: "nat \<Rightarrow> bytes list"
  ah_next :: nat

definition audio_hub_init :: "int \<Rightarrow> audio_hub" where
  "audio_hub_init maxsize = \<lparr>ah_maxsize = maxsize, ah_subscribers = [], ah_queue = (\<lambda>_. []), ah_next = 0\<rparr>"

definition ah_subscribe :: "audio_hub \<Rightarrow> nat \<times> audio_hub" where
  "ah_subscribe h = (ah_next h, h\<lparr>ah_subscribers := ah_subscribers h @ [ah_next h],
     ah_queue := (ah_queue h)(ah_next h := []), ah_next := ah_next h + 1\<rparr>)"

definition ah_unsubscribe :: "nat \<Rightarrow> audio_hub \<Rightarrow> audio_hub" where
  "ah_unsubscribe i h = h\<lparr>ah_subscribers := filter (\<lambda>j. j \<noteq> i) (ah_subscribers h)\<rparr>"

definition ah_deliver :: "bytes \<Rightarrow> nat \<Rightarrow> audio_hub \<Rightarrow> audio_hub" where
  "ah_deliver frame i h =
     h\<lparr>ah_queue := (ah_queue h)(i :=
         (if q_full (ah_maxsize h) (ah_queue h i) then tl (ah_queue h i) @ [frame] else ah_queue h i @ [frame]))\<rparr>"

definition ah_publish :: "bytes \<Rightarrow> audio_hub \<Rightarrow> audio_hub" where
  "ah_publish frame h = fold (ah_deliver frame) (ah_subscribers h) h"

subsection \<open>The DTMF mute\<close>

record mute_gate =
  mg_hold :: secs
  mg_until :: "secs option"

definition mute_init :: "secs \<Rightarrow> mute_gate" where
  "mute_init hold = \<lparr>mg_hold = hold, mg_until = None\<rparr>"

definition mute_for :: "secs \<Rightarrow> secs \<Rightarrow> mute_gate \<Rightarrow> mute_gate" where
  "mute_for now hold g =
     (let until = now + hold
      in case mg_until g of
           None \<Rightarrow> g\<lparr>mg_until := Some until\<rparr>
         | Some u \<Rightarrow> if u < until then g\<lparr>mg_until := Some until\<rparr> else g)"

definition note_tone :: "secs \<Rightarrow> mute_gate \<Rightarrow> mute_gate" where
  "note_tone now g = mute_for now (mg_hold g) g"

definition note_digit :: "secs \<Rightarrow> mute_gate \<Rightarrow> mute_gate" where
  "note_digit now g = mute_for now (mg_hold g) g"

definition muted :: "secs \<Rightarrow> mute_gate \<Rightarrow> bool" where
  "muted now g = (case mg_until g of None \<Rightarrow> False | Some u \<Rightarrow> now < u)"

text \<open>
  The gate against its specification: it is muted exactly when some arming so far, by a tone or by a
  digit, still covers the moment; no arming shortens another.
\<close>

lemma mute_step: "muted t (mute_for now hold g) \<longleftrightarrow> muted t g \<or> t < now + hold"
  by (auto simp: muted_def mute_for_def Let_def split: option.splits)

theorem mute_gate_spec:
  "muted t (fold (\<lambda>(now, hold). mute_for now hold) arms (mute_init hold0)) \<longleftrightarrow>
     (\<exists>(now, hold) \<in> set arms. t < now + hold)"
proof (induction arms rule: rev_induct)
  case Nil
  show ?case by (simp add: muted_def mute_init_def)
next
  case (snoc a arms)
  then show ?case by (cases a) (auto simp: mute_step)
qed

subsection \<open>What one publication does\<close>

definition newq :: "int \<Rightarrow> hub_event \<Rightarrow> overflow_policy \<Rightarrow> hub_event list \<Rightarrow> hub_event list" where
  "newq m e p q =
     (if \<not> q_full m q then q @ [e] else if p = DROP_OLDEST then tl q @ [e] else [overflow_event (length q + 1) m])"

definition cut_off :: "int \<Rightarrow> overflow_policy \<Rightarrow> hub_event list \<Rightarrow> bool" where
  "cut_off m p q \<longleftrightarrow> p = DROP_SUBSCRIBER \<and> q_full m q"

lemma deliver_effect:
  "eh_queue (eh_deliver e (i, p) h) = (eh_queue h)(i := newq (eh_maxsize h) e p (eh_queue h i))"
  "eh_maxsize (eh_deliver e (i, p) h) = eh_maxsize h" "eh_next (eh_deliver e (i, p) h) = eh_next h"
  "eh_subscribers (eh_deliver e (i, p) h) =
     filter (\<lambda>(j, _). \<not> (j = i \<and> cut_off (eh_maxsize h) p (eh_queue h i))) (eh_subscribers h)"
  by (cases p; simp add: eh_deliver_def eh_overflow_def eh_unsubscribe_def newq_def cut_off_def Let_def case_prod_unfold)+

lemma deliver_all_effect:
  "distinct (map fst xs) \<Longrightarrow>
     eh_queue (fold (eh_deliver e) xs h) i =
       (case map_of xs i of None \<Rightarrow> eh_queue h i | Some p \<Rightarrow> newq (eh_maxsize h) e p (eh_queue h i)) \<and>
     eh_maxsize (fold (eh_deliver e) xs h) = eh_maxsize h \<and> eh_next (fold (eh_deliver e) xs h) = eh_next h \<and>
     eh_subscribers (fold (eh_deliver e) xs h) =
       filter (\<lambda>(j, _). \<forall>p. map_of xs j = Some p \<longrightarrow> \<not> cut_off (eh_maxsize h) p (eh_queue h j)) (eh_subscribers h)"
proof (induction xs arbitrary: h)
  case (Cons x xs)
  obtain k p where x: "x = (k, p)" by fastforce
  from Cons.prems x have d: "distinct (map fst xs)" "map_of xs k = None" by (auto simp: map_of_eq_None_iff)
  note ih = Cons.IH [OF d(1), of "eh_deliver e (k, p) h"]
  from ih d(2) show ?case
    by (auto simp: x deliver_effect split: option.splits if_splits intro!: filter_cong)
qed (simp add: case_prod_unfold)

lemma publish_effect:
  assumes "distinct (map fst (eh_subscribers h))"
  shows "eh_queue (eh_publish e h) i = (case map_of (eh_subscribers h) i of None \<Rightarrow> eh_queue h i
      | Some p \<Rightarrow> newq (eh_maxsize h) e p (eh_queue h i))"
    and "eh_maxsize (eh_publish e h) = eh_maxsize h" "eh_next (eh_publish e h) = eh_next h"
    and "eh_subscribers (eh_publish e h) =
      filter (\<lambda>(j, p). \<not> cut_off (eh_maxsize h) p (eh_queue h j)) (eh_subscribers h)"
proof -
  note all = deliver_all_effect [OF assms, of e "h\<lparr>eh_published := eh_published h + 1\<rparr>"]
  from all show "eh_queue (eh_publish e h) i = (case map_of (eh_subscribers h) i of None \<Rightarrow> eh_queue h i
      | Some p \<Rightarrow> newq (eh_maxsize h) e p (eh_queue h i))"
    and "eh_maxsize (eh_publish e h) = eh_maxsize h" "eh_next (eh_publish e h) = eh_next h"
    by (simp_all add: eh_publish_def split: option.splits)
  have "map_of (eh_subscribers h) j = Some p" if "(j, p) \<in> set (eh_subscribers h)" for j p
    using that assms by (simp add: map_of_is_SomeI)
  then have "filter (\<lambda>(j, _). \<forall>p. map_of (eh_subscribers h) j = Some p \<longrightarrow> \<not> cut_off (eh_maxsize h) p (eh_queue h j))
      (eh_subscribers h) = filter (\<lambda>(j, p). \<not> cut_off (eh_maxsize h) p (eh_queue h j)) (eh_subscribers h)"
    by (intro filter_cong) auto
  with all show "eh_subscribers (eh_publish e h) =
      filter (\<lambda>(j, p). \<not> cut_off (eh_maxsize h) p (eh_queue h j)) (eh_subscribers h)"
    by (simp add: eh_publish_def)
qed

subsection \<open>The hub and its subscribers\<close>

text \<open>
  The hub with what each subscriber has seen: the events published while it was subscribed, what it
  has read so far, and the policy it asked for.
\<close>

record hub_world =
  hw_hub :: event_hub
  hw_stream :: "nat \<Rightarrow> hub_event list"
  hw_read :: "nat \<Rightarrow> hub_event list"
  hw_policy :: "nat \<Rightarrow> overflow_policy"

datatype hub_op = HubSubscribe overflow_policy | HubUnsubscribe nat | HubPublish hub_event | HubGet nat

definition subscribed :: "nat \<Rightarrow> event_hub \<Rightarrow> bool" where
  "subscribed i h \<longleftrightarrow> i \<in> fst ` set (eh_subscribers h)"

fun hub_step :: "hub_op \<Rightarrow> hub_world \<Rightarrow> hub_world" where
  "hub_step (HubSubscribe p) w =
     (let (i, h) = eh_subscribe p (hw_hub w)
      in w\<lparr>hw_hub := h, hw_stream := (hw_stream w)(i := []), hw_read := (hw_read w)(i := []),
           hw_policy := (hw_policy w)(i := p)\<rparr>)"
| "hub_step (HubUnsubscribe i) w = w\<lparr>hw_hub := eh_unsubscribe i (hw_hub w)\<rparr>"
| "hub_step (HubPublish e) w =
     w\<lparr>hw_hub := eh_publish e (hw_hub w),
       hw_stream := (\<lambda>i. if subscribed i (hw_hub w) then hw_stream w i @ [e] else hw_stream w i)\<rparr>"
| "hub_step (HubGet i) w =
     (case eh_get i (hw_hub w) of
        (None, h) \<Rightarrow> w
      | (Some e, h) \<Rightarrow> w\<lparr>hw_hub := h, hw_read := (hw_read w)(i := hw_read w i @ [e])\<rparr>)"

definition hub_world_init :: "int \<Rightarrow> hub_world" where
  "hub_world_init m = \<lparr>hw_hub = event_hub_init m, hw_stream = (\<lambda>_. []), hw_read = (\<lambda>_. []),
     hw_policy = (\<lambda>_. DROP_OLDEST)\<rparr>"

definition hub_run :: "hub_op list \<Rightarrow> hub_world \<Rightarrow> hub_world" where
  "hub_run ops w = fold hub_step ops w"

text \<open>
  The specification of a subscriber. \<open>DROP_OLDEST\<close>: it has read, and has waiting, a subsequence of the
  stream, and what waits is the end of it. \<open>DROP_SUBSCRIBER\<close>: it gets the stream without a gap; if it
  fell behind, the stream up to some point and then one notice with the exact number of events it
  will never get.
\<close>

definition oldest_ok :: "int \<Rightarrow> hub_event list \<Rightarrow> hub_event list \<Rightarrow> hub_event list \<Rightarrow> bool" where
  "oldest_ok m stream got queue \<longleftrightarrow>
     subseq (got @ queue) stream \<and> suffix queue stream \<and> (0 < m \<longrightarrow> int (length queue) \<le> m)"

definition gapless :: "hub_event list \<Rightarrow> hub_event list \<Rightarrow> hub_event list \<Rightarrow> bool" where
  "gapless stream got queue \<longleftrightarrow> got @ queue = stream"

definition noticed :: "int \<Rightarrow> hub_event list \<Rightarrow> hub_event list \<Rightarrow> hub_event list \<Rightarrow> bool" where
  "noticed m stream got queue \<longleftrightarrow>
     (\<exists>n < length stream. got @ queue = take n stream @ [overflow_event (length stream - n) m])"

definition sub_ok :: "int \<Rightarrow> hub_world \<Rightarrow> nat \<Rightarrow> bool" where
  "sub_ok m w i \<longleftrightarrow>
     (let st = hw_stream w i; got = hw_read w i; q = eh_queue (hw_hub w) i in
      if hw_policy w i = DROP_OLDEST then oldest_ok m st got q
      else gapless st got q \<or> \<not> subscribed i (hw_hub w) \<and> noticed m st got q)"

definition hub_inv :: "int \<Rightarrow> hub_world \<Rightarrow> bool" where
  "hub_inv m w \<longleftrightarrow>
     eh_maxsize (hw_hub w) = m \<and> distinct (map fst (eh_subscribers (hw_hub w))) \<and>
     (\<forall>(i, p) \<in> set (eh_subscribers (hw_hub w)). i < eh_next (hw_hub w) \<and> p = hw_policy w i) \<and>
     (\<forall>i < eh_next (hw_hub w). sub_ok m w i)"

lemma oldest_put:
  assumes "oldest_ok m st got q"
  shows "oldest_ok m (st @ [e]) got (newq m e DROP_OLDEST q)"
proof (cases "q_full m q")
  case True
  then obtain x xs where q: "q = x # xs" by (cases q) (auto simp: q_full_def)
  with assms have s: "subseq (got @ x # xs) st" "suffix (x # xs) st" "0 < m \<longrightarrow> int (length q) \<le> m"
    by (simp_all add: oldest_ok_def)
  have "subseq (got @ xs) (got @ x # xs)" by (intro list_emb_append_mono) auto
  with s(1) have "subseq (got @ xs) st" by (rule subseq_order.trans [rotated])
  then have "subseq ((got @ xs) @ [e]) (st @ [e])" by (rule list_emb_append_mono) simp
  moreover from s(2) have "suffix xs st" by (rule suffix_ConsD)
  ultimately show ?thesis using s(3) True q by (auto simp: oldest_ok_def newq_def q_full_def suffix_def)
next
  case False
  with assms have s: "subseq (got @ q) st" "suffix q st" by (simp_all add: oldest_ok_def)
  from s(1) have "subseq ((got @ q) @ [e]) (st @ [e])" by (rule list_emb_append_mono) simp
  with s False show ?thesis by (auto simp: oldest_ok_def newq_def q_full_def suffix_def)
qed

lemma gapless_put:
  assumes "gapless st got q"
  shows "if cut_off m DROP_SUBSCRIBER q then noticed m (st @ [e]) got (newq m e DROP_SUBSCRIBER q)
    else gapless (st @ [e]) got (newq m e DROP_SUBSCRIBER q)"
proof (cases "q_full m q")
  case True
  from assms have st: "st = got @ q" by (simp add: gapless_def)
  have "noticed m (st @ [e]) got [overflow_event (length q + 1) m]"
    unfolding noticed_def st by (rule exI [of _ "length got"]) simp
  with True show ?thesis by (simp add: cut_off_def newq_def)
qed (use assms in \<open>simp add: cut_off_def newq_def gapless_def\<close>)

lemma oldest_get: "oldest_ok m st got (e # q) \<Longrightarrow> oldest_ok m st (got @ [e]) q"
  by (auto simp: oldest_ok_def dest: suffix_ConsD)

lemma subscribed_policy:
  "hub_inv m w \<Longrightarrow> subscribed i (hw_hub w) \<Longrightarrow> i < eh_next (hw_hub w) \<and> (i, hw_policy w i) \<in> set (eh_subscribers (hw_hub w))"
  by (auto simp: hub_inv_def subscribed_def)

lemma hub_inv_policy:
  assumes "hub_inv m w" "i < eh_next (hw_hub w)"
  shows "hw_policy w i = DROP_OLDEST \<Longrightarrow> oldest_ok m (hw_stream w i) (hw_read w i) (eh_queue (hw_hub w) i)"
    and "hw_policy w i = DROP_SUBSCRIBER \<Longrightarrow> gapless (hw_stream w i) (hw_read w i) (eh_queue (hw_hub w) i) \<or>
      \<not> subscribed i (hw_hub w) \<and> noticed m (hw_stream w i) (hw_read w i) (eh_queue (hw_hub w) i)"
  using assms by (auto simp: hub_inv_def sub_ok_def Let_def)

lemma hub_publish_inv:
  assumes inv: "hub_inv m w"
  shows "hub_inv m (hub_step (HubPublish e) w)"
proof -
  let ?h = "hw_hub w" and ?h' = "eh_publish e (hw_hub w)" and ?w = "hub_step (HubPublish e) w"
  from inv have d: "distinct (map fst (eh_subscribers ?h))" and m: "eh_maxsize ?h = m" by (simp_all add: hub_inv_def)
  note eff = publish_effect [OF d, of e, unfolded m]
  have sub': "subscribed i ?h' \<longleftrightarrow> (\<exists>p. (i, p) \<in> set (eh_subscribers ?h) \<and> \<not> cut_off m p (eh_queue ?h i))" for i
    unfolding subscribed_def eff(4) by force
  have "sub_ok m ?w i" if i: "i < eh_next ?h" for i
  proof (cases "subscribed i ?h")
    case False
    then have "map_of (eh_subscribers ?h) i = None" by (simp add: subscribed_def map_of_eq_None_iff)
    moreover have "\<not> subscribed i ?h'" using False unfolding sub' by (force simp: subscribed_def)
    ultimately show ?thesis
      using hub_inv_policy [OF inv i] False eff(1) [of i] by (cases "hw_policy w i") (simp_all add: sub_ok_def Let_def)
  next
    case True
    from subscribed_policy [OF inv this] have p: "(i, hw_policy w i) \<in> set (eh_subscribers ?h)" by simp
    with d have "map_of (eh_subscribers ?h) i = Some (hw_policy w i)" by (rule map_of_is_SomeI)
    with eff(1) [of i] have q: "eh_queue ?h' i = newq m e (hw_policy w i) (eh_queue ?h i)" by simp
    have un: "cut_off m (hw_policy w i) (eh_queue ?h i) \<Longrightarrow> \<not> subscribed i ?h'"
      using p d unfolding sub' by (auto dest: eq_key_imp_eq_value)
    show ?thesis
    proof (cases "hw_policy w i")
      case DROP_OLDEST
      with oldest_put [OF hub_inv_policy(1) [OF inv i DROP_OLDEST], of e] q True show ?thesis by (simp add: sub_ok_def Let_def)
    next
      case DROP_SUBSCRIBER
      with hub_inv_policy(2) [OF inv i] True have "gapless (hw_stream w i) (hw_read w i) (eh_queue ?h i)" by simp
      from gapless_put [OF this, of m e] un DROP_SUBSCRIBER q True show ?thesis
        by (simp add: sub_ok_def Let_def split: if_splits)
    qed
  qed
  moreover have "distinct (map fst (eh_subscribers ?h'))"
    using d unfolding eff(4) by (simp add: distinct_map_filter)
  moreover have "\<forall>(i, p) \<in> set (eh_subscribers ?h'). i < eh_next ?h' \<and> p = hw_policy w i"
    using inv unfolding eff(3,4) by (auto simp: hub_inv_def)
  ultimately show ?thesis using eff(2,3) m by (simp add: hub_inv_def)
qed

lemma hub_step_inv: "hub_inv m w \<Longrightarrow> hub_inv m (hub_step op w)"
proof (cases op)
  case (HubSubscribe p)
  assume inv: "hub_inv m w"
  have "oldest_ok m [] [] []" "gapless [] [] []" by (simp_all add: oldest_ok_def gapless_def)
  then have "sub_ok m (hub_step (HubSubscribe p) w) (eh_next (hw_hub w))"
    by (simp add: sub_ok_def eh_subscribe_def)
  moreover have "sub_ok m (hub_step (HubSubscribe p) w) i" if "i < eh_next (hw_hub w)" for i
  proof -
    have "subscribed i (snd (eh_subscribe p (hw_hub w))) = subscribed i (hw_hub w)"
      using that by (auto simp: eh_subscribe_def subscribed_def)
    moreover have "sub_ok m w i" using inv that by (simp add: hub_inv_def)
    ultimately show ?thesis using that by (simp add: sub_ok_def eh_subscribe_def Let_def)
  qed
  moreover have "eh_next (hw_hub w) \<notin> fst ` set (eh_subscribers (hw_hub w))" using inv by (auto simp: hub_inv_def)
  ultimately show ?thesis using inv HubSubscribe
    by (auto simp: hub_inv_def less_Suc_eq eh_subscribe_def)
next
  case (HubUnsubscribe i)
  assume inv: "hub_inv m w"
  have "subscribed j (eh_unsubscribe i h) \<Longrightarrow> subscribed j h" for j h
    by (auto simp: subscribed_def eh_unsubscribe_def)
  moreover have "distinct (map fst (eh_subscribers (eh_unsubscribe i (hw_hub w))))"
    using inv by (simp add: hub_inv_def eh_unsubscribe_def distinct_map_filter)
  moreover have "eh_queue (eh_unsubscribe i h) = eh_queue h" "eh_next (eh_unsubscribe i h) = eh_next h"
    "eh_maxsize (eh_unsubscribe i h) = eh_maxsize h" "set (eh_subscribers (eh_unsubscribe i h)) \<subseteq> set (eh_subscribers h)" for h
    by (auto simp: eh_unsubscribe_def)
  ultimately show ?thesis using inv HubUnsubscribe
    unfolding hub_inv_def sub_ok_def Let_def by (simp split: if_splits) blast
next
  case (HubPublish e)
  assume "hub_inv m w"
  with HubPublish hub_publish_inv show ?thesis by simp
next
  case (HubGet i)
  assume inv: "hub_inv m w"
  show ?thesis
  proof (cases "eh_queue (hw_hub w) i")
    case Nil
    with inv HubGet show ?thesis by (simp add: eh_get_def)
  next
    case (Cons e q)
    let ?h = "(hw_hub w)\<lparr>eh_queue := (eh_queue (hw_hub w))(i := q)\<rparr>"
    have s: "subscribed j ?h = subscribed j (hw_hub w)" for j by (simp add: subscribed_def)
    have "oldest_ok m st got (e # q) \<Longrightarrow> oldest_ok m st (got @ [e]) q"
      "gapless st got (e # q) = gapless st (got @ [e]) q" "noticed m st got (e # q) = noticed m st (got @ [e]) q" for st got
      by (simp_all add: oldest_get gapless_def noticed_def)
    with inv Cons HubGet show ?thesis by (auto simp: hub_inv_def sub_ok_def eh_get_def s Let_def)
  qed
qed

lemma hub_run_inv: "hub_inv m (hub_run ops (hub_world_init m))"
  unfolding hub_run_def
proof (induction ops rule: rev_induct)
  case Nil
  show ?case by (simp add: hub_inv_def hub_world_init_def event_hub_init_def)
next
  case (snoc op ops)
  then show ?case by (simp add: hub_step_inv)
qed

text \<open>No subscriber of the event hub ever has a silent gap. After any sequence of subscriptions,
  publications, reads and disconnects, a \<open>DROP_SUBSCRIBER\<close> client has read, or has waiting, the stream
  of its subscription without a gap; or it fell behind, is unsubscribed, and the last thing it gets is
  the notice with the exact number of events it missed. A \<open>DROP_OLDEST\<close> consumer gets a subsequence
  of the stream whose waiting part is the stream's newest end, no longer than the bound.
\<close>

theorem event_hub_refines_stream:
  assumes "i < eh_next (hw_hub w)" and "w = hub_run ops (hub_world_init m)"
  shows "case hw_policy w i of
      DROP_OLDEST \<Rightarrow> oldest_ok m (hw_stream w i) (hw_read w i) (eh_queue (hw_hub w) i)
    | DROP_SUBSCRIBER \<Rightarrow> gapless (hw_stream w i) (hw_read w i) (eh_queue (hw_hub w) i) \<or>
        \<not> subscribed i (hw_hub w) \<and> noticed m (hw_stream w i) (hw_read w i) (eh_queue (hw_hub w) i)"
proof -
  have "hub_inv m w" unfolding assms(2) by (rule hub_run_inv)
  with hub_inv_policy [OF this assms(1)] show ?thesis by (cases "hw_policy w i") simp_all
qed

theorem event_hub_refines_stream_witness:
  "let w = hub_run [HubSubscribe DROP_SUBSCRIBER, HubPublish (Event ''a'' []), HubPublish (Event ''b'' []),
       HubPublish (Event ''c'' []), HubGet 0] (hub_world_init 2)
   in hw_read w 0 = [overflow_event 3 2] \<and> \<not> subscribed 0 (hw_hub w) \<and>
     noticed 2 (hw_stream w 0) (hw_read w 0) (eh_queue (hw_hub w) 0)"
proof -
  let ?ops = "[HubSubscribe DROP_SUBSCRIBER, HubPublish (Event ''a'' []), HubPublish (Event ''b'' []),
       HubPublish (Event ''c'' []), HubGet 0]"
  let ?w = "hub_run ?ops (hub_world_init 2)"
  have c: "hw_read ?w 0 = [overflow_event 3 2]" "hw_stream ?w 0 = [Event ''a'' [], Event ''b'' [], Event ''c'' []]"
    "hw_policy ?w 0 = DROP_SUBSCRIBER" "0 < eh_next (hw_hub ?w)" by code_simp+
  from event_hub_refines_stream [OF c(4) refl] c(1,2,3) show ?thesis
    by (auto simp: Let_def gapless_def overflow_event_def)
qed

subsection \<open>The audio hub keeps each listener near live\<close>

lemma ah_publish_queue:
  "distinct (ah_subscribers h) \<Longrightarrow> i \<in> set (ah_subscribers h) \<Longrightarrow>
     ah_queue (ah_publish f h) i =
       (if q_full (ah_maxsize h) (ah_queue h i) then tl (ah_queue h i) @ [f] else ah_queue h i @ [f]) \<and>
     ah_subscribers (ah_publish f h) = ah_subscribers h \<and> ah_maxsize (ah_publish f h) = ah_maxsize h"
proof -
  have others: "i \<notin> set xs \<Longrightarrow> ah_queue (fold (ah_deliver f) xs h) i = ah_queue h i" for xs h
    by (induction xs arbitrary: h) (auto simp: ah_deliver_def)
  have keep: "ah_subscribers (fold (ah_deliver f) xs h) = ah_subscribers h \<and>
      ah_maxsize (fold (ah_deliver f) xs h) = ah_maxsize h" for xs h
    by (induction xs arbitrary: h) (auto simp: ah_deliver_def)
  have "distinct xs \<Longrightarrow> i \<in> set xs \<Longrightarrow> ah_queue (fold (ah_deliver f) xs h) i =
      (if q_full (ah_maxsize h) (ah_queue h i) then tl (ah_queue h i) @ [f] else ah_queue h i @ [f])" for xs h
  proof (induction xs arbitrary: h)
    case (Cons x xs)
    then show ?case by (cases "x = i") (auto simp: others, auto simp: ah_deliver_def)
  qed simp
  with keep show "distinct (ah_subscribers h) \<Longrightarrow> i \<in> set (ah_subscribers h) \<Longrightarrow> ?thesis"
    by (simp add: ah_publish_def)
qed

interpretation listener: drop_oldest "\<lambda>h. ah_queue h i" ah_publish
  "\<lambda>h. i \<in> set (ah_subscribers h) \<and> distinct (ah_subscribers h) \<and> ah_maxsize h = int n \<and> 0 < n" n for i n
  by unfold_locales (auto simp: ah_publish_queue q_full_def)

text \<open>
  A listener that does not read holds exactly the newest \<open>maxsize\<close> frames, whatever the other
  listeners do.
\<close>

theorem audio_hub_near_live:
  assumes "distinct (ah_subscribers h)" "i \<in> set (ah_subscribers h)" "ah_queue h i = []"
    and "ah_maxsize h = int n" "0 < n"
  shows "ah_queue (fold ah_publish frames h) i = drop (length frames - n) frames"
  using listener.pushes_suffix [of i h n frames] assms by simp

end
