(* ===== verification/RxPath.thy ===== *)
theory RxPath
  imports Hubs Arbiter
begin

section \<open>The receive pump and the recorder\<close>

text \<open>
  \<open>radio_server/rx/pump.py\<close> (\<open>RxPump.run\<close>, one iteration per function) and
  \<open>radio_server/recording/recorder.py\<close> (\<open>Recorder\<close>). The pump's consumers are the audio hub of \<open>Hubs\<close>
  and three logs: what the controller was stepped with, the calls on the recorder and the activity
  edges. What these consumers raise is swallowed by the pump, so it has no effect here. The activity
  gate is a parameter with its own state; the capture thread, the join and the sleeps are left out.
\<close>

subsection \<open>The recorder\<close>

text \<open>
  A segment is its number, the clock reading it was opened at (which its file name shows) and the
  frames written. Opening a file and writing to it may fail: the outcomes are arguments.
\<close>

record segment =
  sg_seq :: nat
  sg_started :: secs
  sg_frames :: "bytes list"

record recorder =
  rc_max_seconds :: secs
  rc_wav :: "segment option"
  rc_seq :: nat
  rc_segment_started :: secs
  rc_files :: "segment list"

definition recorder_init :: "secs \<Rightarrow> recorder" where
  "recorder_init max_seconds =
     \<lparr>rc_max_seconds = max_seconds, rc_wav = None, rc_seq = 0, rc_segment_started = 0, rc_files = []\<rparr>"

definition rec_end_segment :: "recorder \<Rightarrow> recorder" where
  "rec_end_segment r =
     (case rc_wav r of None \<Rightarrow> r | Some w \<Rightarrow> r\<lparr>rc_wav := None, rc_files := rc_files r @ [w]\<rparr>)"

definition rec_abort :: "recorder \<Rightarrow> recorder" where
  "rec_abort r =
     (case rc_wav r of None \<Rightarrow> r | Some w \<Rightarrow> r\<lparr>rc_wav := None, rc_files := rc_files r @ [w]\<rparr>)"

definition rec_open_segment :: "bool \<Rightarrow> secs \<Rightarrow> (recorder, unit) meth" where
  "rec_open_segment opens now r =
     (let r = r\<lparr>rc_seq := rc_seq r + 1, rc_segment_started := now\<rparr>
      in if opens
         then (Inr (), r\<lparr>rc_wav := Some \<lparr>sg_seq = rc_seq r, sg_started = now, sg_frames = []\<rparr>\<rparr>)
         else (Inl (Fault 0), r))"

definition rec_writeframes :: "bool \<Rightarrow> bytes \<Rightarrow> (recorder, unit) meth" where
  "rec_writeframes writes pcm r =
     (case rc_wav r of
        None \<Rightarrow> (Inl AttributeError, r)
      | Some w \<Rightarrow>
          if writes then (Inr (), r\<lparr>rc_wav := Some (w\<lparr>sg_frames := sg_frames w @ [pcm]\<rparr>)\<rparr>)
          else (Inl (Fault 0), r))"

definition rec_roll :: "secs \<Rightarrow> recorder \<Rightarrow> recorder" where
  "rec_roll now r =
     (if rc_wav r \<noteq> None \<and> rc_max_seconds r \<le> now - rc_segment_started r then rec_end_segment r else r)"

definition rec_write :: "bool \<Rightarrow> bool \<Rightarrow> secs \<Rightarrow> bytes \<Rightarrow> recorder \<Rightarrow> recorder" where
  "rec_write opens writes now pcm r =
     snd (catching
       (andthen (modifying (rec_roll now))
       (\<lambda>_. andthen (\<lambda>r. if rc_wav r = None then rec_open_segment opens now r else (Inr (), r))
       (\<lambda>_. rec_writeframes writes pcm)))
       (\<lambda>e. modifying rec_abort) r)"

definition rec_close :: "recorder \<Rightarrow> recorder" where
  "rec_close r = rec_end_segment r"

datatype rec_op = RecWrite bytes secs | RecEnd

fun rec_step :: "rec_op \<Rightarrow> recorder \<Rightarrow> recorder" where
  "rec_step (RecWrite pcm now) r = rec_write True True now pcm r"
| "rec_step RecEnd r = rec_end_segment r"

definition rec_run :: "rec_op list \<Rightarrow> recorder \<Rightarrow> recorder" where
  "rec_run ops r = fold rec_step ops r"

definition all_segments :: "recorder \<Rightarrow> segment list" where
  "all_segments r = rc_files r @ (case rc_wav r of None \<Rightarrow> [] | Some w \<Rightarrow> [w])"

definition recorded :: "recorder \<Rightarrow> bytes list" where
  "recorded r = concat (map sg_frames (all_segments r))"

fun written :: "rec_op list \<Rightarrow> bytes list" where
  "written [] = []"
| "written (RecWrite pcm now # ops) = pcm # written ops"
| "written (RecEnd # ops) = written ops"

definition rec_inv :: "recorder \<Rightarrow> bool" where
  "rec_inv r \<longleftrightarrow>
     map sg_seq (all_segments r) = [1..<rc_seq r + 1] \<and>
     (\<forall>w. rc_wav r = Some w \<longrightarrow> sg_started w = rc_segment_started r) \<and>
     (\<forall>w \<in> set (all_segments r). sg_frames w \<noteq> [])"

text \<open>A successful write, in one equation per case.\<close>

lemma rec_write_ok:
  "rec_write True True now pcm r =
     (case rc_wav (rec_roll now r) of
        Some w \<Rightarrow> (rec_roll now r)\<lparr>rc_wav := Some (w\<lparr>sg_frames := sg_frames w @ [pcm]\<rparr>)\<rparr>
      | None \<Rightarrow> (rec_roll now r)\<lparr>rc_seq := rc_seq (rec_roll now r) + 1, rc_segment_started := now,
          rc_wav := Some \<lparr>sg_seq = rc_seq (rec_roll now r) + 1, sg_started = now, sg_frames = [pcm]\<rparr>\<rparr>)"
  by (cases "rc_wav (rec_roll now r)")
    (simp_all add: rec_write_def catching_def andthen_def rec_open_segment_def rec_writeframes_def Let_def)

lemma rec_end_segment_keeps:
  "all_segments (rec_end_segment r) = all_segments r" "rc_wav (rec_end_segment r) = None"
  "rc_seq (rec_end_segment r) = rc_seq r" "rc_max_seconds (rec_end_segment r) = rc_max_seconds r"
  by (auto simp: all_segments_def rec_end_segment_def split: option.splits)

lemma rec_end_recorded: "recorded (rec_end_segment r) = recorded r"
  by (simp add: recorded_def rec_end_segment_keeps)

lemma rec_end_inv: "rec_inv r \<Longrightarrow> rec_inv (rec_end_segment r)"
  by (simp add: rec_inv_def rec_end_segment_keeps)

lemma rec_append_frame:
  assumes "rc_wav r = Some w" and "r' = r\<lparr>rc_wav := Some (w\<lparr>sg_frames := sg_frames w @ [pcm]\<rparr>)\<rparr>"
  shows "recorded r' = recorded r @ [pcm]" and "rec_inv r \<Longrightarrow> rec_inv r'"
  using assms by (auto simp: recorded_def all_segments_def rec_inv_def)

lemma rec_open_frame:
  assumes "rc_wav r = None" and "r' = r\<lparr>rc_seq := rc_seq r + 1, rc_segment_started := now,
      rc_wav := Some \<lparr>sg_seq = rc_seq r + 1, sg_started = now, sg_frames = [pcm]\<rparr>\<rparr>"
  shows "recorded r' = recorded r @ [pcm]" and "rec_inv r \<Longrightarrow> rec_inv r'"
  using assms by (auto simp: recorded_def all_segments_def rec_inv_def)

lemma rec_write_step:
  assumes "rec_inv r" "0 < rc_max_seconds r"
  shows "rec_inv (rec_write True True now pcm r)" "recorded (rec_write True True now pcm r) = recorded r @ [pcm]"
    "\<exists>w. rc_wav (rec_write True True now pcm r) = Some w \<and> now - sg_started w < rc_max_seconds r"
    "rc_max_seconds (rec_write True True now pcm r) = rc_max_seconds r"
proof -
  define rolled where "rolled = rec_roll now r"
  have ro: "rec_inv rolled" "recorded rolled = recorded r" "rc_max_seconds rolled = rc_max_seconds r"
    using assms(1) by (simp_all add: rolled_def rec_roll_def rec_end_inv rec_end_segment_keeps recorded_def)
  note eq = rec_write_ok [of now pcm r, folded rolled_def]
  show "rec_inv (rec_write True True now pcm r)" "recorded (rec_write True True now pcm r) = recorded r @ [pcm]"
    using ro rec_append_frame [of rolled _ _ pcm] rec_open_frame [of rolled _ now pcm]
    by (auto simp: eq split: option.splits)
  show "rc_max_seconds (rec_write True True now pcm r) = rc_max_seconds r"
    using ro(3) by (simp add: eq split: option.splits)
  show "\<exists>w. rc_wav (rec_write True True now pcm r) = Some w \<and> now - sg_started w < rc_max_seconds r"
  proof (cases "rc_wav rolled")
    case None
    with assms(2) show ?thesis by (simp add: eq)
  next
    case (Some w)
    have "rc_wav r \<noteq> None \<longrightarrow> \<not> rc_max_seconds r \<le> now - rc_segment_started r"
    proof (rule ccontr)
      assume "\<not> (rc_wav r \<noteq> None \<longrightarrow> \<not> rc_max_seconds r \<le> now - rc_segment_started r)"
      then have "rolled = rec_end_segment r" by (simp add: rolled_def rec_roll_def)
      with Some rec_end_segment_keeps(2) [of r] show False by simp
    qed
    moreover from this have "rolled = r" by (auto simp: rolled_def rec_roll_def)
    ultimately show ?thesis using Some assms(1) by (simp add: eq rec_inv_def)
  qed
qed

lemma rec_run_all:
  "0 < m \<Longrightarrow> rec_inv (rec_run ops (recorder_init m)) \<and> recorded (rec_run ops (recorder_init m)) = written ops \<and>
     rc_max_seconds (rec_run ops (recorder_init m)) = m"
  unfolding rec_run_def
proof (induction ops rule: rev_induct)
  case Nil
  then show ?case by (simp add: rec_inv_def recorder_init_def all_segments_def recorded_def)
next
  case (snoc op ops)
  have w: "written (ops @ [op]) = written ops @ (case op of RecWrite pcm now \<Rightarrow> [pcm] | RecEnd \<Rightarrow> [])" for ops op
    by (induction ops rule: written.induct) (auto split: rec_op.splits)
  from snoc show ?case
    by (cases op) (auto simp: w rec_write_step rec_end_inv rec_end_recorded rec_end_segment_keeps)
qed

text \<open>With a disk that works the recorder loses nothing: the frames of the segments, in order, are the
  frames written, in order; the segments are numbered 1, 2, 3 and so on, none is empty; and a write
  always lands in a segment opened less than \<open>max_seconds\<close> before.
\<close>

theorem recorder_keeps_everything:
  assumes "0 < m"
  shows "let r = rec_run ops (recorder_init m) in
    recorded r = written ops \<and> map sg_seq (all_segments r) = [1..<rc_seq r + 1] \<and>
    (\<forall>s \<in> set (all_segments r). sg_frames s \<noteq> []) \<and>
    (\<exists>w. rc_wav (rec_write True True now pcm r) = Some w \<and> now - sg_started w < m)"
  using rec_run_all [OF assms, of ops] rec_write_step(3) [of "rec_run ops (recorder_init m)" now pcm] assms
  by (simp add: Let_def rec_inv_def)

theorem recorder_keeps_everything_witness:
  "map sg_frames (all_segments (rec_run [RecWrite [1] 0, RecWrite [2] 1, RecWrite [3] 5, RecEnd, RecWrite [4] 6]
     (recorder_init 5))) = [[[1], [2]], [[3]], [[4]]] \<and>
   recorded (rec_run [RecWrite [1] 0, RecWrite [2] 1, RecWrite [3] 5, RecEnd, RecWrite [4] 6] (recorder_init 5)) =
     [[1], [2], [3], [4]]"
proof -
  have "map sg_frames (all_segments (rec_run [RecWrite [1] 0, RecWrite [2] 1, RecWrite [3] 5, RecEnd, RecWrite [4] 6]
     (recorder_init 5))) = [[[1], [2]], [[3]], [[4]]]" by code_simp
  then show ?thesis
    using recorder_keeps_everything [of 5 "[RecWrite [1] 0, RecWrite [2] 1, RecWrite [3] 5, RecEnd, RecWrite [4] 6]"]
    by (simp add: Let_def)
qed

subsection \<open>The pump\<close>

record ('g) pump =
  rp_running :: bool
  rp_active :: bool
  rp_signal_aware :: bool
  rp_gate :: 'g
  rp_hub :: audio_hub
  rp_stepped :: "(secs \<times> bytes) list"
  rp_recorder :: "bytes option list"
  rp_edges :: "bool list"
  rp_arbiter :: arbiter

type_synonym 'g rx_gate = "bytes \<Rightarrow> 'g \<Rightarrow> bool \<times> 'g"

definition pump_init :: "bool \<Rightarrow> 'g \<Rightarrow> audio_hub \<Rightarrow> arbiter \<Rightarrow> 'g pump" where
  "pump_init signal_aware g hub arb = \<lparr>rp_running = False, rp_active = False, rp_signal_aware = signal_aware,
     rp_gate = g, rp_hub = hub, rp_stepped = [], rp_recorder = [], rp_edges = [], rp_arbiter = arb\<rparr>"

definition set_active :: "bool \<Rightarrow> 'g pump \<Rightarrow> 'g pump" where
  "set_active active p =
     (if active = rp_active p then p else p\<lparr>rp_active := active, rp_edges := rp_edges p @ [active]\<rparr>)"

text \<open>A call on the recorder: \<open>Some\<close> a frame is \<open>write\<close>, \<open>None\<close> is \<open>end_segment\<close>.\<close>

definition rec_call :: "bytes option \<Rightarrow> 'g pump \<Rightarrow> 'g pump" where
  "rec_call x p = p\<lparr>rp_recorder := rp_recorder p @ [x]\<rparr>"

definition pump_begin :: "'g pump \<Rightarrow> 'g pump" where
  "pump_begin p = p\<lparr>rp_running := True, rp_arbiter := begin_receive (rp_arbiter p)\<rparr>"

definition pump_keyed :: "'g pump \<Rightarrow> 'g pump" where
  "pump_keyed p = set_active False (rec_call None p)"

definition pump_frame :: "bool \<Rightarrow> 'g rx_gate \<Rightarrow> secs \<Rightarrow> bytes \<Rightarrow> 'g pump \<Rightarrow> 'g pump" where
  "pump_frame has_controller gate now samples p =
     (let p = (if has_controller then p\<lparr>rp_stepped := rp_stepped p @ [(now, samples)]\<rparr> else p)
      in if samples = [] then p
         else let (live, g) = gate samples (rp_gate p); p = p\<lparr>rp_gate := g\<rparr>
              in if live
                 then let p = (if rp_signal_aware p then set_active True p else p);
                          p = p\<lparr>rp_hub := ah_publish samples (rp_hub p)\<rparr>
                      in rec_call (Some samples) p
                 else rec_call None (set_active False p))"

definition pump_finally :: "'g pump \<Rightarrow> 'g pump" where
  "pump_finally p =
     (let p = set_active False (rec_call None (p\<lparr>rp_running := False\<rparr>))
      in p\<lparr>rp_arbiter := end_receive (rp_arbiter p)\<rparr>)"

text \<open>
  One iteration of the loop. While the arbiter transmits there is no read; otherwise \<open>receive\<close> gave
  \<open>samples\<close>.
\<close>

datatype pump_event = PumpTurn secs bytes | PumpArbiter "arbiter \<Rightarrow> arbiter"

fun pump_step :: "bool \<Rightarrow> 'g rx_gate \<Rightarrow> pump_event \<Rightarrow> 'g pump \<Rightarrow> 'g pump" where
  "pump_step ctl gate (PumpTurn now samples) p =
     (if ab_transmitting (rp_arbiter p) then pump_keyed p else pump_frame ctl gate now samples p)"
| "pump_step ctl gate (PumpArbiter f) p = p\<lparr>rp_arbiter := f (rp_arbiter p)\<rparr>"

definition pump_run :: "bool \<Rightarrow> 'g rx_gate \<Rightarrow> pump_event list \<Rightarrow> 'g pump \<Rightarrow> 'g pump" where
  "pump_run ctl gate evs p = fold (pump_step ctl gate) evs p"

text \<open>The frames read, and of these the ones the gate lets through.\<close>

fun read_frames :: "pump_event list \<Rightarrow> arbiter \<Rightarrow> (secs \<times> bytes) list" where
  "read_frames [] a = []"
| "read_frames (PumpTurn now samples # evs) a =
     (if ab_transmitting a then read_frames evs a else (now, samples) # read_frames evs a)"
| "read_frames (PumpArbiter f # evs) a = read_frames evs (f a)"

fun live_frames :: "'g rx_gate \<Rightarrow> (secs \<times> bytes) list \<Rightarrow> 'g \<Rightarrow> bytes list" where
  "live_frames gate [] g = []"
| "live_frames gate ((now, samples) # frames) g =
     (if samples = [] then live_frames gate frames g
      else let (live, g) = gate samples g
           in if live then samples # live_frames gate frames g else live_frames gate frames g)"

text \<open>Edges that alternate, the first one an opening, the last one the state.\<close>

fun alternating :: "bool \<Rightarrow> bool list \<Rightarrow> bool" where
  "alternating b [] = True"
| "alternating b (e # es) = (e = b \<and> alternating (\<not> b) es)"

definition edges_ok :: "'g pump \<Rightarrow> bool" where
  "edges_ok p \<longleftrightarrow> alternating True (rp_edges p) \<and> rp_active p = odd (length (rp_edges p)) \<and>
     (\<not> rp_signal_aware p \<longrightarrow> rp_edges p = [])"

lemma alternating_snoc: "alternating b (es @ [e]) \<longleftrightarrow> alternating b es \<and> e = (b = even (length es))"
  by (induction es arbitrary: b) auto

lemma set_active_ok:
  "edges_ok p \<Longrightarrow> rp_signal_aware p \<or> \<not> b \<Longrightarrow> edges_ok (set_active b p)"
  by (auto simp: edges_ok_def set_active_def alternating_snoc)

lemma set_active_simps [simp]:
  "rp_hub (set_active b p) = rp_hub p" "rp_stepped (set_active b p) = rp_stepped p"
  "rp_recorder (set_active b p) = rp_recorder p" "rp_gate (set_active b p) = rp_gate p"
  "rp_arbiter (set_active b p) = rp_arbiter p" "rp_signal_aware (set_active b p) = rp_signal_aware p"
  by (simp_all add: set_active_def)

lemma rec_call_simps [simp]:
  "rp_hub (rec_call x p) = rp_hub p" "rp_stepped (rec_call x p) = rp_stepped p" "edges_ok (rec_call x p) = edges_ok p"
  "rp_recorder (rec_call x p) = rp_recorder p @ [x]" "rp_gate (rec_call x p) = rp_gate p"
  "rp_arbiter (rec_call x p) = rp_arbiter p" "rp_signal_aware (rec_call x p) = rp_signal_aware p"
  by (simp_all add: rec_call_def edges_ok_def)

definition saved :: "bytes option list \<Rightarrow> bytes list" where
  "saved calls = map the (filter (\<lambda>x. x \<noteq> None) calls)"

lemma saved_append [simp]: "saved (xs @ ys) = saved xs @ saved ys"
  by (simp add: saved_def)

lemma saved_simps [simp]: "saved [Some x] = [x]" "saved [None] = []" "saved [] = []"
  by (simp_all add: saved_def)

lemma pump_frame_effect:
  fixes p :: "'g pump"
  assumes e: "edges_ok p" and q: "q = pump_frame True gate now samples p"
  shows "rp_stepped q = rp_stepped p @ [(now, samples)] \<and> rp_arbiter q = rp_arbiter p \<and> edges_ok q \<and>
    (let (live, g) = (if samples = [] then (False, rp_gate p) else gate samples (rp_gate p)) in
       rp_gate q = g \<and> rp_hub q = (if live then ah_publish samples (rp_hub p) else rp_hub p) \<and>
       saved (rp_recorder q) = saved (rp_recorder p) @ (if live then [samples] else []))"
proof (cases "samples = []")
  case True
  with e q show ?thesis by (simp add: pump_frame_def edges_ok_def)
next
  case False
  obtain live g where g: "gate samples (rp_gate p) = (live, g)" by fastforce
  let ?p = "p\<lparr>rp_stepped := rp_stepped p @ [(now, samples)], rp_gate := g\<rparr>"
  have ok: "edges_ok ?p" "edges_ok (u\<lparr>rp_hub := h\<rparr>) = edges_ok u" for u :: "'g pump" and h
    using e by (simp_all add: edges_ok_def)
  show ?thesis
  proof (cases live)
    case True
    have "edges_ok (if rp_signal_aware ?p then set_active True ?p else ?p)"
      using ok(1) set_active_ok [OF ok(1), of True] by simp
    with False True g q ok(2) show ?thesis by (simp add: pump_frame_def Let_def)
  next
    case nl: False
    have "edges_ok (set_active False ?p)" by (rule set_active_ok [OF ok(1)]) simp
    with False nl g q show ?thesis by (simp add: pump_frame_def Let_def)
  qed
qed

lemma pump_run_effect:
  "edges_ok p \<Longrightarrow> q = pump_run True gate evs p \<Longrightarrow>
     rp_stepped q = rp_stepped p @ read_frames evs (rp_arbiter p) \<and> edges_ok q \<and>
     rp_hub q = fold ah_publish (live_frames gate (read_frames evs (rp_arbiter p)) (rp_gate p)) (rp_hub p) \<and>
     saved (rp_recorder q) = saved (rp_recorder p) @ live_frames gate (read_frames evs (rp_arbiter p)) (rp_gate p)"
proof (induction evs arbitrary: p)
  case Nil
  then show ?case by (simp add: pump_run_def)
next
  case (Cons ev evs)
  let ?p = "pump_step True gate ev p"
  have q: "q = pump_run True gate evs ?p" using Cons.prems(2) by (simp add: pump_run_def)
  show ?case
  proof (cases ev)
    case (PumpArbiter f)
    with Cons.IH [of ?p] Cons.prems(1) q show ?thesis by (simp add: edges_ok_def)
  next
    case (PumpTurn now samples)
    show ?thesis
    proof (cases "ab_transmitting (rp_arbiter p)")
      case True
      then have "edges_ok ?p" "rp_stepped ?p = rp_stepped p" "rp_gate ?p = rp_gate p" "rp_hub ?p = rp_hub p"
        "rp_arbiter ?p = rp_arbiter p" "saved (rp_recorder ?p) = saved (rp_recorder p)"
        using Cons.prems(1) PumpTurn by (simp_all add: pump_keyed_def set_active_ok)
      with Cons.IH [of ?p] q True PumpTurn show ?thesis by simp
    next
      case False
      then have "?p = pump_frame True gate now samples p" using PumpTurn by simp
      note eff = pump_frame_effect [OF Cons.prems(1) this]
      then have "edges_ok ?p" by simp
      from Cons.IH [OF this q] eff False PumpTurn show ?thesis
        by (cases "gate samples (rp_gate p)") (auto simp: Let_def split: if_splits)
    qed
  qed
qed

text \<open>The pump is the single reader that feeds everyone. Over any run, with the radio keyed in between:
  the controller is stepped with every raw frame that was read, in order, and none is read while the
  station transmits; the listeners and the recorder get exactly the non-empty frames the gate
  passes, in order; and the activity edges alternate, open first, with none under a gate that knows
  nothing of the signal.
\<close>

theorem pump_feeds_consumers:
  "let q = pump_run True gate evs (pump_begin (pump_init aware g hub arb));
       frames = read_frames evs (begin_receive arb); live = live_frames gate frames g
   in rp_stepped q = frames \<and> rp_hub q = fold ah_publish live hub \<and> saved (rp_recorder q) = live \<and>
      alternating True (rp_edges q) \<and> rp_active q = odd (length (rp_edges q)) \<and> (aware \<or> rp_edges q = [])"
proof -
  let ?p = "pump_begin (pump_init aware g hub arb)"
  have "edges_ok ?p" by (simp add: edges_ok_def pump_begin_def pump_init_def)
  note eff = pump_run_effect [OF this refl, of gate evs]
  have "rp_signal_aware (pump_run True gate evs ?p) = aware"
  proof -
    have "rp_signal_aware (pump_step True gate ev u) = rp_signal_aware u" for ev u
      by (cases ev) (auto simp: pump_keyed_def pump_frame_def Let_def split: prod.splits)
    then have "rp_signal_aware (pump_run True gate evs u) = rp_signal_aware u" for u
      unfolding pump_run_def by (induction evs arbitrary: u) simp_all
    then show ?thesis by (simp add: pump_begin_def pump_init_def)
  qed
  with eff show ?thesis by (cases aware) (simp_all add: edges_ok_def pump_begin_def pump_init_def Let_def)
qed

end
