(* ===== verification/Keypad.thy ===== *)
theory Keypad
  imports DStarFrames Dtmf "HOL-Library.List_Lexorder" "HOL-Library.AList"
begin

section \<open>The keypad: service bindings and link combos\<close>

text \<open>
  \<open>radio_server/services/plugin.py\<close> (the digit bindings and the registry), the registry of
  \<open>services/dispatch.py\<close>, and \<open>radio_server/link/entries.py\<close> (the Mumble entry table and its combos).
  A Python string is a list of code points (\<open>pystr\<close>); \<open>ps\<close> writes an ASCII one. A dict is an
  association list in insertion order. The messages of the errors are left out. \<open>str.lower\<close> outside
  ASCII and \<open>int(str)\<close> are parameters: they are tables of the standard library. A TOML value is one of
  the four kinds the code meets; floats, dates and nested tables are not modelled.
\<close>

definition ps :: "string \<Rightarrow> pystr" where
  "ps s = map of_char s"

lemma ps_inj: "ps s = ps t \<longleftrightarrow> s = t"
  unfolding ps_def by (rule inj_map_eq_map) (simp add: inj_of_char)

subsection \<open>Service bindings\<close>

definition DTMF_ALPHABET :: pystr where "DTMF_ALPHABET = ps ''0123456789ABCD*#''"
definition ID_BUILTIN :: pystr where "ID_BUILTIN = ps ''station-id''"
definition LOGOUT_BUILTIN :: pystr where "LOGOUT_BUILTIN = ps ''logout''"
definition TIME_NAME :: pystr where "TIME_NAME = ps ''time''"
definition ID_DIGIT :: pystr where "ID_DIGIT = ps ''01''"
definition TIME_DIGIT :: pystr where "TIME_DIGIT = ps ''02''"
definition LOGOUT_DIGIT :: pystr where "LOGOUT_DIGIT = ps ''99''"

definition BUILTIN_IDS :: "pystr list" where "BUILTIN_IDS = [ID_BUILTIN, LOGOUT_BUILTIN]"

definition DEFAULT_BINDINGS :: "(pystr \<times> pystr) list" where
  "DEFAULT_BINDINGS = [(ID_DIGIT, ID_BUILTIN), (TIME_DIGIT, TIME_NAME), (LOGOUT_DIGIT, LOGOUT_BUILTIN)]"

definition is_dtmf_digit :: "pystr \<Rightarrow> bool" where
  "is_dtmf_digit digit \<longleftrightarrow> 1 \<le> length digit \<and> list_all (\<lambda>c. c \<in> set DTMF_ALPHABET) digit"

fun resolve_table :: "pystr list \<Rightarrow> (pystr \<times> pystr) list \<Rightarrow> (pystr \<times> pystr) list \<Rightarrow> exn + (pystr \<times> pystr) list" where
  "resolve_table known [] bindings = Inr bindings"
| "resolve_table known ((digit, target_id) # raw) bindings =
     (if \<not> is_dtmf_digit digit then Inl RuntimeError
      else if target_id \<notin> set known then Inl RuntimeError
      else resolve_table known raw (AList.update digit target_id bindings))"

definition resolve_bindings :: "(pystr \<times> pystr) list option \<Rightarrow> pystr list \<Rightarrow> exn + (pystr \<times> pystr) list" where
  "resolve_bindings raw plugin_ids =
     (case raw of None \<Rightarrow> Inr DEFAULT_BINDINGS | Some table \<Rightarrow> resolve_table (plugin_ids @ BUILTIN_IDS) table [])"

text \<open>A plugin of settings \<open>'c\<close> that builds services \<open>'s\<close>; a build may raise.\<close>

record ('c, 's) plugin =
  pl_id :: pystr
  pl_description :: pystr
  pl_enabled :: "'c \<Rightarrow> bool"
  pl_build :: "'c \<Rightarrow> exn + 's"

type_synonym 's registry = "(pystr \<times> pystr \<times> 's \<times> pystr) list"

definition registry_register :: "pystr \<Rightarrow> pystr \<Rightarrow> 's \<Rightarrow> pystr \<Rightarrow> 's registry \<Rightarrow> 's registry" where
  "registry_register digit name service description r = AList.update digit (name, service, description) r"

definition registry_get :: "'s registry \<Rightarrow> pystr \<Rightarrow> (pystr \<times> 's) option" where
  "registry_get r digit = (case map_of r digit of None \<Rightarrow> None | Some (name, service, d) \<Rightarrow> Some (name, service))"

definition registry_catalog :: "'s registry \<Rightarrow> (pystr \<times> pystr \<times> pystr) list" where
  "registry_catalog r = map (\<lambda>(digit, name, service, d). (digit, name, d)) (sort_key fst r)"

text \<open>\<open>{plugin.id: plugin for plugin in plugins}\<close>: the last of equal ids wins.\<close>

definition plugin_by_id :: "('c, 's) plugin list \<Rightarrow> pystr \<Rightarrow> ('c, 's) plugin option" where
  "plugin_by_id plugins i = map_of (rev (map (\<lambda>p. (pl_id p, p)) plugins)) i"

fun build_registry ::
  "('c, 's) plugin list \<Rightarrow> (pystr \<times> pystr) list \<Rightarrow> 'c \<Rightarrow> 's registry \<Rightarrow> exn + 's registry" where
  "build_registry plugins [] ctx r = Inr r"
| "build_registry plugins ((digit, target_id) # bindings) ctx r =
     (case plugin_by_id plugins target_id of
        None \<Rightarrow> build_registry plugins bindings ctx r
      | Some p \<Rightarrow>
          if pl_enabled p ctx
          then (case pl_build p ctx of
                  Inl e \<Rightarrow> Inl e
                | Inr service \<Rightarrow>
                    build_registry plugins bindings ctx (registry_register digit (pl_id p) service (pl_description p) r))
          else build_registry plugins bindings ctx r)"

definition builtin_digits :: "(pystr \<times> pystr) list \<Rightarrow> pystr \<Rightarrow> pystr set" where
  "builtin_digits bindings builtin_id = set (map fst (filter (\<lambda>(digit, target_id). target_id = builtin_id) bindings))"

text \<open>
  \<open>services/local.py\<close>: what importing one module of the folder gives is a parameter, an exception, a
  helper without \<open>PLUGIN\<close>, or a \<open>PLUGIN\<close> that does or does not satisfy the protocol. The list is in
  the sorted order of the code; a missing or empty folder is the empty list.
\<close>

datatype ('c, 's) local_module =
    ImportFails exn
  | Helper
  | Malformed
  | Provides "('c, 's) plugin"

fun discover_loop :: "pystr list \<Rightarrow> ('c, 's) local_module list \<Rightarrow> exn + ('c, 's) plugin list" where
  "discover_loop seen [] = Inr []"
| "discover_loop seen (m # ms) =
     (case m of
        ImportFails e \<Rightarrow> Inl e
      | Helper \<Rightarrow> discover_loop seen ms
      | Malformed \<Rightarrow> Inl RuntimeError
      | Provides p \<Rightarrow>
          if pl_id p \<in> set seen then Inl RuntimeError
          else (case discover_loop (pl_id p # seen) ms of Inl e \<Rightarrow> Inl e | Inr rest \<Rightarrow> Inr (p # rest)))"

definition discover_local_plugins ::
  "('c, 's) plugin list \<Rightarrow> ('c, 's) local_module list \<Rightarrow> exn + ('c, 's) plugin list" where
  "discover_local_plugins in_tree modules = discover_loop (map pl_id in_tree @ BUILTIN_IDS) modules"

lemma discover_loop_ids:
  "discover_loop seen ms = Inr found \<Longrightarrow> distinct (map pl_id found) \<and> (\<forall>p \<in> set found. pl_id p \<notin> set seen)"
proof (induction ms arbitrary: seen found)
  case (Cons m ms)
  show ?case
  proof (cases m)
    case (Provides p)
    with Cons.prems obtain rest where r: "discover_loop (pl_id p # seen) ms = Inr rest"
      "found = p # rest" "pl_id p \<notin> set seen" by (auto split: if_splits sum.splits)
    with Cons.IH [OF r(1)] show ?thesis by auto
  qed (use Cons in \<open>auto split: if_splits\<close>)
qed simp

lemma resolve_table_ok:
  "resolve_table known raw b = Inr b' \<Longrightarrow> distinct (map fst b) \<Longrightarrow>
     (\<forall>(d, t) \<in> set b. is_dtmf_digit d \<and> t \<in> set known) \<Longrightarrow>
     distinct (map fst b') \<and> (\<forall>(d, t) \<in> set b'. is_dtmf_digit d \<and> t \<in> set known) \<and>
     map_of b' = map_of b ++ map_of (rev raw)"
proof (induction known raw b rule: resolve_table.induct)
  case (1 known bindings)
  then show ?case by auto
next
  case (2 known digit target_id raw bindings)
  from "2.prems"(1) have ok: "is_dtmf_digit digit" "target_id \<in> set known"
    "resolve_table known raw (AList.update digit target_id bindings) = Inr b'" by (auto split: if_splits)
  have "set (AList.update digit target_id bindings) \<subseteq> insert (digit, target_id) (set bindings)"
    by (induction bindings) auto
  with "2.prems"(3) ok have "\<forall>(d, t) \<in> set (AList.update digit target_id bindings). is_dtmf_digit d \<and> t \<in> set known"
    by blast
  moreover have "distinct (map fst (AList.update digit target_id bindings))"
    using "2.prems"(2) by (rule distinct_update)
  ultimately have "distinct (map fst b') \<and> (\<forall>(d, t) \<in> set b'. is_dtmf_digit d \<and> t \<in> set known) \<and>
      map_of b' = map_of (AList.update digit target_id bindings) ++ map_of (rev raw)"
    using "2.IH" ok by simp
  then show ?case by (simp add: update_conv' map_add_assoc [symmetric])
qed

lemma resolve_table_error:
  "(\<exists>e. resolve_table known raw b = Inl e) \<longleftrightarrow> (\<exists>(d, t) \<in> set raw. \<not> is_dtmf_digit d \<or> t \<notin> set known)"
  by (induction known raw b rule: resolve_table.induct) auto

lemma resolve_table_error_kind: "resolve_table known raw b = Inl e \<Longrightarrow> e = RuntimeError"
  by (induction known raw b rule: resolve_table.induct) (auto split: if_splits)

lemma update_new: "k \<notin> fst ` set xs \<Longrightarrow> AList.update k v xs = xs @ [(k, v)]"
  by (induction xs) auto

lemma resolve_table_id:
  "distinct (map fst (b @ raw)) \<Longrightarrow> \<forall>(d, t) \<in> set raw. is_dtmf_digit d \<and> t \<in> set known \<Longrightarrow>
     resolve_table known raw b = Inr (b @ raw)"
proof (induction known raw b rule: resolve_table.induct)
  case (2 known digit target_id raw bindings)
  from "2.prems"(1) have "digit \<notin> fst ` set bindings" by auto
  with 2 show ?case by (auto simp: update_new)
qed simp

text \<open>A \<open>[services]\<close> table, a dict, is taken over unchanged when every digit is a non-empty DTMF
  string and every target a known plugin or built-in, and refused otherwise: nothing is dropped,
  renamed or reordered, and no bad line slips through.\<close>

theorem bindings_taken_or_refused:
  assumes "distinct (map fst raw)"
  shows "resolve_bindings (Some raw) plugin_ids =
    (if \<forall>(d, t) \<in> set raw. is_dtmf_digit d \<and> t \<in> set (plugin_ids @ BUILTIN_IDS) then Inr raw else Inl RuntimeError)"
proof (cases "\<forall>(d, t) \<in> set raw. is_dtmf_digit d \<and> t \<in> set (plugin_ids @ BUILTIN_IDS)")
  case True
  then show ?thesis using resolve_table_id [of "[]" raw "plugin_ids @ BUILTIN_IDS"] assms
    by (simp add: resolve_bindings_def)
next
  case False
  then have "\<exists>e. resolve_table (plugin_ids @ BUILTIN_IDS) raw [] = Inl e" by (auto simp: resolve_table_error)
  then have "resolve_table (plugin_ids @ BUILTIN_IDS) raw [] = Inl RuntimeError"
    by (auto dest: resolve_table_error_kind)
  then show ?thesis using False by (simp add: resolve_bindings_def)
qed

theorem bindings_taken_or_refused_witness:
  "resolve_bindings (Some [(ps ''5'', TIME_NAME), (ps ''99'', LOGOUT_BUILTIN)]) [TIME_NAME] =
     Inr [(ps ''5'', TIME_NAME), (ps ''99'', LOGOUT_BUILTIN)]"
  using bindings_taken_or_refused [of "[(ps ''5'', TIME_NAME), (ps ''99'', LOGOUT_BUILTIN)]" "[TIME_NAME]"]
  by (simp add: ps_inj is_dtmf_digit_def DTMF_ALPHABET_def BUILTIN_IDS_def) (simp add: ps_def)

subsection \<open>Dead digits\<close>

text \<open>The framer never submits a star or a hash key.\<close>

lemma fr_feed_plain:
  assumes "plain (fr_buffer f)"
  shows "plain (fr_buffer (snd (fr_feed timeout d now f))) \<and>
    (\<forall>e. fst (fr_feed timeout d now f) = Some e \<longrightarrow> plain e)"
  using assms by (auto simp: fr_feed_def fr_expire_def plain_def Let_def SUBMIT_def CLEAR_def split: option.splits)

lemma framer_run_plain: "plain (fr_buffer f) \<Longrightarrow> e \<in> set (fst (framer_run timeout ks f)) \<Longrightarrow> plain e"
proof (induction timeout ks f rule: framer_run.induct)
  case (2 timeout d now ks f)
  then show ?case using fr_feed_plain [OF "2.prems"(1), of timeout d now]
    by (auto simp: Let_def split: prod.splits option.splits)
qed simp

text \<open>The star and hash keys are in the alphabet a \<open>[services]\<close> digit may use, but no sequence of
  keys at any times makes the framer submit an entry that holds one: such a binding is accepted at
  startup and can never be keyed, although \<open>resolve_bindings\<close> promises "not a silent dead digit".\<close>

theorem star_binding_is_dead:
  assumes "CHR ''*'' \<in> set digit \<or> CHR ''#'' \<in> set digit"
    and "\<forall>c \<in> set digit. of_char c \<in> set DTMF_ALPHABET" and "t \<in> set (plugin_ids @ BUILTIN_IDS)"
  shows "resolve_bindings (Some [(ps digit, t)]) plugin_ids = Inr [(ps digit, t)] \<and>
    digit \<notin> set (fst (framer_run timeout keys framer_init))"
proof
  have "is_dtmf_digit (ps digit)"
    using assms(1,2) by (cases digit) (auto simp: is_dtmf_digit_def ps_def list_all_iff)
  then show "resolve_bindings (Some [(ps digit, t)]) plugin_ids = Inr [(ps digit, t)]"
    using assms(3) by (auto simp: resolve_bindings_def)
  show "digit \<notin> set (fst (framer_run timeout keys framer_init))"
    using framer_run_plain [of framer_init digit timeout keys] assms(1)
    by (auto simp: plain_def framer_init_def SUBMIT_def CLEAR_def)
qed

theorem star_binding_is_dead_witness:
  "resolve_bindings (Some [(ps ''*1'', LOGOUT_BUILTIN)]) [] = Inr [(ps ''*1'', LOGOUT_BUILTIN)] \<and>
    ''*1'' \<notin> set (fst (framer_run 3 [(CHR ''*'', 0), (CHR ''1'', 1), (CHR ''#'', 2)] framer_init))"
  by (rule star_binding_is_dead) (simp_all add: DTMF_ALPHABET_def ps_def BUILTIN_IDS_def)

end
