(* ===== verification/MumbleEntries.thy ===== *)
theory MumbleEntries
  imports Keypad
begin

section \<open>The Mumble entry table\<close>

text \<open>
  \<open>radio_server/link/entries.py\<close> and the entry rows of \<open>radio_server/api/settings.py\<close>. A value of a TOML
  or JSON table is a string, an integer, a boolean, or another value, of which the code only sees its
  \<open>str\<close>, its truth and what \<open>int\<close> makes of it. The tables of the standard library that the code
  leans on are the fields of \<open>py_env\<close>: \<open>str.lower\<close> and \<open>int\<close> of a string. Messages are left out.
\<close>

datatype pyval = PStr pystr | PInt int | PBool bool | PObj pystr bool "exn + int"

type_synonym table = "(pystr \<times> pyval) list"

record py_env =
  pe_lower :: "pystr \<Rightarrow> pystr"
  pe_int :: "pystr \<Rightarrow> exn + int"

subsection \<open>What the code uses of Python's strings\<close>

fun dec_nat :: "nat \<Rightarrow> pystr" where
  "dec_nat n = (if n < 10 then [48 + n] else dec_nat (n div 10) @ [48 + n mod 10])"

fun py_str :: "pyval \<Rightarrow> pystr" where
  "py_str (PStr s) = s"
| "py_str (PInt i) = (if i < 0 then 45 # dec_nat (nat (- i)) else dec_nat (nat i))"
| "py_str (PBool b) = (if b then ps ''True'' else ps ''False'')"
| "py_str (PObj s t n) = s"

fun py_truth :: "pyval \<Rightarrow> bool" where
  "py_truth (PStr s) = (s \<noteq> [])"
| "py_truth (PInt i) = (i \<noteq> 0)"
| "py_truth (PBool b) = b"
| "py_truth (PObj s t n) = t"

fun py_int :: "py_env \<Rightarrow> pyval \<Rightarrow> exn + int" where
  "py_int env (PStr s) = pe_int env s"
| "py_int env (PInt i) = Inr i"
| "py_int env (PBool b) = Inr (if b then 1 else 0)"
| "py_int env (PObj s t n) = n"

text \<open>\<open>str(v or "")\<close>.\<close>

definition str_or_empty :: "pyval \<Rightarrow> pystr" where
  "str_or_empty v = (if py_truth v then py_str v else [])"

text \<open>\<open>str.strip()\<close>: the code points for which \<open>str.isspace\<close> holds.\<close>

definition py_isspace :: "nat \<Rightarrow> bool" where
  "py_isspace c \<longleftrightarrow> (9 \<le> c \<and> c \<le> 13) \<or> (28 \<le> c \<and> c \<le> 32) \<or> c = 0x85 \<or> c = 0xA0 \<or> c = 0x1680 \<or>
     (0x2000 \<le> c \<and> c \<le> 0x200A) \<or> c = 0x2028 \<or> c = 0x2029 \<or> c = 0x202F \<or> c = 0x205F \<or> c = 0x3000"

definition rstrip_by :: "(nat \<Rightarrow> bool) \<Rightarrow> pystr \<Rightarrow> pystr" where
  "rstrip_by p s = rev (dropWhile p (rev s))"

definition strip_by :: "(nat \<Rightarrow> bool) \<Rightarrow> pystr \<Rightarrow> pystr" where
  "strip_by p s = rstrip_by p (dropWhile p s)"

declare dec_nat.simps [simp del]

subsection \<open>Slugs\<close>

definition MAX_NAME_LENGTH :: nat where "MAX_NAME_LENGTH = 64"
definition SLUG_MAX :: nat where "SLUG_MAX = 32"

definition slug_char :: "nat \<Rightarrow> bool" where
  "slug_char c \<longleftrightarrow> (97 \<le> c \<and> c \<le> 122) \<or> (48 \<le> c \<and> c \<le> 57)"

text \<open>\<open>_SLUG_RUNS.sub("_", s)\<close>; the flag says that the run being read has its underscore already.\<close>

fun slug_runs :: "bool \<Rightarrow> pystr \<Rightarrow> pystr" where
  "slug_runs inside [] = []"
| "slug_runs inside (c # cs) =
     (if slug_char c then c # slug_runs False cs
      else if inside then slug_runs True cs
      else 95 # slug_runs True cs)"

definition slugify :: "py_env \<Rightarrow> pystr \<Rightarrow> pystr" where
  "slugify env name =
     rstrip_by (\<lambda>c. c = 95) (take SLUG_MAX (strip_by (\<lambda>c. c = 95) (slug_runs False (pe_lower env name))))"

definition mumble_password_secret :: "pystr \<Rightarrow> pystr" where
  "mumble_password_secret slug = ps ''mumble_password_'' @ slug"

definition link_username :: "pystr option \<Rightarrow> pystr \<Rightarrow> pystr" where
  "link_username callsign name =
     (case callsign of None \<Rightarrow> name
      | Some c \<Rightarrow> if c \<noteq> [] then c @ ps '' ('' @ name @ ps '')'' else name)"

subsection \<open>Entries\<close>

definition LINK_DTMF_ALPHABET :: pystr where "LINK_DTMF_ALPHABET = ps ''0123456789ABCD''"
definition DEFAULT_MUMBLE_PORT :: int where "DEFAULT_MUMBLE_PORT = 64738"
definition DEFAULT_MUMBLE_CHANNEL :: pystr where "DEFAULT_MUMBLE_CHANNEL = []"
definition DEFAULT_MUMBLE_TX_TO_RF :: bool where "DEFAULT_MUMBLE_TX_TO_RF = True"

definition KNOWN_FIELDS :: "pystr list" where
  "KNOWN_FIELDS = map ps [''name'', ''host'', ''port'', ''channel'', ''dtmf'', ''tx_to_rf'', ''autoconnect'',
     ''password'', ''slug'', ''password_set'']"

record mumble_entry =
  me_name :: pystr
  me_host :: pystr
  me_slug :: pystr
  me_port :: int
  me_channel :: pystr
  me_dtmf :: pystr
  me_tx_to_rf :: bool
  me_autoconnect :: bool
  me_password :: pystr

definition table_get :: "table \<Rightarrow> string \<Rightarrow> pyval \<Rightarrow> pyval" where
  "table_get t field d = (case map_of t (ps field) of None \<Rightarrow> d | Some v \<Rightarrow> v)"

definition combo_ok :: "pystr \<Rightarrow> bool" where
  "combo_ok digits \<longleftrightarrow> digits \<noteq> [] \<and> list_all (\<lambda>c. c \<in> set LINK_DTMF_ALPHABET) digits"

definition check_combo :: "pystr \<Rightarrow> exn + unit" where
  "check_combo digits = (if combo_ok digits then Inr () else Inl RuntimeError)"

text \<open>\<open>int(raw)\<close> with \<open>TypeError\<close> and \<open>ValueError\<close> turned into a \<open>RuntimeError\<close>; others escape.\<close>

definition coerce_int :: "py_env \<Rightarrow> pyval \<Rightarrow> exn + int" where
  "coerce_int env v =
     (case py_int env v of
        Inl e \<Rightarrow> Inl (if e = TypeError \<or> e = ValueError then RuntimeError else e)
      | Inr n \<Rightarrow> Inr n)"

fun coerce_bool :: "pyval \<Rightarrow> exn + bool" where
  "coerce_bool (PBool b) = Inr b"
| "coerce_bool v = Inl RuntimeError"

text \<open>The locals of the loop.\<close>

record resolve_state =
  rs_entries :: "mumble_entry list"
  rs_slugs :: "(pystr \<times> pystr) list"
  rs_dtmf :: "(pystr \<times> pystr) list"
  rs_autoconnect :: "pystr option"

definition resolve_init :: resolve_state where
  "resolve_init = \<lparr>rs_entries = [], rs_slugs = [], rs_dtmf = [], rs_autoconnect = None\<rparr>"

definition build_entry ::
  "py_env \<Rightarrow> table \<Rightarrow> pystr \<Rightarrow> pystr \<Rightarrow> pystr \<Rightarrow> pystr \<Rightarrow> exn + mumble_entry" where
  "build_entry env t name slug host dtmf =
     (case coerce_int env (table_get t ''port'' (PInt DEFAULT_MUMBLE_PORT)) of
        Inl e \<Rightarrow> Inl e
      | Inr port \<Rightarrow>
     (case coerce_bool (table_get t ''tx_to_rf'' (PBool DEFAULT_MUMBLE_TX_TO_RF)) of
        Inl e \<Rightarrow> Inl e
      | Inr tx_to_rf \<Rightarrow>
     (case coerce_bool (table_get t ''autoconnect'' (PBool False)) of
        Inl e \<Rightarrow> Inl e
      | Inr autoconnect \<Rightarrow>
          Inr \<lparr>me_name = name, me_host = host, me_slug = slug, me_port = port,
               me_channel = str_or_empty (table_get t ''channel'' (PStr DEFAULT_MUMBLE_CHANNEL)),
               me_dtmf = dtmf, me_tx_to_rf = tx_to_rf, me_autoconnect = autoconnect,
               me_password = str_or_empty (table_get t ''password'' (PStr []))\<rparr>)))"

text \<open>The body of the loop up to the entry's combo, and from there on.\<close>

definition finish_entry :: "mumble_entry \<Rightarrow> resolve_state \<Rightarrow> exn + resolve_state" where
  "finish_entry e r =
     (if me_autoconnect e \<and> rs_autoconnect r \<noteq> None then Inl RuntimeError
      else Inr (r\<lparr>rs_entries := rs_entries r @ [e],
                  rs_autoconnect := (if me_autoconnect e then Some (me_name e) else rs_autoconnect r)\<rparr>))"

definition resolve_entry :: "py_env \<Rightarrow> table \<Rightarrow> resolve_state \<Rightarrow> exn + resolve_state" where
  "resolve_entry env t r =
     (if ps ''username'' \<in> fst ` set t then Inl RuntimeError
      else if \<not> fst ` set t \<subseteq> set KNOWN_FIELDS then Inl RuntimeError
      else let name = strip_by py_isspace (str_or_empty (table_get t ''name'' (PStr []))) in
        if name = [] \<or> MAX_NAME_LENGTH < length name then Inl RuntimeError
        else let slug = slugify env name in
          if slug = [] \<or> slug \<in> fst ` set (rs_slugs r) then Inl RuntimeError
          else let host = strip_by py_isspace (str_or_empty (table_get t ''host'' (PStr [])));
                   dtmf = str_or_empty (table_get t ''dtmf'' (PStr [])) in
            if host = [] then Inl RuntimeError
            else if dtmf \<noteq> [] \<and> (\<not> combo_ok dtmf \<or> dtmf \<in> fst ` set (rs_dtmf r)) then Inl RuntimeError
            else (case build_entry env t name slug host dtmf of
                    Inl e \<Rightarrow> Inl e
                  | Inr e \<Rightarrow>
                      finish_entry e (r\<lparr>rs_slugs := rs_slugs r @ [(slug, name)],
                        rs_dtmf := (if dtmf \<noteq> [] then rs_dtmf r @ [(dtmf, name)] else rs_dtmf r)\<rparr>)))"

fun resolve_loop :: "py_env \<Rightarrow> table list \<Rightarrow> resolve_state \<Rightarrow> exn + resolve_state" where
  "resolve_loop env [] r = Inr r"
| "resolve_loop env (t # ts) r =
     (case resolve_entry env t r of Inl e \<Rightarrow> Inl e | Inr r' \<Rightarrow> resolve_loop env ts r')"

definition resolve_mumble_entries :: "py_env \<Rightarrow> table list option \<Rightarrow> exn + mumble_entry list" where
  "resolve_mumble_entries env raw =
     (case raw of
        None \<Rightarrow> Inr []
      | Some ts \<Rightarrow> (case resolve_loop env ts resolve_init of Inl e \<Rightarrow> Inl e | Inr r \<Rightarrow> Inr (rs_entries r)))"

subsection \<open>The cross-check with the keypad\<close>

fun check_link_entries :: "mumble_entry list \<Rightarrow> pystr \<Rightarrow> (pystr \<times> pystr) list \<Rightarrow> exn + unit" where
  "check_link_entries [] off bindings = Inr ()"
| "check_link_entries (e # es) off bindings =
     (if me_dtmf e = [] then check_link_entries es off bindings
      else if me_dtmf e = off then Inl RuntimeError
      else if me_dtmf e \<in> fst ` set bindings then Inl RuntimeError
      else check_link_entries es off bindings)"

definition validate_link_digits ::
  "mumble_entry list \<Rightarrow> pystr \<Rightarrow> (pystr \<times> pystr) list \<Rightarrow> exn + unit" where
  "validate_link_digits entries disconnect_dtmf bindings =
     (case check_combo disconnect_dtmf of
        Inl e \<Rightarrow> Inl e
      | Inr u \<Rightarrow>
     (case check_link_entries entries disconnect_dtmf bindings of
        Inl e \<Rightarrow> Inl e
      | Inr u \<Rightarrow> if disconnect_dtmf \<in> fst ` set bindings then Inl RuntimeError else Inr ()))"

subsection \<open>The rows of the settings editor\<close>

text \<open>\<open>_entry_to_table\<close>, what is written to the file, and a row of \<open>_serialize_entries\<close>, what the editor
  gets; \<open>set_secrets\<close> are the names set on the secrets channel.\<close>

definition entry_to_table :: "mumble_entry \<Rightarrow> table" where
  "entry_to_table e =
     [(ps ''name'', PStr (me_name e)), (ps ''host'', PStr (me_host e))] @
     (if me_port e \<noteq> DEFAULT_MUMBLE_PORT then [(ps ''port'', PInt (me_port e))] else []) @
     (if me_channel e \<noteq> DEFAULT_MUMBLE_CHANNEL then [(ps ''channel'', PStr (me_channel e))] else []) @
     (if me_dtmf e \<noteq> [] then [(ps ''dtmf'', PStr (me_dtmf e))] else []) @
     (if me_tx_to_rf e \<noteq> DEFAULT_MUMBLE_TX_TO_RF then [(ps ''tx_to_rf'', PBool (me_tx_to_rf e))] else []) @
     (if me_autoconnect e then [(ps ''autoconnect'', PBool (me_autoconnect e))] else []) @
     (if me_password e \<noteq> [] then [(ps ''password'', PStr (me_password e))] else [])"

definition entry_row :: "pystr list \<Rightarrow> mumble_entry \<Rightarrow> table" where
  "entry_row set_secrets e =
     [(ps ''name'', PStr (me_name e)), (ps ''host'', PStr (me_host e)), (ps ''slug'', PStr (me_slug e)),
      (ps ''port'', PInt (me_port e)), (ps ''channel'', PStr (me_channel e)), (ps ''dtmf'', PStr (me_dtmf e)),
      (ps ''tx_to_rf'', PBool (me_tx_to_rf e)), (ps ''autoconnect'', PBool (me_autoconnect e)),
      (ps ''password'', PStr (me_password e)),
      (ps ''password_set'', PBool (mumble_password_secret (me_slug e) \<in> set set_secrets))]"

subsection \<open>Facts about stripping and slugs\<close>

lemma set_rstrip_by: "set (rstrip_by p s) \<subseteq> set s"
  unfolding rstrip_by_def by (metis set_dropWhileD set_rev subsetI)

lemma set_strip_by: "set (strip_by p s) \<subseteq> set s"
  unfolding strip_by_def using set_rstrip_by set_dropWhileD by fastforce

lemma length_rstrip_by: "length (rstrip_by p s) \<le> length s"
  using length_dropWhile_le [of p "rev s"] by (simp add: rstrip_by_def)

lemma rstrip_by_last: "s \<noteq> [] \<Longrightarrow> \<not> p (last s) \<Longrightarrow> rstrip_by p s = s"
  by (cases s rule: rev_cases) (simp_all add: rstrip_by_def)

lemma rstrip_by_ends: "rstrip_by p s \<noteq> [] \<Longrightarrow> \<not> p (last (rstrip_by p s))"
  unfolding rstrip_by_def by (metis hd_dropWhile last_rev rev_is_Nil_conv)

lemma rstrip_by_prefix: "rstrip_by p s = take (length (rstrip_by p s)) s"
proof -
  have "s = rstrip_by p s @ rev (takeWhile p (rev s))"
    unfolding rstrip_by_def by (metis rev_append rev_rev_ident takeWhile_dropWhile_id)
  then show ?thesis by (metis append_eq_conv_conj)
qed

lemma hd_rstrip_by: "rstrip_by p s \<noteq> [] \<Longrightarrow> hd (rstrip_by p s) = hd s"
  by (metis hd_take rstrip_by_prefix length_greater_0_conv)

lemma strip_by_id: "s = [] \<or> \<not> p (hd s) \<and> \<not> p (last s) \<Longrightarrow> strip_by p s = s"
proof (cases s)
  case (Cons a list)
  assume "s = [] \<or> \<not> p (hd s) \<and> \<not> p (last s)"
  with Cons have "dropWhile p s = s" "rstrip_by p s = s" using rstrip_by_last [of s p] by auto
  then show ?thesis by (simp add: strip_by_def)
qed (simp add: strip_by_def rstrip_by_def)

lemma strip_by_ends: "strip_by p s \<noteq> [] \<Longrightarrow> \<not> p (hd (strip_by p s)) \<and> \<not> p (last (strip_by p s))"
  by (metis hd_dropWhile hd_rstrip_by rstrip_by_def rstrip_by_ends strip_by_def dropWhile.simps(1) rev.simps(1))

lemma strip_by_idem [simp]: "strip_by p (strip_by p s) = strip_by p s"
  by (rule strip_by_id) (use strip_by_ends in blast)

text \<open>A text the slug pattern leaves alone: slug characters and single underscores between them.\<close>

definition slug_text :: "pystr \<Rightarrow> bool" where
  "slug_text s \<longleftrightarrow> list_all (\<lambda>c. slug_char c \<or> c = 95) s \<and> successively (\<lambda>a b. \<not> (a = 95 \<and> b = 95)) s"

definition slug_ok :: "pystr \<Rightarrow> bool" where
  "slug_ok s \<longleftrightarrow> s \<noteq> [] \<and> length s \<le> SLUG_MAX \<and> slug_text s \<and> hd s \<noteq> 95 \<and> last s \<noteq> 95"

lemma slug_char_not_underscore: "slug_char c \<Longrightarrow> c \<noteq> 95"
  by (auto simp: slug_char_def)

lemma slug_text_cons:
  "slug_text (c # s) \<longleftrightarrow> (slug_char c \<or> c = 95) \<and> slug_text s \<and> (c = 95 \<longrightarrow> s = [] \<or> hd s \<noteq> 95)"
  by (cases s) (auto simp: slug_text_def)

lemma slug_text_Nil: "slug_text []"
  by (simp add: slug_text_def)

lemma slug_runs_text: "slug_text (slug_runs inside s) \<and> (inside \<longrightarrow> slug_runs inside s = [] \<or> hd (slug_runs inside s) \<noteq> 95)"
  by (induction inside s rule: slug_runs.induct) (auto simp: slug_text_cons slug_text_Nil slug_char_not_underscore)

lemma slug_runs_id: "slug_text s \<Longrightarrow> (inside \<Longrightarrow> s = [] \<or> hd s \<noteq> 95) \<Longrightarrow> slug_runs inside s = s"
  by (induction s arbitrary: inside) (auto simp: slug_text_cons slug_char_def)

lemma slug_text_append: "slug_text (a @ b) \<Longrightarrow> slug_text a \<and> slug_text b"
  by (auto simp: slug_text_def successively_append_iff)

lemma slug_text_take: "slug_text s \<Longrightarrow> slug_text (take n s)"
  by (metis append_take_drop_id slug_text_append)

lemma slug_text_dropWhile: "slug_text s \<Longrightarrow> slug_text (dropWhile p s)"
  by (metis takeWhile_dropWhile_id slug_text_append)

lemma slug_text_rstrip: "slug_text s \<Longrightarrow> slug_text (rstrip_by p s)"
  by (metis rstrip_by_prefix slug_text_take)

lemma slugify_ok: "slugify env name = [] \<or> slug_ok (slugify env name)"
proof (cases "slugify env name = []")
  case False
  let ?b = "strip_by (\<lambda>c. c = 95) (slug_runs False (pe_lower env name))"
  let ?s = "rstrip_by (\<lambda>c. c = 95) (take SLUG_MAX ?b)"
  have s: "slugify env name = ?s" by (simp add: slugify_def)
  have t: "slug_text ?s"
    by (simp add: slug_text_rstrip slug_text_take slug_text_dropWhile slug_runs_text strip_by_def)
  have l: "length ?s \<le> SLUG_MAX" using length_rstrip_by [of "\<lambda>c. c = 95" "take SLUG_MAX ?b"] by simp
  have ne: "?s \<noteq> []" using False s by simp
  then have b: "take SLUG_MAX ?b \<noteq> []" by (metis dropWhile.simps(1) rev.simps(1) rstrip_by_def)
  have "hd ?s = hd ?b" using hd_rstrip_by [OF ne] hd_take [of SLUG_MAX ?b] b by (simp add: SLUG_MAX_def)
  moreover have "hd ?b \<noteq> 95" using strip_by_ends [of "\<lambda>c. c = 95" "slug_runs False (pe_lower env name)"] b by auto
  ultimately show ?thesis
    unfolding slug_ok_def s using t l ne rstrip_by_ends [OF ne] by simp
qed simp

text \<open>What the documentation of \<open>str.lower\<close> says of ASCII: it is the case mapping.\<close>

definition lower_is_ascii :: "py_env \<Rightarrow> bool" where
  "lower_is_ascii env \<longleftrightarrow>
     (\<forall>s. (\<forall>c \<in> set s. c < 128) \<longrightarrow> pe_lower env s = map (\<lambda>c. if 65 \<le> c \<and> c \<le> 90 then c + 32 else c) s)"

lemma slugify_slug:
  assumes "lower_is_ascii env" "slug_ok s"
  shows "slugify env s = s"
proof -
  have c: "slug_char c \<or> c = 95" if "c \<in> set s" for c
    using that assms(2) by (auto simp: slug_ok_def slug_text_def list_all_iff)
  have "map (\<lambda>c. if 65 \<le> c \<and> c \<le> 90 then c + 32 else c) s = s"
    by (rule map_idI) (use c in \<open>fastforce simp: slug_char_def\<close>)
  moreover have "\<forall>c \<in> set s. c < 128" using c by (fastforce simp: slug_char_def)
  ultimately have "pe_lower env s = s" using assms(1) by (simp add: lower_is_ascii_def)
  moreover have "slug_runs False s = s" using assms(2) by (simp add: slug_ok_def slug_runs_id)
  moreover have "strip_by (\<lambda>c. c = 95) s = s" using assms(2) by (simp add: slug_ok_def strip_by_id)
  ultimately show ?thesis using assms(2) by (simp add: slugify_def slug_ok_def rstrip_by_last)
qed

subsection \<open>A resolved table\<close>

definition entry_ok :: "py_env \<Rightarrow> mumble_entry \<Rightarrow> bool" where
  "entry_ok env e \<longleftrightarrow>
     me_name e \<noteq> [] \<and> length (me_name e) \<le> MAX_NAME_LENGTH \<and> strip_by py_isspace (me_name e) = me_name e \<and>
     me_slug e = slugify env (me_name e) \<and> me_slug e \<noteq> [] \<and>
     me_host e \<noteq> [] \<and> strip_by py_isspace (me_host e) = me_host e \<and> (me_dtmf e = [] \<or> combo_ok (me_dtmf e))"

definition combos :: "mumble_entry list \<Rightarrow> pystr list" where
  "combos es = filter (\<lambda>d. d \<noteq> []) (map me_dtmf es)"

definition entries_ok :: "py_env \<Rightarrow> mumble_entry list \<Rightarrow> bool" where
  "entries_ok env es \<longleftrightarrow> list_all (entry_ok env) es \<and> distinct (map me_slug es) \<and> distinct (combos es) \<and>
     length (filter me_autoconnect es) \<le> 1"

text \<open>The loop's locals after the entries \<open>es\<close>.\<close>

definition state_of :: "mumble_entry list \<Rightarrow> resolve_state" where
  "state_of es = \<lparr>rs_entries = es, rs_slugs = map (\<lambda>e. (me_slug e, me_name e)) es,
     rs_dtmf = map (\<lambda>e. (me_dtmf e, me_name e)) (filter (\<lambda>e. me_dtmf e \<noteq> []) es),
     rs_autoconnect = (case filter me_autoconnect es of [] \<Rightarrow> None | e # es' \<Rightarrow> Some (me_name e))\<rparr>"

text \<open>The table says what the entry says.\<close>

definition table_reads :: "py_env \<Rightarrow> table \<Rightarrow> mumble_entry \<Rightarrow> bool" where
  "table_reads env t e \<longleftrightarrow> ps ''username'' \<notin> fst ` set t \<and> fst ` set t \<subseteq> set KNOWN_FIELDS \<and>
     strip_by py_isspace (str_or_empty (table_get t ''name'' (PStr []))) = me_name e \<and>
     strip_by py_isspace (str_or_empty (table_get t ''host'' (PStr []))) = me_host e \<and>
     str_or_empty (table_get t ''dtmf'' (PStr [])) = me_dtmf e \<and>
     build_entry env t (me_name e) (me_slug e) (me_host e) (me_dtmf e) = Inr e"

lemma build_entry_fields:
  "build_entry env t name slug host dtmf = Inr e \<Longrightarrow>
     me_name e = name \<and> me_slug e = slug \<and> me_host e = host \<and> me_dtmf e = dtmf"
  by (auto simp: build_entry_def split: sum.splits)

lemma combos_image: "fst ` set (rs_dtmf (state_of es)) = set (combos es)"
  by (auto simp: state_of_def combos_def image_iff)

text \<open>One table: taken exactly when it reads as an entry that keeps the table sound.\<close>

lemma state_of_snoc:
  assumes "me_autoconnect e \<longrightarrow> filter me_autoconnect es = []"
  shows "finish_entry e ((state_of es)\<lparr>rs_slugs := rs_slugs (state_of es) @ [(me_slug e, me_name e)],
      rs_dtmf := (if me_dtmf e \<noteq> [] then rs_dtmf (state_of es) @ [(me_dtmf e, me_name e)] else rs_dtmf (state_of es))\<rparr>)
    = Inr (state_of (es @ [e]))"
  using assms by (auto simp: finish_entry_def state_of_def split: list.splits)

lemma entries_ok_snoc:
  "entries_ok env (es @ [e]) \<longleftrightarrow> entries_ok env es \<and> entry_ok env e \<and> me_slug e \<notin> fst ` set (rs_slugs (state_of es)) \<and>
     (me_dtmf e = [] \<or> me_dtmf e \<notin> fst ` set (rs_dtmf (state_of es))) \<and>
     (me_autoconnect e \<longrightarrow> filter me_autoconnect es = [])"
  unfolding combos_image by (auto simp: entries_ok_def combos_def state_of_def image_iff)

lemma resolve_entry_takes:
  assumes "table_reads env t e" "entries_ok env (es @ [e])"
  shows "resolve_entry env t (state_of es) = Inr (state_of (es @ [e]))"
proof -
  note r = assms(1)[unfolded table_reads_def]
  note o = assms(2)[unfolded entries_ok_snoc entry_ok_def]
  have f: "slugify env (me_name e) = me_slug e \<and> me_slug e \<noteq> [] \<and> me_slug e \<notin> fst ` set (rs_slugs (state_of es)) \<and>
    me_name e \<noteq> [] \<and> length (me_name e) \<le> MAX_NAME_LENGTH \<and> me_host e \<noteq> [] \<and>
    \<not> (me_dtmf e \<noteq> [] \<and> (\<not> combo_ok (me_dtmf e) \<or> me_dtmf e \<in> fst ` set (rs_dtmf (state_of es)))) \<and>
    (me_autoconnect e \<longrightarrow> filter me_autoconnect es = [])"
    using o by argo
  from r f state_of_snoc [of e es] show ?thesis by (simp add: resolve_entry_def Let_def not_less)
qed

lemma resolve_entry_gives:
  assumes "resolve_entry env t (state_of es) = Inr r" "entries_ok env es"
  shows "\<exists>e. r = state_of (es @ [e]) \<and> table_reads env t e \<and> entries_ok env (es @ [e])"
proof -
  let ?name = "strip_by py_isspace (str_or_empty (table_get t ''name'' (PStr [])))"
  let ?host = "strip_by py_isspace (str_or_empty (table_get t ''host'' (PStr [])))"
  let ?dtmf = "str_or_empty (table_get t ''dtmf'' (PStr []))"
  from assms(1) obtain e where e: "build_entry env t ?name (slugify env ?name) ?host ?dtmf = Inr e"
    and g: "ps ''username'' \<notin> fst ` set t" "fst ` set t \<subseteq> set KNOWN_FIELDS" "?name \<noteq> []" "length ?name \<le> MAX_NAME_LENGTH"
      "slugify env ?name \<noteq> []" "slugify env ?name \<notin> fst ` set (rs_slugs (state_of es))" "?host \<noteq> []"
      "?dtmf = [] \<or> combo_ok ?dtmf \<and> ?dtmf \<notin> fst ` set (rs_dtmf (state_of es))"
    and f: "finish_entry e ((state_of es)\<lparr>rs_slugs := rs_slugs (state_of es) @ [(slugify env ?name, ?name)],
      rs_dtmf := (if ?dtmf \<noteq> [] then rs_dtmf (state_of es) @ [(?dtmf, ?name)] else rs_dtmf (state_of es))\<rparr>) = Inr r"
    by (auto simp: resolve_entry_def Let_def not_less split: if_splits sum.splits)
  note fields = build_entry_fields [OF e]
  from f have auto: "me_autoconnect e \<longrightarrow> filter me_autoconnect es = []"
    by (auto simp: finish_entry_def state_of_def split: if_splits list.splits)
  from f have "finish_entry e ((state_of es)\<lparr>rs_slugs := rs_slugs (state_of es) @ [(me_slug e, me_name e)],
      rs_dtmf := (if me_dtmf e \<noteq> [] then rs_dtmf (state_of es) @ [(me_dtmf e, me_name e)] else rs_dtmf (state_of es))\<rparr>) = Inr r"
    unfolding fields [THEN conjunct1] using fields by metis
  with state_of_snoc [OF auto] have "r = state_of (es @ [e])" by simp
  moreover have "table_reads env t e" using e g fields by (simp add: table_reads_def)
  moreover have "entry_ok env e" using g fields by (auto simp: entry_ok_def)
  moreover from this have "entries_ok env (es @ [e])"
    unfolding entries_ok_snoc using assms(2) g fields auto by auto
  ultimately show ?thesis by blast
qed

lemma resolve_loop_takes:
  "list_all2 (table_reads env) ts es2 \<Longrightarrow> entries_ok env (es @ es2) \<Longrightarrow>
     resolve_loop env ts (state_of es) = Inr (state_of (es @ es2))"
proof (induction ts arbitrary: es es2)
  case (Cons t ts)
  then obtain e es3 where e: "es2 = e # es3" "table_reads env t e" "list_all2 (table_reads env) ts es3"
    by (auto simp: list_all2_Cons1)
  have "entries_ok env (es @ [e])"
    using Cons.prems(2) by (auto simp: e(1) entries_ok_def combos_def)
  with Cons.IH [of es3 "es @ [e]"] resolve_entry_takes [OF e(2)] e Cons.prems(2) show ?case by simp
qed (simp add: state_of_def)

lemma resolve_loop_gives:
  "resolve_loop env ts (state_of es) = Inr r \<Longrightarrow> entries_ok env es \<Longrightarrow>
     \<exists>es2. r = state_of (es @ es2) \<and> list_all2 (table_reads env) ts es2 \<and> entries_ok env (es @ es2)"
proof (induction ts arbitrary: es)
  case (Cons t ts)
  from Cons.prems(1) obtain r1 where r1: "resolve_entry env t (state_of es) = Inr r1" "resolve_loop env ts r1 = Inr r"
    by (auto split: sum.splits)
  from resolve_entry_gives [OF r1(1) Cons.prems(2)] obtain e where
    e: "r1 = state_of (es @ [e])" "table_reads env t e" "entries_ok env (es @ [e])" by blast
  from Cons.IH [OF r1(2)[unfolded e(1)] e(3)] obtain es2 where
    "r = state_of (es @ e # es2)" "list_all2 (table_reads env) ts es2" "entries_ok env (es @ e # es2)" by auto
  with e(2) show ?case by (intro exI [of _ "e # es2"]) simp
qed simp

lemma resolve_init_state: "resolve_init = state_of []"
  by (simp add: resolve_init_def state_of_def)

lemma entries_ok_Nil: "entries_ok env []"
  by (simp add: entries_ok_def combos_def)

lemma resolve_entries_iff:
  "resolve_mumble_entries env (Some ts) = Inr es \<longleftrightarrow> list_all2 (table_reads env) ts es \<and> entries_ok env es"
  using resolve_loop_takes [of env ts es "[]"] resolve_loop_gives [OF _ entries_ok_Nil, of env ts]
  by (auto simp: resolve_mumble_entries_def resolve_init_state state_of_def split: sum.splits)

text \<open>What a resolved table is: one entry per line, in order; slugs are derived from the names, non-empty
  and distinct; names and hosts are non-empty and stripped; combos are keyable and distinct; at most
  one entry connects at start. Hence no two entries share a password on the secrets channel.\<close>

theorem resolved_entries_sound:
  assumes "resolve_mumble_entries env (Some ts) = Inr es"
  shows "length es = length ts \<and> list_all (entry_ok env) es \<and> list_all (\<lambda>e. slug_ok (me_slug e)) es \<and>
    distinct (map (\<lambda>e. mumble_password_secret (me_slug e)) es) \<and> distinct (combos es) \<and>
    length (filter me_autoconnect es) \<le> 1"
proof -
  from assms have r: "list_all2 (table_reads env) ts es" "entries_ok env es" by (simp_all add: resolve_entries_iff)
  have "slug_ok (me_slug e)" if "entry_ok env e" for e
    using that slugify_ok [of env "me_name e"] by (auto simp: entry_ok_def)
  then have "list_all (\<lambda>e. slug_ok (me_slug e)) es" using r(2) by (auto simp: entries_ok_def list_all_iff)
  moreover have "distinct (map (\<lambda>e. mumble_password_secret (me_slug e)) es)"
    using r(2) by (auto simp: entries_ok_def mumble_password_secret_def distinct_map inj_on_def)
  ultimately show ?thesis using r by (auto simp: entries_ok_def dest: list_all2_lengthD)
qed

lemma resolved_ok: "resolve_mumble_entries env raw = Inr es \<Longrightarrow> entries_ok env es"
  using resolve_entries_iff by (cases raw) (auto simp: resolve_mumble_entries_def entries_ok_Nil)

text \<open>The editor's round trips.\<close>

lemma table_get_Cons: "table_get ((k, v) # t) f d = (if k = ps f then v else table_get t f d)"
  by (simp add: table_get_def)

lemma table_get_Nil: "table_get [] f d = d"
  by (simp add: table_get_def)

lemma ps_eq_simps: "ps a = ps b \<longleftrightarrow> a = b"
  by (rule ps_inj)

lemma row_reads: "entry_ok env e \<Longrightarrow> table_reads env (entry_row secrets e) e"
  by (simp add: table_reads_def entry_row_def table_get_Cons table_get_Nil ps_inj KNOWN_FIELDS_def entry_ok_def
      str_or_empty_def build_entry_def coerce_int_def)

lemma saved_table_reads: "entry_ok env e \<Longrightarrow> table_reads env (entry_to_table e) e"
  by (simp add: table_reads_def entry_to_table_def table_get_Cons table_get_Nil ps_inj KNOWN_FIELDS_def entry_ok_def
      str_or_empty_def build_entry_def coerce_int_def DEFAULT_MUMBLE_CHANNEL_def DEFAULT_MUMBLE_TX_TO_RF_def)

lemma entries_round_trip_lemma:
  assumes "resolve_mumble_entries env raw = Inr es"
  shows "resolve_mumble_entries env (Some (map (entry_row secrets) es)) = Inr es \<and>
    resolve_mumble_entries env (Some (map entry_to_table es)) = Inr es"
proof -
  note ok = resolved_ok [OF assms]
  then have "\<forall>e \<in> set es. entry_ok env e" by (simp add: entries_ok_def list_all_iff)
  then have "list_all2 (table_reads env) (map (entry_row secrets) es) es"
    "list_all2 (table_reads env) (map entry_to_table es) es"
    by (simp_all add: list_all2_map1 list_all2_same row_reads saved_table_reads list.rel_map list.rel_refl_strong)
  with ok show ?thesis by (simp add: resolve_entries_iff)
qed

text \<open>C36. The settings editor's round trip: what GET serves for a resolved table, PUT back unchanged, and
  what a PUT writes to the file, read at the next start, are both the same table again.\<close>

theorem entries_round_trip:
  assumes "resolve_mumble_entries env raw = Inr es"
  shows "resolve_mumble_entries env (Some (map (entry_row secrets) es)) = Inr es \<and>
    resolve_mumble_entries env (Some (map entry_to_table es)) = Inr es"
  by (rule entries_round_trip_lemma [OF assms])

text \<open>A slug is at most 32 slug characters with single inner underscores; slugging is idempotent, so
  the password endpoint finds an entry by its name and by its slug alike.\<close>

theorem slug_names_its_entry:
  assumes "lower_is_ascii env" "resolve_mumble_entries env (Some ts) = Inr es" "e \<in> set es"
  shows "slugify env (me_name e) = me_slug e \<and> slugify env (me_slug e) = me_slug e \<and> slug_ok (me_slug e)"
proof -
  have "entry_ok env e" using assms(2,3) by (simp add: resolve_entries_iff entries_ok_def list_all_iff)
  then have s: "me_slug e = slugify env (me_name e)" "slug_ok (me_slug e)"
    using slugify_ok [of env "me_name e"] by (auto simp: entry_ok_def)
  then show ?thesis using slugify_slug [OF assms(1) s(2)] by simp
qed

text \<open>A demonstration environment: ASCII lower case, no number in a string.\<close>

definition demo_env :: py_env where
  "demo_env = \<lparr>pe_lower = map (\<lambda>c. if 65 \<le> c \<and> c \<le> 90 then c + 32 else c), pe_int = (\<lambda>s. Inl ValueError)\<rparr>"

definition demo_tables :: "table list" where
  "demo_tables =
     [[(ps ''name'', PStr (ps '' Club Net 1 '')), (ps ''host'', PStr (ps ''a.b'')), (ps ''dtmf'', PStr (ps ''13''))],
      [(ps ''name'', PStr (ps ''x'')), (ps ''host'', PStr (ps ''c'')), (ps ''autoconnect'', PBool True)]]"

definition demo_entries :: "mumble_entry list" where
  "demo_entries =
     [\<lparr>me_name = ps ''Club Net 1'', me_host = ps ''a.b'', me_slug = ps ''club_net_1'', me_port = 64738, me_channel = [],
       me_dtmf = ps ''13'', me_tx_to_rf = True, me_autoconnect = False, me_password = []\<rparr>,
      \<lparr>me_name = ps ''x'', me_host = ps ''c'', me_slug = ps ''x'', me_port = 64738, me_channel = [],
       me_dtmf = [], me_tx_to_rf = True, me_autoconnect = True, me_password = []\<rparr>]"

lemma demo_env_ascii: "lower_is_ascii demo_env"
  by (simp add: lower_is_ascii_def demo_env_def)

lemma demo_resolved: "resolve_mumble_entries demo_env (Some demo_tables) = Inr demo_entries"
  by code_simp

theorem resolved_entries_sound_witness:
  "length demo_entries = 2 \<and> distinct (combos demo_entries)"
  using resolved_entries_sound [OF demo_resolved] by (simp add: demo_tables_def)

theorem entries_round_trip_witness:
  "resolve_mumble_entries demo_env (Some (map entry_to_table demo_entries)) = Inr demo_entries"
  using entries_round_trip [OF demo_resolved] by blast

theorem slug_names_its_entry_witness: "slugify demo_env (ps ''club_net_1'') = ps ''club_net_1''"
  using slug_names_its_entry [OF demo_env_ascii demo_resolved, of "demo_entries ! 0"]
  by (simp add: demo_entries_def)

text \<open>A port that is not finite escapes the table's checks as an \<open>OverflowError\<close>.\<close>

lemma infinite_port_escapes:
  "resolve_mumble_entries demo_env (Some [[(ps ''name'', PStr (ps ''x'')), (ps ''host'', PStr (ps ''c'')),
     (ps ''port'', PObj (ps ''inf'') True (Inl OverflowError))]]) = Inl OverflowError"
  by code_simp

end
