(* ===== verification/KeypadBuild.thy ===== *)
theory KeypadBuild
  imports MumbleEntries "HOL-Library.Multiset"
begin

section \<open>The whole keypad\<close>

text \<open>
  The keypad part of \<open>build_controller\<close> in \<open>radio_server/controller/engine.py\<close>: service bindings, Mumble
  combos and built-ins put together, with the catalog the operator sees; and the two endpoints of
  \<open>api/settings.py\<close> that write the entry table and an entry's password. Rendering of announcements and
  the files are left out.
\<close>

record 's keypad =
  kp_registry :: "'s registry"
  kp_id_digits :: "pystr set"
  kp_logout_digits :: "pystr set"
  kp_link_digits :: "pystr \<Rightarrow> pystr option"
  kp_link_off_digits :: "pystr set"
  kp_catalog :: "(pystr \<times> pystr \<times> pystr) list"

definition builtin_description :: "pystr \<Rightarrow> pystr" where
  "builtin_description i =
     (if i = ID_BUILTIN then ps ''Play the station ID'' else ps ''End the session (voice confirmation)'')"

definition spoken_name :: "mumble_entry \<Rightarrow> pystr" where
  "spoken_name e = map (\<lambda>c. if c = 95 then 32 else c) (me_name e)"

definition builtin_rows :: "(pystr \<times> pystr) list \<Rightarrow> (pystr \<times> pystr \<times> pystr) list" where
  "builtin_rows bindings =
     map (\<lambda>(digit, i). (digit, i, builtin_description i)) (filter (\<lambda>(digit, i). i \<in> set BUILTIN_IDS) bindings)"

definition link_rows :: "mumble_entry list \<Rightarrow> pystr \<Rightarrow> (pystr \<times> pystr \<times> pystr) list" where
  "link_rows entries off =
     map (\<lambda>e. (me_dtmf e, ps ''link:'' @ me_slug e, ps ''Connect the Mumble link to '' @ spoken_name e))
       (filter (\<lambda>e. me_dtmf e \<noteq> []) entries) @
     (if entries \<noteq> [] then [(off, ps ''link-off'', ps ''Disconnect the Mumble link'')] else [])"

definition build_keypad ::
  "('c, 's) plugin list \<Rightarrow> (pystr \<times> pystr) list option \<Rightarrow> mumble_entry list \<Rightarrow> pystr \<Rightarrow> 'c \<Rightarrow> exn + 's keypad" where
  "build_keypad plugins service_bindings entries off ctx =
     (case resolve_bindings service_bindings (map pl_id plugins) of
        Inl e \<Rightarrow> Inl e
      | Inr bindings \<Rightarrow>
     (case if entries \<noteq> [] then validate_link_digits entries off bindings else Inr () of
        Inl e \<Rightarrow> Inl e
      | Inr u \<Rightarrow>
     (case build_registry plugins bindings ctx [] of
        Inl e \<Rightarrow> Inl e
      | Inr registry \<Rightarrow>
          Inr \<lparr>kp_registry = registry,
               kp_id_digits = builtin_digits bindings ID_BUILTIN,
               kp_logout_digits = builtin_digits bindings LOGOUT_BUILTIN,
               kp_link_digits = map_of (rev (map (\<lambda>e. (me_dtmf e, me_slug e)) (filter (\<lambda>e. me_dtmf e \<noteq> []) entries))),
               kp_link_off_digits = (if entries \<noteq> [] then {off} else {}),
               kp_catalog = sort_key fst (registry_catalog registry @ builtin_rows bindings @ link_rows entries off)\<rparr>)))"

text \<open>The handlers a digit is looked up in: built-ins, links, link-off, and the dispatcher's registry.\<close>

definition handlers :: "'s keypad \<Rightarrow> pystr \<Rightarrow> bool list" where
  "handlers kp digit =
     [digit \<in> kp_id_digits kp, digit \<in> kp_logout_digits kp, kp_link_digits kp digit \<noteq> None,
      digit \<in> kp_link_off_digits kp, registry_get (kp_registry kp) digit \<noteq> None]"

subsection \<open>The endpoints\<close>

text \<open>A \<open>RuntimeError\<close> becomes a 400. What is returned is the list written to the file and the rows served.\<close>

definition put_mumble_servers ::
  "py_env \<Rightarrow> table list \<Rightarrow> (pystr \<times> pystr) list option \<Rightarrow> pystr list \<Rightarrow> pystr \<Rightarrow> pystr list \<Rightarrow>
     exn + table list \<times> table list" where
  "put_mumble_servers env servers service_bindings plugin_ids off secrets =
     (case (case resolve_mumble_entries env (Some servers) of
              Inl e \<Rightarrow> Inl e
            | Inr entries \<Rightarrow>
           (case resolve_bindings service_bindings plugin_ids of
              Inl e \<Rightarrow> Inl e
            | Inr bindings \<Rightarrow>
           (case validate_link_digits entries off bindings of Inl e \<Rightarrow> Inl e | Inr u \<Rightarrow> Inr entries))) of
        Inl e \<Rightarrow> Inl (if e = RuntimeError then HTTPException 400 else e)
      | Inr entries \<Rightarrow> Inr (map entry_to_table entries, map (entry_row secrets) entries))"

text \<open>The name under which the password is saved.\<close>

definition set_mumble_password :: "py_env \<Rightarrow> pystr \<Rightarrow> table list option \<Rightarrow> exn + pystr" where
  "set_mumble_password env name file =
     (case resolve_mumble_entries env file of
        Inl e \<Rightarrow> Inl e
      | Inr entries \<Rightarrow>
          if slugify env name \<notin> me_slug ` set entries then Inl (HTTPException 404)
          else Inr (mumble_password_secret (slugify env name)))"

subsection \<open>Facts\<close>

lemma build_registry_digits:
  "build_registry plugins bindings ctx r = Inr r' \<Longrightarrow>
     fst ` set r' \<subseteq> fst ` set r \<union> {d. \<exists>t. (d, t) \<in> set bindings \<and> t \<in> set (map pl_id plugins)}"
proof (induction plugins bindings ctx r rule: build_registry.induct)
  case (2 plugins digit target_id bindings ctx r)
  let ?D = "\<lambda>bs. {d. \<exists>t. (d, t) \<in> set bs \<and> t \<in> set (map pl_id plugins)}"
  have mono: "?D bindings \<subseteq> ?D ((digit, target_id) # bindings)" by auto
  show ?case
  proof (cases "plugin_by_id plugins target_id")
    case None
    with 2 have "fst ` set r' \<subseteq> fst ` set r \<union> ?D bindings" by simp
    with mono show ?thesis by blast
  next
    case (Some p)
    then have i: "target_id \<in> set (map pl_id plugins)" "pl_id p = target_id"
      by (auto simp: plugin_by_id_def dest!: map_of_SomeD)
    show ?thesis
    proof (cases "pl_enabled p ctx")
      case True
      with 2 Some obtain s where s: "pl_build p ctx = Inr s"
        "build_registry plugins bindings ctx (registry_register digit (pl_id p) s (pl_description p) r) = Inr r'"
        by (auto split: sum.splits)
      from "2.IH"(2) [OF Some True s(1) s(2)]
      have "fst ` set r' \<subseteq> insert digit (fst ` set r) \<union> ?D bindings" by (simp add: registry_register_def dom_update)
      moreover have "digit \<in> ?D ((digit, target_id) # bindings)" using i by auto
      ultimately show ?thesis using mono by blast
    next
      case False
      with 2 Some have "fst ` set r' \<subseteq> fst ` set r \<union> ?D bindings" by simp
      with mono show ?thesis by blast
    qed
  qed
qed simp

lemma build_registry_distinct:
  "build_registry plugins bindings ctx r = Inr r' \<Longrightarrow> distinct (map fst r) \<Longrightarrow> distinct (map fst r')"
  by (induction plugins bindings ctx r rule: build_registry.induct)
    (auto simp: registry_register_def distinct_update split: option.splits if_splits sum.splits)

lemma build_registry_total:
  "\<forall>p \<in> set plugins. \<exists>s. pl_build p ctx = Inr s \<Longrightarrow> \<exists>r'. build_registry plugins bindings ctx r = Inr r'"
proof (induction plugins bindings ctx r rule: build_registry.induct)
  case (2 plugins digit target_id bindings ctx r)
  have "p \<in> set plugins" if "plugin_by_id plugins target_id = Some p" for p
    using that by (auto simp: plugin_by_id_def dest!: map_of_SomeD)
  with 2 show ?case by (fastforce split: option.splits sum.splits)
qed simp

lemma resolve_bindings_sound:
  assumes "resolve_bindings raw ids = Inr b"
  shows "distinct (map fst b) \<and> (\<forall>(d, t) \<in> set b. is_dtmf_digit d \<and> (t \<in> set ids \<or> t \<in> set BUILTIN_IDS) \<or> raw = None)"
proof (cases raw)
  case None
  with assms show ?thesis
    by (auto simp: resolve_bindings_def DEFAULT_BINDINGS_def ID_DIGIT_def TIME_DIGIT_def LOGOUT_DIGIT_def ps_inj)
next
  case (Some t)
  with assms resolve_table_ok [of "ids @ BUILTIN_IDS" t "[]" b] show ?thesis by (auto simp: resolve_bindings_def)
qed

lemma validate_link_digits_ok:
  "validate_link_digits es off b = Inr u \<longleftrightarrow>
     combo_ok off \<and> off \<notin> fst ` set b \<and> (\<forall>e \<in> set es. me_dtmf e \<noteq> [] \<longrightarrow> me_dtmf e \<noteq> off \<and> me_dtmf e \<notin> fst ` set b)"
proof -
  have "check_link_entries es off b = Inr v \<longleftrightarrow>
      (\<forall>e \<in> set es. me_dtmf e \<noteq> [] \<longrightarrow> me_dtmf e \<noteq> off \<and> me_dtmf e \<notin> fst ` set b)" for v
    by (induction es) auto
  then show ?thesis
    by (cases "check_link_entries es off b") (auto simp: validate_link_digits_def check_combo_def split: if_splits)
qed

text \<open>What a built keypad is made of.\<close>

lemma build_keypad_cases:
  assumes "build_keypad plugins raw es off ctx = Inr kp"
  shows "\<exists>b. resolve_bindings raw (map pl_id plugins) = Inr b \<and>
    (es \<noteq> [] \<longrightarrow> combo_ok off \<and> off \<notin> fst ` set b \<and>
       (\<forall>e \<in> set es. me_dtmf e \<noteq> [] \<longrightarrow> me_dtmf e \<noteq> off \<and> me_dtmf e \<notin> fst ` set b)) \<and>
    build_registry plugins b ctx [] = Inr (kp_registry kp) \<and>
    kp_id_digits kp = builtin_digits b ID_BUILTIN \<and> kp_logout_digits kp = builtin_digits b LOGOUT_BUILTIN \<and>
    kp_link_digits kp = map_of (rev (map (\<lambda>e. (me_dtmf e, me_slug e)) (filter (\<lambda>e. me_dtmf e \<noteq> []) es))) \<and>
    kp_link_off_digits kp = (if es \<noteq> [] then {off} else {}) \<and>
    kp_catalog kp = sort_key fst (registry_catalog (kp_registry kp) @ builtin_rows b @ link_rows es off)"
  using assms by (auto simp: build_keypad_def validate_link_digits_ok split: sum.splits if_splits)

lemma registry_get_dom: "registry_get r d \<noteq> None \<longleftrightarrow> d \<in> fst ` set r"
  using map_of_eq_None_iff [of r d] by (auto simp: registry_get_def split: option.splits)

lemma builtin_digits_iff: "d \<in> builtin_digits b i \<longleftrightarrow> (d, i) \<in> set b"
  by (force simp: builtin_digits_def image_iff)

lemma link_digits_dom:
  "map_of (rev (map (\<lambda>e. (me_dtmf e, me_slug e)) (filter (\<lambda>e. me_dtmf e \<noteq> []) es))) d \<noteq> None \<longleftrightarrow>
     d \<noteq> [] \<and> d \<in> me_dtmf ` set es"
  unfolding not_None_eq by (auto simp: map_of_eq_None_iff [THEN Not_eq_iff [THEN iffD2], unfolded not_None_eq] image_iff)

lemma discovered_ids:
  assumes "discover_local_plugins in_tree modules = Inr found" "set (map pl_id in_tree) \<inter> set BUILTIN_IDS = {}"
  shows "set (map pl_id (in_tree @ found)) \<inter> set BUILTIN_IDS = {}"
  using discover_loop_ids [of "map pl_id in_tree @ BUILTIN_IDS" modules found] assms
  by (auto simp: discover_local_plugins_def)

text \<open>The digits a built keypad knows, with the bindings \<open>b\<close> it was built from.\<close>

definition wired :: "'s keypad \<Rightarrow> (pystr \<times> pystr) list \<Rightarrow> mumble_entry list \<Rightarrow> pystr \<Rightarrow> bool" where
  "wired kp b es off \<longleftrightarrow> distinct (map fst b) \<and> distinct (map fst (kp_registry kp)) \<and> distinct (combos es) \<and>
     (es \<noteq> [] \<longrightarrow> off \<notin> fst ` set b) \<and>
     (\<forall>e \<in> set es. me_dtmf e \<noteq> [] \<longrightarrow> me_dtmf e \<noteq> off \<and> me_dtmf e \<notin> fst ` set b) \<and>
     (\<forall>d \<in> fst ` set (kp_registry kp). \<exists>t. (d, t) \<in> set b \<and> t \<notin> set BUILTIN_IDS) \<and>
     kp_id_digits kp = builtin_digits b ID_BUILTIN \<and> kp_logout_digits kp = builtin_digits b LOGOUT_BUILTIN \<and>
     kp_link_digits kp = map_of (rev (map (\<lambda>e. (me_dtmf e, me_slug e)) (filter (\<lambda>e. me_dtmf e \<noteq> []) es))) \<and>
     kp_link_off_digits kp = (if es \<noteq> [] then {off} else {}) \<and>
     kp_catalog kp = sort_key fst (registry_catalog (kp_registry kp) @ builtin_rows b @ link_rows es off)"

lemma build_keypad_wired:
  assumes "discover_local_plugins in_tree modules = Inr found" "set (map pl_id in_tree) \<inter> set BUILTIN_IDS = {}"
    and "resolve_mumble_entries env servers = Inr es"
    and "build_keypad (in_tree @ found) raw es off ctx = Inr kp"
  shows "\<exists>b. wired kp b es off"
proof -
  from build_keypad_cases [OF assms(4)] obtain b where b: "resolve_bindings raw (map pl_id (in_tree @ found)) = Inr b"
    and reg: "build_registry (in_tree @ found) b ctx [] = Inr (kp_registry kp)"
    and rest: "es \<noteq> [] \<longrightarrow> combo_ok off \<and> off \<notin> fst ` set b \<and>
       (\<forall>e \<in> set es. me_dtmf e \<noteq> [] \<longrightarrow> me_dtmf e \<noteq> off \<and> me_dtmf e \<notin> fst ` set b)"
      "kp_id_digits kp = builtin_digits b ID_BUILTIN \<and> kp_logout_digits kp = builtin_digits b LOGOUT_BUILTIN \<and>
       kp_link_digits kp = map_of (rev (map (\<lambda>e. (me_dtmf e, me_slug e)) (filter (\<lambda>e. me_dtmf e \<noteq> []) es))) \<and>
       kp_link_off_digits kp = (if es \<noteq> [] then {off} else {}) \<and>
       kp_catalog kp = sort_key fst (registry_catalog (kp_registry kp) @ builtin_rows b @ link_rows es off)" by blast
  have "\<exists>t. (d, t) \<in> set b \<and> t \<notin> set BUILTIN_IDS" if "d \<in> fst ` set (kp_registry kp)" for d
  proof -
    from build_registry_digits [OF reg] that obtain t where "(d, t) \<in> set b" "t \<in> set (map pl_id (in_tree @ found))" by auto
    then show ?thesis using discovered_ids [OF assms(1,2)] by (meson disjoint_iff)
  qed
  moreover have "distinct (combos es)"
    using resolved_ok [OF assms(3)] by (simp add: entries_ok_def)
  moreover have "distinct (map fst (kp_registry kp))" using build_registry_distinct [OF reg] by simp
  ultimately show ?thesis using rest resolve_bindings_sound [OF b] unfolding wired_def by (intro exI [of _ b]) auto
qed

lemma wired_func: "wired kp b es off \<Longrightarrow> (d, t) \<in> set b \<Longrightarrow> (d, t') \<in> set b \<Longrightarrow> t = t'"
  by (meson eq_key_imp_eq_value wired_def)

lemma wired_handlers:
  assumes "wired kp b es off"
  shows "handlers kp d = [(d, ID_BUILTIN) \<in> set b, (d, LOGOUT_BUILTIN) \<in> set b, d \<noteq> [] \<and> d \<in> me_dtmf ` set es,
    es \<noteq> [] \<and> d = off, d \<in> fst ` set (kp_registry kp)]"
proof -
  have kp: "kp_id_digits kp = builtin_digits b ID_BUILTIN" "kp_logout_digits kp = builtin_digits b LOGOUT_BUILTIN"
    "kp_link_digits kp = map_of (rev (map (\<lambda>e. (me_dtmf e, me_slug e)) (filter (\<lambda>e. me_dtmf e \<noteq> []) es)))"
    "kp_link_off_digits kp = (if es \<noteq> [] then {off} else {})"
    using assms by (simp_all add: wired_def)
  show ?thesis unfolding handlers_def kp registry_get_dom link_digits_dom builtin_digits_iff by simp
qed

lemma builtins_differ: "ID_BUILTIN \<noteq> LOGOUT_BUILTIN"
  by (simp add: ID_BUILTIN_def LOGOUT_BUILTIN_def ps_inj)

lemma wired_unambiguous:
  assumes "wired kp b es off"
  shows "length (filter id (handlers kp d)) \<le> 1"
proof -
  have bound: "d \<in> fst ` set b" if "(d, t) \<in> set b" for t using that by force
  have serv: "\<exists>t. (d, t) \<in> set b \<and> t \<noteq> ID_BUILTIN \<and> t \<noteq> LOGOUT_BUILTIN" if "d \<in> fst ` set (kp_registry kp)"
    using that assms by (fastforce simp: wired_def BUILTIN_IDS_def)
  note func = wired_func [OF assms]
  have link: "d \<noteq> off \<and> d \<notin> fst ` set b" if "d \<noteq> []" "d \<in> me_dtmf ` set es" using that assms by (auto simp: wired_def)
  have off: "off \<notin> fst ` set b" if "es \<noteq> []" using that assms by (simp add: wired_def)
  define P1 P2 P3 P4 P5 where P: "P1 = ((d, ID_BUILTIN) \<in> set b)" "P2 = ((d, LOGOUT_BUILTIN) \<in> set b)"
    "P3 = (d \<noteq> [] \<and> d \<in> me_dtmf ` set es)" "P4 = (es \<noteq> [] \<and> d = off)" "P5 = (d \<in> fst ` set (kp_registry kp))"
  have "\<not> (P1 \<and> P2)" "\<not> (P1 \<and> P5)" "\<not> (P2 \<and> P5)" unfolding P using func serv builtins_differ by blast+
  moreover have "P1 \<or> P2 \<or> P5 \<longrightarrow> d \<in> fst ` set b" unfolding P using bound serv by blast
  moreover have "P3 \<or> P4 \<longrightarrow> d \<notin> fst ` set b" "\<not> (P3 \<and> P4)" unfolding P using link off by blast+
  ultimately show ?thesis unfolding wired_handlers [OF assms] P [symmetric] by auto
qed

lemma distinct_map_sort: "distinct (map f (sort_key g xs)) \<longleftrightarrow> distinct (map f xs)"
  by (rule mset_eq_imp_distinct_iff) simp

lemma registry_catalog_digits: "fst ` set (registry_catalog r) = fst ` set r"
  by (force simp: registry_catalog_def image_iff)

lemma builtin_rows_digits: "d \<in> fst ` set (builtin_rows b) \<longleftrightarrow> (d, ID_BUILTIN) \<in> set b \<or> (d, LOGOUT_BUILTIN) \<in> set b"
  by (force simp: builtin_rows_def BUILTIN_IDS_def image_iff)

lemma link_rows_digits:
  "map fst (link_rows es off) = combos es @ (if es \<noteq> [] then [off] else [])"
  by (simp add: link_rows_def combos_def filter_map o_def)

lemma wired_catalog:
  assumes "wired kp b es off"
  shows "sorted (map fst (kp_catalog kp)) \<and> (d \<in> fst ` set (kp_catalog kp) \<longleftrightarrow> True \<in> set (handlers kp d))"
proof -
  have c: "kp_catalog kp = sort_key fst (registry_catalog (kp_registry kp) @ builtin_rows b @ link_rows es off)"
    using assms by (simp add: wired_def)
  have "d \<in> fst ` set (link_rows es off) \<longleftrightarrow> d \<noteq> [] \<and> d \<in> me_dtmf ` set es \<or> es \<noteq> [] \<and> d = off"
    using arg_cong [OF link_rows_digits, of set es off] by (auto simp: combos_def)
  then show ?thesis unfolding wired_handlers [OF assms]
    by (auto simp: c image_Un registry_catalog_digits builtin_rows_digits)
qed

lemma wired_catalog_distinct:
  assumes "wired kp b es off"
  shows "distinct (map fst (kp_catalog kp))"
proof -
  note w = assms[unfolded wired_def]
  have "distinct (map fst (registry_catalog (kp_registry kp)))"
    using w by (simp add: registry_catalog_def o_def case_prod_unfold distinct_map_sort)
  moreover have "distinct (map fst (builtin_rows b))"
    using w by (simp add: builtin_rows_def o_def case_prod_unfold distinct_map_filter)
  moreover have "distinct (map fst (link_rows es off))" using w by (auto simp: link_rows_digits combos_def)
  moreover have "set (map fst (registry_catalog (kp_registry kp))) \<inter> set (map fst (builtin_rows b)) = {}"
  proof -
    have False if "d \<in> fst ` set (kp_registry kp)" "(d, ID_BUILTIN) \<in> set b \<or> (d, LOGOUT_BUILTIN) \<in> set b" for d
      using that w wired_func [OF assms] by (fastforce simp: BUILTIN_IDS_def)
    then show ?thesis by (auto simp: registry_catalog_digits builtin_rows_digits disjoint_iff simp del: map_map)
  qed
  moreover have "d \<notin> fst ` set b" if "d \<in> set (map fst (link_rows es off))" for d
  proof -
    from that have "d \<noteq> [] \<and> d \<in> me_dtmf ` set es \<or> es \<noteq> [] \<and> d = off"
      unfolding link_rows_digits by (auto simp: combos_def split: if_splits)
    moreover have "es \<noteq> [] \<longrightarrow> off \<notin> fst ` set b" "\<forall>e \<in> set es. me_dtmf e \<noteq> [] \<longrightarrow> me_dtmf e \<notin> fst ` set b"
      using w by simp_all
    ultimately show ?thesis by (elim disjE conjE imageE) simp_all
  qed
  moreover have "set (map fst (registry_catalog (kp_registry kp))) \<subseteq> fst ` set b"
  proof -
    have "\<forall>d \<in> fst ` set (kp_registry kp). d \<in> fst ` set b" using w by (metis fst_conv image_eqI)
    then show ?thesis unfolding set_map registry_catalog_digits by blast
  qed
  moreover have "set (map fst (builtin_rows b)) \<subseteq> fst ` set b"
    by (force simp: builtin_rows_digits)
  ultimately have "distinct (map fst (registry_catalog (kp_registry kp) @ builtin_rows b @ link_rows es off))"
    unfolding map_append distinct_append set_append by blast
  then show ?thesis using w by (simp add: distinct_map_sort)
qed

lemma wired_links:
  assumes "wired kp b es off" "e \<in> set es" "me_dtmf e \<noteq> []"
  shows "kp_link_digits kp (me_dtmf e) = Some (me_slug e)"
proof -
  let ?l = "map (\<lambda>e. (me_dtmf e, me_slug e)) (filter (\<lambda>e. me_dtmf e \<noteq> []) es)"
  have "distinct (map fst (rev ?l))"
    using assms(1) by (simp add: wired_def combos_def filter_map o_def rev_map [symmetric])
  moreover have "(me_dtmf e, me_slug e) \<in> set (rev ?l)" using assms(2,3) by auto
  ultimately show ?thesis using assms(1) map_of_is_SomeI [of "rev ?l"] by (simp add: wired_def)
qed

text \<open>C35. The keypad is unambiguous and complete: no digit reaches two handlers (so a service that the
  dispatcher transmits is never also a built-in the controller runs), every combo connects its own
  entry, and the catalog the operator sees lists, sorted and once each, exactly the digits that are
  wired.\<close>

theorem keypad_unambiguous:
  assumes "discover_local_plugins in_tree modules = Inr found" "set (map pl_id in_tree) \<inter> set BUILTIN_IDS = {}"
    and "resolve_mumble_entries env servers = Inr es"
    and "build_keypad (in_tree @ found) raw es off ctx = Inr kp"
  shows "length (filter id (handlers kp digit)) \<le> 1 \<and>
    (e \<in> set es \<and> me_dtmf e \<noteq> [] \<longrightarrow> kp_link_digits kp (me_dtmf e) = Some (me_slug e)) \<and>
    sorted (map fst (kp_catalog kp)) \<and> distinct (map fst (kp_catalog kp)) \<and>
    (digit \<in> fst ` set (kp_catalog kp) \<longleftrightarrow> True \<in> set (handlers kp digit))"
proof -
  from build_keypad_wired [OF assms] obtain b where w: "wired kp b es off" by blast
  show ?thesis using wired_unambiguous [OF w] wired_catalog [OF w] wired_catalog_distinct [OF w] wired_links [OF w] by simp
qed

text \<open>The composition on a concrete station: the time service, a helper module and a local plugin that is
  switched off, two Mumble entries.\<close>

definition demo_plugin :: "string \<Rightarrow> bool \<Rightarrow> (unit, nat) plugin" where
  "demo_plugin i on = \<lparr>pl_id = ps i, pl_description = ps ''d'', pl_enabled = (\<lambda>_. on), pl_build = (\<lambda>_. Inr 7)\<rparr>"

definition demo_keypad :: "nat keypad" where
  "demo_keypad = (case build_keypad ([demo_plugin ''time'' True] @ [demo_plugin ''wx'' False])
     (Some [(ps ''1'', ps ''time''), (ps ''2'', ps ''wx''), (ps ''99'', LOGOUT_BUILTIN)]) demo_entries (ps ''98'') () of
     Inr kp \<Rightarrow> kp | Inl e \<Rightarrow> undefined)"

lemma demo_keypad_built:
  "build_keypad ([demo_plugin ''time'' True] @ [demo_plugin ''wx'' False])
     (Some [(ps ''1'', ps ''time''), (ps ''2'', ps ''wx''), (ps ''99'', LOGOUT_BUILTIN)]) demo_entries (ps ''98'') () =
   Inr demo_keypad"
proof -
  have "\<not> isl (build_keypad ([demo_plugin ''time'' True] @ [demo_plugin ''wx'' False])
     (Some [(ps ''1'', ps ''time''), (ps ''2'', ps ''wx''), (ps ''99'', LOGOUT_BUILTIN)]) demo_entries (ps ''98'') ())"
    by code_simp
  then show ?thesis unfolding demo_keypad_def by (auto split: sum.splits)
qed

theorem keypad_unambiguous_witness:
  "length (filter id (handlers demo_keypad (ps ''13''))) \<le> 1 \<and> distinct (map fst (kp_catalog demo_keypad))"
proof -
  have d: "discover_local_plugins [demo_plugin ''time'' True] [Helper, Provides (demo_plugin ''wx'' False)] =
      Inr [demo_plugin ''wx'' False]"
    by (simp add: discover_local_plugins_def BUILTIN_IDS_def demo_plugin_def ID_BUILTIN_def LOGOUT_BUILTIN_def ps_inj)
  have i: "set (map pl_id [demo_plugin ''time'' True]) \<inter> set BUILTIN_IDS = {}"
    by (simp add: BUILTIN_IDS_def demo_plugin_def ID_BUILTIN_def LOGOUT_BUILTIN_def ps_inj)
  show ?thesis using keypad_unambiguous [OF d i demo_resolved demo_keypad_built] by blast
qed

text \<open>A saved table never bricks the next start: when a PUT is accepted, the file it writes resolves to
  entries whose keypad builds, with the same bindings and disconnect combo, whatever plugins there are,
  as long as no plugin's own \<open>build\<close> raises.\<close>

theorem saved_entries_boot:
  assumes "put_mumble_servers env servers raw (map pl_id plugins) off secrets = Inr (file, rows)"
    and "\<forall>p \<in> set plugins. \<exists>s. pl_build p ctx = Inr s"
  shows "\<exists>es kp. resolve_mumble_entries env (Some file) = Inr es \<and> build_keypad plugins raw es off ctx = Inr kp"
proof -
  from assms(1) obtain es b u where r: "resolve_mumble_entries env (Some servers) = Inr es" "file = map entry_to_table es"
    "resolve_bindings raw (map pl_id plugins) = Inr b" "validate_link_digits es off b = Inr u"
    by (auto simp: put_mumble_servers_def split: sum.splits if_splits)
  from build_registry_total [OF assms(2)] obtain reg where "build_registry plugins b ctx [] = Inr reg" by blast
  then have "\<exists>kp. build_keypad plugins raw es off ctx = Inr kp" using r(3,4) by (simp add: build_keypad_def)
  moreover have "resolve_mumble_entries env (Some file) = Inr es"
    using entries_round_trip_lemma [OF r(1)] r(2) by blast
  ultimately show ?thesis by blast
qed

theorem saved_entries_boot_witness:
  "\<exists>es (kp :: nat keypad). resolve_mumble_entries demo_env (Some (map entry_to_table demo_entries)) = Inr es \<and>
     build_keypad [demo_plugin ''time'' True] None es (ps ''98'') () = Inr kp"
proof (rule saved_entries_boot)
  show "put_mumble_servers demo_env demo_tables None (map pl_id [demo_plugin ''time'' True]) (ps ''98'') [] =
      Inr (map entry_to_table demo_entries, map (entry_row []) demo_entries)"
    by code_simp
qed (simp add: demo_plugin_def)

end
