(* ===== verification/MumbleBridge.thy ===== *)
theory MumbleBridge
  imports Tx Hubs
begin

section \<open>The relay between RF and Mumble\<close>

text \<open>
  \<open>radio_server/link/bridge.py\<close>. The two loop tasks are cut at their awaits: what runs between two awaits
  is one step, and the steps of both tasks, of the client's deliveries, of the controller, of the browser
  talker and of \<open>stop\<close> interleave freely on the event loop. The relay's \<open>TxSession\<close> is the one of theory
  Tx with all its failures, the slot, the audio hub and the timed mutes are those of Tx and Hubs. What a
  step reads of the world is an argument: whether a signal is being received, why the receiver is deaf to
  its channel, what the tone detector says of a frame, the clock. The Mumble client's \<open>send_audio\<close> is
  called under a guard, so it is taken to succeed. Log lines and the cadence statistics are left out.
  \<open>stop\<close> is one step: its tasks are parked at an await, so their cancellation lands there.

  The fields \<open>mb_air\<close> (every call on the radio), \<open>mb_sent\<close> (every frame sent to Mumble, with whether it is
  the operator's), \<open>mb_overflowed\<close>, \<open>mb_malformed\<close>, \<open>mb_relayed\<close> and \<open>mb_discarded\<close> are the model's record
  of what happened; the code has no counter for them.
\<close>

definition DEFAULT_TX_QUEUE_MAXSIZE :: int where "DEFAULT_TX_QUEUE_MAXSIZE = 64"
definition DEFAULT_OPERATOR_TALK_HOLD :: secs where "DEFAULT_OPERATOR_TALK_HOLD = 1 / 2"

record 'i mb_config =
  mbc_tx :: "'i tx_config"
  mbc_tx_to_rf :: bool
  mbc_queue_maxsize :: int
  mbc_dtmf_mute :: bool
  mbc_tone_detector :: bool
  mbc_rx_guard :: bool
  mbc_operator_hold :: secs

record 'i mbridge =
  mb_running :: bool
  mb_wired :: bool
  mb_connected :: bool
  mb_hub :: audio_hub
  mb_rx_sub :: "nat option"
  mb_demand :: int
  mb_monitor :: "bytes list"
  mb_tx_queue :: "bytes list option"
  mb_session :: "'i tx_session option"
  mb_pending :: "(bytes \<times> bool) option"
  mb_arbiter :: arbiter
  mb_ident :: 'i
  mb_slot :: tx_slot
  mb_operator_talk :: mute_gate
  mb_mute :: mute_gate
  mb_guard :: mute_gate
  mb_frames_in :: nat
  mb_dropped_rx_active :: nat
  mb_dropped_slot_busy :: nat
  mb_dropped_dtmf_yield :: nat
  mb_dropped_key_refused :: nat
  mb_relay_errors :: nat
  mb_overs_keyed :: nat
  mb_dtmf_muted :: nat
  mb_op_yielded :: nat
  mb_rx_guarded :: nat
  mb_rx_deafened :: nat
  mb_deafened_reason :: "string option"
  mb_air :: "(secs \<times> tx_call \<times> bool) list"
  mb_sent :: "(bool \<times> secs \<times> bytes) list"
  mb_overflowed :: nat
  mb_malformed :: nat
  mb_relayed :: nat
  mb_discarded :: nat

definition mb_init :: "'i mb_config \<Rightarrow> secs \<Rightarrow> audio_hub \<Rightarrow> arbiter \<Rightarrow> 'i \<Rightarrow> 'i mbridge" where
  "mb_init c mute_hold hub arb ident =
     \<lparr>mb_running = False, mb_wired = False, mb_connected = False, mb_hub = hub, mb_rx_sub = None, mb_demand = 0,
      mb_monitor = [], mb_tx_queue = None, mb_session = None, mb_pending = None, mb_arbiter = arb, mb_ident = ident,
      mb_slot = slot_init, mb_operator_talk = mute_init (mbc_operator_hold c), mb_mute = mute_init mute_hold,
      mb_guard = mute_init 0,
      mb_frames_in = 0, mb_dropped_rx_active = 0, mb_dropped_slot_busy = 0, mb_dropped_dtmf_yield = 0,
      mb_dropped_key_refused = 0, mb_relay_errors = 0, mb_overs_keyed = 0, mb_dtmf_muted = 0, mb_op_yielded = 0,
      mb_rx_guarded = 0, mb_rx_deafened = 0, mb_deafened_reason = None,
      mb_air = [], mb_sent = [], mb_overflowed = 0, mb_malformed = 0, mb_relayed = 0, mb_discarded = 0\<rparr>"

subsection \<open>Life cycle\<close>

text \<open>\<open>_end_session\<close>: a raising \<open>close\<close> is logged, the slot is released all the same.\<close>

definition mb_end_session :: "'i mb_config \<Rightarrow> secs \<Rightarrow> 'i mbridge \<Rightarrow> 'i mbridge" where
  "mb_end_session c now s =
     (case mb_session s of
        None \<Rightarrow> s
      | Some ses \<Rightarrow>
          (let ses' = snd (tx_close (mbc_tx c) now ses)
           in s\<lparr>mb_session := None, mb_arbiter := ts_arbiter ses', mb_ident := ts_ident ses', mb_air := ts_log ses',
                mb_slot := slot_release (mb_slot s)\<rparr>))"

text \<open>\<open>connect\<close> and \<open>acquire_rx\<close> give \<open>None\<close> or raise.\<close>

definition mb_start :: "'i mb_config \<Rightarrow> exn option \<Rightarrow> exn option \<Rightarrow> ('i mbridge, unit) meth" where
  "mb_start c connect acquire s =
     (if mb_running s then (Inr (), s)
      else case connect of
        Some e \<Rightarrow> (Inl e, s\<lparr>mb_wired := True\<rparr>)
      | None \<Rightarrow>
          (let (i, hub) = ah_subscribe (mb_hub s);
               s1 = s\<lparr>mb_wired := True, mb_connected := True, mb_hub := hub, mb_rx_sub := Some i\<rparr>
           in case acquire of
                Some e \<Rightarrow> (Inl e, s1)
              | None \<Rightarrow>
                  (Inr (), s1\<lparr>mb_demand := mb_demand s + 1, mb_running := True,
                     mb_tx_queue := (if mbc_tx_to_rf c then Some [] else mb_tx_queue s)\<rparr>)))"

definition mb_stop :: "'i mb_config \<Rightarrow> secs \<Rightarrow> 'i mbridge \<Rightarrow> 'i mbridge" where
  "mb_stop c now s =
     (if \<not> mb_running s then s
      else let s1 = mb_end_session c now (s\<lparr>mb_running := False, mb_pending := None,
                 mb_discarded := mb_discarded s + (case mb_pending s of None \<Rightarrow> 0 | Some _ \<Rightarrow> 1) +
                   (case mb_tx_queue s of None \<Rightarrow> 0 | Some q \<Rightarrow> length q)\<rparr>)
           in s1\<lparr>mb_wired := False,
                 mb_hub := (case mb_rx_sub s1 of None \<Rightarrow> mb_hub s1 | Some i \<Rightarrow> ah_unsubscribe i (mb_hub s1)),
                 mb_rx_sub := None, mb_demand := mb_demand s1 - 1, mb_tx_queue := None, mb_connected := False\<rparr>)"

subsection \<open>RF to Mumble\<close>

definition mb_deafened :: "string option \<Rightarrow> 'i mbridge \<Rightarrow> bool \<times> 'i mbridge" where
  "mb_deafened reason s =
     (case reason of
        None \<Rightarrow> (False, s\<lparr>mb_deafened_reason := None\<rparr>)
      | Some r \<Rightarrow> (True, s\<lparr>mb_rx_deafened := mb_rx_deafened s + 1, mb_deafened_reason := Some r\<rparr>))"

definition mb_send :: "bool \<Rightarrow> secs \<Rightarrow> bytes \<Rightarrow> 'i mbridge \<Rightarrow> 'i mbridge" where
  "mb_send operator now frame s = s\<lparr>mb_sent := mb_sent s @ [(operator, now, frame)]\<rparr>"

definition mb_yield_or_send :: "secs \<Rightarrow> bytes \<Rightarrow> 'i mbridge \<Rightarrow> 'i mbridge" where
  "mb_yield_or_send now frame s =
     (if muted now (mb_operator_talk s) then s\<lparr>mb_op_yielded := mb_op_yielded s + 1\<rparr>
      else mb_send False now frame s)"

definition mb_relay_frame ::
  "'i mb_config \<Rightarrow> string option \<Rightarrow> bool \<Rightarrow> secs \<Rightarrow> bytes \<Rightarrow> 'i mbridge \<Rightarrow> 'i mbridge" where
  "mb_relay_frame c reason tone now frame s =
     (let (deaf, s) = mb_deafened reason s in
      if deaf then s
      else if mbc_rx_guard c \<and> muted now (mb_guard s) then s\<lparr>mb_rx_guarded := mb_rx_guarded s + 1\<rparr>
      else if \<not> mbc_dtmf_mute c then mb_yield_or_send now frame s
      else let s = (if mbc_tone_detector c \<and> tone then s\<lparr>mb_mute := note_tone now (mb_mute s)\<rparr> else s) in
        if muted now (mb_mute s) then s\<lparr>mb_dtmf_muted := mb_dtmf_muted s + 1\<rparr>
        else mb_yield_or_send now frame s)"

text \<open>One turn of the relay task: the next frame off its subscription.\<close>

definition mb_relay_turn :: "'i mb_config \<Rightarrow> string option \<Rightarrow> bool \<Rightarrow> secs \<Rightarrow> 'i mbridge \<Rightarrow> 'i mbridge" where
  "mb_relay_turn c reason tone now s =
     (case mb_rx_sub s of
        None \<Rightarrow> s
      | Some i \<Rightarrow>
          (case ah_queue (mb_hub s) i of
             [] \<Rightarrow> s
           | frame # q \<Rightarrow>
               if mb_running s
               then mb_relay_frame c reason tone now frame (s\<lparr>mb_hub := (mb_hub s)\<lparr>ah_queue := (ah_queue (mb_hub s))(i := q)\<rparr>\<rparr>)
               else s))"

definition send_operator_mic :: "'i mb_config \<Rightarrow> bytes \<Rightarrow> secs \<Rightarrow> 'i mbridge \<Rightarrow> 'i mbridge" where
  "send_operator_mic c pcm now s =
     mb_send True now pcm (s\<lparr>mb_operator_talk := mute_for now (mbc_operator_hold c) (mb_operator_talk s)\<rparr>)"

subsection \<open>Mumble to RF\<close>

definition mb_enqueue_tx :: "'i mb_config \<Rightarrow> bytes \<Rightarrow> 'i mbridge \<Rightarrow> 'i mbridge" where
  "mb_enqueue_tx c pcm s =
     (case mb_tx_queue s of
        None \<Rightarrow> s
      | Some q \<Rightarrow>
          if q_full (mbc_queue_maxsize c) q
          then s\<lparr>mb_frames_in := mb_frames_in s + 1, mb_tx_queue := Some (tl q @ [pcm]), mb_overflowed := mb_overflowed s + 1\<rparr>
          else s\<lparr>mb_frames_in := mb_frames_in s + 1, mb_tx_queue := Some (q @ [pcm])\<rparr>)"

definition deliver_inbound :: "'i mb_config \<Rightarrow> bytes \<Rightarrow> 'i mbridge \<Rightarrow> 'i mbridge" where
  "deliver_inbound c pcm s = mb_enqueue_tx c pcm (s\<lparr>mb_monitor := mb_monitor s @ [pcm]\<rparr>)"

text \<open>The part of the loop body after the wait for the radio: \<open>session.feed\<close> and its handlers.\<close>

definition mb_feed :: "'i mb_config \<Rightarrow> bytes \<Rightarrow> bool \<Rightarrow> secs \<Rightarrow> 'i mbridge \<Rightarrow> 'i mbridge" where
  "mb_feed c pcm fresh now s =
     (case mb_session s of
        None \<Rightarrow> s
      | Some ses \<Rightarrow>
          (let (r, ses') = tx_feed (mbc_tx c) pcm now ses; s1 = s\<lparr>mb_session := Some ses'\<rparr> in
           case r of
             Inl e \<Rightarrow>
               (if e = AudioFormatMismatch then mb_end_session c now (s1\<lparr>mb_malformed := mb_malformed s + 1\<rparr>)
                else if e = RadioUnavailable
                then mb_end_session c now (s1\<lparr>mb_dropped_key_refused := mb_dropped_key_refused s + 1\<rparr>)
                else mb_end_session c now (s1\<lparr>mb_relay_errors := mb_relay_errors s + 1\<rparr>))
           | Inr u \<Rightarrow>
               s1\<lparr>mb_overs_keyed := mb_overs_keyed s + (if fresh then 1 else 0), mb_relayed := mb_relayed s + 1\<rparr>))"

text \<open>The claim of the slot and the new session.\<close>

definition mb_open :: "bytes \<Rightarrow> secs \<Rightarrow> 'i mbridge \<Rightarrow> 'i mbridge" where
  "mb_open pcm now s =
     (let (ok, slot) = try_acquire (Some ''mumble-relay'') now (mb_slot s); s1 = s\<lparr>mb_slot := slot\<rparr> in
      if \<not> ok then s1\<lparr>mb_dropped_slot_busy := mb_dropped_slot_busy s + 1\<rparr>
      else s1\<lparr>mb_session := Some ((tx_init (mb_arbiter s) (mb_ident s))\<lparr>ts_log := mb_air s\<rparr>),
              mb_pending := Some (pcm, True)\<rparr>)"

text \<open>The loop body up to the wait for the radio; a keyed session does not wait.\<close>

definition mb_take :: "'i mb_config \<Rightarrow> bool \<Rightarrow> secs \<Rightarrow> bytes \<Rightarrow> 'i mbridge \<Rightarrow> 'i mbridge" where
  "mb_take c rx_active now pcm s =
     (if rx_active then s\<lparr>mb_dropped_rx_active := mb_dropped_rx_active s + 1\<rparr>
      else if mbc_dtmf_mute c \<and> muted now (mb_mute s)
      then mb_end_session c now (s\<lparr>mb_dropped_dtmf_yield := mb_dropped_dtmf_yield s + 1\<rparr>)
      else case mb_session s of
        None \<Rightarrow> mb_open pcm now s
      | Some ses \<Rightarrow>
          if \<not> ts_keyed ses then s\<lparr>mb_pending := Some (pcm, False)\<rparr> else mb_feed c pcm False now s)"

subsection \<open>Events\<close>

datatype mb_event =
    MbPublish bytes
  | MbRelay "string option" bool secs
  | MbOperator bytes secs
  | MbInbound bytes
  | MbGet bool secs
  | MbReady secs
  | MbHang secs
  | MbDigit secs
  | MbGuard secs secs
  | MbBrowserClaim secs
  | MbBrowserRelease
  | MbStop secs

text \<open>
  \<open>MbGet\<close> takes the next frame off the queue, \<open>MbReady\<close> ends the wait for the radio, \<open>MbHang\<close> is the
  timeout of the \<open>get\<close>. The browser releases the slot only if it holds it (\<open>talker_slot\<close>).
\<close>

fun mb_step :: "'i mb_config \<Rightarrow> mb_event \<Rightarrow> 'i mbridge \<Rightarrow> 'i mbridge" where
  "mb_step c (MbPublish frame) s = s\<lparr>mb_hub := ah_publish frame (mb_hub s)\<rparr>"
| "mb_step c (MbRelay reason tone now) s = mb_relay_turn c reason tone now s"
| "mb_step c (MbOperator pcm now) s = send_operator_mic c pcm now s"
| "mb_step c (MbInbound pcm) s = deliver_inbound c pcm s"
| "mb_step c (MbGet rx_active now) s =
     (if mb_running s \<and> mb_pending s = None then
        (case mb_tx_queue s of
           Some (pcm # q) \<Rightarrow> mb_take c rx_active now pcm (s\<lparr>mb_tx_queue := Some q\<rparr>)
         | _ \<Rightarrow> s)
      else s)"
| "mb_step c (MbReady now) s =
     (case mb_pending s of
        None \<Rightarrow> s
      | Some (pcm, fresh) \<Rightarrow> mb_feed c pcm fresh now (s\<lparr>mb_pending := None\<rparr>))"
| "mb_step c (MbHang now) s = (if mb_running s \<and> mb_pending s = None then mb_end_session c now s else s)"
| "mb_step c (MbDigit now) s = s\<lparr>mb_mute := note_digit now (mb_mute s)\<rparr>"
| "mb_step c (MbGuard now hold) s = s\<lparr>mb_guard := mute_for now hold (mb_guard s)\<rparr>"
| "mb_step c (MbBrowserClaim now) s = s\<lparr>mb_slot := snd (try_acquire (Some ''browser'') now (mb_slot s))\<rparr>"
| "mb_step c MbBrowserRelease s =
     (if sl_holder (mb_slot s) = Some ''browser'' then s\<lparr>mb_slot := slot_release (mb_slot s)\<rparr> else s)"
| "mb_step c (MbStop now) s = mb_stop c now s"

definition mb_run :: "'i mb_config \<Rightarrow> mb_event list \<Rightarrow> 'i mbridge \<Rightarrow> 'i mbridge" where
  "mb_run c evs s = foldl (\<lambda>s e. mb_step c e s) s evs"

lemma mb_run_simps [simp]:
  "mb_run c [] s = s" "mb_run c (e # evs) s = mb_run c evs (mb_step c e s)"
  "mb_run c (evs @ evs') s = mb_run c evs' (mb_run c evs s)"
  by (simp_all add: mb_run_def)

text \<open>The calls on the radio, of earlier overs and of this one.\<close>

definition mb_log :: "'i mbridge \<Rightarrow> (secs \<times> tx_call \<times> bool) list" where
  "mb_log s = (case mb_session s of None \<Rightarrow> mb_air s | Some ses \<Rightarrow> ts_log ses)"

subsection \<open>The line and the slot\<close>

text \<open>The radio's un-key does not raise, and the key-edge callback neither.\<close>

definition relay_safe :: "'i mb_config \<Rightarrow> bool" where
  "relay_safe c \<longleftrightarrow> on_key_safe (mbc_tx c) \<and> (\<forall>n. tc_fault (mbc_tx c) n (CallPtt False) = None)"

definition relay_owns :: "'i mbridge \<Rightarrow> bool" where
  "relay_owns s \<longleftrightarrow> sl_occupied (mb_slot s) \<and> sl_holder (mb_slot s) = Some ''mumble-relay''"

definition idle_line :: "'i mbridge \<Rightarrow> bool" where
  "idle_line s \<longleftrightarrow> \<not> line_up (mb_air s) \<and> only_keyed False (mb_air s) \<and> \<not> ab_transmitting (mb_arbiter s)"

definition mb_inv :: "'i mb_config \<Rightarrow> 'i mbridge \<Rightarrow> bool" where
  "mb_inv c s \<longleftrightarrow>
     (case mb_session s of
        None \<Rightarrow> idle_line s
      | Some ses \<Rightarrow> tx_inv ses \<and> relay_owns s \<and> mb_running s \<and> mbc_tx_to_rf c) \<and>
     (mb_pending s \<noteq> None \<longrightarrow> (\<exists>ses. mb_session s = Some ses \<and> \<not> ts_keyed ses)) \<and>
     (mb_tx_queue s \<noteq> None \<longrightarrow> mb_running s \<and> mbc_tx_to_rf c)"

lemma mb_invI_Some:
  "mb_session s = Some ses \<Longrightarrow> tx_inv ses \<Longrightarrow> relay_owns s \<Longrightarrow> mb_running s \<Longrightarrow> mbc_tx_to_rf c \<Longrightarrow>
     mb_pending s = None \<or> \<not> ts_keyed ses \<Longrightarrow> mb_inv c s"
  by (auto simp: mb_inv_def)

lemma mb_invI_None:
  "mb_session s = None \<Longrightarrow> idle_line s \<Longrightarrow> mb_pending s = None \<Longrightarrow>
     (mb_tx_queue s \<noteq> None \<Longrightarrow> mb_running s \<and> mbc_tx_to_rf c) \<Longrightarrow> mb_inv c s"
  by (simp add: mb_inv_def)

lemma mb_inv_fields:
  assumes "mb_inv c s" "mb_session s' = mb_session s" "mb_pending s' = mb_pending s" "mb_tx_queue s' = mb_tx_queue s"
    "mb_running s' = mb_running s" "mb_arbiter s' = mb_arbiter s" "mb_air s' = mb_air s" "mb_slot s' = mb_slot s"
  shows "mb_inv c s'"
proof -
  have "idle_line s' = idle_line s" "relay_owns s' = relay_owns s"
    using assms(2-) by (simp_all add: idle_line_def relay_owns_def)
  then show ?thesis using assms by (cases "mb_session s") (simp_all add: mb_inv_def)
qed

lemma mb_end_session_same:
  "mb_running (mb_end_session c now s) = mb_running s" "mb_tx_queue (mb_end_session c now s) = mb_tx_queue s"
  "mb_pending (mb_end_session c now s) = mb_pending s" "mb_session (mb_end_session c now s) = None"
  "mb_hub (mb_end_session c now s) = mb_hub s" "mb_rx_sub (mb_end_session c now s) = mb_rx_sub s"
  by (simp_all add: mb_end_session_def Let_def split: option.splits)

lemma closed_line:
  assumes "relay_safe c" "tx_inv ses" "ses' = snd (tx_close (mbc_tx c) now ses)"
  shows "\<not> line_up (ts_log ses') \<and> only_keyed False (ts_log ses') \<and> \<not> ab_transmitting (ts_arbiter ses')"
  using tx_close_inv [OF assms(2), of "mbc_tx c" now] assms(1) unfolding assms(3) relay_safe_def tx_inv_def by auto

lemma mb_end_session_idle:
  assumes "relay_safe c" "case mb_session s of None \<Rightarrow> idle_line s | Some ses \<Rightarrow> tx_inv ses"
  shows "idle_line (mb_end_session c now s)"
  using assms closed_line [OF assms(1)]
  by (auto simp: mb_end_session_def idle_line_def Let_def split: option.splits)

lemma mb_end_session_inv:
  assumes "relay_safe c" "case mb_session s of None \<Rightarrow> idle_line s | Some ses \<Rightarrow> tx_inv ses"
    and "mb_pending s = None" "mb_tx_queue s \<noteq> None \<Longrightarrow> mb_running s \<and> mbc_tx_to_rf c"
  shows "mb_inv c (mb_end_session c now s)"
  by (rule mb_invI_None) (use assms mb_end_session_idle [OF assms(1,2)] in \<open>simp_all add: mb_end_session_same\<close>)

lemma mb_feed_inv:
  assumes "relay_safe c" "mb_inv c s" "mb_pending s = None"
  shows "mb_inv c (mb_feed c pcm fresh now s)"
proof (cases "mb_session s")
  case (Some ses)
  from assms(2) Some have i: "tx_inv ses" "relay_owns s" "mb_running s" "mbc_tx_to_rf c" by (simp_all add: mb_inv_def)
  obtain r ses' where f: "tx_feed (mbc_tx c) pcm now ses = (r, ses')" by fastforce
  have i': "tx_inv ses'" using tx_feed_inv [OF i(1), of "mbc_tx c" pcm now] assms(1) f by (simp add: relay_safe_def)
  have e: "mb_inv c (mb_end_session c now s1)"
    if "mb_session s1 = Some ses'" "mb_pending s1 = None" "mb_running s1" for s1
    by (rule mb_end_session_inv [OF assms(1)]) (use that i i' in simp_all)
  show ?thesis
  proof (cases r)
    case (Inl x)
    then show ?thesis by (simp add: mb_feed_def Some f Let_def e i assms(3))
  next
    case (Inr u)
    then show ?thesis using i i' assms(3) f Some by (simp add: mb_feed_def mb_inv_def relay_owns_def)
  qed
qed (use assms in \<open>simp add: mb_feed_def\<close>)

lemma mb_open_inv:
  assumes "mb_inv c s" "mb_pending s = None" "mb_session s = None" "mb_running s" "mbc_tx_to_rf c"
  shows "mb_inv c (mb_open pcm now s)"
proof (cases "sl_occupied (mb_slot s)")
  case True
  then have "mb_open pcm now s = s\<lparr>mb_slot := snd (try_acquire (Some ''mumble-relay'') now (mb_slot s)),
      mb_dropped_slot_busy := mb_dropped_slot_busy s + 1\<rparr>"
    by (simp add: mb_open_def try_acquire_def Let_def)
  moreover have "idle_line (s\<lparr>mb_slot := x, mb_dropped_slot_busy := n\<rparr>) = idle_line s" for x n
    by (simp add: idle_line_def)
  ultimately show ?thesis using assms by (simp add: mb_inv_def)
next
  case False
  let ?ses = "(tx_init (mb_arbiter s) (mb_ident s))\<lparr>ts_log := mb_air s\<rparr>"
  have "idle_line s" using assms(1,3) by (simp add: mb_inv_def)
  then have "tx_inv ?ses" "\<not> ts_keyed ?ses" by (simp_all add: idle_line_def tx_init_def tx_inv_def)
  then show ?thesis using assms False
    by (intro mb_invI_Some [of _ ?ses]) (simp_all add: mb_open_def try_acquire_def relay_owns_def Let_def)
qed

lemma mb_take_inv:
  assumes "relay_safe c" "mb_inv c s" "mb_pending s = None" "mb_running s" "mbc_tx_to_rf c"
  shows "mb_inv c (mb_take c rx_active now pcm s)"
proof -
  note i = assms(2)[unfolded mb_inv_def]
  show ?thesis
  proof (cases "rx_active \<or> mbc_dtmf_mute c \<and> muted now (mb_mute s)")
    case True
    have "mb_inv c (s\<lparr>mb_dropped_rx_active := n\<rparr>)" for n
      by (rule mb_inv_fields [OF assms(2)]) simp_all
    moreover have "mb_inv c (mb_end_session c now (s\<lparr>mb_dropped_dtmf_yield := n\<rparr>))" for n
      by (rule mb_end_session_inv [OF assms(1)])
        (use i assms(3-) in \<open>auto simp: idle_line_def split: option.splits\<close>)
    ultimately show ?thesis using True by (cases rx_active) (simp_all add: mb_take_def)
  next
    case False
    then have t: "mb_take c rx_active now pcm s = (case mb_session s of None \<Rightarrow> mb_open pcm now s
      | Some ses \<Rightarrow> if \<not> ts_keyed ses then s\<lparr>mb_pending := Some (pcm, False)\<rparr> else mb_feed c pcm False now s)"
      by (auto simp: mb_take_def)
    show ?thesis
    proof (cases "mb_session s")
      case None
      then show ?thesis using mb_open_inv [OF assms(2,3) None assms(4,5)] by (simp add: t)
    next
      case (Some ses)
      have "mb_inv c (s\<lparr>mb_pending := Some x\<rparr>)" if "\<not> ts_keyed ses" for x
        using assms(2) that Some by (simp add: mb_inv_def relay_owns_def)
      then show ?thesis using Some mb_feed_inv [OF assms(1-3)] by (simp add: t)
    qed
  qed
qed

lemma mb_relay_fields:
  "mb_session (mb_relay_turn c r tone now s) = mb_session s" "mb_pending (mb_relay_turn c r tone now s) = mb_pending s"
  "mb_tx_queue (mb_relay_turn c r tone now s) = mb_tx_queue s" "mb_running (mb_relay_turn c r tone now s) = mb_running s"
  "mb_arbiter (mb_relay_turn c r tone now s) = mb_arbiter s" "mb_air (mb_relay_turn c r tone now s) = mb_air s"
  "mb_slot (mb_relay_turn c r tone now s) = mb_slot s"
  by (simp_all add: mb_relay_turn_def mb_relay_frame_def mb_deafened_def mb_yield_or_send_def mb_send_def Let_def
      split: option.splits list.splits)

lemma mb_stop_inv:
  assumes "relay_safe c" "mb_inv c s"
  shows "mb_inv c (mb_stop c now s) \<and> mb_session (mb_stop c now s) = None \<or> \<not> mb_running s \<and> mb_stop c now s = s"
proof (cases "mb_running s")
  case True
  define s1 where "s1 = s\<lparr>mb_running := False, mb_pending := None,
     mb_discarded := mb_discarded s + (case mb_pending s of None \<Rightarrow> 0 | Some _ \<Rightarrow> 1) +
       (case mb_tx_queue s of None \<Rightarrow> 0 | Some q \<Rightarrow> length q)\<rparr>"
  have "idle_line s1 = idle_line s" "mb_session s1 = mb_session s" by (simp_all add: s1_def idle_line_def)
  with assms(2) have "case mb_session s1 of None \<Rightarrow> idle_line s1 | Some ses \<Rightarrow> tx_inv ses"
    by (simp add: mb_inv_def split: option.splits)
  from mb_end_session_idle [OF assms(1) this, of now] have i: "idle_line (mb_end_session c now s1)" .
  have "mb_running s1 = False" "mb_pending s1 = None" by (simp_all add: s1_def)
  moreover have "mb_stop c now s = (let s1 = mb_end_session c now s1 in s1\<lparr>mb_wired := False,
       mb_hub := (case mb_rx_sub s1 of None \<Rightarrow> mb_hub s1 | Some i \<Rightarrow> ah_unsubscribe i (mb_hub s1)),
       mb_rx_sub := None, mb_demand := mb_demand s1 - 1, mb_tx_queue := None, mb_connected := False\<rparr>)"
    using True by (simp add: mb_stop_def s1_def)
  ultimately show ?thesis using i by (simp add: Let_def mb_inv_def idle_line_def mb_end_session_same)
qed (simp add: mb_stop_def)

lemma relay_owns_browser:
  "relay_owns s \<Longrightarrow> relay_owns (s\<lparr>mb_slot := snd (try_acquire h now (mb_slot s))\<rparr>)"
  by (simp add: relay_owns_def try_acquire_def Let_def)

lemma mb_step_inv:
  assumes "relay_safe c" "mb_inv c s"
  shows "mb_inv c (mb_step c e s)"
proof (cases e)
  case (MbGet rx_active now)
  show ?thesis
  proof (cases "mb_running s \<and> mb_pending s = None \<and> (\<exists>pcm q. mb_tx_queue s = Some (pcm # q))")
    case True
    then obtain pcm q where q: "mb_tx_queue s = Some (pcm # q)" "mb_running s" "mb_pending s = None" by blast
    let ?s = "s\<lparr>mb_tx_queue := Some q\<rparr>"
    have "idle_line ?s = idle_line s" "relay_owns ?s = relay_owns s" by (simp_all add: idle_line_def relay_owns_def)
    with assms(2) q have "mb_inv c ?s" "mbc_tx_to_rf c" by (cases "mb_session s"; simp add: mb_inv_def)+
    from mb_take_inv [OF assms(1) this(1) _ _ this(2)] q MbGet show ?thesis by simp
  qed (use assms MbGet in \<open>auto split: option.splits list.splits\<close>)
next
  case (MbReady now)
  show ?thesis
  proof (cases "mb_pending s")
    case (Some x)
    let ?s = "s\<lparr>mb_pending := None\<rparr>"
    have "idle_line ?s = idle_line s" "relay_owns ?s = relay_owns s" by (simp_all add: idle_line_def relay_owns_def)
    with assms(2) have "mb_inv c ?s" by (cases "mb_session s"; simp add: mb_inv_def)
    from mb_feed_inv [OF assms(1) this] Some MbReady show ?thesis by (cases x) simp
  qed (use assms MbReady in simp)
next
  case (MbHang now)
  have "mb_inv c (mb_end_session c now s)" if "mb_pending s = None"
    by (rule mb_end_session_inv [OF assms(1)]) (use assms(2) that in \<open>auto simp: mb_inv_def split: option.splits\<close>)
  with assms MbHang show ?thesis by simp
next
  case (MbBrowserClaim now)
  let ?s = "s\<lparr>mb_slot := snd (try_acquire (Some ''browser'') now (mb_slot s))\<rparr>"
  have "idle_line ?s = idle_line s" by (simp add: idle_line_def)
  with assms(2) relay_owns_browser [of s] MbBrowserClaim show ?thesis by (cases "mb_session s") (simp_all add: mb_inv_def)
next
  case MbBrowserRelease
  let ?s = "s\<lparr>mb_slot := slot_release (mb_slot s)\<rparr>"
  have "idle_line ?s = idle_line s" by (simp add: idle_line_def)
  moreover have "\<not> relay_owns s" if "sl_holder (mb_slot s) = Some ''browser''" using that by (simp add: relay_owns_def)
  ultimately show ?thesis using assms(2) MbBrowserRelease by (cases "mb_session s") (auto simp: mb_inv_def)
next
  case (MbStop now)
  with mb_stop_inv [OF assms, of now] assms(2) show ?thesis by auto
next
  case (MbInbound pcm)
  let ?s = "mb_step c e s"
  have "idle_line ?s = idle_line s" "relay_owns ?s = relay_owns s" "mb_session ?s = mb_session s"
    "mb_pending ?s = mb_pending s" "mb_running ?s = mb_running s" "mb_tx_queue ?s = None \<longleftrightarrow> mb_tx_queue s = None"
    by (simp_all add: MbInbound deliver_inbound_def mb_enqueue_tx_def idle_line_def relay_owns_def split: option.splits)
  with assms(2) show ?thesis by (cases "mb_session s") (auto simp: mb_inv_def)
next
  case (MbRelay reason tone now)
  show ?thesis by (rule mb_inv_fields [OF assms(2)]) (simp_all add: MbRelay mb_relay_fields)
qed (use assms(2) in \<open>auto intro!: mb_inv_fields [OF assms(2)] simp: send_operator_mic_def mb_send_def\<close>)

lemma mb_run_inv: "relay_safe c \<Longrightarrow> mb_inv c s \<Longrightarrow> mb_inv c (mb_run c evs s)"
  by (induction evs arbitrary: s) (simp_all add: mb_step_inv)

lemma mb_start_inv:
  assumes "\<not> ab_transmitting arb" "mb_start c connect acquire (mb_init c hold hub arb ident) = (r, s)"
  shows "mb_inv c s"
  using assms by (auto simp: mb_start_def mb_init_def mb_inv_def idle_line_def Let_def split: option.splits prod.splits if_splits)

text \<open>C16. The relay and the transmitter: on every interleaving of frames from Mumble, the waits for the radio, hangs,
  stops and browser talkers, as long as un-keying does not fail, the line is up for the relay only while it runs,
  bridges to RF and holds the talker slot under its own name; nothing is ever transmitted with the line down; and
  once it hangs or stops with no frame parked before the key-up, the line is down and the slot is not its own.\<close>

theorem relay_ptt_owns_slot:
  assumes "relay_safe c" "\<not> ab_transmitting arb"
    and "mb_start c connect acquire (mb_init c hold hub arb ident) = (r, s0)" and "s = mb_run c evs s0"
  shows "only_keyed False (mb_log s) \<and>
    (line_up (mb_log s) \<longrightarrow> mb_running s \<and> mbc_tx_to_rf c \<and> relay_owns s) \<and>
    \<not> line_up (mb_log (mb_step c (MbStop now) s)) \<and>
    (mb_pending s = None \<longrightarrow> \<not> line_up (mb_log (mb_step c (MbHang now) s)))"
proof -
  have inv: "mb_inv c s" unfolding assms(4) by (rule mb_run_inv [OF assms(1) mb_start_inv [OF assms(2,3)]])
  have none: "\<not> line_up (mb_log t)" if "mb_inv c t" "mb_session t = None" for t
    using that by (simp add: mb_inv_def idle_line_def mb_log_def)
  have a: "only_keyed False (mb_log s) \<and> (line_up (mb_log s) \<longrightarrow> mb_running s \<and> mbc_tx_to_rf c \<and> relay_owns s)"
    using inv by (auto simp: mb_inv_def idle_line_def mb_log_def tx_inv_def split: option.splits)
  have "\<not> line_up (mb_log (mb_step c (MbStop now) s))"
    using mb_stop_inv [OF assms(1) inv, of now] none a by auto
  moreover have "\<not> line_up (mb_log (mb_step c (MbHang now) s))" if "mb_pending s = None"
  proof (cases "mb_running s")
    case True
    then show ?thesis using none [OF mb_step_inv [OF assms(1) inv, of "MbHang now"]] that
      by (simp add: mb_end_session_same)
  qed (use a that in simp)
  ultimately show ?thesis using a by blast
qed

subsection \<open>Where frames go\<close>

definition mb_waiting :: "'i mbridge \<Rightarrow> nat" where
  "mb_waiting s = (case mb_tx_queue s of None \<Rightarrow> 0 | Some q \<Rightarrow> length q) + (case mb_pending s of None \<Rightarrow> 0 | Some _ \<Rightarrow> 1)"

definition mb_counted :: "'i mbridge \<Rightarrow> nat" where
  "mb_counted s = mb_dropped_rx_active s + mb_dropped_slot_busy s + mb_dropped_dtmf_yield s + mb_dropped_key_refused s +
     mb_relay_errors s + mb_relayed s"

definition mb_uncounted :: "'i mbridge \<Rightarrow> nat" where
  "mb_uncounted s = mb_overflowed s + mb_malformed s + mb_discarded s"

definition mb_balanced :: "'i mbridge \<Rightarrow> bool" where
  "mb_balanced s \<longleftrightarrow> mb_frames_in s = mb_counted s + mb_uncounted s + mb_waiting s \<and>
     (mb_pending s \<noteq> None \<longrightarrow> mb_session s \<noteq> None)"

lemmas mb_ledger = mb_balanced_def mb_counted_def mb_uncounted_def mb_waiting_def

lemma mb_end_session_balanced:
  "mb_pending s = None \<Longrightarrow> mb_balanced (mb_end_session c now s) = mb_balanced s"
  by (simp add: mb_ledger mb_end_session_def Let_def split: option.splits)

lemma mb_feed_balanced:
  assumes "mb_pending s = None" "mb_session s \<noteq> None" "mb_frames_in s = Suc (mb_counted s + mb_uncounted s + mb_waiting s)"
  shows "mb_balanced (mb_feed c pcm fresh now s)"
proof -
  from assms(2) obtain ses where ses: "mb_session s = Some ses" by blast
  obtain r ses' where f: "tx_feed (mbc_tx c) pcm now ses = (r, ses')" by fastforce
  show ?thesis
    using assms by (cases r) (simp_all add: mb_feed_def ses f Let_def mb_end_session_balanced, simp_all add: mb_ledger)
qed

lemma mb_take_balanced:
  assumes "mb_pending s = None" "mb_frames_in s = Suc (mb_counted s + mb_uncounted s + mb_waiting s)"
  shows "mb_balanced (mb_take c rx_active now pcm s)"
proof (cases "rx_active \<or> mbc_dtmf_mute c \<and> muted now (mb_mute s)")
  case True
  then show ?thesis using assms
    by (cases rx_active) (simp_all add: mb_take_def mb_end_session_balanced, simp_all add: mb_ledger)
next
  case False
  show ?thesis
  proof (cases "mb_session s")
    case None
    with False assms show ?thesis
      by (cases "sl_occupied (mb_slot s)") (auto simp: mb_take_def mb_open_def try_acquire_def Let_def mb_ledger)
  next
    case (Some ses)
    with False assms mb_feed_balanced [OF assms(1) _ assms(2)] show ?thesis
      by (cases "ts_keyed ses") (auto simp: mb_take_def mb_ledger)
  qed
qed

lemma mb_balanced_fields:
  assumes "mb_balanced s" "mb_frames_in s' = mb_frames_in s" "mb_counted s' = mb_counted s" "mb_uncounted s' = mb_uncounted s"
    "mb_waiting s' = mb_waiting s" "mb_pending s' = mb_pending s" "mb_session s' = mb_session s"
  shows "mb_balanced s'"
  using assms by (simp add: mb_balanced_def)

lemma mb_step_balanced:
  assumes "mb_balanced s"
  shows "mb_balanced (mb_step c e s)"
proof (cases e)
  case (MbGet rx_active now)
  show ?thesis
  proof (cases "mb_running s \<and> mb_pending s = None \<and> (\<exists>pcm q. mb_tx_queue s = Some (pcm # q))")
    case True
    then obtain pcm q where q: "mb_tx_queue s = Some (pcm # q)" "mb_running s" "mb_pending s = None" by blast
    with assms have "mb_balanced (mb_take c rx_active now pcm (s\<lparr>mb_tx_queue := Some q\<rparr>))"
      by (intro mb_take_balanced) (simp_all add: mb_ledger)
    with q MbGet show ?thesis by simp
  qed (use assms MbGet in \<open>auto split: option.splits list.splits\<close>)
next
  case (MbReady now)
  show ?thesis
  proof (cases "mb_pending s")
    case (Some x)
    with assms have "mb_balanced (mb_feed c (fst x) (snd x) now (s\<lparr>mb_pending := None\<rparr>))"
      by (intro mb_feed_balanced) (simp_all add: mb_ledger)
    with Some MbReady show ?thesis by (cases x) simp
  qed (use assms MbReady in simp)
next
  case (MbHang now)
  with assms show ?thesis by (simp add: mb_end_session_balanced)
next
  case (MbStop now)
  show ?thesis
  proof (cases "mb_running s")
    case True
    with assms MbStop show ?thesis
      by (simp add: mb_stop_def Let_def mb_ledger mb_end_session_def split: option.splits)
  qed (use assms MbStop in \<open>simp add: mb_stop_def\<close>)
next
  case (MbInbound pcm)
  with assms show ?thesis
    by (auto simp: deliver_inbound_def mb_enqueue_tx_def mb_ledger q_full_def split: option.splits)
next
  case (MbRelay reason tone now)
  show ?thesis
    by (rule mb_balanced_fields [OF assms])
      (simp_all add: MbRelay mb_relay_fields mb_counted_def mb_uncounted_def mb_waiting_def,
       simp_all add: mb_relay_turn_def mb_relay_frame_def mb_deafened_def mb_yield_or_send_def mb_send_def Let_def
         split: option.splits list.splits)
qed (use assms in \<open>simp_all add: mb_ledger send_operator_mic_def mb_send_def\<close>)

lemma mb_run_balanced: "mb_balanced s \<Longrightarrow> mb_balanced (mb_run c evs s)"
  by (induction evs arbitrary: s) (simp_all add: mb_step_balanced)

lemma mb_start_balanced:
  "mb_start c connect acquire (mb_init c hold hub arb ident) = (r, s) \<Longrightarrow> mb_balanced s"
  by (auto simp: mb_start_def mb_init_def mb_ledger Let_def split: option.splits prod.splits if_splits)

text \<open>C28. Every frame from Mumble is accounted for: on every interleaving \<open>frames_in\<close> is what the counters of
  \<open>tx_stats\<close> hold, what was relayed, what still waits, and the frames the code has no counter for: pushed out of
  the full queue, refused as malformed, or thrown away at \<open>stop\<close>.\<close>

theorem frames_accounted:
  assumes "mb_start c connect acquire (mb_init c hold hub arb ident) = (r, s0)" and "s = mb_run c evs s0"
  shows "mb_frames_in s = mb_counted s + mb_uncounted s + mb_waiting s"
  using mb_run_balanced [OF mb_start_balanced [OF assms(1)], of c evs] assms(2) by (simp add: mb_balanced_def)

subsection \<open>What is relayed\<close>

lemma mb_end_session_relay:
  "mb_mute (mb_end_session c now s) = mb_mute s" "mb_sent (mb_end_session c now s) = mb_sent s"
  by (simp_all add: mb_end_session_def Let_def split: option.splits)

lemma mb_feed_relay: "mb_mute (mb_feed c pcm fresh now s) = mb_mute s" "mb_sent (mb_feed c pcm fresh now s) = mb_sent s"
  by (simp_all add: mb_feed_def mb_end_session_relay Let_def split: option.splits prod.splits sum.splits)

lemma mb_take_relay: "mb_mute (mb_take c rx now pcm s) = mb_mute s" "mb_sent (mb_take c rx now pcm s) = mb_sent s"
  by (simp_all add: mb_take_def mb_open_def mb_end_session_relay mb_feed_relay Let_def split: option.splits prod.splits)

lemma mb_stop_relay: "mb_mute (mb_stop c now s) = mb_mute s" "mb_sent (mb_stop c now s) = mb_sent s"
  by (simp_all add: mb_stop_def mb_end_session_relay Let_def)

lemmas mb_relay_simps = mb_end_session_relay mb_feed_relay mb_take_relay mb_stop_relay

text \<open>A muting covers a moment until it ends, whatever happens; and what a step sends of the channel it sends
  at a moment no muting covers.\<close>

lemma mb_step_mute: "muted t (mb_mute s) \<Longrightarrow> muted t (mb_mute (mb_step c e s))"
  by (cases e) (auto simp: mb_relay_simps deliver_inbound_def mb_enqueue_tx_def send_operator_mic_def mb_send_def
      mb_relay_turn_def mb_relay_frame_def mb_deafened_def mb_yield_or_send_def note_digit_def note_tone_def mute_step Let_def
      split: option.splits list.splits)

lemma mb_step_sent:
  assumes "mbc_dtmf_mute c"
  shows "\<exists>xs. mb_sent (mb_step c e s) = mb_sent s @ xs \<and> (\<forall>t f. (False, t, f) \<in> set xs \<longrightarrow> \<not> muted t (mb_mute s))"
  using assms
  by (cases e) (auto simp: mb_relay_simps deliver_inbound_def mb_enqueue_tx_def send_operator_mic_def mb_send_def
      mb_relay_turn_def mb_relay_frame_def mb_deafened_def mb_yield_or_send_def note_tone_def mute_step Let_def
      split: option.splits list.splits)

lemma mb_run_sent:
  assumes "mbc_dtmf_mute c" "muted t (mb_mute s)"
  shows "(False, t, f) \<in> set (drop (length (mb_sent s)) (mb_sent (mb_run c evs s))) \<Longrightarrow> False"
  using assms(2)
proof (induction evs arbitrary: s)
  case (Cons e evs)
  from mb_step_sent [OF assms(1), of e s] obtain xs where
    xs: "mb_sent (mb_step c e s) = mb_sent s @ xs" "\<forall>t f. (False, t, f) \<in> set xs \<longrightarrow> \<not> muted t (mb_mute s)" by blast
  from Cons.IH [of "mb_step c e s"] mb_step_mute [OF Cons.prems(2), of c e]
  have "(False, t, f) \<notin> set (drop (length (mb_sent (mb_step c e s))) (mb_sent (mb_run c evs (mb_step c e s))))" by blast
  moreover have grow: "\<exists>ys. mb_sent (mb_run c evs s') = mb_sent s' @ ys" for s'
  proof (induction evs arbitrary: s')
    case (Cons e' evs')
    from mb_step_sent [OF assms(1), of e' s'] Cons.IH [of "mb_step c e' s'"] show ?case by auto
  qed simp
  from grow [of "mb_step c e s"] xs(1) obtain ys where "mb_sent (mb_run c evs (mb_step c e s)) = mb_sent s @ xs @ ys" by auto
  ultimately show ?case using Cons.prems xs by auto
qed simp

text \<open>C27. Control tones never reach the Mumble channel: once the detector hears a tone in a frame the relay looks
  at, neither that frame nor any later frame of the channel is sent before the hold has passed, whatever else
  happens in between (digits, the operator's microphone, overs, a stop).\<close>

theorem tones_never_relayed:
  assumes "mbc_dtmf_mute c" "mbc_tone_detector c" "mb_running s" "mb_rx_sub s = Some i" "ah_queue (mb_hub s) i \<noteq> []"
    and "\<not> (mbc_rx_guard c \<and> muted t0 (mb_guard s))" "0 < mg_hold (mb_mute s)"
    and "(False, t, f) \<in> set (drop (length (mb_sent s)) (mb_sent (mb_run c (MbRelay None True t0 # evs) s)))"
  shows "t0 + mg_hold (mb_mute s) \<le> t"
proof (rule ccontr)
  assume "\<not> t0 + mg_hold (mb_mute s) \<le> t"
  then have t: "t < t0 + mg_hold (mb_mute s)" by simp
  let ?s1 = "mb_step c (MbRelay None True t0) s"
  obtain frame q where q: "ah_queue (mb_hub s) i = frame # q" using assms(5) by (cases "ah_queue (mb_hub s) i") auto
  have m: "muted t0 (note_tone t0 (mb_mute s))" "muted t (note_tone t0 (mb_mute s))"
    using assms(7) t by (simp_all add: note_tone_def mute_step)
  then have "muted t (mb_mute ?s1)" "mb_sent ?s1 = mb_sent s"
    using assms(1-4,6) q by (auto simp: mb_relay_turn_def mb_relay_frame_def mb_deafened_def Let_def)
  with mb_run_sent [OF assms(1), of t ?s1 f evs] assms(8) show False by simp
qed

subsection \<open>Two ways to lose the station\<close>

definition wedged :: "(secs \<times> tx_call \<times> bool) list \<Rightarrow> 'i mbridge \<Rightarrow> bool" where
  "wedged l s \<longleftrightarrow> (case mb_session s of
       None \<Rightarrow> ab_transmitting (mb_arbiter s) \<and> mb_air s = l
     | Some ses \<Rightarrow> \<not> ts_keyed ses \<and> ab_transmitting (ts_arbiter ses) \<and> ts_log ses = l)"

lemma wedged_end: "wedged l s \<Longrightarrow> wedged l (mb_end_session c now s)"
  by (cases "mb_session s") (simp_all add: wedged_def mb_end_session_def tx_close_def)

lemma wedged_feed: "wedged l s \<Longrightarrow> wedged l (mb_feed c pcm fresh now s)"
proof (cases "mb_session s")
  case (Some ses)
  assume w: "wedged l s"
  with Some have k: "\<not> ts_keyed ses" "ab_transmitting (ts_arbiter ses)" by (simp_all add: wedged_def)
  then have a: "tx_acquire ses = (Inl ArbiterStateError, ses)" by (simp add: tx_acquire_def acquire_tx_def)
  then have "snd (tx_feed (mbc_tx c) pcm now ses) = ses"
    using k by (simp add: tx_feed_def tx_key_up_def)
  then obtain r where f: "tx_feed (mbc_tx c) pcm now ses = (r, ses)" by (metis prod.collapse)
  have e: "wedged l (mb_end_session c now s1)" if "mb_session s1 = Some ses" for s1
    by (rule wedged_end) (use w that Some in \<open>simp add: wedged_def\<close>)
  have "wedged l s1" if "mb_session s1 = Some ses" for s1 using w that Some by (simp add: wedged_def)
  with e show ?thesis by (cases r) (simp_all add: mb_feed_def Some f Let_def)
qed (simp add: mb_feed_def)

lemma wedged_fields:
  "wedged l s \<Longrightarrow> mb_session s' = mb_session s \<Longrightarrow> mb_arbiter s' = mb_arbiter s \<Longrightarrow> mb_air s' = mb_air s \<Longrightarrow> wedged l s'"
  by (cases "mb_session s") (simp_all add: wedged_def)

lemma wedged_step:
  assumes "wedged l s"
  shows "wedged l (mb_step c e s)"
proof -
  note w = wedged_fields [OF assms]
  show ?thesis
  proof (cases e)
    case (MbGet rx now)
    have "wedged l (mb_take c rx now pcm s1)"
      if "mb_session s1 = mb_session s" "mb_arbiter s1 = mb_arbiter s" "mb_air s1 = mb_air s" for pcm s1
    proof -
      have "wedged l s1" by (rule w [OF that])
      then show ?thesis
        by (auto simp: mb_take_def mb_open_def try_acquire_def tx_init_def Let_def wedged_feed wedged_fields [of l s1]
            intro: wedged_end split: option.splits) (auto simp: wedged_def)
    qed
    then show ?thesis using assms MbGet by (auto split: option.splits list.splits)
  next
    case (MbReady now)
    then show ?thesis using assms by (auto intro!: wedged_feed w split: option.splits)
  next
    case (MbHang now)
    then show ?thesis using assms by (simp add: wedged_end)
  next
    case (MbStop now)
    let ?t = "mb_end_session c now (s\<lparr>mb_running := False, mb_pending := None,
      mb_discarded := mb_discarded s + (case mb_pending s of None \<Rightarrow> 0 | Some _ \<Rightarrow> 1) +
        (case mb_tx_queue s of None \<Rightarrow> 0 | Some q \<Rightarrow> length q)\<rparr>)"
    have t: "wedged l ?t" by (rule wedged_end, rule w) simp_all
    show ?thesis
    proof (cases "mb_running s")
      case True
      show ?thesis by (rule wedged_fields [OF t]) (simp_all add: MbStop mb_stop_def True Let_def)
    qed (use assms MbStop in \<open>simp add: mb_stop_def\<close>)
  next
    case (MbInbound pcm)
    show ?thesis by (rule w) (simp_all add: MbInbound deliver_inbound_def mb_enqueue_tx_def split: option.splits)
  next
    case (MbRelay r tone now)
    show ?thesis by (rule w) (simp_all add: MbRelay mb_relay_fields)
  qed (use assms in \<open>auto intro!: w simp: send_operator_mic_def mb_send_def\<close>)
qed

lemma wedged_run: "wedged l s \<Longrightarrow> wedged l (mb_run c evs s)"
  by (induction evs arbitrary: s) (simp_all add: wedged_step)

text \<open>C33. An un-key that raises wedges the station: \<open>_end_session\<close> frees the slot and drops the session, but the
  arbiter's transmit claim, which only \<open>close\<close> gives back after a successful \<open>ptt(False)\<close>, is never released.
  From then on the line stays up and the relay makes no call on the radio again, not even an attempt to un-key,
  whatever happens; nor can any other transmission start, and the receiver stays off.\<close>

theorem failed_unkey_wedges_relay:
  assumes "mb_session s = Some ses" "ts_keyed ses" "tx_inv ses" "mb_running s" "mb_pending s = None"
    and "\<forall>n. tc_fault (mbc_tx c) n (CallPtt False) \<noteq> None" and "s1 = mb_step c (MbHang now) s"
  shows "\<not> sl_occupied (mb_slot s1) \<and> line_up (mb_log (mb_run c evs s1)) \<and> mb_log (mb_run c evs s1) = mb_log s1 \<and>
    arb_mode (case mb_session (mb_run c evs s1) of None \<Rightarrow> mb_arbiter (mb_run c evs s1) | Some x \<Rightarrow> ts_arbiter x) = TRANSMITTING"
proof -
  define i1 where "i1 = snd (tx_ident_call (mbc_tx c) now (tc_sign_off_id (mbc_tx c)) ses)"
  from tx_ident_inv [OF assms(3,2)] have i1: "tx_inv i1" "ts_keyed i1" by (simp_all add: i1_def)
  from assms(6) obtain e where e: "tc_fault (mbc_tx c) (length (ts_log i1)) (CallPtt False) = Some e" by blast
  then have close: "tx_close (mbc_tx c) now ses = (Inl e, i1\<lparr>ts_log := ts_log i1 @ [(now, CallPtt False, False)]\<rparr>)"
    using assms(2) by (simp add: tx_close_def i1_def [symmetric] tx_call_def)
  define l where "l = ts_log i1 @ [(now, CallPtt False, False)]"
  have s1: "mb_session s1 = None" "mb_air s1 = l" "mb_arbiter s1 = ts_arbiter i1" "\<not> sl_occupied (mb_slot s1)"
    using assms(1,4,5) by (simp_all add: assms(7) mb_end_session_def close l_def slot_release_def)
  have up: "line_up l" using i1 by (simp add: l_def tx_inv_def)
  have "wedged l s1" using s1 i1 by (simp add: wedged_def tx_inv_def)
  from wedged_run [OF this, of c evs] have w: "wedged l (mb_run c evs s1)" .
  then have "mb_log (mb_run c evs s1) = l" by (cases "mb_session (mb_run c evs s1)") (simp_all add: wedged_def mb_log_def)
  moreover have "mb_log s1 = l" using s1 by (simp add: mb_log_def)
  moreover have "arb_mode (case mb_session (mb_run c evs s1) of None \<Rightarrow> mb_arbiter (mb_run c evs s1) | Some x \<Rightarrow> ts_arbiter x) =
      TRANSMITTING"
    using w by (cases "mb_session (mb_run c evs s1)") (simp_all add: wedged_def arb_mode_def)
  ultimately show ?thesis using up s1(4) by simp
qed

text \<open>A start that fails at the receiver's demand leaves the subscription it made on the audio hub.\<close>

definition leaked :: "nat \<Rightarrow> 'i mbridge \<Rightarrow> bool" where
  "leaked i s \<longleftrightarrow> \<not> mb_running s \<and> mb_session s = None \<and> mb_pending s = None \<and> i \<in> set (ah_subscribers (mb_hub s))"

lemma ah_publish_subscribers: "ah_subscribers (ah_publish f h) = ah_subscribers h"
proof -
  have "ah_subscribers (fold (ah_deliver f) xs h) = ah_subscribers h" for xs
    by (induction xs arbitrary: h) (simp_all add: ah_deliver_def)
  then show ?thesis by (simp add: ah_publish_def)
qed

lemma leaked_step: "leaked i s \<Longrightarrow> leaked i (mb_step c e s)"
  by (cases e) (auto simp: leaked_def ah_publish_subscribers mb_relay_turn_def send_operator_mic_def mb_send_def
      deliver_inbound_def mb_enqueue_tx_def mb_stop_def split: option.splits list.splits)

lemma leaked_run: "leaked i s \<Longrightarrow> leaked i (mb_run c evs s)"
  by (induction evs arbitrary: s) (simp_all add: leaked_step)

text \<open>When \<open>acquire_rx\<close> raises, \<open>start\<close> propagates the exception without undoing what it did: the bridge is
  not running, so its \<open>stop\<close> does nothing, and its subscription stays on the audio hub for good, with every
  published frame delivered to it.\<close>

theorem failed_start_leaks_subscription:
  assumes "mb_start c None (Some x) s = (r, s1)" "\<not> mb_running s" "mb_session s = None" "mb_pending s = None"
  shows "r = Inl x \<and> ah_next (mb_hub s) \<in> set (ah_subscribers (mb_hub (mb_run c (evs @ [MbStop now]) s1)))"
proof -
  have "leaked (ah_next (mb_hub s)) s1 \<and> r = Inl x"
    using assms by (auto simp: mb_start_def leaked_def ah_subscribe_def)
  with leaked_run [of _ s1 c "evs @ [MbStop now]"] show ?thesis by (simp add: leaked_def)
qed

subsection \<open>Witnesses\<close>

definition demo_tx :: "(nat \<Rightarrow> tx_call \<Rightarrow> exn option) \<Rightarrow> unit tx_config" where
  "demo_tx fault = \<lparr>tc_idle_timeout = 1, tc_has_on_key = False, tc_station_id = False,
     tc_key_up_id = (\<lambda>_ s. (Inr None, s)), tc_periodic_id = (\<lambda>_ s. (Inr None, s)), tc_sign_off_id = (\<lambda>_ s. (Inr None, s)),
     tc_fault = fault\<rparr>"

definition demo_mbc :: "(nat \<Rightarrow> tx_call \<Rightarrow> exn option) \<Rightarrow> unit mb_config" where
  "demo_mbc fault = \<lparr>mbc_tx = demo_tx fault, mbc_tx_to_rf = True, mbc_queue_maxsize = 2, mbc_dtmf_mute = True,
     mbc_tone_detector = True, mbc_rx_guard = True, mbc_operator_hold = 1 / 2\<rparr>"

definition demo_mb :: "(nat \<Rightarrow> tx_call \<Rightarrow> exn option) \<Rightarrow> unit mbridge" where
  "demo_mb fault = snd (mb_start (demo_mbc fault) None None (mb_init (demo_mbc fault) 2 (audio_hub_init 4) (arbiter_init True) ()))"

lemma demo_mb_started:
  "mb_start (demo_mbc fault) None None (mb_init (demo_mbc fault) 2 (audio_hub_init 4) (arbiter_init True) ()) =
     (Inr (), demo_mb fault)"
  by (simp add: demo_mb_def mb_start_def mb_init_def Let_def split: prod.splits)

definition demo_over :: "mb_event list" where
  "demo_over = [MbInbound [1, 2], MbGet False 0, MbReady 0, MbInbound [3], MbInbound [4, 5], MbInbound [6, 7]]"

lemmas demo_mb_simps = demo_mb_def demo_mbc_def demo_tx_def mb_start_def mb_init_def audio_hub_init_def ah_subscribe_def
  arbiter_init_def slot_init_def mute_init_def muted_def deliver_inbound_def mb_enqueue_tx_def q_full_def mb_take_def mb_open_def
  try_acquire_def mb_feed_def tx_feed_def tx_key_up_def tx_init_def tx_acquire_def acquire_tx_def tx_call_def tx_on_key_def
  tx_ident_call_def CANONICAL_FRAME_BYTES_def arb_notify_def arb_mode_def catching_def andthen_def modifying_def returning_def
  guarded_def Let_def

lemma relay_safe_demo: "relay_safe (demo_mbc (\<lambda>_ _. None))"
  by (simp add: relay_safe_def on_key_safe_def demo_mbc_def demo_tx_def)

lemma demo_over_up: "line_up (mb_log (mb_run (demo_mbc (\<lambda>_ _. None)) demo_over (demo_mb (\<lambda>_ _. None))))"
  by code_simp

theorem relay_ptt_owns_slot_witness:
  "relay_owns (mb_run (demo_mbc (\<lambda>_ _. None)) demo_over (demo_mb (\<lambda>_ _. None)))"
  using relay_ptt_owns_slot [OF relay_safe_demo _ demo_mb_started refl, of demo_over] demo_over_up
  by (simp add: arbiter_init_def)

theorem frames_accounted_witness:
  "let s = mb_run (demo_mbc (\<lambda>_ _. None)) demo_over (demo_mb (\<lambda>_ _. None))
   in mb_frames_in s = mb_counted s + mb_uncounted s + mb_waiting s"
  using frames_accounted [OF demo_mb_started [of "\<lambda>_ _. None"] refl, of demo_over] by (simp add: Let_def)

definition demo_tone :: "mb_event list" where
  "demo_tone = [MbDigit 11, MbPublish [3], MbRelay None False 12, MbPublish [4], MbRelay None False 13]"

lemma demo_tone_sent:
  "mb_sent (mb_run (demo_mbc (\<lambda>_ _. None)) (MbRelay None True 10 # demo_tone)
     (mb_run (demo_mbc (\<lambda>_ _. None)) [MbPublish [1]] (demo_mb (\<lambda>_ _. None)))) = [(False, 13, [4])]"
  by code_simp

theorem tones_never_relayed_witness:
  "mb_sent (mb_run (demo_mbc (\<lambda>_ _. None)) (MbRelay None True 10 # demo_tone)
     (mb_run (demo_mbc (\<lambda>_ _. None)) [MbPublish [1]] (demo_mb (\<lambda>_ _. None)))) = [(False, 13, [4])] \<and> (10 :: secs) + 2 \<le> 13"
proof -
  let ?s = "mb_run (demo_mbc (\<lambda>_ _. None)) [MbPublish [1]] (demo_mb (\<lambda>_ _. None))"
  have s: "mb_running ?s" "mb_rx_sub ?s = Some 0" "ah_queue (mb_hub ?s) 0 \<noteq> []" "mg_hold (mb_mute ?s) = 2"
    "\<not> muted 10 (mb_guard ?s)" "mb_sent ?s = []"
    by (simp_all add: demo_mb_simps ah_publish_def ah_deliver_def)
  show ?thesis
    using tones_never_relayed [of "demo_mbc (\<lambda>_ _. None)" ?s 0 10 13 "[4]" demo_tone] s demo_tone_sent
    by (simp add: demo_mbc_def [of "\<lambda>_ _. None"])
qed

definition stuck_key :: "nat \<Rightarrow> tx_call \<Rightarrow> exn option" where
  "stuck_key n call = (case call of CallPtt b \<Rightarrow> if b then None else Some (Fault 5) | _ \<Rightarrow> None)"

theorem failed_unkey_wedges_relay_witness:
  "let s = mb_run (demo_mbc stuck_key) (MbHang 1 # demo_over)
       (mb_run (demo_mbc stuck_key) [MbInbound [1, 2], MbGet False 0, MbReady 0] (demo_mb stuck_key))
   in line_up (mb_log s) \<and> \<not> sl_occupied (mb_slot (mb_step (demo_mbc stuck_key) (MbHang 1)
        (mb_run (demo_mbc stuck_key) [MbInbound [1, 2], MbGet False 0, MbReady 0] (demo_mb stuck_key))))"
proof -
  let ?s = "mb_run (demo_mbc stuck_key) [MbInbound [1, 2], MbGet False 0, MbReady 0] (demo_mb stuck_key)"
  have s: "mb_running ?s" "mb_pending ?s = None" "case mb_session ?s of None \<Rightarrow> False | Some x \<Rightarrow> ts_keyed x"
    by code_simp+
  then obtain ses where ses: "mb_session ?s = Some ses" "ts_keyed ses" by (auto split: option.splits)
  have "only_keyed False (ts_log ses) \<and> line_up (ts_log ses) \<and> ab_transmitting (ts_arbiter ses)"
  proof -
    have "case mb_session ?s of None \<Rightarrow> False
        | Some x \<Rightarrow> only_keyed False (ts_log x) \<and> line_up (ts_log x) \<and> ab_transmitting (ts_arbiter x)" by code_simp
    with ses show ?thesis by simp
  qed
  with ses have i: "tx_inv ses" by (simp add: tx_inv_def)
  have f: "\<forall>n. tc_fault (mbc_tx (demo_mbc stuck_key)) n (CallPtt False) \<noteq> None"
    by (simp add: demo_mbc_def demo_tx_def stuck_key_def)
  from failed_unkey_wedges_relay [where now = 1 and evs = demo_over, OF ses i s(1,2) f refl]
  show ?thesis unfolding Let_def mb_run_simps by blast
qed

theorem failed_start_leaks_subscription_witness:
  "0 \<in> set (ah_subscribers (mb_hub (mb_run (demo_mbc (\<lambda>_ _. None)) ([] @ [MbStop 1])
     (snd (mb_start (demo_mbc (\<lambda>_ _. None)) None (Some RuntimeError)
       (mb_init (demo_mbc (\<lambda>_ _. None)) 2 (audio_hub_init 4) (arbiter_init True) ()))))))"
proof -
  let ?i = "mb_init (demo_mbc (\<lambda>_ _. None)) 2 (audio_hub_init 4) (arbiter_init True) ()"
  have "ah_next (mb_hub ?i) = 0" "\<not> mb_running ?i" "mb_session ?i = None" "mb_pending ?i = None"
    by (simp_all add: mb_init_def audio_hub_init_def)
  then show ?thesis
    using failed_start_leaks_subscription [where evs = "[]" and now = 1, OF prod.collapse [symmetric]] by metis
qed

end
