(* ===== verification/LinkManager.thy ===== *)
theory LinkManager
  imports MumbleEntries
begin

section \<open>The active Mumble link\<close>

text \<open>
  \<open>radio_server/link/manager.py\<close>, called from concurrent tasks of the event loop: the API's route, the
  tasks that the keypad's \<open>on_link\<close> creates, autoconnect and shutdown. \<open>bridge.stop()\<close> suspends its caller
  (it joins the relay tasks); \<open>bridge.start()\<close> does not, with the \<open>acquire_rx\<close> of \<open>api/app.py\<close>. So an operation is
  cut at the stop of the bridge it found: before it, \<open>BeginConnect\<close> or \<open>BeginDisconnect\<close>; after it, \<open>Resume\<close>.
  A bridge is a number; \<open>lm_running\<close> is what runs in the world, which the manager itself only knows by its one
  reference. Whether a start succeeds is an argument.
\<close>

record link_manager =
  lm_entries :: "mumble_entry list"
  lm_active :: "pystr option"
  lm_bridge :: "nat option"
  lm_running :: "nat list"
  lm_next :: nat
  lm_parked :: "(nat \<times> pystr option \<times> pystr option) list"
  lm_notified :: "(pystr \<times> bool) list"
  lm_results :: "(exn + unit) list"

definition lm_init :: "mumble_entry list \<Rightarrow> link_manager" where
  "lm_init entries = \<lparr>lm_entries = entries, lm_active = None, lm_bridge = None, lm_running = [], lm_next = 0,
     lm_parked = [], lm_notified = [], lm_results = []\<rparr>"

definition entry_for_dtmf :: "pystr \<Rightarrow> link_manager \<Rightarrow> pystr option" where
  "entry_for_dtmf digits m =
     map_of (rev (map (\<lambda>e. (me_dtmf e, me_slug e)) (filter (\<lambda>e. me_dtmf e \<noteq> []) (lm_entries m)))) digits"

definition lm_known :: "pystr \<Rightarrow> link_manager \<Rightarrow> bool" where
  "lm_known slug m \<longleftrightarrow> slug \<in> me_slug ` set (lm_entries m)"

definition lm_notify :: "pystr \<Rightarrow> bool \<Rightarrow> link_manager \<Rightarrow> link_manager" where
  "lm_notify slug up m = m\<lparr>lm_notified := lm_notified m @ [(slug, up)]\<rparr>"

definition lm_return :: "exn + unit \<Rightarrow> link_manager \<Rightarrow> link_manager" where
  "lm_return r m = m\<lparr>lm_results := lm_results m @ [r]\<rparr>"

text \<open>\<open>connect\<close> after its \<open>disconnect\<close>; \<open>started\<close> is \<open>None\<close> or what \<open>bridge.start()\<close> raises.\<close>

definition finish_connect :: "pystr \<Rightarrow> exn option \<Rightarrow> link_manager \<Rightarrow> link_manager" where
  "finish_connect slug started m =
     (let b = lm_next m; m = m\<lparr>lm_next := b + 1\<rparr> in
      case started of
        Some e \<Rightarrow> lm_return (Inl e) m
      | None \<Rightarrow> lm_return (Inr ()) (lm_notify slug True
          (m\<lparr>lm_running := lm_running m @ [b], lm_bridge := Some b, lm_active := Some slug\<rparr>)))"

text \<open>\<open>disconnect\<close> up to its await, for its own sake or inside \<open>connect\<close> (\<open>cont\<close>, the slug to connect next).\<close>

definition take_link :: "link_manager \<Rightarrow> link_manager" where
  "take_link m = m\<lparr>lm_bridge := None, lm_active := None\<rparr>"

definition park :: "nat \<Rightarrow> pystr option \<Rightarrow> pystr option \<Rightarrow> link_manager \<Rightarrow> link_manager" where
  "park b old cont m = m\<lparr>lm_parked := lm_parked m @ [(b, old, cont)]\<rparr>"

definition begin_connect :: "pystr \<Rightarrow> exn option \<Rightarrow> link_manager \<Rightarrow> link_manager" where
  "begin_connect slug started m =
     (if \<not> lm_known slug m then lm_return (Inl KeyError) m
      else case lm_bridge m of
        None \<Rightarrow> finish_connect slug started (take_link m)
      | Some b \<Rightarrow> park b (lm_active m) (Some slug) (take_link m))"

definition begin_disconnect :: "link_manager \<Rightarrow> link_manager" where
  "begin_disconnect m =
     (case lm_bridge m of
        None \<Rightarrow> lm_return (Inr ()) (take_link m)
      | Some b \<Rightarrow> park b (lm_active m) None (take_link m))"

text \<open>The \<open>k\<close>-th parked operation goes on: its bridge has stopped.\<close>

definition resume :: "nat \<Rightarrow> exn option \<Rightarrow> link_manager \<Rightarrow> link_manager" where
  "resume k started m =
     (if length (lm_parked m) \<le> k then m
      else let (b, old, cont) = lm_parked m ! k;
               m1 = m\<lparr>lm_parked := take k (lm_parked m) @ drop (Suc k) (lm_parked m),
                      lm_running := filter (\<lambda>x. x \<noteq> b) (lm_running m)\<rparr>;
               m2 = (case old of None \<Rightarrow> m1 | Some slug \<Rightarrow> lm_notify slug False m1)
           in case cont of None \<Rightarrow> lm_return (Inr ()) m2 | Some slug \<Rightarrow> finish_connect slug started m2)"

datatype lm_event = BeginConnect pystr "exn option" | BeginDisconnect | Resume nat "exn option"

fun lm_step :: "lm_event \<Rightarrow> link_manager \<Rightarrow> link_manager" where
  "lm_step (BeginConnect slug started) m = begin_connect slug started m"
| "lm_step BeginDisconnect m = begin_disconnect m"
| "lm_step (Resume k started) m = resume k started m"

definition lm_run :: "lm_event list \<Rightarrow> link_manager \<Rightarrow> link_manager" where
  "lm_run evs m = foldl (\<lambda>m e. lm_step e m) m evs"

lemma lm_run_simps [simp]:
  "lm_run [] m = m" "lm_run (e # evs) m = lm_run evs (lm_step e m)"
  by (simp_all add: lm_run_def)

text \<open>One operation after the other: an operation begins only when none is parked.\<close>

fun one_at_a_time :: "lm_event list \<Rightarrow> link_manager \<Rightarrow> bool" where
  "one_at_a_time [] m = True"
| "one_at_a_time (e # evs) m =
     ((case e of Resume k s \<Rightarrow> True | _ \<Rightarrow> lm_parked m = []) \<and> one_at_a_time evs (lm_step e m))"

text \<open>What the manager's listener can rely on: connects and disconnects alternate, and the last connect names the
  active entry.\<close>

fun link_after :: "(pystr \<times> bool) list \<Rightarrow> pystr option \<Rightarrow> pystr option option" where
  "link_after [] up = Some up"
| "link_after ((slug, True) # ns) None = link_after ns (Some slug)"
| "link_after ((slug, False) # ns) (Some s) = (if s = slug then link_after ns None else None)"
| "link_after _ _ = None"

lemma link_after_append:
  "link_after (xs @ ys) up = (case link_after xs up of None \<Rightarrow> None | Some up' \<Rightarrow> link_after ys up')"
  by (induction xs up rule: link_after.induct) auto

definition lm_inv :: "link_manager \<Rightarrow> bool" where
  "lm_inv m \<longleftrightarrow>
     (case lm_parked m of
        [] \<Rightarrow> lm_running m = (case lm_bridge m of None \<Rightarrow> [] | Some b \<Rightarrow> [b]) \<and>
          (lm_bridge m = None \<longleftrightarrow> lm_active m = None) \<and> link_after (lm_notified m) None = Some (lm_active m)
      | [(b, old, cont)] \<Rightarrow> lm_running m = [b] \<and> lm_bridge m = None \<and> lm_active m = None \<and>
          old \<noteq> None \<and> link_after (lm_notified m) None = Some old
      | _ \<Rightarrow> False)"

lemmas lm_defs = begin_connect_def begin_disconnect_def resume_def finish_connect_def take_link_def park_def
  lm_return_def lm_notify_def Let_def

lemma lm_step_inv:
  assumes "lm_inv m" "case e of Resume k s \<Rightarrow> True | _ \<Rightarrow> lm_parked m = []"
  shows "lm_inv (lm_step e m)"
proof (cases "lm_parked m")
  case Nil
  with assms(1) have i: "lm_running m = (case lm_bridge m of None \<Rightarrow> [] | Some b \<Rightarrow> [b])"
    "lm_bridge m = None \<longleftrightarrow> lm_active m = None" "link_after (lm_notified m) None = Some (lm_active m)"
    by (simp_all add: lm_inv_def)
  show ?thesis
    using i Nil
    by (cases e; cases "lm_bridge m"; cases "lm_active m")
      (simp_all add: lm_defs lm_inv_def link_after_append split: option.splits)
next
  case (Cons p ps)
  obtain b old cont where p: "p = (b, old, cont)" by (metis prod_cases3)
  from assms(1) Cons p have i: "ps = []" "lm_running m = [b]" "lm_bridge m = None" "lm_active m = None"
    "old \<noteq> None" "link_after (lm_notified m) None = Some old"
    by (auto simp: lm_inv_def split: list.splits)
  from assms(2) Cons obtain k s where e: "e = Resume k s" by (cases e) auto
  show ?thesis
    using i assms(1) Cons p
    by (cases "k = 0"; cases s; cases old; cases cont) (simp_all add: e lm_defs lm_inv_def link_after_append)
qed

text \<open>C29. One operation at a time, the manager is sound: after any such sequence of connects, switches, failed starts and
  disconnects, with nothing pending, the bridges that run are exactly the one the manager knows, it knows one
  exactly when an entry is active, and the notifications alternate and end in that state.\<close>

theorem sequential_link_single_bridge:
  assumes "one_at_a_time evs (lm_init entries)" and "m = lm_run evs (lm_init entries)" and "lm_parked m = []"
  shows "lm_running m = (case lm_bridge m of None \<Rightarrow> [] | Some b \<Rightarrow> [b]) \<and>
    (lm_bridge m = None \<longleftrightarrow> lm_active m = None) \<and> link_after (lm_notified m) None = Some (lm_active m)"
proof -
  have "lm_inv m0 \<Longrightarrow> one_at_a_time evs m0 \<Longrightarrow> lm_inv (lm_run evs m0)" for m0
    by (induction evs arbitrary: m0) (simp_all add: lm_step_inv)
  from this [OF _ assms(1)] have "lm_inv m" by (simp add: assms(2) lm_inv_def lm_init_def)
  then show ?thesis using assms(3) by (simp add: lm_inv_def)
qed

theorem sequential_link_single_bridge_witness:
  "let m = lm_run [BeginConnect (ps ''x'') None, BeginConnect (ps ''club_net_1'') None, Resume 0 None,
       BeginConnect (ps ''x'') (Some RuntimeError), Resume 0 (Some RuntimeError), BeginDisconnect] (lm_init demo_entries)
   in lm_running m = [] \<and> lm_active m = None"
proof -
  let ?evs = "[BeginConnect (ps ''x'') None, BeginConnect (ps ''club_net_1'') None, Resume 0 None,
       BeginConnect (ps ''x'') (Some RuntimeError), Resume 0 (Some RuntimeError), BeginDisconnect]"
  have "one_at_a_time ?evs (lm_init demo_entries)" "lm_parked (lm_run ?evs (lm_init demo_entries)) = []"
    "lm_active (lm_run ?evs (lm_init demo_entries)) = None"
    by (simp_all add: lm_init_def lm_known_def demo_entries_def ps_inj lm_defs)
  from sequential_link_single_bridge [OF this(1) refl this(2)] this(3) show ?thesis by (simp add: Let_def)
qed

text \<open>C30. Two operations at once break it. While a switch waits for the old bridge to stop, a second connect finds no
  link, starts its bridge and becomes the active one; the switch then starts its own over it. Two bridges relay at
  once, and a disconnect afterwards stops only the second: the manager reports no active link while the other bridge
  keeps keying the radio. A disconnect during the switch is lost: it returns, and the switch connects after it.\<close>

theorem concurrent_switch_leaks_bridge:
  assumes "lm_parked m = []" "lm_bridge m = Some b" "lm_running m = [b]" "b < lm_next m"
    and "lm_known x m" "lm_known y m"
  shows "let m1 = lm_run [BeginConnect x None, BeginConnect y None, Resume 0 None] m;
             m2 = lm_run [BeginDisconnect, Resume 0 None] m1;
             m3 = lm_run [BeginConnect x None, BeginDisconnect, Resume 0 None] m
         in length (lm_running m1) = 2 \<and> lm_running m2 \<noteq> [] \<and> lm_parked m2 = [] \<and> lm_active m2 = None \<and>
            lm_active m3 = Some x"
  using assms by (simp add: lm_defs lm_known_def split: option.splits)

theorem concurrent_switch_leaks_bridge_witness:
  "length (lm_running (lm_run [BeginConnect (ps ''x'') None, BeginConnect (ps ''club_net_1'') None, Resume 0 None]
     (lm_run [BeginConnect (ps ''x'') None] (lm_init demo_entries)))) = 2"
proof -
  let ?m = "lm_run [BeginConnect (ps ''x'') None] (lm_init demo_entries)"
  have "lm_parked ?m = []" "lm_bridge ?m = Some 0" "lm_running ?m = [0]" "0 < lm_next ?m"
    "lm_known (ps ''x'') ?m" "lm_known (ps ''club_net_1'') ?m"
    by (simp_all add: lm_init_def lm_known_def demo_entries_def ps_inj lm_defs)
  from concurrent_switch_leaks_bridge [OF this] show ?thesis by (simp only: Let_def)
qed

end
