(* ===== verification/Uvk5Radio.thy ===== *)
theory Uvk5Radio
  imports Prelude "HOL-Library.Word"
begin

unbundle bit_operations_syntax

section \<open>The UV-K5 backend: tuning, keying and status over the dock\<close>

text \<open>
  \<open>radio_server/backends/uvk5/radio.py\<close>. The radio behind the serial line is not code of the
  repository: it is a parameter \<open>'w dock\<close>, what a register write, a register read and the two mode commands
  do to a state of any type, and each may raise. A write that the dock drops is a write that changes
  nothing; a read may answer anything. So the theorems hold for every firmware, every loss pattern and
  every timing. \<open>u_frames\<close> and \<open>u_reads\<close> record what was sent and what was answered; \<open>u_playback\<close> is
  whether the playout stream with its pacer thread is open. Opening the sound card and playing a clip are
  arguments of the operations that do it. Registers and frequencies are Python integers, a tone is a real
  number. Log lines, sleeps and the capture side of \<open>receive\<close> are left out.
\<close>

definition FREQ_STEP_HZ :: int where "FREQ_STEP_HZ = 10"
definition BAND_SPLIT_10HZ :: int where "BAND_SPLIT_10HZ = 28000000"
definition REG33_RX_ENABLE :: int where "REG33_RX_ENABLE = 0x40"
definition REG33_PA_ENABLE :: int where "REG33_PA_ENABLE = 0x20"
definition REG33_UHF_LNA :: int where "REG33_UHF_LNA = 0x08"
definition REG33_VHF_LNA :: int where "REG33_VHF_LNA = 0x04"
definition REG33_LNA_BITS :: int where "REG33_LNA_BITS = 0x0C"
definition REG33_BASE :: int where "REG33_BASE = 0x9000"
definition MAX_SPLIT_OFFSET_HZ :: int where "MAX_SPLIT_OFFSET_HZ = 10000000"
definition REG36_ENABLE :: int where "REG36_ENABLE = 0x80"
definition PA_GAIN_VHF :: int where "PA_GAIN_VHF = 0x08"
definition PA_GAIN_UHF :: int where "PA_GAIN_UHF = 0x22"
definition REG30_TX_ENABLED :: int where "REG30_TX_ENABLED = 0xC1FE"
definition REG30_TX_BIT :: int where "REG30_TX_BIT = 2"
definition REG30_RX_DEFAULT :: int where "REG30_RX_DEFAULT = 0xBFF1"
definition REG47_AF_FM_BIT :: int where "REG47_AF_FM_BIT = 0x100"
definition ENTER_HW_MODE_RETRIES :: nat where "ENTER_HW_MODE_RETRIES = 3"
definition KEY_ATTEMPTS :: nat where "KEY_ATTEMPTS = 3"
definition KEY_CONFIRM_ATTEMPTS :: nat where "KEY_CONFIRM_ATTEMPTS = 5"
definition BUSY_HOLD_READS :: nat where "BUSY_HOLD_READS = 3"
definition SEED_READ_ATTEMPTS :: nat where "SEED_READ_ATTEMPTS = 4"
definition CTCSS_MIN_HZ :: real where "CTCSS_MIN_HZ = 67"
definition CTCSS_MAX_HZ :: real where "CTCSS_MAX_HZ = 2541 / 10"

definition MODE_ALIASES :: "(string \<times> string) list" where
  "MODE_ALIASES = [(''FM'', ''FM''), (''WIDE'', ''FM''), (''NFM'', ''NFM''), (''NARROW'', ''NFM'')]"

definition BANDWIDTH_REG43 :: "(string \<times> int) list" where
  "BANDWIDTH_REG43 = [(''FM'', 18856), (''NFM'', 18440)]"

type_synonym regs = "(int \<times> int) list"

record 'w dock =
  dk_write :: "regs \<Rightarrow> ('w, unit) meth"
  dk_read :: "int \<Rightarrow> ('w, int) meth"
  dk_enter :: "('w, unit) meth"
  dk_exit :: "('w, unit) meth"
  dk_connect :: "('w, unit) meth"

record 'w uvk5_config =
  uc_dock :: "'w dock"
  uc_freq_min :: int
  uc_freq_max :: int
  uc_squelch_threshold :: int
  uc_tx_allowed :: bool

record pa_state =
  pa_bias :: int
  pa_gain :: int
  pa_band_matched :: bool
  pa_tx_frequency :: int

record 'w uvk5 =
  u_dock :: 'w
  u_frames :: "(regs \<times> bool) list"
  u_reads :: "(int \<times> (exn + int)) list"
  u_reg30 :: int
  u_reg33 :: int
  u_frequency :: "int option"
  u_tx_frequency :: "int option"
  u_tone :: "real option"
  u_mode :: "string option"
  u_keyed :: bool
  u_closed :: bool
  u_pa :: "pa_state option"
  u_playback :: bool
  u_last_busy :: bool
  u_busy_stale :: nat

subsection \<open>Register primitives\<close>

definition write_registers :: "'w uvk5_config \<Rightarrow> regs \<Rightarrow> ('w uvk5, unit) meth" where
  "write_registers c pairs s =
     (let (r, w) = dk_write (uc_dock c) pairs (u_dock s)
      in (r, s\<lparr>u_dock := w, u_frames := u_frames s @ [(pairs, r = Inr ())]\<rparr>))"

definition read_register :: "'w uvk5_config \<Rightarrow> int \<Rightarrow> ('w uvk5, int) meth" where
  "read_register c reg s =
     (let (r, w) = dk_read (uc_dock c) reg (u_dock s)
      in (r, s\<lparr>u_dock := w, u_reads := u_reads s @ [(reg, r)]\<rparr>))"

definition on_dock :: "('w, 'a) meth \<Rightarrow> ('w uvk5, 'a) meth" where
  "on_dock m s = (let (r, w) = m (u_dock s) in (r, s\<lparr>u_dock := w\<rparr>))"

text \<open>The exceptions \<open>except (Uvk5Timeout, Uvk5Closed)\<close> takes.\<close>

definition dropped :: "exn \<Rightarrow> bool" where
  "dropped e \<longleftrightarrow> e = Uvk5Timeout \<or> e = Uvk5Closed"

subsection \<open>The shapes of the registers\<close>

definition vhf :: "int \<Rightarrow> bool" where
  "vhf hz \<longleftrightarrow> hz div FREQ_STEP_HZ < BAND_SPLIT_10HZ"

definition lna_bit_for :: "int \<Rightarrow> int" where
  "lna_bit_for hz = (if vhf hz then REG33_VHF_LNA else REG33_UHF_LNA)"

definition pa_gain_for :: "int \<Rightarrow> int" where
  "pa_gain_for hz = (if vhf hz then PA_GAIN_VHF else PA_GAIN_UHF)"

definition with_band :: "int \<Rightarrow> int \<Rightarrow> int" where
  "with_band reg33 hz = (reg33 AND NOT REG33_LNA_BITS) OR lna_bit_for hz"

definition rx_reg33 :: "'w uvk5 \<Rightarrow> int" where
  "rx_reg33 s = (u_reg33 s OR REG33_BASE OR REG33_RX_ENABLE) AND NOT REG33_PA_ENABLE"

definition freq_pairs :: "int \<Rightarrow> regs" where
  "freq_pairs hz = (let freq10 = hz div FREQ_STEP_HZ
     in [(0x38, freq10 AND 0xFFFF), (0x39, drop_bit 16 freq10 AND 0xFFFF)])"

definition tx_tune_pairs :: "'w uvk5 \<Rightarrow> regs" where
  "tx_tune_pairs s = (case u_tx_frequency s of None \<Rightarrow> [] | Some hz \<Rightarrow> freq_pairs hz)"

definition tx_band_hz :: "'w uvk5 \<Rightarrow> int option" where
  "tx_band_hz s = (if u_tx_frequency s \<noteq> None then u_tx_frequency s else u_frequency s)"

definition tx_reg33 :: "'w uvk5 \<Rightarrow> int" where
  "tx_reg33 s =
     (let band = (case tx_band_hz s of None \<Rightarrow> u_reg33 s | Some hz \<Rightarrow> with_band (u_reg33 s) hz)
      in (band OR REG33_BASE OR REG33_PA_ENABLE) AND NOT REG33_RX_ENABLE)"

definition tone_pairs :: "'w uvk5 \<Rightarrow> regs" where
  "tone_pairs s =
     (case u_tone s of
        None \<Rightarrow> [(0x51, 0)]
      | Some t \<Rightarrow> [(0x51, 0x904A), (0x07, (py_round (t * 10) * 206488 + 50000) div 100000)])"

definition frequency_ok :: "'w uvk5_config \<Rightarrow> int \<Rightarrow> bool" where
  "frequency_ok c hz \<longleftrightarrow> uc_freq_min c \<le> hz \<and> hz \<le> uc_freq_max c \<and> hz mod FREQ_STEP_HZ = 0"

definition validate_frequency :: "'w uvk5_config \<Rightarrow> int \<Rightarrow> ('w uvk5, unit) meth" where
  "validate_frequency c hz = (if frequency_ok c hz then returning () else raising ValueError)"

subsection \<open>Connecting\<close>

text \<open>The retried reads of the seeds: the last answer, or \<open>None\<close> if every read was dropped.\<close>

fun seed_read :: "'w uvk5_config \<Rightarrow> exn set \<Rightarrow> int \<Rightarrow> nat \<Rightarrow> ('w uvk5, int option) meth" where
  "seed_read c retried reg 0 s = (Inr None, s)"
| "seed_read c retried reg (Suc k) s =
     (case read_register c reg s of
        (Inr v, s') \<Rightarrow> (Inr (Some v), s')
      | (Inl e, s') \<Rightarrow> if e \<in> retried then seed_read c retried reg k s' else (Inl e, s'))"

definition receiving_word :: "int \<Rightarrow> bool" where
  "receiving_word v \<longleftrightarrow> v \<noteq> 0 \<and> v AND REG30_TX_BIT = 0"

definition seed_reg30 :: "'w uvk5_config \<Rightarrow> ('w uvk5, int) meth" where
  "seed_reg30 c =
     andthen (seed_read c {Uvk5Timeout} 0x30 SEED_READ_ATTEMPTS)
       (\<lambda>v. if v \<noteq> None \<and> receiving_word (the v) then returning (the v)
        else andthen (write_registers c [(0x30, 0), (0x30, REG30_RX_DEFAULT)]) (\<lambda>_. returning REG30_RX_DEFAULT))"

definition seed_reg33 :: "'w uvk5_config \<Rightarrow> ('w uvk5, int) meth" where
  "seed_reg33 c =
     andthen (seed_read c {Uvk5Timeout} 0x33 SEED_READ_ATTEMPTS)
       (\<lambda>v. let value = (case v of None \<Rightarrow> 0 | Some v \<Rightarrow> v) in
        if value AND REG33_BASE = REG33_BASE then returning value
        else returning (REG33_BASE OR (value AND 0xFF)))"

definition seed_frequency :: "'w uvk5_config \<Rightarrow> ('w uvk5, int option) meth" where
  "seed_frequency c =
     andthen (read_register c 0x38)
       (\<lambda>lo. andthen (read_register c 0x39)
         (\<lambda>hi. let hz = (push_bit 16 hi OR lo) * FREQ_STEP_HZ in
               returning (if frequency_ok c hz then Some hz else None)))"

fun enter_hw_mode :: "'w uvk5_config \<Rightarrow> nat \<Rightarrow> ('w uvk5, unit) meth" where
  "enter_hw_mode c 0 s = (Inr (), s)"
| "enter_hw_mode c (Suc k) s =
     (case on_dock (dk_enter (uc_dock c)) s of
        (Inl e, s1) \<Rightarrow> (Inl e, s1)
      | (Inr u, s1) \<Rightarrow>
          (case read_register c 0x47 s1 of
             (Inl e, s2) \<Rightarrow> if dropped e then enter_hw_mode c k s2 else (Inl e, s2)
           | (Inr v, s2) \<Rightarrow> if v AND REG47_AF_FM_BIT \<noteq> 0 then (Inr (), s2) else enter_hw_mode c k s2))"

subsection \<open>Tuning\<close>

definition set_frequency :: "'w uvk5_config \<Rightarrow> int \<Rightarrow> ('w uvk5, unit) meth" where
  "set_frequency c hz =
     andthen (validate_frequency c hz)
       (\<lambda>_ s. if u_keyed s then (Inl Uvk5KeyingError, s)
        else let s1 = s\<lparr>u_reg33 := with_band (u_reg33 s) hz\<rparr> in
          andthen (write_registers c (freq_pairs hz @ [(0x33, rx_reg33 s1), (0x30, 0), (0x30, u_reg30 s1)]))
            (\<lambda>_. modifying (\<lambda>s. s\<lparr>u_frequency := Some hz, u_tx_frequency := None\<rparr>)) s1)"

definition set_split :: "'w uvk5_config \<Rightarrow> int option \<Rightarrow> ('w uvk5, unit) meth" where
  "set_split c tx s =
     (if u_keyed s then (Inl Uvk5KeyingError, s)
      else case tx of
        None \<Rightarrow> (Inr (), s\<lparr>u_tx_frequency := None\<rparr>)
      | Some tx_hz \<Rightarrow>
          (case u_frequency s of
             None \<Rightarrow> (Inl RadioNotReady, s)
           | Some rx_hz \<Rightarrow>
               if \<not> frequency_ok c tx_hz then (Inl ValueError, s)
               else if MAX_SPLIT_OFFSET_HZ < \<bar>tx_hz - rx_hz\<bar> then (Inl ValueError, s)
               else if vhf rx_hz \<noteq> vhf tx_hz then (Inl ValueError, s)
               else (Inr (), s\<lparr>u_tx_frequency := Some tx_hz\<rparr>)))"

definition set_channel :: "int \<Rightarrow> ('w uvk5, unit) meth" where
  "set_channel n = raising UnsupportedCapability"

definition set_tone :: "'w uvk5_config \<Rightarrow> real option \<Rightarrow> ('w uvk5, unit) meth" where
  "set_tone c tone s =
     (case tone of
        None \<Rightarrow> write_registers c [(0x51, 0)] (s\<lparr>u_tone := None\<rparr>)
      | Some t \<Rightarrow>
          if \<not> (CTCSS_MIN_HZ \<le> t \<and> t \<le> CTCSS_MAX_HZ) then (Inl ValueError, s)
          else let s1 = s\<lparr>u_tone := Some t\<rparr> in write_registers c (tone_pairs s1) s1)"

definition upper_ascii :: "string \<Rightarrow> string" where
  "upper_ascii s = map (\<lambda>ch. let n = (of_char ch :: nat) in if 97 \<le> n \<and> n \<le> 122 then char_of (n - 32) else ch) s"

definition set_mode :: "'w uvk5_config \<Rightarrow> string \<Rightarrow> ('w uvk5, unit) meth" where
  "set_mode c mode =
     (case map_of MODE_ALIASES (upper_ascii mode) of
        None \<Rightarrow> raising ValueError
      | Some canon \<Rightarrow>
          andthen (write_registers c [(0x43, the (map_of BANDWIDTH_REG43 canon))])
            (\<lambda>_. modifying (\<lambda>s. s\<lparr>u_mode := Some canon\<rparr>)))"

definition scan :: "bool \<Rightarrow> ('w uvk5, unit) meth" where
  "scan on = raising NotImplementedError"

subsection \<open>Keying\<close>

text \<open>\<open>_restore_rx_frequency\<close>: the bounded loop over its attempts.\<close>

fun restore_loop :: "'w uvk5_config \<Rightarrow> int \<Rightarrow> nat \<Rightarrow> ('w uvk5, unit) meth" where
  "restore_loop c rx_hz 0 s = (Inr (), s)"
| "restore_loop c rx_hz (Suc k) s =
     (case write_registers c (freq_pairs rx_hz @ [(0x33, rx_reg33 s), (0x30, 0), (0x30, u_reg30 s)]) s of
        (Inl e, s1) \<Rightarrow> (Inr (), s1)
      | (Inr u, s1) \<Rightarrow>
          (case andthen (read_register c 0x39)
                  (\<lambda>hi. andthen (read_register c 0x38) (\<lambda>lo. returning (push_bit 16 hi OR lo))) s1 of
             (Inl e, s2) \<Rightarrow> if dropped e then (Inr (), s2) else (Inl e, s2)
           | (Inr back, s2) \<Rightarrow> if back * FREQ_STEP_HZ = rx_hz then (Inr (), s2) else restore_loop c rx_hz k s2))"

definition restore_rx_frequency :: "'w uvk5_config \<Rightarrow> ('w uvk5, unit) meth" where
  "restore_rx_frequency c s =
     (if u_tx_frequency s = None then (Inr (), s)
      else case u_frequency s of None \<Rightarrow> (Inr (), s) | Some rx_hz \<Rightarrow> restore_loop c rx_hz 2 s)"

definition unkey_frame :: "'w uvk5 \<Rightarrow> regs" where
  "unkey_frame s = [(0x30, 0), (0x30, u_reg30 s), (0x33, rx_reg33 s)]"

definition key_off :: "'w uvk5_config \<Rightarrow> ('w uvk5, unit) meth" where
  "key_off c s =
     andthen (guarded (write_registers c (unkey_frame s)))
       (\<lambda>_. andthen (restore_rx_frequency c)
         (\<lambda>_. modifying (\<lambda>s. s\<lparr>u_keyed := False, u_playback := False\<rparr>))) s"

text \<open>\<open>_confirm_keyed\<close>: the last value read, 0 if none.\<close>

fun confirm_loop :: "'w uvk5_config \<Rightarrow> nat \<Rightarrow> int \<Rightarrow> ('w uvk5, int) meth" where
  "confirm_loop c 0 confirmed s = (Inr confirmed, s)"
| "confirm_loop c (Suc k) confirmed s =
     (case read_register c 0x30 s of
        (Inl e, s1) \<Rightarrow> if e = Uvk5Timeout then confirm_loop c k confirmed s1 else (Inl e, s1)
      | (Inr v, s1) \<Rightarrow> if v = REG30_TX_ENABLED then (Inr v, s1) else confirm_loop c k v s1)"

definition confirm_keyed :: "'w uvk5_config \<Rightarrow> ('w uvk5, int) meth" where
  "confirm_keyed c = confirm_loop c KEY_CONFIRM_ATTEMPTS 0"

definition key_frame :: "'w uvk5 \<Rightarrow> regs" where
  "key_frame s = tx_tune_pairs s @ [(0x50, 0x3B20)] @ tone_pairs s @ [(0x30, 0), (0x30, REG30_TX_ENABLED)]"

fun key_loop :: "'w uvk5_config \<Rightarrow> nat \<Rightarrow> int \<Rightarrow> ('w uvk5, int) meth" where
  "key_loop c 0 confirmed s = (Inr confirmed, s)"
| "key_loop c (Suc k) confirmed s =
     (case andthen (write_registers c (key_frame s)) (\<lambda>_. confirm_keyed c) s of
        (Inl e, s1) \<Rightarrow> (Inl e, s1)
      | (Inr v, s1) \<Rightarrow> if v = REG30_TX_ENABLED then (Inr v, s1) else key_loop c k v s1)"

definition correct_tx_band :: "'w uvk5_config \<Rightarrow> ('w uvk5, unit) meth" where
  "correct_tx_band c s =
     (case tx_band_hz s of
        None \<Rightarrow> (Inr (), s)
      | Some tx_hz \<Rightarrow>
          (case read_register c 0x36 s of
             (Inl e, s1) \<Rightarrow> if dropped e then (Inr (), s1\<lparr>u_pa := None\<rparr>) else (Inl e, s1)
           | (Inr reg36, s1) \<Rightarrow>
               (let bias = drop_bit 8 reg36;
                    want36 = push_bit 8 bias OR REG36_ENABLE OR pa_gain_for tx_hz;
                    keyed33 = tx_reg33 s1;
                    matched = (reg36 = want36)
                in andthen (write_registers c (if matched then [(0x33, keyed33)] else [(0x33, keyed33), (0x36, want36)]))
                     (\<lambda>_. modifying (\<lambda>s. s\<lparr>u_pa := Some \<lparr>pa_bias = bias, pa_gain = want36 AND 0xFF,
                        pa_band_matched = matched, pa_tx_frequency = tx_hz\<rparr>\<rparr>)) s1)))"

definition key_up :: "'w uvk5_config \<Rightarrow> ('w uvk5, unit) meth" where
  "key_up c =
     andthen (key_loop c KEY_ATTEMPTS 0)
       (\<lambda>v. if v \<noteq> REG30_TX_ENABLED then raising Uvk5KeyingError else correct_tx_band c)"

definition key_on :: "'w uvk5_config \<Rightarrow> exn option \<Rightarrow> ('w uvk5, unit) meth" where
  "key_on c audio_open s =
     (if u_keyed s then (Inr (), s)
      else if \<not> uc_tx_allowed c then (Inl Uvk5KeyingError, s)
      else if u_frequency s = None then (Inl RadioNotReady, s)
      else case audio_open of
        Some e \<Rightarrow> (Inl e, s\<lparr>u_pa := None\<rparr>)
      | None \<Rightarrow>
          andthen (catching (key_up c) (\<lambda>e. andthen (guarded (key_off c)) (\<lambda>_. raising e)))
            (\<lambda>_. modifying (\<lambda>s. s\<lparr>u_keyed := True\<rparr>)) (s\<lparr>u_pa := None, u_playback := True\<rparr>))"

definition ptt :: "'w uvk5_config \<Rightarrow> exn option \<Rightarrow> bool \<Rightarrow> ('w uvk5, unit) meth" where
  "ptt c audio_open on = (if on then key_on c audio_open else key_off c)"

text \<open>
  \<open>transmit\<close>: streaming, the frame goes to the pacer; otherwise one shot. \<open>play\<close> is what playing the clip
  does: nothing, or the pacer's error, which has already un-keyed on the pacer's thread.
\<close>

definition transmit :: "'w uvk5_config \<Rightarrow> bool \<Rightarrow> exn option \<Rightarrow> exn option \<Rightarrow> ('w uvk5, unit) meth" where
  "transmit c canonical audio_open play s =
     (if \<not> canonical then (Inl AudioFormatMismatch, s)
      else if u_keyed s then (Inr (), s)
      else case key_on c audio_open s of
        (Inl e, s1) \<Rightarrow> (Inl e, s1)
      | (Inr u, s1) \<Rightarrow>
          (case play of
             None \<Rightarrow> key_off c s1
           | Some e \<Rightarrow> andthen (guarded (key_off c)) (\<lambda>_. andthen (key_off c) (\<lambda>_. raising e)) s1))"

text \<open>A playback write that fails during a streaming over: the pacer's \<open>on_error\<close>.\<close>

definition pacer_failed :: "'w uvk5_config \<Rightarrow> 'w uvk5 \<Rightarrow> 'w uvk5" where
  "pacer_failed c s = (if u_playback s then snd (key_off c s) else s)"

subsection \<open>Status and close\<close>

definition busy_reading :: "'w uvk5_config \<Rightarrow> ('w uvk5, bool \<times> int option) meth" where
  "busy_reading c s =
     (if u_keyed s then (Inr (False, None), s)
      else case read_register c 0x67 s of
        (Inr v, s1) \<Rightarrow>
          (let rssi = v AND 0x1FF; busy = (uc_squelch_threshold c \<le> rssi)
           in (Inr (busy, Some rssi), s1\<lparr>u_last_busy := busy, u_busy_stale := 0\<rparr>))
      | (Inl e, s1) \<Rightarrow>
          if \<not> dropped e then (Inl e, s1)
          else if u_busy_stale s1 < BUSY_HOLD_READS
          then (Inr (u_last_busy s1, None), s1\<lparr>u_busy_stale := u_busy_stale s1 + 1\<rparr>)
          else (Inr (False, None), s1))"

record radio_status =
  rs_transmitting :: bool
  rs_busy :: bool
  rs_frequency :: "int option"
  rs_tx_frequency :: "int option"
  rs_tone :: "real option"
  rs_mode :: "string option"
  rs_rssi :: "int option"
  rs_pa :: "pa_state option"

definition status :: "'w uvk5_config \<Rightarrow> ('w uvk5, radio_status) meth" where
  "status c =
     andthen (busy_reading c)
       (\<lambda>(busy, rssi) s. (Inr \<lparr>rs_transmitting = u_keyed s, rs_busy = busy, rs_frequency = u_frequency s,
          rs_tx_frequency = u_tx_frequency s, rs_tone = u_tone s, rs_mode = u_mode s, rs_rssi = rssi, rs_pa = u_pa s\<rparr>, s))"

definition radio_close :: "'w uvk5_config \<Rightarrow> 'w uvk5 \<Rightarrow> 'w uvk5" where
  "radio_close c s =
     (if u_closed s then s
      else let s1 = s\<lparr>u_closed := True\<rparr>; s2 = (if u_keyed s1 then snd (key_off c s1) else s1)
           in snd (on_dock (dk_exit (uc_dock c)) s2))"

definition blank :: "'w \<Rightarrow> 'w uvk5" where
  "blank w = \<lparr>u_dock = w, u_frames = [], u_reads = [], u_reg30 = 0, u_reg33 = 0, u_frequency = None, u_tx_frequency = None,
     u_tone = None, u_mode = None, u_keyed = False, u_closed = False, u_pa = None, u_playback = False,
     u_last_busy = False, u_busy_stale = 0\<rparr>"

definition maybe :: "('a \<Rightarrow> ('s, unit) meth) \<Rightarrow> 'a option \<Rightarrow> ('s, unit) meth" where
  "maybe f x = (case x of None \<Rightarrow> returning () | Some a \<Rightarrow> f a)"

definition connect ::
  "'w uvk5_config \<Rightarrow> int option \<Rightarrow> string option \<Rightarrow> real option \<Rightarrow> ('w uvk5, unit) meth" where
  "connect c frequency mode tone =
     andthen (on_dock (dk_connect (uc_dock c)))
       (\<lambda>_. andthen (enter_hw_mode c ENTER_HW_MODE_RETRIES)
       (\<lambda>_. andthen (seed_reg30 c)
       (\<lambda>r30. andthen (modifying (\<lambda>s. s\<lparr>u_reg30 := r30\<rparr>))
       (\<lambda>_. andthen (seed_reg33 c)
       (\<lambda>r33. andthen (modifying (\<lambda>s. s\<lparr>u_reg33 := r33\<rparr>))
       (\<lambda>_. andthen (seed_frequency c)
       (\<lambda>f. andthen (modifying (\<lambda>s. s\<lparr>u_frequency := f\<rparr>))
       (\<lambda>_. andthen (maybe (set_frequency c) frequency)
       (\<lambda>_. andthen (maybe (set_mode c) mode)
       (\<lambda>_. maybe (\<lambda>t. set_tone c (Some t)) tone))))))))))"

end
