(* ===== verification/Uvk5Keying.thy ===== *)
theory Uvk5Keying
  imports Uvk5Radio
begin

section \<open>The UV-K5 backend: what keying, tuning and status guarantee\<close>

text \<open>
  The properties of \<open>Uvk5Radio\<close>. Every operation is first described by what it sends and reads:
  \<open>io fr rd s s'\<close> says that \<open>s'\<close> is \<open>s\<close> with the frames \<open>fr\<close> sent, the reads \<open>rd\<close> answered, and nothing else
  changed but the dock. The operations of the class are then one step type, \<open>u_op\<close>, and the safety of
  the transmit line is an invariant of every sequence of them, against any dock.
\<close>

subsection \<open>What an operation sends and reads\<close>

definition io :: "(regs \<times> bool) list \<Rightarrow> (int \<times> (exn + int)) list \<Rightarrow> 'w uvk5 \<Rightarrow> 'w uvk5 \<Rightarrow> bool" where
  "io fr rd s s' \<longleftrightarrow>
     (\<exists>w. s' = s\<lparr>u_dock := w, u_frames := u_frames s @ fr, u_reads := u_reads s @ rd\<rparr>)"

lemma io_refl [simp, intro]: "io [] [] s s"
  unfolding io_def by (rule exI [of _ "u_dock s"]) simp

lemma io_trans: "io fr rd s s' \<Longrightarrow> io fr' rd' s' s'' \<Longrightarrow> io (fr @ fr') (rd @ rd') s s''"
  unfolding io_def by auto

lemma io_fields:
  assumes "io fr rd s s'"
  shows "u_frames s' = u_frames s @ fr" "u_reads s' = u_reads s @ rd" "u_reg30 s' = u_reg30 s" "u_reg33 s' = u_reg33 s"
    "u_frequency s' = u_frequency s" "u_tx_frequency s' = u_tx_frequency s" "u_tone s' = u_tone s" "u_mode s' = u_mode s"
    "u_keyed s' = u_keyed s" "u_closed s' = u_closed s" "u_pa s' = u_pa s" "u_playback s' = u_playback s"
    "u_last_busy s' = u_last_busy s" "u_busy_stale s' = u_busy_stale s"
  using assms unfolding io_def by auto

lemma io_frames_of:
  assumes "io fr rd s s'"
  shows "tx_tune_pairs s' = tx_tune_pairs s" "tone_pairs s' = tone_pairs s" "key_frame s' = key_frame s"
    "rx_reg33 s' = rx_reg33 s" "unkey_frame s' = unkey_frame s" "tx_band_hz s' = tx_band_hz s" "tx_reg33 s' = tx_reg33 s"
proof -
  note [simp] = io_fields [OF assms]
  show "tx_tune_pairs s' = tx_tune_pairs s" "tone_pairs s' = tone_pairs s"
    by (simp_all add: tx_tune_pairs_def tone_pairs_def)
  then show "key_frame s' = key_frame s" by (simp add: key_frame_def)
  show "rx_reg33 s' = rx_reg33 s" by (simp add: rx_reg33_def)
  then show "unkey_frame s' = unkey_frame s" by (simp add: unkey_frame_def)
  show "tx_band_hz s' = tx_band_hz s" by (simp add: tx_band_hz_def)
  then show "tx_reg33 s' = tx_reg33 s" by (simp add: tx_reg33_def cong: option.case_cong)
qed

lemma write_registers_io: "write_registers c pairs s = (r, s') \<Longrightarrow> io [(pairs, r = Inr ())] [] s s'"
  unfolding io_def write_registers_def by (auto split: prod.splits)

lemma read_register_io: "read_register c reg s = (r, s') \<Longrightarrow> io [] [(reg, r)] s s'"
  unfolding io_def read_register_def by (auto split: prod.splits)

lemma on_dock_io: "on_dock m s = (r, s') \<Longrightarrow> io [] [] s s'"
  unfolding io_def on_dock_def by (auto split: prod.splits)

lemma enter_hw_mode_io: "enter_hw_mode c n s = (r, s') \<Longrightarrow> \<exists>rd. io [] rd s s'"
proof (induction n arbitrary: s)
  case (Suc n)
  obtain r1 s1 where 1: "on_dock (dk_enter (uc_dock c)) s = (r1, s1)" by fastforce
  obtain r2 s2 where 2: "read_register c 0x47 s1 = (r2, s2)" by fastforce
  note io = on_dock_io [OF 1] io_trans [OF on_dock_io [OF 1] read_register_io [OF 2]]
  have "\<exists>rd. io [] rd s2 s' \<Longrightarrow> \<exists>rd. io [] rd s s'"
    using io(2) io_trans by fastforce
  moreover have "(\<exists>rd. io [] rd s2 s') \<or> s' = s1 \<or> s' = s2"
    using Suc 1 2 by (auto split: sum.splits if_splits)
  ultimately show ?case using io by auto
qed auto

lemma seed_read_io: "seed_read c X reg n s = (r, s') \<Longrightarrow> \<exists>rd. io [] rd s s' \<and> length rd \<le> n"
proof (induction n arbitrary: s)
  case (Suc n)
  obtain r1 s1 where 1: "read_register c reg s = (r1, s1)" by fastforce
  have "(\<exists>rd. io [] rd s1 s' \<and> length rd \<le> n) \<or> s' = s1"
    using Suc 1 by (auto split: sum.splits if_splits)
  then show ?case
  proof
    assume "\<exists>rd. io [] rd s1 s' \<and> length rd \<le> n"
    then obtain rd where "io [] rd s1 s'" "length rd \<le> n" by blast
    then show ?thesis using io_trans [OF read_register_io [OF 1]] by (intro exI [of _ "[(reg, r1)] @ rd"]) auto
  next
    assume "s' = s1"
    then show ?thesis using read_register_io [OF 1] by (intro exI [of _ "[(reg, r1)]"]) auto
  qed
qed auto

lemma confirm_loop_io:
  "confirm_loop c n v s = (r, s') \<Longrightarrow>
     \<exists>rd. io [] rd s s' \<and> length rd \<le> n \<and> (r = Inr REG30_TX_ENABLED \<longrightarrow> v = REG30_TX_ENABLED \<or> (0x30, Inr REG30_TX_ENABLED) \<in> set rd)"
proof (induction n arbitrary: s v)
  case (Suc n)
  obtain r1 s1 where 1: "read_register c 0x30 s = (r1, s1)" by fastforce
  note io = read_register_io [OF 1]
  have "(r = r1 \<and> s' = s1) \<or> (\<exists>v'. confirm_loop c n v' s1 = (r, s') \<and> (v' = REG30_TX_ENABLED \<longrightarrow> v = REG30_TX_ENABLED))"
  proof (cases r1)
    case (Inl e)
    with Suc.prems 1 show ?thesis by (cases "e = Uvk5Timeout") auto
  next
    case (Inr x)
    with Suc.prems 1 show ?thesis by (cases "x = REG30_TX_ENABLED") auto
  qed
  then consider (stop) "r = r1" "s' = s1" | (more) v' where "confirm_loop c n v' s1 = (r, s')"
      "v' = REG30_TX_ENABLED \<longrightarrow> v = REG30_TX_ENABLED"
    by blast
  then show ?case
  proof cases
    case stop
    then show ?thesis using io by (intro exI [of _ "[(0x30, r1)]"]) auto
  next
    case more
    obtain rd where "io [] rd s1 s'" "length rd \<le> n"
        "r = Inr REG30_TX_ENABLED \<longrightarrow> v' = REG30_TX_ENABLED \<or> (0x30, Inr REG30_TX_ENABLED) \<in> set rd"
      using Suc.IH [OF more(1)] by blast
    then show ?thesis using io_trans [OF io] more(2) by (intro exI [of _ "[(0x30, r1)] @ rd"]) auto
  qed
qed auto

lemma key_loop_io:
  "key_loop c n v s = (r, s') \<Longrightarrow>
     \<exists>fr rd. io fr rd s s' \<and> length fr \<le> n \<and> length rd \<le> KEY_CONFIRM_ATTEMPTS * n \<and> (\<forall>x\<in>set fr. fst x = key_frame s)
       \<and> (r = Inr REG30_TX_ENABLED \<longrightarrow> v = REG30_TX_ENABLED \<or> (0x30, Inr REG30_TX_ENABLED) \<in> set rd)
       \<and> (fr = [] \<longrightarrow> n = 0)"
proof (induction n arbitrary: s v)
  case (Suc n)
  obtain r1 s1 where 1: "write_registers c (key_frame s) s = (r1, s1)" by fastforce
  note io1 = write_registers_io [OF 1]
  show ?case
  proof (cases r1)
    case (Inl e)
    then show ?thesis using io1 Suc.prems 1 by (intro exI [of _ "[(key_frame s, r1 = Inr ())]"] exI [of _ "[]"]) auto
  next
    case (Inr u)
    obtain r2 s2 where 2: "confirm_loop c KEY_CONFIRM_ATTEMPTS 0 s1 = (r2, s2)" by fastforce
    obtain rd where io2: "io [] rd s1 s2" "length rd \<le> KEY_CONFIRM_ATTEMPTS"
        "r2 = Inr REG30_TX_ENABLED \<longrightarrow> (0x30, Inr REG30_TX_ENABLED) \<in> set rd"
      using confirm_loop_io [OF 2] by (auto simp: REG30_TX_ENABLED_def)
    have io: "io [(key_frame s, True)] rd s s2" using io_trans [OF io1 io2(1)] Inr by simp
    consider (stop) "r = r2" "s' = s2" | (more) v' where "r2 = Inr v'" "v' \<noteq> REG30_TX_ENABLED" "key_loop c n v' s2 = (r, s')"
    proof (cases r2)
      case (Inr v')
      then show ?thesis using that Suc.prems 1 2 \<open>r1 = Inr u\<close> by (cases "v' = REG30_TX_ENABLED") (auto simp: confirm_keyed_def)
    qed (use that Suc.prems 1 2 Inr in \<open>simp add: confirm_keyed_def\<close>)
    then show ?thesis
    proof cases
      case stop
      then show ?thesis using io io2 by (intro exI [of _ "[(key_frame s, True)]"] exI [of _ rd]) auto
    next
      case more
      obtain fr' rd' where *: "io fr' rd' s2 s'" "length fr' \<le> n" "length rd' \<le> KEY_CONFIRM_ATTEMPTS * n"
          "\<forall>x\<in>set fr'. fst x = key_frame s2"
          "r = Inr REG30_TX_ENABLED \<longrightarrow> (0x30, Inr REG30_TX_ENABLED) \<in> set rd'"
        using Suc.IH [OF more(3)] more(2) by blast
      then show ?thesis
        using io_trans [OF io *(1)] io2 io_frames_of(3) [OF io]
        by (intro exI [of _ "[(key_frame s, True)] @ fr'"] exI [of _ "rd @ rd'"]) auto
    qed
  qed
qed auto

text \<open>Reading the PA register and matching it to the band: at most one write, of registers 0x33 and 0x36.\<close>

lemma correct_tx_band_io:
  assumes "correct_tx_band c s = (r, s')"
  shows "\<exists>fr rd. io fr rd (s\<lparr>u_pa := u_pa s'\<rparr>) s' \<and> length fr \<le> 1 \<and> length rd \<le> 1 \<and> (\<forall>x\<in>set fr. fst ` set (fst x) \<subseteq> {0x33, 0x36})"
proof (cases "tx_band_hz s")
  case None
  then show ?thesis using assms by (intro exI [of _ "[]"]) (auto simp: correct_tx_band_def)
next
  case (Some hz)
  obtain r1 s1 where 1: "read_register c 0x36 s = (r1, s1)" by fastforce
  note io1 = read_register_io [OF 1]
  have pa: "io fr rd s s2 \<Longrightarrow> io fr rd (s\<lparr>u_pa := p\<rparr>) (s2\<lparr>u_pa := p\<rparr>)" for fr rd s2 p
    unfolding io_def by (cases s) auto
  have pa': "io fr rd s s2 \<Longrightarrow> io fr rd (s\<lparr>u_pa := u_pa s2\<rparr>) s2" for fr rd s2
    unfolding io_def by auto
  show ?thesis
  proof (cases r1)
    case (Inl e)
    then show ?thesis using assms Some 1 pa [OF io1, of None] pa' [OF io1]
      by (intro exI [of _ "[]"] exI [of _ "[(0x36, r1)]"]) (auto simp: correct_tx_band_def split: if_splits)
  next
    case (Inr reg36)
    obtain ws P where ws: "correct_tx_band c s = andthen (write_registers c ws) (\<lambda>_. modifying (\<lambda>s. s\<lparr>u_pa := P\<rparr>)) s1"
        and sub: "fst ` set ws \<subseteq> {0x33, 0x36}"
      using Some 1 Inr by (simp add: correct_tx_band_def Let_def)
    obtain r2 s2 where 2: "write_registers c ws s1 = (r2, s2)" by fastforce
    note io = io_trans [OF io1 write_registers_io [OF 2]]
    show ?thesis using assms ws 2 sub pa [OF io, of P] pa' [OF io]
      by (intro exI [of _ "[(ws, r2 = Inr ())]"] exI [of _ "[(0x36, r1)]"]) (cases r2; simp add: eq_commute [of _ s'])
  qed
qed

lemma restore_loop_io:
  "restore_loop c hz n s = (r, s') \<Longrightarrow>
     \<exists>fr rd. io fr rd s s' \<and> length fr \<le> n \<and> length rd \<le> 2 * n
       \<and> (\<forall>x\<in>set fr. fst x = freq_pairs hz @ [(0x33, rx_reg33 s), (0x30, 0), (0x30, u_reg30 s)]) \<and> (fr = [] \<longrightarrow> n = 0)"
proof (induction n arbitrary: s)
  case (Suc n)
  let ?f = "freq_pairs hz @ [(0x33, rx_reg33 s), (0x30, 0), (0x30, u_reg30 s)]"
  let ?readback = "andthen (read_register c 0x39) (\<lambda>hi. andthen (read_register c 0x38) (\<lambda>lo. returning (push_bit 16 hi OR lo)))"
  obtain r1 s1 where 1: "write_registers c ?f s = (r1, s1)" by fastforce
  note io1 = write_registers_io [OF 1]
  obtain r2 s2 where 2: "?readback s1 = (r2, s2)" by fastforce
  have "\<exists>rd. io [] rd s1 s2 \<and> length rd \<le> 2"
  proof -
    obtain rh sh where h: "read_register c 0x39 s1 = (rh, sh)" by fastforce
    obtain rl sl where l: "read_register c 0x38 sh = (rl, sl)" by fastforce
    note ioh = read_register_io [OF h]
    note iol = io_trans [OF ioh read_register_io [OF l]]
    show ?thesis
      using 2 h l ioh iol by (cases rh; cases rl) (auto intro: exI [of _ "[(0x39, rh)]"] exI [of _ "[(0x39, rh), (0x38, rl)]"])
  qed
  then obtain rd where io2: "io [] rd s1 s2" "length rd \<le> 2" by blast
  have io: "io [(?f, r1 = Inr ())] rd s s2" using io_trans [OF io1 io2(1)] by simp
  have "s' = s1 \<or> s' = s2 \<or> restore_loop c hz n s2 = (r, s')"
  proof (cases r1)
    case (Inr u)
    then show ?thesis using Suc.prems 1 2 by (cases r2) (auto split: if_splits)
  qed (use Suc.prems 1 in simp)
  then consider "s' = s1" | "s' = s2" | "restore_loop c hz n s2 = (r, s')" by blast
  then show ?case
  proof cases
    case 1
    then show ?thesis using io1 by (intro exI [of _ "[(?f, r1 = Inr ())]"] exI [of _ "[]"]) auto
  next
    case 2
    then show ?thesis using io io2 by (intro exI [of _ "[(?f, r1 = Inr ())]"] exI [of _ rd]) auto
  next
    case 3
    obtain fr' rd' where *: "io fr' rd' s2 s'" "length fr' \<le> n" "length rd' \<le> 2 * n"
        "\<forall>x\<in>set fr'. fst x = freq_pairs hz @ [(0x33, rx_reg33 s2), (0x30, 0), (0x30, u_reg30 s2)]"
      using Suc.IH [OF 3] by blast
    have "rx_reg33 s2 = rx_reg33 s" "u_reg30 s2 = u_reg30 s" using io_frames_of(4) [OF io] io_fields(3) [OF io] by auto
    then show ?thesis using io_trans [OF io *(1)] io2 *
      by (intro exI [of _ "[(?f, r1 = Inr ())] @ fr'"] exI [of _ "rd @ rd'"]) auto
  qed
qed auto

definition restore_frame :: "'w uvk5 \<Rightarrow> regs \<Rightarrow> bool" where
  "restore_frame s p \<longleftrightarrow> (\<exists>hz. u_frequency s = Some hz \<and> u_tx_frequency s \<noteq> None \<and>
     p = freq_pairs hz @ [(0x33, rx_reg33 s), (0x30, 0), (0x30, u_reg30 s)])"

lemma restore_rx_frequency_io:
  assumes "restore_rx_frequency c s = (r, s')"
  shows "\<exists>fr rd. io fr rd s s' \<and> length fr \<le> 2 \<and> length rd \<le> 4 \<and> (\<forall>x\<in>set fr. restore_frame s (fst x))
     \<and> (u_tx_frequency s \<noteq> None \<and> u_frequency s \<noteq> None \<longrightarrow> fr \<noteq> [])"
proof (cases "u_tx_frequency s = None \<or> u_frequency s = None")
  case True
  then show ?thesis using assms by (intro exI [of _ "[]"]) (auto simp: restore_rx_frequency_def split: option.splits if_splits)
next
  case False
  then obtain hz tx where hz: "u_frequency s = Some hz" "u_tx_frequency s = Some tx" by auto
  then have "restore_loop c hz 2 s = (r, s')" using assms by (simp add: restore_rx_frequency_def)
  from restore_loop_io [OF this] hz show ?thesis by (auto simp: restore_frame_def)
qed

text \<open>
  Un-keying: the un-key frame comes first, whatever happens after it. It clears the flag and closes the
  playout stream unless an exception other than a drop comes back from the read-back of the restore.
\<close>

lemma key_off_io:
  assumes "key_off c s = (r, s')"
  shows "\<exists>b fr rd. io ((unkey_frame s, b) # fr) rd (s\<lparr>u_keyed := u_keyed s', u_playback := u_playback s'\<rparr>) s'
     \<and> length fr \<le> 2 \<and> length rd \<le> 4 \<and> (\<forall>x\<in>set fr. restore_frame s (fst x))
     \<and> (u_tx_frequency s \<noteq> None \<and> u_frequency s \<noteq> None \<longrightarrow> fr \<noteq> [])
     \<and> (if r = Inr () then \<not> u_keyed s' \<and> \<not> u_playback s' else u_keyed s' = u_keyed s \<and> u_playback s' = u_playback s)"
proof -
  obtain r1 s1 where 1: "write_registers c (unkey_frame s) s = (r1, s1)" by fastforce
  obtain r2 s2 where 2: "restore_rx_frequency c s1 = (r2, s2)" by fastforce
  note io1 = write_registers_io [OF 1]
  obtain fr rd where io2: "io fr rd s1 s2" "length fr \<le> 2" "length rd \<le> 4" "\<forall>x\<in>set fr. restore_frame s1 (fst x)"
      "u_tx_frequency s1 \<noteq> None \<and> u_frequency s1 \<noteq> None \<longrightarrow> fr \<noteq> []"
    using restore_rx_frequency_io [OF 2] by blast
  have same: "restore_frame s1 = restore_frame s" "u_tx_frequency s1 = u_tx_frequency s" "u_frequency s1 = u_frequency s"
    using io_fields [OF io1] io_frames_of [OF io1] by (auto simp: restore_frame_def fun_eq_iff)
  note io = io_trans [OF io1 io2(1)]
  have pa: "io f d s s2 \<Longrightarrow> io f d (s\<lparr>u_keyed := k, u_playback := p\<rparr>) (s2\<lparr>u_keyed := k, u_playback := p\<rparr>)" for f d k p
    unfolding io_def by (cases s) auto
  have "(r, s') = (r2, if r2 = Inr () then s2\<lparr>u_keyed := False, u_playback := False\<rparr> else s2)"
    unfolding assms [symmetric] key_off_def using 1 2 by (cases r2) simp_all
  then have s': "s' = (if r2 = Inr () then s2\<lparr>u_keyed := False, u_playback := False\<rparr> else s2)" and r: "r = r2" by auto
  have k: "u_keyed s2 = u_keyed s" "u_playback s2 = u_playback s" using io_fields [OF io] by auto
  have "io ([(unkey_frame s, r1 = Inr ())] @ fr) ([] @ rd) (s\<lparr>u_keyed := u_keyed s', u_playback := u_playback s'\<rparr>) s'"
  proof (cases "r2 = Inr ()")
    case True
    then show ?thesis using pa [OF io, of False False] s' by simp
  next
    case False
    then show ?thesis using io s' k by simp
  qed
  then show ?thesis using io2 same s' r k by (intro exI [of _ "r1 = Inr ()"] exI [of _ fr] exI [of _ rd]) auto
qed

subsection \<open>What was last sent to a register\<close>

definition last_sent :: "(regs \<times> bool) list \<Rightarrow> int \<Rightarrow> int option" where
  "last_sent frs r = map_of (rev (concat (map fst frs))) r"

definition tx_off :: "(regs \<times> bool) list \<Rightarrow> bool" where
  "tx_off frs \<longleftrightarrow> (case last_sent frs 0x30 of None \<Rightarrow> True | Some v \<Rightarrow> v AND REG30_TX_BIT = 0)"

lemma last_sent_append: "last_sent (a @ b) r = (case last_sent b r of None \<Rightarrow> last_sent a r | Some v \<Rightarrow> Some v)"
  by (auto simp: last_sent_def map_add_def split: option.splits)

lemma last_sent_none: "(\<forall>x\<in>set b. r \<notin> fst ` set (fst x)) \<Longrightarrow> last_sent (a @ b) r = last_sent a r"
  by (force simp: last_sent_def map_add_def map_of_eq_None_iff split: option.splits dest: map_of_SomeD)

lemma last_sent_all:
  assumes "fr \<noteq> []" and "\<forall>x\<in>set fr. map_of (rev (fst x)) r = Some v"
  shows "last_sent (a @ fr) r = Some v"
  using assms by (induction fr rule: rev_induct) (auto simp: last_sent_def map_add_def)

lemma receive_words [simp]:
  "map_of (rev (unkey_frame s)) 0x30 = Some (u_reg30 s)"
  "map_of (rev (freq_pairs hz @ [(0x33, x), (0x30, 0), (0x30, y)])) 0x30 = Some y"
  "restore_frame s p \<Longrightarrow> map_of (rev p) 0x30 = Some (u_reg30 s)"
  by (auto simp: unkey_frame_def freq_pairs_def Let_def restore_frame_def)

lemma key_off_last:
  assumes "key_off c s = (r, s')"
  shows "last_sent (u_frames s') 0x30 = Some (u_reg30 s)"
proof -
  obtain b fr rd where io: "io ((unkey_frame s, b) # fr) rd (s\<lparr>u_keyed := u_keyed s', u_playback := u_playback s'\<rparr>) s'"
      "\<forall>x\<in>set fr. restore_frame s (fst x)"
    using key_off_io [OF assms] by blast
  have "last_sent (u_frames s @ (unkey_frame s, b) # fr) 0x30 = Some (u_reg30 s)"
    by (rule last_sent_all) (use io(2) in auto)
  then show ?thesis using io_fields(1) [OF io(1)] by simp
qed

lemma key_off_fields:
  assumes "key_off c s = (r, s')"
  shows "u_reg30 s' = u_reg30 s" "u_reg33 s' = u_reg33 s" "u_frequency s' = u_frequency s"
    "u_tx_frequency s' = u_tx_frequency s" "u_tone s' = u_tone s" "u_closed s' = u_closed s" "u_pa s' = u_pa s"
    "r = Inr () \<Longrightarrow> \<not> u_keyed s' \<and> \<not> u_playback s'" "r \<noteq> Inr () \<Longrightarrow> u_keyed s' = u_keyed s \<and> u_playback s' = u_playback s"
proof -
  obtain b fr rd where io: "io ((unkey_frame s, b) # fr) rd (s\<lparr>u_keyed := u_keyed s', u_playback := u_playback s'\<rparr>) s'"
      "if r = Inr () then \<not> u_keyed s' \<and> \<not> u_playback s' else u_keyed s' = u_keyed s \<and> u_playback s' = u_playback s"
    using key_off_io [OF assms] by blast
  show "u_reg30 s' = u_reg30 s" "u_reg33 s' = u_reg33 s" "u_frequency s' = u_frequency s"
    "u_tx_frequency s' = u_tx_frequency s" "u_tone s' = u_tone s" "u_closed s' = u_closed s" "u_pa s' = u_pa s"
    using io_fields [OF io(1)] by simp_all
  show "r = Inr () \<Longrightarrow> \<not> u_keyed s' \<and> \<not> u_playback s'" "r \<noteq> Inr () \<Longrightarrow> u_keyed s' = u_keyed s \<and> u_playback s' = u_playback s"
    using io(2) by simp_all
qed

subsection \<open>Keying up\<close>

lemma key_up_io:
  assumes "key_up c s = (r, s')"
  shows "\<exists>fr bfr rd. io (fr @ bfr) rd (s\<lparr>u_pa := u_pa s'\<rparr>) s' \<and> fr \<noteq> [] \<and> length fr \<le> KEY_ATTEMPTS
     \<and> (\<forall>x\<in>set fr. fst x = key_frame s) \<and> length bfr \<le> 1 \<and> (\<forall>x\<in>set bfr. fst ` set (fst x) \<subseteq> {0x33, 0x36})
     \<and> length rd \<le> KEY_CONFIRM_ATTEMPTS * KEY_ATTEMPTS + 1 \<and> (r = Inr () \<longrightarrow> (0x30, Inr REG30_TX_ENABLED) \<in> set rd)"
proof -
  obtain r1 s1 where 1: "key_loop c KEY_ATTEMPTS 0 s = (r1, s1)" by fastforce
  obtain fr rd where io1: "io fr rd s s1" "length fr \<le> KEY_ATTEMPTS" "length rd \<le> KEY_CONFIRM_ATTEMPTS * KEY_ATTEMPTS"
      "\<forall>x\<in>set fr. fst x = key_frame s" "r1 = Inr REG30_TX_ENABLED \<longrightarrow> (0x30, Inr REG30_TX_ENABLED) \<in> set rd" "fr \<noteq> []"
    using key_loop_io [OF 1] by (auto simp: REG30_TX_ENABLED_def KEY_ATTEMPTS_def)
  have pa: "io f d s t \<Longrightarrow> io f d (s\<lparr>u_pa := p\<rparr>) (t\<lparr>u_pa := p\<rparr>)" for f d t p
    unfolding io_def by (cases s) auto
  have pa': "io f d s t \<Longrightarrow> io f d (s\<lparr>u_pa := u_pa t\<rparr>) t" for f d t
    unfolding io_def by auto
  show ?thesis
  proof (cases "r1 = Inr REG30_TX_ENABLED")
    case False
    then have "(r, s') = (Inl (case r1 of Inl e \<Rightarrow> e | Inr v \<Rightarrow> Uvk5KeyingError), s1)"
      unfolding assms [symmetric] key_up_def using 1 by (cases r1) simp_all
    then have "s' = s1" "r \<noteq> Inr ()" by auto
    then show ?thesis using io1 pa' [OF io1(1)] by (intro exI [of _ fr] exI [of _ "[]"] exI [of _ rd]) simp
  next
    case True
    then have 2: "correct_tx_band c s1 = (r, s')" using assms 1 by (simp add: key_up_def)
    obtain bfr rd' where io2: "io bfr rd' (s1\<lparr>u_pa := u_pa s'\<rparr>) s'" "length bfr \<le> 1" "length rd' \<le> 1"
        "\<forall>x\<in>set bfr. fst ` set (fst x) \<subseteq> {0x33, 0x36}"
      using correct_tx_band_io [OF 2] by blast
    show ?thesis using io1 io2 True io_trans [OF pa [OF io1(1)] io2(1)]
      by (intro exI [of _ fr] exI [of _ bfr] exI [of _ "rd @ rd'"]) simp
  qed
qed

lemma key_on_refused:
  assumes "\<not> u_keyed s" and "\<not> uc_tx_allowed c \<or> u_frequency s = None \<or> a \<noteq> None"
  shows "\<exists>e. key_on c a s = (Inl e, s) \<or> key_on c a s = (Inl e, s\<lparr>u_pa := None\<rparr>)"
  using assms by (auto simp: key_on_def split: option.splits)

text \<open>A key-up that is not refused: the flag is set, or the un-key runs and the error comes out.\<close>

lemma key_on_runs:
  assumes "key_on c a s = (r, s')" and "\<not> u_keyed s" and "uc_tx_allowed c" and "u_frequency s \<noteq> None" and "a = None"
  obtains (up) s1 where "key_up c (s\<lparr>u_pa := None, u_playback := True\<rparr>) = (Inr (), s1)" "r = Inr ()" "s' = s1\<lparr>u_keyed := True\<rparr>"
  | (undone) e s1 q where "key_up c (s\<lparr>u_pa := None, u_playback := True\<rparr>) = (Inl e, s1)" "r = Inl e" "key_off c s1 = (q, s')"
proof -
  let ?s = "s\<lparr>u_pa := None, u_playback := True\<rparr>"
  obtain r1 s1 where 1: "key_up c ?s = (r1, s1)" by fastforce
  have on: "key_on c a s = andthen (catching (key_up c) (\<lambda>e. andthen (guarded (key_off c)) (\<lambda>_. raising e)))
            (\<lambda>_. modifying (\<lambda>s. s\<lparr>u_keyed := True\<rparr>)) ?s"
    using assms(2-5) by (auto simp: key_on_def)
  show ?thesis
  proof (cases r1)
    case (Inr u)
    then show ?thesis using up assms(1) on 1 by simp
  next
    case (Inl e)
    obtain q t where q: "key_off c s1 = (q, t)" by fastforce
    then show ?thesis using undone [OF _ _ q [THEN trans]] undone assms(1) on 1 Inl by simp
  qed
qed

lemma key_up_fields:
  assumes "key_up c s = (r, s')"
  shows "u_reg30 s' = u_reg30 s" "u_reg33 s' = u_reg33 s" "u_frequency s' = u_frequency s" "u_closed s' = u_closed s"
    "u_tx_frequency s' = u_tx_frequency s" "u_tone s' = u_tone s" "u_keyed s' = u_keyed s" "u_playback s' = u_playback s"
proof -
  obtain fr bfr rd where "io (fr @ bfr) rd (s\<lparr>u_pa := u_pa s'\<rparr>) s'" using key_up_io [OF assms] by blast
  from io_fields [OF this]
  show "u_reg30 s' = u_reg30 s" "u_reg33 s' = u_reg33 s" "u_frequency s' = u_frequency s" "u_closed s' = u_closed s"
    "u_tx_frequency s' = u_tx_frequency s" "u_tone s' = u_tone s" "u_keyed s' = u_keyed s" "u_playback s' = u_playback s" by simp_all
qed

lemma key_on_fields:
  assumes "key_on c a s = (r, s')"
  shows "u_reg30 s' = u_reg30 s" "u_reg33 s' = u_reg33 s" "u_frequency s' = u_frequency s"
    "u_tx_frequency s' = u_tx_frequency s" "u_tone s' = u_tone s" "u_closed s' = u_closed s"
    "u_keyed s' = (u_keyed s \<or> r = Inr ())"
proof -
  have "u_reg30 s' = u_reg30 s \<and> u_reg33 s' = u_reg33 s \<and> u_frequency s' = u_frequency s
    \<and> u_tx_frequency s' = u_tx_frequency s \<and> u_tone s' = u_tone s \<and> u_closed s' = u_closed s
    \<and> u_keyed s' = (u_keyed s \<or> r = Inr ())"
  proof (cases "\<not> u_keyed s \<and> uc_tx_allowed c \<and> u_frequency s \<noteq> None \<and> a = None")
    case True
    then have *: "\<not> u_keyed s" "uc_tx_allowed c" "u_frequency s \<noteq> None" "a = None" by simp_all
    from assms * show ?thesis
    proof (cases rule: key_on_runs)
      case (up s1)
      then show ?thesis using key_up_fields [OF up(1)] by simp
    next
      case (undone e s1 q)
      then show ?thesis using key_up_fields [OF undone(1)] key_off_fields [OF undone(3)] * by (cases "q = Inr ()") simp_all
    qed
  next
    case False
    then show ?thesis using assms by (auto simp: key_on_def split: option.splits if_splits)
  qed
  then show "u_reg30 s' = u_reg30 s" "u_reg33 s' = u_reg33 s" "u_frequency s' = u_frequency s"
    "u_tx_frequency s' = u_tx_frequency s" "u_tone s' = u_tone s" "u_closed s' = u_closed s"
    "u_keyed s' = (u_keyed s \<or> r = Inr ())" by simp_all
qed

lemma key_on_effect:
  assumes "key_on c a s = (r, s')" and "\<not> u_keyed s"
  shows "(r = Inr () \<longrightarrow> u_keyed s' \<and> uc_tx_allowed c \<and> u_frequency s \<noteq> None \<and>
           (\<exists>fr bfr rd. u_frames s' = u_frames s @ fr @ bfr \<and> u_reads s' = u_reads s @ rd
             \<and> 1 \<le> length fr \<and> length fr \<le> 3 \<and> length bfr \<le> 1 \<and> (\<forall>x\<in>set bfr. fst ` set (fst x) \<subseteq> {0x33, 0x36}) \<and> length rd \<le> 16
             \<and> (\<forall>x\<in>set fr. fst x = key_frame s) \<and> (0x30, Inr 0xC1FE) \<in> set rd))
       \<and> (r \<noteq> Inr () \<longrightarrow> \<not> u_keyed s' \<and> (u_frames s' = u_frames s \<or> last_sent (u_frames s') 0x30 = Some (u_reg30 s)))
       \<and> (\<not> uc_tx_allowed c \<or> u_frequency s = None \<or> a \<noteq> None \<longrightarrow> r \<noteq> Inr () \<and> u_frames s' = u_frames s)"
proof (cases "uc_tx_allowed c \<and> u_frequency s \<noteq> None \<and> a = None")
  case False
  then have "\<not> uc_tx_allowed c \<or> u_frequency s = None \<or> a \<noteq> None" by argo
  from key_on_refused [OF assms(2) this]
  obtain e where "(r, s') = (Inl e, s) \<or> (r, s') = (Inl e, s\<lparr>u_pa := None\<rparr>)" unfolding assms(1) ..
  then have "r = Inl e \<and> u_frames s' = u_frames s \<and> u_keyed s' = u_keyed s" by (elim disjE Pair_inject) simp_all
  then show ?thesis using assms(2) by simp
next
  case True
  then have *: "uc_tx_allowed c" "u_frequency s \<noteq> None" "a = None" by simp_all
  from assms * show ?thesis
  proof (cases rule: key_on_runs)
    case (up s1)
    define s0 where "s0 = s\<lparr>u_pa := None, u_playback := True\<rparr>"
    obtain fr bfr rd where io: "io (fr @ bfr) rd (s0\<lparr>u_pa := u_pa s1\<rparr>) s1" "fr \<noteq> []" "length fr \<le> KEY_ATTEMPTS"
      "\<forall>x\<in>set fr. fst x = key_frame s0" "length bfr \<le> 1" "\<forall>x\<in>set bfr. fst ` set (fst x) \<subseteq> {0x33, 0x36}"
      "length rd \<le> KEY_CONFIRM_ATTEMPTS * KEY_ATTEMPTS + 1" "(0x30, Inr REG30_TX_ENABLED) \<in> set rd"
      using key_up_io [OF up(1), folded s0_def] by auto
    have s0: "key_frame s0 = key_frame s" "u_frames s0 = u_frames s" "u_reads s0 = u_reads s"
      by (simp_all add: s0_def key_frame_def tx_tune_pairs_def tone_pairs_def)
    have "u_frames s' = u_frames s @ fr @ bfr" "u_reads s' = u_reads s @ rd"
      using io_fields(1,2) [OF io(1)] up(3) s0 by simp_all
    moreover have "1 \<le> length fr" using io(2) by (cases fr) auto
    ultimately have "\<exists>fr bfr rd. u_frames s' = u_frames s @ fr @ bfr \<and> u_reads s' = u_reads s @ rd
             \<and> 1 \<le> length fr \<and> length fr \<le> 3 \<and> length bfr \<le> 1 \<and> (\<forall>x\<in>set bfr. fst ` set (fst x) \<subseteq> {0x33, 0x36}) \<and> length rd \<le> 16
             \<and> (\<forall>x\<in>set fr. fst x = key_frame s) \<and> (0x30, Inr 0xC1FE) \<in> set rd"
      using io(2-) s0(1) by (intro exI [of _ fr] exI [of _ bfr] exI [of _ rd])
        (simp add: KEY_ATTEMPTS_def KEY_CONFIRM_ATTEMPTS_def REG30_TX_ENABLED_def)
    moreover obtain f where "u_frequency s = Some f" using *(2) by blast
    ultimately show ?thesis using up(2,3) *(1,3) by simp
  next
    case (undone e s1 q)
    have "\<not> u_keyed s'" using key_on_fields(7) [OF assms(1)] undone(2) assms(2) by simp
    moreover have "last_sent (u_frames s') 0x30 = Some (u_reg30 s)"
      using key_off_last [OF undone(3)] key_up_fields(1) [OF undone(1)] by simp
    moreover obtain f where "u_frequency s = Some f" using *(2) by blast
    ultimately show ?thesis using undone(2) *(1,3) by simp
  qed
qed


subsection \<open>Every sequence of operations\<close>

datatype u_op =
    SetFrequency int
  | SetSplit "int option"
  | SetChannel int
  | SetTone "real option"
  | SetMode string
  | Scan bool
  | Ptt "exn option" bool
  | Transmit bool "exn option" "exn option"
  | PacerFails
  | Status
  | CloseRadio

fun u_exec :: "'w uvk5_config \<Rightarrow> u_op \<Rightarrow> 'w uvk5 \<Rightarrow> 'w uvk5" where
  "u_exec c (SetFrequency hz) s = snd (set_frequency c hz s)"
| "u_exec c (SetSplit tx) s = snd (set_split c tx s)"
| "u_exec c (SetChannel n) s = snd (set_channel n s)"
| "u_exec c (SetTone t) s = snd (set_tone c t s)"
| "u_exec c (SetMode m) s = snd (set_mode c m s)"
| "u_exec c (Scan on) s = snd (scan on s)"
| "u_exec c (Ptt a on) s = snd (ptt c a on s)"
| "u_exec c (Transmit canonical a play) s = snd (transmit c canonical a play s)"
| "u_exec c PacerFails s = pacer_failed c s"
| "u_exec c Status s = snd (status c s)"
| "u_exec c CloseRadio s = radio_close c s"

definition u_run :: "'w uvk5_config \<Rightarrow> u_op list \<Rightarrow> 'w uvk5 \<Rightarrow> 'w uvk5" where
  "u_run c ops s = fold (u_exec c) ops s"

definition split_ok :: "'w uvk5_config \<Rightarrow> 'w uvk5 \<Rightarrow> bool" where
  "split_ok c s \<longleftrightarrow>
     (case u_tx_frequency s of None \<Rightarrow> True
      | Some t \<Rightarrow> (case u_frequency s of None \<Rightarrow> False
          | Some f \<Rightarrow> frequency_ok c t \<and> \<bar>t - f\<bar> \<le> MAX_SPLIT_OFFSET_HZ \<and> vhf t = vhf f))
     \<and> (case u_frequency s of None \<Rightarrow> True | Some f \<Rightarrow> frequency_ok c f)"

definition line_ok :: "'w uvk5_config \<Rightarrow> 'w uvk5 \<Rightarrow> bool" where
  "line_ok c s \<longleftrightarrow> u_reg30 s AND REG30_TX_BIT = 0
     \<and> (u_keyed s \<longrightarrow> u_frequency s \<noteq> None \<and> uc_tx_allowed c \<and> u_playback s)
     \<and> (\<not> u_keyed s \<longrightarrow> tx_off (u_frames s))"

text \<open>Operations that neither key nor tune send words that leave register 0x30 alone.\<close>

definition quiet :: "'w uvk5 \<Rightarrow> 'w uvk5 \<Rightarrow> bool" where
  "quiet s s' \<longleftrightarrow> u_reg30 s' = u_reg30 s \<and> u_frequency s' = u_frequency s \<and> u_tx_frequency s' = u_tx_frequency s
     \<and> u_keyed s' = u_keyed s \<and> u_playback s' = u_playback s \<and> last_sent (u_frames s') 0x30 = last_sent (u_frames s) 0x30"

lemma quiet_ok: "quiet s s' \<Longrightarrow> line_ok c s \<Longrightarrow> split_ok c s \<Longrightarrow> line_ok c s' \<and> split_ok c s'"
  by (simp add: quiet_def line_ok_def split_ok_def tx_off_def cong: option.case_cong)

lemma io_quiet:
  assumes "io fr rd s s'" and "\<forall>x\<in>set fr. 0x30 \<notin> fst ` set (fst x)"
  shows "quiet s s'"
  using io_fields [OF assms(1)] last_sent_none [OF assms(2)] by (simp add: quiet_def)

lemma untouched_refl [simp]: "quiet s s"
  by (simp add: quiet_def)

lemma untouched_trans: "quiet s s1 \<Longrightarrow> quiet s1 s2 \<Longrightarrow> quiet s s2"
  by (simp add: quiet_def)

lemma set_tone_quiet: "quiet s (snd (set_tone c t s))"
proof (cases "\<exists>x. t = Some x \<and> \<not> (CTCSS_MIN_HZ \<le> x \<and> x \<le> CTCSS_MAX_HZ)")
  case True
  then show ?thesis by (auto simp: set_tone_def)
next
  case False
  define s1 where "s1 = s\<lparr>u_tone := t\<rparr>"
  have "set_tone c t s = write_registers c (tone_pairs s1) s1"
    using False by (auto simp: set_tone_def tone_pairs_def s1_def split: option.splits)
  moreover obtain r s2 where 2: "write_registers c (tone_pairs s1) s1 = (r, s2)" by fastforce
  moreover have "quiet s1 s2"
    by (rule io_quiet [OF write_registers_io [OF 2]]) (simp add: tone_pairs_def split: option.splits)
  moreover have "quiet s s1" by (simp add: quiet_def s1_def)
  ultimately show ?thesis by (simp add: untouched_trans)
qed

lemma set_mode_quiet: "quiet s (snd (set_mode c m s))"
proof (cases "map_of MODE_ALIASES (upper_ascii m)")
  case (Some canon)
  let ?w = "[(0x43, the (map_of BANDWIDTH_REG43 canon))] :: regs"
  obtain r s1 where 1: "write_registers c ?w s = (r, s1)" by fastforce
  have "quiet s s1" by (rule io_quiet [OF write_registers_io [OF 1]]) simp
  then have "quiet s (s1\<lparr>u_mode := m'\<rparr>)" for m' by (simp add: quiet_def)
  then show ?thesis using Some 1 \<open>quiet s s1\<close> by (cases r) (simp_all add: set_mode_def)
qed (simp add: set_mode_def)

lemma busy_reading_quiet: "quiet s (snd (busy_reading c s))"
proof (cases "u_keyed s")
  case False
  obtain r s1 where 1: "read_register c 0x67 s = (r, s1)" by fastforce
  have "quiet s s1" by (rule io_quiet [OF read_register_io [OF 1]]) simp
  then show ?thesis using False 1 by (cases r) (auto simp: busy_reading_def quiet_def Let_def)
qed (simp add: busy_reading_def)

lemma status_quiet: "quiet s (snd (status c s))"
proof -
  obtain r s1 where 1: "busy_reading c s = (r, s1)" by fastforce
  then have "snd (status c s) = s1" by (cases r) (auto simp: status_def split: prod.splits)
  then show ?thesis using busy_reading_quiet [of s c] 1 by simp
qed

lemma line_okD:
  assumes "line_ok c s"
  shows "u_reg30 s AND REG30_TX_BIT = 0" "u_keyed s \<Longrightarrow> u_frequency s \<noteq> None" "u_keyed s \<Longrightarrow> uc_tx_allowed c"
    "u_keyed s \<Longrightarrow> u_playback s" "\<not> u_keyed s \<Longrightarrow> tx_off (u_frames s)"
  using assms unfolding line_ok_def by blast+

lemma split_ok_same: "u_frequency s' = u_frequency s \<Longrightarrow> u_tx_frequency s' = u_tx_frequency s \<Longrightarrow> split_ok c s' = split_ok c s"
  by (simp add: split_ok_def cong: option.case_cong)

lemma tx_offI: "last_sent frs 0x30 = Some v \<Longrightarrow> v AND REG30_TX_BIT = 0 \<Longrightarrow> tx_off frs"
  by (simp add: tx_off_def)

lemma key_off_ok:
  assumes "line_ok c s" and "split_ok c s"
  shows "line_ok c (snd (key_off c s)) \<and> split_ok c (snd (key_off c s))"
proof -
  obtain r s' where k: "key_off c s = (r, s')" by fastforce
  note [simp] = key_off_fields(1,3,4) [OF k]
  have off: "tx_off (u_frames s')" by (rule tx_offI [OF key_off_last [OF k] line_okD(1) [OF assms(1)]])
  have "u_keyed s' \<Longrightarrow> u_keyed s \<and> u_playback s' = u_playback s"
    using key_off_fields(8,9) [OF k] by (cases "r = Inr ()") auto
  then have "line_ok c s'" using line_okD [OF assms(1)] off unfolding line_ok_def by simp
  moreover have "split_ok c s'" using split_ok_same [of s' s] assms(2) by simp
  ultimately show ?thesis using k by simp
qed

lemma key_on_ok:
  assumes "line_ok c s" and "split_ok c s" and "key_on c a s = (r, s')"
  shows "line_ok c s' \<and> split_ok c s' \<and> (r = Inr () \<longrightarrow> u_keyed s')"
proof (cases "u_keyed s")
  case True
  then have "(r, s') = (Inr (), s)" using assms(3) by (simp add: key_on_def)
  then show ?thesis using assms(1,2) True by simp
next
  case False
  note [simp] = key_on_fields(1,3,4,7) [OF assms(3)]
  note eff = key_on_effect [OF assms(3) False]
  have up: "r = Inr () \<longrightarrow> u_keyed s' \<and> uc_tx_allowed c \<and> u_frequency s \<noteq> None"
    using eff [THEN conjunct1] by blast
  have down: "r \<noteq> Inr () \<longrightarrow> u_frames s' = u_frames s \<or> last_sent (u_frames s') 0x30 = Some (u_reg30 s)"
    using eff [THEN conjunct2, THEN conjunct1] by blast
  have play: "r = Inr () \<Longrightarrow> u_playback s'"
  proof -
    assume r: "r = Inr ()"
    with False assms(3) up have "uc_tx_allowed c" "u_frequency s \<noteq> None" by simp_all
    moreover from this False assms(3) r have "a = None" by (cases a) (auto simp: key_on_def)
    ultimately show "u_playback s'" using assms(3) False
    proof (cases rule: key_on_runs [OF assms(3) False, case_names _ _ _ up undone])
      case (up s1)
      then show ?thesis using key_up_fields(8) [OF up(1)] by simp
    qed (use r in simp_all)
  qed
  have "line_ok c s'"
    using line_okD(1,5) [OF assms(1)] up down play False tx_offI [of "u_frames s'" "u_reg30 s"]
    unfolding line_ok_def by (cases "r = Inr ()") auto
  moreover have "split_ok c s'" using split_ok_same [of s' s] assms(2) by simp
  ultimately show ?thesis using up by simp
qed

lemma set_frequency_ok:
  assumes "line_ok c s" and "split_ok c s"
  shows "line_ok c (snd (set_frequency c hz s)) \<and> split_ok c (snd (set_frequency c hz s))"
proof (cases "frequency_ok c hz \<and> \<not> u_keyed s")
  case True
  define s1 where "s1 = s\<lparr>u_reg33 := with_band (u_reg33 s) hz\<rparr>"
  let ?w = "freq_pairs hz @ [(0x33, rx_reg33 s1), (0x30, 0), (0x30, u_reg30 s1)]"
  obtain r s2 where 2: "write_registers c ?w s1 = (r, s2)" by fastforce
  note f = io_fields [OF write_registers_io [OF 2]]
  have s1: "u_reg30 s1 = u_reg30 s" "u_frequency s1 = u_frequency s" "u_tx_frequency s1 = u_tx_frequency s"
    "u_keyed s1 = u_keyed s" "u_frames s1 = u_frames s" by (simp_all add: s1_def)
  have "last_sent (u_frames s1 @ [(?w, r = Inr ())]) 0x30 = Some (u_reg30 s1)"
    by (rule last_sent_all) simp_all
  then have "tx_off (u_frames s2)" using tx_offI line_okD(1) [OF assms(1)] f(1) s1(1) by metis
  then have "line_ok c s2" "\<And>s3. s3 = s2\<lparr>u_frequency := Some hz, u_tx_frequency := None\<rparr> \<Longrightarrow> line_ok c s3"
    using line_okD(1) [OF assms(1)] True s1 f unfolding line_ok_def by simp_all
  moreover have "split_ok c s2" using split_ok_same [of s2 s] f s1 assms(2) by simp
  moreover have "split_ok c (s2\<lparr>u_frequency := Some hz, u_tx_frequency := None\<rparr>)" using True by (simp add: split_ok_def)
  moreover have "snd (set_frequency c hz s) = (if r = Inr () then s2\<lparr>u_frequency := Some hz, u_tx_frequency := None\<rparr> else s2)"
    using True 2 by (cases r) (simp_all add: set_frequency_def validate_frequency_def Let_def s1_def [symmetric])
  ultimately show ?thesis by (cases "r = Inr ()") simp_all
next
  case False
  then have "snd (set_frequency c hz s) = s" by (auto simp: set_frequency_def validate_frequency_def)
  then show ?thesis using assms by simp
qed

lemma set_split_ok:
  assumes "line_ok c s" and "split_ok c s"
  shows "line_ok c (snd (set_split c tx s)) \<and> split_ok c (snd (set_split c tx s))"
proof -
  have same: "line_ok c (s\<lparr>u_tx_frequency := x\<rparr>)" for x using assms(1) by (simp add: line_ok_def)
  have "split_ok c (s\<lparr>u_tx_frequency := None\<rparr>)" using assms(2) by (simp add: split_ok_def)
  moreover have "split_ok c (s\<lparr>u_tx_frequency := Some t\<rparr>)"
    if "u_frequency s = Some f" "frequency_ok c t" "\<not> MAX_SPLIT_OFFSET_HZ < \<bar>t - f\<bar>" "vhf f = vhf t" for f t
    using that assms(2) by (simp add: split_ok_def)
  ultimately show ?thesis using assms same by (auto simp: set_split_def split: option.splits)
qed

lemma transmit_ok:
  assumes "line_ok c s" and "split_ok c s"
  shows "line_ok c (snd (transmit c canonical a play s)) \<and> split_ok c (snd (transmit c canonical a play s))"
proof (cases "canonical \<and> \<not> u_keyed s")
  case True
  obtain r s1 where 1: "key_on c a s = (r, s1)" by fastforce
  note ok1 = key_on_ok [OF assms 1]
  note ok2 = key_off_ok [OF ok1 [THEN conjunct1] ok1 [THEN conjunct2, THEN conjunct1]]
  note ok3 = key_off_ok [OF ok2 [THEN conjunct1] ok2 [THEN conjunct2]]
  show ?thesis
  proof (cases r)
    case (Inl e)
    then show ?thesis using True 1 ok1 by (simp add: transmit_def)
  next
    case (Inr u)
    obtain r2 s2 where 2: "key_off c s1 = (r2, s2)" by fastforce
    obtain r3 s3 where 3: "key_off c s2 = (r3, s3)" by fastforce
    have "snd (transmit c canonical a play s) = (if play = None then s2 else s3)"
      using True 1 2 3 Inr by (cases play; cases r3) (simp_all add: transmit_def)
    then show ?thesis using ok2 ok3 2 3 by simp
  qed
next
  case False
  then have "snd (transmit c canonical a play s) = s" by (auto simp: transmit_def)
  then show ?thesis using assms by simp
qed

lemma radio_close_ok:
  assumes "line_ok c s" and "split_ok c s"
  shows "line_ok c (radio_close c s) \<and> split_ok c (radio_close c s)"
proof (cases "u_closed s")
  case False
  define s1 where "s1 = s\<lparr>u_closed := True\<rparr>"
  have "quiet s s1" by (simp add: s1_def quiet_def)
  note ok1 = quiet_ok [OF this assms]
  define s2 where "s2 = (if u_keyed s1 then snd (key_off c s1) else s1)"
  have ok2: "line_ok c s2 \<and> split_ok c s2" using ok1 key_off_ok [of c s1] by (simp add: s2_def)
  obtain r s3 where 3: "on_dock (dk_exit (uc_dock c)) s2 = (r, s3)" by fastforce
  have "quiet s2 s3" by (rule io_quiet [OF on_dock_io [OF 3]]) simp
  moreover have "radio_close c s = s3"
    using False 3 by (simp add: radio_close_def s1_def [symmetric] s2_def [symmetric])
  ultimately show ?thesis using quiet_ok ok2 by metis
qed (use assms in \<open>simp add: radio_close_def\<close>)

lemma u_exec_ok:
  assumes "line_ok c s" and "split_ok c s"
  shows "line_ok c (u_exec c op s) \<and> split_ok c (u_exec c op s)"
proof (cases op)
  case (Ptt a on)
  obtain r s' where "key_on c a s = (r, s')" by fastforce
  then show ?thesis using Ptt key_on_ok [OF assms] key_off_ok [OF assms] by (simp add: ptt_def)
next
  case PacerFails
  then show ?thesis using assms key_off_ok [OF assms] by (simp add: pacer_failed_def)
qed (use assms set_frequency_ok [OF assms] set_split_ok [OF assms] transmit_ok [OF assms] radio_close_ok [OF assms]
      quiet_ok [OF set_tone_quiet assms] quiet_ok [OF set_mode_quiet assms] quiet_ok [OF status_quiet assms]
    in \<open>simp_all add: set_channel_def scan_def\<close>)

lemma u_run_ok: "line_ok c s \<Longrightarrow> split_ok c s \<Longrightarrow> line_ok c (u_run c ops s) \<and> split_ok c (u_run c ops s)"
  unfolding u_run_def by (induction ops arbitrary: s) (simp_all add: u_exec_ok)

subsection \<open>Connecting establishes the invariant\<close>

definition radio_ok :: "'w uvk5_config \<Rightarrow> 'w uvk5 \<Rightarrow> bool" where
  "radio_ok c s \<longleftrightarrow> line_ok c s \<and> split_ok c s"

lemma quiet_radio_ok: "quiet s s' \<Longrightarrow> radio_ok c s \<Longrightarrow> radio_ok c s'"
  unfolding radio_ok_def using quiet_ok by blast

lemma rx_default_off [simp]: "REG30_RX_DEFAULT AND REG30_TX_BIT = 0"
  by (simp add: REG30_RX_DEFAULT_def REG30_TX_BIT_def)

definition fresh :: "'w uvk5_config \<Rightarrow> 'w uvk5 \<Rightarrow> bool" where
  "fresh c s \<longleftrightarrow> radio_ok c s \<and> \<not> u_keyed s \<and> u_tx_frequency s = None"

lemma quiet_fresh: "quiet s s' \<Longrightarrow> fresh c s \<Longrightarrow> fresh c s'"
  using quiet_radio_ok unfolding fresh_def quiet_def by metis

lemma seed_reg30_fresh:
  "ensures (fresh c) (seed_reg30 c) (\<lambda>v s. fresh c s \<and> v AND REG30_TX_BIT = 0) (fresh c)"
  unfolding seed_reg30_def
proof (rule ensures_andthen [where Q = "\<lambda>_. fresh c"])
  have "fresh c (snd (seed_read c X reg n s))" if "fresh c s" for X reg n s
  proof -
    obtain r s' where s': "seed_read c X reg n s = (r, s')" by fastforce
    obtain rd where "io [] rd s s'" using seed_read_io [OF s'] by blast
    then show ?thesis using quiet_fresh [OF io_quiet that] s' by simp
  qed
  then show "ensures (fresh c) (seed_read c {Uvk5Timeout} 48 SEED_READ_ATTEMPTS) (\<lambda>_. fresh c) (fresh c)"
    by (rule ensures_snd)
next
  fix v :: "int option"
  have w: "fresh c (snd (write_registers c [(0x30, 0), (0x30, REG30_RX_DEFAULT)] s))" if "fresh c s" for s
  proof -
    let ?w = "[(0x30, 0), (0x30, REG30_RX_DEFAULT)] :: regs"
    obtain r s' where s': "write_registers c ?w s = (r, s')" by fastforce
    note f = io_fields [OF write_registers_io [OF s']]
    have "last_sent (u_frames s @ [(?w, r = Inr ())]) 0x30 = Some REG30_RX_DEFAULT"
      by (rule last_sent_all) simp_all
    then have "tx_off (u_frames s')" using tx_offI f(1) rx_default_off by metis
    then have "line_ok c s'" using that f line_okD(1) [of c s] unfolding fresh_def radio_ok_def by (simp add: line_ok_def)
    moreover have "split_ok c s'" using split_ok_same [of s' s] f that by (simp add: fresh_def radio_ok_def)
    ultimately show ?thesis using that f s' by (simp add: fresh_def radio_ok_def)
  qed
  show "ensures (fresh c) (if v \<noteq> None \<and> receiving_word (the v) then returning (the v)
      else andthen (write_registers c [(48, 0), (48, REG30_RX_DEFAULT)]) (\<lambda>_. returning REG30_RX_DEFAULT))
      (\<lambda>v s. fresh c s \<and> v AND REG30_TX_BIT = 0) (fresh c)"
  proof (cases "v \<noteq> None \<and> receiving_word (the v)")
    case True
    then show ?thesis by (auto simp: receiving_word_def intro: ensures_returning)
  next
    case False
    have "ensures (fresh c) (andthen (write_registers c [(48, 0), (48, REG30_RX_DEFAULT)]) (\<lambda>_. returning REG30_RX_DEFAULT))
      (\<lambda>v s. fresh c s \<and> v AND REG30_TX_BIT = 0) (fresh c)"
      by (rule ensures_andthen [OF ensures_snd [of "fresh c" "fresh c"]]) (simp_all add: w ensures_returning)
    then show ?thesis using False by (simp only: if_False)
  qed
qed

lemma seed_reg33_quiet: "quiet s (snd (seed_reg33 c s))"
proof -
  obtain r s' where s': "seed_read c {Uvk5Timeout} 0x33 SEED_READ_ATTEMPTS s = (r, s')" by fastforce
  obtain rd where "io [] rd s s'" using seed_read_io [OF s'] by blast
  then have "quiet s s'" by (rule io_quiet) simp
  then show ?thesis using s' by (cases r) (simp_all add: seed_reg33_def Let_def)
qed

lemma seed_frequency_fresh:
  "ensures (fresh c) (seed_frequency c) (\<lambda>f s. fresh c s \<and> (case f of None \<Rightarrow> True | Some hz \<Rightarrow> frequency_ok c hz)) (fresh c)"
proof -
  have "fresh c (snd (read_register c reg s))" if "fresh c s" for reg s
  proof -
    obtain r s' where s': "read_register c reg s = (r, s')" by fastforce
    show ?thesis using quiet_fresh [OF io_quiet [OF read_register_io [OF s']] that] s' by simp
  qed
  from ensures_snd [of "fresh c" "fresh c", OF this]
  have rd: "ensures (fresh c) (read_register c reg) (\<lambda>_. fresh c) (fresh c)" for reg .
  show ?thesis
    unfolding seed_frequency_def Let_def
    by (rule ensures_andthen [OF rd], rule ensures_andthen [OF rd], rule ensures_returning) simp
qed

lemma quiet_ensures:
  assumes "\<And>s. quiet s (snd (m s))"
  shows "ensures (fresh c) m (\<lambda>_. fresh c) (radio_ok c)" and "ensures (radio_ok c) m (\<lambda>_. radio_ok c) (radio_ok c)"
proof -
  have "ensures (fresh c) m (\<lambda>_. fresh c) (fresh c)" by (rule ensures_snd) (use assms quiet_fresh in blast)
  then show "ensures (fresh c) m (\<lambda>_. fresh c) (radio_ok c)" by (rule ensures_conseq) (simp_all add: fresh_def)
  show "ensures (radio_ok c) m (\<lambda>_. radio_ok c) (radio_ok c)" by (rule ensures_snd) (use assms quiet_radio_ok in blast)
qed

lemma on_dock_quiet: "quiet s (snd (on_dock m s))"
proof -
  obtain r s' where s': "on_dock m s = (r, s')" by fastforce
  show ?thesis using io_quiet [OF on_dock_io [OF s']] s' by simp
qed

lemma enter_hw_mode_quiet: "quiet s (snd (enter_hw_mode c n s))"
proof -
  obtain r s' where s': "enter_hw_mode c n s = (r, s')" by fastforce
  obtain rd where "io [] rd s s'" using enter_hw_mode_io [OF s'] by blast
  then have "quiet s s'" by (rule io_quiet) simp
  then show ?thesis using s' by simp
qed

lemma maybe_ensures:
  "(\<And>a. ensures (radio_ok c) (f a) (\<lambda>_. radio_ok c) (radio_ok c)) \<Longrightarrow> ensures (radio_ok c) (maybe f x) (\<lambda>_. radio_ok c) (radio_ok c)"
  by (cases x) (simp_all add: maybe_def ensures_returning)

lemma connect_ensures: "ensures (fresh c) (connect c f m t) (\<lambda>_. radio_ok c) (radio_ok c)"
proof -
  let ?k5 = "andthen (maybe (set_frequency c) f) (\<lambda>_. andthen (maybe (set_mode c) m) (\<lambda>_. maybe (\<lambda>t. set_tone c (Some t)) t))"
  let ?k4 = "\<lambda>fq. andthen (modifying (\<lambda>s. s\<lparr>u_frequency := fq\<rparr>)) (\<lambda>_. ?k5)"
  let ?k3 = "\<lambda>r33. andthen (modifying (\<lambda>s. s\<lparr>u_reg33 := r33\<rparr>)) (\<lambda>_. andthen (seed_frequency c) ?k4)"
  let ?k2 = "\<lambda>r30. andthen (modifying (\<lambda>s. s\<lparr>u_reg30 := r30\<rparr>)) (\<lambda>_. andthen (seed_reg33 c) ?k3)"
  have set: "ensures (radio_ok c) (set_frequency c hz) (\<lambda>_. radio_ok c) (radio_ok c)" for hz
    by (rule ensures_snd) (simp add: radio_ok_def set_frequency_ok)
  have k5: "ensures (radio_ok c) ?k5 (\<lambda>_. radio_ok c) (radio_ok c)"
    by (intro ensures_andthen [where Q = "\<lambda>_. radio_ok c"] maybe_ensures set quiet_ensures(2) set_mode_quiet set_tone_quiet)
  have k4: "ensures (\<lambda>s. fresh c s \<and> (case fq of None \<Rightarrow> True | Some hz \<Rightarrow> frequency_ok c hz)) (?k4 fq) (\<lambda>_. radio_ok c) (radio_ok c)" for fq
    by (rule ensures_andthen [OF ensures_modifying k5]) (simp add: fresh_def radio_ok_def line_ok_def split_ok_def)
  have f: "ensures (fresh c) (seed_frequency c) (\<lambda>f s. fresh c s \<and> (case f of None \<Rightarrow> True | Some hz \<Rightarrow> frequency_ok c hz)) (radio_ok c)"
    by (rule ensures_conseq [OF seed_frequency_fresh]) (simp_all add: fresh_def)
  have k3: "ensures (fresh c) (?k3 r33) (\<lambda>_. radio_ok c) (radio_ok c)" for r33
    by (rule ensures_andthen [OF ensures_modifying ensures_andthen [OF f k4]])
      (simp add: fresh_def radio_ok_def line_ok_def split_ok_def)
  have k2: "ensures (\<lambda>s. fresh c s \<and> r30 AND REG30_TX_BIT = 0) (?k2 r30) (\<lambda>_. radio_ok c) (radio_ok c)" for r30
    by (rule ensures_andthen [OF ensures_modifying ensures_andthen [OF quiet_ensures(1) [OF seed_reg33_quiet] k3]])
      (simp add: fresh_def radio_ok_def line_ok_def split_ok_def)
  have r30: "ensures (fresh c) (seed_reg30 c) (\<lambda>v s. fresh c s \<and> v AND REG30_TX_BIT = 0) (radio_ok c)"
    by (rule ensures_conseq [OF seed_reg30_fresh]) (simp_all add: fresh_def)
  show ?thesis
    unfolding connect_def
    by (rule ensures_andthen [OF quiet_ensures(1) [OF on_dock_quiet]
          ensures_andthen [OF quiet_ensures(1) [OF enter_hw_mode_quiet] ensures_andthen [OF r30 k2]]])
qed

lemma connect_radio_ok: "radio_ok c (snd (connect c f m t (blank w)))"
proof -
  have f: "fresh c (blank w)"
    by (simp add: fresh_def radio_ok_def line_ok_def split_ok_def blank_def tx_off_def last_sent_def)
  obtain r s' where k: "connect c f m t (blank w) = (r, s')" by fastforce
  show ?thesis using connect_ensures [of c f m t] f k unfolding ensures_def by (cases r) fastforce+
qed

lemma u_run_radio_ok: "radio_ok c s \<Longrightarrow> radio_ok c (u_run c ops s)"
  using u_run_ok unfolding radio_ok_def by blast

text \<open>A dock that is a register file: a write stores, a read answers, the mode commands are acknowledged.\<close>

definition register_file :: "(int \<times> int) list dock" where
  "register_file = \<lparr>dk_write = (\<lambda>ws w. (Inr (), rev ws @ w)),
     dk_read = (\<lambda>r w. (Inr (case map_of w r of None \<Rightarrow> 0x100 | Some v \<Rightarrow> v), w)),
     dk_enter = (\<lambda>w. (Inr (), w)), dk_exit = (\<lambda>w. (Inr (), w)), dk_connect = (\<lambda>w. (Inr (), w))\<rparr>"

definition station :: "'w dock \<Rightarrow> 'w uvk5_config" where
  "station d = \<lparr>uc_dock = d, uc_freq_min = 18000000, uc_freq_max = 1300000000, uc_squelch_threshold = 80, uc_tx_allowed = True\<rparr>"

definition tuned_state :: "(int \<times> int) list uvk5" where
  "tuned_state = (blank [])\<lparr>u_reg30 := REG30_RX_DEFAULT, u_frequency := Some 147555000\<rparr>"

lemma station_simps [simp]:
  "uc_dock (station d) = d" "uc_freq_min (station d) = 18000000" "uc_freq_max (station d) = 1300000000"
  "uc_squelch_threshold (station d) = 80" "uc_tx_allowed (station d)"
  by (simp_all add: station_def)

lemma tuned_state_keys: "fst (key_on (station register_file) None tuned_state) = Inr ()"
  by code_simp



text \<open>A split is never left armed out of bounds: after connecting and any sequence of operations the tuned
  frequency is inside the configured range and on the tuning step, and an armed transmit frequency is too,
  lies within ten megahertz of it and in the same band.
\<close>

theorem split_stays_in_bounds:
  assumes "s = u_run c ops (snd (connect c f m t (blank w)))" and "u_tx_frequency s = Some tx"
  shows "\<exists>rx. u_frequency s = Some rx \<and> frequency_ok c rx \<and> frequency_ok c tx \<and> \<bar>tx - rx\<bar> \<le> 10000000 \<and> vhf tx = vhf rx"
proof -
  have "radio_ok c s" unfolding assms(1) by (intro u_run_radio_ok connect_radio_ok)
  then have "split_ok c s" by (simp add: radio_ok_def)
  then show ?thesis using assms(2) by (auto simp: split_ok_def MAX_SPLIT_OFFSET_HZ_def split: option.splits)
qed

theorem split_stays_in_bounds_witness:
  "\<exists>rx. u_frequency (u_run (station register_file) [SetSplit (Some 147000000)]
     (snd (connect (station register_file) (Some 147555000) None None (blank [])))) = Some rx \<and> \<bar>147000000 - rx\<bar> \<le> 10000000"
proof -
  have "u_tx_frequency (u_run (station register_file) [SetSplit (Some 147000000)]
     (snd (connect (station register_file) (Some 147555000) None None (blank [])))) = Some 147000000"
    by code_simp
  from split_stays_in_bounds [OF refl this] show ?thesis by blast
qed


subsection \<open>The synthesiser during an over\<close>

text \<open>The frequency the last words for registers 0x38 and 0x39 stand for.\<close>

definition tuned :: "(regs \<times> bool) list \<Rightarrow> int option" where
  "tuned frs = (case (last_sent frs 0x38, last_sent frs 0x39) of
     (Some lo, Some hi) \<Rightarrow> Some ((push_bit 16 hi OR lo) * FREQ_STEP_HZ) | _ \<Rightarrow> None)"

lemma split_word:
  fixes n :: int
  assumes "0 \<le> n" and "n < 2 ^ 32"
  shows "push_bit 16 (drop_bit 16 n AND 0xFFFF) OR (n AND 0xFFFF) = n"
proof -
  have m: "k AND 0xFFFF = take_bit 16 k" for k :: int by (simp add: take_bit_eq_mask mask_eq_exp_minus_1)
  have "push_bit 16 (take_bit 16 (drop_bit 16 n)) OR take_bit 16 n = take_bit 32 n"
    by (rule bit_eqI) (auto simp: bit_simps)
  also have "\<dots> = n" using assms by (simp add: take_bit_int_eq_self)
  finally show ?thesis by (simp add: m)
qed

lemma freq_pairs_read_back:
  assumes "0 \<le> hz" and "hz < 42949672960" and "hz mod FREQ_STEP_HZ = 0"
  shows "map_of (rev (freq_pairs hz)) 0x38 = Some lo \<Longrightarrow> map_of (rev (freq_pairs hz)) 0x39 = Some hi \<Longrightarrow>
    (push_bit 16 hi OR lo) * FREQ_STEP_HZ = hz"
proof -
  assume "map_of (rev (freq_pairs hz)) 0x38 = Some lo" "map_of (rev (freq_pairs hz)) 0x39 = Some hi"
  then have "(push_bit 16 hi OR lo) = hz div 10"
    using split_word [of "hz div 10"] assms by (auto simp: freq_pairs_def Let_def FREQ_STEP_HZ_def)
  then show ?thesis using assms(3) by (simp add: FREQ_STEP_HZ_def mod_0_imp_dvd)
qed

lemma tuned_all:
  assumes "fr \<noteq> []" and "\<forall>x\<in>set fr. \<exists>ws ws'. fst x = ws @ freq_pairs hz @ ws' \<and> {0x38, 0x39} \<inter> fst ` set ws' = {}"
    and "0 \<le> hz" and "hz < 42949672960" and "hz mod FREQ_STEP_HZ = 0"
  shows "tuned (frs @ fr) = Some hz"
proof -
  define lo where "lo = (hz div FREQ_STEP_HZ) AND 0xFFFF"
  define hi where "hi = drop_bit 16 (hz div FREQ_STEP_HZ) AND 0xFFFF"
  have w: "map_of (rev (ws @ freq_pairs hz @ ws')) r = map_of (rev (freq_pairs hz)) r"
    if "r \<in> {0x38, 0x39}" "{0x38, 0x39} \<inter> fst ` set ws' = {}" for ws ws' r
  proof -
    have "map_of (rev ws') r = None" using that by (auto simp: map_of_eq_None_iff)
    then show ?thesis using that by (auto simp: map_add_def freq_pairs_def Let_def)
  qed
  have fp: "map_of (rev (freq_pairs hz)) 0x38 = Some lo" "map_of (rev (freq_pairs hz)) 0x39 = Some hi"
    by (simp_all add: freq_pairs_def Let_def lo_def hi_def)
  have "last_sent (frs @ fr) 0x38 = Some lo" "last_sent (frs @ fr) 0x39 = Some hi"
    by (rule last_sent_all [OF assms(1)], use assms(2) w fp in force)+
  then show ?thesis using freq_pairs_read_back [OF assms(3-5) fp] by (simp add: tuned_def)
qed

lemma tuned_none: "(\<forall>x\<in>set b. {0x38, 0x39} \<inter> fst ` set (fst x) = {}) \<Longrightarrow> tuned (a @ b) = tuned a"
  using last_sent_none [of b "0x38" a] last_sent_none [of b "0x39" a] by (simp add: tuned_def)

text \<open>The synthesiser is on the transmit leg for exactly the over: after a key-up that succeeds with a split
  armed the frequency last sent is the transmit frequency, in the frame that raises the transmitter and
  before the word that does; after the un-key that follows, even one that raises, it is the receive
  frequency again. On simplex neither sends a frequency.
\<close>

theorem over_tunes_and_restores:
  assumes "split_ok c s" and "0 \<le> uc_freq_min c" and "uc_freq_max c < 42949672960" and "\<not> u_keyed s"
    and "key_on c a s = (Inr (), s1)" and "key_off c s1 = (r, s2)"
  shows "case u_tx_frequency s of
      None \<Rightarrow> tuned (u_frames s1) = tuned (u_frames s) \<and> tuned (u_frames s2) = tuned (u_frames s)
    | Some tx \<Rightarrow> tuned (u_frames s1) = Some tx \<and> tuned (u_frames s2) = u_frequency s
        \<and> (\<exists>rest. key_frame s = freq_pairs tx @ rest \<and> (0x30, REG30_TX_ENABLED) \<in> set rest)"
proof -
  let ?s0 = "s\<lparr>u_pa := None, u_playback := True\<rparr>"
  obtain fr bfr where sent: "u_frames s1 = u_frames s @ fr @ bfr" and kf: "fr \<noteq> []" "\<forall>x\<in>set fr. fst x = key_frame s"
    and bfr: "\<forall>x\<in>set bfr. fst ` set (fst x) \<subseteq> {0x33, 0x36}"
  proof -
    from key_on_effect [OF assms(5,4)] obtain fr bfr where "u_frames s1 = u_frames s @ fr @ bfr" "1 \<le> length fr"
      "\<forall>x\<in>set fr. fst x = key_frame s" "\<forall>x\<in>set bfr. fst ` set (fst x) \<subseteq> {0x33, 0x36}" by blast
    then show ?thesis using that [of fr bfr] by force
  qed
  note same = key_on_fields(3,4) [OF assms(5)]
  obtain b fr2 rd2 where io2: "io ((unkey_frame s1, b) # fr2) rd2 (s1\<lparr>u_keyed := u_keyed s2, u_playback := u_playback s2\<rparr>) s2"
    "\<forall>x\<in>set fr2. restore_frame s1 (fst x)" "u_tx_frequency s1 \<noteq> None \<and> u_frequency s1 \<noteq> None \<longrightarrow> fr2 \<noteq> []"
    using key_off_io [OF assms(6)] by blast
  have sent2: "u_frames s2 = u_frames s1 @ [(unkey_frame s1, b)] @ fr2" using io_fields(1) [OF io2(1)] by simp
  have quiet_b: "\<forall>x\<in>set bfr. {0x38, 0x39} \<inter> fst ` set (fst x) = {}" using bfr by fastforce
  show ?thesis
  proof (cases "u_tx_frequency s")
    case None
    have "{0x38, 0x39} \<inter> fst ` set (key_frame s) = {}"
      using None by (simp add: key_frame_def tx_tune_pairs_def tone_pairs_def split: option.splits)
    with kf(2) have "\<forall>x\<in>set fr. {0x38, 0x39} \<inter> fst ` set (fst x) = {}" by (metis (no_types, lifting))
    with quiet_b have "\<forall>x\<in>set (fr @ bfr). {0x38, 0x39} \<inter> fst ` set (fst x) = {}" by (simp only: set_append ball_Un)
    from tuned_none [OF this] have t1: "tuned (u_frames s1) = tuned (u_frames s)" by (simp add: sent)
    have "fr2 = []" using io2(2) None same by (cases fr2) (auto simp: restore_frame_def)
    then have "tuned (u_frames s2) = tuned (u_frames s1)"
      unfolding sent2 by (intro tuned_none) (simp add: unkey_frame_def)
    then show ?thesis using None t1 by simp
  next
    case (Some tx)
    then obtain rx where rx: "u_frequency s = Some rx" and ok: "frequency_ok c tx" "frequency_ok c rx"
      using assms(1) by (auto simp: split_ok_def split: option.splits)
    have bounds: "0 \<le> hz" "hz < 42949672960" "hz mod FREQ_STEP_HZ = 0" if "frequency_ok c hz" for hz
      using that assms(2,3) by (auto simp: frequency_ok_def)
    have kfs: "key_frame s = [] @ freq_pairs tx @ ([(0x50, 0x3B20)] @ tone_pairs s @ [(0x30, 0), (0x30, REG30_TX_ENABLED)])"
      using Some by (simp add: key_frame_def tx_tune_pairs_def)
    have t1: "tuned ((u_frames s @ fr) @ bfr) = Some tx"
      unfolding tuned_none [OF quiet_b]
    proof (rule tuned_all [OF kf(1) _ bounds [OF ok(1)]], intro ballI)
      fix x assume "x \<in> set fr"
      then have "fst x = [] @ freq_pairs tx @ ([(0x50, 0x3B20)] @ tone_pairs s @ [(0x30, 0), (0x30, REG30_TX_ENABLED)])"
        using kf(2) kfs by simp
      then show "\<exists>ws ws'. fst x = ws @ freq_pairs tx @ ws' \<and> {0x38, 0x39} \<inter> fst ` set ws' = {}"
        by (intro exI conjI) (assumption, simp add: tone_pairs_def split: option.splits)
    qed
    have "tuned ((u_frames s1 @ [(unkey_frame s1, b)]) @ fr2) = Some rx"
    proof (rule tuned_all [OF _ _ bounds [OF ok(2)]], goal_cases)
      case 1
      then show ?case using io2(3) same Some rx by simp
    next
      case 2
      then show ?case
      proof
        fix x assume "x \<in> set fr2"
        then have "fst x = [] @ freq_pairs rx @ [(0x33, rx_reg33 s1), (0x30, 0), (0x30, u_reg30 s1)]"
          using io2(2) same rx by (simp add: restore_frame_def)
        then show "\<exists>ws ws'. fst x = ws @ freq_pairs rx @ ws' \<and> {0x38, 0x39} \<inter> fst ` set ws' = {}"
          by (intro exI conjI) (assumption, simp)
      qed
    qed
    then show ?thesis using Some rx t1 kfs by (simp add: sent sent2)
  qed
qed

theorem over_tunes_and_restores_witness:
  "tuned (u_frames (snd (key_on (station register_file) None (tuned_state\<lparr>u_tx_frequency := Some 147000000\<rparr>)))) = Some 147000000"
proof -
  let ?c = "station register_file" and ?s = "tuned_state\<lparr>u_tx_frequency := Some 147000000\<rparr>"
  have "split_ok ?c ?s" "\<not> u_keyed ?s" "fst (key_on ?c None ?s) = Inr ()" by code_simp+
  moreover have "key_on ?c None ?s = (Inr (), snd (key_on ?c None ?s))"
    by (rule prod_eqI) (simp_all add: calculation(3))
  moreover obtain r s2 where "key_off ?c (snd (key_on ?c None ?s)) = (r, s2)" by fastforce
  ultimately show ?thesis using over_tunes_and_restores [of ?c ?s None "snd (key_on ?c None ?s)" r s2] by simp
qed

subsection \<open>The held squelch\<close>

fun busy_polls :: "'w uvk5_config \<Rightarrow> nat \<Rightarrow> 'w uvk5 \<Rightarrow> (exn + bool \<times> int option) list" where
  "busy_polls c 0 s = []"
| "busy_polls c (Suc n) s = (let (r, s') = busy_reading c s in r # busy_polls c n s')"

lemma busy_polls_dropped:
  assumes "\<And>w. dead w \<Longrightarrow> \<exists>e w'. dk_read (uc_dock c) 0x67 w = (Inl e, w') \<and> dropped e \<and> dead w'"
    and "\<not> u_keyed s" and "dead (u_dock s)"
  shows "busy_polls c n s = replicate (min n (BUSY_HOLD_READS - u_busy_stale s)) (Inr (u_last_busy s, None))
     @ replicate (n - (BUSY_HOLD_READS - u_busy_stale s)) (Inr (False, None))"
  using assms(2,3)
proof (induction n arbitrary: s)
  case (Suc n)
  obtain r s1 where 1: "read_register c 0x67 s = (r, s1)" by fastforce
  note [simp] = io_fields [OF read_register_io [OF 1]]
  obtain e where e: "r = Inl e" "dropped e" "dead (u_dock s1)"
    using assms(1) [OF Suc.prems(2)] 1 by (auto simp: read_register_def)
  show ?case
  proof (cases "u_busy_stale s < BUSY_HOLD_READS")
    case True
    then have "BUSY_HOLD_READS - u_busy_stale s = Suc (BUSY_HOLD_READS - Suc (u_busy_stale s))" by simp
    moreover have "busy_reading c s = (Inr (u_last_busy s, None), s1\<lparr>u_busy_stale := u_busy_stale s1 + 1\<rparr>)"
      using Suc.prems(1) 1 e(1,2) True by (simp add: busy_reading_def)
    ultimately show ?thesis using Suc.IH [of "s1\<lparr>u_busy_stale := u_busy_stale s1 + 1\<rparr>"] Suc.prems(1) e(3) by simp
  next
    case False
    moreover have "busy_reading c s = (Inr (False, None), s1)"
      using Suc.prems(1) 1 e(1,2) False by (simp add: busy_reading_def)
    ultimately show ?thesis using Suc.IH [of s1] Suc.prems(1) e(3) by simp
  qed
qed simp

text \<open>A carrier reported by a good reading is held over at most three reads the dock drops in a row, and
  reported gone from the fourth on: a serial line that dies does not leave the receiver busy for ever. A held
  answer comes without a signal strength.
\<close>

theorem busy_held_three_reads:
  assumes "busy_reading c s = (Inr (busy, Some rssi), s1)" and "dead (u_dock s1)"
    and "\<And>w. dead w \<Longrightarrow> \<exists>e w'. dk_read (uc_dock c) 0x67 w = (Inl e, w') \<and> dropped e \<and> dead w'"
  shows "busy_polls c n s1 = replicate (min n 3) (Inr (busy, None)) @ replicate (n - 3) (Inr (False, None))"
proof -
  obtain r s2 where 2: "read_register c 0x67 s = (r, s2)" by fastforce
  have k: "\<not> u_keyed s" using assms(1) by (auto simp: busy_reading_def)
  obtain v where v: "r = Inr v" using assms(1) 2 k by (cases r) (auto simp: busy_reading_def split: if_splits)
  have "s1 = s2\<lparr>u_last_busy := busy, u_busy_stale := 0\<rparr>" using assms(1) 2 k v by (auto simp: busy_reading_def Let_def)
  then have "u_last_busy s1 = busy" "u_busy_stale s1 = 0" "\<not> u_keyed s1"
    using k io_fields(9) [OF read_register_io [OF 2]] by simp_all
  then show ?thesis using busy_polls_dropped [of dead c s1 n] assms(2,3) by (simp add: BUSY_HOLD_READS_def)
qed

text \<open>A dock that answers its first \<open>n\<close> reads with a strong carrier and then no more.\<close>

definition dying_dock :: "nat dock" where
  "dying_dock = \<lparr>dk_write = (\<lambda>ws n. (Inr (), n)),
     dk_read = (\<lambda>r n. (if n = 0 then Inl Uvk5Timeout else Inr 300, n - 1)),
     dk_enter = (\<lambda>n. (Inr (), n)), dk_exit = (\<lambda>n. (Inr (), n)), dk_connect = (\<lambda>n. (Inr (), n))\<rparr>"

theorem busy_held_three_reads_witness:
  "busy_polls (station dying_dock) 5 (snd (busy_reading (station dying_dock) (blank 1)))
     = replicate 3 (Inr (True, None)) @ replicate 2 (Inr (False, None))"
proof -
  let ?c = "station dying_dock"
  have "busy_reading ?c (blank 1) = (Inr (True, Some 300), snd (busy_reading ?c (blank 1)))"
    by (rule prod_eqI) (simp, code_simp, simp)
  moreover have "u_dock (snd (busy_reading ?c (blank 1))) = 0" by code_simp
  moreover have "\<exists>e w'. dk_read (uc_dock ?c) 0x67 w = (Inl e, w') \<and> dropped e \<and> w' = 0" if "w = 0" for w
    using that by (simp add: dying_dock_def dropped_def)
  ultimately show ?thesis
    using busy_held_three_reads [where dead = "\<lambda>w. w = 0" and n = 5 and c = ?c and s = "blank 1"] by simp
qed

subsection \<open>Where the code departs from what it says\<close>

text \<open>A tune whose write raises leaves the remembered frequency as it was and the remembered register 0x33
  already on the band of the frequency that was refused; the next un-key then sends the receive path of that
  band, with the receiver still on the old frequency.
\<close>

theorem failed_tune_switches_band:
  assumes "frequency_ok c hz" and "\<not> u_keyed s" and "\<And>ws w. \<exists>e w'. dk_write (uc_dock c) ws w = (Inl e, w')"
  shows "u_frequency (snd (set_frequency c hz s)) = u_frequency s
    \<and> (0x33, (with_band (u_reg33 s) hz OR REG33_BASE OR REG33_RX_ENABLE) AND NOT REG33_PA_ENABLE)
        \<in> set (unkey_frame (snd (set_frequency c hz s)))"
proof -
  define s1 where "s1 = s\<lparr>u_reg33 := with_band (u_reg33 s) hz\<rparr>"
  let ?w = "freq_pairs hz @ [(0x33, rx_reg33 s1), (0x30, 0), (0x30, u_reg30 s1)]"
  obtain r s2 where 2: "write_registers c ?w s1 = (r, s2)" by fastforce
  obtain e where "r = Inl e" using assms(3) [of ?w "u_dock s1"] 2 by (auto simp: write_registers_def)
  then have "snd (set_frequency c hz s) = s2"
    using assms(1,2) 2 by (simp add: set_frequency_def validate_frequency_def Let_def s1_def [symmetric])
  then show ?thesis using io_fields [OF write_registers_io [OF 2]]
    by (simp add: s1_def unkey_frame_def rx_reg33_def)
qed

text \<open>A dock on which every write raises, or every read of the synthesiser.\<close>

definition broken_dock :: "exn \<Rightarrow> (regs \<Rightarrow> bool) \<Rightarrow> (int \<Rightarrow> bool) \<Rightarrow> (int \<times> int) list dock" where
  "broken_dock e bad_write bad_read =
     \<lparr>dk_write = (\<lambda>ws w. if bad_write ws then (Inl e, w) else dk_write register_file ws w),
      dk_read = (\<lambda>r w. if bad_read r then (Inl e, w) else dk_read register_file r w),
      dk_enter = dk_enter register_file, dk_exit = dk_exit register_file, dk_connect = dk_connect register_file\<rparr>"

theorem failed_tune_switches_band_witness:
  "u_frequency (snd (set_frequency (station (broken_dock Uvk5Timeout (\<lambda>_. True) (\<lambda>_. False))) 444000000 tuned_state)) = Some 147555000"
  using failed_tune_switches_band [of "station (broken_dock Uvk5Timeout (\<lambda>_. True) (\<lambda>_. False))" 444000000 tuned_state]
  by (simp add: broken_dock_def frequency_ok_def FREQ_STEP_HZ_def tuned_state_def blank_def)

text \<open>The un-key, documented never to raise, raises with a split armed when the read-back of the receive
  frequency fails with anything but a drop (the reader's own error, say): the backend then still counts
  itself keyed and its playout stream stays open, though the un-key frame was sent.
\<close>

theorem unkey_raises_out_of_restore:
  assumes "u_tx_frequency s = Some tx" and "u_frequency s = Some rx" and "\<not> dropped e"
    and "\<And>ws w. \<exists>w'. dk_write (uc_dock c) ws w = (Inr (), w')" and "\<And>w. \<exists>w'. dk_read (uc_dock c) 0x39 w = (Inl e, w')"
  shows "\<exists>s'. key_off c s = (Inl e, s') \<and> u_keyed s' = u_keyed s \<and> u_playback s' = u_playback s
     \<and> last_sent (u_frames s') 0x30 = Some (u_reg30 s)"
proof -
  have w: "\<exists>s'. write_registers c ws s = (Inr (), s')" for ws s
    using assms(4) [of ws "u_dock s"] by (auto simp: write_registers_def)
  have rd: "\<exists>s'. read_register c 0x39 s = (Inl e, s')" for s
    using assms(5) [of "u_dock s"] by (auto simp: read_register_def)
  obtain s1 where 1: "write_registers c (unkey_frame s) s = (Inr (), s1)" using w by blast
  note f1 = io_fields [OF write_registers_io [OF 1]]
  obtain s2 where 2: "write_registers c (freq_pairs rx @ [(0x33, rx_reg33 s1), (0x30, 0), (0x30, u_reg30 s1)]) s1 = (Inr (), s2)"
    using w by blast
  obtain s3 where 3: "read_register c 0x39 s2 = (Inl e, s3)" using rd by blast
  have "restore_rx_frequency c s1 = (Inl e, s3)"
    using assms(1-3) f1 2 3 by (simp add: restore_rx_frequency_def numeral_2_eq_2)
  then have "key_off c s = (Inl e, s3)" using 1 by (simp add: key_off_def)
  then show ?thesis using key_off_last key_off_fields(9) by blast
qed

theorem unkey_raises_out_of_restore_witness:
  "\<exists>s'. key_off (station (broken_dock (Fault 1) (\<lambda>_. False) (\<lambda>r. r = 0x39)))
     (tuned_state\<lparr>u_tx_frequency := Some 147000000, u_keyed := True, u_playback := True\<rparr>) = (Inl (Fault 1), s') \<and> u_keyed s'"
proof -
  let ?c = "station (broken_dock (Fault 1) (\<lambda>_. False) (\<lambda>r. r = 0x39))"
  let ?s = "tuned_state\<lparr>u_tx_frequency := Some 147000000, u_keyed := True, u_playback := True\<rparr>"
  have "\<exists>w'. dk_write (uc_dock ?c) ws w = (Inr (), w')" for ws w by (simp add: broken_dock_def register_file_def)
  moreover have "\<exists>w'. dk_read (uc_dock ?c) 0x39 w = (Inl (Fault 1), w')" for w by (simp add: broken_dock_def)
  moreover have "u_tx_frequency ?s = Some 147000000" "u_frequency ?s = Some 147555000" "\<not> dropped (Fault 1)" "u_keyed ?s"
    by (simp_all add: tuned_state_def blank_def dropped_def)
  ultimately show ?thesis using unkey_raises_out_of_restore [of ?s 147000000 147555000 "Fault 1" ?c] by metis
qed

text \<open>A playout failure during a streaming over un-keys; the next frame of the same over is not dropped but
  keys the transmitter again for itself alone.
\<close>

theorem frame_after_pacer_failure_rekeys:
  assumes "u_keyed s" and "u_playback s" and "fst (key_off c s) = Inr ()"
    and "uc_tx_allowed c" and "u_frequency s \<noteq> None"
  shows "\<exists>b more. u_frames (snd (transmit c True None p (pacer_failed c s))) = u_frames (pacer_failed c s) @ (key_frame s, b) # more"
proof -
  obtain s1 where 1: "key_off c s = (Inr (), s1)" by (metis assms(3) prod.collapse)
  note f = key_off_fields [OF 1]
  have s1: "pacer_failed c s = s1" using assms(2) 1 by (simp add: pacer_failed_def)
  have keyed: "\<not> u_keyed s1" using f(8) by simp
  obtain r s2 where 2: "key_on c None s1 = (r, s2)" by fastforce
  have kf: "key_frame s1 = key_frame s" using f by (simp add: key_frame_def tx_tune_pairs_def tone_pairs_def)
  have grow: "\<exists>more. u_frames (snd (key_off c t)) = u_frames t @ more" for t :: "'a uvk5"
  proof -
    obtain q t' where q: "key_off c t = (q, t')" by fastforce
    obtain b fr rd where "io ((unkey_frame t, b) # fr) rd (t\<lparr>u_keyed := u_keyed t', u_playback := u_playback t'\<rparr>) t'"
      using key_off_io [OF q] by blast
    from io_fields(1) [OF this] show ?thesis using q by simp
  qed
  have ne: "u_frequency s1 \<noteq> None" using assms(5) f by simp
  have first: "\<exists>b more. u_frames s2 = u_frames s1 @ (key_frame s, b) # more"
    using 2 keyed assms(4) ne refl
  proof (cases rule: key_on_runs)
    case (up t)
    obtain fr bfr rd where io: "io (fr @ bfr) rd (s1\<lparr>u_pa := None, u_playback := True, u_pa := u_pa t\<rparr>) t" "fr \<noteq> []"
        "\<forall>x\<in>set fr. fst x = key_frame (s1\<lparr>u_pa := None, u_playback := True\<rparr>)"
      using key_up_io [OF up(1)] by blast
    have "key_frame (s1\<lparr>u_pa := None, u_playback := True\<rparr>) = key_frame s"
      using kf by (simp add: key_frame_def tx_tune_pairs_def tone_pairs_def)
    then show ?thesis using io io_fields(1) [OF io(1)] up(3) by (cases fr) (auto intro: prod_eqI)
  next
    case (undone e t q)
    obtain fr bfr rd where io: "io (fr @ bfr) rd (s1\<lparr>u_pa := None, u_playback := True, u_pa := u_pa t\<rparr>) t" "fr \<noteq> []"
        "\<forall>x\<in>set fr. fst x = key_frame (s1\<lparr>u_pa := None, u_playback := True\<rparr>)"
      using key_up_io [OF undone(1)] by blast
    have "key_frame (s1\<lparr>u_pa := None, u_playback := True\<rparr>) = key_frame s"
      using kf by (simp add: key_frame_def tx_tune_pairs_def tone_pairs_def)
    then show ?thesis using io io_fields(1) [OF io(1)] grow [of t] undone(3) by (cases fr) (auto intro: prod_eqI)
  qed
  obtain t3 where t3: "snd (transmit c True None p s1) = t3" by simp
  have "\<exists>more. u_frames t3 = u_frames s2 @ more"
  proof (cases r)
    case (Inl e)
    then show ?thesis using t3 2 keyed by (simp add: transmit_def)
  next
    case (Inr u)
    obtain q4 s4 where 4: "key_off c s2 = (q4, s4)" by fastforce
    obtain q5 s5 where 5: "key_off c s4 = (q5, s5)" by fastforce
    have "t3 = (if p = None then s4 else s5)"
      using t3 2 4 5 keyed Inr by (cases p; cases q5) (auto simp: transmit_def)
    then show ?thesis using grow [of s2] grow [of s4] 4 5 by (cases p) auto
  qed
  then show ?thesis using first s1 t3 by auto
qed

theorem frame_after_pacer_failure_rekeys_witness:
  "\<exists>b more. u_frames (snd (transmit (station register_file) True None None
     (pacer_failed (station register_file) (tuned_state\<lparr>u_keyed := True, u_playback := True\<rparr>))))
     = u_frames (pacer_failed (station register_file) (tuned_state\<lparr>u_keyed := True, u_playback := True\<rparr>)) @ (key_frame tuned_state, b) # more"
proof -
  let ?s = "tuned_state\<lparr>u_keyed := True, u_playback := True\<rparr>"
  have "fst (key_off (station register_file) ?s) = Inr ()" by code_simp
  moreover have "key_frame ?s = key_frame tuned_state" by (simp add: key_frame_def tx_tune_pairs_def tone_pairs_def)
  ultimately show ?thesis
    using frame_after_pacer_failure_rekeys [of ?s "station register_file" None] by (simp add: tuned_state_def blank_def)
qed

end
