(* ===== verification/Uvk5Link.thy ===== *)
theory Uvk5Link
  imports Uvk5Messages BoundedQueue
begin

section \<open>The UV-K5 dock transport: one request on the wire\<close>

text \<open>
  \<open>radio_server/backends/uvk5/transport.py\<close>, \<open>Uvk5Transport\<close>, as an interleaving of its threads. A caller of
  \<open>request\<close> is a number and goes through the phases of the method; a reader thread is numbered by its
  generation. Every event is what one thread does between two points where another may run: a critical
  section of \<open>_cond\<close>, the write, the read. An event that its thread is not ready for changes nothing. The
  serial port is the bytes the events carry and \<open>lk_write\<close>, which lets a write raise. \<open>ul_sent\<close> is what has
  been written. The result and the done flag of a waiter, always set together, are one option.
\<close>

definition INBOX_DEPTH :: nat where "INBOX_DEPTH = 256"
definition PROBE_REGISTER :: int where "PROBE_REGISTER = 0x30"

record uvk5_link_config =
  lk_obfuscate :: bool
  lk_write :: "bytes list \<Rightarrow> bytes \<Rightarrow> exn option"

record waiter =
  wt_match :: "dock_message \<Rightarrow> bool"
  wt_result :: "dock_message option"

datatype request_phase =
    PIdle
  | PHolding dock_message real
  | PRegistered dock_message real
  | PWaiting real
  | PReturned "exn + dock_message"

datatype reader_phase = RTop | RReading | REnded

record uvk5_link =
  ul_now :: real
  ul_decoder :: uvk5_decoder
  ul_wire :: "nat option"
  ul_exchanges :: nat
  ul_waiters :: "nat list"
  ul_waiter :: "nat \<Rightarrow> waiter"
  ul_phase :: "nat \<Rightarrow> request_phase"
  ul_inbox :: "dock_message list"
  ul_error :: "exn option"
  ul_closed :: bool
  ul_gen :: nat
  ul_reader :: "nat \<Rightarrow> reader_phase"
  ul_stop :: "nat \<Rightarrow> bool"
  ul_reopening :: nat
  ul_sent :: "bytes list"

definition uvk5_link_init :: "uvk5_link_config \<Rightarrow> uvk5_link" where
  "uvk5_link_init c =
     \<lparr>ul_now = 0, ul_decoder = uvk5_init (lk_obfuscate c) False, ul_wire = None, ul_exchanges = 0, ul_waiters = [],
      ul_waiter = (\<lambda>t. \<lparr>wt_match = (\<lambda>m. False), wt_result = None\<rparr>), ul_phase = (\<lambda>t. PIdle), ul_inbox = [], ul_error = None,
      ul_closed = False, ul_gen = 0, ul_reader = (\<lambda>g. RTop), ul_stop = (\<lambda>g. False), ul_reopening = 0, ul_sent = []\<rparr>"

subsection \<open>The reader thread\<close>

text \<open>The first waiter that is not done and matches.\<close>

fun claimant :: "(nat \<Rightarrow> waiter) \<Rightarrow> dock_message \<Rightarrow> nat list \<Rightarrow> nat option" where
  "claimant w m [] = None"
| "claimant w m (t # ts) = (if wt_result (w t) = None \<and> wt_match (w t) m then Some t else claimant w m ts)"

definition inbox_push :: "dock_message \<Rightarrow> uvk5_link \<Rightarrow> uvk5_link" where
  "inbox_push m s =
     (let q = ul_inbox s @ [m] in s\<lparr>ul_inbox := (if INBOX_DEPTH < length q then tl q else q)\<rparr>)"

definition link_dispatch :: "nat \<Rightarrow> dock_message \<Rightarrow> uvk5_link \<Rightarrow> uvk5_link" where
  "link_dispatch g m s =
     (if g \<noteq> ul_gen s then s
      else case claimant (ul_waiter s) m (ul_waiters s) of
        Some t \<Rightarrow> s\<lparr>ul_waiter := (ul_waiter s)(t := (ul_waiter s t)\<lparr>wt_result := Some m\<rparr>)\<rparr>
      | None \<Rightarrow> inbox_push m s)"

fun dispatch_payloads :: "nat \<Rightarrow> bytes list \<Rightarrow> uvk5_link \<Rightarrow> uvk5_link" where
  "dispatch_payloads g [] s = s"
| "dispatch_payloads g (p # ps) s =
     (case parse_frame p of
        Inl e \<Rightarrow> s
      | Inr None \<Rightarrow> dispatch_payloads g ps s
      | Inr (Some m) \<Rightarrow> dispatch_payloads g ps (link_dispatch g m s))"

definition dock_chunk :: "nat \<Rightarrow> bytes \<Rightarrow> uvk5_link \<Rightarrow> uvk5_link" where
  "dock_chunk g chunk s =
     (let (d, ps) = uvk5_feed (ul_decoder s) chunk in dispatch_payloads g ps (s\<lparr>ul_decoder := d\<rparr>))"

definition link_alive :: "uvk5_link \<Rightarrow> bool" where
  "link_alive s \<longleftrightarrow> ul_reader s (ul_gen s) \<noteq> REnded \<and> ul_error s = None"

subsection \<open>A request\<close>

definition return_request :: "nat \<Rightarrow> exn + dock_message \<Rightarrow> uvk5_link \<Rightarrow> uvk5_link" where
  "return_request t r s =
     s\<lparr>ul_waiters := remove1 t (ul_waiters s), ul_exchanges := ul_exchanges s + 1, ul_wire := None,
       ul_phase := (ul_phase s)(t := PReturned r)\<rparr>"

text \<open>What \<open>_closed\<close> and \<open>_raise_if_failed\<close> make a method raise.\<close>

definition link_fault :: "uvk5_link \<Rightarrow> exn option" where
  "link_fault s = (if ul_closed s then Some Uvk5Closed else ul_error s)"

definition link_send :: "uvk5_link_config \<Rightarrow> dock_message \<Rightarrow> (uvk5_link, unit) meth" where
  "link_send c m s =
     (case link_fault s of
        Some e \<Rightarrow> (Inl e, s)
      | None \<Rightarrow>
          (case frame_of m (lk_obfuscate c) of
             Inl e \<Rightarrow> (Inl e, s)
           | Inr f \<Rightarrow>
               (case lk_write c (ul_sent s) f of
                  Some e \<Rightarrow> (Inl Uvk5Timeout, s)
                | None \<Rightarrow> (Inr (), s\<lparr>ul_sent := ul_sent s @ [f]\<rparr>))))"

text \<open>\<open>Acquire\<close> with the lock taken is the acquire that ran out of its \<open>wire_timeout\<close>.\<close>

definition begin_request :: "nat \<Rightarrow> dock_message \<Rightarrow> (dock_message \<Rightarrow> bool) \<Rightarrow> real \<Rightarrow> uvk5_link \<Rightarrow> uvk5_link" where
  "begin_request t m match timeout s =
     (let s1 = s\<lparr>ul_waiter := (ul_waiter s)(t := \<lparr>wt_match = match, wt_result = None\<rparr>)\<rparr>
      in if ul_wire s = None
         then s1\<lparr>ul_wire := Some t, ul_phase := (ul_phase s)(t := PHolding m timeout)\<rparr>
         else s1\<lparr>ul_phase := (ul_phase s)(t := PReturned (Inl Uvk5Timeout))\<rparr>)"

definition register_waiter :: "nat \<Rightarrow> uvk5_link \<Rightarrow> uvk5_link" where
  "register_waiter t s =
     (case ul_phase s t of
        PHolding m timeout \<Rightarrow>
          (case link_fault s of
             Some e \<Rightarrow> return_request t (Inl e) s
           | None \<Rightarrow> s\<lparr>ul_waiters := ul_waiters s @ [t], ul_phase := (ul_phase s)(t := PRegistered m timeout)\<rparr>)
      | _ \<Rightarrow> s)"

definition send_request :: "uvk5_link_config \<Rightarrow> nat \<Rightarrow> uvk5_link \<Rightarrow> uvk5_link" where
  "send_request c t s =
     (case ul_phase s t of
        PRegistered m timeout \<Rightarrow>
          (case link_send c m s of
             (Inl e, s1) \<Rightarrow> return_request t (Inl e) s1
           | (Inr u, s1) \<Rightarrow> s1\<lparr>ul_phase := (ul_phase s1)(t := PWaiting (ul_now s1 + timeout))\<rparr>)
      | _ \<Rightarrow> s)"

text \<open>One turn of the wait loop: the reply, the reader's error, a close, the deadline, in this order.\<close>

definition wake_request :: "nat \<Rightarrow> uvk5_link \<Rightarrow> uvk5_link" where
  "wake_request t s =
     (case ul_phase s t of
        PWaiting deadline \<Rightarrow>
          (case wt_result (ul_waiter s t) of
             Some m \<Rightarrow> return_request t (Inr m) s
           | None \<Rightarrow>
               (case ul_error s of
                  Some e \<Rightarrow> return_request t (Inl e) s
                | None \<Rightarrow> if ul_closed s then return_request t (Inl Uvk5Closed) s
                          else if deadline \<le> ul_now s then return_request t (Inl Uvk5Timeout) s else s))
      | _ \<Rightarrow> s)"

fun reg_match :: "int \<Rightarrow> dock_message \<Rightarrow> bool" where
  "reg_match reg (RegisterInfo r v) \<longleftrightarrow> r = reg"
| "reg_match reg _ \<longleftrightarrow> False"

definition begin_read_register :: "nat \<Rightarrow> int \<Rightarrow> real \<Rightarrow> uvk5_link \<Rightarrow> uvk5_link" where
  "begin_read_register t reg timeout = begin_request t (ReadRegisters [reg]) (reg_match reg) timeout"

subsection \<open>Reconnecting and closing\<close>

datatype reconnect_answer = AlreadyHealthy | Reopening | Refused exn

text \<open>
  Up to the join of the old reader; then the port is opened again, which may raise. \<open>ul_reopening\<close> counts the
  callers in between: nothing keeps two of them apart.
\<close>

definition reconnect_begin :: "uvk5_link \<Rightarrow> reconnect_answer \<times> uvk5_link" where
  "reconnect_begin s =
     (if ul_closed s then (Refused Uvk5Closed, s)
      else if link_alive s then (AlreadyHealthy, s)
      else (Reopening, s\<lparr>ul_stop := (ul_stop s)(ul_gen s := True), ul_reopening := ul_reopening s + 1\<rparr>))"

definition reconnect_finish :: "uvk5_link_config \<Rightarrow> exn option \<Rightarrow> (uvk5_link, unit) meth" where
  "reconnect_finish c opened s =
     (case opened of
        Some e \<Rightarrow> (Inl e, s\<lparr>ul_reopening := ul_reopening s - 1\<rparr>)
      | None \<Rightarrow>
          (let g = ul_gen s + 1 in
           (Inr (), s\<lparr>ul_reopening := ul_reopening s - 1, ul_gen := g, ul_stop := (ul_stop s)(g := False), ul_decoder := uvk5_init (lk_obfuscate c) False,
              ul_error := None, ul_waiters := [], ul_inbox := [], ul_reader := (ul_reader s)(g := RTop)\<rparr>)))"

definition link_close :: "uvk5_link \<Rightarrow> uvk5_link" where
  "link_close s = (if ul_closed s then s else s\<lparr>ul_closed := True, ul_stop := (ul_stop s)(ul_gen s := True)\<rparr>)"

subsection \<open>The events\<close>

datatype dock_event =
    EBegin nat dock_message "dock_message \<Rightarrow> bool" real
  | ERegister nat
  | ESend nat
  | EWake nat
  | EFire dock_message
  | EReaderTop nat
  | EReaderData nat bytes
  | EReaderRaises nat exn
  | EReconnectBegin
  | EReconnectFinish "exn option"
  | EDrain
  | EPass real
  | EClose

definition may_begin :: "request_phase \<Rightarrow> bool" where
  "may_begin p \<longleftrightarrow> (case p of PIdle \<Rightarrow> True | PReturned r \<Rightarrow> True | _ \<Rightarrow> False)"

fun d_exec :: "uvk5_link_config \<Rightarrow> dock_event \<Rightarrow> uvk5_link \<Rightarrow> uvk5_link" where
  "d_exec c (EBegin t m match timeout) s = (if may_begin (ul_phase s t) then begin_request t m match timeout s else s)"
| "d_exec c (ERegister t) s = register_waiter t s"
| "d_exec c (ESend t) s = send_request c t s"
| "d_exec c (EWake t) s = wake_request t s"
| "d_exec c (EFire m) s = snd (link_send c m s)"
| "d_exec c (EReaderTop g) s =
     (if ul_reader s g = RTop \<and> g \<le> ul_gen s
      then s\<lparr>ul_reader := (ul_reader s)(g := (if ul_stop s g \<or> g \<noteq> ul_gen s then REnded else RReading))\<rparr> else s)"
| "d_exec c (EReaderData g bs) s =
     (if ul_reader s g = RReading then (dock_chunk g bs s)\<lparr>ul_reader := (ul_reader s)(g := RTop)\<rparr> else s)"
| "d_exec c (EReaderRaises g e) s =
     (if ul_reader s g = RReading
      then s\<lparr>ul_reader := (ul_reader s)(g := REnded), ul_error := (if g = ul_gen s then Some e else ul_error s)\<rparr> else s)"
| "d_exec c EReconnectBegin s = snd (reconnect_begin s)"
| "d_exec c (EReconnectFinish opened) s =
     (if 0 < ul_reopening s then snd (reconnect_finish c opened s) else s)"
| "d_exec c EDrain s = s\<lparr>ul_inbox := []\<rparr>"
| "d_exec c (EPass d) s = s\<lparr>ul_now := ul_now s + max 0 d\<rparr>"
| "d_exec c EClose s = link_close s"

inductive dock_reachable :: "uvk5_link_config \<Rightarrow> uvk5_link \<Rightarrow> bool" for c where
  start: "dock_reachable c (uvk5_link_init c)"
| step: "dock_reachable c s \<Longrightarrow> dock_reachable c (d_exec c ev s)"

subsection \<open>One request on the wire\<close>

text \<open>The phases between taking the wire and giving it back.\<close>

definition on_wire :: "request_phase \<Rightarrow> bool" where
  "on_wire p \<longleftrightarrow> (case p of PHolding m d \<Rightarrow> True | PRegistered m d \<Rightarrow> True | PWaiting d \<Rightarrow> True | _ \<Rightarrow> False)"

definition results_match :: "(nat \<Rightarrow> waiter) \<Rightarrow> bool" where
  "results_match w \<longleftrightarrow> (\<forall>t m. wt_result (w t) = Some m \<longrightarrow> wt_match (w t) m)"

definition dock_ok :: "uvk5_link \<Rightarrow> bool" where
  "dock_ok s \<longleftrightarrow> (\<forall>t. on_wire (ul_phase s t) \<longleftrightarrow> ul_wire s = Some t)
     \<and> (ul_waiters s = [] \<or> (\<exists>t. ul_wire s = Some t \<and> ul_waiters s = [t] \<and> (\<forall>m d. ul_phase s t \<noteq> PHolding m d)))
     \<and> results_match (ul_waiter s)
     \<and> (\<forall>t m. ul_phase s t = PReturned (Inr m) \<longrightarrow> wt_match (ul_waiter s t) m)"

text \<open>What the reader may change.\<close>

definition reader_step :: "uvk5_link \<Rightarrow> uvk5_link \<Rightarrow> bool" where
  "reader_step s s' \<longleftrightarrow> ul_wire s' = ul_wire s \<and> ul_waiters s' = ul_waiters s \<and> ul_phase s' = ul_phase s
     \<and> (\<forall>t. wt_match (ul_waiter s' t) = wt_match (ul_waiter s t)) \<and> (results_match (ul_waiter s) \<longrightarrow> results_match (ul_waiter s'))
     \<and> ul_gen s' = ul_gen s \<and> ul_reader s' = ul_reader s \<and> ul_reopening s' = ul_reopening s \<and> ul_now s' = ul_now s"

lemma reader_step_refl: "reader_step s s"
  by (simp add: reader_step_def)

lemma reader_step_trans: "reader_step a b \<Longrightarrow> reader_step b c \<Longrightarrow> reader_step a c"
  by (simp add: reader_step_def)

lemma claimant_matches: "claimant w m ts = Some t \<Longrightarrow> t \<in> set ts \<and> wt_result (w t) = None \<and> wt_match (w t) m"
  by (induction ts) (auto split: if_splits)

lemma link_dispatch_step: "reader_step s (link_dispatch g m s)"
  using claimant_matches [of "ul_waiter s" m "ul_waiters s"]
  by (auto simp: reader_step_def link_dispatch_def inbox_push_def Let_def results_match_def split: option.splits)

lemma dispatch_payloads_step: "reader_step s (dispatch_payloads g ps s)"
proof (induction g ps s rule: dispatch_payloads.induct)
  case (2 g p ps s)
  show ?case
  proof (cases "parse_frame p")
    case (Inl e)
    then show ?thesis by (simp add: reader_step_refl)
  next
    case (Inr m)
    then show ?thesis using 2 by (cases m) (auto intro: reader_step_trans [OF link_dispatch_step])
  qed
qed (simp add: reader_step_refl)

lemma dock_chunk_step: "reader_step s (dock_chunk g bs s)"
proof -
  obtain d ps where u: "uvk5_feed (ul_decoder s) bs = (d, ps)" by fastforce
  have "reader_step s (s\<lparr>ul_decoder := d\<rparr>)" by (simp add: reader_step_def)
  from reader_step_trans [OF this dispatch_payloads_step] show ?thesis using u by (simp add: dock_chunk_def)
qed

lemma reader_step_ok: "dock_ok s \<Longrightarrow> reader_step s s' \<Longrightarrow> dock_ok s'"
  by (simp add: dock_ok_def reader_step_def)

lemma dock_ok_fields:
  "dock_ok s \<Longrightarrow> ul_wire s' = ul_wire s \<Longrightarrow> ul_waiters s' = ul_waiters s \<Longrightarrow> ul_phase s' = ul_phase s
    \<Longrightarrow> ul_waiter s' = ul_waiter s \<Longrightarrow> dock_ok s'"
  by (simp add: dock_ok_def)

lemma link_send_frame:
  "link_send c m s = (r, s') \<Longrightarrow> \<exists>sent. s' = s\<lparr>ul_sent := sent\<rparr>"
  by (auto simp: link_send_def split: option.splits sum.splits intro: exI [of _ "ul_sent s"])

lemma return_request_ok:
  "dock_ok s \<Longrightarrow> ul_wire s = Some t \<Longrightarrow> (\<And>m. r = Inr m \<Longrightarrow> wt_match (ul_waiter s t) m) \<Longrightarrow> dock_ok (return_request t r s)"
  by (auto simp: dock_ok_def return_request_def on_wire_def)

lemma begin_request_ok: "dock_ok s \<Longrightarrow> may_begin (ul_phase s t) \<Longrightarrow> dock_ok (begin_request t m match timeout s)"
  by (auto simp: dock_ok_def begin_request_def Let_def on_wire_def may_begin_def results_match_def split: request_phase.splits)

lemma on_wire_holder: "dock_ok s \<Longrightarrow> on_wire (ul_phase s t) \<Longrightarrow> ul_wire s = Some t"
  by (simp add: dock_ok_def)

lemma register_waiter_ok: "dock_ok s \<Longrightarrow> dock_ok (register_waiter t s)"
proof (cases "ul_phase s t")
  case (PHolding m d)
  assume ok: "dock_ok s"
  have w: "ul_wire s = Some t" by (rule on_wire_holder [OF ok]) (simp add: PHolding on_wire_def)
  then have ws: "ul_waiters s = []" using ok PHolding by (auto simp: dock_ok_def)
  show ?thesis
  proof (cases "link_fault s")
    case (Some e)
    then show ?thesis using return_request_ok [OF ok w, of "Inl e"] PHolding by (simp add: register_waiter_def)
  next
    case None
    then show ?thesis using ok w ws PHolding by (auto simp: register_waiter_def dock_ok_def on_wire_def)
  qed
qed (simp_all add: register_waiter_def)

lemma send_request_ok: "dock_ok s \<Longrightarrow> dock_ok (send_request c t s)"
proof (cases "ul_phase s t")
  case (PRegistered m d)
  assume ok: "dock_ok s"
  have w: "ul_wire s = Some t" by (rule on_wire_holder [OF ok]) (simp add: PRegistered on_wire_def)
  obtain r s1 where 1: "link_send c m s = (r, s1)" by fastforce
  then obtain sent where s1: "s1 = s\<lparr>ul_sent := sent\<rparr>" using link_send_frame by blast
  have ok1: "dock_ok s1" by (rule dock_ok_fields [OF ok]) (simp_all add: s1)
  show ?thesis
  proof (cases r)
    case (Inl e)
    then show ?thesis using return_request_ok [OF ok1, of t "Inl e"] PRegistered 1 w by (simp add: send_request_def s1)
  next
    case (Inr u)
    then show ?thesis using ok1 PRegistered 1 w by (auto simp: send_request_def s1 dock_ok_def on_wire_def)
  qed
qed (simp_all add: send_request_def)

lemma wake_request_ok: "dock_ok s \<Longrightarrow> dock_ok (wake_request t s)"
proof (cases "ul_phase s t")
  case (PWaiting d)
  assume ok: "dock_ok s"
  have w: "ul_wire s = Some t" by (rule on_wire_holder [OF ok]) (simp add: PWaiting on_wire_def)
  have "wt_match (ul_waiter s t) m" if "wt_result (ul_waiter s t) = Some m" for m
    using ok that by (simp add: dock_ok_def results_match_def)
  moreover have "dock_ok (return_request t (Inl e) s)" for e by (rule return_request_ok [OF ok w]) simp
  moreover have "dock_ok (return_request t (Inr m) s)" if "wt_match (ul_waiter s t) m" for m
    by (rule return_request_ok [OF ok w]) (use that in simp)
  ultimately show ?thesis using ok PWaiting
    by (cases "wt_result (ul_waiter s t)"; cases "ul_error s") (simp_all add: wake_request_def)
qed (simp_all add: wake_request_def)

lemma reconnect_finish_ok: "dock_ok s \<Longrightarrow> dock_ok (snd (reconnect_finish c opened s))"
  by (cases opened) (auto simp: dock_ok_def reconnect_finish_def Let_def)

lemma d_exec_ok: "dock_ok s \<Longrightarrow> dock_ok (d_exec c ev s)"
proof (cases ev)
  case (EReaderData g bs)
  assume ok: "dock_ok s"
  have "dock_ok (dock_chunk g bs s)" by (rule reader_step_ok [OF ok dock_chunk_step])
  from dock_ok_fields [OF this] show ?thesis using ok EReaderData by simp
next
  case (EFire m)
  assume ok: "dock_ok s"
  obtain r s1 where 1: "link_send c m s = (r, s1)" by fastforce
  then obtain sent where s1: "s1 = s\<lparr>ul_sent := sent\<rparr>" using link_send_frame by blast
  have "dock_ok s1" by (rule dock_ok_fields [OF ok]) (simp_all add: s1)
  then show ?thesis using 1 EFire by simp
next
  case EReconnectBegin
  assume ok: "dock_ok s"
  show ?thesis using ok EReconnectBegin dock_ok_fields [OF ok] by (auto simp: reconnect_begin_def)
next
  case EClose
  assume ok: "dock_ok s"
  show ?thesis using ok EClose dock_ok_fields [OF ok] by (auto simp: link_close_def)
qed (auto simp: begin_request_ok register_waiter_ok send_request_ok wake_request_ok reconnect_finish_ok elim: dock_ok_fields)

lemma dock_init_ok: "dock_ok (uvk5_link_init c)"
  by (simp add: dock_ok_def uvk5_link_init_def on_wire_def results_match_def)

lemma dock_reachable_ok: "dock_reachable c s \<Longrightarrow> dock_ok s"
  by (induction rule: dock_reachable.induct) (simp_all add: dock_init_ok d_exec_ok)

lemma dock_reachable_run: "dock_reachable c s \<Longrightarrow> dock_reachable c (fold (d_exec c) evs s)"
  by (induction evs arbitrary: s) (simp_all add: dock_reachable.step)

subsection \<open>What the reader decodes\<close>

lemma uvk5_feed_append:
  "uvk5_feed d xs = (d1, fs1) \<Longrightarrow> uvk5_feed d1 ys = (d2, fs2) \<Longrightarrow> uvk5_feed d (xs @ ys) = (d2, fs1 @ fs2)"
  unfolding uvk5_feed_def by (rule feed_steps_append_pair)

lemma uvk5_feed_obfuscated: "uvk5_feed d bs = (d', fs) \<Longrightarrow> ud_obfuscated d' = ud_obfuscated d"
proof (induction bs arbitrary: d d' fs)
  case (Cons b bs)
  obtain d1 f where st: "uvk5_step d b = (d1, f)" by fastforce
  then have "ud_obfuscated d1 = ud_obfuscated d" using uvk5_step_flags(1) [of d b] by simp
  moreover obtain gs where "uvk5_feed d1 bs = (d', gs)"
    using Cons.prems st by (auto simp: uvk5_feed_def Let_def split: prod.splits)
  ultimately show ?case using Cons.IH by metis
qed (simp add: uvk5_feed_def)

lemma feed_messages:
  "list_all (sendable (ud_obfuscated d)) ms \<Longrightarrow> uvk5_ready d \<Longrightarrow>
     \<exists>d' ps. uvk5_feed d (concat (map (frame_bytes (ud_obfuscated d)) ms)) = (d', ps) \<and> uvk5_ready d'
       \<and> map parse_frame ps = map (\<lambda>m. Inr (Some m)) ms"
proof (induction ms arbitrary: d)
  case Nil
  then show ?case by (simp add: uvk5_feed_def)
next
  case (Cons m ms)
  have m: "frame_bytes (ud_obfuscated d) m = uvk5_enc (ud_obfuscated d) (sent_as m)" "uvk5_wf (ud_obfuscated d) (sent_as m)"
      "parse_frame (uvk5_out (sent_as m)) = Inr (Some m)"
    using sendable_message [of "ud_obfuscated d" m] Cons.prems(1) by simp_all
  from uvk5_feed_frame [OF m(2) Cons.prems(2)] obtain d1 where
    d1: "uvk5_feed d (frame_bytes (ud_obfuscated d) m) = (d1, [uvk5_out (sent_as m)])" "uvk5_ready d1" using m(1) by auto
  have o: "ud_obfuscated d1 = ud_obfuscated d" by (rule uvk5_feed_obfuscated [OF d1(1)])
  from Cons.IH [of d1] Cons.prems(1) d1(2) obtain d2 ps where
    d2: "uvk5_feed d1 (concat (map (frame_bytes (ud_obfuscated d)) ms)) = (d2, ps)" "uvk5_ready d2"
      "map parse_frame ps = map (\<lambda>m. Inr (Some m)) ms" by (auto simp: o)
  from uvk5_feed_append [OF d1(1) d2(1)] d2(2,3) m(3) show ?case by simp
qed

lemma dispatch_messages:
  "map parse_frame ps = map (\<lambda>m. Inr (Some m)) ms \<Longrightarrow> dispatch_payloads g ps s = fold (link_dispatch g) ms s"
proof (induction ps arbitrary: ms s)
  case (Cons p ps)
  then obtain m ms' where "ms = m # ms'" by (cases ms) auto
  with Cons show ?case by auto
qed simp

lemma dock_chunk_messages:
  assumes "list_all (sendable (ud_obfuscated (ul_decoder s))) ms" and "uvk5_ready (ul_decoder s)"
  shows "\<exists>d. dock_chunk g (concat (map (frame_bytes (ud_obfuscated (ul_decoder s))) ms)) s = fold (link_dispatch g) ms (s\<lparr>ul_decoder := d\<rparr>)"
proof -
  from feed_messages [OF assms] obtain d ps where
    f: "uvk5_feed (ul_decoder s) (concat (map (frame_bytes (ud_obfuscated (ul_decoder s))) ms)) = (d, ps)"
    "map parse_frame ps = map (\<lambda>m. Inr (Some m)) ms" by (elim exE conjE) (rule that)
  have "dock_chunk g (concat (map (frame_bytes (ud_obfuscated (ul_decoder s))) ms)) s = fold (link_dispatch g) ms (s\<lparr>ul_decoder := d\<rparr>)"
    using f(1) dispatch_messages [OF f(2)] by (simp add: dock_chunk_def)
  then show ?thesis by (rule exI)
qed

text \<open>Inside a frame of \<open>n\<close> bytes, up to \<open>n\<close> further bytes deliver nothing.\<close>

lemma feed_inside_frame:
  "ud_stage d = StData \<Longrightarrow> int (length (ud_buf d) + length bs) \<le> ud_size d \<Longrightarrow> snd (uvk5_feed d bs) = []"
proof (induction bs arbitrary: d)
  case Nil
  then show ?case by (simp add: uvk5_feed_def)
next
  case (Cons b bs)
  let ?d = "fst (uvk5_step d b)"
  have d: "snd (uvk5_step d b) = None" using Cons.prems(1) by (simp add: uvk5_step_def Let_def)
  have "snd (uvk5_feed ?d bs) = []"
  proof (cases bs)
    case Nil
    then show ?thesis by (simp add: uvk5_feed_def)
  next
    case (Cons x xs)
    then have "ud_stage ?d = StData" "int (length (ud_buf ?d) + length bs) \<le> ud_size ?d"
      using Cons.prems by (simp_all add: uvk5_step_def Let_def)
    then show ?thesis by (rule Cons.IH)
  qed
  then show ?case using d by (simp add: uvk5_feed_def case_prod_beta)
qed

subsection \<open>Properties\<close>

text \<open>
  C38. At most one request is on the wire: in every interleaving of any number of callers, the readers and
  reconnects, a caller between taking the wire and giving it back is the one that holds it, at most one waiter is
  registered, and it is the holder's, so that no caller can be handed the reply to another's outstanding frame.
\<close>

theorem one_request_on_the_wire:
  assumes "dock_reachable c s"
  shows "(\<forall>t. on_wire (ul_phase s t) \<longleftrightarrow> ul_wire s = Some t) \<and> length (ul_waiters s) \<le> 1
    \<and> (\<forall>t\<in>set (ul_waiters s). ul_wire s = Some t)"
  using dock_reachable_ok [OF assms] by (auto simp: dock_ok_def)

definition example_dock :: uvk5_link_config where
  "example_dock = \<lparr>lk_obfuscate = False, lk_write = (\<lambda>w b. None)\<rparr>"

theorem one_request_on_the_wire_witness:
  "\<not> on_wire (ul_phase (fold (d_exec example_dock) [EBegin 1 (ReadRegisters [0x30]) (reg_match 0x30) 2,
      EBegin 2 (ReadRegisters [0x67]) (reg_match 0x67) 2] (uvk5_link_init example_dock)) 2)"
proof -
  let ?s = "fold (d_exec example_dock) [EBegin 1 (ReadRegisters [0x30]) (reg_match 0x30) 2,
      EBegin 2 (ReadRegisters [0x67]) (reg_match 0x67) 2] (uvk5_link_init example_dock)"
  have r: "dock_reachable example_dock ?s" by (rule dock_reachable_run [OF dock_reachable.start])
  have "ul_wire ?s = Some 1" by (simp add: uvk5_link_init_def begin_request_def Let_def may_begin_def)
  then show ?thesis using one_request_on_the_wire [OF r] by simp
qed

lemma match_kept: "(\<And>m mt d. ev \<noteq> EBegin t m mt d) \<Longrightarrow> wt_match (ul_waiter (d_exec c ev s) t) = wt_match (ul_waiter s t)"
proof (cases ev)
  case (EReaderData g bs)
  then show ?thesis using dock_chunk_step [of s g bs] by (simp add: reader_step_def)
next
  case (EFire m)
  obtain r s1 where "link_send c m s = (r, s1)" by fastforce
  then show ?thesis using EFire link_send_frame by fastforce
next
  case (ESend u)
  show ?thesis
  proof (cases "ul_phase s u")
    case (PRegistered m d)
    obtain r s1 where 1: "link_send c m s = (r, s1)" by fastforce
    then obtain sent where "s1 = s\<lparr>ul_sent := sent\<rparr>" using link_send_frame by blast
    then show ?thesis using ESend PRegistered 1 by (cases r) (simp_all add: send_request_def return_request_def)
  qed (simp_all add: ESend send_request_def)
next
  case (EReconnectFinish opened)
  then show ?thesis by (cases opened) (simp_all add: reconnect_finish_def Let_def)
qed (auto simp: begin_request_def Let_def register_waiter_def wake_request_def return_request_def reconnect_begin_def link_close_def
    split: request_phase.splits option.splits)

lemma match_kept_run:
  "(\<And>m mt d. EBegin t m mt d \<notin> set evs) \<Longrightarrow> wt_match (ul_waiter (fold (d_exec c) evs s) t) = wt_match (ul_waiter s t)"
proof (induction evs arbitrary: s)
  case (Cons ev evs)
  then have "wt_match (ul_waiter (d_exec c ev s) t) = wt_match (ul_waiter s t)" by (intro match_kept) auto
  with Cons show ?case by simp
qed simp

text \<open>
  C39. A register read that returns returns a value of that register: whatever the other callers, the readers and
  reconnects do meanwhile, and whatever arrives, the reply is a register report of the register asked for.
\<close>

theorem register_reads_not_crossed:
  assumes "dock_reachable c s" and "may_begin (ul_phase s t)" and "\<And>m mt d. EBegin t m mt d \<notin> set evs"
    and "s' = fold (d_exec c) (EBegin t (ReadRegisters [reg]) (reg_match reg) timeout # evs) s" and "ul_phase s' t = PReturned (Inr m)"
  shows "\<exists>v. m = RegisterInfo reg v"
proof -
  let ?s1 = "d_exec c (EBegin t (ReadRegisters [reg]) (reg_match reg) timeout) s"
  have s': "s' = fold (d_exec c) evs ?s1" using assms(4) by simp
  have ok: "dock_ok s'" unfolding assms(4) by (rule dock_reachable_ok [OF dock_reachable_run [OF assms(1)]])
  have "wt_match (ul_waiter ?s1 t) = reg_match reg" using assms(2) by (simp add: begin_request_def Let_def)
  then have "wt_match (ul_waiter s' t) = reg_match reg" using match_kept_run [OF assms(3), of c ?s1] s' by simp
  moreover have "wt_match (ul_waiter s' t) m" using ok assms(5) unfolding dock_ok_def by blast
  ultimately have "reg_match reg m" by simp
  then show ?thesis by (cases m) simp_all
qed

text \<open>A reply between the registration and the write: the read returns it, before its own frame is out.\<close>

definition early_reply :: "dock_event list" where
  "early_reply = [ERegister 1, EReaderTop 0, EReaderData 0 (frame_bytes False (RegisterInfo 0x30 7)), ESend 1, EWake 1]"

theorem register_reads_not_crossed_witness:
  "\<exists>v. ul_phase (fold (d_exec example_dock) (EBegin 1 (ReadRegisters [0x30]) (reg_match 0x30) 2 # early_reply)
      (uvk5_link_init example_dock)) 1 = PReturned (Inr (RegisterInfo 0x30 v))"
proof -
  let ?s = "fold (d_exec example_dock) (EBegin 1 (ReadRegisters [0x30]) (reg_match 0x30) 2 # early_reply) (uvk5_link_init example_dock)"
  have i: "dock_reachable example_dock (uvk5_link_init example_dock)" by (rule dock_reachable.start)
  have b: "may_begin (ul_phase (uvk5_link_init example_dock) 1)" by (simp add: uvk5_link_init_def may_begin_def)
  have n: "EBegin 1 m mt d \<notin> set early_reply" for m mt d by (simp add: early_reply_def)
  have "(case ul_phase ?s 1 of PReturned (Inr m) \<Rightarrow> True | _ \<Rightarrow> False)" by code_simp
  then obtain m where m: "ul_phase ?s 1 = PReturned (Inr m)" by (auto split: request_phase.splits sum.splits)
  from register_reads_not_crossed [OF i b n refl m] m show ?thesis by auto
qed

lemma dock_chunk_delivers:
  assumes "uvk5_ready (ul_decoder s)" and "list_all (sendable (ud_obfuscated (ul_decoder s))) (ms @ [m])"
    and "ul_waiters s = [t]" and "wt_result (ul_waiter s t) = None" and "wt_match (ul_waiter s t) m"
    and "\<forall>x\<in>set ms. \<not> wt_match (ul_waiter s t) x"
  shows "let s' = dock_chunk (ul_gen s) (concat (map (frame_bytes (ud_obfuscated (ul_decoder s))) (ms @ [m]))) s in
    wt_result (ul_waiter s' t) = Some m \<and> ul_phase s' = ul_phase s \<and> ul_waiters s' = ul_waiters s \<and> ul_sent s' = ul_sent s
    \<and> ul_closed s' = ul_closed s \<and> ul_error s' = ul_error s \<and> ul_now s' = ul_now s"
proof -
  from dock_chunk_messages [OF assms(2,1)] obtain d where
    d: "dock_chunk (ul_gen s) (concat (map (frame_bytes (ud_obfuscated (ul_decoder s))) (ms @ [m]))) s
      = link_dispatch (ul_gen s) m (fold (link_dispatch (ul_gen s)) ms (s\<lparr>ul_decoder := d\<rparr>))" by fastforce
  have skip: "\<exists>q. fold (link_dispatch (ul_gen s)) xs x = x\<lparr>ul_inbox := q\<rparr>"
    if "\<forall>y\<in>set xs. \<not> wt_match (ul_waiter s t) y" "ul_gen x = ul_gen s" "ul_waiters x = [t]" "ul_waiter x = ul_waiter s" for xs x
    using that
  proof (induction xs arbitrary: x)
    case Nil
    show ?case by (rule exI [of _ "ul_inbox x"]) simp
  next
    case (Cons y ys)
    obtain q where q: "link_dispatch (ul_gen s) y x = x\<lparr>ul_inbox := q\<rparr>"
      using Cons.prems by (auto simp: link_dispatch_def inbox_push_def Let_def)
    have "\<exists>q'. fold (link_dispatch (ul_gen s)) ys (x\<lparr>ul_inbox := q\<rparr>) = (x\<lparr>ul_inbox := q\<rparr>)\<lparr>ul_inbox := q'\<rparr>"
      by (rule Cons.IH) (use Cons.prems in simp_all)
    then show ?case using q by simp
  qed
  have "\<exists>q. fold (link_dispatch (ul_gen s)) ms (s\<lparr>ul_decoder := d\<rparr>) = (s\<lparr>ul_decoder := d\<rparr>)\<lparr>ul_inbox := q\<rparr>"
    by (rule skip) (use assms in simp_all)
  then obtain q where "fold (link_dispatch (ul_gen s)) ms (s\<lparr>ul_decoder := d\<rparr>) = (s\<lparr>ul_decoder := d\<rparr>)\<lparr>ul_inbox := q\<rparr>" by blast
  then show ?thesis using assms d by (simp add: link_dispatch_def Let_def)
qed

text \<open>A read that is answered returns what was answered: once its frame is out, a chunk from the live reader with
  any unsolicited messages and then the report of the register ends the call with that value, even past its deadline.
\<close>

theorem register_read_answered:
  assumes "dock_reachable c s" and "ul_phase s t = PWaiting d" and "ul_waiters s = [t]" and "wt_match (ul_waiter s t) = reg_match reg"
    and "wt_result (ul_waiter s t) = None" and "ul_reader s (ul_gen s) = RReading" and "uvk5_ready (ul_decoder s)"
    and "list_all (sendable (ud_obfuscated (ul_decoder s))) (ms @ [RegisterInfo reg v])" and "\<forall>x\<in>set ms. \<not> reg_match reg x"
  shows "ul_phase (fold (d_exec c) [EReaderData (ul_gen s) (concat (map (frame_bytes (ud_obfuscated (ul_decoder s))) (ms @ [RegisterInfo reg v]))),
     EPass late, EWake t] s) t = PReturned (Inr (RegisterInfo reg v))"
proof -
  have "wt_match (ul_waiter s t) (RegisterInfo reg v)" "\<forall>x\<in>set ms. \<not> wt_match (ul_waiter s t) x" using assms(4,9) by simp_all
  from dock_chunk_delivers [OF assms(7,8,3,5) this] show ?thesis
    using assms(2,6) by (simp add: wake_request_def return_request_def Let_def)
qed

definition waiting_dock :: uvk5_link where
  "waiting_dock = fold (d_exec example_dock) [EReaderTop 0, EBegin 1 (ReadRegisters [0x30]) (reg_match 0x30) 2, ERegister 1, ESend 1]
     (uvk5_link_init example_dock)"

theorem register_read_answered_witness:
  "ul_phase (fold (d_exec example_dock) [EReaderData 0 (frame_bytes False (RegisterInfo 0x65 1) @ frame_bytes False (RegisterInfo 0x30 7)),
     EPass 3, EWake 1] waiting_dock) 1 = PReturned (Inr (RegisterInfo 0x30 7))"
proof -
  have r: "dock_reachable example_dock waiting_dock" unfolding waiting_dock_def by (rule dock_reachable_run [OF dock_reachable.start])
  have f: "frame_of (ReadRegisters [0x30]) False = Inr (frame_bytes False (ReadRegisters [0x30]))" by code_simp
  have w: "ul_phase waiting_dock 1 = PWaiting 2" "ul_waiters waiting_dock = [1]" "wt_match (ul_waiter waiting_dock 1) = reg_match 0x30"
      "wt_result (ul_waiter waiting_dock 1) = None" "ul_reader waiting_dock (ul_gen waiting_dock) = RReading" "ul_gen waiting_dock = 0"
      "ul_decoder waiting_dock = uvk5_init False False"
    using f by (simp_all add: waiting_dock_def uvk5_link_init_def begin_request_def Let_def may_begin_def register_waiter_def send_request_def
        link_send_def link_fault_def example_dock_def)
  have s: "list_all (sendable False) ([RegisterInfo 0x65 1] @ [RegisterInfo 0x30 7])" by code_simp
  show ?thesis
    using register_read_answered [OF r w(1-5), of "[RegisterInfo 0x65 1]" 7 3] s w
    by (simp add: uvk5_init_def uvk5_ready_def del: fold.simps)
qed

text \<open>
  C40. The wire always comes free: from any reachable state in which a caller holds it, that caller's own next
  steps and the passing of its time out end its call and give the wire back, whatever state the reader, the port
  and a close have left.
\<close>

theorem wire_always_released:
  assumes "dock_reachable c s" and "ul_wire s = Some t"
  shows "\<exists>d r. let s' = fold (d_exec c) [ERegister t, ESend t, EPass d, EWake t] s in ul_phase s' t = PReturned r \<and> ul_wire s' = None"
proof -
  have ok: "dock_ok s" by (rule dock_reachable_ok [OF assms(1)])
  have end_wait: "let x' = fold (d_exec c) [EPass (\<bar>d\<bar> + \<bar>ul_now x\<bar>), EWake t] x in (\<exists>r. ul_phase x' t = PReturned r) \<and> ul_wire x' = None"
    if "ul_phase x t = PWaiting d" for x d
    using that by (cases "wt_result (ul_waiter x t)"; cases "ul_error x") (auto simp: wake_request_def return_request_def Let_def max_def)
  have idle: "fold (d_exec c) [EPass d, EWake t] x = x\<lparr>ul_now := ul_now x + max 0 d\<rparr>" if "ul_phase x t = PReturned r" for x d r
    using that by (simp add: wake_request_def)
  let ?s1 = "send_request c t (register_waiter t s)"
  have "(\<exists>d. ul_phase ?s1 t = PWaiting d) \<or> (\<exists>r. ul_phase ?s1 t = PReturned r \<and> ul_wire ?s1 = None)"
  proof -
    have reg: "(\<exists>m d. ul_phase (register_waiter t s) t = PRegistered m d) \<or> (\<exists>d. ul_phase (register_waiter t s) t = PWaiting d)
        \<or> (\<exists>r. ul_phase (register_waiter t s) t = PReturned r \<and> ul_wire (register_waiter t s) = None)"
      using ok assms(2) by (cases "ul_phase s t"; cases "link_fault s")
        (auto simp: register_waiter_def return_request_def dock_ok_def on_wire_def split: request_phase.splits)
    have send: "(\<exists>d. ul_phase (send_request c t x) t = PWaiting d) \<or> (\<exists>r. ul_phase (send_request c t x) t = PReturned r \<and> ul_wire (send_request c t x) = None)"
      if "ul_phase x t = PRegistered m d" for x m d
      using that by (auto simp: send_request_def return_request_def split: prod.splits sum.splits)
    from reg show ?thesis
    proof (elim disjE exE conjE)
      fix m d assume "ul_phase (register_waiter t s) t = PRegistered m d"
      then show ?thesis by (rule send)
    qed (simp_all add: send_request_def)
  qed
  then show ?thesis
  proof (elim disjE exE conjE)
    fix d assume "ul_phase ?s1 t = PWaiting d"
    from end_wait [OF this] show ?thesis by (intro exI [of _ "\<bar>d\<bar> + \<bar>ul_now ?s1\<bar>"]) (simp add: Let_def)
  next
    fix r assume "ul_phase ?s1 t = PReturned r" "ul_wire ?s1 = None"
    with idle [of ?s1 r 0] show ?thesis by (intro exI [of _ 0] exI [of _ r]) (simp add: Let_def)
  qed
qed

theorem wire_always_released_witness:
  "\<exists>d. ul_wire (fold (d_exec example_dock) [ERegister 1, ESend 1, EPass d, EWake 1]
      (d_exec example_dock (EBegin 1 (ReadRegisters [0x30]) (reg_match 0x30) 2) (uvk5_link_init example_dock))) = None"
proof -
  let ?s = "d_exec example_dock (EBegin 1 (ReadRegisters [0x30]) (reg_match 0x30) 2) (uvk5_link_init example_dock)"
  have r: "dock_reachable example_dock ?s" by (rule dock_reachable.step [OF dock_reachable.start])
  have "ul_wire ?s = Some 1" by (simp add: uvk5_link_init_def begin_request_def Let_def may_begin_def)
  from wire_always_released [OF r this] show ?thesis unfolding Let_def by blast
qed

text \<open>A request may be answered by the reply to an earlier frame: a matching message that arrives between its
  registration and its write (the late reply to a request that timed out, say) is what it returns, although its own
  frame was not yet on the wire. Replies carry no identity but their kind and register.
\<close>

theorem late_reply_answers_next_request:
  assumes "ul_phase s t = PRegistered (ReadRegisters [reg]) timeout" and "ul_waiters s = [t]" and "wt_match (ul_waiter s t) = reg_match reg"
    and "wt_result (ul_waiter s t) = None" and "ul_reader s (ul_gen s) = RReading" and "uvk5_ready (ul_decoder s)"
    and "sendable (ud_obfuscated (ul_decoder s)) (RegisterInfo reg v)" and "link_fault s = None"
    and "frame_of (ReadRegisters [reg]) (lk_obfuscate c) = Inr f" and "lk_write c (ul_sent s) f = None"
  shows "let s1 = d_exec c (EReaderData (ul_gen s) (frame_bytes (ud_obfuscated (ul_decoder s)) (RegisterInfo reg v))) s;
             s2 = fold (d_exec c) [ESend t, EWake t] s1
         in ul_sent s1 = ul_sent s \<and> ul_sent s2 = ul_sent s @ [f] \<and> ul_phase s2 t = PReturned (Inr (RegisterInfo reg v))"
proof -
  let ?s1 = "d_exec c (EReaderData (ul_gen s) (frame_bytes (ud_obfuscated (ul_decoder s)) (RegisterInfo reg v))) s"
  have m: "wt_match (ul_waiter s t) (RegisterInfo reg v)" "\<forall>x\<in>set []. \<not> wt_match (ul_waiter s t) x" using assms(3) by simp_all
  have sd: "list_all (sendable (ud_obfuscated (ul_decoder s))) ([] @ [RegisterInfo reg v])" using assms(7) by simp
  from dock_chunk_delivers [OF assms(6) sd assms(2,4) m] have s1: "wt_result (ul_waiter ?s1 t) = Some (RegisterInfo reg v)"
      "ul_phase ?s1 t = PRegistered (ReadRegisters [reg]) timeout" "ul_sent ?s1 = ul_sent s" "link_fault ?s1 = None"
    using assms(1,5,8) by (simp_all add: Let_def link_fault_def split: if_splits)
  have "send_request c t ?s1 = ?s1\<lparr>ul_sent := ul_sent s @ [f], ul_phase := (ul_phase ?s1)(t := PWaiting (ul_now ?s1 + timeout))\<rparr>"
    using s1(2-4) assms(9,10) by (simp add: send_request_def link_send_def del: d_exec.simps)
  then show ?thesis using s1 by (simp add: Let_def wake_request_def return_request_def del: d_exec.simps(7))
qed

theorem late_reply_answers_next_request_witness:
  "ul_phase (fold (d_exec example_dock) (EBegin 1 (ReadRegisters [0x30]) (reg_match 0x30) 2 # early_reply)
      (uvk5_link_init example_dock)) 1 = PReturned (Inr (RegisterInfo 0x30 7))"
proof -
  define s where "s = fold (d_exec example_dock) [EBegin 1 (ReadRegisters [0x30]) (reg_match 0x30) 2, ERegister 1, EReaderTop 0] (uvk5_link_init example_dock)"
  have f: "frame_of (ReadRegisters [0x30]) (lk_obfuscate example_dock) = Inr (frame_bytes False (ReadRegisters [0x30]))" by code_simp
  have w: "ul_phase s 1 = PRegistered (ReadRegisters [0x30]) 2" "ul_waiters s = [1]" "wt_match (ul_waiter s 1) = reg_match 0x30"
      "wt_result (ul_waiter s 1) = None" "ul_reader s (ul_gen s) = RReading" "uvk5_ready (ul_decoder s)" "link_fault s = None"
      "lk_write example_dock (ul_sent s) x = None" "ul_gen s = 0" "ud_obfuscated (ul_decoder s) = False" for x
    by (simp_all add: s_def uvk5_link_init_def begin_request_def Let_def may_begin_def register_waiter_def link_fault_def example_dock_def
        uvk5_init_def uvk5_ready_def)
  have "sendable False (RegisterInfo 0x30 7)" by code_simp
  with late_reply_answers_next_request [OF w(1-6) _ w(7) f w(8), of 7] w(9,10) show ?thesis
    by (simp add: s_def early_reply_def Let_def del: d_exec.simps)
qed

subsection \<open>Reconnects\<close>

lemma stale_dispatch: "g \<noteq> ul_gen s \<Longrightarrow> dispatch_payloads g ps s = s"
proof (induction ps)
  case (Cons p ps)
  then have "link_dispatch g m s = s" for m by (simp add: link_dispatch_def)
  with Cons show ?case by (auto split: sum.splits option.splits)
qed simp

text \<open>A superseded reader is shed: what it reads, or the exception that ends it, changes no waiter, no result, no
  phase, neither the inbox nor the stored error. The decoder, which it still feeds, is all it can touch.
\<close>

theorem stale_reader_is_shed:
  assumes "g \<noteq> ul_gen s"
  shows "(\<exists>d r. d_exec c (EReaderData g bs) s = s\<lparr>ul_decoder := d, ul_reader := r\<rparr>)
    \<and> (\<exists>r. d_exec c (EReaderRaises g e) s = s\<lparr>ul_reader := r\<rparr>)"
proof -
  obtain d ps where "uvk5_feed (ul_decoder s) bs = (d, ps)" by fastforce
  then have "dock_chunk g bs s = s\<lparr>ul_decoder := d\<rparr>" using assms by (simp add: dock_chunk_def stale_dispatch)
  then have "d_exec c (EReaderData g bs) s = (if ul_reader s g = RReading then s\<lparr>ul_decoder := d, ul_reader := (ul_reader s)(g := RTop)\<rparr>
      else s\<lparr>ul_decoder := ul_decoder s, ul_reader := ul_reader s\<rparr>)" by simp
  moreover have "d_exec c (EReaderRaises g e) s = s\<lparr>ul_reader := (if ul_reader s g = RReading then (ul_reader s)(g := REnded) else ul_reader s)\<rparr>"
    using assms by simp
  ultimately show ?thesis by metis
qed

theorem stale_reader_is_shed_witness:
  "ul_error (d_exec example_dock (EReaderRaises 0 RuntimeError)
     ((uvk5_link_init example_dock)\<lparr>ul_gen := 1, ul_reader := (\<lambda>g. RReading)\<rparr>)) = None"
proof -
  let ?s = "(uvk5_link_init example_dock)\<lparr>ul_gen := 1, ul_reader := (\<lambda>g. RReading)\<rparr>"
  have "0 \<noteq> ul_gen ?s" by simp
  from stale_reader_is_shed [OF this, of example_dock "[]" RuntimeError] show ?thesis by (auto simp: uvk5_link_init_def)
qed

text \<open>No reconnect begins while another is under way.\<close>

fun reconnects_apart :: "uvk5_link_config \<Rightarrow> dock_event list \<Rightarrow> uvk5_link \<Rightarrow> bool" where
  "reconnects_apart c [] s \<longleftrightarrow> True"
| "reconnects_apart c (ev # evs) s \<longleftrightarrow> (case ev of EReconnectBegin \<Rightarrow> ul_reopening s = 0 | _ \<Rightarrow> True) \<and> reconnects_apart c evs (d_exec c ev s)"

definition one_reader :: "uvk5_link \<Rightarrow> bool" where
  "one_reader s \<longleftrightarrow> (\<forall>g < ul_gen s. ul_reader s g = REnded) \<and> (\<forall>g > ul_gen s. ul_reader s g = RTop) \<and> ul_reopening s \<le> 1
     \<and> (ul_error s \<noteq> None \<longrightarrow> ul_reader s (ul_gen s) = REnded) \<and> (0 < ul_reopening s \<longrightarrow> ul_reader s (ul_gen s) = REnded)"

lemma one_reader_fields:
  "one_reader s \<Longrightarrow> ul_gen s' = ul_gen s \<Longrightarrow> ul_reader s' = ul_reader s \<Longrightarrow> ul_reopening s' = ul_reopening s \<Longrightarrow> ul_error s' = ul_error s
    \<Longrightarrow> one_reader s'"
  by (simp add: one_reader_def)

text \<open>A caller's step leaves the readers alone.\<close>

lemma caller_steps:
  "ul_gen (d_exec c ev s) = ul_gen s \<and> ul_reader (d_exec c ev s) = ul_reader s \<and> ul_reopening (d_exec c ev s) = ul_reopening s
     \<and> ul_error (d_exec c ev s) = ul_error s"
  if "\<And>g. ev \<noteq> EReaderTop g" "\<And>g b. ev \<noteq> EReaderData g b" "\<And>g e. ev \<noteq> EReaderRaises g e" "ev \<noteq> EReconnectBegin" "\<And>x. ev \<noteq> EReconnectFinish x"
proof (cases ev)
  case (ESend u)
  show ?thesis
  proof (cases "ul_phase s u")
    case (PRegistered m d)
    obtain r s1 where 1: "link_send c m s = (r, s1)" by fastforce
    then obtain sent where "s1 = s\<lparr>ul_sent := sent\<rparr>" using link_send_frame by blast
    then show ?thesis using ESend PRegistered 1 by (cases r) (simp_all add: send_request_def return_request_def)
  qed (simp_all add: ESend send_request_def)
next
  case (EFire m)
  obtain r s1 where 1: "link_send c m s = (r, s1)" by fastforce
  then obtain sent where "s1 = s\<lparr>ul_sent := sent\<rparr>" using link_send_frame by blast
  then show ?thesis using EFire 1 by simp
qed (use that in \<open>auto simp: begin_request_def Let_def register_waiter_def wake_request_def return_request_def link_close_def
    split: request_phase.splits option.splits\<close>)

lemma dispatch_payloads_error: "ul_error (dispatch_payloads g ps s) = ul_error s"
proof (induction g ps s rule: dispatch_payloads.induct)
  case (2 g p ps s)
  have "ul_error (link_dispatch g m s) = ul_error s" for m by (auto simp: link_dispatch_def inbox_push_def Let_def split: option.splits)
  with 2 show ?case by (auto split: sum.splits option.splits)
qed simp

lemma dock_chunk_error: "ul_error (dock_chunk g bs s) = ul_error s"
  by (simp add: dock_chunk_def dispatch_payloads_error case_prod_beta)

lemma one_reader_step:
  assumes "one_reader s" and "case ev of EReconnectBegin \<Rightarrow> ul_reopening s = 0 | _ \<Rightarrow> True"
  shows "one_reader (d_exec c ev s)"
proof (cases ev)
  case (EReaderTop g)
  then show ?thesis using assms(1) by (auto simp: one_reader_def)
next
  case (EReaderData g bs)
  have "ul_gen (dock_chunk g bs s) = ul_gen s" "ul_reopening (dock_chunk g bs s) = ul_reopening s"
    using dock_chunk_step [of s g bs] by (simp_all add: reader_step_def)
  then show ?thesis using assms(1) EReaderData by (auto simp: one_reader_def dock_chunk_error)
next
  case (EReaderRaises g e)
  then show ?thesis using assms(1) by (auto simp: one_reader_def)
next
  case EReconnectBegin
  then show ?thesis using assms by (auto simp: one_reader_def reconnect_begin_def link_alive_def)
next
  case (EReconnectFinish opened)
  then show ?thesis using assms(1) by (cases opened) (auto simp: one_reader_def reconnect_finish_def Let_def less_Suc_eq)
qed (use caller_steps [of ev c s] one_reader_fields [OF assms(1), of "d_exec c ev s"] in simp_all)

lemma one_reader_run: "one_reader s \<Longrightarrow> reconnects_apart c evs s \<Longrightarrow> one_reader (fold (d_exec c) evs s)"
  by (induction evs arbitrary: s) (simp_all add: one_reader_step)

text \<open>With reconnects that do not overlap, the port has one reader: whoever is blocked in a read is the reader of
  the current generation, and a stored error means that this reader has ended, so that it is its own.
\<close>

theorem one_live_reader:
  assumes "s = fold (d_exec c) evs (uvk5_link_init c)" and "reconnects_apart c evs (uvk5_link_init c)"
  shows "(\<forall>g. ul_reader s g = RReading \<longrightarrow> g = ul_gen s) \<and> (ul_error s \<noteq> None \<longrightarrow> ul_reader s (ul_gen s) = REnded)"
proof -
  have "one_reader (uvk5_link_init c)" by (simp add: one_reader_def uvk5_link_init_def)
  from one_reader_run [OF this assms(2)] have "one_reader s" by (simp add: assms(1))
  then show ?thesis unfolding one_reader_def by (metis linorder_neqE_nat reader_phase.distinct(1,5))
qed

definition one_reconnect :: "dock_event list" where
  "one_reconnect = [EReaderTop 0, EReaderRaises 0 RuntimeError, EReconnectBegin, EReconnectFinish None, EReaderTop 1]"

theorem one_live_reader_witness:
  "ul_reader (fold (d_exec example_dock) one_reconnect (uvk5_link_init example_dock)) 0 \<noteq> RReading"
proof -
  have "reconnects_apart example_dock one_reconnect (uvk5_link_init example_dock)"
    by (simp add: one_reconnect_def uvk5_link_init_def reconnect_begin_def link_alive_def)
  moreover have "ul_gen (fold (d_exec example_dock) one_reconnect (uvk5_link_init example_dock)) = 1"
    by (simp add: one_reconnect_def uvk5_link_init_def reconnect_begin_def link_alive_def reconnect_finish_def Let_def)
  ultimately show ?thesis using one_live_reader [OF refl, of example_dock one_reconnect] by auto
qed

text \<open>Two reconnects that overlap leave two readers on the port, and the first one's bytes go into the decoder of
  the second: a header from it makes up to as many bytes of the live reader vanish as it announces.
\<close>

definition overlapping :: "dock_event list" where
  "overlapping = [EReaderTop 0, EReaderRaises 0 RuntimeError, EReconnectBegin, EReconnectBegin, EReconnectFinish None, EReaderTop 1,
     EReconnectFinish None, EReaderTop 2]"

theorem overlapping_reconnects_garble:
  assumes "s = fold (d_exec c) overlapping (uvk5_link_init c)" and "length bs \<le> 200"
  shows "ul_gen s = 2 \<and> ul_reader s 1 = RReading \<and> ul_reader s 2 = RReading \<and>
    (let s' = fold (d_exec c) [EReaderData 1 [0xAB, 0xCD, 200, 0], EReaderData 2 bs] s in ul_waiter s' = ul_waiter s \<and> ul_inbox s' = ul_inbox s)"
proof -
  have s: "ul_gen s = 2" "ul_reader s 1 = RReading" "ul_reader s 2 = RReading" "ul_decoder s = uvk5_init (lk_obfuscate c) False"
    by (simp_all add: assms(1) overlapping_def uvk5_link_init_def reconnect_begin_def link_alive_def reconnect_finish_def Let_def)
  let ?d = "(uvk5_init (lk_obfuscate c) False)\<lparr>ud_stage := StData, ud_size := 200\<rparr>"
  have "uvk5_feed (ul_decoder s) [0xAB, 0xCD, 200, 0] = (?d, [])"
    by (simp add: s uvk5_feed_def uvk5_step_def uvk5_init_def UVK5_PREAMBLE_def MAX_PAYLOAD_SIZE_def Let_def)
  then have 1: "d_exec c (EReaderData 1 [0xAB, 0xCD, 200, 0]) s = s\<lparr>ul_decoder := ?d, ul_reader := (ul_reader s)(1 := RTop)\<rparr>"
    using s by (simp add: dock_chunk_def)
  have "snd (uvk5_feed ?d bs) = []" by (rule feed_inside_frame) (use assms(2) in \<open>simp_all add: uvk5_init_def\<close>)
  then obtain d' where "uvk5_feed ?d bs = (d', [])" by (metis prod.collapse)
  then have "d_exec c (EReaderData 2 bs) (s\<lparr>ul_decoder := ?d, ul_reader := (ul_reader s)(1 := RTop)\<rparr>)
      = s\<lparr>ul_decoder := d', ul_reader := (ul_reader s)(1 := RTop, 2 := RTop)\<rparr>"
    using s by (simp add: dock_chunk_def)
  then show ?thesis using s 1 by (simp add: Let_def del: d_exec.simps)
qed

theorem overlapping_reconnects_garble_witness:
  "ul_inbox (fold (d_exec example_dock) (overlapping @ [EReaderData 1 [0xAB, 0xCD, 200, 0], EReaderData 2 (frame_bytes False (RegisterInfo 0x30 7))])
      (uvk5_link_init example_dock)) = ul_inbox (fold (d_exec example_dock) overlapping (uvk5_link_init example_dock))"
proof -
  have "length (frame_bytes False (RegisterInfo 0x30 7)) \<le> 200" by code_simp
  from overlapping_reconnects_garble [OF refl this, of example_dock] show ?thesis by (simp add: Let_def del: d_exec.simps)
qed

text \<open>A close during a reconnect is undone by it: the reconnect opens the port of the closed transport and starts a
  reader, and closing again does nothing, so that reader is never told to stop.
\<close>

theorem reconnect_outlives_close:
  assumes "0 < ul_reopening s" and "\<not> ul_stop s (ul_gen s + 1)" and "ul_reader s (ul_gen s + 1) = RTop"
  shows "let s' = fold (d_exec c) [EClose, EReconnectFinish None, EReaderTop (ul_gen s + 1), EClose] s in
    ul_closed s' \<and> ul_gen s' = ul_gen s + 1 \<and> ul_reader s' (ul_gen s') = RReading \<and> \<not> ul_stop s' (ul_gen s')"
proof -
  define x where "x = link_close s"
  have x: "ul_closed x" "ul_gen x = ul_gen s" "ul_reopening x = ul_reopening s" "ul_reader x = ul_reader s"
    by (simp_all add: x_def link_close_def)
  define y where "y = snd (reconnect_finish c None x)"
  have y: "ul_closed y" "ul_gen y = ul_gen s + 1" "ul_reader y (ul_gen s + 1) = RTop" "\<not> ul_stop y (ul_gen s + 1)"
    using x assms by (simp_all add: y_def reconnect_finish_def Let_def)
  have "fold (d_exec c) [EClose, EReconnectFinish None, EReaderTop (ul_gen s + 1), EClose] s
      = link_close (y\<lparr>ul_reader := (ul_reader y)(ul_gen s + 1 := RReading)\<rparr>)"
    using y x assms by (simp add: y_def x_def)
  then show ?thesis using y by (simp add: Let_def link_close_def)
qed

theorem reconnect_outlives_close_witness:
  "ul_reader (fold (d_exec example_dock) [EReaderTop 0, EReaderRaises 0 RuntimeError, EReconnectBegin, EClose, EReconnectFinish None,
      EReaderTop 1, EClose] (uvk5_link_init example_dock)) 1 = RReading"
proof -
  define s where "s = fold (d_exec example_dock) [EReaderTop 0, EReaderRaises 0 RuntimeError, EReconnectBegin] (uvk5_link_init example_dock)"
  have "0 < ul_reopening s" "\<not> ul_stop s (ul_gen s + 1)" "ul_reader s (ul_gen s + 1) = RTop" "ul_gen s = 0"
    by (simp_all add: s_def uvk5_link_init_def reconnect_begin_def link_alive_def)
  with reconnect_outlives_close [of s example_dock] show ?thesis by (auto simp: s_def Let_def simp del: d_exec.simps)
qed

subsection \<open>Connecting\<close>

text \<open>
  The probe loop over the outcomes of its requests, each with the time it took; an empty list is a request still
  outstanding. Every time out probes again, any other exception of a request escapes.
\<close>

fun dock_connect :: "real \<Rightarrow> real \<Rightarrow> ((exn + dock_message) \<times> real) list \<Rightarrow> (exn + unit) option" where
  "dock_connect deadline now [] = (if deadline - now \<le> 0 then Some (Inl Uvk5Timeout) else None)"
| "dock_connect deadline now ((r, took) # rs) =
     (if deadline - now \<le> 0 then Some (Inl Uvk5Timeout)
      else case r of Inr m \<Rightarrow> Some (Inr ())
        | Inl e \<Rightarrow> if e = Uvk5Timeout then dock_connect deadline (now + took) rs else Some (Inl e))"

lemma dock_connect_connected:
  "dock_connect deadline now rs = Some (Inr ()) \<Longrightarrow> \<exists>m took. (Inr m, took) \<in> set rs"
  by (induction deadline now rs rule: dock_connect.induct) (auto split: if_splits sum.splits)

lemma dock_connect_ends:
  "deadline \<le> now + sum_list (map snd rs) \<Longrightarrow> dock_connect deadline now rs \<noteq> None"
  by (induction deadline now rs rule: dock_connect.induct) (auto split: sum.splits)

subsection \<open>The inbox\<close>

interpretation dock_inbox: drop_oldest ul_inbox inbox_push "\<lambda>s. length (ul_inbox s) \<le> INBOX_DEPTH" INBOX_DEPTH
proof (unfold_locales, goal_cases)
  case (1 s x)
  then show ?case by (cases "ul_inbox s") (auto simp: inbox_push_def Let_def INBOX_DEPTH_def)
next
  case (2 s x)
  then show ?case by (auto simp: inbox_push_def Let_def)
qed

lemma inbox_keeps_newest: "ul_inbox s = [] \<Longrightarrow> ul_inbox (fold inbox_push ms s) = drop (length ms - INBOX_DEPTH) ms"
  using dock_inbox.pushes_suffix [of s ms] by (simp add: INBOX_DEPTH_def)

end
