(* ===== verification/Kv4pLink.thy ===== *)
theory Kv4pLink
  imports Kiss Kv4pStructs BoundedQueue
begin

unbundle bit_operations_syntax

section \<open>The kv4p serial transport: window, reconciler and handshake\<close>

text \<open>
  \<open>radio_server/backends/kv4p/transport.py\<close>. The device is a script of what the serial line still does:
  \<open>Chunk bs\<close> is what one \<open>read\<close> of the reader thread returns, \<open>ReadFails e\<close> the exception it raises, \<open>Pass d\<close>
  time going by. A caller that blocks on a condition variable consumes the script until what it waits for
  holds, the link failed or its deadline passed; an exhausted script is a silent line. So every timeout is a
  branch, and every wait ends. The bytes of a chunk go through the modelled deframer and dispatch.
  \<open>kl_spent\<close> and \<open>kl_refunded\<close> count the credits taken and given back; they are not read by the code.
  Whether a write to the serial port raises is a function of the configuration. One thread writes at a time;
  port opening, thread start and join and log lines are left out.
\<close>

definition DEFAULT_PASSIVE_WINDOW :: real where "DEFAULT_PASSIVE_WINDOW = 6 / 10"
definition ELICIT_RETRANSMIT_INTERVAL :: real where "ELICIT_RETRANSMIT_INTERVAL = 1 / 4"
definition RESTORE_ACK_TIMEOUT :: real where "RESTORE_ACK_TIMEOUT = 1"
definition CLOSE_ACK_TIMEOUT :: real where "CLOSE_ACK_TIMEOUT = 1 / 2"

datatype line_event = Chunk bytes | ReadFails exn | Pass real

record tx_stats =
  ts_frames :: nat
  ts_opus_sum :: nat
  ts_opus_min :: "nat option"
  ts_opus_max :: "nat option"
  ts_wire_sum :: nat
  ts_blocked :: nat
  ts_min_credits :: "int option"

definition no_stats :: tx_stats where
  "no_stats = \<lparr>ts_frames = 0, ts_opus_sum = 0, ts_opus_min = None, ts_opus_max = None, ts_wire_sum = 0,
     ts_blocked = 0, ts_min_credits = None\<rparr>"

definition record_audio :: "nat \<Rightarrow> nat \<Rightarrow> tx_stats \<Rightarrow> tx_stats" where
  "record_audio opus_len wire_len t =
     t\<lparr>ts_frames := ts_frames t + 1, ts_opus_sum := ts_opus_sum t + opus_len, ts_wire_sum := ts_wire_sum t + wire_len,
       ts_opus_min := Some (case ts_opus_min t of None \<Rightarrow> opus_len | Some m \<Rightarrow> min m opus_len),
       ts_opus_max := Some (case ts_opus_max t of None \<Rightarrow> opus_len | Some m \<Rightarrow> max m opus_len)\<rparr>"

record kv4p_link_config =
  lc_write_timeout :: real
  lc_rx_depth :: nat
  lc_serial_write :: "bytes list \<Rightarrow> bytes \<Rightarrow> exn option"

record kv4p_link =
  kl_line :: "line_event list"
  kl_now :: real
  kl_wire :: "bytes list"
  kl_decoder :: kiss_decoder
  kl_window :: int
  kl_credits :: int
  kl_spent :: int
  kl_refunded :: int
  kl_stats :: tx_stats
  kl_sequence :: int
  kl_applied :: int
  kl_device_state :: "device_state option"
  kl_link_flags :: int
  kl_hello :: "kv4p_hello option"
  kl_rx_audio :: "bytes list"
  kl_rx_drops :: nat
  kl_reader_error :: "exn option"
  kl_closed :: bool

definition link_init :: "int \<Rightarrow> line_event list \<Rightarrow> kv4p_link" where
  "link_init window line =
     \<lparr>kl_line = line, kl_now = 0, kl_wire = [], kl_decoder = kiss_init, kl_window = window, kl_credits = window,
      kl_spent = 0, kl_refunded = 0, kl_stats = no_stats, kl_sequence = 0, kl_applied = 0, kl_device_state = None,
      kl_link_flags = 0, kl_hello = None, kl_rx_audio = [], kl_rx_drops = 0, kl_reader_error = None, kl_closed = False\<rparr>"

subsection \<open>The reader thread\<close>

datatype snd_command = SndUnknown | SndDebugInfo | SndDebugError | SndDebugWarn | SndDebugDebug | SndDebugTrace
  | SndHello | SndRxAudio | SndWindowUpdate | SndDeviceState

definition snd_command_of :: "byte \<Rightarrow> snd_command option" where
  "snd_command_of b = map_of [(0x00, SndUnknown), (0x01, SndDebugInfo), (0x02, SndDebugError), (0x03, SndDebugWarn),
     (0x04, SndDebugDebug), (0x05, SndDebugTrace), (0x06, SndHello), (0x07, SndRxAudio), (0x09, SndWindowUpdate),
     (0x0B, SndDeviceState)] b"

definition push_rx_audio :: "kv4p_link_config \<Rightarrow> bytes \<Rightarrow> kv4p_link \<Rightarrow> kv4p_link" where
  "push_rx_audio c payload s =
     (let full = length (kl_rx_audio s) = lc_rx_depth c; q = kl_rx_audio s @ [payload]
      in s\<lparr>kl_rx_audio := (if full then tl q else q), kl_rx_drops := kl_rx_drops s + of_bool full\<rparr>)"

definition on_device_state :: "bytes \<Rightarrow> (kv4p_link, unit) meth" where
  "on_device_state payload s =
     (case ds_unpack payload of
        Inl e \<Rightarrow> (Inl e, s)
      | Inr d \<Rightarrow> (Inr (), s\<lparr>kl_device_state := Some d, kl_applied := ds_applied_sequence d\<rparr>))"

definition on_hello :: "bytes \<Rightarrow> (kv4p_link, unit) meth" where
  "on_hello payload s =
     (case kv4p_hello_unpack payload of
        Inl e \<Rightarrow> (Inl e, s)
      | Inr h \<Rightarrow>
          (let w = window_size (hello_version h); d = hello_device_state h
           in (Inr (), s\<lparr>kl_hello := Some h, kl_credits := kl_credits s + (w - kl_window s), kl_window := w,
                 kl_device_state := Some d, kl_applied := ds_applied_sequence d\<rparr>)))"

definition on_window_update :: "bytes \<Rightarrow> (kv4p_link, unit) meth" where
  "on_window_update payload s =
     (case window_update_unpack payload of
        Inl e \<Rightarrow> (Inl e, s)
      | Inr n \<Rightarrow> (Inr (), s\<lparr>kl_credits := kl_credits s + n, kl_refunded := kl_refunded s + n\<rparr>))"

definition dispatch_vendor :: "kv4p_link_config \<Rightarrow> byte \<Rightarrow> bytes \<Rightarrow> (kv4p_link, unit) meth" where
  "dispatch_vendor c cmd payload s =
     (case snd_command_of cmd of
        Some SndRxAudio \<Rightarrow> (Inr (), push_rx_audio c payload s)
      | Some SndDeviceState \<Rightarrow> on_device_state payload s
      | Some SndHello \<Rightarrow> on_hello payload s
      | Some SndWindowUpdate \<Rightarrow> on_window_update payload s
      | _ \<Rightarrow> (Inr (), s))"

definition dispatch_frame :: "kv4p_link_config \<Rightarrow> bytes \<Rightarrow> (kv4p_link, unit) meth" where
  "dispatch_frame c frame s =
     (case kiss_parse_frame frame of
        Some (VendorFrame cmd payload) \<Rightarrow> dispatch_vendor c cmd payload s
      | _ \<Rightarrow> (Inr (), s))"

text \<open>One \<open>try\<close> around the loop over the frames of a chunk: a frame that raises ends the loop.\<close>

fun dispatch_all :: "kv4p_link_config \<Rightarrow> bytes list \<Rightarrow> kv4p_link \<Rightarrow> kv4p_link" where
  "dispatch_all c [] s = s"
| "dispatch_all c (f # fs) s =
     (case dispatch_frame c f s of (Inl e, s') \<Rightarrow> s' | (Inr u, s') \<Rightarrow> dispatch_all c fs s')"

definition read_chunk :: "kv4p_link_config \<Rightarrow> bytes \<Rightarrow> kv4p_link \<Rightarrow> kv4p_link" where
  "read_chunk c chunk s =
     (let (d, frames) = kiss_feed (kl_decoder s) chunk in dispatch_all c frames (s\<lparr>kl_decoder := d\<rparr>))"

definition reader_runs :: "kv4p_link \<Rightarrow> bool" where
  "reader_runs s \<longleftrightarrow> kl_reader_error s = None \<and> \<not> kl_closed s"

fun on_line :: "kv4p_link_config \<Rightarrow> line_event \<Rightarrow> kv4p_link \<Rightarrow> kv4p_link" where
  "on_line c (Chunk bs) s = (if reader_runs s then read_chunk c bs s else s)"
| "on_line c (ReadFails e) s = (if reader_runs s then s\<lparr>kl_reader_error := Some e\<rparr> else s)"
| "on_line c (Pass d) s = s\<lparr>kl_now := kl_now s + max 0 d\<rparr>"

subsection \<open>Waiting\<close>

definition raise_if_failed :: "(kv4p_link, unit) meth" where
  "raise_if_failed s = (case kl_reader_error s of None \<Rightarrow> (Inr (), s) | Some e \<Rightarrow> (Inl e, s))"

text \<open>What ends a wait: the condition, the reader's error, a close, the deadline, in the code's order.\<close>

definition settled :: "(kv4p_link \<Rightarrow> bool) \<Rightarrow> real \<Rightarrow> kv4p_link \<Rightarrow> (exn + bool) option" where
  "settled ready deadline s =
     (if ready s then Some (Inr True)
      else case kl_reader_error s of
        Some e \<Rightarrow> Some (Inl e)
      | None \<Rightarrow> if kl_closed s then Some (Inl Kv4pClosed) else if deadline \<le> kl_now s then Some (Inr False) else None)"

text \<open>The loop around \<open>Condition.wait\<close>: whether what is waited for came, or an exception.\<close>

fun await :: "kv4p_link_config \<Rightarrow> (kv4p_link \<Rightarrow> bool) \<Rightarrow> real \<Rightarrow> line_event list \<Rightarrow> (kv4p_link, bool) meth" where
  "await c ready deadline [] s =
     (case settled ready deadline s of
        Some r \<Rightarrow> (r, s\<lparr>kl_line := []\<rparr>)
      | None \<Rightarrow> (Inr False, s\<lparr>kl_now := deadline, kl_line := []\<rparr>))"
| "await c ready deadline (ev # evs) s =
     (case settled ready deadline s of
        Some r \<Rightarrow> (r, s\<lparr>kl_line := ev # evs\<rparr>)
      | None \<Rightarrow>
          (case ev of
             Pass d \<Rightarrow>
               if deadline \<le> kl_now s + d
               then (Inr False, s\<lparr>kl_now := deadline, kl_line := Pass (kl_now s + d - deadline) # evs\<rparr>)
               else await c ready deadline evs (on_line c ev s)
           | _ \<Rightarrow> await c ready deadline evs (on_line c ev s)))"

definition wait_for :: "kv4p_link_config \<Rightarrow> (kv4p_link \<Rightarrow> bool) \<Rightarrow> real \<Rightarrow> (kv4p_link, bool) meth" where
  "wait_for c ready timeout s = await c ready (kl_now s + timeout) (kl_line s) s"

subsection \<open>Writing through the window\<close>

definition lowest :: "int option \<Rightarrow> int \<Rightarrow> int option" where
  "lowest m n = (case m of None \<Rightarrow> Some n | Some k \<Rightarrow> Some (if n < k then n else k))"

definition write_frame :: "kv4p_link_config \<Rightarrow> bytes \<Rightarrow> (kv4p_link, unit) meth" where
  "write_frame c built s =
     (let need = int (length built);
          s0 = s\<lparr>kl_stats := (kl_stats s)\<lparr>ts_min_credits := lowest (ts_min_credits (kl_stats s)) (kl_credits s)\<rparr>\<rparr>;
          blocked = (kl_credits s < need)
      in case wait_for c (\<lambda>s. need \<le> kl_credits s) (lc_write_timeout c) s0 of
           (Inl e, s1) \<Rightarrow> (Inl e, s1)
         | (Inr False, s1) \<Rightarrow> (Inl Kv4pTimeout, s1)
         | (Inr True, s1) \<Rightarrow>
             (let s2 = s1\<lparr>kl_stats := (kl_stats s1)\<lparr>ts_blocked := ts_blocked (kl_stats s1) + of_bool blocked\<rparr>,
                          kl_credits := kl_credits s1 - need, kl_spent := kl_spent s1 + need\<rparr>
              in case lc_serial_write c (kl_wire s2) built of
                   Some e \<Rightarrow> (Inl e, s2)
                 | None \<Rightarrow> (Inr (), s2\<lparr>kl_wire := kl_wire s2 @ [built]\<rparr>)))"

definition HOST_TX_AUDIO :: int where "HOST_TX_AUDIO = 0x07"
definition HOST_DESIRED_STATE :: int where "HOST_DESIRED_STATE = 0x0D"

definition send_desired_state :: "kv4p_link_config \<Rightarrow> host_desired_state \<Rightarrow> (kv4p_link, int) meth" where
  "send_desired_state c state =
     andthen raise_if_failed (\<lambda>_ s.
       let seq = kl_sequence s + 1; s1 = s\<lparr>kl_sequence := seq\<rparr>;
           outgoing = state\<lparr>hds_sequence := seq, hds_flags := hds_flags state OR kl_link_flags s\<rparr>
       in case hds_pack outgoing of
            Inl e \<Rightarrow> (Inl e, s1)
          | Inr payload \<Rightarrow> andthen (write_frame c (build_vendor_frame HOST_DESIRED_STATE payload)) (\<lambda>_. returning seq) s1)"

definition send_tx_audio :: "kv4p_link_config \<Rightarrow> bytes \<Rightarrow> (kv4p_link, unit) meth" where
  "send_tx_audio c packet =
     andthen raise_if_failed (\<lambda>_.
       let built = build_vendor_frame HOST_TX_AUDIO packet in
       andthen (modifying (\<lambda>s. s\<lparr>kl_stats := record_audio (length packet) (length built) (kl_stats s)\<rparr>))
         (\<lambda>_. write_frame c built))"

definition reset_tx_stats :: "kv4p_link \<Rightarrow> kv4p_link" where
  "reset_tx_stats s = s\<lparr>kl_stats := no_stats\<rparr>"

definition await_applied :: "kv4p_link_config \<Rightarrow> int \<Rightarrow> real \<Rightarrow> (kv4p_link, device_state) meth" where
  "await_applied c seq timeout =
     andthen (wait_for c (\<lambda>s. seq \<le> kl_applied s) timeout) (\<lambda>ok s.
       if \<not> ok then (Inl Kv4pTimeout, s)
       else case kl_device_state s of None \<Rightarrow> (Inl AssertionError, s) | Some d \<Rightarrow> (Inr d, s))"

subsection \<open>The handshake\<close>

definition session_acknowledged :: "kv4p_link \<Rightarrow> bool" where
  "session_acknowledged s \<longleftrightarrow>
     (case kl_device_state s of None \<Rightarrow> False | Some d \<Rightarrow> ds_flags d AND device_flag_value DsEnableStatusReports \<noteq> 0)"

definition wait_for_ack :: "kv4p_link_config \<Rightarrow> real \<Rightarrow> (kv4p_link, device_state option) meth" where
  "wait_for_ack c window =
     andthen (wait_for c session_acknowledged window) (\<lambda>ok s. (Inr (if ok then kl_device_state s else None), s))"

definition ELICIT_STATE :: host_desired_state where
  "ELICIT_STATE = \<lparr>hds_sequence = 0, hds_memory_id = 0, hds_flags = 0, hds_bw = 0, hds_freq_tx = 0, hds_freq_rx = 0,
     hds_ctcss_tx = 0, hds_squelch = 0, hds_ctcss_rx = 0\<rparr>"

definition echo_state :: "device_state \<Rightarrow> int \<Rightarrow> host_desired_state" where
  "echo_state d flags = \<lparr>hds_sequence = 0, hds_memory_id = ds_memory_id d, hds_flags = flags, hds_bw = ds_bw d,
     hds_freq_tx = ds_freq_tx d, hds_freq_rx = ds_freq_rx d, hds_ctcss_tx = ds_ctcss_tx d, hds_squelch = ds_squelch d,
     hds_ctcss_rx = ds_ctcss_rx d\<rparr>"

definition restore_state :: "device_state \<Rightarrow> host_desired_state" where
  "restore_state d = echo_state d
     (host_flag_value HsRadioConfigValid OR host_flag_value HsHighPower OR host_flag_value HsRssiEnabled)"

definition ptt_off_echo :: "device_state \<Rightarrow> host_desired_state" where
  "ptt_off_echo d = echo_state d
     (ds_flags d AND NOT (device_flag_value DsPhysPttDown OR device_flag_value DsTxActive OR device_flag_value DsSquelched)
        AND NOT (host_flag_value HsPttRequested))"

text \<open>One pass of the elicit loop: the probe, then a wait of at most the retransmit interval.\<close>

definition elicit_once :: "kv4p_link_config \<Rightarrow> real \<Rightarrow> (kv4p_link, device_state option) meth" where
  "elicit_once c deadline s =
     andthen (send_desired_state c ELICIT_STATE)
       (\<lambda>_. wait_for_ack c (min ELICIT_RETRANSMIT_INTERVAL (deadline - kl_now s))) s"

subsection \<open>Time only goes forward, and every wait ends\<close>

lemma on_device_state_now [simp]: "kl_now (snd (on_device_state p s)) = kl_now s"
  by (simp add: on_device_state_def split: sum.splits)

lemma on_hello_now [simp]: "kl_now (snd (on_hello p s)) = kl_now s"
  by (simp add: on_hello_def Let_def split: sum.splits)

lemma on_window_update_now [simp]: "kl_now (snd (on_window_update p s)) = kl_now s"
  by (simp add: on_window_update_def split: sum.splits)

lemma dispatch_frame_now [simp]: "kl_now (snd (dispatch_frame c f s)) = kl_now s"
  by (auto simp: dispatch_frame_def dispatch_vendor_def push_rx_audio_def Let_def
      split: option.splits kiss_message.splits snd_command.splits)

lemma dispatch_all_now [simp]: "kl_now (dispatch_all c fs s) = kl_now s"
proof (induction fs arbitrary: s)
  case (Cons f fs)
  obtain r s' where f: "dispatch_frame c f s = (r, s')" by fastforce
  then have "kl_now s' = kl_now s" using dispatch_frame_now [of c f s] by simp
  then show ?case using Cons f by (cases r) simp_all
qed simp

lemma on_line_now: "kl_now s \<le> kl_now (on_line c ev s)"
  by (cases ev) (auto simp: read_chunk_def split: prod.splits)

lemma await_now:
  "await c ready deadline evs s = (r, s') \<Longrightarrow>
     kl_now s \<le> kl_now s' \<and> kl_now s' \<le> max deadline (kl_now s) \<and> (r = Inr False \<longrightarrow> deadline \<le> kl_now s')"
proof (induction evs arbitrary: s)
  case Nil
  then show ?case by (auto simp: settled_def split: if_splits option.splits)
next
  case (Cons ev evs)
  show ?case
  proof (cases "settled ready deadline s")
    case (Some r')
    then show ?thesis using Cons.prems by (auto simp: settled_def split: if_splits option.splits)
  next
    case None
    then have open': "kl_now s < deadline" by (auto simp: settled_def split: if_splits option.splits)
    show ?thesis
    proof (cases "\<exists>d. ev = Pass d \<and> deadline \<le> kl_now s + d")
      case True
      then show ?thesis using Cons.prems None open' by auto
    next
      case False
      then have "await c ready deadline evs (on_line c ev s) = (r, s')" using Cons.prems None by (cases ev) auto
      from Cons.IH [OF this] have ih: "kl_now (on_line c ev s) \<le> kl_now s'" "kl_now s' \<le> max deadline (kl_now (on_line c ev s))"
        "r = Inr False \<longrightarrow> deadline \<le> kl_now s'" by auto
      have "kl_now (on_line c ev s) \<le> deadline"
        using False open' by (cases ev) (auto simp: read_chunk_def split: prod.splits)
      then show ?thesis using ih on_line_now [of s c ev] open' by auto
    qed
  qed
qed

lemma wait_for_now:
  assumes "wait_for c ready w s = (r, s')"
  shows "kl_now s \<le> kl_now s'" "r = Inr False \<Longrightarrow> kl_now s + w \<le> kl_now s'"
  using await_now [OF assms [unfolded wait_for_def]] by auto

text \<open>A property that the reader keeps, and that does not look at the script or the clock, survives a wait.\<close>

definition line_stable :: "kv4p_link_config \<Rightarrow> (kv4p_link \<Rightarrow> bool) \<Rightarrow> bool" where
  "line_stable c I \<longleftrightarrow> (\<forall>ev s. I s \<longrightarrow> I (on_line c ev s)) \<and> (\<forall>s l. I s \<longrightarrow> I (s\<lparr>kl_line := l\<rparr>)) \<and> (\<forall>s t. I s \<longrightarrow> I (s\<lparr>kl_now := t\<rparr>))"

lemma await_stable:
  assumes "line_stable c I"
  shows "I s \<Longrightarrow> await c ready deadline evs s = (r, s') \<Longrightarrow> I s'"
proof (induction evs arbitrary: s)
  case Nil
  then show ?case using assms by (auto simp: line_stable_def split: option.splits)
next
  case (Cons ev evs)
  have st: "I (on_line c ev s)" "I (s\<lparr>kl_line := l\<rparr>)" "I (s\<lparr>kl_now := x, kl_line := l\<rparr>)" for l x
    using assms Cons.prems(1) unfolding line_stable_def by blast+
  have "(\<exists>l. s' = s\<lparr>kl_line := l\<rparr>) \<or> (\<exists>x l. s' = s\<lparr>kl_now := x, kl_line := l\<rparr>) \<or> await c ready deadline evs (on_line c ev s) = (r, s')"
    using Cons.prems(2) by (cases ev) (auto split: option.splits if_splits)
  then show ?case using st Cons.IH [OF st(1)] by blast
qed

lemma wait_for_stable: "line_stable c I \<Longrightarrow> I s \<Longrightarrow> wait_for c ready w s = (r, s') \<Longrightarrow> I s'"
  unfolding wait_for_def by (rule await_stable)

lemma wait_for_True:
  assumes "wait_for c ready w s = (Inr True, s')" and "\<And>s l. ready (s\<lparr>kl_line := l\<rparr>) = ready s"
  shows "ready s'"
proof -
  have "await c ready d evs s = (Inr True, s') \<Longrightarrow> ready s'" for d evs
  proof (induction evs arbitrary: s)
    case Nil
    then show ?case using assms(2) by (auto simp: settled_def split: option.splits if_splits)
  next
    case (Cons ev evs)
    then show ?case using assms(2) by (cases ev) (auto simp: settled_def split: option.splits if_splits)
  qed
  then show ?thesis using assms(1) by (simp add: wait_for_def)
qed

lemma write_frame_now:
  assumes "write_frame c built s = (r, s')"
  shows "kl_now s \<le> kl_now s'"
proof -
  let ?s0 = "s\<lparr>kl_stats := (kl_stats s)\<lparr>ts_min_credits := lowest (ts_min_credits (kl_stats s)) (kl_credits s)\<rparr>\<rparr>"
  obtain r1 s1 where w: "wait_for c (\<lambda>s. int (length built) \<le> kl_credits s) (lc_write_timeout c) ?s0 = (r1, s1)" by fastforce
  have "kl_now s' = kl_now s1"
    using assms w by (auto simp: write_frame_def Let_def split: sum.splits bool.splits option.splits)
  then show ?thesis using wait_for_now(1) [OF w] by simp
qed

lemma send_desired_state_now:
  assumes "send_desired_state c h s = (r, s')"
  shows "kl_now s \<le> kl_now s'"
proof -
  have "s' = s \<or> (\<exists>q. s' = s\<lparr>kl_sequence := q\<rparr>) \<or> (\<exists>b q r'. write_frame c b (s\<lparr>kl_sequence := q\<rparr>) = (r', s'))"
    using assms by (auto simp: send_desired_state_def raise_if_failed_def andthen_def Let_def split: option.splits sum.splits prod.splits)
  then show ?thesis using write_frame_now by fastforce
qed

lemma wait_for_ack_now:
  assumes "wait_for_ack c w s = (r, s')"
  shows "kl_now s \<le> kl_now s'" "r = Inr None \<Longrightarrow> kl_now s + w \<le> kl_now s'"
proof -
  obtain r1 s1 where w: "wait_for c session_acknowledged w s = (r1, s1)" by fastforce
  have s': "s' = s1" using assms w by (cases r1) (auto simp: wait_for_ack_def)
  have "r = Inr None \<Longrightarrow> r1 = Inr False"
  proof -
    assume r: "r = Inr None"
    then obtain b where b: "r1 = Inr b" using assms w by (cases r1) (auto simp: wait_for_ack_def)
    have "session_acknowledged s1" if "b"
      using wait_for_True [of c session_acknowledged w s s1] w b that by (simp add: session_acknowledged_def)
    then show "r1 = Inr False" using r assms w b by (cases b) (auto simp: wait_for_ack_def session_acknowledged_def)
  qed
  then show "kl_now s \<le> kl_now s'" "r = Inr None \<Longrightarrow> kl_now s + w \<le> kl_now s'"
    using wait_for_now [OF w] s' by auto
qed

lemma elicit_once_now:
  assumes "elicit_once c deadline s = (Inr None, s')"
  shows "kl_now s + min ELICIT_RETRANSMIT_INTERVAL (deadline - kl_now s) \<le> kl_now s'"
proof -
  obtain r1 s1 where 1: "send_desired_state c ELICIT_STATE s = (r1, s1)" by fastforce
  have "wait_for_ack c (min ELICIT_RETRANSMIT_INTERVAL (deadline - kl_now s)) s1 = (Inr None, s')"
    using assms 1 by (cases r1) (auto simp: elicit_once_def)
  from wait_for_ack_now(2) [OF this] send_desired_state_now(1) [OF 1] show ?thesis by simp
qed

subsection \<open>The elicit loop terminates\<close>

lemma fewer_steps:
  fixes x :: real
  assumes "y \<le> max 0 (x - 1)" and "0 < x"
  shows "nat \<lceil>y\<rceil> < nat \<lceil>x\<rceil>"
proof -
  have "\<lceil>y\<rceil> \<le> max 0 (\<lceil>x\<rceil> - 1)"
  proof (cases "y \<le> 0")
    case True
    then show ?thesis by (simp add: le_max_iff_disj)
  next
    case False
    then have "y \<le> x - 1" using assms(1) by (simp add: max_def split: if_splits)
    then have "\<lceil>y\<rceil> \<le> \<lceil>x - 1\<rceil>" by (rule ceiling_mono)
    then show ?thesis by simp
  qed
  then show ?thesis using assms(2) by simp
qed

lemma elicit_once_fewer:
  assumes "elicit_once c deadline s = (Inr None, s1)" and "\<not> deadline \<le> kl_now s"
  shows "nat \<lceil>(deadline - kl_now s1) / ELICIT_RETRANSMIT_INTERVAL\<rceil> < nat \<lceil>(deadline - kl_now s) / ELICIT_RETRANSMIT_INTERVAL\<rceil>"
proof -
  have "(deadline - kl_now s1) * 4 \<le> max 0 ((deadline - kl_now s) * 4 - 1)"
    using elicit_once_now [OF assms(1)] by (auto simp: ELICIT_RETRANSMIT_INTERVAL_def min_def max_def split: if_splits)
  moreover have "0 < (deadline - kl_now s) * 4" using assms(2) by simp
  ultimately show ?thesis using fewer_steps by (simp add: ELICIT_RETRANSMIT_INTERVAL_def)
qed

function elicit :: "kv4p_link_config \<Rightarrow> real \<Rightarrow> (kv4p_link, device_state) meth" where
  "elicit c deadline s =
     (if deadline \<le> kl_now s then (Inl Kv4pTimeout, s)
      else case elicit_once c deadline s of
        (Inl e, s1) \<Rightarrow> (Inl e, s1)
      | (Inr (Some d), s1) \<Rightarrow> (Inr d, s1)
      | (Inr None, s1) \<Rightarrow> elicit c deadline s1)"
  by pat_completeness auto

termination
proof (relation "measure (\<lambda>(c, deadline, s). nat \<lceil>(deadline - kl_now s) / ELICIT_RETRANSMIT_INTERVAL\<rceil>)", goal_cases)
  case (2 c deadline s x s1 y)
  then have "elicit_once c deadline s = (Inr None, s1)" by simp
  from elicit_once_fewer [OF this 2(1)] show ?case by (simp only: in_measure prod.case)
qed simp

declare elicit.simps [simp del]

definition connect_link :: "kv4p_link_config \<Rightarrow> real \<Rightarrow> (kv4p_link, device_state) meth" where
  "connect_link c timeout s =
     (let s0 = s\<lparr>kl_link_flags := kl_link_flags s OR host_flag_value HsEnableStatusReports\<rparr>
      in andthen (wait_for_ack c (min DEFAULT_PASSIVE_WINDOW timeout)) (\<lambda>st s1.
           case st of
             Some d \<Rightarrow> (Inr d, s1\<lparr>kl_sequence := ds_applied_sequence d\<rparr>)
           | None \<Rightarrow>
               andthen (elicit c (kl_now s1 + timeout)) (\<lambda>d.
                 andthen (modifying (\<lambda>s. s\<lparr>kl_sequence := ds_applied_sequence d\<rparr>)) (\<lambda>_.
                   andthen (send_desired_state c (restore_state d)) (\<lambda>seq. await_applied c seq RESTORE_ACK_TIMEOUT))) s1) s0)"

definition read_audio :: "kv4p_link \<Rightarrow> bytes option \<times> kv4p_link" where
  "read_audio s = (case kl_rx_audio s of [] \<Rightarrow> (None, s) | p # q \<Rightarrow> (Some p, s\<lparr>kl_rx_audio := q\<rparr>))"

definition close_link :: "kv4p_link_config \<Rightarrow> kv4p_link \<Rightarrow> kv4p_link" where
  "close_link c s =
     (if kl_closed s then s
      else (case kl_device_state s of
              None \<Rightarrow> s
            | Some d \<Rightarrow> snd (andthen (send_desired_state c (ptt_off_echo d))
                          (\<lambda>seq. await_applied c seq CLOSE_ACK_TIMEOUT) s))\<lparr>kl_closed := True\<rparr>)"

subsection \<open>The window\<close>

definition window_ok :: "kv4p_link \<Rightarrow> bool" where
  "window_ok s \<longleftrightarrow> kl_credits s = kl_window s - kl_spent s + kl_refunded s
     \<and> int (sum_list (map length (kl_wire s))) \<le> kl_spent s"

text \<open>What the reader leaves alone.\<close>

definition reader_frame :: "kv4p_link \<Rightarrow> kv4p_link \<Rightarrow> bool" where
  "reader_frame s s' \<longleftrightarrow> kl_wire s' = kl_wire s \<and> kl_sequence s' = kl_sequence s \<and> kl_link_flags s' = kl_link_flags s
     \<and> kl_spent s' = kl_spent s \<and> kl_closed s' = kl_closed s \<and> (window_ok s \<longrightarrow> window_ok s')"

lemma reader_frame_refl [simp]: "reader_frame s s"
  by (simp add: reader_frame_def)

lemma reader_frame_trans: "reader_frame s s1 \<Longrightarrow> reader_frame s1 s2 \<Longrightarrow> reader_frame s s2"
  by (auto simp: reader_frame_def)

lemma dispatch_frame_frame: "reader_frame s (snd (dispatch_frame c f s))"
proof -
  have "reader_frame s (snd (on_device_state p s))" "reader_frame s (snd (on_hello p s))"
    "reader_frame s (snd (on_window_update p s))" "reader_frame s (push_rx_audio c p s)" for p
    by (auto simp: on_device_state_def on_hello_def on_window_update_def push_rx_audio_def reader_frame_def window_ok_def Let_def
        split: sum.splits)
  then show ?thesis
    by (auto simp: dispatch_frame_def dispatch_vendor_def split: option.splits kiss_message.splits snd_command.splits)
qed

lemma dispatch_all_frame: "reader_frame s (dispatch_all c fs s)"
proof (induction fs arbitrary: s)
  case (Cons f fs)
  obtain r s1 where f: "dispatch_frame c f s = (r, s1)" by fastforce
  then have "reader_frame s s1" using dispatch_frame_frame [of s c f] by simp
  then show ?case using Cons.IH [of s1] f reader_frame_trans by (cases r) auto
qed simp

lemma on_line_frame: "reader_frame s (on_line c ev s)"
proof (cases ev)
  case (Chunk bs)
  obtain d frames where k: "kiss_feed (kl_decoder s) bs = (d, frames)" by fastforce
  have "reader_frame s (s\<lparr>kl_decoder := d\<rparr>)" by (simp add: reader_frame_def window_ok_def)
  then show ?thesis using Chunk k reader_frame_trans [OF _ dispatch_all_frame] by (simp add: read_chunk_def)
qed (auto simp: reader_frame_def window_ok_def)

lemma reader_frame_stable: "line_stable c (reader_frame s)"
proof -
  have "reader_frame x (x\<lparr>kl_line := l\<rparr>)" "reader_frame x (x\<lparr>kl_now := t\<rparr>)" for x l t
    by (simp_all add: reader_frame_def window_ok_def)
  then show ?thesis unfolding line_stable_def using reader_frame_trans on_line_frame by blast
qed

lemma wait_for_frame: "wait_for c ready w s = (r, s') \<Longrightarrow> reader_frame s s'"
  by (rule wait_for_stable [OF reader_frame_stable reader_frame_refl])

lemma wait_for_ack_frame: "wait_for_ack c w s = (r, s') \<Longrightarrow> reader_frame s s'"
  unfolding wait_for_ack_def andthen_def by (auto split: prod.splits sum.splits dest: wait_for_frame)

lemma await_applied_frame: "await_applied c q w s = (r, s') \<Longrightarrow> reader_frame s s'"
  unfolding await_applied_def andthen_def by (auto split: prod.splits sum.splits if_splits option.splits dest: wait_for_frame)

text \<open>One frame through the window: written whole and covered by credit, or not written at all.\<close>

lemma write_frame_cases:
  assumes "write_frame c built s = (r, s')"
  shows "kl_sequence s' = kl_sequence s \<and> kl_link_flags s' = kl_link_flags s \<and> kl_closed s' = kl_closed s
    \<and> (window_ok s \<longrightarrow> window_ok s')
    \<and> (if r = Inr () then kl_wire s' = kl_wire s @ [built] \<and> 0 \<le> kl_credits s' else kl_wire s' = kl_wire s)"
proof -
  let ?s0 = "s\<lparr>kl_stats := (kl_stats s)\<lparr>ts_min_credits := lowest (ts_min_credits (kl_stats s)) (kl_credits s)\<rparr>\<rparr>"
  obtain r1 s1 where w: "wait_for c (\<lambda>s. int (length built) \<le> kl_credits s) (lc_write_timeout c) ?s0 = (r1, s1)" by fastforce
  note fr = wait_for_frame [OF w]
  have s0: "window_ok s \<longrightarrow> window_ok ?s0" by (simp add: window_ok_def)
  consider e where "r1 = Inl e" | "r1 = Inr False" | "r1 = Inr True" by (metis (full_types) sum.exhaust)
  then show ?thesis
  proof cases
    case 3
    have room: "int (length built) \<le> kl_credits s1" using wait_for_True [OF w [unfolded 3]] by simp
    show ?thesis using assms w 3 fr s0 room
      by (auto simp: write_frame_def Let_def reader_frame_def window_ok_def split: option.splits)
  qed (use assms w fr s0 in \<open>auto simp: write_frame_def Let_def reader_frame_def\<close>)
qed

definition state_frame :: "host_desired_state \<Rightarrow> bytes \<Rightarrow> bool" where
  "state_frame h frame \<longleftrightarrow> (\<exists>payload. hds_pack h = Inr payload \<and> frame = build_vendor_frame HOST_DESIRED_STATE payload)"

lemma send_desired_state_cases:
  assumes "send_desired_state c h s = (r, s')"
  shows "kl_link_flags s' = kl_link_flags s \<and> kl_closed s' = kl_closed s \<and> (window_ok s \<longrightarrow> window_ok s')
    \<and> (case r of
         Inl e \<Rightarrow> kl_wire s' = kl_wire s
       | Inr q \<Rightarrow> q = kl_sequence s + 1 \<and> kl_sequence s' = q
           \<and> (\<exists>f. kl_wire s' = kl_wire s @ [f]
               \<and> state_frame (h\<lparr>hds_sequence := q, hds_flags := hds_flags h OR kl_link_flags s\<rparr>) f))"
proof (cases "kl_reader_error s")
  case (Some e)
  then show ?thesis using assms by (auto simp: send_desired_state_def raise_if_failed_def)
next
  case None
  define s1 where "s1 = s\<lparr>kl_sequence := kl_sequence s + 1\<rparr>"
  have s1: "kl_link_flags s1 = kl_link_flags s" "kl_closed s1 = kl_closed s" "window_ok s1 = window_ok s" "kl_wire s1 = kl_wire s"
    "kl_sequence s1 = kl_sequence s + 1" by (simp_all add: s1_def window_ok_def)
  let ?h = "h\<lparr>hds_sequence := kl_sequence s + 1, hds_flags := hds_flags h OR kl_link_flags s\<rparr>"
  show ?thesis
  proof (cases "hds_pack ?h")
    case (Inl e)
    then show ?thesis using assms None s1 by (auto simp: send_desired_state_def raise_if_failed_def Let_def s1_def [symmetric])
  next
    case (Inr payload)
    obtain r2 s2 where w: "write_frame c (build_vendor_frame HOST_DESIRED_STATE payload) s1 = (r2, s2)" by fastforce
    have "s' = s2 \<and> r = (case r2 of Inl e \<Rightarrow> Inl e | Inr u \<Rightarrow> Inr (kl_sequence s + 1))"
      using assms None Inr w by (cases r2) (auto simp: send_desired_state_def raise_if_failed_def Let_def s1_def [symmetric])
    then show ?thesis using write_frame_cases [OF w] s1 Inr by (cases r2) (auto simp: state_frame_def)
  qed
qed

subsection \<open>Connecting\<close>

lemma wait_for_ack_acked:
  assumes "wait_for_ack c w s = (Inr (Some d), s')"
  shows "ds_flags d AND device_flag_value DsEnableStatusReports \<noteq> 0"
proof -
  obtain r1 s1 where w: "wait_for c session_acknowledged w s = (r1, s1)" by fastforce
  have "r1 = Inr True \<and> kl_device_state s1 = Some d"
    using assms w by (cases r1) (auto simp: wait_for_ack_def split: if_splits)
  moreover from this have "session_acknowledged s1"
    using wait_for_True [of c session_acknowledged w s s1] w by (simp add: session_acknowledged_def)
  ultimately show ?thesis by (simp add: session_acknowledged_def)
qed

lemma wait_for_upper: "wait_for c ready w s = (r, s') \<Longrightarrow> kl_now s' \<le> kl_now s + max 0 w"
  unfolding wait_for_def by (drule await_now) auto

lemma wait_for_ack_upper: "wait_for_ack c w s = (r, s') \<Longrightarrow> kl_now s' \<le> kl_now s + max 0 w"
  unfolding wait_for_ack_def andthen_def by (auto split: prod.splits sum.splits dest: wait_for_upper)

lemma await_applied_upper: "await_applied c q w s = (r, s') \<Longrightarrow> kl_now s' \<le> kl_now s + max 0 w"
  unfolding await_applied_def andthen_def by (auto split: prod.splits sum.splits if_splits option.splits dest: wait_for_upper)

lemma write_frame_upper:
  assumes "write_frame c built s = (r, s')"
  shows "kl_now s' \<le> kl_now s + max 0 (lc_write_timeout c)"
proof -
  let ?s0 = "s\<lparr>kl_stats := (kl_stats s)\<lparr>ts_min_credits := lowest (ts_min_credits (kl_stats s)) (kl_credits s)\<rparr>\<rparr>"
  obtain r1 s1 where w: "wait_for c (\<lambda>s. int (length built) \<le> kl_credits s) (lc_write_timeout c) ?s0 = (r1, s1)" by fastforce
  have "kl_now s' = kl_now s1"
    using assms w by (auto simp: write_frame_def Let_def split: sum.splits bool.splits option.splits)
  then show ?thesis using wait_for_upper [OF w] by simp
qed

lemma send_desired_state_upper:
  assumes "send_desired_state c h s = (r, s')"
  shows "kl_now s' \<le> kl_now s + max 0 (lc_write_timeout c)"
proof -
  have "s' = s \<or> (\<exists>q. s' = s\<lparr>kl_sequence := q\<rparr>) \<or> (\<exists>b q r'. write_frame c b (s\<lparr>kl_sequence := q\<rparr>) = (r', s'))"
    using assms by (auto simp: send_desired_state_def raise_if_failed_def andthen_def Let_def split: option.splits sum.splits prod.splits)
  then show ?thesis using write_frame_upper by fastforce
qed

text \<open>An elicit probe on the wire: the neutral state, with the link flags.\<close>

definition is_probe :: "int \<Rightarrow> bytes \<Rightarrow> bool" where
  "is_probe flags f \<longleftrightarrow> (\<exists>q. state_frame (ELICIT_STATE\<lparr>hds_sequence := q, hds_flags := flags\<rparr>) f)"

lemma elicit_once_cases:
  assumes "elicit_once c deadline s = (r, s')"
  shows "kl_link_flags s' = kl_link_flags s \<and> kl_closed s' = kl_closed s \<and> (window_ok s \<longrightarrow> window_ok s')
    \<and> (\<exists>fs. kl_wire s' = kl_wire s @ fs \<and> length fs \<le> 1 \<and> (\<forall>f\<in>set fs. is_probe (kl_link_flags s) f) \<and> ((\<exists>x. r = Inr x) \<longrightarrow> length fs = 1))
    \<and> (\<forall>d. r = Inr (Some d) \<longrightarrow> ds_flags d AND device_flag_value DsEnableStatusReports \<noteq> 0)
    \<and> kl_now s' \<le> kl_now s + max 0 (lc_write_timeout c) + max 0 (min ELICIT_RETRANSMIT_INTERVAL (deadline - kl_now s))"
proof -
  let ?w = "min ELICIT_RETRANSMIT_INTERVAL (deadline - kl_now s)"
  obtain r1 s1 where 1: "send_desired_state c ELICIT_STATE s = (r1, s1)" by fastforce
  note send = send_desired_state_cases [OF 1]
  have now1: "kl_now s1 \<le> kl_now s + max 0 (lc_write_timeout c)"
    using send_desired_state_upper [OF 1] .
  show ?thesis
  proof (cases r1)
    case (Inl e)
    then have "r = Inl e" "s' = s1" using assms 1 by (auto simp: elicit_once_def)
    then show ?thesis using send Inl now1 by (auto intro: exI [of _ "[]"])
  next
    case (Inr q)
    have w: "wait_for_ack c ?w s1 = (r, s')" using assms 1 Inr by (simp add: elicit_once_def)
    note fr = wait_for_ack_frame [OF w]
    obtain f where f: "kl_wire s1 = kl_wire s @ [f]" "is_probe (kl_link_flags s) f"
      using send Inr by (auto simp: is_probe_def ELICIT_STATE_def)
    have ack: "ds_flags d AND device_flag_value DsEnableStatusReports \<noteq> 0" if "r = Inr (Some d)" for d
      using wait_for_ack_acked w that by blast
    have "kl_now s' \<le> kl_now s1 + max 0 ?w" using wait_for_ack_upper [OF w] .
    then show ?thesis using send Inr fr f ack now1
      by (auto simp: reader_frame_def intro!: exI [of _ "[f]"])
  qed
qed

lemma elicit_spec:
  "elicit c deadline s = (r, s') \<Longrightarrow>
     kl_link_flags s' = kl_link_flags s \<and> kl_closed s' = kl_closed s \<and> (window_ok s \<longrightarrow> window_ok s')
     \<and> (\<exists>fs. kl_wire s' = kl_wire s @ fs \<and> (\<forall>f\<in>set fs. is_probe (kl_link_flags s) f)
          \<and> length fs \<le> nat \<lceil>(deadline - kl_now s) / ELICIT_RETRANSMIT_INTERVAL\<rceil> \<and> ((\<exists>d. r = Inr d) \<longrightarrow> fs \<noteq> []))
     \<and> (\<forall>d. r = Inr d \<longrightarrow> ds_flags d AND device_flag_value DsEnableStatusReports \<noteq> 0)
     \<and> kl_now s' \<le> max deadline (kl_now s) + max 0 (lc_write_timeout c)"
proof (induction c deadline s rule: elicit.induct)
  case (1 c deadline s)
  show ?case
  proof (cases "deadline \<le> kl_now s")
    case True
    then show ?thesis using 1(2) by (auto simp: elicit.simps [of c deadline s] intro: exI [of _ "[]"])
  next
    case False
    obtain r1 s1 where o: "elicit_once c deadline s = (r1, s1)" by fastforce
    note once = elicit_once_cases [OF o]
    obtain fs1 where fs1: "kl_wire s1 = kl_wire s @ fs1" "length fs1 \<le> 1" "\<forall>f\<in>set fs1. is_probe (kl_link_flags s) f"
        "(\<exists>x. r1 = Inr x) \<longrightarrow> length fs1 = 1" using once by blast
    have pos: "1 \<le> nat \<lceil>(deadline - kl_now s) / ELICIT_RETRANSMIT_INTERVAL\<rceil>"
      using False by (simp add: ELICIT_RETRANSMIT_INTERVAL_def) linarith
    have now1: "kl_now s1 \<le> max deadline (kl_now s) + max 0 (lc_write_timeout c)"
      using once False by (auto simp: min_def max_def split: if_splits)
    show ?thesis
    proof (cases "r1 = Inr None")
      case True
      have rec: "elicit c deadline s1 = (r, s')" using 1(2) False o True by (simp add: elicit.simps [of c deadline s])
      note ih = 1(1) [OF False o [symmetric] True refl rec]
      obtain fs2 where fs2: "kl_wire s' = kl_wire s1 @ fs2" "\<forall>f\<in>set fs2. is_probe (kl_link_flags s1) f"
          "length fs2 \<le> nat \<lceil>(deadline - kl_now s1) / ELICIT_RETRANSMIT_INTERVAL\<rceil>" using ih by blast
      have len: "length (fs1 @ fs2) \<le> nat \<lceil>(deadline - kl_now s) / ELICIT_RETRANSMIT_INTERVAL\<rceil>"
        unfolding length_append using elicit_once_fewer [OF o [unfolded True] False] fs1(2) fs2(3) by linarith
      have now: "kl_now s' \<le> max deadline (kl_now s) + max 0 (lc_write_timeout c)"
      proof (cases "deadline \<le> kl_now s1")
        case True
        then have "s' = s1" using rec by (simp add: elicit.simps [of c deadline s1])
        then show ?thesis using now1 by simp
      next
        case False
        then show ?thesis using ih by (simp add: max_def split: if_splits)
      qed
      have ne: "fs1 @ fs2 \<noteq> []" using fs1(4) True by auto
      have "kl_wire s' = kl_wire s @ (fs1 @ fs2)" "\<forall>f\<in>set (fs1 @ fs2). is_probe (kl_link_flags s) f"
        using fs1(1,3) fs2(1,2) once by auto
      then have "\<exists>fs. kl_wire s' = kl_wire s @ fs \<and> (\<forall>f\<in>set fs. is_probe (kl_link_flags s) f)
          \<and> length fs \<le> nat \<lceil>(deadline - kl_now s) / ELICIT_RETRANSMIT_INTERVAL\<rceil> \<and> ((\<exists>d. r = Inr d) \<longrightarrow> fs \<noteq> [])"
        using len ne by blast
      moreover have "\<forall>d. r = Inr d \<longrightarrow> ds_flags d AND device_flag_value DsEnableStatusReports \<noteq> 0" using ih by blast
      moreover have "kl_link_flags s' = kl_link_flags s \<and> kl_closed s' = kl_closed s \<and> (window_ok s \<longrightarrow> window_ok s')"
        using once ih by (elim conjE) simp
      ultimately show ?thesis using now by argo
    next
      case done': False
      then have "s' = s1 \<and> r = (case r1 of Inl e \<Rightarrow> Inl e | Inr d \<Rightarrow> Inr (the d))"
        using 1(2) False o by (auto simp: elicit.simps [of c deadline s] split: sum.splits option.splits)
      then show ?thesis using once fs1 pos now1 done' by (cases r1) auto
    qed
  qed
qed

definition STATUS_FLAG :: int where "STATUS_FLAG = host_flag_value HsEnableStatusReports"

text \<open>How a connect went: a passive one, or probes, then the restore of what the board reported.\<close>

lemma connect_link_cases:
  assumes "connect_link c timeout s = (r, s')"
  shows "(\<exists>fs. kl_wire s' = kl_wire s @ fs \<and> length fs \<le> nat \<lceil>4 * timeout\<rceil> + 1
       \<and> (\<forall>d. r = Inr d \<longrightarrow> fs = [] \<or>
            (\<exists>probes a p. fs = probes @ [p] \<and> probes \<noteq> [] \<and> (\<forall>f\<in>set probes. is_probe (kl_link_flags s OR STATUS_FLAG) f)
               \<and> ds_flags a AND device_flag_value DsEnableStatusReports \<noteq> 0
               \<and> state_frame ((restore_state a)\<lparr>hds_sequence := ds_applied_sequence a + 1,
                    hds_flags := hds_flags (restore_state a) OR (kl_link_flags s OR STATUS_FLAG)\<rparr>) p)))
     \<and> kl_link_flags s' = kl_link_flags s OR STATUS_FLAG \<and> (window_ok s \<longrightarrow> window_ok s')
     \<and> kl_now s' \<le> kl_now s + max 0 (min DEFAULT_PASSIVE_WINDOW timeout) + max 0 timeout + 2 * max 0 (lc_write_timeout c) + RESTORE_ACK_TIMEOUT"
proof -
  define s0 where "s0 = s\<lparr>kl_link_flags := kl_link_flags s OR STATUS_FLAG\<rparr>"
  have s0: "kl_link_flags s0 = kl_link_flags s OR STATUS_FLAG" "kl_wire s0 = kl_wire s" "kl_now s0 = kl_now s" "window_ok s0 = window_ok s"
    by (simp_all add: s0_def window_ok_def)
  obtain r1 s1 where 1: "wait_for_ack c (min DEFAULT_PASSIVE_WINDOW timeout) s0 = (r1, s1)" by fastforce
  note f1 = wait_for_ack_frame [OF 1, unfolded reader_frame_def] and n1 = wait_for_ack_upper [OF 1]
  have c0: "connect_link c timeout s = andthen (wait_for_ack c (min DEFAULT_PASSIVE_WINDOW timeout)) (\<lambda>st s1.
           case st of
             Some d \<Rightarrow> (Inr d, s1\<lparr>kl_sequence := ds_applied_sequence d\<rparr>)
           | None \<Rightarrow>
               andthen (elicit c (kl_now s1 + timeout)) (\<lambda>d.
                 andthen (modifying (\<lambda>s. s\<lparr>kl_sequence := ds_applied_sequence d\<rparr>)) (\<lambda>_.
                   andthen (send_desired_state c (restore_state d)) (\<lambda>seq. await_applied c seq RESTORE_ACK_TIMEOUT))) s1) s0"
    by (simp add: connect_link_def s0_def STATUS_FLAG_def)
  show ?thesis
  proof (cases "r1 = Inr None")
    case False
    then have "(\<exists>e. r = Inl e) \<and> s' = s1 \<or> (\<exists>x. s' = s1\<lparr>kl_sequence := x\<rparr>)"
      using assms c0 1 by (cases r1) auto
    then have "kl_wire s' = kl_wire s \<and> kl_link_flags s' = kl_link_flags s OR STATUS_FLAG \<and> (window_ok s \<longrightarrow> window_ok s') \<and> kl_now s' = kl_now s1"
      using f1 s0 by (auto simp: window_ok_def)
    then show ?thesis using n1 s0 by (auto simp: RESTORE_ACK_TIMEOUT_def)
  next
    case True
    obtain r2 s2 where 2: "elicit c (kl_now s1 + timeout) s1 = (r2, s2)" by fastforce
    note f2 = elicit_spec [OF 2]
    obtain fs where fs: "kl_wire s2 = kl_wire s1 @ fs" "\<forall>f\<in>set fs. is_probe (kl_link_flags s1) f"
        "length fs \<le> nat \<lceil>4 * timeout\<rceil>" "(\<exists>d. r2 = Inr d) \<longrightarrow> fs \<noteq> []"
      using f2 by (auto simp: ELICIT_RETRANSMIT_INTERVAL_def mult.commute)
    have n2: "kl_now s2 \<le> kl_now s1 + max 0 timeout + max 0 (lc_write_timeout c)" using f2 by (simp add: max_def split: if_splits)
    show ?thesis
    proof (cases r2)
      case (Inl e)
      then have "r = Inl e \<and> s' = s2" using assms c0 1 2 True by simp
      then show ?thesis using f1 f2 fs n1 n2 s0 by (auto simp: RESTORE_ACK_TIMEOUT_def)
    next
      case (Inr a)
      have acked: "ds_flags a AND device_flag_value DsEnableStatusReports \<noteq> 0" using f2 Inr by blast
      define s2' where "s2' = s2\<lparr>kl_sequence := ds_applied_sequence a\<rparr>"
      have s2': "kl_wire s2' = kl_wire s2" "kl_link_flags s2' = kl_link_flags s2" "kl_now s2' = kl_now s2"
        "window_ok s2' = window_ok s2" "kl_sequence s2' = ds_applied_sequence a" by (simp_all add: s2'_def window_ok_def)
      obtain r3 s3 where 3: "send_desired_state c (restore_state a) s2' = (r3, s3)" by fastforce
      note f3 = send_desired_state_cases [OF 3] and n3 = send_desired_state_upper [OF 3]
      show ?thesis
      proof (cases r3)
        case e: (Inl e)
        then have "r = Inl e \<and> s' = s3" using assms c0 1 2 3 True Inr by (simp add: s2'_def)
        then show ?thesis using f1 f2 f3 fs n1 n2 n3 s0 s2' e by (auto simp: RESTORE_ACK_TIMEOUT_def)
      next
        case q: (Inr q)
        have 4: "await_applied c q RESTORE_ACK_TIMEOUT s3 = (r, s')"
          using assms c0 1 2 3 True Inr q by (simp add: s2'_def)
        note f4 = await_applied_frame [OF 4, unfolded reader_frame_def] and n4 = await_applied_upper [OF 4]
        have flags: "kl_link_flags s2 = kl_link_flags s OR STATUS_FLAG" using f1 f2 s0 by simp
        obtain p where p: "kl_wire s3 = kl_wire s2 @ [p]" "state_frame ((restore_state a)\<lparr>hds_sequence := ds_applied_sequence a + 1,
                    hds_flags := hds_flags (restore_state a) OR (kl_link_flags s OR STATUS_FLAG)\<rparr>) p"
          using f3 q s2' flags by auto
        have "kl_wire s' = kl_wire s @ (fs @ [p])" using f4 p f1 fs s0 by simp
        moreover have "fs \<noteq> []" "\<forall>f\<in>set fs. is_probe (kl_link_flags s OR STATUS_FLAG) f" using fs Inr f1 s0 by auto
        ultimately show ?thesis using f1 f2 f3 f4 fs(3) n1 n2 n3 n4 s0 s2' p(2) acked
          by (intro conjI exI [of _ "fs @ [p]"]) (auto simp: RESTORE_ACK_TIMEOUT_def)
      qed
    qed
  qed
qed

lemmas connect_link_wire = connect_link_cases [THEN conjunct1]
lemmas connect_link_now = connect_link_cases [THEN conjunct2, THEN conjunct2, THEN conjunct2]

subsection \<open>Every sequence of calls\<close>

datatype link_op =
    SendState host_desired_state
  | SendAudio bytes
  | AwaitApplied int real
  | ConnectLink real
  | ReadAudio
  | ResetStats
  | CloseLink

fun l_exec :: "kv4p_link_config \<Rightarrow> link_op \<Rightarrow> kv4p_link \<Rightarrow> kv4p_link" where
  "l_exec c (SendState h) s = snd (send_desired_state c h s)"
| "l_exec c (SendAudio p) s = snd (send_tx_audio c p s)"
| "l_exec c (AwaitApplied q w) s = snd (await_applied c q w s)"
| "l_exec c (ConnectLink w) s = snd (connect_link c w s)"
| "l_exec c ReadAudio s = snd (read_audio s)"
| "l_exec c ResetStats s = reset_tx_stats s"
| "l_exec c CloseLink s = close_link c s"

lemma send_tx_audio_window: "window_ok s \<Longrightarrow> window_ok (snd (send_tx_audio c p s))"
proof (cases "kl_reader_error s")
  case None
  assume ok: "window_ok s"
  define s1 where "s1 = s\<lparr>kl_stats := record_audio (length p) (length (build_vendor_frame HOST_TX_AUDIO p)) (kl_stats s)\<rparr>"
  have "window_ok s1" using ok by (simp add: s1_def window_ok_def)
  moreover obtain r s2 where 2: "write_frame c (build_vendor_frame HOST_TX_AUDIO p) s1 = (r, s2)" by fastforce
  ultimately show ?thesis using None write_frame_cases [OF 2]
    by (simp add: send_tx_audio_def raise_if_failed_def Let_def s1_def [symmetric])
qed (simp add: send_tx_audio_def raise_if_failed_def)

lemma close_link_cases:
  assumes "kl_link_flags s AND host_flag_value HsPttRequested = 0"
  shows "kl_closed (close_link c s) \<and> (window_ok s \<longrightarrow> window_ok (close_link c s))
     \<and> (kl_wire (close_link c s) = kl_wire s \<or>
        (\<exists>d q flags f. kl_device_state s = Some d \<and> kl_wire (close_link c s) = kl_wire s @ [f]
           \<and> state_frame ((echo_state d flags)\<lparr>hds_sequence := q\<rparr>) f \<and> flags AND host_flag_value HsPttRequested = 0))"
proof (cases "kl_closed s")
  case True
  then show ?thesis by (simp add: close_link_def)
next
  case open': False
  show ?thesis
  proof (cases "kl_device_state s")
    case None
    then show ?thesis using open' by (simp add: close_link_def window_ok_def)
  next
    case (Some d)
    obtain r1 s1 where 1: "send_desired_state c (ptt_off_echo d) s = (r1, s1)" by fastforce
    note f1 = send_desired_state_cases [OF 1]
    show ?thesis
    proof (cases r1)
      case (Inl e)
      then have "close_link c s = s1\<lparr>kl_closed := True\<rparr>" using open' Some 1 by (simp add: close_link_def)
      then show ?thesis using f1 Inl by (auto simp: window_ok_def)
    next
      case (Inr q)
      obtain r2 s2 where 2: "await_applied c q CLOSE_ACK_TIMEOUT s1 = (r2, s2)" by fastforce
      note f2 = await_applied_frame [OF 2, unfolded reader_frame_def]
      have c: "close_link c s = s2\<lparr>kl_closed := True\<rparr>" using open' Some 1 2 Inr by (simp add: close_link_def)
      let ?flags = "hds_flags (ptt_off_echo d) OR kl_link_flags s"
      have "?flags AND host_flag_value HsPttRequested = 0"
        using assms by (simp add: ptt_off_echo_def echo_state_def bit.conj_disj_distrib2 and.assoc and.left_commute)
      moreover obtain f where "kl_wire s1 = kl_wire s @ [f]" "state_frame ((ptt_off_echo d)\<lparr>hds_sequence := q, hds_flags := ?flags\<rparr>) f"
        using f1 Inr by auto
      moreover have "(ptt_off_echo d)\<lparr>hds_sequence := q, hds_flags := ?flags\<rparr> = (echo_state d ?flags)\<lparr>hds_sequence := q\<rparr>"
        by (simp add: ptt_off_echo_def echo_state_def)
      ultimately show ?thesis using f1 f2 c Some by (auto simp: window_ok_def)
    qed
  qed
qed

lemma close_link_window: "window_ok s \<Longrightarrow> window_ok (close_link c s)"
proof (cases "kl_closed s \<or> kl_device_state s = None")
  case True
  assume "window_ok s"
  then show ?thesis using True by (auto simp: close_link_def window_ok_def)
next
  case False
  assume ok: "window_ok s"
  obtain d where d: "kl_device_state s = Some d" using False by blast
  obtain r1 s1 where 1: "send_desired_state c (ptt_off_echo d) s = (r1, s1)" by fastforce
  have "window_ok s1" using ok send_desired_state_cases [OF 1] by simp
  moreover have "window_ok s2" if "await_applied c q w s1 = (r2, s2)" for q w r2 s2
    using await_applied_frame [OF that] calculation by (simp add: reader_frame_def)
  ultimately have "window_ok (snd (andthen (send_desired_state c (ptt_off_echo d)) (\<lambda>seq. await_applied c seq CLOSE_ACK_TIMEOUT) s))"
    using 1 by (cases r1) (auto, metis prod.collapse)
  then show ?thesis using False d by (simp add: close_link_def window_ok_def)
qed

lemma read_audio_window: "window_ok s \<Longrightarrow> window_ok (snd (read_audio s))"
  by (auto simp: read_audio_def window_ok_def split: list.splits)

lemma reset_tx_stats_window: "window_ok s \<Longrightarrow> window_ok (reset_tx_stats s)"
  by (simp add: reset_tx_stats_def window_ok_def)

lemma l_exec_window: "window_ok s \<Longrightarrow> window_ok (l_exec c op s)"
proof (cases op)
  case (SendState h)
  assume "window_ok s"
  moreover obtain r s' where 1: "send_desired_state c h s = (r, s')" by fastforce
  ultimately show ?thesis using SendState send_desired_state_cases [OF 1] by simp
next
  case (AwaitApplied q w)
  assume "window_ok s"
  moreover obtain r s' where 1: "await_applied c q w s = (r, s')" by fastforce
  ultimately show ?thesis using AwaitApplied await_applied_frame [OF 1] by (simp add: reader_frame_def)
next
  case (ConnectLink w)
  assume "window_ok s"
  moreover obtain r s' where 1: "connect_link c w s = (r, s')" by fastforce
  ultimately show ?thesis using ConnectLink connect_link_cases [OF 1] by simp
qed (simp_all add: send_tx_audio_window close_link_window read_audio_window reset_tx_stats_window)

lemma l_run_window: "window_ok s \<Longrightarrow> window_ok (fold (l_exec c) ops s)"
  by (induction ops arbitrary: s) (simp_all add: l_exec_window)

lemma link_init_window: "window_ok (link_init w line)"
  by (simp add: window_ok_def link_init_def)


definition plain_link :: kv4p_link_config where
  "plain_link = \<lparr>lc_write_timeout = 2, lc_rx_depth = 256, lc_serial_write = (\<lambda>w b. None)\<rparr>"

definition board :: "int \<Rightarrow> int \<Rightarrow> device_state" where
  "board seq flags = \<lparr>ds_applied_sequence = seq, ds_memory_id = 0, ds_flags = flags, ds_bw = 1, ds_freq_tx = 0x43138000,
     ds_freq_rx = 0x43138000, ds_ctcss_tx = 12, ds_squelch = 4, ds_ctcss_rx = 0, ds_radio_module_status = 0, ds_mode = 0,
     ds_last_error = 0, ds_latest_rssi = 90\<rparr>"

definition report :: "int \<Rightarrow> int \<Rightarrow> line_event" where
  "report seq flags = Chunk (build_vendor_frame 0x0B (case ds_pack (board seq flags) of Inl e \<Rightarrow> [] | Inr b \<Rightarrow> b))"



definition slow_board :: kv4p_link where
  "slow_board = link_init 2048 [Pass 1, report 1 0x1000, report 2 0x1019]"




text \<open>Closing sends at most one frame: the board's own last report echoed back, every tuning field unchanged, and
  with PTT not requested. It never raises, and afterwards the transport is closed.
\<close>

theorem close_drops_ptt_keeps_tuning:
  assumes "kl_link_flags s AND host_flag_value HsPttRequested = 0"
  shows "kl_closed (close_link c s) \<and>
    (kl_wire (close_link c s) = kl_wire s \<or>
     (\<exists>d q flags f. kl_device_state s = Some d \<and> kl_wire (close_link c s) = kl_wire s @ [f]
        \<and> state_frame ((echo_state d flags)\<lparr>hds_sequence := q\<rparr>) f \<and> flags AND host_flag_value HsPttRequested = 0))"
  using close_link_cases [OF assms, of c] by argo

theorem close_drops_ptt_keeps_tuning_witness:
  "kl_closed (close_link plain_link (link_init 2048 []))"
  using close_drops_ptt_keeps_tuning [of "link_init 2048 []" plain_link] by (simp add: link_init_def)

subsection \<open>Received audio\<close>

interpretation rxq: counted_drop_oldest kl_rx_audio "push_rx_audio c"
  "\<lambda>s. length (kl_rx_audio s) \<le> lc_rx_depth c \<and> 0 < lc_rx_depth c" "lc_rx_depth c" kl_rx_drops for c
proof (unfold_locales, goal_cases)
  case (1 s x)
  then show ?case by (cases "kl_rx_audio s") (auto simp: push_rx_audio_def Let_def)
next
  case (2 s x)
  then show ?case by (cases "kl_rx_audio s") (auto simp: push_rx_audio_def Let_def)
next
  case (3 s x)
  then show ?case by (auto simp: push_rx_audio_def Let_def)
qed

text \<open>
  A consumer that stops reading loses the oldest packets and only those: after any number of packets the queue
  holds the newest that fit, in order, and the drop counter is the rest.
\<close>

theorem rx_audio_keeps_newest:
  assumes "0 < lc_rx_depth c" and "kl_rx_audio s = []"
  shows "kl_rx_audio (fold (push_rx_audio c) packets s) = drop (length packets - lc_rx_depth c) packets
    \<and> kl_rx_drops (fold (push_rx_audio c) packets s) = kl_rx_drops s + (length packets - lc_rx_depth c)"
  using rxq.pushes_suffix [of s c packets] rxq.pushes_counted [of s c packets] assms by simp

theorem rx_audio_keeps_newest_witness:
  "kl_rx_audio (fold (push_rx_audio (plain_link\<lparr>lc_rx_depth := 2\<rparr>)) [[1], [2], [3]] (link_init 2048 [])) = [[2], [3]]"
  using rx_audio_keeps_newest [of "plain_link\<lparr>lc_rx_depth := 2\<rparr>" "link_init 2048 []" "[[1], [2], [3]]"]
  by (simp add: plain_link_def link_init_def)

subsection \<open>A malformed frame takes its neighbours with it\<close>

text \<open>
  The guard against a malformed frame is around the loop over all frames of one read, not around one frame:
  a device state of the wrong length followed by a window update is harmless when two reads return them, but in
  one read the update is lost, and its credits with it, for good.
\<close>

definition malformed_then_refund :: "bytes \<times> bytes" where
  "malformed_then_refund = (build_vendor_frame 0x0B [], build_vendor_frame 0x09 [100, 0, 0, 0])"

theorem malformed_frame_loses_refund:
  "let (bad, refund) = malformed_then_refund; s = link_init window line in
     kl_credits (read_chunk c refund (read_chunk c bad s)) = window + 100
     \<and> kl_credits (read_chunk c (bad @ refund) s) = window"
proof -
  have one: "kiss_feed kiss_init (fst malformed_then_refund @ snd malformed_then_refund) =
      (kiss_init\<lparr>kd_in_frame := True\<rparr>, [[6, 0x4B, 0x56, 0x34, 0x50, 1, 0x0B], [6, 0x4B, 0x56, 0x34, 0x50, 1, 0x09, 100, 0, 0, 0]])"
    by code_simp
  have bad: "kiss_feed kiss_init (fst malformed_then_refund) = (kiss_init\<lparr>kd_in_frame := True\<rparr>, [[6, 0x4B, 0x56, 0x34, 0x50, 1, 0x0B]])"
    by code_simp
  have refund: "kiss_feed (kiss_init\<lparr>kd_in_frame := True\<rparr>) (snd malformed_then_refund) =
      (kiss_init\<lparr>kd_in_frame := True\<rparr>, [[6, 0x4B, 0x56, 0x34, 0x50, 1, 0x09, 100, 0, 0, 0]])"
    by code_simp
  have p: "kiss_parse_frame [6, 0x4B, 0x56, 0x34, 0x50, 1, 0x0B] = Some (VendorFrame 0x0B [])"
    "kiss_parse_frame [6, 0x4B, 0x56, 0x34, 0x50, 1, 0x09, 100, 0, 0, 0] = Some (VendorFrame 0x09 [100, 0, 0, 0])"
    "ds_unpack [] = Inl StructError" "window_update_unpack [100, 0, 0, 0] = Inr 100"
    by code_simp+
  show ?thesis
    using one bad refund p
    by (simp add: Let_def split_beta read_chunk_def link_init_def dispatch_frame_def dispatch_vendor_def snd_command_of_def
        on_device_state_def on_window_update_def)
qed

end
