(* ===== verification/Kv4pAudio.thy ===== *)
theory Kv4pAudio
  imports Kv4pLink
begin

section \<open>The kv4p transmit audio path: re-blocking and pacing\<close>

text \<open>
  \<open>radio_server/backends/kv4p/audio.py\<close> (\<open>TxAudioEncoder\<close>) and \<open>pacer.py\<close>. PCM is bytes, two to a sample.
  The Opus encoder and the gain are third-party signal processing and parameters: \<open>ec_encode\<close> maps the frames
  encoded so far and the next one to a packet or an exception, \<open>ec_gain\<close> scales samples. \<open>te_done\<close> is the
  history of the frames encoded. The pacer's thread is the sequence of its \<open>tick\<close>s; \<open>pc_running\<close> is false once
  the thread has ended, by \<open>stop\<close> or by an exception that escapes it.
\<close>

definition FRAME_BYTES :: nat where "FRAME_BYTES = 3840"
definition DEFAULT_MAX_BUFFER_BYTES :: nat where "DEFAULT_MAX_BUFFER_BYTES = FRAME_BYTES * 16"

record encoder_config =
  ec_encode :: "bytes list \<Rightarrow> bytes \<Rightarrow> exn + bytes"
  ec_gain :: "bytes \<Rightarrow> bytes"

record tx_encoder =
  te_acc :: bytes
  te_done :: "bytes list"

definition new_encoder :: tx_encoder where "new_encoder = \<lparr>te_acc = [], te_done = []\<rparr>"

definition silence :: "nat \<Rightarrow> bytes" where "silence n = replicate n 0"

subsection \<open>The encoder\<close>

text \<open>The \<open>while\<close> loop of \<open>push\<close>; a packet is only returned if every frame of the push was encoded.\<close>

function encode_whole :: "encoder_config \<Rightarrow> (tx_encoder, bytes list) meth" where
  "encode_whole c e =
     (if FRAME_BYTES \<le> length (te_acc e)
      then (case ec_encode c (te_done e) (take FRAME_BYTES (te_acc e)) of
              Inl x \<Rightarrow> (Inl x, e)
            | Inr p \<Rightarrow>
                (case encode_whole c (e\<lparr>te_acc := drop FRAME_BYTES (te_acc e), te_done := te_done e @ [take FRAME_BYTES (te_acc e)]\<rparr>) of
                   (Inl x, e') \<Rightarrow> (Inl x, e')
                 | (Inr ps, e') \<Rightarrow> (Inr (p # ps), e')))
      else (Inr [], e))"
  by pat_completeness auto

termination
  by (relation "measure (\<lambda>(c, e). length (te_acc e))") (simp_all add: FRAME_BYTES_def)

declare encode_whole.simps [simp del]

definition te_push :: "encoder_config \<Rightarrow> bytes \<Rightarrow> (tx_encoder, bytes list) meth" where
  "te_push c pcm e =
     (if odd (length pcm) then (Inl ValueError, e)
      else encode_whole c (if pcm = [] then e else e\<lparr>te_acc := te_acc e @ ec_gain c pcm\<rparr>))"

definition te_flush :: "encoder_config \<Rightarrow> (tx_encoder, bytes list) meth" where
  "te_flush c e =
     (if te_acc e = [] then (Inr [], e)
      else let padded = te_acc e @ silence (FRAME_BYTES - length (te_acc e)); e1 = e\<lparr>te_acc := []\<rparr>
           in (case ec_encode c (te_done e) padded of
                 Inl x \<Rightarrow> (Inl x, e1)
               | Inr p \<Rightarrow> (Inr [p], e1\<lparr>te_done := te_done e @ [padded]\<rparr>)))"

subsection \<open>The pacer\<close>

record tx_pacer =
  pc_buf :: bytes
  pc_dropped :: nat
  pc_running :: bool

definition new_pacer :: tx_pacer where "new_pacer = \<lparr>pc_buf = [], pc_dropped = 0, pc_running = True\<rparr>"

definition pacer_enqueue :: "bytes \<Rightarrow> tx_pacer \<Rightarrow> tx_pacer" where
  "pacer_enqueue pcm p =
     (if pcm = [] then p
      else let b = pc_buf p @ pcm; overflow = length b - DEFAULT_MAX_BUFFER_BYTES
           in p\<lparr>pc_buf := drop overflow b, pc_dropped := pc_dropped p + overflow\<rparr>)"

text \<open>What leaves the buffer for one slot.\<close>

definition next_chunk :: "tx_pacer \<Rightarrow> bytes \<times> tx_pacer" where
  "next_chunk p =
     (if FRAME_BYTES \<le> length (pc_buf p)
      then (take FRAME_BYTES (pc_buf p), p\<lparr>pc_buf := drop FRAME_BYTES (pc_buf p)\<rparr>)
      else (silence FRAME_BYTES, p))"

text \<open>\<open>_emit\<close>: a closed transport stops the pacer, a starved window skips the packet, anything else escapes.\<close>

fun pacer_emit :: "kv4p_link_config \<Rightarrow> bytes list \<Rightarrow> (kv4p_link \<times> tx_pacer, unit) meth" where
  "pacer_emit c [] s = (Inr (), s)"
| "pacer_emit c (packet # ps) (l, p) =
     (case send_tx_audio c packet l of
        (Inr u, l') \<Rightarrow> pacer_emit c ps (l', p)
      | (Inl e, l') \<Rightarrow>
          if e = Kv4pClosed then (Inr (), (l', p\<lparr>pc_running := False\<rparr>))
          else if e = Kv4pTimeout then pacer_emit c ps (l', p)
          else (Inl e, (l', p)))"

text \<open>One slot. An exception that leaves \<open>tick\<close> ends the thread.\<close>

definition pacer_tick :: "kv4p_link_config \<Rightarrow> encoder_config \<Rightarrow> kv4p_link \<times> tx_pacer \<times> tx_encoder \<Rightarrow> kv4p_link \<times> tx_pacer \<times> tx_encoder" where
  "pacer_tick lc ec = (\<lambda>(l, p, e).
     if \<not> pc_running p then (l, p, e)
     else let (chunk, p1) = next_chunk p in
       (case te_push ec chunk e of
          (Inl x, e1) \<Rightarrow> (l, p1\<lparr>pc_running := False\<rparr>, e1)
        | (Inr packets, e1) \<Rightarrow>
            (case pacer_emit lc packets (l, p1) of
               (Inr u, (l2, p2)) \<Rightarrow> (l2, p2, e1)
             | (Inl x, (l2, p2)) \<Rightarrow> (l2, p2\<lparr>pc_running := False\<rparr>, e1))))"

text \<open>\<open>flush_tail\<close> runs on the caller's thread, so what escapes it reaches the caller.\<close>

definition flush_tail :: "kv4p_link_config \<Rightarrow> encoder_config \<Rightarrow> (kv4p_link \<times> tx_pacer \<times> tx_encoder, unit) meth" where
  "flush_tail lc ec = (\<lambda>(l, p, e).
     (case (if pc_buf p = [] then (Inr [], e) else te_push ec (pc_buf p) e) of
        (Inl x, e1) \<Rightarrow> (Inl x, (l, p\<lparr>pc_buf := []\<rparr>, e1))
      | (Inr packets, e1) \<Rightarrow>
          (case pacer_emit lc packets (l, p\<lparr>pc_buf := []\<rparr>) of
             (Inl x, (l2, p2)) \<Rightarrow> (Inl x, (l2, p2, e1))
           | (Inr u, (l2, p2)) \<Rightarrow>
               (case te_flush ec e1 of
                  (Inl x, e2) \<Rightarrow> (Inl x, (l2, p2, e2))
                | (Inr tail, e2) \<Rightarrow>
                    (case pacer_emit lc tail (l2, p2) of
                       (Inl x, (l3, p3)) \<Rightarrow> (Inl x, (l3, p3, e2))
                     | (Inr u, (l3, p3)) \<Rightarrow> (Inr (), (l3, p3, e2)))))))"

text \<open>What every \<open>send_tx_audio\<close> keeps, the pacer keeps.\<close>

lemma pacer_emit_inv:
  assumes "\<forall>x l r l'. send_tx_audio lc x l = (r, l') \<longrightarrow> I l \<longrightarrow> I l'"
  shows "I l \<Longrightarrow> pacer_emit lc ps (l, p) = (r, (l', p')) \<Longrightarrow> I l'"
proof (induction ps arbitrary: l p)
  case (Cons x ps)
  obtain r1 l1 where 1: "send_tx_audio lc x l = (r1, l1)" by fastforce
  have ok1: "I l1" using assms 1 Cons.prems(1) by blast
  have "l' = l1 \<or> (\<exists>q. pacer_emit lc ps (l1, q) = (r, (l', p')))"
    using Cons.prems(2) 1 by (auto split: sum.splits if_splits)
  then show ?case using ok1 Cons.IH by blast
qed simp

lemma pacer_tick_inv:
  assumes "\<forall>x l r l'. send_tx_audio lc x l = (r, l') \<longrightarrow> I l \<longrightarrow> I l'" and "I l" and "pacer_tick lc ec (l, p, e) = (l', p', e')"
  shows "I l'"
proof -
  have "l' = l \<or> (\<exists>ps q r q'. pacer_emit lc ps (l, q) = (r, (l', q')))"
    using assms(3) by (auto simp: pacer_tick_def Let_def split: if_splits prod.splits sum.splits)
  then show ?thesis using pacer_emit_inv [OF assms(1)] assms(2) by blast
qed

lemma flush_tail_inv:
  assumes inv: "\<forall>x l r l'. send_tx_audio lc x l = (r, l') \<longrightarrow> I l \<longrightarrow> I l'" and ok: "I l"
    and "flush_tail lc ec (l, p, e) = (r, (l', p', e'))"
  shows "I l'"
proof -
  let ?q = "p\<lparr>pc_buf := []\<rparr>"
  obtain r1 e1 where 1: "(if pc_buf p = [] then (Inr [], e) else te_push ec (pc_buf p) e) = (r1, e1)" by fastforce
  show ?thesis
  proof (cases r1)
    case (Inl x)
    then show ?thesis using assms(3) 1 ok by (simp add: flush_tail_def)
  next
    case (Inr ps)
    obtain r2 l2 p2 where 2: "pacer_emit lc ps (l, ?q) = (r2, (l2, p2))" by (metis prod.collapse)
    note ok2 = pacer_emit_inv [OF inv ok 2]
    obtain r3 e3 where 3: "te_flush ec e1 = (r3, e3)" by fastforce
    show ?thesis
    proof (cases "(\<exists>x. r2 = Inl x) \<or> (\<exists>x. r3 = Inl x)")
      case True
      then have "l' = l2" using assms(3) 1 2 3 Inr by (auto simp: flush_tail_def split: sum.splits)
      then show ?thesis using ok2 by simp
    next
      case False
      then obtain tail where tail: "r3 = Inr tail" by (cases r3) auto
      obtain r4 l4 p4 where 4: "pacer_emit lc tail (l2, p2) = (r4, (l4, p4))" by (metis prod.collapse)
      have "l' = l4" using assms(3) 1 2 3 4 Inr tail False by (auto simp: flush_tail_def split: sum.splits)
      then show ?thesis using pacer_emit_inv [OF inv ok2 4] by simp
    qed
  qed
qed

subsection \<open>Nothing that is pushed is lost\<close>

lemma encode_whole_ok:
  "encode_whole c e = (Inr ps, e') \<Longrightarrow>
     \<exists>fs. te_done e' = te_done e @ fs \<and> concat fs @ te_acc e' = te_acc e \<and> length ps = length fs
       \<and> (\<forall>f\<in>set fs. length f = FRAME_BYTES) \<and> length (te_acc e') < FRAME_BYTES"
proof (induction c e arbitrary: ps e' rule: encode_whole.induct)
  case (1 c e)
  show ?case
  proof (cases "FRAME_BYTES \<le> length (te_acc e)")
    case False
    then show ?thesis using 1(2) by (auto simp: encode_whole.simps [of c e])
  next
    case True
    let ?f = "take FRAME_BYTES (te_acc e)"
    let ?e = "e\<lparr>te_acc := drop FRAME_BYTES (te_acc e), te_done := te_done e @ [?f]\<rparr>"
    obtain p where p: "ec_encode c (te_done e) ?f = Inr p"
      using 1(2) True by (cases "ec_encode c (te_done e) ?f") (auto simp: encode_whole.simps [of c e])
    obtain r e2 where rec: "encode_whole c ?e = (r, e2)" by fastforce
    obtain qs where qs: "r = Inr qs" "ps = p # qs" "e2 = e'"
      using 1(2) True p rec by (cases r) (auto simp: encode_whole.simps [of c e])
    obtain fs where fs: "te_done e' = te_done ?e @ fs" "concat fs @ te_acc e' = te_acc ?e" "length qs = length fs"
        "\<forall>f\<in>set fs. length f = FRAME_BYTES" "length (te_acc e') < FRAME_BYTES"
      using 1(1) [OF True p] rec qs by blast
    have "concat (?f # fs) @ te_acc e' = te_acc e" using fs(2) by simp
    then show ?thesis using fs qs True by (intro exI [of _ "?f # fs"]) auto
  qed
qed

lemma encode_whole_exact:
  assumes "length (te_acc e) < 2 * FRAME_BYTES" and "FRAME_BYTES \<le> length (te_acc e)" and "encode_whole c e = (Inr ps, e')"
  shows "length ps = 1 \<and> length (te_acc e') = length (te_acc e) - FRAME_BYTES"
proof -
  obtain fs where fs: "concat fs @ te_acc e' = te_acc e" "length ps = length fs" "\<forall>f\<in>set fs. length f = FRAME_BYTES"
      "length (te_acc e') < FRAME_BYTES" using encode_whole_ok [OF assms(3)] by blast
  have l: "length (concat fs) = length fs * FRAME_BYTES" using fs(3) by (induction fs) simp_all
  have t: "length (concat fs) + length (te_acc e') = length (te_acc e)" using fs(1) by (metis length_append)
  show ?thesis
  proof (cases fs)
    case Nil
    then show ?thesis using t fs(4) assms(2) by simp
  next
    case (Cons f gs)
    have "gs = []"
    proof (rule ccontr)
      assume "gs \<noteq> []"
      then have "2 \<le> length fs" using Cons by (cases gs) simp_all
      from mult_le_mono1 [OF this, of FRAME_BYTES] show False using l t assms(1) by linarith
    qed
    then show ?thesis using Cons fs(2) l t by simp
  qed
qed

fun te_pushes :: "encoder_config \<Rightarrow> bytes list \<Rightarrow> (tx_encoder, bytes list) meth" where
  "te_pushes c [] e = (Inr [], e)"
| "te_pushes c (x # xs) e =
     (case te_push c x e of
        (Inl x, e1) \<Rightarrow> (Inl x, e1)
      | (Inr ps, e1) \<Rightarrow> (case te_pushes c xs e1 of (Inl x, e2) \<Rightarrow> (Inl x, e2) | (Inr qs, e2) \<Rightarrow> (Inr (ps @ qs), e2)))"

lemma te_push_ok:
  assumes "te_push c pcm e = (Inr ps, e')" and "ec_gain c [] = []"
  shows "concat (te_done e') @ te_acc e' = concat (te_done e) @ te_acc e @ ec_gain c pcm
    \<and> length (te_done e') = length (te_done e) + length ps \<and> length (te_acc e') < FRAME_BYTES"
proof -
  let ?e = "if pcm = [] then e else e\<lparr>te_acc := te_acc e @ ec_gain c pcm\<rparr>"
  have "encode_whole c ?e = (Inr ps, e')" using assms(1) by (auto simp: te_push_def split: if_splits)
  from encode_whole_ok [OF this] obtain fs where "te_done e' = te_done ?e @ fs" "concat fs @ te_acc e' = te_acc ?e"
      "length ps = length fs" "length (te_acc e') < FRAME_BYTES" by blast
  then show ?thesis using assms(2) by auto
qed

lemma te_pushes_ok:
  "te_pushes c xs e = (Inr ps, e') \<Longrightarrow> ec_gain c [] = [] \<Longrightarrow>
     concat (te_done e') @ te_acc e' = concat (te_done e) @ te_acc e @ concat (map (ec_gain c) xs)
     \<and> length (te_done e') = length (te_done e) + length ps \<and> (length (te_acc e) < FRAME_BYTES \<longrightarrow> length (te_acc e') < FRAME_BYTES)"
proof (induction xs arbitrary: e ps)
  case (Cons x xs)
  obtain r1 e1 where 1: "te_push c x e = (r1, e1)" by fastforce
  obtain qs where q: "r1 = Inr qs" using Cons.prems(1) 1 by (cases r1) auto
  obtain r2 e2 where 2: "te_pushes c xs e1 = (r2, e2)" by fastforce
  obtain qs' where q': "r2 = Inr qs'" "e2 = e'" "ps = qs @ qs'" using Cons.prems(1) 1 2 q by (cases r2) auto
  have p: "concat (te_done e1) @ te_acc e1 = concat (te_done e) @ te_acc e @ ec_gain c x"
    "length (te_done e1) = length (te_done e) + length qs" "length (te_acc e1) < FRAME_BYTES"
    using te_push_ok [OF 1 [unfolded q] Cons.prems(2)] by blast+
  have "te_pushes c xs e1 = (Inr qs', e')" using 2 q' by simp
  from Cons.IH [OF this Cons.prems(2)]
  have ih: "concat (te_done e') @ te_acc e' = concat (te_done e1) @ te_acc e1 @ concat (map (ec_gain c) xs)"
    "length (te_done e') = length (te_done e1) + length qs'" "length (te_acc e') < FRAME_BYTES" using p(3) by blast+
  have "concat (te_done e') @ te_acc e' = (concat (te_done e1) @ te_acc e1) @ concat (map (ec_gain c) xs)" using ih(1) by simp
  also have "\<dots> = concat (te_done e) @ te_acc e @ concat (map (ec_gain c) (x # xs))" unfolding p(1) by simp
  finally show ?case using p ih q' by simp
qed simp

text \<open>The transmit encoder drops nothing: over one keying, the frames it encodes are, put end to end, exactly
  the scaled audio pushed, followed by the silence that completes the last frame, whatever the sizes of the
  pushes; it is fewer zeros than a frame, and there is one packet for each frame.
\<close>

theorem encoder_loses_nothing:
  assumes "te_pushes c xs new_encoder = (Inr ps, e)" and "te_flush c e = (Inr tail, e')" and "ec_gain c [] = []"
  shows "\<exists>n < FRAME_BYTES. concat (te_done e') = concat (map (ec_gain c) xs) @ silence n
    \<and> length (ps @ tail) = length (te_done e') \<and> te_acc e' = []"
proof -
  have p: "concat (te_done e) @ te_acc e = concat (map (ec_gain c) xs)" "length (te_done e) = length ps"
    "length (te_acc e) < FRAME_BYTES"
    using te_pushes_ok [OF assms(1,3)] by (simp_all add: new_encoder_def FRAME_BYTES_def)
  show ?thesis
  proof (cases "te_acc e = []")
    case True
    then have "tail = []" "e' = e" using assms(2) by (auto simp: te_flush_def)
    then show ?thesis using p True by (intro exI [of _ 0]) (auto simp: silence_def FRAME_BYTES_def)
  next
    case False
    let ?n = "FRAME_BYTES - length (te_acc e)"
    have "te_done e' = te_done e @ [te_acc e @ silence ?n] \<and> te_acc e' = [] \<and> length tail = 1"
      using assms(2) False by (auto simp: te_flush_def Let_def split: sum.splits)
    then show ?thesis using p False by (intro exI [of _ ?n]) (auto simp: FRAME_BYTES_def)
  qed
qed

definition plain_encoder :: encoder_config where
  "plain_encoder = \<lparr>ec_encode = (\<lambda>h f. Inr [1]), ec_gain = (\<lambda>b. b)\<rparr>"

theorem encoder_loses_nothing_witness:
  "\<exists>e' n. snd (te_flush plain_encoder (snd (te_pushes plain_encoder [[1, 2], [3, 4]] new_encoder))) = e'
     \<and> concat (te_done e') = [1, 2, 3, 4] @ silence n"
proof -
  have p: "te_pushes plain_encoder [[1, 2], [3, 4]] new_encoder = (Inr [], \<lparr>te_acc = [1, 2, 3, 4], te_done = []\<rparr>)"
    by (simp add: te_push_def plain_encoder_def encode_whole.simps new_encoder_def FRAME_BYTES_def)
  have f: "te_flush plain_encoder \<lparr>te_acc = [1, 2, 3, 4], te_done = []\<rparr> =
      (Inr [[1]], \<lparr>te_acc = [], te_done = [[1, 2, 3, 4] @ silence 3836]\<rparr>)"
    by (simp add: te_flush_def plain_encoder_def FRAME_BYTES_def)
  have "ec_gain plain_encoder [] = []" by (simp add: plain_encoder_def)
  from encoder_loses_nothing [OF p f this] show ?thesis using p f by (auto simp: plain_encoder_def)
qed

text \<open>Whatever sizes the producer enqueues, one slot of the pacer encodes exactly one frame: the oldest whole
  frame of the buffer if there is one and silence otherwise, and the remainder held by the encoder does not
  grow. (The lead-in leaves half a frame in the encoder.)
\<close>

theorem one_packet_per_slot:
  assumes "pc_running p" and "length (te_acc e) < FRAME_BYTES" and "\<And>x. length (ec_gain ec x) = length x"
    and "\<And>h f. \<exists>packet. ec_encode ec h f = Inr packet"
  shows "\<exists>f e'. snd (snd (pacer_tick lc ec (l, p, e))) = e' \<and> te_done e' = te_done e @ [f] \<and> length (te_acc e') = length (te_acc e)
    \<and> f @ te_acc e' = te_acc e @ ec_gain ec (if FRAME_BYTES \<le> length (pc_buf p) then take FRAME_BYTES (pc_buf p) else silence FRAME_BYTES)"
proof -
  obtain chunk p1 where n: "next_chunk p = (chunk, p1)" by fastforce
  have chunk: "chunk = (if FRAME_BYTES \<le> length (pc_buf p) then take FRAME_BYTES (pc_buf p) else silence FRAME_BYTES)"
    and len: "length chunk = FRAME_BYTES" using n by (auto simp: next_chunk_def silence_def split: if_splits)
  let ?e = "e\<lparr>te_acc := te_acc e @ ec_gain ec chunk\<rparr>"
  have push: "te_push ec chunk e = encode_whole ec ?e"
    using len by (auto simp: te_push_def FRAME_BYTES_def)
  have total: "\<exists>ps e'. encode_whole ec e0 = (Inr ps, e')" for e0
  proof (induction "length (te_acc e0)" arbitrary: e0 rule: less_induct)
    case less
    let ?f = "take FRAME_BYTES (te_acc e0)"
    let ?e0 = "e0\<lparr>te_acc := drop FRAME_BYTES (te_acc e0), te_done := te_done e0 @ [?f]\<rparr>"
    obtain packet where pk: "ec_encode ec (te_done e0) ?f = Inr packet" using assms(4) by blast
    show ?case
    proof (cases "FRAME_BYTES \<le> length (te_acc e0)")
      case True
      then have "length (te_acc ?e0) < length (te_acc e0)" by (simp add: FRAME_BYTES_def)
      from less [OF this] obtain ps e' where "encode_whole ec ?e0 = (Inr ps, e')" by blast
      then show ?thesis using True pk by (simp add: encode_whole.simps [of ec e0])
    qed (simp add: encode_whole.simps [of ec e0])
  qed
  then obtain ps e' where w: "encode_whole ec ?e = (Inr ps, e')" by blast
  have "length (te_acc ?e) < 2 * FRAME_BYTES" "FRAME_BYTES \<le> length (te_acc ?e)" using assms(2,3) len by simp_all
  note one = encode_whole_exact [OF this w]
  obtain fs where fs: "te_done e' = te_done ?e @ fs" "concat fs @ te_acc e' = te_acc ?e" "length ps = length fs"
    using encode_whole_ok [OF w] by blast
  obtain f where f: "fs = [f]" using fs(3) one by (cases fs) auto
  have "snd (snd (pacer_tick lc ec (l, p, e))) = e'"
    using assms(1) n push w by (auto simp: pacer_tick_def split: sum.splits prod.splits)
  then show ?thesis using fs f one assms(3) len chunk by auto
qed

theorem one_packet_per_slot_witness:
  "\<exists>f e'. snd (snd (pacer_tick plain_link plain_encoder (link_init 2048 [], new_pacer, new_encoder))) = e' \<and> te_done e' = [f]"
proof -
  have "pc_running new_pacer" "length (te_acc new_encoder) < FRAME_BYTES"
    by (simp_all add: new_pacer_def new_encoder_def FRAME_BYTES_def)
  from one_packet_per_slot [OF this, of plain_encoder plain_link "link_init 2048 []"] show ?thesis
    by (auto simp: plain_encoder_def new_encoder_def)
qed

text \<open>A frame that the window cannot take is skipped and the pacer goes on, but an exception of the serial port
  itself (a write timeout, a dead reader) ends the pacer's thread: no frame leaves after it, whatever is
  enqueued, while the transmitter stays keyed.
\<close>

theorem port_error_ends_pacer:
  assumes "pc_running p" and "te_push ec (fst (next_chunk p)) e = (Inr [packet], e1)"
    and "send_tx_audio lc packet l = (Inl x, l1)"
  shows "(x \<noteq> Kv4pClosed \<and> x \<noteq> Kv4pTimeout \<longrightarrow>
            (let s = pacer_tick lc ec (l, p, e) in \<not> pc_running (fst (snd s)) \<and>
              pacer_tick lc ec (fst s, pacer_enqueue pcm (fst (snd s)), e2) = (fst s, pacer_enqueue pcm (fst (snd s)), e2)))
    \<and> (x = Kv4pTimeout \<longrightarrow> pc_running (fst (snd (pacer_tick lc ec (l, p, e)))))"
proof -
  obtain chunk p1 where n: "next_chunk p = (chunk, p1)" by fastforce
  have run: "pc_running p1" using assms(1) n by (auto simp: next_chunk_def split: if_splits)
  have push: "te_push ec chunk e = (Inr [packet], e1)" using assms(2) n by simp
  have enq: "pc_running (pacer_enqueue pcm q) = pc_running q" for q by (simp add: pacer_enqueue_def Let_def)
  show ?thesis
    using assms(1,3) n push run by (auto simp: pacer_tick_def Let_def enq)
qed

theorem port_error_ends_pacer_witness:
  "\<not> pc_running (fst (snd (pacer_tick (plain_link\<lparr>lc_serial_write := (\<lambda>w b. Some (Fault 1))\<rparr>) plain_encoder
      (link_init 2048 [], new_pacer, new_encoder))))"
proof -
  let ?lc = "plain_link\<lparr>lc_serial_write := (\<lambda>w b. Some (Fault 1))\<rparr>"
  have "pc_running new_pacer" by (simp add: new_pacer_def)
  moreover have "te_push plain_encoder (fst (next_chunk new_pacer)) new_encoder
      = (Inr [[1]], \<lparr>te_acc = [], te_done = [silence FRAME_BYTES]\<rparr>)"
    by (simp add: next_chunk_def new_pacer_def new_encoder_def te_push_def encode_whole.simps plain_encoder_def FRAME_BYTES_def silence_def)
  moreover have "send_tx_audio ?lc [1] (link_init 2048 []) = (Inl (Fault 1), snd (send_tx_audio ?lc [1] (link_init 2048 [])))"
    by (rule prod_eqI) (simp, code_simp, simp)
  ultimately show ?thesis using port_error_ends_pacer by (metis (no_types, lifting) exn.distinct(1) exn.simps)
qed

end
