(* ===== verification/Kv4pRadio.thy ===== *)
theory Kv4pRadio
  imports Kv4pAudio
begin

unbundle bit_operations_syntax

section \<open>The kv4p HT backend\<close>

text \<open>
  \<open>radio_server/backends/kv4p/radio.py\<close> over the modelled transport, encoder and pacer. The complete desired
  state is \<open>kr_desired\<close>; every operation rewrites it and reconciles. Frequencies in the structs are binary32
  bit patterns; \<open>rc_f32\<close> and \<open>rc_f32_value\<close> are the float conversions of the standard library. A tone is a
  real number, its table the code's. The slots of the pacer between two calls are steps of their own. The
  receive side (polling, Opus decoding, rate correction) is left out.
\<close>

definition BW_NARROW_NFM :: int where "BW_NARROW_NFM = 0"
definition BW_WIDE_FM :: int where "BW_WIDE_FM = 1"
definition MODE_TO_BW :: "(string \<times> int) list" where "MODE_TO_BW = [(''FM'', BW_WIDE_FM), (''NFM'', BW_NARROW_NFM)]"
definition BW_TO_MODE :: "(int \<times> string) list" where "BW_TO_MODE = map (\<lambda>(k, v). (v, k)) MODE_TO_BW"
definition FREQ_RASTER_HZ :: int where "FREQ_RASTER_HZ = 2500"
definition TONE_TOLERANCE_HZ :: real where "TONE_TOLERANCE_HZ = 1 / 10"

definition CTCSS_TONES :: "real list" where
  "CTCSS_TONES = map (\<lambda>n. real n / 10)
    [670, 719, 744, 770, 797, 825, 854, 885, 915, 948,
     974, 1000, 1035, 1072, 1109, 1148, 1188, 1230, 1273, 1318,
     1365, 1413, 1462, 1514, 1567, 1622, 1679, 1738, 1799, 1862,
     1928, 2035, 2107, 2181, 2257, 2336, 2418, 2503]"

datatype rf_module_type = SA818_VHF | SA818_UHF

definition rf_module_of :: "int \<Rightarrow> rf_module_type option" where
  "rf_module_of n = (if n = 0 then Some SA818_VHF else if n = 1 then Some SA818_UHF else None)"

fun DEFAULT_FREQ_RANGE :: "rf_module_type \<Rightarrow> int \<times> int" where
  "DEFAULT_FREQ_RANGE SA818_VHF = (134000000, 174000000)"
| "DEFAULT_FREQ_RANGE SA818_UHF = (400000000, 480000000)"

record kv4p_config =
  rc_link :: kv4p_link_config
  rc_enc :: encoder_config
  rc_module :: rf_module_type
  rc_squelch :: int
  rc_high_power :: bool
  rc_tx_allowed :: bool
  rc_lead_bytes :: nat
  rc_connect_timeout :: real
  rc_reconcile_timeout :: real
  rc_f32 :: "real \<Rightarrow> int"
  rc_f32_value :: "int \<Rightarrow> real"

record kv4p_radio =
  kr_link :: kv4p_link
  kr_desired :: host_desired_state
  kr_configured :: bool
  kr_freq_min :: int
  kr_freq_max :: int
  kr_tx :: "tx_encoder option"
  kr_pacer :: "tx_pacer option"
  kr_keyed :: bool
  kr_closed :: bool

definition on_link :: "(kv4p_link, 'a) meth \<Rightarrow> (kv4p_radio, 'a) meth" where
  "on_link m s = (let (r, l) = m (kr_link s) in (r, s\<lparr>kr_link := l\<rparr>))"

definition with_flag :: "host_state_flag \<Rightarrow> bool \<Rightarrow> int \<Rightarrow> int" where
  "with_flag f on flags = (if on then flags OR host_flag_value f else flags AND NOT (host_flag_value f))"

definition set_flag :: "host_state_flag \<Rightarrow> bool \<Rightarrow> kv4p_radio \<Rightarrow> kv4p_radio" where
  "set_flag f on s = s\<lparr>kr_desired := (kr_desired s)\<lparr>hds_flags := with_flag f on (hds_flags (kr_desired s))\<rparr>\<rparr>"

definition reconcile :: "kv4p_config \<Rightarrow> (kv4p_radio, device_state) meth" where
  "reconcile c s =
     andthen (on_link (send_desired_state (rc_link c) (kr_desired s)))
       (\<lambda>seq. on_link (await_applied (rc_link c) seq (rc_reconcile_timeout c))) s"

subsection \<open>Tuning\<close>

definition kv4p_set_frequency :: "kv4p_config \<Rightarrow> int \<Rightarrow> (kv4p_radio, unit) meth" where
  "kv4p_set_frequency c hz s =
     (if \<not> (kr_freq_min s \<le> hz \<and> hz \<le> kr_freq_max s) then (Inl ValueError, s)
      else let quantized = py_round (real_of_int hz / real_of_int FREQ_RASTER_HZ) * FREQ_RASTER_HZ;
               mhz = rc_f32 c (real_of_int quantized / 1000000);
               s1 = set_flag HsRadioConfigValid True (s\<lparr>kr_desired := (kr_desired s)\<lparr>hds_freq_tx := mhz, hds_freq_rx := mhz\<rparr>\<rparr>)
           in andthen (reconcile c) (\<lambda>_. returning ()) (s1\<lparr>kr_configured := True\<rparr>))"

definition tone_to_index :: "real \<Rightarrow> int option" where
  "tone_to_index tone =
     (case filter (\<lambda>(i, hz). \<bar>hz - tone\<bar> \<le> TONE_TOLERANCE_HZ) (enumerate 0 CTCSS_TONES) of
        [] \<Rightarrow> None | (i, hz) # _ \<Rightarrow> Some (int i + 1))"

definition kv4p_set_tone :: "kv4p_config \<Rightarrow> real option \<Rightarrow> (kv4p_radio, unit) meth" where
  "kv4p_set_tone c tone s =
     (case (case tone of None \<Rightarrow> Some 0 | Some t \<Rightarrow> tone_to_index t) of
        None \<Rightarrow> (Inl ValueError, s)
      | Some i \<Rightarrow> andthen (reconcile c) (\<lambda>_. returning ()) (s\<lparr>kr_desired := (kr_desired s)\<lparr>hds_ctcss_tx := i\<rparr>\<rparr>))"

definition kv4p_set_mode :: "kv4p_config \<Rightarrow> string \<Rightarrow> (kv4p_radio, unit) meth" where
  "kv4p_set_mode c upper_mode s =
     (case map_of MODE_TO_BW upper_mode of
        None \<Rightarrow> (Inl ValueError, s)
      | Some bw \<Rightarrow> andthen (reconcile c) (\<lambda>_. returning ()) (s\<lparr>kr_desired := (kr_desired s)\<lparr>hds_bw := bw\<rparr>\<rparr>))"

definition kv4p_set_channel :: "int \<Rightarrow> (kv4p_radio, unit) meth" where
  "kv4p_set_channel n = raising UnsupportedCapability"

definition kv4p_set_split :: "int option \<Rightarrow> (kv4p_radio, unit) meth" where
  "kv4p_set_split tx = raising UnsupportedCapability"

definition kv4p_scan :: "bool \<Rightarrow> (kv4p_radio, unit) meth" where
  "kv4p_scan on = raising NotImplementedError"

subsection \<open>Keying\<close>

text \<open>An operation of the keying's encoder, if there is one.\<close>

definition on_tx :: "(tx_encoder, bytes list) meth \<Rightarrow> (kv4p_radio, bytes list) meth" where
  "on_tx m s = (case kr_tx s of None \<Rightarrow> (Inl AttributeError, s) | Some e \<Rightarrow> (let (r, e') = m e in (r, s\<lparr>kr_tx := Some e'\<rparr>)))"

fun send_blocks :: "kv4p_config \<Rightarrow> bytes list \<Rightarrow> (kv4p_radio, unit) meth" where
  "send_blocks c [] s = (Inr (), s)"
| "send_blocks c (b # bs) s = andthen (on_link (send_tx_audio (rc_link c) b)) (\<lambda>_. send_blocks c bs) s"

definition drop_ptt :: "kv4p_config \<Rightarrow> (kv4p_radio, unit) meth" where
  "drop_ptt c = andthen (modifying (set_flag HsPttRequested False)) (\<lambda>_. andthen (reconcile c) (\<lambda>_. returning ()))"

definition kv4p_key_on :: "kv4p_config \<Rightarrow> (kv4p_radio, unit) meth" where
  "kv4p_key_on c =
     andthen (modifying (\<lambda>s. set_flag HsPttRequested True (s\<lparr>kr_tx := Some new_encoder, kr_link := reset_tx_stats (kr_link s)\<rparr>)))
       (\<lambda>_. andthen (reconcile c)
         (\<lambda>d. if ds_flags d AND device_flag_value DsTxActive = 0
              then andthen (modifying (set_flag HsPttRequested False))
                     (\<lambda>_. andthen (guarded (andthen (reconcile c) (\<lambda>_. returning ())))
                       (\<lambda>_. andthen (modifying (\<lambda>s. s\<lparr>kr_tx := None\<rparr>)) (\<lambda>_. raising Kv4pKeyingError)))
              else if rc_lead_bytes c = 0 then returning ()
              else andthen (on_tx (te_push (rc_enc c) (silence (rc_lead_bytes c)))) (send_blocks c)))"

definition kv4p_key_off :: "kv4p_config \<Rightarrow> (kv4p_radio, unit) meth" where
  "kv4p_key_off c s =
     (if kr_tx s = None then drop_ptt c s
      else andthen (on_tx (te_flush (rc_enc c)))
             (\<lambda>ps. andthen (send_blocks c ps)
               (\<lambda>_. andthen (modifying (\<lambda>s. s\<lparr>kr_tx := None\<rparr>)) (\<lambda>_. drop_ptt c))) s)"

definition key_off_streaming :: "kv4p_config \<Rightarrow> (kv4p_radio, unit) meth" where
  "key_off_streaming c s =
     (case kr_pacer s of
        None \<Rightarrow> andthen (modifying (\<lambda>s. s\<lparr>kr_tx := None\<rparr>)) (\<lambda>_. drop_ptt c) s
      | Some p \<Rightarrow>
          (case kr_tx s of
             None \<Rightarrow> (Inl AttributeError, s\<lparr>kr_pacer := None\<rparr>)
           | Some e \<Rightarrow>
               (case flush_tail (rc_link c) (rc_enc c) (kr_link s, p\<lparr>pc_running := False\<rparr>, e) of
                  (Inl x, (l, p', e')) \<Rightarrow> (Inl x, s\<lparr>kr_pacer := None, kr_link := l, kr_tx := Some e'\<rparr>)
                | (Inr u, (l, p', e')) \<Rightarrow> drop_ptt c (s\<lparr>kr_pacer := None, kr_link := l, kr_tx := None\<rparr>))))"

definition kv4p_ptt :: "kv4p_config \<Rightarrow> bool \<Rightarrow> (kv4p_radio, unit) meth" where
  "kv4p_ptt c on s =
     (if on
      then if kr_keyed s then (Inr (), s)
           else andthen (kv4p_key_on c) (\<lambda>_. modifying (\<lambda>s. s\<lparr>kr_pacer := Some new_pacer, kr_keyed := True\<rparr>)) s
      else if kr_keyed s then andthen (key_off_streaming c) (\<lambda>_. modifying (\<lambda>s. s\<lparr>kr_keyed := False\<rparr>)) s
      else (Inr (), s))"

definition kv4p_transmit :: "kv4p_config \<Rightarrow> bool \<Rightarrow> bytes \<Rightarrow> (kv4p_radio, unit) meth" where
  "kv4p_transmit c canonical pcm s =
     (if \<not> canonical then (Inl AudioFormatMismatch, s)
      else if kr_keyed s
      then (case kr_pacer s of None \<Rightarrow> (Inl AttributeError, s) | Some p \<Rightarrow> (Inr (), s\<lparr>kr_pacer := Some (pacer_enqueue pcm p)\<rparr>))
      else andthen (kv4p_key_on c)
             (\<lambda>_ s1. case andthen (on_tx (te_push (rc_enc c) pcm)) (send_blocks c) s1 of
                 (Inr u, s2) \<Rightarrow> kv4p_key_off c s2
               | (Inl x, s2) \<Rightarrow> andthen (kv4p_key_off c) (\<lambda>_. raising x) s2) s)"

text \<open>A slot of the pacer's thread while the key is held.\<close>

definition pacer_slot :: "kv4p_config \<Rightarrow> kv4p_radio \<Rightarrow> kv4p_radio" where
  "pacer_slot c s =
     (case (kr_pacer s, kr_tx s) of
        (Some p, Some e) \<Rightarrow>
          (let (l, p', e') = pacer_tick (rc_link c) (rc_enc c) (kr_link s, p, e)
           in s\<lparr>kr_link := l, kr_pacer := Some p', kr_tx := Some e'\<rparr>)
      | _ \<Rightarrow> s)"

subsection \<open>Construction, status and close\<close>

definition initial_flags :: "kv4p_config \<Rightarrow> int" where
  "initial_flags c = host_flag_value HsRxAudioOpen
     OR (if rc_tx_allowed c then host_flag_value HsTxAllowed else 0)
     OR (if rc_high_power c then host_flag_value HsHighPower else 0)"

definition unopened :: "kv4p_link \<Rightarrow> kv4p_radio" where
  "unopened l = \<lparr>kr_link = l, kr_desired = ELICIT_STATE, kr_configured = False, kr_freq_min = 0, kr_freq_max = 0, kr_tx = None,
     kr_pacer = None, kr_keyed = False, kr_closed = False\<rparr>"

definition freq_range_of :: "kv4p_config \<Rightarrow> kv4p_hello option \<Rightarrow> exn + int \<times> int" where
  "freq_range_of c h =
     (case h of
        None \<Rightarrow> Inr (DEFAULT_FREQ_RANGE (rc_module c))
      | Some h \<Rightarrow>
          (let v = hello_version h
           in if rf_module_of (rf_module_type v) = None then Inl ValueError
              else Inr (py_round (rc_f32_value c (min_radio_freq v) * 1000000), py_round (rc_f32_value c (max_radio_freq v) * 1000000))))"

definition kv4p_open :: "kv4p_config \<Rightarrow> int option \<Rightarrow> (kv4p_radio, unit) meth" where
  "kv4p_open c frequency =
     andthen (on_link (connect_link (rc_link c) (rc_connect_timeout c)))
       (\<lambda>d s. case freq_range_of c (kl_hello (kr_link s)) of
          Inl e \<Rightarrow> (Inl e, s)
        | Inr (lo, hi) \<Rightarrow>
            andthen (reconcile c)
              (\<lambda>_. case frequency of None \<Rightarrow> returning () | Some hz \<Rightarrow> kv4p_set_frequency c hz)
              (s\<lparr>kr_freq_min := lo, kr_freq_max := hi, kr_configured := False,
                 kr_desired := \<lparr>hds_sequence = 0, hds_memory_id = ds_memory_id d, hds_flags = initial_flags c, hds_bw = BW_WIDE_FM,
                   hds_freq_tx = ds_freq_tx d, hds_freq_rx = ds_freq_rx d, hds_ctcss_tx = ds_ctcss_tx d,
                   hds_squelch = rc_squelch c, hds_ctcss_rx = ds_ctcss_rx d\<rparr>\<rparr>))"

record kv4p_status =
  ks_transmitting :: bool
  ks_busy :: bool
  ks_frequency :: "int option"
  ks_tone :: "real option"
  ks_mode :: "string option"
  ks_rssi :: "int option"
  ks_alive :: bool

definition index_to_tone :: "int \<Rightarrow> real option" where
  "index_to_tone i = (if 1 \<le> i \<and> i \<le> int (length CTCSS_TONES) then Some (CTCSS_TONES ! nat (i - 1)) else None)"

definition kv4p_get_status :: "kv4p_config \<Rightarrow> kv4p_radio \<Rightarrow> kv4p_status" where
  "kv4p_get_status c s =
     (let alive = reader_runs (kr_link s) in
      case kl_device_state (kr_link s) of
        None \<Rightarrow> \<lparr>ks_transmitting = False, ks_busy = False, ks_frequency = None, ks_tone = None, ks_mode = None, ks_rssi = None, ks_alive = alive\<rparr>
      | Some d \<Rightarrow> \<lparr>ks_transmitting = ds_flags d AND device_flag_value DsTxActive \<noteq> 0,
          ks_busy = (ds_flags d AND device_flag_value DsSquelched = 0),
          ks_frequency = Some (py_round (rc_f32_value c (ds_freq_rx d) * 1000000)), ks_tone = index_to_tone (ds_ctcss_tx d),
          ks_mode = map_of BW_TO_MODE (ds_bw d), ks_rssi = Some (ds_latest_rssi d), ks_alive = alive\<rparr>)"

definition kv4p_close :: "kv4p_config \<Rightarrow> kv4p_radio \<Rightarrow> kv4p_radio" where
  "kv4p_close c s =
     (if kr_closed s then s
      else let s1 = s\<lparr>kr_closed := True\<rparr>; s2 = (if kr_keyed s1 then snd (kv4p_ptt c False s1) else s1)
           in s2\<lparr>kr_link := close_link (rc_link c) (kr_link s2)\<rparr>)"

subsection \<open>Flag words\<close>

definition has :: "host_state_flag \<Rightarrow> int \<Rightarrow> bool" where
  "has f flags \<longleftrightarrow> flags AND host_flag_value f \<noteq> 0"

fun flag_pos :: "host_state_flag \<Rightarrow> nat" where
  "flag_pos HsRadioConfigValid = 0"
| "flag_pos HsPttRequested = 1"
| "flag_pos HsRxAudioOpen = 2"
| "flag_pos HsHighPower = 3"
| "flag_pos HsRssiEnabled = 4"
| "flag_pos HsFilterPre = 5"
| "flag_pos HsFilterHigh = 6"
| "flag_pos HsFilterLow = 7"
| "flag_pos HsTxAllowed = 11"
| "flag_pos HsEnableStatusReports = 12"

lemma host_flag_pow: "host_flag_value f = 2 ^ flag_pos f"
  by (cases f) (simp_all add: flag_bit_def)

declare host_flag_value.simps [simp del]

lemma flag_pos_inj: "flag_pos f = flag_pos g \<longleftrightarrow> f = g"
  by (cases f; cases g) simp_all

lemma has_bit: "has f flags \<longleftrightarrow> bit flags (flag_pos f)"
  unfolding has_def host_flag_pow by (simp add: and_exp_eq_0_iff_not_bit)

lemma has_or [simp]: "has f (x OR y) \<longleftrightarrow> has f x \<or> has f y"
  by (simp add: has_bit bit_or_iff)

lemma has_zero [simp]: "\<not> has f 0"
  by (simp add: has_bit)

lemma has_flag [simp]: "has f (host_flag_value g) \<longleftrightarrow> f = g"
  by (auto simp: has_bit host_flag_pow bit_exp_iff flag_pos_inj)

lemma has_with_flag [simp]: "has f (with_flag g on x) \<longleftrightarrow> (if f = g then on else has f x)"
  by (auto simp: with_flag_def has_bit host_flag_pow bit_or_iff bit_and_iff bit_not_iff bit_exp_iff flag_pos_inj)

subsection \<open>The whole desired state rides every frame\<close>

definition flags_ok :: "kv4p_config \<Rightarrow> int \<Rightarrow> bool" where
  "flags_ok c flags \<longleftrightarrow> has HsRxAudioOpen flags \<and> (has HsTxAllowed flags \<longleftrightarrow> rc_tx_allowed c)
     \<and> (has HsHighPower flags \<longleftrightarrow> rc_high_power c)"

text \<open>A frame the backend may send: audio, or a state with the configured flags and squelch and with reports on.\<close>

definition radio_frame :: "kv4p_config \<Rightarrow> bytes \<Rightarrow> bool" where
  "radio_frame c f \<longleftrightarrow> (\<exists>packet. f = build_vendor_frame HOST_TX_AUDIO packet)
     \<or> (\<exists>h. state_frame h f \<and> flags_ok c (hds_flags h) \<and> has HsEnableStatusReports (hds_flags h) \<and> hds_squelch h = rc_squelch c)"

definition kv4p_ok :: "kv4p_config \<Rightarrow> bytes list \<Rightarrow> kv4p_radio \<Rightarrow> bool" where
  "kv4p_ok c base s \<longleftrightarrow> flags_ok c (hds_flags (kr_desired s)) \<and> hds_squelch (kr_desired s) = rc_squelch c
     \<and> (has HsRadioConfigValid (hds_flags (kr_desired s)) \<longleftrightarrow> kr_configured s)
     \<and> kl_link_flags (kr_link s) = STATUS_FLAG
     \<and> (\<exists>fs. kl_wire (kr_link s) = base @ fs \<and> (\<forall>f\<in>set fs. radio_frame c f))"

lemma kv4p_okI_link:
  assumes "kv4p_ok c base s" and "kl_link_flags l = kl_link_flags (kr_link s)"
    and "kl_wire l = kl_wire (kr_link s) @ fs" and "\<forall>f\<in>set fs. radio_frame c f"
  shows "kv4p_ok c base (s\<lparr>kr_link := l\<rparr>)"
proof -
  obtain gs where "kl_wire (kr_link s) = base @ gs" "\<forall>f\<in>set gs. radio_frame c f" using assms(1) by (auto simp: kv4p_ok_def)
  then have "kl_wire l = base @ (gs @ fs) \<and> (\<forall>f\<in>set (gs @ fs). radio_frame c f)" using assms(3,4) by auto
  then show ?thesis using assms(1,2) unfolding kv4p_ok_def by auto
qed

lemma kv4p_ok_fields:
  "kv4p_ok c base s \<Longrightarrow> kr_link s' = kr_link s \<Longrightarrow> kr_desired s' = kr_desired s \<Longrightarrow> kr_configured s' = kr_configured s \<Longrightarrow> kv4p_ok c base s'"
  by (simp add: kv4p_ok_def)

lemma set_flag_ok: "kv4p_ok c base s \<Longrightarrow> kv4p_ok c base (set_flag HsPttRequested on s)"
  by (simp add: kv4p_ok_def set_flag_def flags_ok_def)

lemma send_tx_audio_cases:
  assumes "send_tx_audio c packet l = (r, l')"
  shows "kl_link_flags l' = kl_link_flags l
    \<and> (kl_wire l' = kl_wire l \<or> kl_wire l' = kl_wire l @ [build_vendor_frame HOST_TX_AUDIO packet])"
proof (cases "kl_reader_error l")
  case None
  define l1 where "l1 = l\<lparr>kl_stats := record_audio (length packet) (length (build_vendor_frame HOST_TX_AUDIO packet)) (kl_stats l)\<rparr>"
  have "write_frame c (build_vendor_frame HOST_TX_AUDIO packet) l1 = (r, l')"
    using assms None by (simp add: send_tx_audio_def raise_if_failed_def Let_def l1_def)
  from write_frame_cases [OF this] show ?thesis by (auto simp: l1_def split: if_splits)
qed (use assms in \<open>simp add: send_tx_audio_def raise_if_failed_def\<close>)

lemma send_tx_audio_ok:
  "kv4p_ok c base s \<Longrightarrow> send_tx_audio lc packet (kr_link s) = (r, l) \<Longrightarrow> kv4p_ok c base (s\<lparr>kr_link := l\<rparr>)"
proof -
  assume ok: "kv4p_ok c base s" and l: "send_tx_audio lc packet (kr_link s) = (r, l)"
  from send_tx_audio_cases [OF l] obtain fs where "kl_link_flags l = kl_link_flags (kr_link s)"
      "kl_wire l = kl_wire (kr_link s) @ fs" "\<forall>f\<in>set fs. radio_frame c f"
    by (metis append.right_neutral empty_iff empty_set list.set_cases radio_frame_def set_ConsD)
  then show ?thesis by (rule kv4p_okI_link [OF ok])
qed

lemma send_desired_ok:
  assumes ok: "kv4p_ok c base s" and l: "send_desired_state lc (kr_desired s) (kr_link s) = (r, l)"
  shows "kv4p_ok c base (s\<lparr>kr_link := l\<rparr>)"
proof -
  note sc = send_desired_state_cases [OF l]
  have fl: "kl_link_flags l = kl_link_flags (kr_link s)" using sc by blast
  show ?thesis
  proof (cases r)
    case (Inl e)
    then show ?thesis using kv4p_okI_link [OF ok fl, of "[]"] sc by simp
  next
    case (Inr q)
    let ?h = "(kr_desired s)\<lparr>hds_sequence := q, hds_flags := hds_flags (kr_desired s) OR kl_link_flags (kr_link s)\<rparr>"
    obtain f where f: "kl_wire l = kl_wire (kr_link s) @ [f]" "state_frame ?h f" using sc Inr by auto
    have "flags_ok c (hds_flags ?h) \<and> has HsEnableStatusReports (hds_flags ?h) \<and> hds_squelch ?h = rc_squelch c"
      using ok by (simp add: kv4p_ok_def flags_ok_def STATUS_FLAG_def)
    then have "radio_frame c f" unfolding radio_frame_def using f(2) by blast
    then show ?thesis using kv4p_okI_link [OF ok fl f(1)] by simp
  qed
qed

lemma await_applied_ok:
  "kv4p_ok c base s \<Longrightarrow> await_applied lc q w (kr_link s) = (r, l) \<Longrightarrow> kv4p_ok c base (s\<lparr>kr_link := l\<rparr>)"
  using kv4p_okI_link [of c base s l "[]"] await_applied_frame [of lc q w "kr_link s" r l] by (simp add: reader_frame_def)

abbreviation keeps_ok :: "kv4p_config \<Rightarrow> bytes list \<Rightarrow> (kv4p_radio, 'a) meth \<Rightarrow> bool" where
  "keeps_ok c base m \<equiv> ensures (kv4p_ok c base) m (\<lambda>_. kv4p_ok c base) (kv4p_ok c base)"

lemma keeps_andthen: "keeps_ok c base m \<Longrightarrow> (\<And>x. keeps_ok c base (k x)) \<Longrightarrow> keeps_ok c base (andthen m k)"
  by (rule ensures_andthen)

lemma reconcile_ok: "keeps_ok c base (reconcile c)"
proof (rule ensures_snd)
  fix s assume ok: "kv4p_ok c base s"
  obtain r l where 1: "send_desired_state (rc_link c) (kr_desired s) (kr_link s) = (r, l)" by fastforce
  note ok1 = send_desired_ok [OF ok 1]
  show "kv4p_ok c base (snd (reconcile c s))"
  proof (cases r)
    case (Inl e)
    then show ?thesis using 1 ok1 by (simp add: reconcile_def on_link_def andthen_def)
  next
    case (Inr q)
    obtain r2 l2 where 2: "await_applied (rc_link c) q (rc_reconcile_timeout c) l = (r2, l2)" by fastforce
    have "kv4p_ok c base (s\<lparr>kr_link := l, kr_link := l2\<rparr>)" by (rule await_applied_ok [OF ok1]) (use 2 in simp)
    then show ?thesis using 1 2 Inr by (simp add: reconcile_def on_link_def andthen_def)
  qed
qed

lemma on_tx_ok: "keeps_ok c base (on_tx m)"
  by (rule ensures_snd) (auto simp: on_tx_def split: option.splits prod.splits elim: kv4p_ok_fields)

lemma send_blocks_ok: "keeps_ok c base (send_blocks c ps)"
proof (induction ps)
  case Nil
  then show ?case by (simp add: ensures_def)
next
  case (Cons p ps)
  have "keeps_ok c base (on_link (send_tx_audio (rc_link c) p))"
    by (rule ensures_snd) (auto simp: on_link_def split: prod.splits intro: send_tx_audio_ok)
  from ensures_andthen [OF this Cons.IH] show ?case by (simp add: ensures_def)
qed

lemma raising_ok: "keeps_ok c base (raising e)"
  by (simp add: ensures_def)

lemma returning_ok: "keeps_ok c base (returning x)"
  by (simp add: ensures_def)

lemma modifying_ok: "(\<And>s. kv4p_ok c base s \<Longrightarrow> kv4p_ok c base (f s)) \<Longrightarrow> keeps_ok c base (modifying f)"
  by (simp add: ensures_def)

lemma guarded_ok: "keeps_ok c base m \<Longrightarrow> keeps_ok c base (guarded m)"
  by (fastforce simp: ensures_def guarded_def catching_def split: prod.splits sum.splits)

lemma link_stats_ok: "kv4p_ok c base s \<Longrightarrow> kv4p_ok c base (s\<lparr>kr_tx := x, kr_link := reset_tx_stats (kr_link s)\<rparr>)"
  by (simp add: kv4p_ok_def reset_tx_stats_def)

lemmas ok_steps = keeps_andthen reconcile_ok on_tx_ok send_blocks_ok raising_ok returning_ok guarded_ok

lemma tx_ok: "kv4p_ok c base s \<Longrightarrow> kv4p_ok c base (s\<lparr>kr_tx := x\<rparr>)"
  by (erule kv4p_ok_fields) simp_all

lemma kv4p_key_on_ok: "keeps_ok c base (kv4p_key_on c)"
proof -
  have "keeps_ok c base (if ds_flags d AND device_flag_value DsTxActive = 0
              then andthen (modifying (set_flag HsPttRequested False))
                     (\<lambda>_. andthen (guarded (andthen (reconcile c) (\<lambda>_. returning ())))
                       (\<lambda>_. andthen (modifying (\<lambda>s. s\<lparr>kr_tx := None\<rparr>)) (\<lambda>_. raising Kv4pKeyingError)))
              else if rc_lead_bytes c = 0 then returning ()
              else andthen (on_tx (te_push (rc_enc c) (silence (rc_lead_bytes c)))) (send_blocks c))" for d
    by (auto intro!: ok_steps modifying_ok set_flag_ok tx_ok)
  then show ?thesis
    unfolding kv4p_key_on_def by (intro keeps_andthen [OF modifying_ok] keeps_andthen [OF reconcile_ok] set_flag_ok link_stats_ok)
qed

lemma drop_ptt_ok: "keeps_ok c base (drop_ptt c)"
  unfolding drop_ptt_def by (intro ok_steps modifying_ok set_flag_ok)

lemma kv4p_key_off_ok: "keeps_ok c base (kv4p_key_off c)"
proof -
  have "keeps_ok c base (andthen (on_tx (te_flush (rc_enc c)))
             (\<lambda>ps. andthen (send_blocks c ps) (\<lambda>_. andthen (modifying (\<lambda>s. s\<lparr>kr_tx := None\<rparr>)) (\<lambda>_. drop_ptt c))))"
    by (intro ok_steps modifying_ok tx_ok drop_ptt_ok)
  then show ?thesis using drop_ptt_ok [of c base] by (auto simp: ensures_def kv4p_key_off_def)
qed

lemma send_tx_audio_ok_link:
  "send_tx_audio lc x l = (r, l') \<Longrightarrow> kv4p_ok c base (s\<lparr>kr_link := l\<rparr>) \<Longrightarrow> kv4p_ok c base (s\<lparr>kr_link := l'\<rparr>)"
  using send_tx_audio_ok [of c base "s\<lparr>kr_link := l\<rparr>" lc x r l'] by simp

lemma pacer_tick_ok:
  "kv4p_ok c base s \<Longrightarrow> pacer_tick lc ec (kr_link s, p, e) = (l, p', e') \<Longrightarrow> kv4p_ok c base (s\<lparr>kr_link := l\<rparr>)"
  using pacer_tick_inv [of lc "\<lambda>l. kv4p_ok c base (s\<lparr>kr_link := l\<rparr>)" "kr_link s"] send_tx_audio_ok_link by fastforce

lemma flush_tail_ok:
  "kv4p_ok c base s \<Longrightarrow> flush_tail lc ec (kr_link s, p, e) = (r, (l, p', e')) \<Longrightarrow> kv4p_ok c base (s\<lparr>kr_link := l\<rparr>)"
  using flush_tail_inv [of lc "\<lambda>l. kv4p_ok c base (s\<lparr>kr_link := l\<rparr>)" "kr_link s"] send_tx_audio_ok_link by fastforce

lemma key_off_streaming_ok: "keeps_ok c base (key_off_streaming c)"
proof (rule ensures_snd)
  fix s assume ok: "kv4p_ok c base s"
  have drop: "kv4p_ok c base (snd (drop_ptt c x))" if "kv4p_ok c base x" for x
    using drop_ptt_ok [of c base] that by (auto simp: ensures_def split: prod.splits sum.splits) (metis prod.collapse sum.exhaust)
  have only: "kv4p_ok c base (x\<lparr>kr_pacer := p, kr_tx := e\<rparr>)" if "kv4p_ok c base x" for x p e
    using that by (rule kv4p_ok_fields) simp_all
  show "kv4p_ok c base (snd (key_off_streaming c s))"
  proof (cases "kr_pacer s")
    case None
    then show ?thesis using drop [OF tx_ok [OF ok]] by (simp add: key_off_streaming_def andthen_def)
  next
    case (Some p)
    show ?thesis
    proof (cases "kr_tx s")
      case None
      have "kv4p_ok c base (s\<lparr>kr_pacer := None\<rparr>)" by (rule kv4p_ok_fields [OF ok]) simp_all
      then show ?thesis using Some None by (simp add: key_off_streaming_def)
    next
      case e: (Some e)
      obtain r l p' e' where f: "flush_tail (rc_link c) (rc_enc c) (kr_link s, p\<lparr>pc_running := False\<rparr>, e) = (r, (l, p', e'))"
        by (metis prod.collapse)
      note ok1 = flush_tail_ok [OF ok f]
      have ok2: "kv4p_ok c base (s\<lparr>kr_pacer := None, kr_link := l, kr_tx := x\<rparr>)" for x
        by (rule kv4p_ok_fields [OF ok1]) simp_all
      show ?thesis using Some e f ok2 drop [OF ok2] by (cases r) (simp_all add: key_off_streaming_def)
    qed
  qed
qed

lemma keepsD: "keeps_ok c base m \<Longrightarrow> kv4p_ok c base s \<Longrightarrow> kv4p_ok c base (snd (m s))"
  by (cases "m s"; cases "fst (m s)") (auto simp: ensures_def)

lemma ptt_ok: "kv4p_ok c base s \<Longrightarrow> kv4p_ok c base (snd (kv4p_ptt c on s))"
proof -
  assume ok: "kv4p_ok c base s"
  have up: "keeps_ok c base (andthen (kv4p_key_on c) (\<lambda>_. modifying (\<lambda>s. s\<lparr>kr_pacer := Some new_pacer, kr_keyed := True\<rparr>)))"
    by (rule keeps_andthen [OF kv4p_key_on_ok modifying_ok]) (erule kv4p_ok_fields, simp_all)
  have down: "keeps_ok c base (andthen (key_off_streaming c) (\<lambda>_. modifying (\<lambda>s. s\<lparr>kr_keyed := False\<rparr>)))"
    by (rule keeps_andthen [OF key_off_streaming_ok modifying_ok]) (erule kv4p_ok_fields, simp_all)
  show ?thesis using keepsD [OF up ok] keepsD [OF down ok] ok by (simp add: kv4p_ptt_def)
qed

lemma kv4p_transmit_ok: "kv4p_ok c base s \<Longrightarrow> kv4p_ok c base (snd (kv4p_transmit c canonical pcm s))"
proof -
  assume ok: "kv4p_ok c base s"
  let ?body = "andthen (on_tx (te_push (rc_enc c) pcm)) (send_blocks c)"
  let ?k = "\<lambda>_ s1. case ?body s1 of
                 (Inr u, s2) \<Rightarrow> kv4p_key_off c s2
               | (Inl x, s2) \<Rightarrow> andthen (kv4p_key_off c) (\<lambda>_. raising x) s2"
  have body: "keeps_ok c base ?body" by (intro ok_steps)
  have "keeps_ok c base (?k u)" for u :: unit
  proof (rule ensures_snd)
    fix s1 assume "kv4p_ok c base s1"
    then have "kv4p_ok c base (snd (?body s1))" using keepsD [OF body] by blast
    moreover obtain r s2 where b: "?body s1 = (r, s2)" by fastforce
    moreover have "keeps_ok c base (andthen (kv4p_key_off c) (\<lambda>_. raising x))" for x :: exn
      by (rule keeps_andthen [OF kv4p_key_off_ok raising_ok])
    ultimately show "kv4p_ok c base (snd (?k u s1))"
      using keepsD [OF kv4p_key_off_ok, of c base s2] keepsD [OF keeps_andthen [OF kv4p_key_off_ok raising_ok], of c base s2]
      by (cases r) auto
  qed
  then have "keeps_ok c base (andthen (kv4p_key_on c) ?k)" by (rule keeps_andthen [OF kv4p_key_on_ok])
  from keepsD [OF this ok] have one: "kv4p_ok c base (snd (andthen (kv4p_key_on c) ?k s))" .
  have "kv4p_ok c base (s\<lparr>kr_pacer := p\<rparr>)" for p by (rule kv4p_ok_fields [OF ok]) simp_all
  then show ?thesis using ok one by (auto simp: kv4p_transmit_def split: option.splits)
qed

lemma reconcile_unit_ok: "kv4p_ok c base s \<Longrightarrow> kv4p_ok c base (snd (andthen (reconcile c) (\<lambda>_. returning ()) s))"
  by (rule keepsD [OF keeps_andthen [OF reconcile_ok returning_ok]])

lemma kv4p_set_frequency_ok: "kv4p_ok c base s \<Longrightarrow> kv4p_ok c base (snd (kv4p_set_frequency c hz s))"
proof -
  assume ok: "kv4p_ok c base s"
  have "kv4p_ok c base ((set_flag HsRadioConfigValid True (s\<lparr>kr_desired := (kr_desired s)\<lparr>hds_freq_tx := m, hds_freq_rx := m\<rparr>\<rparr>))\<lparr>kr_configured := True\<rparr>)" for m
    using ok by (simp add: kv4p_ok_def set_flag_def flags_ok_def)
  from reconcile_unit_ok [OF this] show ?thesis using ok by (simp add: kv4p_set_frequency_def Let_def)
qed

lemma set_tone_ok: "kv4p_ok c base s \<Longrightarrow> kv4p_ok c base (snd (kv4p_set_tone c tone s))"
proof -
  assume ok: "kv4p_ok c base s"
  have "kv4p_ok c base (s\<lparr>kr_desired := (kr_desired s)\<lparr>hds_ctcss_tx := i\<rparr>\<rparr>)" for i using ok by (simp add: kv4p_ok_def)
  from reconcile_unit_ok [OF this] show ?thesis using ok by (auto simp: kv4p_set_tone_def split: option.splits)
qed

lemma set_mode_ok: "kv4p_ok c base s \<Longrightarrow> kv4p_ok c base (snd (kv4p_set_mode c m s))"
proof -
  assume ok: "kv4p_ok c base s"
  have "kv4p_ok c base (s\<lparr>kr_desired := (kr_desired s)\<lparr>hds_bw := i\<rparr>\<rparr>)" for i using ok by (simp add: kv4p_ok_def)
  from reconcile_unit_ok [OF this] show ?thesis using ok by (auto simp: kv4p_set_mode_def split: option.splits)
qed

lemma pacer_slot_ok: "kv4p_ok c base s \<Longrightarrow> kv4p_ok c base (pacer_slot c s)"
proof -
  assume ok: "kv4p_ok c base s"
  have "kv4p_ok c base (s\<lparr>kr_link := l, kr_pacer := p', kr_tx := e'\<rparr>)"
    if "pacer_tick (rc_link c) (rc_enc c) (kr_link s, p, e) = (l, q, x)" for l p e p' e' q x
    by (rule kv4p_ok_fields [OF pacer_tick_ok [OF ok that]]) simp_all
  then show ?thesis using ok by (auto simp: pacer_slot_def split: option.splits prod.splits)
qed

datatype kv4p_op =
    KSetFrequency int
  | KSetTone "real option"
  | KSetMode string
  | KSetChannel int
  | KSetSplit "int option"
  | KScan bool
  | KPtt bool
  | KTransmit bool bytes
  | KPacerSlot
  | KLine line_event

fun k_exec :: "kv4p_config \<Rightarrow> kv4p_op \<Rightarrow> kv4p_radio \<Rightarrow> kv4p_radio" where
  "k_exec c (KSetFrequency hz) s = snd (kv4p_set_frequency c hz s)"
| "k_exec c (KSetTone t) s = snd (kv4p_set_tone c t s)"
| "k_exec c (KSetMode m) s = snd (kv4p_set_mode c m s)"
| "k_exec c (KSetChannel n) s = snd (kv4p_set_channel n s)"
| "k_exec c (KSetSplit x) s = snd (kv4p_set_split x s)"
| "k_exec c (KScan on) s = snd (kv4p_scan on s)"
| "k_exec c (KPtt on) s = snd (kv4p_ptt c on s)"
| "k_exec c (KTransmit canonical pcm) s = snd (kv4p_transmit c canonical pcm s)"
| "k_exec c KPacerSlot s = pacer_slot c s"
| "k_exec c (KLine ev) s = s\<lparr>kr_link := on_line (rc_link c) ev (kr_link s)\<rparr>"

lemma k_exec_ok: "kv4p_ok c base s \<Longrightarrow> kv4p_ok c base (k_exec c op s)"
proof (cases op)
  case (KLine ev)
  assume ok: "kv4p_ok c base s"
  have "reader_frame (kr_link s) (on_line (rc_link c) ev (kr_link s))" by (rule on_line_frame)
  then show ?thesis using kv4p_okI_link [OF ok, of _ "[]"] KLine by (simp add: reader_frame_def)
qed (simp_all add: kv4p_set_frequency_ok set_tone_ok set_mode_ok ptt_ok kv4p_transmit_ok pacer_slot_ok
    kv4p_set_channel_def kv4p_set_split_def kv4p_scan_def)

lemma k_run_ok: "kv4p_ok c base s \<Longrightarrow> kv4p_ok c base (fold (k_exec c) ops s)"
  by (induction ops arbitrary: s) (simp_all add: k_exec_ok)

lemma kv4p_open_ok:
  assumes "kv4p_open c f (unopened l) = (Inr (), s)" and "kl_link_flags l = 0"
  shows "kv4p_ok c (kl_wire (snd (connect_link (rc_link c) (rc_connect_timeout c) l))) s"
proof -
  obtain r1 l1 where 1: "connect_link (rc_link c) (rc_connect_timeout c) l = (r1, l1)" by fastforce
  obtain d where d: "r1 = Inr d" using assms(1) 1 by (cases r1) (auto simp: kv4p_open_def on_link_def andthen_def unopened_def)
  have fl: "kl_link_flags l1 = STATUS_FLAG" using connect_link_cases [OF 1] assms(2) by auto
  obtain lo hi where r: "freq_range_of c (kl_hello l1) = Inr (lo, hi)"
    using assms(1) 1 d by (cases "freq_range_of c (kl_hello l1)") (auto simp: kv4p_open_def on_link_def andthen_def unopened_def)
  define s1 where "s1 = (unopened l)\<lparr>kr_link := l1, kr_freq_min := lo, kr_freq_max := hi, kr_configured := False,
                 kr_desired := \<lparr>hds_sequence = 0, hds_memory_id = ds_memory_id d, hds_flags = initial_flags c, hds_bw = BW_WIDE_FM,
                   hds_freq_tx = ds_freq_tx d, hds_freq_rx = ds_freq_rx d, hds_ctcss_tx = ds_ctcss_tx d,
                   hds_squelch = rc_squelch c, hds_ctcss_rx = ds_ctcss_rx d\<rparr>\<rparr>"
  have "kv4p_ok c (kl_wire l1) s1"
    using fl by (auto simp: kv4p_ok_def s1_def flags_ok_def initial_flags_def)
  moreover have "keeps_ok c (kl_wire l1) (andthen (reconcile c)
              (\<lambda>_. case f of None \<Rightarrow> returning () | Some hz \<Rightarrow> kv4p_set_frequency c hz))"
  proof (rule keeps_andthen [OF reconcile_ok])
    fix x
    show "keeps_ok c (kl_wire l1) (case f of None \<Rightarrow> returning () | Some hz \<Rightarrow> kv4p_set_frequency c hz)"
      by (cases f) (simp_all add: returning_ok ensures_snd kv4p_set_frequency_ok)
  qed
  ultimately have "kv4p_ok c (kl_wire l1) (snd (andthen (reconcile c)
              (\<lambda>_. case f of None \<Rightarrow> returning () | Some hz \<Rightarrow> kv4p_set_frequency c hz) s1))"
    by (rule keepsD [rotated])
  moreover have "andthen (reconcile c) (\<lambda>_. case f of None \<Rightarrow> returning () | Some hz \<Rightarrow> kv4p_set_frequency c hz) s1 = (Inr (), s)"
    using assms(1) 1 d r by (simp add: kv4p_open_def on_link_def andthen_def unopened_def s1_def)
  ultimately show ?thesis using 1 by simp
qed

text \<open>
  C11. The firmware replaces its whole state with every frame, so nothing may be left out of one: after opening and any
  sequence of operations, slots of the pacer and traffic on the line, every frame sent since the handshake is audio,
  or a state that keeps receive audio open and the reports on, allows transmission exactly if configured,
  has the configured power and squelch; and the state to be sent next has them too.
\<close>

theorem whole_state_rides_every_frame:
  assumes "kv4p_open c f (unopened l) = (Inr (), s0)" and "kl_link_flags l = 0" and "s = fold (k_exec c) ops s0"
  shows "flags_ok c (hds_flags (kr_desired s)) \<and> hds_squelch (kr_desired s) = rc_squelch c
    \<and> (\<exists>sent. kl_wire (kr_link s) = kl_wire (snd (connect_link (rc_link c) (rc_connect_timeout c) l)) @ sent
          \<and> (\<forall>frame\<in>set sent. radio_frame c frame))"
proof -
  have "kv4p_ok c (kl_wire (snd (connect_link (rc_link c) (rc_connect_timeout c) l))) s"
    unfolding assms(3) by (intro k_run_ok kv4p_open_ok [OF assms(1,2)])
  then show ?thesis unfolding kv4p_ok_def by blast
qed

definition example_radio :: kv4p_config where
  "example_radio = \<lparr>rc_link = plain_link, rc_enc = plain_encoder, rc_module = SA818_VHF, rc_squelch = 4, rc_high_power = True,
     rc_tx_allowed = True, rc_lead_bytes = 0, rc_connect_timeout = 10, rc_reconcile_timeout = 2, rc_f32 = (\<lambda>x. \<lfloor>x\<rfloor>),
     rc_f32_value = real_of_int\<rparr>"

text \<open>A board that already reports, applies the opening state, then a key-up, then an un-key.\<close>

definition live_board :: kv4p_link where
  "live_board = link_init 2048 [report 5 0x1000, report 6 0x180C, report 7 0x1A0E, report 8 0x180C]"

theorem whole_state_rides_every_frame_witness:
  "flags_ok example_radio (hds_flags (kr_desired (fold (k_exec example_radio) [KPtt True, KPacerSlot, KPtt False]
     (snd (kv4p_open example_radio None (unopened live_board))))))"
proof -
  have "fst (kv4p_open example_radio None (unopened live_board)) = Inr ()" by code_simp
  then have "kv4p_open example_radio None (unopened live_board) = (Inr (), snd (kv4p_open example_radio None (unopened live_board)))"
    by (simp add: prod_eq_iff)
  moreover have "kl_link_flags live_board = 0" by (simp add: live_board_def link_init_def)
  ultimately show ?thesis using whole_state_rides_every_frame by blast
qed

subsection \<open>Un-keying\<close>

lemma reconcile_applied:
  assumes "reconcile c s = (Inr d, s')"
  shows "\<exists>f h. kl_wire (kr_link s') = kl_wire (kr_link s) @ [f] \<and> state_frame h f
    \<and> hds_flags h = hds_flags (kr_desired s) OR kl_link_flags (kr_link s) \<and> hds_sequence h \<le> kl_applied (kr_link s')
    \<and> kr_desired s' = kr_desired s \<and> kr_keyed s' = kr_keyed s"
proof -
  obtain r l where 1: "send_desired_state (rc_link c) (kr_desired s) (kr_link s) = (r, l)" by fastforce
  obtain q where q: "r = Inr q" using assms 1 by (cases r) (auto simp: reconcile_def on_link_def andthen_def)
  obtain r2 l2 where 2: "await_applied (rc_link c) q (rc_reconcile_timeout c) l = (r2, l2)" by fastforce
  have s': "s' = s\<lparr>kr_link := l2\<rparr>" "r2 = Inr d" using assms 1 2 q by (auto simp: reconcile_def on_link_def andthen_def)
  obtain r3 l3 where 3: "wait_for (rc_link c) (\<lambda>s. q \<le> kl_applied s) (rc_reconcile_timeout c) l = (r3, l3)" by fastforce
  have "r3 = Inr True \<and> l3 = l2"
    using 2 3 s'(2) by (cases r3) (auto simp: await_applied_def andthen_def split: if_splits option.splits)
  then have "q \<le> kl_applied l2" using wait_for_True [of "rc_link c" "\<lambda>s. q \<le> kl_applied s"] 3 by simp
  let ?h = "(kr_desired s)\<lparr>hds_sequence := q, hds_flags := hds_flags (kr_desired s) OR kl_link_flags (kr_link s)\<rparr>"
  obtain f where f: "kl_wire l = kl_wire (kr_link s) @ [f]" "state_frame ?h f" using send_desired_state_cases [OF 1] q by auto
  moreover have "kl_wire l2 = kl_wire l" using await_applied_frame [OF 2] by (simp add: reader_frame_def)
  ultimately show ?thesis using \<open>q \<le> kl_applied l2\<close> s' by (intro exI [of _ f] exI [of _ ?h]) simp
qed

lemma drop_ptt_sends:
  assumes "drop_ptt c s = (Inr (), s')"
  shows "\<not> has HsPttRequested (hds_flags (kr_desired s')) \<and> kr_keyed s' = kr_keyed s
    \<and> (\<exists>f h. kl_wire (kr_link s') = kl_wire (kr_link s) @ [f] \<and> state_frame h f
        \<and> (has HsPttRequested (hds_flags h) \<longleftrightarrow> has HsPttRequested (kl_link_flags (kr_link s))) \<and> hds_sequence h \<le> kl_applied (kr_link s'))"
proof -
  obtain r s1 where 1: "reconcile c (set_flag HsPttRequested False s) = (r, s1)" by fastforce
  then obtain d where d: "r = Inr d" "s1 = s'" using assms by (cases r) (auto simp: drop_ptt_def)
  from reconcile_applied [OF 1 [unfolded d]] obtain f h where
    "kl_wire (kr_link s') = kl_wire (kr_link s) @ [f]" "state_frame h f"
    "hds_flags h = with_flag HsPttRequested False (hds_flags (kr_desired s)) OR kl_link_flags (kr_link s)"
    "hds_sequence h \<le> kl_applied (kr_link s')" "kr_keyed s' = kr_keyed s"
    "kr_desired s' = (kr_desired s)\<lparr>hds_flags := with_flag HsPttRequested False (hds_flags (kr_desired s))\<rparr>"
    by (auto simp: set_flag_def)
  then show ?thesis by (auto intro!: exI [of _ h])
qed

text \<open>Un-keying a held key that returns has told the device so and seen it obeyed: the last frame on the wire is a
  state with PTT not requested, the device has reported applying it, and the backend is no longer keyed.
\<close>

theorem unkey_is_applied:
  assumes "kr_keyed s" and "kv4p_ptt c False s = (Inr (), s')" and "kl_link_flags (kr_link s) = STATUS_FLAG"
  shows "\<not> kr_keyed s' \<and> \<not> has HsPttRequested (hds_flags (kr_desired s'))
    \<and> (\<exists>frames f h. kl_wire (kr_link s') = frames @ [f] \<and> state_frame h f \<and> \<not> has HsPttRequested (hds_flags h)
        \<and> hds_sequence h \<le> kl_applied (kr_link s'))"
proof -
  obtain r s1 where 1: "key_off_streaming c s = (r, s1)" by fastforce
  have r: "r = Inr ()" and s': "s' = s1\<lparr>kr_keyed := False\<rparr>" using assms(1,2) 1 by (cases r; auto simp: kv4p_ptt_def)+
  have "\<exists>x. drop_ptt c x = (Inr (), s1) \<and> kl_link_flags (kr_link x) = STATUS_FLAG"
  proof (cases "kr_pacer s")
    case None
    then show ?thesis using 1 r assms(3)
      by (intro exI [of _ "s\<lparr>kr_tx := None\<rparr>"]) (simp add: key_off_streaming_def andthen_def)
  next
    case (Some p)
    obtain e where e: "kr_tx s = Some e" using 1 r Some by (cases "kr_tx s") (auto simp: key_off_streaming_def)
    obtain q l p' e' where f: "flush_tail (rc_link c) (rc_enc c) (kr_link s, p\<lparr>pc_running := False\<rparr>, e) = (q, (l, p', e'))"
      by (metis prod.collapse)
    have "\<forall>x l r l'. send_tx_audio (rc_link c) x l = (r, l') \<longrightarrow> kl_link_flags l = STATUS_FLAG \<longrightarrow> kl_link_flags l' = STATUS_FLAG"
      using send_tx_audio_cases by metis
    then have "kl_link_flags l = STATUS_FLAG"
      using flush_tail_inv [of "rc_link c" "\<lambda>l. kl_link_flags l = STATUS_FLAG"] assms(3) f by blast
    moreover have "q = Inr ()" using 1 r Some e f by (cases q) (auto simp: key_off_streaming_def)
    ultimately show ?thesis using 1 r Some e f
      by (intro exI [of _ "s\<lparr>kr_pacer := None, kr_link := l, kr_tx := None\<rparr>"]) (simp add: key_off_streaming_def)
  qed
  then obtain x where x: "drop_ptt c x = (Inr (), s1)" "kl_link_flags (kr_link x) = STATUS_FLAG" by blast
  then show ?thesis using drop_ptt_sends [OF x(1)] s' by (auto simp: STATUS_FLAG_def)
qed

text \<open>An opened backend, held keyed or not, whose device will apply the next states it is sent.\<close>

definition example_open :: "bool \<Rightarrow> line_event list \<Rightarrow> kv4p_radio" where
  "example_open keyed line = (unopened ((link_init 2048 line)\<lparr>kl_link_flags := STATUS_FLAG\<rparr>))
     \<lparr>kr_keyed := keyed, kr_tx := (if keyed then Some new_encoder else None), kr_pacer := (if keyed then Some new_pacer else None)\<rparr>"

theorem unkey_is_applied_witness:
  "let s = example_open True [report 1 0x180C]; s' = snd (kv4p_ptt example_radio False s)
   in \<not> kr_keyed s' \<and> \<not> has HsPttRequested (hds_flags (kr_desired s'))"
proof -
  define s where "s = example_open True [report 1 0x180C]"
  have 1: "kr_keyed s \<and> kl_link_flags (kr_link s) = STATUS_FLAG" by (simp add: s_def example_open_def unopened_def)
  have "fst (kv4p_ptt example_radio False s) = Inr ()" unfolding s_def by code_simp
  then have "kv4p_ptt example_radio False s = (Inr (), snd (kv4p_ptt example_radio False s))" by (simp add: prod_eq_iff)
  from unkey_is_applied [OF _ this] 1 show ?thesis by (simp add: s_def Let_def)
qed

subsection \<open>A key-up that fails without a refusal\<close>

lemma reconcile_frame: "reconcile c s = (r, s') \<Longrightarrow> kr_desired s' = kr_desired s \<and> kr_keyed s' = kr_keyed s"
  by (auto simp: reconcile_def on_link_def andthen_def split: prod.splits sum.splits)

lemma send_blocks_frame: "send_blocks c ps s = (r, s') \<Longrightarrow> kr_desired s' = kr_desired s \<and> kr_keyed s' = kr_keyed s"
proof (induction ps arbitrary: s)
  case (Cons p ps)
  obtain q s1 where 1: "on_link (send_tx_audio (rc_link c) p) s = (q, s1)" by fastforce
  have s1: "kr_desired s1 = kr_desired s \<and> kr_keyed s1 = kr_keyed s" using 1 by (auto simp: on_link_def split: prod.splits)
  show ?case
  proof (cases q)
    case (Inl x)
    then show ?thesis using Cons.prems 1 s1 by (simp add: andthen_def)
  next
    case (Inr u)
    then have "send_blocks c ps s1 = (r, s')" using Cons.prems 1 by (simp add: andthen_def)
    then show ?thesis using Cons.IH s1 by metis
  qed
qed simp

lemma key_on_fails:
  assumes "kv4p_key_on c s = (Inl e, s')" and "e \<noteq> Kv4pKeyingError"
  shows "has HsPttRequested (hds_flags (kr_desired s')) \<and> kr_keyed s' = kr_keyed s"
proof -
  define s0 where "s0 = set_flag HsPttRequested True (s\<lparr>kr_tx := Some new_encoder, kr_link := reset_tx_stats (kr_link s)\<rparr>)"
  have s0: "has HsPttRequested (hds_flags (kr_desired s0))" "kr_keyed s0 = kr_keyed s" by (simp_all add: s0_def set_flag_def)
  obtain r s1 where 1: "reconcile c s0 = (r, s1)" by fastforce
  note f1 = reconcile_frame [OF 1]
  show ?thesis
  proof (cases r)
    case (Inl x)
    then show ?thesis using assms(1) 1 f1 s0 by (simp add: kv4p_key_on_def s0_def)
  next
    case (Inr d)
    let ?lead = "andthen (on_tx (te_push (rc_enc c) (silence (rc_lead_bytes c)))) (send_blocks c)"
    have "kv4p_key_on c s = (if ds_flags d AND device_flag_value DsTxActive = 0
        then (Inl Kv4pKeyingError, (snd (andthen (reconcile c) (\<lambda>_. returning ()) (set_flag HsPttRequested False s1)))\<lparr>kr_tx := None\<rparr>)
        else if rc_lead_bytes c = 0 then (Inr (), s1) else ?lead s1)"
      using 1 Inr by (simp add: kv4p_key_on_def s0_def)
    then have "?lead s1 = (Inl e, s')" using assms by (simp split: if_splits)
    then have lead: "?lead s1 = (Inl e, s')" by blast
    obtain q s2 where 2: "on_tx (te_push (rc_enc c) (silence (rc_lead_bytes c))) s1 = (q, s2)" by fastforce
    have s2: "kr_desired s2 = kr_desired s1 \<and> kr_keyed s2 = kr_keyed s1"
      using 2 by (auto simp: on_tx_def split: option.splits prod.splits)
    show ?thesis
    proof (cases q)
      case (Inl x)
      then show ?thesis using lead 2 s2 f1 s0 by (simp add: andthen_def)
    next
      case (Inr ps)
      then have "send_blocks c ps s2 = (Inl e, s')" using lead 2 by (simp add: andthen_def)
      from send_blocks_frame [OF this] show ?thesis using s2 f1 s0 by simp
    qed
  qed
qed

text \<open>A key-up that fails for any reason but a refusal (a starved window, a timeout, a lost line) leaves PTT in the
  state to be sent and the backend un-keyed: un-keying then does nothing, and the next tone set tells the device to
  transmit, with nobody holding the key.
\<close>

theorem failed_key_up_keeps_ptt:
  assumes "kv4p_ptt c True s = (Inl e, s1)" and "e \<noteq> Kv4pKeyingError" and "kv4p_set_tone c tone s1 = (Inr (), s2)"
  shows "\<not> kr_keyed s1 \<and> kv4p_ptt c False s1 = (Inr (), s1)
    \<and> (\<exists>f h. kl_wire (kr_link s2) = kl_wire (kr_link s1) @ [f] \<and> state_frame h f \<and> has HsPttRequested (hds_flags h)
        \<and> hds_sequence h \<le> kl_applied (kr_link s2))"
proof -
  have unkeyed: "\<not> kr_keyed s" using assms(1) by (auto simp: kv4p_ptt_def)
  obtain r x where 1: "kv4p_key_on c s = (r, x)" by fastforce
  have "r = Inl e \<and> x = s1" using assms(1) 1 unkeyed by (cases r) (auto simp: kv4p_ptt_def)
  then have s1: "has HsPttRequested (hds_flags (kr_desired s1))" "\<not> kr_keyed s1"
    using key_on_fails [of c s e s1] 1 assms(2) unkeyed by auto
  obtain i where i: "(case tone of None \<Rightarrow> Some 0 | Some t \<Rightarrow> tone_to_index t) = Some i"
    using assms(3) by (cases "case tone of None \<Rightarrow> Some 0 | Some t \<Rightarrow> tone_to_index t") (simp_all add: kv4p_set_tone_def)
  let ?s = "s1\<lparr>kr_desired := (kr_desired s1)\<lparr>hds_ctcss_tx := i\<rparr>\<rparr>"
  obtain q y where 2: "reconcile c ?s = (q, y)" by fastforce
  then obtain d where d: "q = Inr d" "y = s2" using assms(3) i by (cases q) (auto simp: kv4p_set_tone_def)
  from reconcile_applied [OF 2 [unfolded d]] s1 obtain f h where
    "kl_wire (kr_link s2) = kl_wire (kr_link s1) @ [f]" "state_frame h f"
    "hds_flags h = hds_flags (kr_desired s1) OR kl_link_flags (kr_link s1)" "hds_sequence h \<le> kl_applied (kr_link s2)" by auto
  then show ?thesis using s1 by (simp add: kv4p_ptt_def) (intro exI [of _ h], simp)
qed

theorem failed_key_up_keeps_ptt_witness:
  "\<exists>s1 s2. kv4p_ptt example_radio True (example_open False [Pass 3, report 2 0x180C]) = (Inl Kv4pTimeout, s1)
     \<and> kv4p_set_tone example_radio None s1 = (Inr (), s2) \<and> kv4p_ptt example_radio False s1 = (Inr (), s1)"
proof -
  define s where "s = example_open False [Pass 3, report 2 0x180C]"
  define s1 where "s1 = snd (kv4p_ptt example_radio True s)"
  have "fst (kv4p_ptt example_radio True s) = Inl Kv4pTimeout" unfolding s_def by code_simp
  then have 1: "kv4p_ptt example_radio True s = (Inl Kv4pTimeout, s1)" by (simp add: s1_def prod_eq_iff)
  have "fst (kv4p_set_tone example_radio None s1) = Inr ()" unfolding s1_def s_def by code_simp
  then have 2: "kv4p_set_tone example_radio None s1 = (Inr (), snd (kv4p_set_tone example_radio None s1))" by (simp add: prod_eq_iff)
  show ?thesis using failed_key_up_keeps_ptt [OF 1 _ 2] 1 2 unfolding s_def by blast
qed

end
