(* ===== verification/Uvk5Tuner.thy ===== *)
theory Uvk5Tuner
  imports Vfo
begin

unbundle bit_operations_syntax

section \<open>Tuning a UV-K5 by its dock commands\<close>

text \<open>
  \<open>radio_server/backends/uvk5/tuner.py\<close>: the state the three tuners share and \<open>SetVfoTuner\<close>. The transport and the
  radio behind it are parameters: \<open>dr_answer\<close> maps the requests made so far and the next one to a reply or to
  the exception of \<open>request\<close>, \<open>dr_took\<close> is the time it takes. A reply the call's \<open>match\<close> rejects is silence.
  \<open>tn_asked\<close> is the history of requests and \<open>tn_muted_until\<close> the latest time until which the firmware, by the
  note at \<open>SERIAL_TX_LOCKOUT_S\<close>, may mute the transmitter after the HELLO and EEPROM frames it was sent; the code
  has neither. A modulation is passed as the code's \<open>str(modulation).strip().upper()\<close>.
\<close>

definition RSSI_REGISTER :: int where "RSSI_REGISTER = 0x67"
definition RSSI_MASK :: int where "RSSI_MASK = 0x1FF"
definition SERIAL_TX_LOCKOUT_S :: real where "SERIAL_TX_LOCKOUT_S = 65 / 10"

datatype capability = CapTRANSMIT | CapRECEIVE | CapPTT | CapSTATUS | CapSET_FREQUENCY | CapSET_CHANNEL | CapSET_SPLIT
  | CapSET_TONE | CapSET_MODE | CapSET_MODULATION | CapCLEAR_BROADCAST_FM | CapSET_BROADCAST_FM | CapSET_POWER | CapSCAN

definition TUNING_CAPS :: "capability set" where
  "TUNING_CAPS = {CapSET_FREQUENCY, CapSET_SPLIT, CapSET_TONE, CapSET_MODE, CapSET_POWER}"
definition SETVFO_CAPS :: "capability set" where
  "SETVFO_CAPS = TUNING_CAPS \<union> {CapSET_MODULATION}"

record broadcast_fm =
  bf_on :: bool
  bf_hz :: "int option"
  bf_band :: "int option"
  bf_blocks_tx :: "bool option"
  bf_rescues :: nat

record dock_radio =
  dr_answer :: "dock_message list \<Rightarrow> dock_message \<Rightarrow> exn + dock_message"
  dr_took :: "dock_message list \<Rightarrow> dock_message \<Rightarrow> real"

record uvk5_tuner =
  tn_asked :: "dock_message list"
  tn_now :: real
  tn_muted_until :: real
  tn_modulation :: "string option"
  tn_tx_ok :: "bool option"
  tn_fm :: "broadcast_fm option"
  tn_rescues :: nat
  tn_probe_armed :: bool
  tn_probe_saw_on :: bool
  tn_fm_seen :: bool
  tn_set_fm_seen :: bool
  tn_session_ok :: bool
  tn_persist :: bool
  tn_tx_ready_at :: "real option"

definition new_tuner :: "bool \<Rightarrow> uvk5_tuner" where
  "new_tuner persist =
     \<lparr>tn_asked = [], tn_now = 0, tn_muted_until = 0, tn_modulation = None, tn_tx_ok = None, tn_fm = None, tn_rescues = 0,
      tn_probe_armed = True, tn_probe_saw_on = False, tn_fm_seen = False, tn_set_fm_seen = False, tn_session_ok = False,
      tn_persist = persist, tn_tx_ready_at = None\<rparr>"

subsection \<open>Requests\<close>

fun arms_lockout :: "dock_message \<Rightarrow> bool" where
  "arms_lockout (Hello _) \<longleftrightarrow> True"
| "arms_lockout (EepromRead _ _ _ _) \<longleftrightarrow> True"
| "arms_lockout (EepromWrite _ _ _ _) \<longleftrightarrow> True"
| "arms_lockout _ \<longleftrightarrow> False"

definition after_asking :: "dock_radio \<Rightarrow> dock_message \<Rightarrow> uvk5_tuner \<Rightarrow> uvk5_tuner" where
  "after_asking c m s =
     (let now = tn_now s + max 0 (dr_took c (tn_asked s) m)
      in s\<lparr>tn_asked := tn_asked s @ [m], tn_now := now,
           tn_muted_until := (if arms_lockout m then now + SERIAL_TX_LOCKOUT_S else tn_muted_until s)\<rparr>)"

definition tp_request :: "dock_radio \<Rightarrow> dock_message \<Rightarrow> (dock_message \<Rightarrow> bool) \<Rightarrow> (uvk5_tuner, dock_message) meth" where
  "tp_request c m match s =
     (case dr_answer c (tn_asked s) m of
        Inl e \<Rightarrow> (Inl e, after_asking c m s)
      | Inr r \<Rightarrow> (if match r then Inr r else Inl Uvk5Timeout, after_asking c m s))"

text \<open>\<open>try: reply = request(...) except Uvk5Timeout: reply = None\<close>.\<close>

definition ask_or_silence :: "dock_radio \<Rightarrow> dock_message \<Rightarrow> (dock_message \<Rightarrow> bool) \<Rightarrow> (uvk5_tuner, dock_message option) meth" where
  "ask_or_silence c m match =
     catching (andthen (tp_request c m match) (\<lambda>r. returning (Some r)))
       (\<lambda>e. if e = Uvk5Timeout then returning None else raising e)"

fun is_set_vfo_reply :: "dock_message \<Rightarrow> bool" where
  "is_set_vfo_reply (SetVfoReply _ _ _ _ _) \<longleftrightarrow> True" | "is_set_vfo_reply _ \<longleftrightarrow> False"
fun is_modulation_reply :: "dock_message \<Rightarrow> bool" where
  "is_modulation_reply (SetModulationReply _ _ _ _) \<longleftrightarrow> True" | "is_modulation_reply _ \<longleftrightarrow> False"
fun is_fm_reply :: "dock_message \<Rightarrow> bool" where
  "is_fm_reply (BroadcastFmReply _ _ _ _ _) \<longleftrightarrow> True" | "is_fm_reply _ \<longleftrightarrow> False"
fun is_register :: "int \<Rightarrow> dock_message \<Rightarrow> bool" where
  "is_register reg (RegisterInfo r v) \<longleftrightarrow> r = reg" | "is_register reg _ \<longleftrightarrow> False"

subsection \<open>SetVfoTuner\<close>

definition sv_capabilities :: "uvk5_tuner \<Rightarrow> capability set" where
  "sv_capabilities s =
     SETVFO_CAPS \<union> (if tn_fm_seen s then {CapCLEAR_BROADCAST_FM} else {}) \<union> (if tn_set_fm_seen s then {CapSET_BROADCAST_FM} else {})"

definition quantise :: "int \<Rightarrow> int" where "quantise hz = hz div HZ_PER_UNIT * HZ_PER_UNIT"

definition sv_apply :: "dock_radio \<Rightarrow> vfo_image \<Rightarrow> (uvk5_tuner, unit) meth" where
  "sv_apply c v =
     (case set_vfo_new (vi_rx_hz v) (vi_offset_hz v) (vi_ctcss_tenths v) (vi_direction v) (of_bool (vi_narrow v)) (vi_power v) of
        Inl e \<Rightarrow> raising e
      | Inr m \<Rightarrow>
          andthen (ask_or_silence c m is_set_vfo_reply)
            (\<lambda>reply. case reply of
               Some (SetVfoReply status rx tx tone pwr) \<Rightarrow>
                 if status \<noteq> Member VfoAPPLIED then raising TuneError
                 else if (rx, tx) \<noteq> (quantise (vi_rx_hz v), quantise (vi_tx_hz v)) then raising TuneError
                 else if tone \<noteq> vi_ctcss_tenths v then raising TuneError
                 else if pwr \<noteq> FIRMWARE_POWER ! nat (vi_power v) then raising TuneError
                 else returning ()
             | _ \<Rightarrow> raising TuneError))"

definition MODULATION_VALUES :: "(string \<times> int) list" where
  "MODULATION_VALUES = map (\<lambda>(v, n). (n, v)) MODULATION_NAMES"

definition sv_set_modulation :: "dock_radio \<Rightarrow> string \<Rightarrow> (uvk5_tuner, bool) meth" where
  "sv_set_modulation c want =
     (case map_of MODULATION_VALUES want of
        None \<Rightarrow> raising ValueError
      | Some n \<Rightarrow>
          andthen (ask_or_silence c (SetModulation n) is_modulation_reply)
            (\<lambda>reply. case reply of
               Some (SetModulationReply status modulation raw flags) \<Rightarrow>
                 if status \<noteq> Member ModAPPLIED then raising TuneError
                 else if map_of MODULATION_NAMES modulation \<noteq> Some want then raising TuneError
                 else let ok = (flags AND FLAG_TX_OK \<noteq> 0)
                      in andthen (modifying (\<lambda>s. s\<lparr>tn_modulation := Some want, tn_tx_ok := Some ok\<rparr>)) (\<lambda>_. returning ok)
             | _ \<Rightarrow> raising TuneError))"

definition read_rssi :: "dock_radio \<Rightarrow> (uvk5_tuner, int option) meth" where
  "read_rssi c =
     catching
       (andthen (tp_request c (ReadRegisters [RSSI_REGISTER]) (is_register RSSI_REGISTER))
         (\<lambda>r. case r of RegisterInfo reg v \<Rightarrow> (let n = v AND RSSI_MASK in returning (if n = 0 then None else Some n))
              | _ \<Rightarrow> raising AttributeError))
       (\<lambda>e. if e \<in> {Uvk5Timeout, Uvk5Closed, OSError} then returning None else raising e)"

subsection \<open>The second receiver\<close>

definition fm_block :: "bool \<Rightarrow> int \<Rightarrow> int \<Rightarrow> int \<Rightarrow> nat \<Rightarrow> broadcast_fm" where
  "fm_block on hz band flags rescues =
     \<lparr>bf_on = on, bf_hz = fm_reply_hz hz, bf_band = fm_reply_band band, bf_blocks_tx = Some (fm_reply_blocks_tx flags), bf_rescues = rescues\<rparr>"

definition no_receiver :: "nat \<Rightarrow> broadcast_fm" where
  "no_receiver rescues = \<lparr>bf_on = False, bf_hz = None, bf_band = None, bf_blocks_tx = Some False, bf_rescues = rescues\<rparr>"

definition probe_broadcast_fm :: "dock_radio \<Rightarrow> (uvk5_tuner, bool option) meth" where
  "probe_broadcast_fm c s =
     (if \<not> tn_probe_armed s then (Inr None, s)
      else catching
             (andthen (tp_request c ProbeBroadcastFm is_fm_reply)
               (\<lambda>r. case r of
                  BroadcastFmReply status state hz band flags \<Rightarrow>
                    if status = Member FmERR_OFF then returning (Some False)
                    else if status = Member FmERR_BAND
                    then andthen (modifying (\<lambda>s. s\<lparr>tn_probe_saw_on := True\<rparr>)) (\<lambda>_. returning (Some True))
                    else if status = Member FmAPPLIED
                    then andthen (modifying (\<lambda>s. s\<lparr>tn_probe_armed := False\<rparr>)) (\<lambda>_. returning None)
                    else returning None
                | _ \<Rightarrow> raising AttributeError))
             (\<lambda>e. if e \<in> {Uvk5Timeout, OSError} then returning None else raising e)
             (s\<lparr>tn_probe_saw_on := False\<rparr>))"

definition disarm_rescue :: "uvk5_tuner \<Rightarrow> uvk5_tuner" where
  "disarm_rescue s = s\<lparr>tn_probe_saw_on := False\<rparr>"

text \<open>An answer of any status earns the capabilities.\<close>

definition fm_answered :: "uvk5_tuner \<Rightarrow> uvk5_tuner" where
  "fm_answered s = s\<lparr>tn_fm_seen := True, tn_set_fm_seen := True\<rparr>"

definition clear_broadcast_fm :: "dock_radio \<Rightarrow> (uvk5_tuner, bool) meth" where
  "clear_broadcast_fm c =
     andthen (ask_or_silence c ClearBroadcastFm is_fm_reply)
       (\<lambda>reply s. case reply of
          Some (BroadcastFmReply status state hz band flags) \<Rightarrow>
            if status = Member FmERR_TX then (Inl TuneBusy, fm_answered s)
            else let s1 = fm_answered (s\<lparr>tn_fm := None\<rparr>) in
              if status = Member FmERR_NO_HAL
              then (Inr True, s1\<lparr>tn_set_fm_seen := False, tn_fm := Some (no_receiver (tn_rescues s))\<rparr>)
              else if \<not> fm_reply_ok status then (Inl TuneError, s1)
              else (case fm_reply_on state of
                      None \<Rightarrow> (Inl TuneError, s1)
                    | Some on \<Rightarrow>
                        (let rescue = (\<not> on \<and> tn_probe_saw_on s); n = tn_rescues s + of_bool rescue
                         in (Inr (\<not> on), s1\<lparr>tn_fm := Some (fm_block on hz band flags n), tn_rescues := n,
                               tn_probe_saw_on := (tn_probe_saw_on s \<and> on)\<rparr>)))
        | _ \<Rightarrow> (Inl TuneError, s\<lparr>tn_fm := None\<rparr>))"

definition set_broadcast_fm :: "dock_radio \<Rightarrow> string \<Rightarrow> int option \<Rightarrow> int \<Rightarrow> (uvk5_tuner, bool) meth" where
  "set_broadcast_fm c action hz band =
     (case set_broadcast_fm_new action hz band of
        Inl e \<Rightarrow> raising e
      | Inr m \<Rightarrow>
          andthen (ask_or_silence c m is_fm_reply)
            (\<lambda>reply s. case reply of
               Some (BroadcastFmReply status state rhz rband flags) \<Rightarrow>
                 if status \<in> {Member FmERR_TX, Member FmERR_OFF} then (Inl TuneBusy, fm_answered s)
                 else if status = Member FmERR_BAND then (Inl ValueError, fm_answered s)
                 else let s1 = fm_answered (s\<lparr>tn_fm := None\<rparr>) in
                   if status = Member FmERR_NO_HAL
                   then (Inl TuneError, s1\<lparr>tn_set_fm_seen := False, tn_fm := Some (no_receiver (tn_rescues s))\<rparr>)
                   else if \<not> fm_reply_ok status then (Inl TuneError, s1)
                   else (case fm_reply_on state of
                           None \<Rightarrow> (Inl TuneError, s1)
                         | Some on \<Rightarrow> (Inr on, s1\<lparr>tn_fm := Some (fm_block on rhz rband flags (tn_rescues s))\<rparr>))
             | _ \<Rightarrow> (Inl TuneError, s\<lparr>tn_fm := None\<rparr>)))"

subsection \<open>What a request leaves behind\<close>

lemma after_asking_simps [simp]:
  "tn_asked (after_asking c m s) = tn_asked s @ [m]"
  "tn_modulation (after_asking c m s) = tn_modulation s"
  "tn_tx_ok (after_asking c m s) = tn_tx_ok s"
  "tn_fm (after_asking c m s) = tn_fm s"
  "tn_rescues (after_asking c m s) = tn_rescues s"
  "tn_probe_armed (after_asking c m s) = tn_probe_armed s"
  "tn_probe_saw_on (after_asking c m s) = tn_probe_saw_on s"
  "tn_fm_seen (after_asking c m s) = tn_fm_seen s"
  "tn_set_fm_seen (after_asking c m s) = tn_set_fm_seen s"
  "tn_session_ok (after_asking c m s) = tn_session_ok s"
  "tn_persist (after_asking c m s) = tn_persist s"
  "tn_tx_ready_at (after_asking c m s) = tn_tx_ready_at s"
  by (simp_all add: after_asking_def Let_def)

lemma after_asking_time: "tn_now s \<le> tn_now (after_asking c m s)"
  by (simp add: after_asking_def Let_def)

lemma after_asking_free: "\<not> arms_lockout m \<Longrightarrow> tn_muted_until (after_asking c m s) = tn_muted_until s"
  by (simp add: after_asking_def Let_def)

lemma ask_or_silence_cases:
  assumes "ask_or_silence c m match s = (r, s')"
  shows "s' = after_asking c m s \<and>
    ((\<exists>x. r = Inr (Some x) \<and> match x \<and> dr_answer c (tn_asked s) m = Inr x) \<or> r = Inr None
     \<or> (\<exists>e. r = Inl e \<and> e \<noteq> Uvk5Timeout \<and> dr_answer c (tn_asked s) m = Inl e))"
proof (cases "dr_answer c (tn_asked s) m")
  case (Inl e)
  then show ?thesis using assms
    by (cases "e = Uvk5Timeout") (auto simp: ask_or_silence_def catching_def andthen_def tp_request_def)
next
  case (Inr x)
  then show ?thesis using assms
    by (cases "match x") (auto simp: ask_or_silence_def catching_def andthen_def tp_request_def)
qed

lemma ask_or_silence_answered:
  "dr_answer c (tn_asked s) m = Inr x \<Longrightarrow> match x \<Longrightarrow> ask_or_silence c m match s = (Inr (Some x), after_asking c m s)"
  by (simp add: ask_or_silence_def tp_request_def catching_def andthen_def)

subsection \<open>A tune\<close>

lemma sv_apply_cases:
  assumes "sv_apply c v s = (r, s')"
  shows "(s' = s \<and> r = Inl ValueError) \<or>
    (\<exists>m. set_vfo_new (vi_rx_hz v) (vi_offset_hz v) (vi_ctcss_tenths v) (vi_direction v) (of_bool (vi_narrow v)) (vi_power v) = Inr m
       \<and> s' = after_asking c m s
       \<and> (r = Inr () \<longrightarrow> dr_answer c (tn_asked s) m = Inr (SetVfoReply (Member VfoAPPLIED) (quantise (vi_rx_hz v)) (quantise (vi_tx_hz v))
              (vi_ctcss_tenths v) (FIRMWARE_POWER ! nat (vi_power v)))))"
proof (cases "set_vfo_new (vi_rx_hz v) (vi_offset_hz v) (vi_ctcss_tenths v) (vi_direction v) (of_bool (vi_narrow v)) (vi_power v)")
  case (Inl e)
  moreover from Inl have "e = ValueError" by (auto simp: set_vfo_new_def split: if_splits)
  ultimately show ?thesis using assms by (simp add: sv_apply_def)
next
  case (Inr m)
  obtain q s1 where 1: "ask_or_silence c m is_set_vfo_reply s = (q, s1)" by fastforce
  note a = ask_or_silence_cases [OF 1]
  show ?thesis
  proof (cases q)
    case (Inl e)
    then show ?thesis using assms 1 a \<open>set_vfo_new _ _ _ _ _ _ = Inr m\<close> by (auto simp: sv_apply_def)
  next
    case (Inr reply)
    note q = Inr
    show ?thesis
    proof (cases reply)
      case None
      then show ?thesis using assms 1 a q \<open>set_vfo_new _ _ _ _ _ _ = Inr m\<close> by (auto simp: sv_apply_def)
    next
      case (Some x)
      then have "is_set_vfo_reply x" "dr_answer c (tn_asked s) m = Inr x" using a q by auto
      then obtain st rx tx tone pwr where x: "x = SetVfoReply st rx tx tone pwr" by (cases x) auto
      show ?thesis using assms 1 a q Some x \<open>dr_answer c (tn_asked s) m = Inr x\<close> \<open>set_vfo_new _ _ _ _ _ _ = Inr m\<close>
        by (auto simp: sv_apply_def split: if_splits)
    qed
  qed
qed

text \<open>A tune that returns was confirmed by the radio: it asked once, for this channel's receive frequency, offset,
  direction, tone, bandwidth and power, and the radio answered that it is applied and that it landed on both
  frequencies in its 10 Hz units, on the tone and on the power level of its own scale.
\<close>

theorem tune_is_confirmed:
  assumes "sv_apply c v s = (Inr (), s')"
  shows "\<exists>m. m = SetVfo (vi_rx_hz v) (vi_offset_hz v) (vi_ctcss_tenths v) (vi_direction v) (of_bool (vi_narrow v)) (vi_power v)
    \<and> tn_asked s' = tn_asked s @ [m]
    \<and> dr_answer c (tn_asked s) m = Inr (SetVfoReply (Member VfoAPPLIED) (quantise (vi_rx_hz v)) (quantise (vi_tx_hz v))
        (vi_ctcss_tenths v) (FIRMWARE_POWER ! nat (vi_power v)))"
proof -
  from sv_apply_cases [OF assms] obtain m where
    m: "set_vfo_new (vi_rx_hz v) (vi_offset_hz v) (vi_ctcss_tenths v) (vi_direction v) (of_bool (vi_narrow v)) (vi_power v) = Inr m"
    and "s' = after_asking c m s" "dr_answer c (tn_asked s) m = Inr (SetVfoReply (Member VfoAPPLIED) (quantise (vi_rx_hz v)) (quantise (vi_tx_hz v))
        (vi_ctcss_tenths v) (FIRMWARE_POWER ! nat (vi_power v)))" by auto
  moreover from m have "m = SetVfo (vi_rx_hz v) (vi_offset_hz v) (vi_ctcss_tenths v) (vi_direction v) (of_bool (vi_narrow v)) (vi_power v)"
    by (auto simp: set_vfo_new_def split: if_splits)
  ultimately show ?thesis by auto
qed

text \<open>A radio that applies every channel in its own units, as \<open>RADIO_ApplyOffset\<close> is described: offset and all.\<close>

fun exact_answer :: "dock_message \<Rightarrow> exn + dock_message" where
  "exact_answer (SetVfo rx off tone direction narrow pwr) =
     (let rx' = quantise rx; off' = quantise off
      in Inr (SetVfoReply (Member VfoAPPLIED) rx' (if direction = OFFSET_ADD then rx' + off' else if direction = OFFSET_SUB then rx' - off' else rx')
           tone (FIRMWARE_POWER ! nat pwr)))"
| "exact_answer _ = Inl Uvk5Timeout"

definition exact_radio :: dock_radio where
  "exact_radio = \<lparr>dr_answer = (\<lambda>h m. exact_answer m), dr_took = (\<lambda>h m. 1)\<rparr>"

definition repeater :: vfo_image where
  "repeater = \<lparr>vi_rx_hz = 146940000, vi_tx_hz = 146340000, vi_ctcss_tenths = 1000, vi_narrow = False, vi_power = 2\<rparr>"

theorem tune_is_confirmed_witness:
  "\<exists>m. dr_answer exact_radio [] m = Inr (SetVfoReply (Member VfoAPPLIED) 146940000 146340000 1000 7)"
proof -
  have "fst (sv_apply exact_radio repeater (new_tuner False)) = Inr ()" by code_simp
  then have "sv_apply exact_radio repeater (new_tuner False) = (Inr (), snd (sv_apply exact_radio repeater (new_tuner False)))"
    by (simp add: prod_eq_iff)
  from tune_is_confirmed [OF this] show ?thesis
    by (auto simp: repeater_def new_tuner_def quantise_def HZ_PER_UNIT_def FIRMWARE_POWER_def)
qed

lemma set_vfo_new_valid:
  "vfo_valid v \<Longrightarrow> set_vfo_new (vi_rx_hz v) (vi_offset_hz v) (vi_ctcss_tenths v) (vi_direction v) (of_bool (vi_narrow v)) (vi_power v)
     = Inr (SetVfo (vi_rx_hz v) (vi_offset_hz v) (vi_ctcss_tenths v) (vi_direction v) (of_bool (vi_narrow v)) (vi_power v))"
  by (auto simp: set_vfo_new_def vfo_valid_iff vi_direction_def vi_offset_hz_def OFFSET_NONE_def OFFSET_ADD_def OFFSET_SUB_def)

lemma stored_tx_on_raster: "10 dvd vi_rx_hz v \<Longrightarrow> 10 dvd vi_tx_hz v \<Longrightarrow> vfo_stored_tx v = quantise (vi_tx_hz v)"
  by (auto simp: vfo_stored_tx_def vfo_stored_rx_def quantise_def HZ_PER_UNIT_def)

text \<open>A radio that lands as close to a channel as its 10 Hz units allow is believed on every channel whose two
  frequencies are multiples of 10 Hz. Off that raster the tune is refused whenever receive frequency and offset,
  rounded separately as the radio does it, do not add up to the rounded transmit frequency.
\<close>

theorem exact_radio_believed_on_raster:
  assumes "vfo_valid v"
    and "dr_answer c (tn_asked s) (SetVfo (vi_rx_hz v) (vi_offset_hz v) (vi_ctcss_tenths v) (vi_direction v) (of_bool (vi_narrow v)) (vi_power v))
      = Inr (SetVfoReply (Member VfoAPPLIED) (vfo_stored_rx v) (vfo_stored_tx v) (vi_ctcss_tenths v) (FIRMWARE_POWER ! nat (vi_power v)))"
  shows "fst (sv_apply c v s) = (if vfo_stored_tx v = quantise (vi_tx_hz v) then Inr () else Inl TuneError)
    \<and> (10 dvd vi_rx_hz v \<and> 10 dvd vi_tx_hz v \<longrightarrow> fst (sv_apply c v s) = Inr ())"
proof -
  let ?m = "SetVfo (vi_rx_hz v) (vi_offset_hz v) (vi_ctcss_tenths v) (vi_direction v) (of_bool (vi_narrow v)) (vi_power v)"
  have "vfo_stored_rx v = quantise (vi_rx_hz v)" by (simp add: vfo_stored_rx_def quantise_def HZ_PER_UNIT_def)
  then have "fst (sv_apply c v s) = (if vfo_stored_tx v = quantise (vi_tx_hz v) then Inr () else Inl TuneError)"
    using ask_or_silence_answered [OF assms(2), of is_set_vfo_reply] set_vfo_new_valid [OF assms(1)]
    by (simp add: sv_apply_def)
  then show ?thesis using stored_tx_on_raster by auto
qed

definition off_raster :: vfo_image where
  "off_raster = \<lparr>vi_rx_hz = 145000005, vi_tx_hz = 145600000, vi_ctcss_tenths = 0, vi_narrow = False, vi_power = 2\<rparr>"

theorem exact_radio_believed_on_raster_witness:
  "fst (sv_apply exact_radio off_raster (new_tuner False)) = Inl TuneError"
proof -
  have "vfo_valid off_raster" by code_simp
  moreover have "dr_answer exact_radio (tn_asked (new_tuner False)) (SetVfo (vi_rx_hz off_raster) (vi_offset_hz off_raster)
      (vi_ctcss_tenths off_raster) (vi_direction off_raster) (of_bool (vi_narrow off_raster)) (vi_power off_raster))
      = Inr (SetVfoReply (Member VfoAPPLIED) (vfo_stored_rx off_raster) (vfo_stored_tx off_raster) (vi_ctcss_tenths off_raster)
          (FIRMWARE_POWER ! nat (vi_power off_raster)))" by code_simp
  moreover have "vfo_stored_tx off_raster \<noteq> quantise (vi_tx_hz off_raster)" by code_simp
  ultimately show ?thesis using exact_radio_believed_on_raster [of off_raster exact_radio "new_tuner False"] by simp
qed

subsection \<open>What is reported of the radio\<close>

definition blocks_ok :: "uvk5_tuner \<Rightarrow> bool" where
  "blocks_ok s \<longleftrightarrow> (tn_modulation s = None \<longleftrightarrow> tn_tx_ok s = None) \<and> (\<forall>m. tn_modulation s = Some m \<longrightarrow> m \<in> {''FM'', ''AM''})
     \<and> (\<forall>b. tn_fm s = Some b \<longrightarrow> bf_rescues b = tn_rescues s \<and> tn_fm_seen s) \<and> (tn_set_fm_seen s \<longrightarrow> tn_fm_seen s)"

lemma blocks_ok_new: "blocks_ok (new_tuner p)"
  by (simp add: blocks_ok_def new_tuner_def)

lemma blocks_ok_asked: "blocks_ok s \<Longrightarrow> blocks_ok (after_asking c m s)"
  by (simp add: blocks_ok_def)

lemma blocks_okI_fields:
  "blocks_ok s \<Longrightarrow> tn_modulation s' = tn_modulation s \<Longrightarrow> tn_tx_ok s' = tn_tx_ok s \<Longrightarrow> tn_fm s' = tn_fm s \<Longrightarrow> tn_rescues s' = tn_rescues s
    \<Longrightarrow> tn_fm_seen s' = tn_fm_seen s \<Longrightarrow> tn_set_fm_seen s' = tn_set_fm_seen s \<Longrightarrow> blocks_ok s'"
  by (simp add: blocks_ok_def)

text \<open>What a method that only asks for its reply does with it, whatever the reply.\<close>

lemma after_reply:
  assumes "\<And>reply s. I s \<Longrightarrow> I (snd (k reply s))" and "\<And>s. I s \<Longrightarrow> I (after_asking c m s)" and "I s"
  shows "I (snd (andthen (ask_or_silence c m match) k s))"
proof -
  obtain r s1 where 1: "ask_or_silence c m match s = (r, s1)" by fastforce
  then have "I s1" using ask_or_silence_cases [OF 1] assms by simp
  then show ?thesis using 1 assms(1) by (cases r) simp_all
qed

lemma sv_apply_blocks: "blocks_ok s \<Longrightarrow> blocks_ok (snd (sv_apply c v s))"
  using sv_apply_cases [of c v s "fst (sv_apply c v s)" "snd (sv_apply c v s)"] by (auto intro: blocks_ok_asked)

lemma set_modulation_blocks: "blocks_ok s \<Longrightarrow> blocks_ok (snd (sv_set_modulation c want s))"
proof (cases "map_of MODULATION_VALUES want")
  case (Some n)
  assume ok: "blocks_ok s"
  have want: "want \<in> {''FM'', ''AM''}" using Some by (auto simp: MODULATION_VALUES_def MODULATION_NAMES_def split: if_splits)
  show ?thesis unfolding sv_set_modulation_def Some option.case
    by (rule after_reply [where I = blocks_ok, OF _ blocks_ok_asked ok])
      (use want in \<open>auto simp: Let_def blocks_ok_def split: option.splits dock_message.splits\<close>)
qed (simp add: sv_set_modulation_def)

lemma clear_blocks: "blocks_ok s \<Longrightarrow> blocks_ok (snd (clear_broadcast_fm c s))"
  unfolding clear_broadcast_fm_def
  by (rule after_reply [where I = blocks_ok, OF _ blocks_ok_asked])
    (auto simp: Let_def blocks_ok_def fm_answered_def fm_block_def no_receiver_def split: option.splits dock_message.splits)

lemma set_fm_blocks: "blocks_ok s \<Longrightarrow> blocks_ok (snd (set_broadcast_fm c action hz band s))"
proof (cases "set_broadcast_fm_new action hz band")
  case (Inr m)
  assume ok: "blocks_ok s"
  show ?thesis unfolding set_broadcast_fm_def Inr sum.case
    by (rule after_reply [where I = blocks_ok, OF _ blocks_ok_asked ok])
      (auto simp: Let_def blocks_ok_def fm_answered_def fm_block_def no_receiver_def split: option.splits dock_message.splits)
qed (simp add: set_broadcast_fm_def)

lemma probe_cases:
  assumes "probe_broadcast_fm c s = (r, s')"
  shows "(s' = s \<and> r = Inr None) \<or>
    (\<exists>armed saw. s' = (after_asking c ProbeBroadcastFm (s\<lparr>tn_probe_saw_on := False\<rparr>))\<lparr>tn_probe_armed := armed, tn_probe_saw_on := saw\<rparr>
       \<and> (\<forall>e. r = Inl e \<longrightarrow> e \<notin> {Uvk5Timeout, OSError} \<and> dr_answer c (tn_asked s) ProbeBroadcastFm = Inl e)
       \<and> (r = Inr (Some True) \<longrightarrow> saw \<and> (\<exists>st hz band flags. dr_answer c (tn_asked s) ProbeBroadcastFm = Inr (BroadcastFmReply (Member FmERR_BAND) st hz band flags)))
       \<and> (r = Inr (Some False) \<longrightarrow> (\<exists>st hz band flags. dr_answer c (tn_asked s) ProbeBroadcastFm = Inr (BroadcastFmReply (Member FmERR_OFF) st hz band flags)))
       \<and> (saw \<longrightarrow> r = Inr (Some True)))"
proof (cases "tn_probe_armed s")
  case True
  let ?s = "s\<lparr>tn_probe_saw_on := False\<rparr>"
  have keep: "after_asking c ProbeBroadcastFm ?s = (after_asking c ProbeBroadcastFm ?s)\<lparr>tn_probe_armed := True, tn_probe_saw_on := False\<rparr>"
    using True by (simp add: after_asking_def Let_def)
  show ?thesis
  proof (cases "dr_answer c (tn_asked s) ProbeBroadcastFm")
    case (Inl e)
    then have "s' = after_asking c ProbeBroadcastFm ?s \<and> r = (if e \<in> {Uvk5Timeout, OSError} then Inr None else Inl e)"
      using assms True by (auto simp: probe_broadcast_fm_def tp_request_def catching_def andthen_def split: if_splits)
    then show ?thesis using keep Inl by (intro disjI2 exI [of _ True] exI [of _ False]) (auto split: if_splits)
  next
    case (Inr x)
    show ?thesis
    proof (cases "is_fm_reply x")
      case False
      then have "s' = after_asking c ProbeBroadcastFm ?s \<and> r = Inr None"
        using assms True Inr by (auto simp: probe_broadcast_fm_def tp_request_def catching_def andthen_def)
      then show ?thesis using keep by (intro disjI2 exI [of _ True] exI [of _ False]) simp
    next
      case True
      then obtain status st hz band flags where x: "x = BroadcastFmReply status st hz band flags" by (cases x) auto
      let ?armed = "status \<noteq> Member FmAPPLIED" and ?saw = "status = Member FmERR_BAND"
      have "s' = (after_asking c ProbeBroadcastFm ?s)\<lparr>tn_probe_armed := ?armed, tn_probe_saw_on := ?saw\<rparr>
          \<and> r = Inr (if status = Member FmERR_OFF then Some False else if ?saw then Some True else None)"
        using assms \<open>tn_probe_armed s\<close> Inr x keep
        by (auto simp: probe_broadcast_fm_def tp_request_def catching_def andthen_def split: if_splits)
      then show ?thesis using Inr x
        by (intro disjI2 exI [of _ ?armed] exI [of _ ?saw]) (auto split: if_splits)
    qed
  qed
qed (use assms in \<open>simp add: probe_broadcast_fm_def\<close>)

lemma probe_blocks: "blocks_ok s \<Longrightarrow> blocks_ok (snd (probe_broadcast_fm c s))"
  using probe_cases [of c s "fst (probe_broadcast_fm c s)" "snd (probe_broadcast_fm c s)"]
  by (auto simp: blocks_ok_def)

text \<open>The probe of the second receiver only looks: it changes nothing that is reported (the block, the rescue
  count, the capabilities, the demodulator), it says running or off only on the radio's two refusals that mean so,
  and what it raises is an exception of the transport that is neither a time out nor an \<open>OSError\<close>: not nothing.
\<close>

theorem probe_only_looks:
  assumes "probe_broadcast_fm c s = (r, s')"
  shows "tn_fm s' = tn_fm s \<and> tn_rescues s' = tn_rescues s \<and> sv_capabilities s' = sv_capabilities s
    \<and> tn_modulation s' = tn_modulation s \<and> tn_tx_ok s' = tn_tx_ok s
    \<and> (r = Inr (Some True) \<longrightarrow> (\<exists>st hz band flags. dr_answer c (tn_asked s) ProbeBroadcastFm = Inr (BroadcastFmReply (Member FmERR_BAND) st hz band flags)))
    \<and> (r = Inr (Some False) \<longrightarrow> (\<exists>st hz band flags. dr_answer c (tn_asked s) ProbeBroadcastFm = Inr (BroadcastFmReply (Member FmERR_OFF) st hz band flags)))
    \<and> (\<forall>e. r = Inl e \<longrightarrow> e \<notin> {Uvk5Timeout, OSError} \<and> dr_answer c (tn_asked s) ProbeBroadcastFm = Inl e)"
  using probe_cases [OF assms]
proof (elim disjE exE conjE)
  assume "s' = s" "r = Inr None"
  then show ?thesis by simp
next
  fix armed saw
  assume s': "s' = (after_asking c ProbeBroadcastFm (s\<lparr>tn_probe_saw_on := False\<rparr>))\<lparr>tn_probe_armed := armed, tn_probe_saw_on := saw\<rparr>"
    and r: "\<forall>e. r = Inl e \<longrightarrow> e \<notin> {Uvk5Timeout, OSError} \<and> dr_answer c (tn_asked s) ProbeBroadcastFm = Inl e"
      "r = Inr (Some True) \<longrightarrow> saw \<and> (\<exists>st hz band flags. dr_answer c (tn_asked s) ProbeBroadcastFm = Inr (BroadcastFmReply (Member FmERR_BAND) st hz band flags))"
      "r = Inr (Some False) \<longrightarrow> (\<exists>st hz band flags. dr_answer c (tn_asked s) ProbeBroadcastFm = Inr (BroadcastFmReply (Member FmERR_OFF) st hz band flags))"
  have "tn_fm s' = tn_fm s \<and> tn_rescues s' = tn_rescues s \<and> sv_capabilities s' = sv_capabilities s
      \<and> tn_modulation s' = tn_modulation s \<and> tn_tx_ok s' = tn_tx_ok s"
    by (simp add: s' sv_capabilities_def)
  then show ?thesis using r by simp
qed

definition closed_radio :: dock_radio where
  "closed_radio = \<lparr>dr_answer = (\<lambda>h m. Inl Uvk5Closed), dr_took = (\<lambda>h m. 0)\<rparr>"

theorem probe_only_looks_witness:
  "fst (probe_broadcast_fm closed_radio (new_tuner False)) = Inl Uvk5Closed
     \<and> tn_fm (snd (probe_broadcast_fm closed_radio (new_tuner False))) = None"
proof -
  let ?p = "probe_broadcast_fm closed_radio (new_tuner False)"
  have "fst ?p = Inl Uvk5Closed" by code_simp
  moreover have "?p = (fst ?p, snd ?p)" by simp
  from probe_only_looks [OF this] have "tn_fm (snd ?p) = tn_fm (new_tuner False)" by blast
  ultimately show ?thesis by (simp add: new_tuner_def)
qed

text \<open>Clearing the second receiver reports what the radio said after it acted: true is returned exactly with a
  block that says off, false exactly with one that says on, and on a refusal or silence the block is gone, unless
  the radio was busy. But an exception of the transport other than a time out (a dead reader's, a close) escapes
  before the block is blanked: the old reading stands after an attempt that learned nothing.
\<close>

theorem clear_reports_the_radio:
  assumes "clear_broadcast_fm c s = (r, s')"
  shows "case r of
      Inr off \<Rightarrow> (\<exists>b. tn_fm s' = Some b \<and> bf_on b = (\<not> off))
    | Inl e \<Rightarrow> if e = TuneError \<and> dr_answer c (tn_asked s) ClearBroadcastFm \<noteq> Inl TuneError then tn_fm s' = None else tn_fm s' = tn_fm s"
proof -
  obtain q s1 where 1: "ask_or_silence c ClearBroadcastFm is_fm_reply s = (q, s1)" by fastforce
  note a = ask_or_silence_cases [OF 1]
  show ?thesis
  proof (cases q)
    case (Inl e)
    then have "r = Inl e \<and> s' = s1" using assms 1 by (simp add: clear_broadcast_fm_def)
    then show ?thesis using a Inl by auto
  next
    case (Inr reply)
    show ?thesis
    proof (cases reply)
      case None
      then have "r = Inl TuneError \<and> s' = s1\<lparr>tn_fm := None\<rparr>" using assms 1 Inr by (simp add: clear_broadcast_fm_def)
      moreover have "dr_answer c (tn_asked s) ClearBroadcastFm \<noteq> Inl TuneError"
        using 1 Inr None by (auto simp: ask_or_silence_def tp_request_def catching_def andthen_def)
      ultimately show ?thesis by simp
    next
      case (Some x)
      then have x: "is_fm_reply x" "dr_answer c (tn_asked s) ClearBroadcastFm = Inr x" using a Inr by auto
      then obtain status st hz band flags where "x = BroadcastFmReply status st hz band flags" by (cases x) auto
      with assms 1 Inr Some x a show ?thesis
        by (auto simp: clear_broadcast_fm_def Let_def fm_answered_def fm_block_def no_receiver_def split: if_splits option.splits)
    qed
  qed
qed

theorem clear_reports_the_radio_witness:
  "tn_fm (snd (clear_broadcast_fm closed_radio ((new_tuner False)\<lparr>tn_fm := Some (no_receiver 0)\<rparr>))) = Some (no_receiver 0)"
proof -
  let ?s = "(new_tuner False)\<lparr>tn_fm := Some (no_receiver 0)\<rparr>"
  let ?p = "clear_broadcast_fm closed_radio ?s"
  have f: "fst ?p = Inl Uvk5Closed" by code_simp
  have "?p = (fst ?p, snd ?p)" by simp
  from clear_reports_the_radio [OF this] show ?thesis unfolding f by simp
qed

end
