(* ===== verification/Uvk5Storage.thy ===== *)
theory Uvk5Storage
  imports Uvk5Tuner
begin

section \<open>Storing a channel in a UV-K5, and doing both\<close>

text \<open>
  \<open>EepromTuner\<close> and \<open>HybridTuner\<close> of \<open>radio_server/backends/uvk5/tuner.py\<close> over the state of the previous theory.
  The radio's storage is behind the transport: what the code relies on, that an answered read returns the stored
  bytes and an answered write stores its own and no others, is the predicate \<open>storage\<close> on the radio.
\<close>

definition SESSION_TIMESTAMP :: int where "SESSION_TIMESTAMP = 0x12345678"
definition REBOOT_SETTLE_S :: real where "REBOOT_SETTLE_S = 6"
definition REBOOT_HELLO_ATTEMPTS :: nat where "REBOOT_HELLO_ATTEMPTS = 4"

fun is_im_here :: "dock_message \<Rightarrow> bool" where
  "is_im_here (ImHere _ _ _ _) \<longleftrightarrow> True" | "is_im_here _ \<longleftrightarrow> False"
fun is_read_reply :: "int \<Rightarrow> dock_message \<Rightarrow> bool" where
  "is_read_reply off (EepromReadReply o' _ _ _) \<longleftrightarrow> o' = off" | "is_read_reply off _ \<longleftrightarrow> False"
fun is_write_reply :: "dock_message \<Rightarrow> bool" where
  "is_write_reply (EepromWriteReply _) \<longleftrightarrow> True" | "is_write_reply _ \<longleftrightarrow> False"

definition sleeping :: "real \<Rightarrow> uvk5_tuner \<Rightarrow> uvk5_tuner" where
  "sleeping d s = s\<lparr>tn_now := tn_now s + d\<rparr>"

subsection \<open>The session\<close>

text \<open>\<open>_hello\<close>: the number is of attempts left.\<close>

fun ee_hello :: "dock_radio \<Rightarrow> nat \<Rightarrow> (uvk5_tuner, unit) meth" where
  "ee_hello c 0 s = (Inl TuneError, s\<lparr>tn_session_ok := False\<rparr>)"
| "ee_hello c (Suc n) s =
     (case tp_request c (Hello SESSION_TIMESTAMP) is_im_here s of
        (Inl e, s1) \<Rightarrow>
          if e = Uvk5Timeout then ee_hello c n (if n = 0 then s1 else sleeping 1 s1) else (Inl e, s1)
      | (Inr r, s1) \<Rightarrow>
          (case r of
             ImHere version aes locked challenge \<Rightarrow>
               if aes \<noteq> 0 \<and> locked \<noteq> 0 then (Inl TuneError, s1\<lparr>tn_session_ok := False\<rparr>)
               else (Inr (), s1\<lparr>tn_session_ok := True\<rparr>)
           | _ \<Rightarrow> (Inl AttributeError, s1)))"

definition ee_exchange :: "dock_radio \<Rightarrow> (uvk5_tuner, dock_message) meth \<Rightarrow> (uvk5_tuner, dock_message) meth" where
  "ee_exchange c attempt =
     andthen (\<lambda>s. if tn_session_ok s then (Inr (), s) else ee_hello c 1 s)
       (\<lambda>_. catching attempt
         (\<lambda>e. if e \<noteq> Uvk5Timeout then raising e
              else andthen (modifying (\<lambda>s. s\<lparr>tn_session_ok := False\<rparr>))
                     (\<lambda>_. andthen (ee_hello c 1)
                       (\<lambda>_. catching attempt (\<lambda>e. raising (if e = Uvk5Timeout then TuneError else e))))))"

subsection \<open>Reading and writing\<close>

text \<open>\<open>attempt\<close> builds its frame each time, so a refused field raises out of the exchange.\<close>

definition asking_with :: "dock_radio \<Rightarrow> exn + dock_message \<Rightarrow> (dock_message \<Rightarrow> bool) \<Rightarrow> (uvk5_tuner, dock_message) meth" where
  "asking_with c built match = (case built of Inl e \<Rightarrow> raising e | Inr m \<Rightarrow> tp_request c m match)"

definition ee_read :: "dock_radio \<Rightarrow> int \<Rightarrow> int \<Rightarrow> (uvk5_tuner, bytes) meth" where
  "ee_read c off n =
     andthen (ee_exchange c (asking_with c (eeprom_read_new off n SESSION_TIMESTAMP 0) (is_read_reply off)))
       (\<lambda>r. case r of EepromReadReply o' k data p \<Rightarrow> returning data | _ \<Rightarrow> raising AttributeError)"

definition ee_write :: "dock_radio \<Rightarrow> int \<Rightarrow> bytes \<Rightarrow> (uvk5_tuner, unit) meth" where
  "ee_write c off data =
     andthen (ee_exchange c (asking_with c (eeprom_write_new off data SESSION_TIMESTAMP 0) is_write_reply)) (\<lambda>_. returning ())"

text \<open>\<open>buffer[lo:lo + len(value)]\<close> and the assignment to it.\<close>

definition chunk_start :: "int \<Rightarrow> int" where "chunk_start off = off - off mod int EEPROM_CHUNK"

definition chunk_len :: "int \<Rightarrow> bytes \<Rightarrow> int" where
  "chunk_len off v =
     (let span = off + int (length v) - chunk_start off
      in (span + int EEPROM_CHUNK - 1) div int EEPROM_CHUNK * int EEPROM_CHUNK)"

definition ee_patch :: "dock_radio \<Rightarrow> int \<Rightarrow> bytes \<Rightarrow> (uvk5_tuner, bool) meth" where
  "ee_patch c off v =
     andthen (ee_read c (chunk_start off) (chunk_len off v))
       (\<lambda>buffer. let lo = nat (off - chunk_start off) in
          if take (length v) (drop lo buffer) = v then returning False
          else andthen (ee_write c (chunk_start off) (take lo buffer @ v @ drop (lo + length v) buffer)) (\<lambda>_. returning True))"

definition lifting :: "exn + 'a \<Rightarrow> (uvk5_tuner, 'a) meth" where
  "lifting r = (case r of Inl e \<Rightarrow> raising e | Inr x \<Rightarrow> returning x)"

definition ee_verify :: "dock_radio \<Rightarrow> nat \<Rightarrow> int \<Rightarrow> bytes \<Rightarrow> (uvk5_tuner, unit) meth" where
  "ee_verify c band i rec =
     andthen (lifting (vfo_addr (int band) i)) (\<lambda>a. andthen (ee_read c a VFO_RECORD_LEN)
       (\<lambda>data. if data \<noteq> rec then raising TuneError else returning ()))"

definition patch_vfo :: "dock_radio \<Rightarrow> nat \<Rightarrow> int \<Rightarrow> bytes \<Rightarrow> (uvk5_tuner, bool) meth" where
  "patch_vfo c band i rec = andthen (lifting (vfo_addr (int band) i)) (\<lambda>a. ee_patch c a rec)"

definition patch_boot :: "dock_radio \<Rightarrow> int \<Rightarrow> (uvk5_tuner, bool) meth" where
  "patch_boot c ch =
     andthen (ee_read c BOOT_INDEX_BLOCK (int BOOT_INDEX_LEN)) (\<lambda>current.
       andthen (lifting (unpack_boot_indices current)) (\<lambda>(screen, mr, freq).
         andthen (lifting (pack_boot_indices (ch, ch) mr (ch, ch))) (\<lambda>block. ee_patch c BOOT_INDEX_BLOCK block)))"

definition write_channel :: "dock_radio \<Rightarrow> vfo_image \<Rightarrow> (uvk5_tuner, bool) meth" where
  "write_channel c v =
     andthen (modifying (\<lambda>s. s\<lparr>tn_session_ok := False\<rparr>)) (\<lambda>_.
     andthen (ee_hello c 1) (\<lambda>_.
     andthen (lifting (band_for (vi_rx_hz v))) (\<lambda>band.
     andthen (lifting (pack_eeprom v)) (\<lambda>rec. let ch = freq_channel (int band) in
     andthen (ee_patch c (attr_addr ch) (le_bytes 2 (attribute_word (int band)))) (\<lambda>w1.
     andthen (patch_vfo c band 0 rec) (\<lambda>w2.
     andthen (patch_vfo c band 1 rec) (\<lambda>w3.
     andthen (patch_boot c ch) (\<lambda>w4.
     andthen (ee_verify c band 0 rec) (\<lambda>_.
     andthen (ee_verify c band 1 rec) (\<lambda>_.
       returning (w1 \<or> w2 \<or> w3 \<or> w4)))))))))))"

subsection \<open>EepromTuner\<close>

definition tp_send :: "dock_radio \<Rightarrow> dock_message \<Rightarrow> (uvk5_tuner, unit) meth" where
  "tp_send c m s = (case dr_answer c (tn_asked s) m of Inl e \<Rightarrow> (Inl e, after_asking c m s) | Inr r \<Rightarrow> (Inr (), after_asking c m s))"

definition ee_apply :: "dock_radio \<Rightarrow> vfo_image \<Rightarrow> (uvk5_tuner, unit) meth" where
  "ee_apply c v =
     andthen (lifting (band_for (vi_rx_hz v))) (\<lambda>band.
     andthen (lifting (pack_eeprom v)) (\<lambda>rec.
     andthen (write_channel c v) (\<lambda>w.
     andthen (tp_send c Reset) (\<lambda>_.
     andthen (modifying (\<lambda>s. (sleeping REBOOT_SETTLE_S s)\<lparr>tn_session_ok := False\<rparr>)) (\<lambda>_.
     andthen (ee_hello c REBOOT_HELLO_ATTEMPTS) (\<lambda>_.
     andthen (ee_verify c band 0 rec) (\<lambda>_.
       modifying (sleeping SERIAL_TX_LOCKOUT_S))))))))"

definition ee_set_modulation :: "string \<Rightarrow> (uvk5_tuner, bool) meth" where
  "ee_set_modulation m = raising UnsupportedCapability"

definition ee_clear_broadcast_fm :: "(uvk5_tuner, bool) meth" where
  "ee_clear_broadcast_fm = raising UnsupportedCapability"

definition ee_reassert :: "dock_radio \<Rightarrow> vfo_image \<Rightarrow> (uvk5_tuner, unit) meth" where
  "ee_reassert c v = returning ()"

subsection \<open>HybridTuner\<close>

definition arm_lockout :: "uvk5_tuner \<Rightarrow> uvk5_tuner" where
  "arm_lockout s = s\<lparr>tn_tx_ready_at := Some (tn_now s + SERIAL_TX_LOCKOUT_S)\<rparr>"

definition hb_volatile :: "uvk5_tuner \<Rightarrow> bool" where "hb_volatile s = (\<not> tn_persist s)"

definition hb_store :: "dock_radio \<Rightarrow> vfo_image \<Rightarrow> (uvk5_tuner, bool) meth" where
  "hb_store c v = andthen (write_channel c v) (\<lambda>w. andthen (modifying arm_lockout) (\<lambda>_. returning w))"

definition hb_apply :: "dock_radio \<Rightarrow> vfo_image \<Rightarrow> (uvk5_tuner, unit) meth" where
  "hb_apply c v =
     andthen (sv_apply c v) (\<lambda>_ s. if \<not> tn_persist s then (Inr (), s) else andthen (hb_store c v) (\<lambda>_. returning ()) s)"

definition hb_reassert :: "dock_radio \<Rightarrow> vfo_image \<Rightarrow> (uvk5_tuner, unit) meth" where
  "hb_reassert = sv_apply"

subsection \<open>What every operation keeps\<close>

text \<open>Kept by one more storage request and by the session flag.\<close>

definition stable :: "dock_radio \<Rightarrow> (uvk5_tuner \<Rightarrow> bool) \<Rightarrow> bool" where
  "stable c I \<longleftrightarrow> (\<forall>s m. arms_lockout m \<longrightarrow> I s \<longrightarrow> I (after_asking c m s)) \<and> (\<forall>s b. I s \<longrightarrow> I (s\<lparr>tn_session_ok := b\<rparr>))"

abbreviation keeps :: "(uvk5_tuner \<Rightarrow> bool) \<Rightarrow> (uvk5_tuner, 'a) meth \<Rightarrow> bool" where
  "keeps I m \<equiv> ensures I m (\<lambda>_. I) I"

named_theorems keep_rules \<open>operations that keep a stable predicate\<close>

lemma keep_andthen [keep_rules]: "keeps I m \<Longrightarrow> (\<And>x. keeps I (k x)) \<Longrightarrow> keeps I (andthen m k)"
  by (rule ensures_andthen)

lemma keep_lifting [keep_rules]: "keeps I (lifting r)"
  by (cases r) (simp_all add: lifting_def ensures_def)

lemma keep_returning [keep_rules]: "keeps I (returning x)"
  by (simp add: ensures_def)

lemma keep_raising [keep_rules]: "keeps I (raising e)"
  by (simp add: ensures_def)

lemma keepD: "keeps I m \<Longrightarrow> I s \<Longrightarrow> m s = (r, s') \<Longrightarrow> I s'"
  unfolding ensures_inv_iff by (metis snd_conv)

lemma keep_catching: "keeps I m \<Longrightarrow> (\<And>e. keeps I (h e)) \<Longrightarrow> keeps I (catching m h)"
proof (unfold ensures_inv_iff, intro allI impI)
  fix s assume h: "\<forall>s. I s \<longrightarrow> I (snd (m s))" "\<And>e. \<forall>s. I s \<longrightarrow> I (snd (h e s))" "I s"
  obtain r s1 where 1: "m s = (r, s1)" by fastforce
  then have "I s1" using h(1,3) by (metis snd_conv)
  then show "I (snd (catching m h s))" using 1 h(2) by (cases r) simp_all
qed

lemma keep_tp_request: "stable c I \<Longrightarrow> arms_lockout m \<Longrightarrow> keeps I (tp_request c m match)"
  by (auto simp: ensures_inv_iff tp_request_def stable_def split: sum.splits)

lemma hello_keeps:
  assumes ask: "\<And>s. I s \<Longrightarrow> I (after_asking c (Hello SESSION_TIMESTAMP) s)" and flag: "\<And>s b. I s \<Longrightarrow> I (s\<lparr>tn_session_ok := b\<rparr>)"
    and sleep: "\<And>s. I s \<Longrightarrow> I (sleeping 1 s)"
  shows "I s \<Longrightarrow> I (snd (ee_hello c n s))"
proof (induction n arbitrary: s)
  case 0
  then show ?case by (simp add: flag)
next
  case (Suc n)
  obtain r s1 where 1: "tp_request c (Hello SESSION_TIMESTAMP) is_im_here s = (r, s1)" by fastforce
  then have "s1 = after_asking c (Hello SESSION_TIMESTAMP) s" by (auto simp: tp_request_def split: sum.splits)
  then have "I s1" using ask Suc.prems by simp
  then have "I s1" "I (sleeping 1 s1)" "\<And>b. I (s1\<lparr>tn_session_ok := b\<rparr>)" by (simp_all add: flag sleep)
  then show ?case using 1 Suc.IH by (auto split: sum.splits dock_message.splits)
qed

lemma ee_hello_once:
  assumes "ee_hello c 1 s = (r, s')"
  shows "\<exists>b. s' = after_asking c (Hello SESSION_TIMESTAMP) s \<or> s' = (after_asking c (Hello SESSION_TIMESTAMP) s)\<lparr>tn_session_ok := b\<rparr>"
  using assms by (auto simp: tp_request_def split: sum.splits dock_message.splits if_splits)

lemma keep_hello: "stable c I \<Longrightarrow> keeps I (ee_hello c 1)"
proof (rule ensures_snd)
  fix s assume s: "stable c I" and i: "I s"
  obtain b where "snd (ee_hello c 1 s) = after_asking c (Hello SESSION_TIMESTAMP) s
      \<or> snd (ee_hello c 1 s) = (after_asking c (Hello SESSION_TIMESTAMP) s)\<lparr>tn_session_ok := b\<rparr>"
    using ee_hello_once [of c s "fst (ee_hello c 1 s)" "snd (ee_hello c 1 s)"] by auto
  then show "I (snd (ee_hello c 1 s))" using s i by (auto simp: stable_def)
qed

lemma keep_flag: "stable c I \<Longrightarrow> keeps I (modifying (\<lambda>s. s\<lparr>tn_session_ok := b\<rparr>))"
  by (simp add: ensures_def stable_def)

lemma keep_exchange: "stable c I \<Longrightarrow> keeps I attempt \<Longrightarrow> keeps I (ee_exchange c attempt)"
proof -
  assume s: "stable c I" and a: "keeps I attempt"
  have "keeps I (\<lambda>s. if tn_session_ok s then (Inr (), s) else ee_hello c 1 s)"
    using keep_hello [OF s] by (simp add: ensures_def)
  moreover have "keeps I (if e \<noteq> Uvk5Timeout then raising e else andthen (modifying (\<lambda>s. s\<lparr>tn_session_ok := False\<rparr>))
                     (\<lambda>_. andthen (ee_hello c 1) (\<lambda>_. catching attempt (\<lambda>e. raising (if e = Uvk5Timeout then TuneError else e)))))" for e
    by (cases "e = Uvk5Timeout") (auto intro!: keep_rules keep_catching keep_flag [OF s] keep_hello [OF s] a simp del: One_nat_def)
  ultimately show ?thesis unfolding ee_exchange_def by (intro keep_andthen keep_catching a)
qed

lemma keep_asking:
  "stable c I \<Longrightarrow> keeps I (asking_with c (eeprom_read_new off n ts p) match)"
  "stable c I \<Longrightarrow> keeps I (asking_with c (eeprom_write_new off d ts p) match)"
  using keep_tp_request [of c I] by (simp_all add: asking_with_def eeprom_read_new_def eeprom_write_new_def keep_raising)

lemma keep_read: "stable c I \<Longrightarrow> keeps I (ee_read c off n)"
proof -
  assume s: "stable c I"
  have "keeps I (case r of EepromReadReply o' k data p \<Rightarrow> returning data | _ \<Rightarrow> raising AttributeError)" for r
    by (cases r) (simp_all add: keep_returning keep_raising)
  then show ?thesis unfolding ee_read_def by (intro keep_andthen keep_exchange [OF s] keep_asking [OF s])
qed

lemma keep_patch: "stable c I \<Longrightarrow> keeps I (ee_patch c off v)"
proof -
  assume s: "stable c I"
  have "keeps I (ee_write c a d)" for a d unfolding ee_write_def by (intro keep_rules keep_exchange [OF s] keep_asking [OF s])
  then show ?thesis unfolding ee_patch_def by (auto simp: Let_def intro!: keep_rules keep_read [OF s])
qed

lemma keep_write_channel: "stable c I \<Longrightarrow> keeps I (write_channel c v)"
  unfolding write_channel_def patch_vfo_def patch_boot_def ee_verify_def Let_def
  by (auto intro!: keep_rules keep_patch keep_read keep_hello keep_flag split: prod.splits simp del: One_nat_def)

subsection \<open>The storage\<close>

text \<open>
  \<open>mem h\<close> is the radio's storage after the requests \<open>h\<close>. An answered read returns the bytes asked for; only a write
  changes anything, and only its own bytes, certainly if it is answered and perhaps if it is not.
\<close>

definition overlay :: "int \<Rightarrow> bytes \<Rightarrow> (int \<Rightarrow> byte) \<Rightarrow> int \<Rightarrow> byte" where
  "overlay off d f x = (if off \<le> x \<and> x < off + int (length d) then d ! nat (x - off) else f x)"

definition storage :: "dock_radio \<Rightarrow> (dock_message list \<Rightarrow> int \<Rightarrow> byte) \<Rightarrow> bool" where
  "storage c mem \<longleftrightarrow>
     (\<forall>h off n ts p k data q. dr_answer c h (EepromRead off n ts p) = Inr (EepromReadReply off k data q) \<longrightarrow> data = map (mem h) [off..off + n - 1])
     \<and> (\<forall>h m. (\<forall>off d ts a. m \<noteq> EepromWrite off d ts a) \<longrightarrow> mem (h @ [m]) = mem h)
     \<and> (\<forall>h off d ts a. mem (h @ [EepromWrite off d ts a]) = mem h \<or> mem (h @ [EepromWrite off d ts a]) = overlay off d (mem h))
     \<and> (\<forall>h off d ts a r. dr_answer c h (EepromWrite off d ts a) = Inr (EepromWriteReply r) \<longrightarrow> mem (h @ [EepromWrite off d ts a]) = overlay off d (mem h))"

lemmas storage_read = storage_def [THEN iffD1, THEN conjunct1, rule_format]
lemmas storage_other = storage_def [THEN iffD1, THEN conjunct2, THEN conjunct1, rule_format]
lemmas storage_lost = storage_def [THEN iffD1, THEN conjunct2, THEN conjunct2, THEN conjunct1, rule_format]
lemmas storage_write = storage_def [THEN iffD1, THEN conjunct2, THEN conjunct2, THEN conjunct2, rule_format]

lemma overlay_twice [simp]: "overlay off d (overlay off d f) = overlay off d f"
  by (rule ext) (simp add: overlay_def)

lemma exchange_returns:
  assumes "\<And>x. I x \<Longrightarrow> I (snd (ee_hello c 1 x))" and "\<And>x b. I x \<Longrightarrow> I (x\<lparr>tn_session_ok := b\<rparr>)"
    and "\<And>x e x'. I x \<Longrightarrow> attempt x = (Inl e, x') \<Longrightarrow> I x'" and "I s" and "ee_exchange c attempt s = (Inr r, s')"
  shows "\<exists>x. I x \<and> attempt x = (Inr r, s')"
proof -
  obtain q s1 where 1: "(if tn_session_ok s then (Inr (), s) else ee_hello c 1 s) = (q, s1)" by fastforce
  have i1: "I s1" using 1 assms(1) [OF assms(4)] assms(4) by (auto split: if_splits)
  have q: "q = Inr ()" using assms(5) 1 by (cases q) (auto simp: ee_exchange_def andthen_def)
  obtain r2 s2 where 2: "attempt s1 = (r2, s2)" by fastforce
  show ?thesis
  proof (cases r2)
    case (Inr y)
    then have "r2 = Inr r \<and> s2 = s'" using assms(5) 1 2 q by (simp add: ee_exchange_def andthen_def catching_def)
    then show ?thesis using i1 2 by blast
  next
    case (Inl e)
    have e: "e = Uvk5Timeout" using assms(5) 1 2 q Inl by (cases "e = Uvk5Timeout") (simp_all add: ee_exchange_def andthen_def catching_def)
    have "I (s2\<lparr>tn_session_ok := False\<rparr>)" using assms(2,3) i1 2 Inl by blast
    note i3 = assms(1) [OF this]
    obtain r3 s3 where 3: "ee_hello c 1 (s2\<lparr>tn_session_ok := False\<rparr>) = (r3, s3)" by fastforce
    have r3: "r3 = Inr ()" using assms(5) 1 2 3 q Inl e by (cases r3) (auto simp: ee_exchange_def andthen_def catching_def)
    obtain r4 s4 where 4: "attempt s3 = (r4, s4)" by fastforce
    have "r4 = Inr r \<and> s4 = s'" using assms(5) 1 2 3 4 q Inl e r3
      by (cases r4) (auto simp: ee_exchange_def andthen_def catching_def split: if_splits)
    then show ?thesis using i3 3 4 by auto
  qed
qed

lemma mem_flag: "P (mem (tn_asked s)) \<Longrightarrow> P (mem (tn_asked (s\<lparr>tn_session_ok := b\<rparr>)))"
  by simp

lemma hello_mem: "storage c mem \<Longrightarrow> P (mem (tn_asked s)) \<Longrightarrow> P (mem (tn_asked (snd (ee_hello c n s))))"
  by (rule hello_keeps [where I = "\<lambda>s. P (mem (tn_asked s))"]) (simp_all add: storage_other sleeping_def)

lemma read_stored:
  assumes st: "storage c mem" and r: "ee_read c off n s = (Inr data, s')"
  shows "mem (tn_asked s') = mem (tn_asked s) \<and> data = map (mem (tn_asked s)) [off..off + n - 1]"
proof -
  let ?att = "asking_with c (eeprom_read_new off n SESSION_TIMESTAMP 0) (is_read_reply off)"
  let ?I = "\<lambda>x. mem (tn_asked x) = mem (tn_asked s)"
  obtain q s1 where x: "ee_exchange c ?att s = (q, s1)" by fastforce
  then obtain m where m: "q = Inr m" using r by (cases q) (auto simp: ee_read_def)
  have asked: "mem (h @ [EepromRead off n SESSION_TIMESTAMP 0]) = mem h" for h by (rule storage_other [OF st]) simp
  have att: "?I z'" if "?I z" "?att z = (w, z')" for z w z'
    using that asked by (auto simp: asking_with_def eeprom_read_new_def tp_request_def split: if_splits sum.splits)
  have "\<exists>z. ?I z \<and> ?att z = (Inr m, s1)"
  proof (rule exchange_returns)
    show "?I (snd (ee_hello c 1 z))" if "?I z" for z using that by (rule hello_mem [OF st])
    show "?I z'" if "?I z" "?att z = (Inl e, z')" for z e z' using att that by blast
    show "ee_exchange c ?att s = (Inr m, s1)" using x m by simp
  qed simp_all
  then obtain z where z: "?I z" "?att z = (Inr m, s1)" by blast
  then have "s1 = after_asking c (EepromRead off n SESSION_TIMESTAMP 0) z"
      and a: "dr_answer c (tn_asked z) (EepromRead off n SESSION_TIMESTAMP 0) = Inr m" "is_read_reply off m"
    by (auto simp: asking_with_def eeprom_read_new_def tp_request_def split: if_splits sum.splits)
  then obtain k d p where "m = EepromReadReply off k d p" by (cases m) auto
  moreover have "s' = s1 \<and> (case m of EepromReadReply o' k d p \<Rightarrow> data = d | _ \<Rightarrow> False)"
    using r x m by (auto simp: ee_read_def split: dock_message.splits)
  ultimately show ?thesis using a z(1) storage_read [OF st, of "tn_asked z" off n SESSION_TIMESTAMP 0 k d p] att [OF z] by simp
qed

lemma write_stored:
  assumes st: "storage c mem" and r: "ee_write c off d s = (Inr (), s')"
  shows "mem (tn_asked s') = overlay off d (mem (tn_asked s))"
proof -
  let ?m = "EepromWrite off d SESSION_TIMESTAMP 0"
  let ?att = "asking_with c (eeprom_write_new off d SESSION_TIMESTAMP 0) is_write_reply"
  let ?I = "\<lambda>x. overlay off d (mem (tn_asked x)) = overlay off d (mem (tn_asked s))"
  obtain q s1 where x: "ee_exchange c ?att s = (q, s1)" by fastforce
  then obtain m where m: "q = Inr m" using r by (cases q) (auto simp: ee_write_def)
  have lost: "overlay off d (mem (h @ [?m])) = overlay off d (mem h)" for h using storage_lost [OF st, of h off d SESSION_TIMESTAMP 0] by auto
  have att: "?I z'" if "?I z" "?att z = (w, z')" for z w z'
    using that lost by (auto simp: asking_with_def eeprom_write_new_def tp_request_def split: if_splits sum.splits)
  have "\<exists>z. ?I z \<and> ?att z = (Inr m, s1)"
  proof (rule exchange_returns)
    show "?I (snd (ee_hello c 1 z))" if "?I z" for z
      using that by (rule hello_mem [OF st, where P = "\<lambda>f. overlay off d f = overlay off d (mem (tn_asked s))"])
    show "?I z'" if "?I z" "?att z = (Inl e, z')" for z e z' using att that by blast
    show "ee_exchange c ?att s = (Inr m, s1)" using x m by simp
  qed simp_all
  then obtain z where z: "?I z" "?att z = (Inr m, s1)" by blast
  then have "s1 = after_asking c ?m z" and a: "dr_answer c (tn_asked z) ?m = Inr m" "is_write_reply m"
    by (auto simp: asking_with_def eeprom_write_new_def tp_request_def split: if_splits sum.splits)
  then obtain k where "m = EepromWriteReply k" by (cases m) auto
  with a have "mem (tn_asked s1) = overlay off d (mem (tn_asked z))"
    using storage_write [OF st] \<open>s1 = _\<close> by simp
  moreover have "s' = s1" using r x m by (simp add: ee_write_def)
  ultimately show ?thesis using z(1) by simp
qed

lemma chunk_bounds:
  "0 \<le> off - chunk_start off" "off - chunk_start off + int (length v) \<le> chunk_len off v" "0 \<le> chunk_len off v"
proof -
  have s: "off - chunk_start off = off mod 8" by (simp add: chunk_start_def EEPROM_CHUNK_def)
  then show "0 \<le> off - chunk_start off" by simp
  have l: "chunk_len off v = (off mod 8 + int (length v) + 7) div 8 * 8"
    using s by (simp add: chunk_len_def EEPROM_CHUNK_def Let_def algebra_simps)
  show "off - chunk_start off + int (length v) \<le> chunk_len off v" unfolding s l by presburger
  show "0 \<le> chunk_len off v" unfolding l by (rule mult_nonneg_nonneg) (simp_all add: pos_imp_zdiv_nonneg_iff)
qed

lemma upto_nth: "i < nat n \<Longrightarrow> [a..a + n - 1] ! i = a + int i"
  by (simp add: nth_upto)

lemma overlay_patch:
  fixes f :: "int \<Rightarrow> byte"
  assumes "0 \<le> lo" "lo + int (length v) \<le> n"
  shows "overlay a (take (nat lo) (map f [a..a + n - 1]) @ v @ drop (nat lo + length v) (map f [a..a + n - 1])) f = overlay (a + lo) v f"
proof (rule ext)
  fix x
  let ?b = "map f [a..a + n - 1]"
  have lb: "length ?b = nat n" by simp
  have nb: "?b ! i = f (a + int i)" if "i < nat n" for i using that by (simp add: nth_upto)
  let ?d = "take (nat lo) ?b @ v @ drop (nat lo + length v) ?b"
  have ld: "length ?d = nat n" using assms(1,2) lb by auto
  show "overlay a (take (nat lo) (map f [a..a + n - 1]) @ v @ drop (nat lo + length v) (map f [a..a + n - 1])) f x = overlay (a + lo) v f x"
  proof (cases "a \<le> x \<and> x < a + n")
    case False
    then show ?thesis using assms(1,2) ld by (auto simp: overlay_def)
  next
    case True
    define i where "i = nat (x - a)"
    have i: "x = a + int i" "i < nat n" using True by (simp_all add: i_def)
    have "int i < n" using i(2) by linarith
    then have o: "overlay a ?d f x = ?d ! i" using i ld assms(1,2) by (simp add: overlay_def)
    consider "int i < lo" | "lo \<le> int i" "int i < lo + int (length v)" | "lo + int (length v) \<le> int i" by linarith
    then show ?thesis
    proof cases
      case 1
      then have "i < nat lo" by linarith
      then have "?d ! i = ?b ! i" using lb i by (simp add: nth_append)
      then show ?thesis using o i nb 1 by (simp add: overlay_def)
    next
      case 2
      then have "?d ! i = v ! (i - nat lo)" using lb assms(1,2) by (auto simp: nth_append)
      moreover have "nat (x - (a + lo)) = i - nat lo" using 2 i assms(1) by (simp add: nat_diff_distrib)
      ultimately show ?thesis using o 2 i by (simp add: overlay_def)
    next
      case 3
      then have "?d ! i = ?b ! i" using lb assms(1,2) i by (auto simp: nth_append)
      then show ?thesis using o 3 i nb by (simp add: overlay_def)
    qed
  qed
qed

lemma overlay_same:
  fixes f :: "int \<Rightarrow> byte"
  assumes "0 \<le> lo" "lo + int (length v) \<le> n" "take (length v) (drop (nat lo) (map f [a..a + n - 1])) = v"
  shows "overlay (a + lo) v f = f"
proof (rule ext)
  fix x
  show "overlay (a + lo) v f x = f x"
  proof (cases "a + lo \<le> x \<and> x < a + lo + int (length v)")
    case True
    let ?i = "nat (x - (a + lo))"
    have i: "?i < length v" using True by linarith
    have "v ! ?i = take (length v) (drop (nat lo) (map f [a..a + n - 1])) ! ?i" using assms(3) by simp
    also have "\<dots> = map f [a..a + n - 1] ! (nat lo + ?i)" using i assms(1,2) by simp
    also have "\<dots> = f (a + int (nat lo + ?i))" using i assms(1,2) by (subst nth_map) (auto simp: nth_upto)
    finally show ?thesis using True assms(1) by (simp add: overlay_def)
  qed (auto simp: overlay_def)
qed

lemma patch_stored:
  assumes st: "storage c mem" and r: "ee_patch c off v s = (Inr w, s')"
  shows "mem (tn_asked s') = overlay off v (mem (tn_asked s))"
proof -
  let ?f = "mem (tn_asked s)"
  obtain q s1 where 1: "ee_read c (chunk_start off) (chunk_len off v) s = (q, s1)" by fastforce
  obtain b where b: "q = Inr b" using r 1 by (cases q) (auto simp: ee_patch_def)
  from read_stored [OF st 1 [unfolded b]] have rd: "mem (tn_asked s1) = ?f" "b = map ?f [chunk_start off..chunk_start off + chunk_len off v - 1]"
    by simp_all
  let ?lo = "off - chunk_start off"
  have off: "chunk_start off + ?lo = off" by simp
  show ?thesis
  proof (cases "take (length v) (drop (nat ?lo) b) = v")
    case True
    then have "s' = s1" using r 1 b by (simp add: ee_patch_def Let_def)
    then show ?thesis using overlay_same [where lo = ?lo and v = v and n = "chunk_len off v" and a = "chunk_start off" and f = ?f] chunk_bounds True rd off by simp
  next
    case False
    let ?d = "take (nat ?lo) b @ v @ drop (nat ?lo + length v) b"
    obtain q2 s2 where 2: "ee_write c (chunk_start off) ?d s1 = (q2, s2)" by fastforce
    have "q2 = Inr () \<and> s' = s2" using r 1 2 b False by (cases q2) (auto simp: ee_patch_def Let_def)
    then have "mem (tn_asked s') = overlay (chunk_start off) ?d ?f" using write_stored [OF st] 2 rd(1) by simp
    then show ?thesis using overlay_patch [where lo = ?lo and v = v and n = "chunk_len off v" and a = "chunk_start off" and f = ?f] chunk_bounds rd off by simp
  qed
qed

lemma lifting_Inr: "lifting r s = (Inr x, s') \<longleftrightarrow> r = Inr x \<and> s' = s"
  by (cases r) (auto simp: lifting_def)

lemma andthen_returns: "andthen m k s = (Inr y, s') \<longleftrightarrow> (\<exists>x s1. m s = (Inr x, s1) \<and> k x s1 = (Inr y, s'))"
  by (auto simp: andthen_def split: prod.splits sum.splits)

lemma modifying_returns: "modifying f s = (Inr x, s') \<longleftrightarrow> s' = f s"
  by auto

lemma returning_returns: "returning y s = (Inr x, s') \<longleftrightarrow> x = y \<and> s' = s"
  by auto

lemma write_channel_steps:
  assumes "write_channel c v s = (Inr w, s')"
  obtains u0 u1 u2 s0 band rec w1 s1 w2 s2 w3 s3 w4 s4 s5 where
    "ee_hello c 1 (s\<lparr>tn_session_ok := False\<rparr>) = (Inr u0, s0)" "band_for (vi_rx_hz v) = Inr band" "pack_eeprom v = Inr rec"
    "ee_patch c (attr_addr (freq_channel (int band))) (le_bytes 2 (attribute_word (int band))) s0 = (Inr w1, s1)"
    "patch_vfo c band 0 rec s1 = (Inr w2, s2)" "patch_vfo c band 1 rec s2 = (Inr w3, s3)"
    "patch_boot c (freq_channel (int band)) s3 = (Inr w4, s4)"
    "ee_verify c band 0 rec s4 = (Inr u1, s5)" "ee_verify c band 1 rec s5 = (Inr u2, s')"
  using assms unfolding write_channel_def andthen_returns lifting_Inr Let_def modifying_returns returning_returns
  by (elim exE conjE) (hypsubst, rule that; assumption)

lemma boot_stored:
  assumes st: "storage c mem" and r: "patch_boot c ch s = (Inr w, s')"
  shows "\<exists>mr screen freq block. unpack_boot_indices (map (mem (tn_asked s)) [BOOT_INDEX_BLOCK..BOOT_INDEX_BLOCK + 15]) = Inr (screen, mr, freq)
    \<and> pack_boot_indices (ch, ch) mr (ch, ch) = Inr block \<and> mem (tn_asked s') = overlay BOOT_INDEX_BLOCK block (mem (tn_asked s))"
proof -
  from r obtain cur s1 mr screen freq block where
    1: "ee_read c BOOT_INDEX_BLOCK (int BOOT_INDEX_LEN) s = (Inr cur, s1)" "unpack_boot_indices cur = Inr (screen, mr, freq)"
       "pack_boot_indices (ch, ch) mr (ch, ch) = Inr block" "ee_patch c BOOT_INDEX_BLOCK block s1 = (Inr w, s')"
    by (auto simp: patch_boot_def andthen_returns lifting_Inr)
  from read_stored [OF st 1(1)] have rd: "mem (tn_asked s1) = mem (tn_asked s)" "cur = map (mem (tn_asked s)) [BOOT_INDEX_BLOCK..BOOT_INDEX_BLOCK + 15]"
    by (simp_all add: BOOT_INDEX_LEN_def add.commute)
  show ?thesis
    by (rule exI [of _ mr], rule exI [of _ screen], rule exI [of _ freq], rule exI [of _ block]) (use patch_stored [OF st 1(4)] 1(2,3) rd in simp)
qed

text \<open>
  C9. Storing a channel writes that channel and nothing else: if it returns, the radio's storage is what it was
  but for the attribute word of the band, the two VFO records of the band, which both hold the packed channel, and
  the boot indices, which select it for both VFOs and keep the memory channels they had. No silently lost frame,
  renewed session or unaligned write changes a neighbouring byte.
\<close>

theorem stores_exactly_the_channel:
  assumes st: "storage c mem" and r: "write_channel c v s = (Inr w, s')"
  shows "\<exists>band rec screen mr freq block a0 a1. band_for (vi_rx_hz v) = Inr band \<and> pack_eeprom v = Inr rec
    \<and> vfo_addr (int band) 0 = Inr a0 \<and> vfo_addr (int band) 1 = Inr a1
    \<and> unpack_boot_indices (map (mem (tn_asked s)) [BOOT_INDEX_BLOCK..BOOT_INDEX_BLOCK + 15]) = Inr (screen, mr, freq)
    \<and> (let ch = freq_channel (int band) in pack_boot_indices (ch, ch) mr (ch, ch) = Inr block
        \<and> mem (tn_asked s') = overlay BOOT_INDEX_BLOCK block (overlay a1 rec (overlay a0 rec
            (overlay (attr_addr ch) (le_bytes 2 (attribute_word (int band))) (mem (tn_asked s))))))"
proof -
  from r obtain u0 u1 u2 s0 band rec w1 s1 w2 s2 w3 s3 w4 s4 s5 where
    0: "ee_hello c 1 (s\<lparr>tn_session_ok := False\<rparr>) = (Inr u0, s0)" "band_for (vi_rx_hz v) = Inr band" "pack_eeprom v = Inr rec" and
    1: "ee_patch c (attr_addr (freq_channel (int band))) (le_bytes 2 (attribute_word (int band))) s0 = (Inr w1, s1)" and
    2: "patch_vfo c band 0 rec s1 = (Inr w2, s2)" and 3: "patch_vfo c band 1 rec s2 = (Inr w3, s3)" and
    4: "patch_boot c (freq_channel (int band)) s3 = (Inr w4, s4)" and
    5: "ee_verify c band 0 rec s4 = (Inr u1, s5)" "ee_verify c band 1 rec s5 = (Inr u2, s')"
    by (elim write_channel_steps)
  have m0: "mem (tn_asked s0) = mem (tn_asked s)"
    using hello_mem [OF st, of "\<lambda>f. f = mem (tn_asked s)" "s\<lparr>tn_session_ok := False\<rparr>" 1] 0(1) by simp
  have v: "\<exists>a. vfo_addr (int band) i = Inr a \<and> mem (tn_asked y) = overlay a rec (mem (tn_asked x))"
    if "patch_vfo c band i rec x = (Inr b, y)" for i x b y
    using that patch_stored [OF st] by (auto simp: patch_vfo_def andthen_returns lifting_Inr)
  have k: "mem (tn_asked y) = mem (tn_asked x)" if "ee_verify c band i rec x = (Inr u, y)" for i x y u
    using that read_stored [OF st] by (auto simp: ee_verify_def andthen_returns lifting_Inr split: if_splits)
  obtain a0 where a0: "vfo_addr (int band) 0 = Inr a0" "mem (tn_asked s2) = overlay a0 rec (mem (tn_asked s1))" using v [OF 2] by blast
  obtain a1 where a1: "vfo_addr (int band) 1 = Inr a1" "mem (tn_asked s3) = overlay a1 rec (mem (tn_asked s2))" using v [OF 3] by blast
  note m1 = patch_stored [OF st 1]
  have len: "length rec = 16"
    using 0(3) by (auto simp: pack_eeprom_def Let_def struct_pack_length split: sum.splits)
  have band: "int band < 7" "a0 = 36864 + 32 * int band" "a1 = 36864 + 32 * int band + 16" using a0(1) a1(1) by (simp_all add: vfo_addr_ok)
  have same: "mem (tn_asked s3) x = mem (tn_asked s) x" if "x \<in> {BOOT_INDEX_BLOCK..BOOT_INDEX_BLOCK + 15}" for x
  proof -
    have "40976 \<le> x" using that by (simp add: BOOT_INDEX_BLOCK_def)
    moreover have "attr_addr (freq_channel (int band)) = 34816 + 2 * int band"
      by (simp add: attr_addr_def freq_channel_def ATTR_BASE_def FREQ_CHANNEL_FIRST_def)
    ultimately show ?thesis using band len by (simp add: a1 a0 m1 m0 overlay_def)
  qed
  from boot_stored [OF st 4] obtain mr screen freq block where
    b: "unpack_boot_indices (map (mem (tn_asked s3)) [BOOT_INDEX_BLOCK..BOOT_INDEX_BLOCK + 15]) = Inr (screen, mr, freq)"
      "pack_boot_indices (freq_channel (int band), freq_channel (int band)) mr (freq_channel (int band), freq_channel (int band)) = Inr block"
      "mem (tn_asked s4) = overlay BOOT_INDEX_BLOCK block (mem (tn_asked s3))" by (elim exE conjE) (rule that)
  have "map (mem (tn_asked s3)) [BOOT_INDEX_BLOCK..BOOT_INDEX_BLOCK + 15] = map (mem (tn_asked s)) [BOOT_INDEX_BLOCK..BOOT_INDEX_BLOCK + 15]"
    using same by (intro map_cong) simp_all
  with b(1) have b1: "unpack_boot_indices (map (mem (tn_asked s)) [BOOT_INDEX_BLOCK..BOOT_INDEX_BLOCK + 15]) = Inr (screen, mr, freq)" by simp
  have "mem (tn_asked s') = overlay BOOT_INDEX_BLOCK block (overlay a1 rec (overlay a0 rec
            (overlay (attr_addr (freq_channel (int band))) (le_bytes 2 (attribute_word (int band))) (mem (tn_asked s)))))"
    using k [OF 5(2)] k [OF 5(1)] b(3) a1(2) a0(2) m1 m0 by simp
  with 0 a0(1) a1(1) b1 b(2) show ?thesis unfolding Let_def by blast
qed

definition bench_written :: "(int \<Rightarrow> byte) \<Rightarrow> dock_message \<Rightarrow> int \<Rightarrow> byte" where
  "bench_written f m = (case m of EepromWrite off d ts p \<Rightarrow> overlay off d f | _ \<Rightarrow> f)"

definition bench_mem :: "dock_message list \<Rightarrow> int \<Rightarrow> byte" where
  "bench_mem h = foldl bench_written (\<lambda>_. 0) h"

definition bench_radio :: dock_radio where
  "bench_radio = \<lparr>dr_answer = (\<lambda>h m. case m of
      Hello t \<Rightarrow> Inr (ImHere [] 0 0 (0, 0, 0, 0))
    | EepromRead off n ts p \<Rightarrow> Inr (EepromReadReply off 0 (map (bench_mem h) [off..off + n - 1]) 0)
    | EepromWrite off d ts p \<Rightarrow> Inr (EepromWriteReply off)
    | _ \<Rightarrow> Inl Uvk5Timeout), dr_took = (\<lambda>h m. 0)\<rparr>"

definition snd_record :: "vfo_image \<Rightarrow> bytes" where
  "snd_record v = (case pack_eeprom v of Inl e \<Rightarrow> [] | Inr r \<Rightarrow> r)"

lemma bench_storage: "storage bench_radio bench_mem"
  by (auto simp: storage_def bench_radio_def bench_mem_def bench_written_def split: dock_message.splits)

theorem stores_exactly_the_channel_witness:
  "\<exists>block. bench_mem (tn_asked (snd (write_channel bench_radio repeater (new_tuner False))))
     = overlay BOOT_INDEX_BLOCK block (overlay 0x9050 (snd_record repeater) (overlay 0x9040 (snd_record repeater)
         (overlay 0x8804 (le_bytes 2 (attribute_word 2)) (bench_mem []))))"
proof -
  have f: "fst (write_channel bench_radio repeater (new_tuner False)) = Inr True" by code_simp
  then have "write_channel bench_radio repeater (new_tuner False) = (Inr True, snd (write_channel bench_radio repeater (new_tuner False)))"
    by (simp add: prod_eq_iff)
  note w = stores_exactly_the_channel [OF bench_storage this]
  have b: "band_for (vi_rx_hz repeater) = Inr 2" "pack_eeprom repeater = Inr (snd_record repeater)" "attr_addr (freq_channel 2) = 0x8804"
    "vfo_addr 2 0 = Inr 0x9040" "vfo_addr 2 1 = Inr 0x9050" by code_simp+
  from w show ?thesis by (auto simp: b Let_def new_tuner_def)
qed


subsection \<open>The hybrid tuner and the firmware's lockout\<close>

definition muted_whole :: "uvk5_tuner \<Rightarrow> bool" where
  "muted_whole s \<longleftrightarrow> tn_muted_until s = tn_now s + SERIAL_TX_LOCKOUT_S"

lemma stable_muted: "stable c muted_whole"
  by (simp add: stable_def muted_whole_def after_asking_def Let_def)

lemma stable_blocks: "stable c blocks_ok"
  by (auto simp: stable_def blocks_ok_asked intro: blocks_okI_fields)

text \<open>Storing a channel mutes the transmitter for the whole lockout, from its last request on, raise or not.\<close>

lemma write_channel_mutes: "muted_whole (snd (write_channel c v s))"
proof -
  have h: "ensures (\<lambda>_. True) (ee_hello c 1) (\<lambda>_. muted_whole) muted_whole"
  proof (rule ensures_snd)
    fix s :: uvk5_tuner
    show "muted_whole (snd (ee_hello c 1 s))"
      using ee_hello_once [of c s "fst (ee_hello c 1 s)" "snd (ee_hello c 1 s)"]
      by (auto simp: muted_whole_def after_asking_def Let_def)
  qed
  note st = stable_muted [of c]
  have "ensures (\<lambda>_. True) (write_channel c v) (\<lambda>_. muted_whole) muted_whole"
    unfolding write_channel_def patch_vfo_def ee_verify_def Let_def
    by (rule ensures_andthen [where Q = "\<lambda>_ _. True"], simp add: ensures_def, rule ensures_andthen [OF h])
      (auto intro!: keep_rules keep_patch [OF st] keep_read [OF st] simp: patch_boot_def split: prod.splits)
  then show ?thesis unfolding ensures_def by (elim allE [of _ s]) (auto split: prod.splits sum.splits)
qed

definition ready_ok :: "uvk5_tuner \<Rightarrow> bool" where
  "ready_ok s \<longleftrightarrow> tn_muted_until s \<le> (case tn_tx_ready_at s of None \<Rightarrow> tn_now s | Some d \<Rightarrow> max (tn_now s) d)"

datatype tuner_op = TApply vfo_image | TReassert vfo_image | TStore vfo_image | TModulation string | TRssi | TProbe
  | TDisarm | TClear | TSetFm string "int option" int | TPersist bool | TPass real

abbreviation discarding :: "('s, 'a) meth \<Rightarrow> ('s, unit) meth" where
  "discarding m \<equiv> andthen m (\<lambda>_. returning ())"

fun t_exec :: "dock_radio \<Rightarrow> tuner_op \<Rightarrow> (uvk5_tuner, unit) meth" where
  "t_exec c (TApply v) = hb_apply c v"
| "t_exec c (TReassert v) = hb_reassert c v"
| "t_exec c (TStore v) = discarding (hb_store c v)"
| "t_exec c (TModulation m) = discarding (sv_set_modulation c m)"
| "t_exec c TRssi = discarding (read_rssi c)"
| "t_exec c TProbe = discarding (probe_broadcast_fm c)"
| "t_exec c TDisarm = modifying disarm_rescue"
| "t_exec c TClear = discarding (clear_broadcast_fm c)"
| "t_exec c (TSetFm a hz b) = discarding (set_broadcast_fm c a hz b)"
| "t_exec c (TPersist b) = modifying (\<lambda>s. s\<lparr>tn_persist := b\<rparr>)"
| "t_exec c (TPass d) = modifying (sleeping (max 0 d))"

fun t_run :: "dock_radio \<Rightarrow> tuner_op list \<Rightarrow> uvk5_tuner \<Rightarrow> (exn + unit) list \<times> uvk5_tuner" where
  "t_run c [] s = ([], s)"
| "t_run c (op # ops) s = (let (r, s1) = t_exec c op s; (rs, s2) = t_run c ops s1 in (r # rs, s2))"

text \<open>Nothing asked that arms the lockout, nothing said about it.\<close>

definition hushed :: "uvk5_tuner \<Rightarrow> uvk5_tuner \<Rightarrow> bool" where
  "hushed s s' \<longleftrightarrow> tn_muted_until s' = tn_muted_until s \<and> tn_tx_ready_at s' = tn_tx_ready_at s \<and> tn_now s \<le> tn_now s'
     \<and> tn_persist s' = tn_persist s"

lemma hushed_trans: "hushed a b \<Longrightarrow> hushed b c \<Longrightarrow> hushed a c"
  by (simp add: hushed_def)

lemma hushed_refl: "hushed s s"
  by (simp add: hushed_def)

lemma hushed_asked: "\<not> arms_lockout m \<Longrightarrow> hushed s0 s \<Longrightarrow> hushed s0 (after_asking c m s)"
  by (auto simp: hushed_def after_asking_def Let_def)

lemma hushed_ready: "hushed s s' \<Longrightarrow> ready_ok s \<Longrightarrow> ready_ok s'"
  by (auto simp: hushed_def ready_ok_def split: option.splits)

lemma sv_apply_quiet: "hushed s (snd (sv_apply c v s))"
  using sv_apply_cases [of c v s "fst (sv_apply c v s)" "snd (sv_apply c v s)"]
  by (auto simp: hushed_refl set_vfo_new_def split: if_splits intro!: hushed_asked)

lemma set_modulation_quiet: "hushed s (snd (sv_set_modulation c want s))"
proof (cases "map_of MODULATION_VALUES want")
  case (Some n)
  show ?thesis unfolding sv_set_modulation_def Some option.case
    by (rule after_reply [where I = "hushed s", OF _ hushed_asked hushed_refl])
      (auto simp: Let_def hushed_def split: option.splits dock_message.splits)
qed (simp add: sv_set_modulation_def hushed_refl)

lemma read_rssi_asks: "snd (read_rssi c s) = after_asking c (ReadRegisters [RSSI_REGISTER]) s"
  by (auto simp: read_rssi_def tp_request_def catching_def andthen_def Let_def split: sum.splits dock_message.splits)

lemma read_rssi_quiet: "hushed s (snd (read_rssi c s))"
  unfolding read_rssi_asks by (rule hushed_asked) (simp_all add: hushed_refl)

lemma clear_quiet: "hushed s (snd (clear_broadcast_fm c s))"
  unfolding clear_broadcast_fm_def
  by (rule after_reply [where I = "hushed s", OF _ hushed_asked hushed_refl])
    (auto simp: Let_def hushed_def fm_answered_def split: option.splits dock_message.splits)

lemma set_fm_quiet: "hushed s (snd (set_broadcast_fm c action hz band s))"
proof (cases "set_broadcast_fm_new action hz band")
  case (Inr m)
  then have "\<not> arms_lockout m" by (auto simp: set_broadcast_fm_new_def split: if_splits option.splits)
  then show ?thesis unfolding set_broadcast_fm_def Inr sum.case
    by (intro after_reply [where I = "hushed s", OF _ hushed_asked hushed_refl])
      (auto simp: Let_def hushed_def fm_answered_def split: option.splits dock_message.splits)
qed (simp add: set_broadcast_fm_def hushed_refl)

lemma probe_quiet: "hushed s (snd (probe_broadcast_fm c s))"
  using probe_cases [of c s "fst (probe_broadcast_fm c s)" "snd (probe_broadcast_fm c s)"]
  by (auto simp: hushed_def after_asking_def Let_def)

lemma snd_discarding: "snd (discarding m s) = snd (m s)"
  by (auto simp: andthen_def split: prod.splits sum.splits)

fun storing :: "tuner_op \<Rightarrow> bool" where
  "storing (TApply v) \<longleftrightarrow> True" | "storing (TStore v) \<longleftrightarrow> True" | "storing _ \<longleftrightarrow> False"

lemma hb_store_cases:
  assumes "hb_store c v s = (r, s')"
  shows "\<exists>s1. write_channel c v s = (r, s1) \<and> s' = (case r of Inl e \<Rightarrow> s1 | Inr w \<Rightarrow> arm_lockout s1)"
  using assms by (auto simp: hb_store_def andthen_def split: prod.splits sum.splits)

lemma hb_store_ready: "hb_store c v s = (Inr w, s') \<Longrightarrow> ready_ok s'"
  using hb_store_cases [of c v s "Inr w" s'] write_channel_mutes [of c v s] by (auto simp: ready_ok_def arm_lockout_def muted_whole_def)

lemma hb_apply_ready: "hb_apply c v s = (Inr u, s') \<Longrightarrow> ready_ok s \<Longrightarrow> ready_ok s'"
proof -
  assume h: "hb_apply c v s = (Inr u, s')" and i: "ready_ok s"
  obtain r s1 where 1: "sv_apply c v s = (r, s1)" by fastforce
  then have i1: "ready_ok s1" using hushed_ready [OF sv_apply_quiet i, of c v] by simp
  then show ?thesis using h 1 hb_store_ready [of c v s1]
    by (cases r; cases "tn_persist s1") (auto simp: hb_apply_def andthen_def split: prod.splits sum.splits)
qed

lemma t_exec_ready:
  assumes "t_exec c op s = (r, s')" and "storing op \<Longrightarrow> r = Inr ()" and i: "ready_ok s"
  shows "ready_ok s'"
proof (cases "storing op")
  case True
  then have t: "t_exec c op s = (Inr (), s')" using assms by simp
  then show ?thesis using True hb_apply_ready i
    by (cases op) (auto simp: andthen_def split: prod.splits sum.splits dest: hb_store_ready)
next
  case False
  moreover have "hushed s (snd (t_exec c op s)) \<or> (\<exists>b. op = TPersist b)"
    using False by (cases op) (simp_all add: snd_discarding hb_reassert_def sv_apply_quiet set_modulation_quiet read_rssi_quiet probe_quiet clear_quiet set_fm_quiet, auto simp: hushed_def disarm_rescue_def sleeping_def)
  ultimately show ?thesis using assms hushed_ready [OF _ i, of s'] by (auto simp: ready_ok_def split: option.splits)
qed

lemma t_run_ready:
  assumes "t_run c ops s = (rs, s')" and "list_all2 (\<lambda>op r. storing op \<longrightarrow> r = Inr ()) ops rs" and "ready_ok s"
  shows "ready_ok s'"
  using assms
proof (induction ops arbitrary: s rs)
  case (Cons op ops)
  obtain r s1 where 1: "t_exec c op s = (r, s1)" by fastforce
  obtain rs1 s2 where 2: "t_run c ops s1 = (rs1, s2)" by fastforce
  have "rs = r # rs1" "s' = s2" using Cons.prems(1) 1 2 by simp_all
  then show ?case using Cons.IH [of s1 rs1] Cons.prems(2,3) 1 2 t_exec_ready by auto
qed simp




definition deaf_radio :: dock_radio where
  "deaf_radio = \<lparr>dr_answer = (\<lambda>h m. Inl Uvk5Timeout), dr_took = (\<lambda>h m. 0)\<rparr>"


lemma t_exec_blocks: "blocks_ok s \<Longrightarrow> blocks_ok (snd (t_exec c op s))"
proof -
  assume i: "blocks_ok s"
  have w: "blocks_ok (snd (write_channel c v z))" if "blocks_ok z" for v z
    using keepD [OF keep_write_channel [OF stable_blocks] that, of c v "fst (write_channel c v z)" "snd (write_channel c v z)"] by simp
  have st: "blocks_ok (snd (hb_store c v z))" if "blocks_ok z" for v z
    using w [OF that, of v]
    by (cases "fst (write_channel c v z)"; cases "write_channel c v z") (auto simp: hb_store_def arm_lockout_def intro: blocks_okI_fields)
  have "blocks_ok (snd (hb_apply c v s))" for v
  proof -
    obtain r s1 where 1: "sv_apply c v s = (r, s1)" by fastforce
    then have "blocks_ok s1" using sv_apply_blocks [OF i, of c v] by simp
    then show ?thesis using 1 st [of s1 v] by (cases r) (simp_all add: hb_apply_def snd_discarding)
  qed
  with i st show ?thesis
    by (cases op) (auto simp: snd_discarding hb_reassert_def sv_apply_blocks set_modulation_blocks read_rssi_asks blocks_ok_asked probe_blocks clear_blocks set_fm_blocks
        disarm_rescue_def sleeping_def intro: blocks_okI_fields)
qed

lemma t_run_blocks: "blocks_ok s \<Longrightarrow> blocks_ok (snd (t_run c ops s))"
proof (induction ops arbitrary: s)
  case (Cons op ops)
  obtain r s1 rs s2 where "t_exec c op s = (r, s1)" "t_run c ops s1 = (rs, s2)" by fastforce
  then show ?case using Cons.IH [of s1] t_exec_blocks [OF Cons.prems, of c op] by simp
qed simp

text \<open>What the tuner reports of the radio is well formed after any operations: a demodulator is reported exactly
  with its transmit permission and is FM or AM, a receiver block carries the current rescue count and is there only
  if the radio ever answered for it, and the second capability is advertised only with the first.
\<close>

theorem tuner_blocks_consistent: "blocks_ok (snd (t_run c ops (new_tuner p)))"
  by (rule t_run_blocks [OF blocks_ok_new])

definition muted_bound :: "uvk5_tuner \<Rightarrow> bool" where
  "muted_bound s \<longleftrightarrow> tn_muted_until s \<le> tn_now s + SERIAL_TX_LOCKOUT_S"

lemma stable_bound: "stable c muted_bound"
  by (simp add: stable_def muted_bound_def after_asking_def Let_def)

lemma hello_bound: "keeps muted_bound (ee_hello c n)"
  unfolding ensures_inv_iff
  by (intro allI impI, rule hello_keeps [where I = muted_bound]) (simp_all add: muted_bound_def sleeping_def after_asking_def Let_def)

lemma send_bound: "keeps muted_bound (tp_send c Reset)"
  by (rule ensures_snd) (auto simp: tp_send_def muted_bound_def after_asking_def Let_def max_def split: sum.splits)

lemma restart_bound: "keeps muted_bound (modifying (\<lambda>s. (sleeping REBOOT_SETTLE_S s)\<lparr>tn_session_ok := False\<rparr>))"
  by (simp add: ensures_def muted_bound_def sleeping_def REBOOT_SETTLE_S_def)

lemma keep_then: "keeps I m \<Longrightarrow> (\<And>x. ensures I (k x) R (\<lambda>_. True)) \<Longrightarrow> ensures I (andthen m k) R (\<lambda>_. True)"
  by (rule ensures_andthen [where Q = "\<lambda>_. I"]) (rule ensures_conseq, assumption, simp_all)

lemma verify_bound: "keeps muted_bound (ee_verify c band i rec)"
  unfolding ee_verify_def by (auto intro!: keep_rules keep_read [OF stable_bound])

text \<open>The storing tuner waits the lockout out: a tune that returns leaves the transmitter unmuted, whatever frames it
  took to store the channel, to find the radio again after its reset and to read the record back.
\<close>

theorem stored_tune_returns_unmuted:
  assumes "ee_apply c v s = (Inr u, s')" and "tn_muted_until s \<le> tn_now s + SERIAL_TX_LOCKOUT_S"
  shows "tn_muted_until s' \<le> tn_now s'"
proof -
  have "ensures muted_bound (ee_apply c v) (\<lambda>_ s. tn_muted_until s \<le> tn_now s) (\<lambda>_. True)"
    unfolding ee_apply_def
    by (intro keep_then keep_lifting keep_write_channel [OF stable_bound] send_bound restart_bound hello_bound verify_bound)
      (simp add: ensures_def muted_bound_def sleeping_def)
  then show ?thesis using assms by (auto simp: muted_bound_def dest: ensuresD)
qed

definition rebooting_radio :: dock_radio where
  "rebooting_radio = bench_radio\<lparr>dr_answer := (\<lambda>h m. if m = Reset then Inr (Reset) else dr_answer bench_radio h m)\<rparr>"

theorem stored_tune_returns_unmuted_witness:
  "tn_muted_until (snd (ee_apply rebooting_radio repeater (new_tuner True))) \<le> tn_now (snd (ee_apply rebooting_radio repeater (new_tuner True)))"
proof -
  let ?p = "ee_apply rebooting_radio repeater (new_tuner True)"
  have "fst ?p = Inr ()" by code_simp
  then have "?p = (Inr (), snd ?p)" by (simp add: prod_eq_iff)
  from stored_tune_returns_unmuted [OF this] show ?thesis by (simp add: SERIAL_TX_LOCKOUT_S_def new_tuner_def)
qed


subsection \<open>Requests are only added\<close>

definition asked_from :: "dock_message list \<Rightarrow> uvk5_tuner \<Rightarrow> bool" where
  "asked_from h s \<longleftrightarrow> (\<exists>t. tn_asked s = h @ t)"

definition growing :: "(uvk5_tuner, 'a) meth \<Rightarrow> bool" where
  "growing m \<longleftrightarrow> (\<forall>h. keeps (asked_from h) m)"

named_theorems growing_intros \<open>tuner methods that only add to the history of requests\<close>

lemma asked_from_asking: "asked_from h s \<Longrightarrow> asked_from h (after_asking c m s)"
  by (auto simp: asked_from_def)

lemma asked_from_fields: "asked_from h s \<Longrightarrow> tn_asked s' = tn_asked s \<Longrightarrow> asked_from h s'"
  by (simp add: asked_from_def)

lemma stable_asked: "stable c (asked_from h)"
  by (auto simp: stable_def asked_from_asking intro: asked_from_fields)

lemma growingI: "(\<And>h s. asked_from h s \<Longrightarrow> asked_from h (snd (m s))) \<Longrightarrow> growing m"
  unfolding growing_def by (intro allI ensures_snd)

lemma growingD: "growing m \<Longrightarrow> asked_from h s \<Longrightarrow> asked_from h (snd (m s))"
  unfolding growing_def ensures_inv_iff by blast

lemma growing_andthen [growing_intros]: "growing m \<Longrightarrow> (\<And>x. growing (k x)) \<Longrightarrow> growing (andthen m k)"
  unfolding growing_def by (intro allI keep_andthen) blast+

lemma growing_basic [growing_intros]: "growing (returning x)" "growing (raising e)" "growing (lifting r)"
  by (simp_all add: growing_def keep_returning keep_raising keep_lifting)

lemma growing_modifying [growing_intros]: "(\<And>s. tn_asked (f s) = tn_asked s) \<Longrightarrow> growing (modifying f)"
  by (rule growingI) (auto intro: asked_from_fields)

lemma growing_sv_apply [growing_intros]: "growing (sv_apply c v)"
  using sv_apply_cases by (intro growingI) (metis prod.collapse asked_from_asking)

lemma growing_set_modulation [growing_intros]: "growing (sv_set_modulation c want)"
proof (cases "map_of MODULATION_VALUES want")
  case (Some n)
  show ?thesis unfolding sv_set_modulation_def Some option.case
    by (rule growingI, rule after_reply [where I = "asked_from h" for h, OF _ asked_from_asking])
      (auto simp: Let_def intro: asked_from_fields split: option.splits dock_message.splits)
qed (simp add: sv_set_modulation_def growing_basic)

lemma growing_probe [growing_intros]: "growing (probe_broadcast_fm c)"
proof (rule growingI)
  fix h s assume "asked_from h s"
  then show "asked_from h (snd (probe_broadcast_fm c s))"
    using probe_cases [of c s "fst (probe_broadcast_fm c s)" "snd (probe_broadcast_fm c s)"] by (auto simp: asked_from_def)
qed

lemma growing_clear [growing_intros]: "growing (clear_broadcast_fm c)"
  unfolding clear_broadcast_fm_def
  by (rule growingI, rule after_reply [where I = "asked_from h" for h, OF _ asked_from_asking])
    (auto simp: Let_def fm_answered_def intro: asked_from_fields split: option.splits dock_message.splits)

lemma growing_set_fm [growing_intros]: "growing (set_broadcast_fm c a hz b)"
proof (cases "set_broadcast_fm_new a hz b")
  case (Inr m)
  show ?thesis unfolding set_broadcast_fm_def Inr sum.case
    by (rule growingI, rule after_reply [where I = "asked_from h" for h, OF _ asked_from_asking])
      (auto simp: Let_def fm_answered_def intro: asked_from_fields split: option.splits dock_message.splits)
qed (simp add: set_broadcast_fm_def growing_basic)

lemma growing_read_rssi [growing_intros]: "growing (read_rssi c)"
  by (rule growingI) (simp add: read_rssi_asks asked_from_asking)

lemma growing_write_channel [growing_intros]: "growing (write_channel c v)"
  unfolding growing_def by (intro allI keep_write_channel stable_asked)

lemma growing_verify [growing_intros]: "growing (ee_verify c band i rec)"
  unfolding growing_def ee_verify_def by (auto intro!: keep_rules keep_read stable_asked)

lemma growing_hello [growing_intros]: "growing (ee_hello c n)"
  by (rule growingI, rule hello_keeps [where I = "asked_from h" for h])
    (auto simp: asked_from_asking sleeping_def intro: asked_from_fields)

lemma growing_send [growing_intros]: "growing (tp_send c m)"
  by (rule growingI) (auto simp: tp_send_def asked_from_asking split: sum.splits)

lemma growing_ee_apply [growing_intros]: "growing (ee_apply c v)"
  unfolding ee_apply_def by (intro growing_intros) (simp_all add: sleeping_def)

lemma growing_hb_store [growing_intros]: "growing (hb_store c v)"
  unfolding hb_store_def by (intro growing_intros) (simp add: arm_lockout_def)

lemma growing_hb_apply [growing_intros]: "growing (hb_apply c v)"
proof -
  have "growing (discarding (hb_store c v))" by (intro growing_intros)
  then have "growing (\<lambda>s. if \<not> tn_persist s then (Inr (), s) else discarding (hb_store c v) s)"
    by (intro growingI) (simp add: growingD)
  then show ?thesis unfolding hb_apply_def by (intro growing_intros)
qed

end
