(* ===== verification/SoundCard.thy ===== *)
theory SoundCard
  imports Prelude "HOL-Library.Sublist"
begin

section \<open>The sound card's playout pacer\<close>

text \<open>
  \<open>radio_server/backends/soundcard.py\<close>: \<open>SoundCardTxPacer\<close> and its sizes. One step of the writer thread is the
  chunk it takes (\<open>sc_take\<close>); the end of the blocking write is a second step, successful or not (\<open>sc_wrote\<close>,
  \<open>sc_failed\<close>), so that calls of other threads may fall between the two. \<open>sc_played\<close> is the history of completed
  writes, which the code does not keep. Opening the streams and finding the device are left out.
\<close>

definition AUDIO_RATE :: int where "AUDIO_RATE = 48000"
definition FRAME_BYTE_COUNT :: int where "FRAME_BYTE_COUNT = 2"
definition TX_BUFFER_SECONDS :: real where "TX_BUFFER_SECONDS = 2"

definition lead_in_bytes :: "real \<Rightarrow> int" where
  "lead_in_bytes seconds = py_round (real_of_int AUDIO_RATE * seconds) * FRAME_BYTE_COUNT"

definition playout_buffer_bytes :: "int \<Rightarrow> int" where
  "playout_buffer_bytes lead = max (py_round (real_of_int AUDIO_RATE * TX_BUFFER_SECONDS) * FRAME_BYTE_COUNT) (lead * 2)"

lemma playout_buffer_bytes_eval [code]: "playout_buffer_bytes lead = max 192000 (lead * 2)"
proof -
  have "py_round (real_of_int AUDIO_RATE * TX_BUFFER_SECONDS) = py_round (real_of_int 96000)" by (simp add: AUDIO_RATE_def TX_BUFFER_SECONDS_def)
  then show ?thesis by (simp only: playout_buffer_bytes_def py_round_int FRAME_BYTE_COUNT_def)
qed

record sc_pacer =
  sc_chunks :: "bytes list"
  sc_buffered :: int
  sc_writing :: "bytes option"
  sc_stopped :: bool
  sc_dropped :: int
  sc_error :: "exn option"
  sc_played :: "bytes list"

definition sc_new :: sc_pacer where
  "sc_new = \<lparr>sc_chunks = [], sc_buffered = 0, sc_writing = None, sc_stopped = False, sc_dropped = 0, sc_error = None, sc_played = []\<rparr>"

text \<open>\<open>while self._buffered > self._max and len(self._chunks) > 1\<close>.\<close>

fun shed_oldest :: "int \<Rightarrow> bytes list \<Rightarrow> int \<Rightarrow> int \<Rightarrow> bytes list \<times> int \<times> int" where
  "shed_oldest limit (old # x # xs) buffered dropped =
     (if buffered > limit then shed_oldest limit (x # xs) (buffered - int (length old)) (dropped + int (length old))
      else (old # x # xs, buffered, dropped))"
| "shed_oldest limit xs buffered dropped = (xs, buffered, dropped)"

definition sc_enqueue :: "int \<Rightarrow> bytes \<Rightarrow> sc_pacer \<Rightarrow> sc_pacer" where
  "sc_enqueue limit pcm p =
     (if pcm = [] \<or> sc_stopped p then p
      else let (xs, b, d) = shed_oldest limit (sc_chunks p @ [pcm]) (sc_buffered p + int (length pcm)) (sc_dropped p)
           in p\<lparr>sc_chunks := xs, sc_buffered := b, sc_dropped := d\<rparr>)"

definition sc_take :: "sc_pacer \<Rightarrow> sc_pacer" where
  "sc_take p =
     (if sc_stopped p \<or> sc_writing p \<noteq> None then p
      else case sc_chunks p of
             [] \<Rightarrow> p
           | x # xs \<Rightarrow> p\<lparr>sc_chunks := xs, sc_buffered := sc_buffered p - int (length x), sc_writing := Some x\<rparr>)"

definition sc_wrote :: "sc_pacer \<Rightarrow> sc_pacer" where
  "sc_wrote p = (case sc_writing p of None \<Rightarrow> p | Some x \<Rightarrow> p\<lparr>sc_writing := None, sc_played := sc_played p @ [x]\<rparr>)"

text \<open>The handler of a failed write, up to \<open>on_error\<close>.\<close>

definition sc_failed :: "exn \<Rightarrow> sc_pacer \<Rightarrow> sc_pacer" where
  "sc_failed e p =
     (if sc_writing p = None then p
      else p\<lparr>sc_error := Some e, sc_writing := None, sc_stopped := True, sc_chunks := [], sc_buffered := 0\<rparr>)"

definition sc_stop :: "sc_pacer \<Rightarrow> int \<times> sc_pacer" where
  "sc_stop p = (if sc_stopped p then 0 else sc_buffered p, p\<lparr>sc_stopped := True, sc_chunks := [], sc_buffered := 0\<rparr>)"

definition sc_drained :: "sc_pacer \<Rightarrow> bool" where
  "sc_drained p \<longleftrightarrow> sc_chunks p = [] \<and> sc_writing p = None"

subsection \<open>Order and bound\<close>

datatype sc_event = ScEnqueue bytes | ScTake | ScWrote | ScFailed exn | ScStop

fun sc_exec :: "int \<Rightarrow> sc_event \<Rightarrow> sc_pacer \<Rightarrow> sc_pacer" where
  "sc_exec limit (ScEnqueue pcm) p = sc_enqueue limit pcm p"
| "sc_exec limit ScTake p = sc_take p"
| "sc_exec limit ScWrote p = sc_wrote p"
| "sc_exec limit (ScFailed e) p = sc_failed e p"
| "sc_exec limit ScStop p = snd (sc_stop p)"

definition sc_run :: "int \<Rightarrow> sc_event list \<Rightarrow> sc_pacer" where
  "sc_run limit evs = fold (sc_exec limit) evs sc_new"

fun offered :: "sc_event list \<Rightarrow> bytes list" where
  "offered [] = []"
| "offered (ScEnqueue pcm # evs) = (if pcm = [] then offered evs else pcm # offered evs)"
| "offered (_ # evs) = offered evs"

definition in_flight :: "sc_pacer \<Rightarrow> bytes list" where
  "in_flight p = (case sc_writing p of None \<Rightarrow> [] | Some x \<Rightarrow> [x])"

abbreviation accepted :: "sc_pacer \<Rightarrow> bytes list" where
  "accepted p \<equiv> sc_played p @ in_flight p @ sc_chunks p"

lemma offered_append: "offered (a @ b) = offered a @ offered b"
  by (induction a rule: offered.induct) simp_all

lemma shed_cases:
  assumes "shed_oldest limit xs b d = (ys, b', d')"
  shows "\<exists>zs. xs = zs @ ys \<and> b' = b - int (sum_list (map length zs)) \<and> d' = d + int (sum_list (map length zs))
    \<and> (b' \<le> limit \<or> length ys \<le> 1) \<and> (b \<le> limit \<longrightarrow> zs = []) \<and> (xs \<noteq> [] \<longrightarrow> ys \<noteq> [])"
  using assms
proof (induction limit xs b d rule: shed_oldest.induct)
  case (1 limit old x xs b d)
  show ?case
  proof (cases "b > limit")
    case True
    then obtain zs where zs: "x # xs = zs @ ys" "b' = b - int (length old) - int (sum_list (map length zs))"
        "d' = d + int (length old) + int (sum_list (map length zs))" "b' \<le> limit \<or> length ys \<le> 1" "ys \<noteq> []"
      using 1 by auto
    then show ?thesis using True by (intro exI [of _ "old # zs"]) simp
  next
    case False
    then show ?thesis using 1 by auto
  qed
qed auto

definition sc_ok :: "int \<Rightarrow> sc_event list \<Rightarrow> sc_pacer \<Rightarrow> bool" where
  "sc_ok limit evs p \<longleftrightarrow> sc_buffered p = int (sum_list (map length (sc_chunks p))) \<and> (sc_buffered p \<le> limit \<or> length (sc_chunks p) \<le> 1)
     \<and> subseq (accepted p) (offered evs) \<and> (\<forall>x\<in>set (sc_chunks p). x \<noteq> []) \<and> 0 \<le> sc_dropped p \<and> (sc_stopped p \<longrightarrow> sc_chunks p = [])
     \<and> (\<not> sc_stopped p \<and> sc_dropped p = 0 \<longrightarrow> accepted p = offered evs)"

lemma sc_enqueue_ok:
  assumes ok: "sc_ok limit evs p"
  shows "sc_ok limit (evs @ [ScEnqueue pcm]) (sc_enqueue limit pcm p)"
proof (cases "pcm = [] \<or> sc_stopped p")
  case True
  then have "offered (evs @ [ScEnqueue pcm]) = offered evs @ (if pcm = [] then [] else [pcm])" by (simp add: offered_append)
  then show ?thesis using ok True by (auto simp: sc_ok_def sc_enqueue_def intro: subseq_rev_drop_many)
next
  case False
  obtain xs b d where s: "shed_oldest limit (sc_chunks p @ [pcm]) (sc_buffered p + int (length pcm)) (sc_dropped p) = (xs, b, d)"
    by (metis prod_cases3)
  from shed_cases [OF s] obtain zs where z: "sc_chunks p @ [pcm] = zs @ xs"
      "b = sc_buffered p + int (length pcm) - int (sum_list (map length zs))"
      "d = sc_dropped p + int (sum_list (map length zs))" "b \<le> limit \<or> length xs \<le> 1" by auto
  have q: "sc_enqueue limit pcm p = p\<lparr>sc_chunks := xs, sc_buffered := b, sc_dropped := d\<rparr>"
    using False s by (simp add: sc_enqueue_def)
  have off: "offered (evs @ [ScEnqueue pcm]) = offered evs @ [pcm]" using False by (simp add: offered_append)
  have "int (sum_list (map length (sc_chunks p @ [pcm]))) = int (sum_list (map length (zs @ xs)))" using z(1) by simp
  then have b: "b = int (sum_list (map length xs))" using z(2) ok by (simp add: sc_ok_def)
  have ne: "\<forall>x\<in>set (zs @ xs). x \<noteq> []" using ok False unfolding z(1) [symmetric] by (auto simp: sc_ok_def)
  have "subseq (sc_played p @ in_flight p @ xs) (sc_played p @ in_flight p @ zs @ xs)"
    by (simp only: subseq_append') (rule subseq_drop_many, rule subseq_order.order_refl)
  also have "sc_played p @ in_flight p @ zs @ xs = accepted p @ [pcm]" using z(1) by simp
  also have "subseq (accepted p @ [pcm]) (offered evs @ [pcm])" using ok by (simp add: sc_ok_def del: append_assoc)
  finally have sub: "subseq (sc_played p @ in_flight p @ xs) (offered evs @ [pcm])" .
  have "accepted p @ [pcm] = offered evs @ [pcm]" "zs = []" if "d = 0"
  proof -
    have "0 \<le> sc_dropped p" using ok by (simp add: sc_ok_def)
    then have "sc_dropped p = 0 \<and> sum_list (map length zs) = 0" using z(3) that by linarith
    then show "accepted p @ [pcm] = offered evs @ [pcm]" "zs = []"
      using ok False ne by (auto simp: sc_ok_def sum_list_eq_0_iff)
  qed
  then have eq: "sc_played p @ in_flight p @ xs = offered evs @ [pcm]" if "d = 0" using that z(1) by auto
  have "in_flight (p\<lparr>sc_chunks := x, sc_buffered := y, sc_dropped := z\<rparr>) = in_flight p" for x y z by (simp add: in_flight_def)
  then show ?thesis
    using ok b z(3,4) sub eq ne False unfolding off sc_ok_def q by simp
qed

lemma sc_take_cases:
  "sc_take p = p \<or> (\<exists>x xs. sc_chunks p = x # xs \<and> \<not> sc_stopped p \<and> sc_writing p = None
     \<and> sc_take p = p\<lparr>sc_chunks := xs, sc_buffered := sc_buffered p - int (length x), sc_writing := Some x\<rparr>)"
  by (auto simp: sc_take_def split: list.splits)

lemma sc_exec_ok: "sc_ok limit evs p \<Longrightarrow> sc_ok limit (evs @ [e]) (sc_exec limit e p)"
proof (cases e)
  case (ScEnqueue pcm)
  then show "sc_ok limit evs p \<Longrightarrow> ?thesis" using sc_enqueue_ok by simp
next
  case ScTake
  assume ok: "sc_ok limit evs p"
  have off: "offered (evs @ [ScTake]) = offered evs" by (simp add: offered_append)
  from sc_take_cases [of p] show ?thesis
  proof (elim disjE exE conjE)
    fix x xs
    assume q: "sc_chunks p = x # xs" "\<not> sc_stopped p" "sc_writing p = None"
      "sc_take p = p\<lparr>sc_chunks := xs, sc_buffered := sc_buffered p - int (length x), sc_writing := Some x\<rparr>"
    then have "accepted (sc_take p) = accepted p" by (simp add: in_flight_def)
    then show ?thesis using ok q unfolding ScTake sc_ok_def off by (auto simp: in_flight_def)
  qed (use ok ScTake off in \<open>auto simp: sc_ok_def\<close>)
next
  case ScWrote
  assume ok: "sc_ok limit evs p"
  have off: "offered (evs @ [ScWrote]) = offered evs" by (simp add: offered_append)
  show ?thesis
  proof (cases "sc_writing p")
    case (Some x)
    then have "sc_wrote p = p\<lparr>sc_writing := None, sc_played := sc_played p @ [x]\<rparr>" "in_flight p = [x]"
      by (simp_all add: sc_wrote_def in_flight_def)
    then show ?thesis using ok unfolding ScWrote sc_ok_def off by (auto simp: in_flight_def)
  qed (use ok ScWrote off in \<open>auto simp: sc_ok_def sc_wrote_def\<close>)
next
  case (ScFailed x)
  assume ok: "sc_ok limit evs p"
  have "subseq (sc_played p) (accepted p)" by (rule prefix_imp_subseq) simp
  also have "subseq (accepted p) (offered evs)" using ok by (simp add: sc_ok_def)
  finally show ?thesis using ok ScFailed by (auto simp: sc_ok_def sc_failed_def in_flight_def offered_append)
next
  case ScStop
  assume ok: "sc_ok limit evs p"
  have "subseq (sc_played p @ in_flight p) (accepted p)" by (rule prefix_imp_subseq) simp
  also have "subseq (accepted p) (offered evs)" using ok by (simp add: sc_ok_def)
  finally show ?thesis using ok ScStop by (auto simp: sc_ok_def sc_stop_def in_flight_def offered_append)
qed

lemma sc_run_ok: "sc_ok limit evs (sc_run limit evs)"
proof (induction evs rule: rev_induct)
  case Nil
  show ?case by (simp add: sc_run_def sc_new_def sc_ok_def in_flight_def)
next
  case (snoc e evs)
  then show ?case using sc_exec_ok [of limit evs "sc_run limit evs" e] by (simp add: sc_run_def)
qed

text \<open>The playout pacer plays what it is given, in order: whatever the producer, the writer thread and a stop do, the
  chunks played, the one being written and the ones buffered are, in this order, a subsequence of the non-empty
  chunks offered, all of them while nothing was dropped and the pacer runs; what is buffered stays in the bound or
  is one chunk; and a stopped pacer buffers nothing, so nothing plays on after an un-key but the write under way.
\<close>

theorem pacer_plays_in_order:
  "subseq (sc_played (sc_run limit evs) @ in_flight (sc_run limit evs) @ sc_chunks (sc_run limit evs)) (offered evs)
   \<and> (sc_stopped (sc_run limit evs) \<or> sc_dropped (sc_run limit evs) \<noteq> 0
        \<or> sc_played (sc_run limit evs) @ in_flight (sc_run limit evs) @ sc_chunks (sc_run limit evs) = offered evs)
   \<and> (sum_list (map length (sc_chunks (sc_run limit evs))) \<le> limit \<or> length (sc_chunks (sc_run limit evs)) \<le> 1)
   \<and> (sc_chunks (sc_run limit evs) = [] \<or> sc_stopped (sc_run limit evs) = False)"
  using sc_run_ok [of limit evs] unfolding sc_ok_def by auto

end
