(* ===== verification/Aioc.thy ===== *)
theory Aioc
  imports Uvk5Storage SoundCard
begin

section \<open>The AIOC / Baofeng backend\<close>

text \<open>
  \<open>radio_server/backends/aioc_baofeng.py\<close>: a radio keyed by a serial control line, its audio on a sound card, and,
  if it is a UV-K5, tuned over the same cable by one of the tuners of the two theories before (\<open>ai_tn\<close>; the clock is
  the tuner's). \<open>aioc_env\<close> holds what the hardware does: each answer depends on the number of hardware calls made so
  far, so that every sequence of outcomes is possible. \<open>en_line\<close> says what setting the PTT line to a level
  does: nothing but setting it, or raising, with the line moved or not. A mode or power name is passed lower- or
  upper-cased and stripped, as the first line of its setter makes it. Capturing audio, the RSSI poller and the
  health blocks are left out.
\<close>

datatype tuner_mode = TunerOFF | TunerSETVFO | TunerEEPROM | TunerHYBRID
datatype ptt_line = LineRTS | LineDTR

definition BOOT_MODULATION :: string where "BOOT_MODULATION = ''FM''"
definition KEY_UP_WIRE_DRAIN_S :: real where "KEY_UP_WIRE_DRAIN_S = 3 / 10"
definition SHARED_CAPS :: "capability set" where "SHARED_CAPS = {CapTRANSMIT, CapRECEIVE, CapPTT, CapSTATUS}"

record aioc_env =
  en_mode :: tuner_mode
  en_ptt_line :: ptt_line
  en_radio :: dock_radio
  en_lead :: nat
  en_open :: "nat \<Rightarrow> exn option"
  en_line :: "nat \<Rightarrow> bool \<Rightarrow> (exn \<times> bool) option"
  en_other_line :: "nat \<Rightarrow> exn option"
  en_write :: "nat \<Rightarrow> exn option"
  en_writes_in_time :: "nat \<Rightarrow> nat"
  en_quiet :: "nat \<Rightarrow> real option"
  en_wire_busy :: "nat \<Rightarrow> bool"
  en_exchanges :: "nat \<Rightarrow> nat"

record wire_stats =
  ws_key_ups :: nat
  ws_busy_at_key_up :: nat
  ws_with_traffic :: nat
  ws_keyed_busy :: nat
  ws_waited :: nat
  ws_longest_ms :: "real option"

record aioc =
  ai_tn :: uvk5_tuner
  ai_line :: bool
  ai_transmitting :: bool
  ai_keyed :: bool
  ai_closed :: bool
  ai_tuned :: "vfo_image option"
  ai_pending :: "vfo_image option"
  ai_batch :: int
  ai_power :: power_level
  ai_playback :: bool
  ai_pacer :: "sc_pacer option"
  ai_keying :: int
  ai_transport :: bool
  ai_wire :: wire_stats
  ai_interval :: "nat option"
  ai_calls :: nat

definition aioc_init :: "aioc_env \<Rightarrow> bool \<Rightarrow> power_level \<Rightarrow> aioc" where
  "aioc_init c persist level =
     \<lparr>ai_tn = new_tuner persist, ai_line = False, ai_transmitting = False, ai_keyed = False, ai_closed = False, ai_tuned = None,
      ai_pending = None, ai_batch = 0, ai_power = level, ai_playback = False, ai_pacer = None, ai_keying = 0,
      ai_transport = (en_mode c \<noteq> TunerOFF),
      ai_wire = \<lparr>ws_key_ups = 0, ws_busy_at_key_up = 0, ws_with_traffic = 0, ws_keyed_busy = 0, ws_waited = 0, ws_longest_ms = None\<rparr>,
      ai_interval = None, ai_calls = 0\<rparr>"

definition counted :: "aioc \<Rightarrow> aioc" where "counted s = s\<lparr>ai_calls := Suc (ai_calls s)\<rparr>"

definition on_tuner :: "(uvk5_tuner, 'a) meth \<Rightarrow> (aioc, 'a) meth" where
  "on_tuner m s = (let (r, t) = m (ai_tn s) in (r, s\<lparr>ai_tn := t\<rparr>))"

subsection \<open>The attached tuner\<close>

text \<open>The methods and attributes of \<open>self._tuner\<close>, by the class built for the mode.\<close>

fun tu_apply :: "aioc_env \<Rightarrow> vfo_image \<Rightarrow> (uvk5_tuner, unit) meth" where
  "tu_apply c v =
     (case en_mode c of TunerSETVFO \<Rightarrow> sv_apply (en_radio c) v | TunerEEPROM \<Rightarrow> ee_apply (en_radio c) v
      | TunerHYBRID \<Rightarrow> hb_apply (en_radio c) v | TunerOFF \<Rightarrow> raising AttributeError)"

fun tu_reassert :: "aioc_env \<Rightarrow> vfo_image \<Rightarrow> (uvk5_tuner, unit) meth" where
  "tu_reassert c v =
     (case en_mode c of TunerSETVFO \<Rightarrow> sv_apply (en_radio c) v | TunerEEPROM \<Rightarrow> ee_reassert (en_radio c) v
      | TunerHYBRID \<Rightarrow> hb_reassert (en_radio c) v | TunerOFF \<Rightarrow> returning ())"

fun tu_capabilities :: "aioc_env \<Rightarrow> uvk5_tuner \<Rightarrow> capability set" where
  "tu_capabilities c t =
     (case en_mode c of TunerOFF \<Rightarrow> {} | TunerEEPROM \<Rightarrow> TUNING_CAPS | _ \<Rightarrow> sv_capabilities t)"

fun tu_set_modulation :: "aioc_env \<Rightarrow> string \<Rightarrow> (uvk5_tuner, bool) meth" where
  "tu_set_modulation c m =
     (case en_mode c of TunerOFF \<Rightarrow> raising UnsupportedCapability | TunerEEPROM \<Rightarrow> ee_set_modulation m
      | _ \<Rightarrow> sv_set_modulation (en_radio c) m)"

fun tu_volatile :: "aioc_env \<Rightarrow> uvk5_tuner \<Rightarrow> bool" where
  "tu_volatile c t = (case en_mode c of TunerSETVFO \<Rightarrow> True | TunerHYBRID \<Rightarrow> hb_volatile t | _ \<Rightarrow> False)"

fun tu_persist :: "aioc_env \<Rightarrow> uvk5_tuner \<Rightarrow> bool option" where
  "tu_persist c t = (if en_mode c = TunerHYBRID then Some (tn_persist t) else None)"

definition fm_capable :: "aioc_env \<Rightarrow> aioc \<Rightarrow> bool" where
  "fm_capable c s \<longleftrightarrow> en_mode c \<noteq> TunerOFF \<and> CapCLEAR_BROADCAST_FM \<in> tu_capabilities c (ai_tn s)"

subsection \<open>Startup\<close>

text \<open>\<open>try: ... except (TuneError, OSError)\<close>; \<open>TuneBusy\<close> is a \<open>TuneError\<close>.\<close>

definition tolerating :: "(aioc, 'a) meth \<Rightarrow> (aioc, unit) meth" where
  "tolerating m = catching (discarding m) (\<lambda>e. if e \<in> {TuneError, TuneBusy, OSError} then returning () else raising e)"

definition assert_boot_broadcast_fm :: "aioc_env \<Rightarrow> (aioc, unit) meth" where
  "assert_boot_broadcast_fm c s =
     (if CapSET_MODULATION \<notin> tu_capabilities c (ai_tn s) then (Inr (), s)
      else tolerating (on_tuner (clear_broadcast_fm (en_radio c))) s)"

definition assert_boot_modulation :: "aioc_env \<Rightarrow> (aioc, unit) meth" where
  "assert_boot_modulation c s =
     (if CapSET_MODULATION \<notin> tu_capabilities c (ai_tn s) then (Inr (), s)
      else tolerating (on_tuner (tu_set_modulation c BOOT_MODULATION)) s)"

definition aioc_boot :: "aioc_env \<Rightarrow> (aioc, unit) meth" where
  "aioc_boot c = andthen (assert_boot_broadcast_fm c) (\<lambda>_. assert_boot_modulation c)"

subsection \<open>The line\<close>

definition set_line :: "aioc_env \<Rightarrow> bool \<Rightarrow> (aioc, unit) meth" where
  "set_line c v s =
     (case en_line c (ai_calls s) v of
        None \<Rightarrow> (Inr (), (counted s)\<lparr>ai_line := v\<rparr>)
      | Some (e, moved) \<Rightarrow> (Inl e, (counted s)\<lparr>ai_line := (if moved then v else ai_line s)\<rparr>))"

definition drop_line :: "aioc_env \<Rightarrow> (aioc, unit) meth" where
  "drop_line c = andthen (set_line c False) (\<lambda>_. modifying (\<lambda>s. s\<lparr>ai_transmitting := False\<rparr>))"

definition open_interval :: "bool \<Rightarrow> nat \<Rightarrow> aioc \<Rightarrow> aioc" where
  "open_interval busy before s =
     s\<lparr>ai_wire := (ai_wire s)\<lparr>ws_key_ups := ws_key_ups (ai_wire s) + 1,
         ws_busy_at_key_up := ws_busy_at_key_up (ai_wire s) + of_bool busy\<rparr>, ai_interval := Some before\<rparr>"

definition close_interval :: "aioc_env \<Rightarrow> aioc \<Rightarrow> aioc" where
  "close_interval c s =
     (let s1 = s\<lparr>ai_interval := None\<rparr> in
      case ai_interval s of
        None \<Rightarrow> s1
      | Some opened \<Rightarrow>
          if \<not> ai_transport s then s1
          else if en_exchanges c (ai_calls s) \<le> opened then s1
          else s1\<lparr>ai_wire := (ai_wire s)\<lparr>ws_with_traffic := ws_with_traffic (ai_wire s) + 1\<rparr>\<rparr>)"

definition aioc_key_off :: "aioc_env \<Rightarrow> (aioc, unit) meth" where
  "aioc_key_off c = andthen (drop_line c) (\<lambda>_. modifying (\<lambda>s. (close_interval c s)\<lparr>ai_pacer := None, ai_playback := False\<rparr>))"

subsection \<open>The gates of a key-up\<close>

definition tx_ready_in :: "aioc_env \<Rightarrow> aioc \<Rightarrow> real option" where
  "tx_ready_in c s =
     (if en_mode c = TunerOFF then None
      else case tn_tx_ready_at (ai_tn s) of
             None \<Rightarrow> None
           | Some deadline \<Rightarrow> (let remaining = deadline - tn_now (ai_tn s) in if remaining > 0 then Some remaining else None))"

definition await_tx_lockout :: "aioc_env \<Rightarrow> (aioc, unit) meth" where
  "await_tx_lockout c s =
     (case tx_ready_in c s of None \<Rightarrow> (Inr (), s)
      | Some remaining \<Rightarrow> (Inr (), s\<lparr>ai_tn := sleeping (min remaining SERIAL_TX_LOCKOUT_S) (ai_tn s)\<rparr>))"

definition reassert_channel :: "aioc_env \<Rightarrow> (aioc, unit) meth" where
  "reassert_channel c s =
     (case ai_tuned s of
        None \<Rightarrow> (Inr (), s)
      | Some v \<Rightarrow>
          if \<not> tu_volatile c (ai_tn s) then (Inr (), s)
          else andthen
                 (case tn_modulation (ai_tn s) of None \<Rightarrow> returning () | Some m \<Rightarrow> discarding (on_tuner (tu_set_modulation c m)))
                 (\<lambda>_. on_tuner (tu_reassert c v)) s)"

definition refuse_if_deafened :: "broadcast_fm option \<Rightarrow> (aioc, unit) meth" where
  "refuse_if_deafened b = (case b of None \<Rightarrow> returning () | Some b \<Rightarrow> if bf_on b then raising RadioUnavailable else returning ())"

definition clear_if_deafened :: "aioc_env \<Rightarrow> (aioc, unit) meth" where
  "clear_if_deafened c =
     andthen
       (\<lambda>s. if \<not> fm_capable c s then (Inr (), s)
            else andthen (on_tuner (probe_broadcast_fm (en_radio c)))
                   (\<lambda>_. catching (discarding (on_tuner (clear_broadcast_fm (en_radio c))))
                     (\<lambda>e. if e = TuneBusy then returning ()
                          else if e \<in> {TuneError, OSError} then raising RadioUnavailable else raising e)) s)
       (\<lambda>_ s. refuse_if_deafened (if en_mode c = TunerOFF then None else tn_fm (ai_tn s)) s)"

definition refuse_if_tx_disabled :: "aioc_env \<Rightarrow> (aioc, unit) meth" where
  "refuse_if_tx_disabled c s =
     (if en_mode c \<noteq> TunerOFF \<and> tn_tx_ok (ai_tn s) = Some False then (Inl RadioUnavailable, s) else (Inr (), s))"

definition reserve_the_wire :: "aioc_env \<Rightarrow> aioc \<Rightarrow> aioc" where
  "reserve_the_wire c s =
     (let s1 = s\<lparr>ai_keying := ai_keying s + 1\<rparr>; w = ai_wire s in
      if \<not> ai_transport s then s1
      else case en_quiet c (ai_calls s) of
             None \<Rightarrow> (counted s1)\<lparr>ai_wire := w\<lparr>ws_keyed_busy := ws_keyed_busy w + 1\<rparr>, ai_tn := sleeping KEY_UP_WIRE_DRAIN_S (ai_tn s)\<rparr>
           | Some waited \<Rightarrow>
               (let s2 = (counted s1)\<lparr>ai_tn := sleeping (max 0 waited) (ai_tn s)\<rparr> in
                if waited > 1 / 1000
                then s2\<lparr>ai_wire := w\<lparr>ws_waited := ws_waited w + 1,
                       ws_longest_ms := (case ws_longest_ms w of
                          None \<Rightarrow> Some (waited * 1000)
                        | Some l \<Rightarrow> if waited * 1000 > l then Some (waited * 1000) else Some l)\<rparr>\<rparr>
                else s2))"

definition release_the_wire :: "aioc \<Rightarrow> aioc" where
  "release_the_wire s = s\<lparr>ai_keying := max 0 (ai_keying s - 1)\<rparr>"

definition cadence_paused :: "aioc \<Rightarrow> bool" where
  "cadence_paused s \<longleftrightarrow> ai_transmitting s \<or> ai_keying s > 0"

subsection \<open>Keying\<close>

definition buffer_limit :: "aioc_env \<Rightarrow> int" where
  "buffer_limit c = playout_buffer_bytes (int (en_lead c))"

definition key_on_locked :: "aioc_env \<Rightarrow> (aioc, unit) meth" where
  "key_on_locked c s =
     (let busy = (ai_transport s \<and> en_wire_busy c (ai_calls s));
          before = (if ai_transport s then en_exchanges c (ai_calls s) else 0);
          pacer = (if en_lead c = 0 then sc_new else sc_enqueue (buffer_limit c) (replicate (en_lead c) 0) sc_new) in
      case en_open c (ai_calls s) of
        Some e \<Rightarrow> (Inl e, counted s)
      | None \<Rightarrow>
          andthen
            (catching (set_line c True) (\<lambda>e. andthen (guarded (drop_line c)) (\<lambda>_. raising e)))
            (\<lambda>_. modifying (\<lambda>s. open_interval busy before (s\<lparr>ai_playback := True, ai_pacer := Some pacer\<rparr>)))
            ((counted s)\<lparr>ai_transmitting := True\<rparr>))"

definition key_up_gates :: "aioc_env \<Rightarrow> (aioc, unit) meth" where
  "key_up_gates c =
     andthen (clear_if_deafened c) (\<lambda>_. andthen (reassert_channel c)
       (\<lambda>_. andthen (refuse_if_tx_disabled c) (\<lambda>_. await_tx_lockout c)))"

text \<open>\<open>try: ... finally: self._release_the_wire()\<close>.\<close>

definition aioc_key_on :: "aioc_env \<Rightarrow> (aioc, unit) meth" where
  "aioc_key_on c s =
     (let (r, s1) = andthen (key_up_gates c) (\<lambda>_. key_on_locked c) (reserve_the_wire c s)
      in (r, release_the_wire s1))"

definition aioc_ptt :: "aioc_env \<Rightarrow> bool \<Rightarrow> (aioc, unit) meth" where
  "aioc_ptt c on s =
     (if on
      then if ai_keyed s then (Inr (), s)
           else andthen (aioc_key_on c) (\<lambda>_. modifying (\<lambda>s. s\<lparr>ai_keyed := True\<rparr>)) s
      else aioc_key_off c (s\<lparr>ai_keyed := False\<rparr>))"

text \<open>The pacer's thread writes up to \<open>n\<close> chunks; a write that fails stops it and un-keys.\<close>

fun writer_runs :: "aioc_env \<Rightarrow> nat \<Rightarrow> aioc \<Rightarrow> exn option \<times> aioc" where
  "writer_runs c 0 s = (None, s)"
| "writer_runs c (Suc n) s =
     (case ai_pacer s of
        None \<Rightarrow> (None, s)
      | Some p \<Rightarrow>
          let p1 = sc_take p in
          if sc_writing p1 = None then (None, s)
          else case en_write c (ai_calls s) of
                 None \<Rightarrow> writer_runs c n ((counted s)\<lparr>ai_pacer := Some (sc_wrote p1)\<rparr>)
               | Some e \<Rightarrow> (Some e, snd (guarded (aioc_key_off c) ((counted s)\<lparr>ai_pacer := Some (sc_failed e p1)\<rparr>))))"

text \<open>The body of the one-shot \<open>try\<close>: queue the frame, wait for the writer, surface its failure.\<close>

definition play_out :: "aioc_env \<Rightarrow> bytes \<Rightarrow> (aioc, unit) meth" where
  "play_out c pcm s =
     (case ai_pacer s of
        None \<Rightarrow> (Inr (), s)
      | Some p \<Rightarrow>
          let (err, s1) = writer_runs c (en_writes_in_time c (ai_calls s)) ((counted s)\<lparr>ai_pacer := Some (sc_enqueue (buffer_limit c) pcm p)\<rparr>)
          in (case err of None \<Rightarrow> Inr () | Some e \<Rightarrow> Inl e, s1))"

text \<open>\<open>try: m finally: f\<close>: an exception of \<open>f\<close> replaces what \<open>m\<close> did.\<close>

definition finally_do :: "('s, unit) meth \<Rightarrow> ('s, unit) meth \<Rightarrow> ('s, unit) meth" where
  "finally_do m f s =
     (let (r, s1) = m s in case f s1 of (Inl e, s2) \<Rightarrow> (Inl e, s2) | (Inr _, s2) \<Rightarrow> (r, s2))"

definition aioc_transmit :: "aioc_env \<Rightarrow> bool \<Rightarrow> bytes \<Rightarrow> (aioc, unit) meth" where
  "aioc_transmit c canonical pcm s =
     (if \<not> canonical then (Inl AudioFormatMismatch, s)
      else if ai_keyed s
      then (Inr (), case ai_pacer s of None \<Rightarrow> s | Some p \<Rightarrow> s\<lparr>ai_pacer := Some (sc_enqueue (buffer_limit c) pcm p)\<rparr>)
      else andthen (aioc_key_on c) (\<lambda>_. finally_do (play_out c pcm) (aioc_key_off c)) s)"

subsection \<open>Tuning\<close>

record staged =
  sg_rx :: "int option"
  sg_tx :: "int option"
  sg_ctcss :: int
  sg_narrow :: bool
  sg_power :: int

definition require_tuner :: "aioc_env \<Rightarrow> (aioc, unit) meth" where
  "require_tuner c = (if en_mode c = TunerOFF then raising UnsupportedCapability else returning ())"

definition current_image :: "aioc \<Rightarrow> vfo_image option" where
  "current_image s = (case ai_pending s of Some v \<Rightarrow> Some v | None \<Rightarrow> ai_tuned s)"

definition stage_base :: "aioc \<Rightarrow> staged" where
  "stage_base s =
     (case current_image s of
        None \<Rightarrow> \<lparr>sg_rx = None, sg_tx = None, sg_ctcss = 0, sg_narrow = False, sg_power = level_step (ai_power s)\<rparr>
      | Some v \<Rightarrow> \<lparr>sg_rx = Some (vi_rx_hz v), sg_tx = Some (vi_tx_hz v), sg_ctcss = vi_ctcss_tenths v, sg_narrow = vi_narrow v,
                  sg_power = vi_power v\<rparr>)"

definition stage :: "(staged \<Rightarrow> staged) \<Rightarrow> (aioc, unit) meth" where
  "stage changes s =
     (let base = changes (stage_base s) in
      case sg_rx base of
        None \<Rightarrow> (Inl RadioNotReady, s)
      | Some rx \<Rightarrow>
          (case vfo_image_new rx (case sg_tx base of None \<Rightarrow> rx | Some tx \<Rightarrow> tx) (sg_ctcss base) (sg_narrow base) (sg_power base) of
             Inl e \<Rightarrow> (Inl e, s)
           | Inr v \<Rightarrow> (Inr (), s\<lparr>ai_pending := Some v\<rparr>)))"

definition commit_tuning :: "aioc_env \<Rightarrow> (aioc, unit) meth" where
  "commit_tuning c s =
     (if en_mode c = TunerOFF \<or> ai_pending s = None \<or> ai_pending s = ai_tuned s then (Inr (), s\<lparr>ai_pending := None\<rparr>)
      else if ai_transmitting s then (Inl RuntimeError, s)
      else case ai_pending s of
             None \<Rightarrow> (Inr (), s)
           | Some img \<Rightarrow>
               andthen (on_tuner (tu_apply c img)) (\<lambda>_. modifying (\<lambda>s. s\<lparr>ai_tuned := Some img, ai_pending := None\<rparr>)) s)"

definition autocommit :: "aioc_env \<Rightarrow> (aioc, unit) meth" where
  "autocommit c s = (if ai_batch s = 0 then commit_tuning c s else (Inr (), s))"

definition aioc_set_frequency :: "aioc_env \<Rightarrow> int \<Rightarrow> (aioc, unit) meth" where
  "aioc_set_frequency c hz =
     andthen (require_tuner c) (\<lambda>_. andthen (stage (\<lambda>b. b\<lparr>sg_rx := Some hz, sg_tx := Some hz\<rparr>)) (\<lambda>_. autocommit c))"

definition aioc_set_split :: "aioc_env \<Rightarrow> int option \<Rightarrow> (aioc, unit) meth" where
  "aioc_set_split c tx =
     andthen (require_tuner c)
       (\<lambda>_ s. case current_image s of
          None \<Rightarrow> (Inl RadioNotReady, s)
        | Some v \<Rightarrow> andthen (stage (\<lambda>b. b\<lparr>sg_tx := Some (case tx of None \<Rightarrow> vi_rx_hz v | Some hz \<Rightarrow> hz)\<rparr>)) (\<lambda>_. autocommit c) s)"

definition tone_tenths :: "real option \<Rightarrow> int" where
  "tone_tenths tone = (case tone of None \<Rightarrow> 0 | Some t \<Rightarrow> if t = 0 then 0 else py_round (t * 10))"

definition aioc_set_tone :: "aioc_env \<Rightarrow> real option \<Rightarrow> (aioc, unit) meth" where
  "aioc_set_tone c tone =
     andthen (require_tuner c)
       (\<lambda>_. andthen (stage (\<lambda>b. b\<lparr>sg_ctcss := tone_tenths tone\<rparr>))
          (\<lambda>_. autocommit c))"

definition aioc_set_mode :: "aioc_env \<Rightarrow> string \<Rightarrow> (aioc, unit) meth" where
  "aioc_set_mode c upper_mode =
     andthen (require_tuner c)
       (\<lambda>_. if upper_mode \<notin> {''FM'', ''NFM''} then raising ValueError
            else andthen (stage (\<lambda>b. b\<lparr>sg_narrow := (upper_mode = ''NFM'')\<rparr>)) (\<lambda>_. autocommit c))"

definition aioc_set_modulation :: "aioc_env \<Rightarrow> string \<Rightarrow> (aioc, unit) meth" where
  "aioc_set_modulation c m = andthen (require_tuner c) (\<lambda>_. discarding (on_tuner (tu_set_modulation c m)))"

definition power_level_named :: "string \<Rightarrow> power_level option" where
  "power_level_named name = map_of [(''low'', LevelLOW), (''mid'', LevelMID), (''high'', LevelHIGH)] name"

definition aioc_set_power :: "aioc_env \<Rightarrow> string \<Rightarrow> (aioc, unit) meth" where
  "aioc_set_power c name =
     andthen (require_tuner c)
       (\<lambda>_ s. case power_level_named name of
          None \<Rightarrow> (Inl ValueError, s)
        | Some want \<Rightarrow>
            if current_image s = None then (Inr (), s\<lparr>ai_power := want\<rparr>)
            else andthen (stage (\<lambda>b. b\<lparr>sg_power := level_step want\<rparr>))
                   (\<lambda>_. andthen (modifying (\<lambda>s. s\<lparr>ai_power := want\<rparr>)) (\<lambda>_. autocommit c)) s)"

text \<open>\<open>tuning_batch\<close>: entered, and left with the body's exception or without.\<close>

definition enter_batch :: "aioc \<Rightarrow> aioc" where
  "enter_batch s = s\<lparr>ai_batch := ai_batch s + 1\<rparr>"

definition leave_batch :: "aioc_env \<Rightarrow> exn option \<Rightarrow> (aioc, unit) meth" where
  "leave_batch c raised s =
     (let s1 = s\<lparr>ai_batch := ai_batch s - 1\<rparr> in
      case raised of
        Some e \<Rightarrow> (Inl e, s1)
      | None \<Rightarrow> if ai_batch s1 = 0 then commit_tuning c s1 else (Inr (), s1))"

definition set_tune_persist :: "aioc_env \<Rightarrow> bool \<Rightarrow> (aioc, bool) meth" where
  "set_tune_persist c on s =
     (case tu_persist c (ai_tn s) of
        None \<Rightarrow> (Inl UnsupportedCapability, s)
      | Some was \<Rightarrow>
          if ai_transmitting s then (Inl RuntimeError, s)
          else let s1 = s\<lparr>ai_tn := (ai_tn s)\<lparr>tn_persist := on\<rparr>\<rparr> in
            (case ai_tuned s of
               Some v \<Rightarrow>
                 if on \<and> \<not> was then andthen (on_tuner (hb_store (en_radio c) v)) (\<lambda>_. returning on) s1 else (Inr on, s1)
             | None \<Rightarrow> (Inr on, s1)))"

definition reboot_radio :: "aioc_env \<Rightarrow> (aioc, unit) meth" where
  "reboot_radio c s =
     (if \<not> ai_transport s then (Inl UnsupportedCapability, s)
      else if ai_transmitting s then (Inl RuntimeError, s)
      else on_tuner (tp_send (en_radio c) Reset) s)"

subsection \<open>The second receiver\<close>

definition aioc_clear_broadcast_fm :: "aioc_env \<Rightarrow> (aioc, bool) meth" where
  "aioc_clear_broadcast_fm c s =
     (if \<not> fm_capable c s then (Inl UnsupportedCapability, s)
      else on_tuner (clear_broadcast_fm (en_radio c)) (s\<lparr>ai_tn := disarm_rescue (ai_tn s)\<rparr>))"

definition aioc_set_broadcast_fm :: "aioc_env \<Rightarrow> string \<Rightarrow> int option \<Rightarrow> int \<Rightarrow> (aioc, bool) meth" where
  "aioc_set_broadcast_fm c action hz band s =
     (if en_mode c = TunerOFF \<or> CapSET_BROADCAST_FM \<notin> tu_capabilities c (ai_tn s) then (Inl UnsupportedCapability, s)
      else on_tuner (set_broadcast_fm (en_radio c) action hz band) s)"

definition aioc_probe_broadcast_fm :: "aioc_env \<Rightarrow> (aioc, bool option) meth" where
  "aioc_probe_broadcast_fm c s =
     (if \<not> fm_capable c s then (Inr None, s) else on_tuner (probe_broadcast_fm (en_radio c)) s)"

subsection \<open>Status and close\<close>

record aioc_status =
  as_transmitting :: bool
  as_frequency :: "int option"
  as_tx_frequency :: "int option"
  as_tone :: "real option"
  as_mode :: "string option"
  as_power :: "(exn + power_level) option"
  as_tx_ready_in :: "real option"
  as_tune_persist :: "bool option"
  as_modulation :: "string option"
  as_tx_ok :: "bool option"
  as_broadcast_fm :: "broadcast_fm option"
  as_wire :: "wire_stats option"

definition aioc_get_status :: "aioc_env \<Rightarrow> aioc \<Rightarrow> aioc_status" where
  "aioc_get_status c s =
     (let has = (en_mode c \<noteq> TunerOFF) in
      \<lparr>as_transmitting = ai_transmitting s,
       as_frequency = map_option vi_rx_hz (ai_tuned s),
       as_tx_frequency = (case ai_tuned s of None \<Rightarrow> None | Some v \<Rightarrow> if vi_tx_hz v \<noteq> vi_rx_hz v then Some (vi_tx_hz v) else None),
       as_tone = (case ai_tuned s of None \<Rightarrow> None
                  | Some v \<Rightarrow> if vi_ctcss_tenths v \<noteq> 0 then Some (real_of_int (vi_ctcss_tenths v) / 10) else None),
       as_mode = map_option (\<lambda>v. if vi_narrow v then ''NFM'' else ''FM'') (ai_tuned s),
       as_power = map_option (\<lambda>v. level_from_step (vi_power v)) (ai_tuned s),
       as_tx_ready_in = tx_ready_in c s,
       as_tune_persist = tu_persist c (ai_tn s),
       as_modulation = (if has then tn_modulation (ai_tn s) else None),
       as_tx_ok = (if has then tn_tx_ok (ai_tn s) else None),
       as_broadcast_fm = (if has then tn_fm (ai_tn s) else None),
       as_wire = (if ai_transport s then Some (ai_wire s) else None)\<rparr>)"

definition aioc_capabilities :: "aioc_env \<Rightarrow> aioc \<Rightarrow> capability set" where
  "aioc_capabilities c s = SHARED_CAPS \<union> tu_capabilities c (ai_tn s)"

definition set_other_line :: "aioc_env \<Rightarrow> (aioc, unit) meth" where
  "set_other_line c s = (case en_other_line c (ai_calls s) of None \<Rightarrow> (Inr (), counted s) | Some e \<Rightarrow> (Inl e, counted s))"

definition lines_low :: "aioc_env \<Rightarrow> (aioc, unit) meth" where
  "lines_low c =
     (if en_ptt_line c = LineRTS then andthen (set_line c False) (\<lambda>_. set_other_line c)
      else andthen (set_other_line c) (\<lambda>_. set_line c False))"

definition aioc_close :: "aioc_env \<Rightarrow> aioc \<Rightarrow> aioc" where
  "aioc_close c s =
     (if ai_closed s then s
      else (snd (guarded (lines_low c) (snd (guarded (aioc_key_off c) (s\<lparr>ai_closed := True\<rparr>)))))\<lparr>ai_transport := False\<rparr>)"

subsection \<open>Operations\<close>

datatype aioc_op = AoPtt bool | AoTransmit bool bytes | AoFrequency int | AoSplit "int option" | AoTone "real option"
  | AoMode string | AoModulation string | AoPower string | AoEnter | AoLeave "exn option" | AoCommit | AoPersist bool
  | AoReboot | AoClear | AoSetFm string "int option" int | AoProbe | AoRssi | AoWriter | AoPass real | AoClose

fun ao_exec :: "aioc_env \<Rightarrow> aioc_op \<Rightarrow> (aioc, unit) meth" where
  "ao_exec c (AoPtt on) = aioc_ptt c on"
| "ao_exec c (AoTransmit ok pcm) = aioc_transmit c ok pcm"
| "ao_exec c (AoFrequency hz) = aioc_set_frequency c hz"
| "ao_exec c (AoSplit tx) = aioc_set_split c tx"
| "ao_exec c (AoTone tone) = aioc_set_tone c tone"
| "ao_exec c (AoMode m) = aioc_set_mode c m"
| "ao_exec c (AoModulation m) = aioc_set_modulation c m"
| "ao_exec c (AoPower l) = aioc_set_power c l"
| "ao_exec c AoEnter = modifying enter_batch"
| "ao_exec c (AoLeave e) = leave_batch c e"
| "ao_exec c AoCommit = commit_tuning c"
| "ao_exec c (AoPersist on) = discarding (set_tune_persist c on)"
| "ao_exec c AoReboot = reboot_radio c"
| "ao_exec c AoClear = discarding (aioc_clear_broadcast_fm c)"
| "ao_exec c (AoSetFm a hz b) = discarding (aioc_set_broadcast_fm c a hz b)"
| "ao_exec c AoProbe = discarding (aioc_probe_broadcast_fm c)"
| "ao_exec c AoRssi = (if en_mode c \<in> {TunerSETVFO, TunerHYBRID} then discarding (on_tuner (read_rssi (en_radio c))) else returning ())"
| "ao_exec c AoWriter = modifying (\<lambda>s. snd (writer_runs c 1 s))"
| "ao_exec c (AoPass d) = modifying (\<lambda>s. s\<lparr>ai_tn := sleeping (max 0 d) (ai_tn s)\<rparr>)"
| "ao_exec c AoClose = modifying (aioc_close c)"

definition ao_run :: "aioc_env \<Rightarrow> aioc_op list \<Rightarrow> aioc \<Rightarrow> aioc" where
  "ao_run c ops s = fold (\<lambda>op s. snd (ao_exec c op s)) ops s"

definition booted :: "aioc_env \<Rightarrow> bool \<Rightarrow> power_level \<Rightarrow> aioc" where
  "booted c persist level = snd (aioc_boot c (aioc_init c persist level))"

subsection \<open>What leaves the line alone\<close>

text \<open>\<open>tuner_only m\<close>: only the tuner's state may differ after \<open>m\<close>, and its history of requests has only grown.\<close>

definition tuner_only :: "(aioc, 'a) meth \<Rightarrow> bool" where
  "tuner_only m \<longleftrightarrow> (\<forall>s. \<exists>t. snd (m s) = s\<lparr>ai_tn := t\<rparr> \<and> asked_from (tn_asked (ai_tn s)) t)"

named_theorems tuner_only_intros \<open>methods that change the tuner's state only\<close>

lemma asked_from_refl [simp]: "asked_from (tn_asked t) t"
  by (simp add: asked_from_def)

lemma asked_from_trans: "asked_from (tn_asked a) b \<Longrightarrow> asked_from (tn_asked b) c \<Longrightarrow> asked_from (tn_asked a) c"
  by (auto simp: asked_from_def)

lemma tuner_onlyI: "(\<And>s. \<exists>t. snd (m s) = s\<lparr>ai_tn := t\<rparr> \<and> asked_from (tn_asked (ai_tn s)) t) \<Longrightarrow> tuner_only m"
  by (simp add: tuner_only_def)

lemma tuner_only_same: "\<exists>t. s = s\<lparr>ai_tn := t\<rparr> \<and> asked_from (tn_asked (ai_tn s)) t"
  by (rule exI [of _ "ai_tn s"]) simp

lemma tuner_only_at:
  "tuner_only m \<Longrightarrow> \<exists>t. snd (m (s\<lparr>ai_tn := x\<rparr>)) = s\<lparr>ai_tn := t\<rparr> \<and> asked_from (tn_asked x) t"
  unfolding tuner_only_def by (drule spec [of _ "s\<lparr>ai_tn := x\<rparr>"]) simp

lemma tuner_onlyE:
  assumes "tuner_only m"
  obtains r t where "m s = (r, s\<lparr>ai_tn := t\<rparr>)" "asked_from (tn_asked (ai_tn s)) t"
  using assms unfolding tuner_only_def by (metis prod.collapse)

lemma tuner_only_on_tuner [tuner_only_intros]: "growing m \<Longrightarrow> tuner_only (on_tuner m)"
proof (rule tuner_onlyI)
  fix s :: aioc assume "growing m"
  from growingD [OF this, of "tn_asked (ai_tn s)" "ai_tn s"] have "asked_from (tn_asked (ai_tn s)) (snd (m (ai_tn s)))" by simp
  moreover have "snd (on_tuner m s) = s\<lparr>ai_tn := snd (m (ai_tn s))\<rparr>" by (simp add: on_tuner_def split: prod.splits)
  ultimately show "\<exists>t. snd (on_tuner m s) = s\<lparr>ai_tn := t\<rparr> \<and> asked_from (tn_asked (ai_tn s)) t" by blast
qed

lemma tuner_only_returning [tuner_only_intros]: "tuner_only (returning x)"
  by (simp add: tuner_only_def tuner_only_same)

lemma tuner_only_raising [tuner_only_intros]: "tuner_only (raising e)"
  by (simp add: tuner_only_def tuner_only_same)

lemma tuner_only_chain:
  assumes "asked_from (tn_asked (ai_tn s)) t" "tuner_only k"
  shows "\<exists>t'. snd (k (s\<lparr>ai_tn := t\<rparr>)) = s\<lparr>ai_tn := t'\<rparr> \<and> asked_from (tn_asked (ai_tn s)) t'"
  using tuner_only_at [OF assms(2), where s = s and x = t] asked_from_trans [OF assms(1)] by blast

lemma tuner_only_andthen [tuner_only_intros]:
  assumes "tuner_only m" and "\<And>x. tuner_only (k x)"
  shows "tuner_only (andthen m k)"
proof (rule tuner_onlyI)
  fix s
  obtain r t where 1: "m s = (r, s\<lparr>ai_tn := t\<rparr>)" "asked_from (tn_asked (ai_tn s)) t" by (rule tuner_onlyE [OF assms(1)])
  then show "\<exists>t. snd (andthen m k s) = s\<lparr>ai_tn := t\<rparr> \<and> asked_from (tn_asked (ai_tn s)) t"
    using tuner_only_chain [OF 1(2) assms(2)] by (cases r) auto
qed

lemma tuner_only_catching [tuner_only_intros]:
  assumes "tuner_only m" and "\<And>e. tuner_only (h e)"
  shows "tuner_only (catching m h)"
proof (rule tuner_onlyI)
  fix s
  obtain r t where 1: "m s = (r, s\<lparr>ai_tn := t\<rparr>)" "asked_from (tn_asked (ai_tn s)) t" by (rule tuner_onlyE [OF assms(1)])
  then show "\<exists>t. snd (catching m h s) = s\<lparr>ai_tn := t\<rparr> \<and> asked_from (tn_asked (ai_tn s)) t"
    using tuner_only_chain [OF 1(2) assms(2)] by (cases r) auto
qed

lemma tuner_only_choice [tuner_only_intros]: "tuner_only m1 \<Longrightarrow> tuner_only m2 \<Longrightarrow> tuner_only (if b then m1 else m2)"
  by simp

lemma tuner_only_choice_at [tuner_only_intros]: "tuner_only m1 \<Longrightarrow> tuner_only m2 \<Longrightarrow> tuner_only (\<lambda>s. if b s then m1 s else m2 s)"
  by (simp add: tuner_only_def)

lemma tuner_only_done [tuner_only_intros]: "tuner_only (\<lambda>s. (r s, s))"
  by (simp add: tuner_only_def tuner_only_same)

lemma growing_tu [growing_intros]:
  "growing (tu_apply c v)" "growing (tu_reassert c v)" "growing (tu_set_modulation c m)"
  by (cases "en_mode c"; simp add: growing_intros ee_reassert_def hb_reassert_def ee_set_modulation_def)+

lemma gates_tuner_only: "tuner_only (key_up_gates c)"
proof -
  have r: "tuner_only (\<lambda>s. refuse_if_deafened (b s) s)" for b
    by (auto simp: tuner_only_def refuse_if_deafened_def tuner_only_same split: option.splits)
  have d: "tuner_only (clear_if_deafened c)"
    unfolding clear_if_deafened_def by (intro tuner_only_intros growing_intros r)
  have a: "tuner_only (await_tx_lockout c)"
    by (rule tuner_onlyI) (auto simp: await_tx_lockout_def tuner_only_same sleeping_def asked_from_def [of _ "_\<lparr>tn_now := _\<rparr>"] split: option.splits)
  have m: "tuner_only (case x of None \<Rightarrow> returning () | Some m \<Rightarrow> discarding (on_tuner (tu_set_modulation c m)))" for x
    by (cases x) (auto intro!: tuner_only_intros growing_intros simp del: tu_set_modulation.simps)
  have re: "tuner_only (reassert_channel c)"
  proof (rule tuner_onlyI)
    fix s
    have "tuner_only (andthen (case x of None \<Rightarrow> returning () | Some m \<Rightarrow> discarding (on_tuner (tu_set_modulation c m))) (\<lambda>_. on_tuner (tu_reassert c v)))" for x v
      by (intro tuner_only_intros growing_intros m)
    then show "\<exists>t. snd (reassert_channel c s) = s\<lparr>ai_tn := t\<rparr> \<and> asked_from (tn_asked (ai_tn s)) t"
      unfolding reassert_channel_def tuner_only_def by (auto simp: tuner_only_same split: option.split)
  qed
  have x: "tuner_only (refuse_if_tx_disabled c)" by (auto simp: tuner_only_def refuse_if_tx_disabled_def tuner_only_same)
  show ?thesis unfolding key_up_gates_def by (intro tuner_only_intros d re x a)
qed

subsection \<open>Who holds the line\<close>

text \<open>The serial port lets the line be lowered; raising it may fail in any way.\<close>

definition droppable :: "aioc_env \<Rightarrow> bool" where
  "droppable c \<longleftrightarrow> (\<forall>k. en_line c k False = None)"

definition released :: "aioc \<Rightarrow> bool" where
  "released s \<longleftrightarrow> \<not> ai_line s \<and> \<not> ai_transmitting s \<and> \<not> ai_playback s \<and> ai_pacer s = None \<and> ai_interval s = None"

definition held :: "aioc \<Rightarrow> bool" where
  "held s \<longleftrightarrow> ai_line s \<and> ai_transmitting s \<and> ai_playback s \<and> ai_pacer s \<noteq> None \<and> ai_interval s \<noteq> None"

definition books_ok :: "aioc \<Rightarrow> bool" where
  "books_ok s \<longleftrightarrow> ai_keying s = 0 \<and> ws_with_traffic (ai_wire s) + of_bool (ai_interval s \<noteq> None) \<le> ws_key_ups (ai_wire s)
     \<and> ws_busy_at_key_up (ai_wire s) \<le> ws_key_ups (ai_wire s)"

definition ptt_line_ok :: "aioc \<Rightarrow> bool" where
  "ptt_line_ok s \<longleftrightarrow> books_ok s \<and> (released s \<or> held s \<and> ai_keyed s)"

lemma released_or_held_tn [simp]:
  "released (s\<lparr>ai_tn := t\<rparr>) = released s" "held (s\<lparr>ai_tn := t\<rparr>) = held s" "books_ok (s\<lparr>ai_tn := t\<rparr>) = books_ok s"
  "ptt_line_ok (s\<lparr>ai_tn := t\<rparr>) = ptt_line_ok s"
  by (simp_all add: released_def held_def books_ok_def ptt_line_ok_def)

lemma line_ok_fields:
  "ptt_line_ok s \<Longrightarrow> ai_line s' = ai_line s \<Longrightarrow> ai_transmitting s' = ai_transmitting s \<Longrightarrow> ai_playback s' = ai_playback s \<Longrightarrow>
   (ai_pacer s' = None \<longleftrightarrow> ai_pacer s = None) \<Longrightarrow> ai_interval s' = ai_interval s \<Longrightarrow> ai_keyed s' = ai_keyed s \<Longrightarrow> ai_keying s' = ai_keying s \<Longrightarrow>
   ai_wire s' = ai_wire s \<Longrightarrow> ptt_line_ok s'"
  by (simp add: released_def held_def books_ok_def ptt_line_ok_def)

lemma drop_line_droppable:
  "droppable c \<Longrightarrow> drop_line c s = (Inr (), (counted s)\<lparr>ai_line := False, ai_transmitting := False\<rparr>)"
  by (simp add: drop_line_def set_line_def droppable_def andthen_def)

lemma key_off_releases:
  assumes "droppable c" and "books_ok s"
  obtains s' where "aioc_key_off c s = (Inr (), s')" "released s'" "books_ok s'" "ai_keyed s' = ai_keyed s" "ai_tuned s' = ai_tuned s"
    "ai_tn s' = ai_tn s"
proof
  let ?s1 = "(counted s)\<lparr>ai_line := False, ai_transmitting := False\<rparr>"
  let ?s2 = "(close_interval c ?s1)\<lparr>ai_pacer := None, ai_playback := False\<rparr>"
  show "aioc_key_off c s = (Inr (), ?s2)" using drop_line_droppable [OF assms(1)] by (simp add: aioc_key_off_def)
  show "released ?s2" by (auto simp: released_def close_interval_def Let_def split: option.splits)
  show "books_ok ?s2" using assms(2) by (auto simp: books_ok_def close_interval_def counted_def Let_def split: option.splits)
  show "ai_keyed ?s2 = ai_keyed s" "ai_tuned ?s2 = ai_tuned s" "ai_tn ?s2 = ai_tn s"
    by (auto simp: close_interval_def counted_def Let_def split: option.splits)
qed

lemma counted_released [simp]:
  "released (counted s) = released s" "books_ok (counted s) = books_ok s" "ai_keyed (counted s) = ai_keyed s"
  "ai_tn (counted s) = ai_tn s" "ai_line (counted s) = ai_line s" "ai_tuned (counted s) = ai_tuned s" "ai_wire (counted s) = ai_wire s"
  "ai_interval (counted s) = ai_interval s" "ai_pacer (counted s) = ai_pacer s" "ai_keying (counted s) = ai_keying s"
  "ai_playback (counted s) = ai_playback s"
  by (simp_all add: counted_def released_def books_ok_def)

text \<open>The second half of a key-up: done, or undone.\<close>

lemma key_on_locked_cases:
  assumes "droppable c" and "released s" and "key_on_locked c s = (r, s')"
  shows "case r of
      Inr _ \<Rightarrow> held s' \<and> ws_key_ups (ai_wire s') = ws_key_ups (ai_wire s) + 1 \<and> ws_with_traffic (ai_wire s') = ws_with_traffic (ai_wire s)
        \<and> ws_busy_at_key_up (ai_wire s') \<le> ws_busy_at_key_up (ai_wire s) + 1 \<and> ai_keying s' = ai_keying s \<and> ai_keyed s' = ai_keyed s
        \<and> ai_tn s' = ai_tn s \<and> ai_tuned s' = ai_tuned s
    | Inl e \<Rightarrow> released s' \<and> ai_wire s' = ai_wire s \<and> ai_keying s' = ai_keying s \<and> ai_keyed s' = ai_keyed s \<and> ai_tn s' = ai_tn s
        \<and> ai_tuned s' = ai_tuned s"
proof (cases "en_open c (ai_calls s)")
  case (Some e)
  then show ?thesis using assms(2,3) by (auto simp: key_on_locked_def Let_def)
next
  case None
  let ?t = "(counted s)\<lparr>ai_transmitting := True\<rparr>"
  show ?thesis
  proof (cases "en_line c (ai_calls ?t) True")
    case (Some em)
    obtain e moved where em: "em = (e, moved)" by fastforce
    then have r: "r = Inl e" "s' = (counted ((counted ?t)\<lparr>ai_line := (if moved then True else ai_line ?t)\<rparr>))\<lparr>ai_line := False, ai_transmitting := False\<rparr>"
      using assms(3) None Some drop_line_droppable [OF assms(1)]
      by (auto simp: key_on_locked_def Let_def set_line_def andthen_def catching_def guarded_def)
    then show ?thesis using assms(2) by (simp add: released_def counted_def)
  next
    case none: None
    then have r: "r = Inr ()" "\<exists>b n p. s' = open_interval b n ((counted ?t)\<lparr>ai_line := True, ai_playback := True, ai_pacer := Some p\<rparr>)"
      using assms(3) None by (auto simp: key_on_locked_def Let_def set_line_def andthen_def catching_def)
    then show ?thesis by (auto simp: held_def open_interval_def counted_def)
  qed
qed

lemma reserve_fields:
  "released (reserve_the_wire c s) = released s" "ai_keying (reserve_the_wire c s) = ai_keying s + 1"
  "ai_keyed (reserve_the_wire c s) = ai_keyed s" "ai_interval (reserve_the_wire c s) = ai_interval s"
  "ws_key_ups (ai_wire (reserve_the_wire c s)) = ws_key_ups (ai_wire s)" "ai_tuned (reserve_the_wire c s) = ai_tuned s"
  "ws_with_traffic (ai_wire (reserve_the_wire c s)) = ws_with_traffic (ai_wire s)"
  "ws_busy_at_key_up (ai_wire (reserve_the_wire c s)) = ws_busy_at_key_up (ai_wire s)"
  by (auto simp: reserve_the_wire_def Let_def counted_def released_def split: option.splits)

lemma key_on_cases:
  assumes "droppable c" and "released s" and "books_ok s" and "aioc_key_on c s = (r, s')"
  shows "books_ok s' \<and> ai_keyed s' = ai_keyed s
    \<and> (case r of Inr _ \<Rightarrow> held s' | Inl e \<Rightarrow> released s' \<and> ws_key_ups (ai_wire s') = ws_key_ups (ai_wire s))"
proof -
  let ?s0 = "reserve_the_wire c s"
  obtain g t where g: "key_up_gates c ?s0 = (g, ?s0\<lparr>ai_tn := t\<rparr>)"
    by (rule tuner_onlyE [OF gates_tuner_only])
  have rel: "released (?s0\<lparr>ai_tn := t\<rparr>)" using assms(2) by (simp add: reserve_fields)
  show ?thesis
  proof (cases g)
    case (Inl e)
    then have "r = Inl e" "s' = release_the_wire (?s0\<lparr>ai_tn := t\<rparr>)" using assms(4) g by (auto simp: aioc_key_on_def)
    then show ?thesis using assms(3) rel by (auto simp: release_the_wire_def released_def books_ok_def reserve_fields)
  next
    case (Inr u)
    obtain q s1 where k: "key_on_locked c (?s0\<lparr>ai_tn := t\<rparr>) = (q, s1)" by fastforce
    have r: "r = q" "s' = release_the_wire s1" using assms(4) g k Inr by (auto simp: aioc_key_on_def)
    show ?thesis using key_on_locked_cases [OF assms(1) rel k] assms(3) r rel
      by (cases q) (auto simp: release_the_wire_def released_def held_def books_ok_def reserve_fields)
  qed
qed

abbreviation line_safe :: "(aioc, 'a) meth \<Rightarrow> bool" where
  "line_safe m \<equiv> ensures ptt_line_ok m (\<lambda>_. ptt_line_ok) ptt_line_ok"

named_theorems line_safe_intros \<open>methods that keep the line invariant\<close>

lemma line_safe_andthen [line_safe_intros]: "line_safe m \<Longrightarrow> (\<And>x. line_safe (k x)) \<Longrightarrow> line_safe (andthen m k)"
  by (rule ensures_andthen)

lemma line_safe_tuner [line_safe_intros]: "tuner_only m \<Longrightarrow> line_safe m"
  by (rule ensures_snd) (metis tuner_only_def released_or_held_tn(4))

lemma line_safe_basic [line_safe_intros]: "line_safe (returning x)" "line_safe (raising e)"
  by (simp_all add: ensures_def)

lemma line_safe_stage [line_safe_intros]: "line_safe (stage f)"
  by (rule ensures_snd) (auto simp: stage_def Let_def intro: line_ok_fields split: option.splits sum.splits)

lemma line_safe_commit [line_safe_intros]: "line_safe (commit_tuning c)"
proof -
  have m: "line_safe (modifying (\<lambda>s. s\<lparr>ai_tuned := x, ai_pending := y\<rparr>))" for x y
    by (rule ensures_snd) (auto intro: line_ok_fields)
  show ?thesis
  proof (rule ensures_snd)
    fix s assume i: "ptt_line_ok s"
    have "line_safe (andthen (on_tuner (tu_apply c v)) (\<lambda>_. modifying (\<lambda>s. s\<lparr>ai_tuned := Some v, ai_pending := None\<rparr>)))" for v
      by (intro line_safe_intros tuner_only_intros growing_intros m)
    then have "ptt_line_ok (snd (andthen (on_tuner (tu_apply c v)) (\<lambda>_. modifying (\<lambda>s. s\<lparr>ai_tuned := Some v, ai_pending := None\<rparr>)) s))" for v
      using i unfolding ensures_inv_iff by blast
    then show "ptt_line_ok (snd (commit_tuning c s))"
      using i by (auto simp: commit_tuning_def simp del: tu_apply.simps intro: line_ok_fields split: option.splits)
  qed
qed

lemma line_safe_key_off: "droppable c \<Longrightarrow> line_safe (aioc_key_off c)"
  by (rule ensures_snd) (metis key_off_releases ptt_line_ok_def snd_conv)

lemma line_safe_ptt: "droppable c \<Longrightarrow> line_safe (aioc_ptt c on)"
proof (rule ensures_snd)
  fix s assume d: "droppable c" and i: "ptt_line_ok s"
  show "ptt_line_ok (snd (aioc_ptt c on s))"
  proof (cases on)
    case True
    show ?thesis
    proof (cases "ai_keyed s")
      case False
      then have rel: "released s" "books_ok s" using i by (auto simp: ptt_line_ok_def)
      obtain r s1 where k: "aioc_key_on c s = (r, s1)" by fastforce
      from key_on_cases [OF d rel k] True False k show ?thesis
        by (cases r) (auto simp: aioc_ptt_def ptt_line_ok_def held_def books_ok_def)
    qed (use True i in \<open>simp add: aioc_ptt_def\<close>)
  next
    case False
    have "books_ok (s\<lparr>ai_keyed := False\<rparr>)" using i by (simp add: ptt_line_ok_def books_ok_def)
    from this obtain s' where "aioc_key_off c (s\<lparr>ai_keyed := False\<rparr>) = (Inr (), s')" "released s'" "books_ok s'"
      by (rule key_off_releases [OF d])
    then show ?thesis using False by (simp add: aioc_ptt_def ptt_line_ok_def)
  qed
qed

text \<open>The writer: the line stays up with the pacer, or both are gone.\<close>

lemma writer_runs_ok:
  assumes "droppable c" and "books_ok s" and "held s \<or> released s"
  shows "books_ok (snd (writer_runs c n s)) \<and> ai_keyed (snd (writer_runs c n s)) = ai_keyed s
    \<and> (held (snd (writer_runs c n s)) \<and> held s \<or> released (snd (writer_runs c n s)))"
  using assms(2,3)
proof (induction n arbitrary: s)
  case (Suc n)
  show ?case
  proof (cases "ai_pacer s")
    case None
    then show ?thesis using Suc.prems by auto
  next
    case (Some p)
    then have h: "held s" using Suc.prems by (auto simp: released_def)
    have up: "books_ok ((counted s)\<lparr>ai_pacer := Some q\<rparr>)" "held ((counted s)\<lparr>ai_pacer := Some q\<rparr>)" for q
      using Suc.prems h by (auto simp: books_ok_def held_def counted_def)
    show ?thesis
    proof (cases "sc_writing (sc_take p) = None")
      case False
      show ?thesis
      proof (cases "en_write c (ai_calls s)")
        case None
        then show ?thesis using Some False Suc.IH [OF up(1)] up(2) h by (auto simp: Let_def)
      next
        case e: (Some e)
        obtain s' where k: "aioc_key_off c ((counted s)\<lparr>ai_pacer := Some (sc_failed e (sc_take p))\<rparr>) = (Inr (), s')" "released s'" "books_ok s'"
            "ai_keyed s' = ai_keyed ((counted s)\<lparr>ai_pacer := Some (sc_failed e (sc_take p))\<rparr>)"
          by (rule key_off_releases [OF assms(1) up(1)])
        have "ai_keyed s' = ai_keyed s" using k(4) by (simp add: counted_def)
        then show ?thesis using Some False e k by (auto simp: Let_def guarded_def catching_def)
      qed
    qed (use Some Suc.prems in \<open>auto simp: Let_def\<close>)
  qed
qed auto

lemma play_out_ok:
  assumes "droppable c" and "books_ok s" and "held s"
  shows "books_ok (snd (play_out c pcm s)) \<and> ai_keyed (snd (play_out c pcm s)) = ai_keyed s"
proof (cases "ai_pacer s")
  case (Some p)
  let ?s = "(counted s)\<lparr>ai_pacer := Some (sc_enqueue (buffer_limit c) pcm p)\<rparr>"
  have "books_ok ?s" "held ?s" using assms(2,3) by (auto simp: books_ok_def held_def counted_def)
  then show ?thesis using Some writer_runs_ok [OF assms(1), of ?s "en_writes_in_time c (ai_calls s)"]
    by (auto simp: play_out_def counted_def Let_def split: prod.splits)
qed (use assms in \<open>simp add: play_out_def\<close>)

lemma line_safe_transmit: "droppable c \<Longrightarrow> line_safe (aioc_transmit c ok pcm)"
proof (rule ensures_snd)
  fix s assume d: "droppable c" and i: "ptt_line_ok s"
  show "ptt_line_ok (snd (aioc_transmit c ok pcm s))"
  proof (cases "ok \<and> \<not> ai_keyed s")
    case False
    then show ?thesis using i
      by (auto simp: aioc_transmit_def ptt_line_ok_def held_def released_def books_ok_def split: option.splits)
  next
    case True
    then have rel: "released s" "books_ok s" using i by (auto simp: ptt_line_ok_def)
    obtain r s1 where k: "aioc_key_on c s = (r, s1)" by fastforce
    note on = key_on_cases [OF d rel k]
    show ?thesis
    proof (cases r)
      case (Inl e)
      then show ?thesis using on True k by (simp add: aioc_transmit_def ptt_line_ok_def)
    next
      case (Inr u)
      obtain q s2 where q: "play_out c pcm s1 = (q, s2)" by fastforce
      have b2: "books_ok s2" using play_out_ok [OF d, of s1 pcm] on Inr q by simp
      obtain s3 where "aioc_key_off c s2 = (Inr (), s3)" "released s3" "books_ok s3" by (rule key_off_releases [OF d b2])
      then show ?thesis using True k Inr q by (simp add: aioc_transmit_def finally_do_def ptt_line_ok_def)
    qed
  qed
qed

lemma line_safe_close: "droppable c \<Longrightarrow> ptt_line_ok s \<Longrightarrow> ptt_line_ok (aioc_close c s)"
proof (cases "ai_closed s")
  case False
  assume d: "droppable c" and i: "ptt_line_ok s"
  have "books_ok (s\<lparr>ai_closed := True\<rparr>)" using i by (simp add: ptt_line_ok_def books_ok_def)
  then obtain s1 where k: "aioc_key_off c (s\<lparr>ai_closed := True\<rparr>) = (Inr (), s1)" "released s1" "books_ok s1" by (rule key_off_releases [OF d])
  have o: "snd (set_other_line c x) = counted x" for x by (simp add: set_other_line_def split: option.splits)
  have l: "set_line c False x = (Inr (), (counted x)\<lparr>ai_line := False\<rparr>)" for x using d by (simp add: set_line_def droppable_def)
  have "released (snd (lines_low c s1)) \<and> books_ok (snd (lines_low c s1))"
    using k(2,3) by (cases "set_other_line c s1"; cases "fst (set_other_line c s1)")
      (auto simp: lines_low_def l o andthen_def released_def books_ok_def counted_def set_other_line_def split: option.splits if_splits)
  then show ?thesis using False k by (auto simp: aioc_close_def ptt_line_ok_def released_def books_ok_def guarded_def catching_def split: prod.splits sum.splits)
qed (simp add: aioc_close_def)

lemma line_safe_discarding: "line_safe m \<Longrightarrow> line_safe (discarding m)"
  by (rule line_safe_andthen) (simp_all add: line_safe_basic)

text \<open>An invariant that staging and committing a channel keep is kept by every setter built on them.\<close>

locale setter_invariant =
  fixes c :: aioc_env and I :: "aioc \<Rightarrow> bool"
  assumes stage_keeps: "ensures I (stage f) (\<lambda>_. I) I"
    and commit_keeps: "ensures I (commit_tuning c) (\<lambda>_. I) I"
    and power_keeps: "I s \<Longrightarrow> I (s\<lparr>ai_power := l\<rparr>)"
    and batch_keeps: "I s \<Longrightarrow> I (s\<lparr>ai_batch := n\<rparr>)"
begin

lemma require_keeps: "ensures I (require_tuner c) (\<lambda>_. I) I"
  by (simp add: require_tuner_def ensures_def)

lemma autocommit_keeps: "ensures I (autocommit c) (\<lambda>_. I) I"
  using commit_keeps unfolding ensures_inv_iff autocommit_def by simp

lemma staged_keeps: "ensures I (andthen (stage f) (\<lambda>_. autocommit c)) (\<lambda>_. I) I"
  by (intro ensures_andthen [OF stage_keeps] autocommit_keeps)

lemma required:
  assumes "ensures I m (\<lambda>_. I) I" and "I s"
  shows "I (snd (andthen (require_tuner c) (\<lambda>_. m) s))"
proof -
  have "ensures I (andthen (require_tuner c) (\<lambda>_. m)) (\<lambda>_. I) I"
    by (rule ensures_andthen [OF require_keeps]) (rule assms(1))
  then show ?thesis using assms(2) unfolding ensures_inv_iff by blast
qed

lemma set_frequency_keeps: "I s \<Longrightarrow> I (snd (aioc_set_frequency c hz s))"
  unfolding aioc_set_frequency_def by (rule required [OF staged_keeps])

lemma set_tone_keeps: "I s \<Longrightarrow> I (snd (aioc_set_tone c tone s))"
  unfolding aioc_set_tone_def by (rule required [OF staged_keeps])

lemma set_mode_keeps: "I s \<Longrightarrow> I (snd (aioc_set_mode c m s))"
proof -
  assume i: "I s"
  have "ensures I (if m \<notin> {''FM'', ''NFM''} then raising ValueError
            else andthen (stage (\<lambda>b. b\<lparr>sg_narrow := (m = ''NFM'')\<rparr>)) (\<lambda>_. autocommit c)) (\<lambda>_. I) I"
    using staged_keeps by (simp add: ensures_def)
  from required [OF this i] show ?thesis unfolding aioc_set_mode_def .
qed

lemma set_split_keeps: "I s \<Longrightarrow> I (snd (aioc_set_split c tx s))"
proof -
  assume i: "I s"
  have "ensures I (\<lambda>s. case current_image s of
          None \<Rightarrow> (Inl RadioNotReady, s)
        | Some v \<Rightarrow> andthen (stage (\<lambda>b. b\<lparr>sg_tx := Some (case tx of None \<Rightarrow> vi_rx_hz v | Some hz \<Rightarrow> hz)\<rparr>)) (\<lambda>_. autocommit c) s) (\<lambda>_. I) I"
    using staged_keeps unfolding ensures_inv_iff by (auto split: option.split)
  from required [OF this i] show ?thesis unfolding aioc_set_split_def .
qed

lemma set_power_keeps: "I s \<Longrightarrow> I (snd (aioc_set_power c l s))"
proof -
  assume i: "I s"
  have m: "ensures I (modifying (\<lambda>s. s\<lparr>ai_power := want\<rparr>)) (\<lambda>_. I) I" for want
    by (rule ensures_snd) (simp add: power_keeps)
  have "ensures I (andthen (stage f) (\<lambda>_. andthen (modifying (\<lambda>s. s\<lparr>ai_power := want\<rparr>)) (\<lambda>_. autocommit c))) (\<lambda>_. I) I" for f want
    by (intro ensures_andthen [OF stage_keeps] ensures_andthen [OF m] autocommit_keeps)
  then have "ensures I (\<lambda>s. case power_level_named l of
          None \<Rightarrow> (Inl ValueError, s)
        | Some want \<Rightarrow>
            if current_image s = None then (Inr (), s\<lparr>ai_power := want\<rparr>)
            else andthen (stage (\<lambda>b. b\<lparr>sg_power := level_step want\<rparr>))
                   (\<lambda>_. andthen (modifying (\<lambda>s. s\<lparr>ai_power := want\<rparr>)) (\<lambda>_. autocommit c)) s) (\<lambda>_. I) I"
    using power_keeps unfolding ensures_inv_iff by (auto split: option.split)
  from required [OF this i] show ?thesis unfolding aioc_set_power_def .
qed

lemma leave_batch_keeps: "I s \<Longrightarrow> I (snd (leave_batch c e s))"
  using commit_keeps batch_keeps unfolding ensures_inv_iff by (auto simp: leave_batch_def Let_def split: option.splits)

lemmas setters_keep = set_frequency_keeps set_tone_keeps set_mode_keeps set_split_keeps set_power_keeps leave_batch_keeps

end

interpretation line_setters: setter_invariant c ptt_line_ok for c
  by unfold_locales (auto intro: line_safe_stage line_safe_commit line_ok_fields)

lemma receiver_ops_tuner_only:
  "tuner_only (aioc_clear_broadcast_fm c)" "tuner_only (aioc_set_broadcast_fm c a hz b)" "tuner_only (aioc_probe_broadcast_fm c)"
  "tuner_only (aioc_set_modulation c m)" "tuner_only (reboot_radio c)" "tuner_only (set_tune_persist c on)"
proof -
  show "tuner_only (aioc_clear_broadcast_fm c)"
  proof (rule tuner_onlyI)
    fix s
    from tuner_only_at [OF tuner_only_on_tuner [OF growing_clear [of "en_radio c"]], where s = s and x = "disarm_rescue (ai_tn s)"]
    show "\<exists>t. snd (aioc_clear_broadcast_fm c s) = s\<lparr>ai_tn := t\<rparr> \<and> asked_from (tn_asked (ai_tn s)) t"
      using tuner_only_same [of s] by (auto simp: aioc_clear_broadcast_fm_def disarm_rescue_def asked_from_def)
  qed
  show "tuner_only (aioc_set_broadcast_fm c a hz b)" unfolding aioc_set_broadcast_fm_def by (intro tuner_only_intros growing_intros)
  show "tuner_only (aioc_probe_broadcast_fm c)" unfolding aioc_probe_broadcast_fm_def by (intro tuner_only_intros growing_intros)
  show "tuner_only (aioc_set_modulation c m)" unfolding aioc_set_modulation_def require_tuner_def by (intro tuner_only_intros growing_intros)
  show "tuner_only (reboot_radio c)" unfolding reboot_radio_def by (intro tuner_only_intros growing_intros)
  show "tuner_only (set_tune_persist c on)"
  proof (rule tuner_onlyI)
    fix s
    have "tuner_only (andthen (on_tuner (hb_store (en_radio c) v)) (\<lambda>_. returning on))" for v by (intro tuner_only_intros growing_intros)
    from tuner_only_at [OF this, where s = s and x = "(ai_tn s)\<lparr>tn_persist := on\<rparr>"]
    have a: "\<exists>t. snd (andthen (on_tuner (hb_store (en_radio c) v)) (\<lambda>_. returning on) (s\<lparr>ai_tn := (ai_tn s)\<lparr>tn_persist := on\<rparr>\<rparr>)) = s\<lparr>ai_tn := t\<rparr>
        \<and> asked_from (tn_asked (ai_tn s)) t" for v by simp
    have b: "\<exists>t. s\<lparr>ai_tn := (ai_tn s)\<lparr>tn_persist := on\<rparr>\<rparr> = s\<lparr>ai_tn := t\<rparr> \<and> asked_from (tn_asked (ai_tn s)) t"
      by (rule exI [of _ "(ai_tn s)\<lparr>tn_persist := on\<rparr>"]) (simp add: asked_from_def)
    show "\<exists>t. snd (set_tune_persist c on s) = s\<lparr>ai_tn := t\<rparr> \<and> asked_from (tn_asked (ai_tn s)) t"
      using a b tuner_only_same [of s] by (auto simp: set_tune_persist_def Let_def split: option.splits simp del: tu_persist.simps)
  qed
qed

lemma line_safeD: "ptt_line_ok s \<Longrightarrow> line_safe m \<Longrightarrow> ptt_line_ok (snd (m s))"
  unfolding ensures_inv_iff by blast

lemmas line_safe_ops = line_safe_ptt line_safe_transmit line_safe_commit
  receiver_ops_tuner_only(4,5) [THEN line_safe_tuner] receiver_ops_tuner_only(1,2,3,6) [THEN line_safe_tuner, THEN line_safe_discarding]

lemma ao_exec_line_ok: "droppable c \<Longrightarrow> ptt_line_ok s \<Longrightarrow> ptt_line_ok (snd (ao_exec c op s))"
proof (cases op)
  case AoWriter
  assume d: "droppable c" and i: "ptt_line_ok s"
  then have "books_ok s" "held s \<or> released s" by (auto simp: ptt_line_ok_def)
  from writer_runs_ok [OF d this, of 1] i AoWriter show ?thesis by (auto simp: ptt_line_ok_def held_def released_def simp del: writer_runs.simps One_nat_def)
next
  case AoEnter
  assume "ptt_line_ok s"
  then show ?thesis using AoEnter by (auto simp: enter_batch_def intro: line_ok_fields)
next
  case (AoPass t)
  assume "ptt_line_ok s"
  then show ?thesis using AoPass by simp
next
  case AoClose
  assume "droppable c" "ptt_line_ok s"
  then show ?thesis using AoClose line_safe_close by simp
next
  case AoRssi
  assume i: "ptt_line_ok s"
  have "tuner_only (ao_exec c op)" unfolding AoRssi ao_exec.simps by (intro tuner_only_intros growing_intros)
  then show ?thesis using line_safe_tuner i unfolding ensures_inv_iff by blast
qed (simp_all only: ao_exec.simps line_setters.setters_keep, (rule line_safeD, assumption?, rule line_safe_ops, assumption?)+)

lemma ao_run_line_ok: "droppable c \<Longrightarrow> ptt_line_ok s \<Longrightarrow> ptt_line_ok (ao_run c ops s)"
  unfolding ao_run_def by (induction ops arbitrary: s) (simp_all add: ao_exec_line_ok)

lemma boot_tuner_only: "tuner_only (aioc_boot c)"
proof -
  have t: "tuner_only (tolerating m)" if "tuner_only m" for m :: "(aioc, 'a) meth"
    unfolding tolerating_def by (intro tuner_only_intros that)
  show ?thesis unfolding aioc_boot_def assert_boot_broadcast_fm_def assert_boot_modulation_def by (intro tuner_only_intros growing_intros t)
qed

lemma booted_tn: "\<exists>t. booted c persist level = (aioc_init c persist level)\<lparr>ai_tn := t\<rparr>"
  using boot_tuner_only unfolding booted_def tuner_only_def by blast


definition plain_env :: "tuner_mode \<Rightarrow> dock_radio \<Rightarrow> aioc_env" where
  "plain_env mode radio =
     \<lparr>en_mode = mode, en_ptt_line = LineDTR, en_radio = radio, en_lead = 2, en_open = (\<lambda>k. None), en_line = (\<lambda>k v. None),
      en_other_line = (\<lambda>k. None), en_write = (\<lambda>k. None), en_writes_in_time = (\<lambda>k. 9), en_quiet = (\<lambda>k. Some 0),
      en_wire_busy = (\<lambda>k. False), en_exchanges = (\<lambda>k. 0)\<rparr>"

definition dead_card :: aioc_env where
  "dead_card = (plain_env TunerOFF deaf_radio)\<lparr>en_write := (\<lambda>k. Some OSError)\<rparr>"


subsection \<open>What a key-up has passed\<close>

lemma on_tuner_returns: "on_tuner m s = (Inr x, s') \<longleftrightarrow> (\<exists>t. m (ai_tn s) = (Inr x, t) \<and> s' = s\<lparr>ai_tn := t\<rparr>)"
  by (auto simp: on_tuner_def split: prod.splits)

lemma on_tuner_snd: "ai_tn (snd (on_tuner m s)) = snd (m (ai_tn s))"
  by (simp add: on_tuner_def split: prod.splits)

lemma snd_discard: "snd (discarding m s) = snd (m s)"
  by (auto simp: andthen_def split: prod.splits sum.splits)

definition sv_request :: "vfo_image \<Rightarrow> dock_message" where
  "sv_request v = SetVfo (vi_rx_hz v) (vi_offset_hz v) (vi_ctcss_tenths v) (vi_direction v) (of_bool (vi_narrow v)) (vi_power v)"

definition sv_confirmation :: "vfo_image \<Rightarrow> dock_message" where
  "sv_confirmation v = SetVfoReply (Member VfoAPPLIED) (quantise (vi_rx_hz v)) (quantise (vi_tx_hz v)) (vi_ctcss_tenths v)
     (FIRMWARE_POWER ! nat (vi_power v))"

lemma sv_apply_returns:
  "sv_apply r v t = (Inr u, t') \<Longrightarrow> t' = after_asking r (sv_request v) t \<and> dr_answer r (tn_asked t) (sv_request v) = Inr (sv_confirmation v)"
  using sv_apply_cases [of r v t "Inr u" t'] by (auto simp: sv_request_def sv_confirmation_def set_vfo_new_def split: if_splits)

lemma set_modulation_fm: "tn_fm (snd (sv_set_modulation r want t)) = tn_fm t"
proof (cases "map_of MODULATION_VALUES want")
  case (Some n)
  show ?thesis unfolding sv_set_modulation_def Some option.case
    by (rule after_reply [where I = "\<lambda>z. tn_fm z = tn_fm t"]) (auto simp: Let_def split: option.splits dock_message.splits)
qed (simp add: sv_set_modulation_def)

text \<open>The receiver's gate asks nothing that mutes the transmitter; what it lets through does not hear a second receiver.\<close>

lemma clear_gate:
  assumes "clear_if_deafened c s = (Inr u, s')"
  shows "ai_tuned s' = ai_tuned s \<and> hushed (ai_tn s) (ai_tn s') \<and> (en_mode c \<noteq> TunerOFF \<longrightarrow> (\<forall>b. tn_fm (ai_tn s') = Some b \<longrightarrow> \<not> bf_on b))"
proof -
  let ?ask = "\<lambda>s. if \<not> fm_capable c s then (Inr (), s)
            else andthen (on_tuner (probe_broadcast_fm (en_radio c)))
                   (\<lambda>_. catching (discarding (on_tuner (clear_broadcast_fm (en_radio c))))
                     (\<lambda>e. if e = TuneBusy then returning ()
                          else if e \<in> {TuneError, OSError} then raising RadioUnavailable else raising e)) s"
  obtain r s1 where 1: "?ask s = (r, s1)" by fastforce
  have "hushed (ai_tn s) (ai_tn s1) \<and> ai_tuned s1 = ai_tuned s"
  proof (cases "fm_capable c s")
    case True
    obtain q s2 where 2: "on_tuner (probe_broadcast_fm (en_radio c)) s = (q, s2)" by fastforce
    have q2: "hushed (ai_tn s) (ai_tn s2)" "ai_tuned s2 = ai_tuned s"
      using probe_quiet [of "ai_tn s" "en_radio c"] 2 by (auto simp: on_tuner_def split: prod.splits)
    obtain w s3 where 3: "discarding (on_tuner (clear_broadcast_fm (en_radio c))) s2 = (w, s3)" by fastforce
    have "s3 = snd (on_tuner (clear_broadcast_fm (en_radio c)) s2)" using 3 snd_discard [of "on_tuner (clear_broadcast_fm (en_radio c))" s2] by simp
    then have q3: "hushed (ai_tn s2) (ai_tn s3)" "ai_tuned s3 = ai_tuned s2"
      using clear_quiet [of "ai_tn s2" "en_radio c"] by (simp_all add: on_tuner_def split: prod.splits)
    have "s1 = s2 \<or> s1 = s3"
      using 1 2 3 True by (cases q; cases w) (auto simp: catching_def split: if_splits)
    then show ?thesis using q2 q3 hushed_trans by auto
  qed (use 1 hushed_refl in auto)
  moreover have "s' = s1 \<and> (en_mode c \<noteq> TunerOFF \<longrightarrow> (\<forall>b. tn_fm (ai_tn s1) = Some b \<longrightarrow> \<not> bf_on b))"
    using assms 1 unfolding clear_if_deafened_def
    by (cases r) (auto simp: andthen_def refuse_if_deafened_def split: option.splits if_splits)
  ultimately show ?thesis by simp
qed

lemma reassert_gate:
  assumes "reassert_channel c s = (Inr u, s')"
  shows "tn_fm (ai_tn s') = tn_fm (ai_tn s) \<and> hushed (ai_tn s) (ai_tn s')
    \<and> (\<forall>v. ai_tuned s = Some v \<and> tu_volatile c (ai_tn s) \<longrightarrow>
         (\<exists>h. tn_asked (ai_tn s') = h @ [sv_request v] \<and> dr_answer (en_radio c) h (sv_request v) = Inr (sv_confirmation v)))"
proof (cases "\<exists>v. ai_tuned s = Some v \<and> tu_volatile c (ai_tn s)")
  case False
  then have "s' = s" using assms by (auto simp: reassert_channel_def split: option.splits if_splits)
  then show ?thesis using False hushed_refl by auto
next
  case True
  then obtain v where v: "ai_tuned s = Some v" "tu_volatile c (ai_tn s)" by blast
  then have mode: "en_mode c = TunerSETVFO \<or> en_mode c = TunerHYBRID" by (cases "en_mode c") auto
  let ?m = "case tn_modulation (ai_tn s) of None \<Rightarrow> returning () | Some m \<Rightarrow> discarding (on_tuner (tu_set_modulation c m))"
  from assms v obtain x s1 where 1: "?m s = (Inr x, s1)" "on_tuner (tu_reassert c v) s1 = (Inr u, s')"
    by (auto simp: reassert_channel_def andthen_returns simp del: tu_volatile.simps tu_reassert.simps tu_set_modulation.simps)
  have q1: "tn_fm (ai_tn s1) = tn_fm (ai_tn s) \<and> hushed (ai_tn s) (ai_tn s1)"
  proof (cases "tn_modulation (ai_tn s)")
    case (Some m)
    have "s1 = snd (on_tuner (tu_set_modulation c m) s)" using 1(1) Some snd_discard [of "on_tuner (tu_set_modulation c m)" s] by simp
    then have "ai_tn s1 = snd (sv_set_modulation (en_radio c) m (ai_tn s))" using mode by (auto simp: on_tuner_snd)
    then show ?thesis by (simp add: set_modulation_fm set_modulation_quiet)
  qed (use 1 hushed_refl in auto)
  have "sv_apply (en_radio c) v (ai_tn s1) = (Inr u, ai_tn s')" using 1(2) mode by (auto simp: on_tuner_returns hb_reassert_def)
  then have a: "ai_tn s' = after_asking (en_radio c) (sv_request v) (ai_tn s1)"
      "dr_answer (en_radio c) (tn_asked (ai_tn s1)) (sv_request v) = Inr (sv_confirmation v)" by (auto dest: sv_apply_returns)
  then have "hushed (ai_tn s1) (ai_tn s')" by (simp add: hushed_asked hushed_refl sv_request_def)
  then show ?thesis using q1 a v hushed_trans by auto
qed

lemma reserve_tuner: "\<exists>d \<ge> 0. ai_tn (reserve_the_wire c s) = sleeping d (ai_tn s)"
proof -
  have z: "ai_tn s = sleeping 0 (ai_tn s)" by (simp add: sleeping_def)
  define d where "d = (if \<not> ai_transport s then 0 else case en_quiet c (ai_calls s) of None \<Rightarrow> KEY_UP_WIRE_DRAIN_S | Some w \<Rightarrow> max 0 w)"
  have "0 \<le> d" by (auto simp: d_def KEY_UP_WIRE_DRAIN_S_def split: option.splits)
  moreover have "ai_tn (reserve_the_wire c s) = sleeping d (ai_tn s)"
    using z by (auto simp: reserve_the_wire_def Let_def d_def counted_def split: option.splits)
  ultimately show ?thesis by blast
qed


definition exact_aioc :: aioc_env where
  "exact_aioc = plain_env TunerSETVFO exact_radio"

definition tuned_station :: aioc where
  "tuned_station = ao_run exact_aioc [AoFrequency 146940000] (booted exact_aioc False LevelHIGH)"


end
