(* ===== verification/AiocTune.thy ===== *)
theory AiocTune
  imports Aioc
begin

section \<open>What the AIOC backend believes of its radio\<close>

text \<open>
  The channel the backend reports against the one the radio confirmed, the batch of \<open>tuning_batch\<close> against a
  single tune, and what the setters leave behind when a tune is refused or fails.
\<close>

subsection \<open>A reported channel was confirmed\<close>

definition confirmed :: "aioc_env \<Rightarrow> vfo_image \<Rightarrow> dock_message list \<Rightarrow> bool" where
  "confirmed c v h \<longleftrightarrow> (\<exists>a b. h = a @ sv_request v # b \<and> dr_answer (en_radio c) a (sv_request v) = Inr (sv_confirmation v))"

definition record_ok :: "aioc_env \<Rightarrow> aioc \<Rightarrow> bool" where
  "record_ok c s \<longleftrightarrow> (\<forall>v. ai_pending s = Some v \<longrightarrow> vfo_valid v)
     \<and> (\<forall>v. ai_tuned s = Some v \<longrightarrow> vfo_valid v \<and> (en_mode c \<in> {TunerSETVFO, TunerHYBRID} \<longrightarrow> confirmed c v (tn_asked (ai_tn s))))"

definition follows :: "aioc \<Rightarrow> aioc \<Rightarrow> bool" where
  "follows s s' \<longleftrightarrow> ai_tuned s' = ai_tuned s \<and> ai_pending s' = ai_pending s \<and> asked_from (tn_asked (ai_tn s)) (ai_tn s')"

lemma confirmed_grows: "confirmed c v (tn_asked t) \<Longrightarrow> asked_from (tn_asked t) t' \<Longrightarrow> confirmed c v (tn_asked t')"
proof -
  assume "confirmed c v (tn_asked t)" "asked_from (tn_asked t) t'"
  then obtain a b x where "tn_asked t' = a @ sv_request v # (b @ x)" "dr_answer (en_radio c) a (sv_request v) = Inr (sv_confirmation v)"
    by (auto simp: confirmed_def asked_from_def)
  then show ?thesis unfolding confirmed_def by blast
qed

lemma follows_record: "follows s s' \<Longrightarrow> record_ok c s \<Longrightarrow> record_ok c s'"
  by (auto simp: follows_def record_ok_def dest: confirmed_grows)

lemma follows_refl: "follows s s"
  by (simp add: follows_def)

lemma follows_trans: "follows a b \<Longrightarrow> follows b c \<Longrightarrow> follows a c"
  by (auto simp: follows_def dest: asked_from_trans)

lemma follows_same: "ai_tuned s' = ai_tuned s \<Longrightarrow> ai_pending s' = ai_pending s \<Longrightarrow> tn_asked (ai_tn s') = tn_asked (ai_tn s) \<Longrightarrow> follows s s'"
  by (simp add: follows_def asked_from_def)

lemma follows_tuner: "tuner_only m \<Longrightarrow> follows s (snd (m s))"
  by (erule tuner_onlyE [of m s]) (simp add: follows_def)

named_theorems follows_intros \<open>what leaves the record of the channel alone\<close>

lemma follows_andthen [follows_intros]:
  "(\<And>s. follows s (snd (m s))) \<Longrightarrow> (\<And>x s. follows s (snd (k x s))) \<Longrightarrow> follows s (snd (andthen m k s))"
  by (cases "m s"; cases "fst (m s)") (auto simp: andthen_def, (metis follows_trans snd_conv)+)

lemma follows_catching [follows_intros]:
  "(\<And>s. follows s (snd (m s))) \<Longrightarrow> (\<And>x s. follows s (snd (h x s))) \<Longrightarrow> follows s (snd (catching m h s))"
  by (cases "m s"; cases "fst (m s)") (auto simp: catching_def, (metis follows_trans snd_conv)+)

lemma follows_basic [follows_intros]: "follows s (snd (returning x s))" "follows s (snd (raising e s))"
  by (simp_all add: follows_refl)

lemma follows_set_line [follows_intros]: "follows s (snd (set_line c v s))"
  by (auto simp: set_line_def counted_def intro: follows_same split: option.splits)

lemma follows_other_line [follows_intros]: "follows s (snd (set_other_line c s))"
  by (auto simp: set_other_line_def counted_def intro: follows_same split: option.splits)

lemma follows_modifying [follows_intros]: "(\<And>s. follows s (f s)) \<Longrightarrow> follows s (snd (modifying f s))"
  by simp

lemma follows_drop_line [follows_intros]: "follows s (snd (drop_line c s))"
  unfolding drop_line_def by (intro follows_intros) (simp add: follows_same)

lemma follows_key_off [follows_intros]: "follows s (snd (aioc_key_off c s))"
  unfolding aioc_key_off_def
  by (intro follows_intros) (auto simp: close_interval_def Let_def intro: follows_same split: option.splits)

lemma follows_guarded [follows_intros]: "(\<And>s. follows s (snd (m s))) \<Longrightarrow> follows s (snd (guarded m s))"
  unfolding guarded_def by (intro follows_intros)

lemma follows_key_on_locked [follows_intros]: "follows s (snd (key_on_locked c s))"
proof (cases "en_open c (ai_calls s)")
  case None
  have 2: "follows ((counted s)\<lparr>ai_transmitting := True\<rparr>) (snd (andthen
            (catching (set_line c True) (\<lambda>e. andthen (guarded (drop_line c)) (\<lambda>_. raising e)))
            (\<lambda>_. modifying (\<lambda>s. open_interval b n (s\<lparr>ai_playback := True, ai_pacer := Some p\<rparr>)))
            ((counted s)\<lparr>ai_transmitting := True\<rparr>)))" for b n p
    by (intro follows_intros) (simp add: open_interval_def follows_same)
  have 1: "follows s ((counted s)\<lparr>ai_transmitting := True\<rparr>)" by (simp add: follows_same counted_def)
  show ?thesis unfolding key_on_locked_def Let_def None option.case by (rule follows_trans [OF 1 2])
qed (simp add: key_on_locked_def Let_def counted_def follows_same)

lemma follows_key_on [follows_intros]: "follows s (snd (aioc_key_on c s))"
proof -
  have r: "follows s (reserve_the_wire c s)"
    using reserve_tuner [of c s] by (auto simp: follows_def reserve_the_wire_def Let_def counted_def sleeping_def asked_from_def split: option.splits)
  have "follows x (snd (andthen (key_up_gates c) (\<lambda>_. key_on_locked c) x))" for x
    by (intro follows_intros follows_tuner gates_tuner_only)
  from follows_trans [OF r this] have "follows s (snd (andthen (key_up_gates c) (\<lambda>_. key_on_locked c) (reserve_the_wire c s)))" .
  then have "follows s (release_the_wire (snd (andthen (key_up_gates c) (\<lambda>_. key_on_locked c) (reserve_the_wire c s))))"
    by (simp add: follows_def release_the_wire_def)
  then show ?thesis by (cases "andthen (key_up_gates c) (\<lambda>_. key_on_locked c) (reserve_the_wire c s)") (simp add: aioc_key_on_def)
qed

lemma follows_writer: "follows s (snd (writer_runs c n s))"
proof (induction n arbitrary: s)
  case (Suc n)
  have u: "follows s ((counted s)\<lparr>ai_pacer := p\<rparr>)" for p by (simp add: follows_same counted_def)
  have k: "follows x (snd (guarded (aioc_key_off c) x))" for x by (intro follows_intros)
  show ?case
    using follows_trans [OF u Suc.IH] follows_trans [OF u k] follows_refl by (auto simp: Let_def split: option.splits)
qed (simp add: follows_refl)

lemma follows_ptt: "follows s (snd (aioc_ptt c on s))"
proof (cases on)
  case True
  have "follows x (snd (andthen (aioc_key_on c) (\<lambda>_. modifying (\<lambda>s. s\<lparr>ai_keyed := True\<rparr>)) x))" for x
    by (intro follows_intros) (simp add: follows_same)
  then show ?thesis using True by (simp add: aioc_ptt_def follows_refl)
next
  case False
  have "follows s (s\<lparr>ai_keyed := False\<rparr>)" by (simp add: follows_same)
  from follows_trans [OF this follows_key_off] show ?thesis using False by (simp add: aioc_ptt_def)
qed

lemma follows_transmit: "follows s (snd (aioc_transmit c ok pcm s))"
proof -
  have p: "follows x (snd (play_out c pcm x))" for x
  proof (cases "ai_pacer x")
    case (Some q)
    have "follows x ((counted x)\<lparr>ai_pacer := Some (sc_enqueue (buffer_limit c) pcm q)\<rparr>)" by (simp add: follows_same counted_def)
    from follows_trans [OF this follows_writer, of c "en_writes_in_time c (ai_calls x)"] Some
    show ?thesis
      by (cases "writer_runs c (en_writes_in_time c (ai_calls x)) ((counted x)\<lparr>ai_pacer := Some (sc_enqueue (buffer_limit c) pcm q)\<rparr>)")
        (simp add: play_out_def)
  qed (simp add: play_out_def follows_refl)
  have f: "follows x (snd (finally_do (play_out c pcm) (aioc_key_off c) x))" for x
    using follows_trans [OF p follows_key_off] by (simp add: finally_do_def split: prod.splits sum.splits) (metis snd_conv)
  have "follows x (snd (andthen (aioc_key_on c) (\<lambda>_. finally_do (play_out c pcm) (aioc_key_off c)) x))" for x
    by (intro follows_intros f)
  then show ?thesis by (auto simp: aioc_transmit_def follows_refl intro: follows_same split: option.splits)
qed

lemma follows_close: "follows s (aioc_close c s)"
proof -
  have "follows x (snd (guarded (lines_low c) x))" for x
    unfolding lines_low_def by (cases "en_ptt_line c = LineRTS") (simp_all add: follows_intros)
  moreover have "follows x (snd (guarded (aioc_key_off c) x))" for x by (intro follows_intros)
  ultimately have "follows (s\<lparr>ai_closed := True\<rparr>) (snd (guarded (lines_low c) (snd (guarded (aioc_key_off c) (s\<lparr>ai_closed := True\<rparr>)))))"
    by (blast intro: follows_trans)
  then show ?thesis by (simp add: aioc_close_def follows_refl) (simp add: follows_def)
qed

subsection \<open>Setters\<close>

abbreviation record_safe :: "aioc_env \<Rightarrow> (aioc, 'a) meth \<Rightarrow> bool" where
  "record_safe c m \<equiv> ensures (record_ok c) m (\<lambda>_. record_ok c) (record_ok c)"

lemma record_safe_follows: "(\<And>s. follows s (snd (m s))) \<Longrightarrow> record_safe c m"
  by (rule ensures_snd) (rule follows_record)

lemma record_safe_tuner: "tuner_only m \<Longrightarrow> record_safe c m"
  by (rule record_safe_follows) (rule follows_tuner)

lemma record_safe_andthen: "record_safe c m \<Longrightarrow> (\<And>x. record_safe c (k x)) \<Longrightarrow> record_safe c (andthen m k)"
  by (rule ensures_andthen)

lemma image_new_valid: "vfo_image_new a b d n p = Inr v \<Longrightarrow> vfo_valid v"
  by (auto simp: vfo_image_new_iff vfo_valid_iff)

lemma stage_valid: "stage f s = (Inr u, s') \<Longrightarrow> \<exists>v. vfo_valid v \<and> s' = s\<lparr>ai_pending := Some v\<rparr>"
  by (auto simp: stage_def Let_def split: option.splits sum.splits dest: image_new_valid)

lemma stage_fails: "stage f s = (Inl e, s') \<Longrightarrow> s' = s"
  by (auto simp: stage_def Let_def split: option.splits sum.splits)

lemma record_safe_stage: "record_safe c (stage f)"
proof (rule ensures_snd)
  fix s assume "record_ok c s"
  then show "record_ok c (snd (stage f s))"
    using stage_valid [of f s "()" "snd (stage f s)"] stage_fails [of f s _ "snd (stage f s)"]
    by (cases "stage f s"; cases "fst (stage f s)") (auto simp: record_ok_def)
qed

lemma hb_apply_confirmed:
  assumes "hb_apply r v t = (Inr u, t')"
  shows "\<exists>b. tn_asked t' = tn_asked t @ sv_request v # b \<and> dr_answer r (tn_asked t) (sv_request v) = Inr (sv_confirmation v)"
proof -
  from assms obtain x t1 where 1: "sv_apply r v t = (Inr x, t1)"
      and 2: "(if \<not> tn_persist t1 then (Inr (), t1) else discarding (hb_store r v) t1) = (Inr u, t')"
    unfolding hb_apply_def andthen_returns by blast
  note a = sv_apply_returns [OF 1]
  have "growing (discarding (hb_store r v))" by (intro growing_intros)
  from growingD [OF this, of "tn_asked t1" t1] have "asked_from (tn_asked t1) t'"
    using 2 by (auto simp: split: if_splits)
  then show ?thesis using a by (auto simp: asked_from_def)
qed

lemma tu_apply_confirmed:
  assumes "tu_apply c v t = (Inr u, t')" and "en_mode c \<in> {TunerSETVFO, TunerHYBRID}"
  shows "confirmed c v (tn_asked t')"
proof -
  have "\<exists>b. tn_asked t' = tn_asked t @ sv_request v # b \<and> dr_answer (en_radio c) (tn_asked t) (sv_request v) = Inr (sv_confirmation v)"
    using assms sv_apply_returns [of "en_radio c" v t u t'] hb_apply_confirmed [of "en_radio c" v t u t'] by auto
  then show ?thesis unfolding confirmed_def by blast
qed

lemma record_safe_commit: "record_safe c (commit_tuning c)"
proof (rule ensures_snd)
  fix s assume i: "record_ok c s"
  show "record_ok c (snd (commit_tuning c s))"
  proof (cases "en_mode c = TunerOFF \<or> ai_pending s = None \<or> ai_pending s = ai_tuned s \<or> ai_transmitting s")
    case True
    then show ?thesis using i by (auto simp: commit_tuning_def record_ok_def split: option.splits)
  next
    case False
    then obtain v where v: "ai_pending s = Some v" by auto
    obtain r s1 where 1: "on_tuner (tu_apply c v) s = (r, s1)" by fastforce
    have "tuner_only (on_tuner (tu_apply c v))" by (intro tuner_only_intros growing_intros)
    from follows_record [OF follows_tuner [OF this] i] have i1: "record_ok c s1" using 1 by simp
    have q: "snd (commit_tuning c s) = (case r of Inl e \<Rightarrow> s1 | Inr u \<Rightarrow> s1\<lparr>ai_tuned := Some v, ai_pending := None\<rparr>)"
      using False v 1 by (cases r) (simp_all add: commit_tuning_def)
    have "vfo_valid v" using i v by (simp add: record_ok_def)
    moreover have "en_mode c \<in> {TunerSETVFO, TunerHYBRID} \<longrightarrow> confirmed c v (tn_asked (ai_tn s1))" if "r = Inr u" for u
      using 1 tu_apply_confirmed [of c v "ai_tn s"] unfolding that on_tuner_returns by auto
    ultimately show ?thesis using q i1 by (cases r) (simp_all add: record_ok_def)
  qed
qed

interpretation record_setters: setter_invariant c "record_ok c" for c
  by unfold_locales (auto intro: record_safe_stage record_safe_commit simp: record_ok_def)

lemma record_safeD: "record_ok c s \<Longrightarrow> record_safe c m \<Longrightarrow> record_ok c (snd (m s))"
  unfolding ensures_inv_iff by blast

lemma ao_exec_record: "record_ok c s \<Longrightarrow> record_ok c (snd (ao_exec c op s))"
proof (cases op)
  case AoRssi
  assume i: "record_ok c s"
  have "tuner_only (ao_exec c op)" unfolding AoRssi ao_exec.simps by (intro tuner_only_intros growing_intros)
  then show ?thesis using record_safeD [OF i record_safe_tuner] by blast
next
  case (AoPersist on)
  assume i: "record_ok c s"
  have "tuner_only (discarding (set_tune_persist c on))" by (intro tuner_only_intros receiver_ops_tuner_only)
  then show ?thesis using record_safeD [OF i record_safe_tuner] AoPersist by (simp only: ao_exec.simps)
next
  case AoClear
  assume i: "record_ok c s"
  have "tuner_only (discarding (aioc_clear_broadcast_fm c))" by (intro tuner_only_intros receiver_ops_tuner_only)
  then show ?thesis using record_safeD [OF i record_safe_tuner] AoClear by (simp only: ao_exec.simps)
next
  case (AoSetFm a hz b)
  assume i: "record_ok c s"
  have "tuner_only (discarding (aioc_set_broadcast_fm c a hz b))" by (intro tuner_only_intros receiver_ops_tuner_only)
  then show ?thesis using record_safeD [OF i record_safe_tuner] AoSetFm by (simp only: ao_exec.simps)
next
  case AoProbe
  assume i: "record_ok c s"
  have "tuner_only (discarding (aioc_probe_broadcast_fm c))" by (intro tuner_only_intros receiver_ops_tuner_only)
  then show ?thesis using record_safeD [OF i record_safe_tuner] AoProbe by (simp only: ao_exec.simps)
next
  case (AoPass d)
  assume "record_ok c s"
  then show ?thesis using AoPass by (simp add: record_ok_def sleeping_def)
next
  case AoEnter
  assume "record_ok c s"
  then show ?thesis using AoEnter by (simp add: record_ok_def enter_batch_def)
qed (simp_all only: ao_exec.simps record_setters.setters_keep modifying_apply snd_conv follows_record [OF follows_ptt]
      follows_record [OF follows_transmit] follows_record [OF follows_writer] follows_record [OF follows_close],
     (rule record_safeD, assumption, (rule record_safe_commit | rule record_safe_tuner [OF receiver_ops_tuner_only(4)] | rule record_safe_tuner [OF receiver_ops_tuner_only(5)]))+)

lemma ao_run_record: "record_ok c s \<Longrightarrow> record_ok c (ao_run c ops s)"
  unfolding ao_run_def by (induction ops arbitrary: s) (simp_all add: ao_exec_record)

text \<open>
  C8. The channel that is reported was confirmed by the radio: after any operations, with any failures, a reported
  frequency belongs to a channel in the bands and with a tone the radio has, and with a tuner that asks the radio
  the radio was asked for exactly that channel and answered that it landed on it.
\<close>

theorem reported_channel_was_confirmed:
  assumes "s = ao_run c ops (booted c persist level)" and "as_frequency (aioc_get_status c s) = Some hz"
  shows "\<exists>v. ai_tuned s = Some v \<and> vi_rx_hz v = hz \<and> vfo_valid v
    \<and> (en_mode c = TunerSETVFO \<or> en_mode c = TunerHYBRID \<longrightarrow> confirmed c v (tn_asked (ai_tn s)))"
proof -
  have "record_ok c (booted c persist level)"
    using booted_tn [of c persist level] by (auto simp: record_ok_def aioc_init_def)
  from ao_run_record [OF this, of ops] have r: "record_ok c s" using assms(1) by simp
  obtain v where "ai_tuned s = Some v" "vi_rx_hz v = hz" using assms(2) by (auto simp: aioc_get_status_def Let_def)
  then show ?thesis using r by (auto simp: record_ok_def)
qed

theorem reported_channel_was_confirmed_witness:
  "\<exists>v. vi_rx_hz v = 146940000 \<and> confirmed exact_aioc v (tn_asked (ai_tn tuned_station))"
proof -
  have "as_frequency (aioc_get_status exact_aioc tuned_station) = Some 146940000" by code_simp
  from reported_channel_was_confirmed [OF tuned_station_def this]
  show ?thesis by (auto simp: exact_aioc_def plain_env_def)
qed

subsection \<open>A batch is one tune\<close>

lemma stage_in_batch:
  assumes "ai_batch s \<noteq> 0" and "sg_rx (f (stage_base s)) = Some rx"
    and "vfo_image_new rx (case sg_tx (f (stage_base s)) of None \<Rightarrow> rx | Some tx \<Rightarrow> tx) (sg_ctcss (f (stage_base s)))
      (sg_narrow (f (stage_base s))) (sg_power (f (stage_base s))) = Inr v"
  shows "andthen (stage f) (\<lambda>_. autocommit c) s = (Inr (), s\<lparr>ai_pending := Some v\<rparr>)"
  using assms by (simp add: stage_def Let_def autocommit_def andthen_def)

lemma staged_pending [simp]:
  "stage_base (s\<lparr>ai_pending := Some w\<rparr>) = \<lparr>sg_rx = Some (vi_rx_hz w), sg_tx = Some (vi_tx_hz w), sg_ctcss = vi_ctcss_tenths w,
     sg_narrow = vi_narrow w, sg_power = vi_power w\<rparr>"
  by (simp add: stage_base_def current_image_def)

lemma require_present: "en_mode c \<noteq> TunerOFF \<Longrightarrow> andthen (require_tuner c) k s = k () s"
  by (simp add: require_tuner_def)



subsection \<open>What a refused or failed tune leaves behind\<close>

text \<open>A refused tune comes back: setting a frequency while transmitting raises and reaches nothing, but the channel
  stays staged; the next setter after the over, whatever it sets, tunes the radio to the refused frequency.
\<close>

theorem refused_tune_is_applied_later:
  assumes "en_mode c \<noteq> TunerOFF" and "ai_batch s = 0" and "ai_transmitting s"
    and "vfo_image_new hz hz (sg_ctcss (stage_base s)) (sg_narrow (stage_base s)) (sg_power (stage_base s)) = Inr v" and "ai_tuned s \<noteq> Some v"
  shows "aioc_set_frequency c hz s = (Inl RuntimeError, s\<lparr>ai_pending := Some v\<rparr>)
    \<and> aioc_set_mode c (if vi_narrow v then ''NFM'' else ''FM'') (s\<lparr>ai_pending := Some v, ai_transmitting := False\<rparr>)
      = andthen (on_tuner (tu_apply c v)) (\<lambda>_. modifying (\<lambda>s. s\<lparr>ai_tuned := Some v, ai_pending := None\<rparr>))
          (s\<lparr>ai_pending := Some v, ai_transmitting := False\<rparr>)"
proof
  note present = require_present [OF assms(1)]
  show "aioc_set_frequency c hz s = (Inl RuntimeError, s\<lparr>ai_pending := Some v\<rparr>)"
  proof -
    have "stage (\<lambda>b. b\<lparr>sg_rx := Some hz, sg_tx := Some hz\<rparr>) s = (Inr (), s\<lparr>ai_pending := Some v\<rparr>)" using assms(4) by (simp add: stage_def)
    moreover have "autocommit c (s\<lparr>ai_pending := Some v\<rparr>) = (Inl RuntimeError, s\<lparr>ai_pending := Some v\<rparr>)"
      using assms(1,2,3,5) by (auto simp: autocommit_def commit_tuning_def)
    ultimately show ?thesis by (simp add: aioc_set_frequency_def present)
  qed
  let ?s = "s\<lparr>ai_transmitting := False\<rparr>\<lparr>ai_pending := Some v\<rparr>"
  have swap: "s\<lparr>ai_pending := Some v, ai_transmitting := False\<rparr> = ?s" by simp
  let ?f = "\<lambda>b. b\<lparr>sg_narrow := vi_narrow v\<rparr>"
  have "vfo_valid v" using assms(4) by (rule image_new_valid)
  then have "vfo_image_new (vi_rx_hz v) (vi_tx_hz v) (vi_ctcss_tenths v) (vi_narrow v) (vi_power v) = Inr v" by (simp add: vfo_valid_def)
  then have "stage ?f ?s = (Inr (), ?s)" by (simp add: stage_def)
  then have "andthen (stage ?f) (\<lambda>_. autocommit c) ?s = commit_tuning c ?s" using assms(2) by (simp add: autocommit_def)
  moreover have "commit_tuning c ?s = andthen (on_tuner (tu_apply c v)) (\<lambda>_. modifying (\<lambda>s. s\<lparr>ai_tuned := Some v, ai_pending := None\<rparr>)) ?s"
    using assms(1,5) by (auto simp: commit_tuning_def simp del: tu_apply.simps)
  ultimately show "aioc_set_mode c (if vi_narrow v then ''NFM'' else ''FM'') (s\<lparr>ai_pending := Some v, ai_transmitting := False\<rparr>)
      = andthen (on_tuner (tu_apply c v)) (\<lambda>_. modifying (\<lambda>s. s\<lparr>ai_tuned := Some v, ai_pending := None\<rparr>))
          (s\<lparr>ai_pending := Some v, ai_transmitting := False\<rparr>)"
    unfolding swap by (cases "vi_narrow v") (simp_all add: aioc_set_mode_def present del: tu_apply.simps)
qed

theorem refused_tune_is_applied_later_witness:
  "fst (aioc_set_frequency exact_aioc 145000000 (ao_run exact_aioc [AoPtt True] tuned_station)) = Inl RuntimeError"
proof -
  let ?s = "ao_run exact_aioc [AoPtt True] tuned_station"
  let ?v = "\<lparr>vi_rx_hz = 145000000, vi_tx_hz = 145000000, vi_ctcss_tenths = 0, vi_narrow = False, vi_power = 2\<rparr>"
  have mode: "en_mode exact_aioc \<noteq> TunerOFF" by (simp add: exact_aioc_def plain_env_def)
  have batch: "ai_batch ?s = 0" by code_simp
  have tx: "ai_transmitting ?s" by code_simp
  have img: "vfo_image_new 145000000 145000000 (sg_ctcss (stage_base ?s)) (sg_narrow (stage_base ?s)) (sg_power (stage_base ?s)) = Inr ?v" by code_simp
  have new: "ai_tuned ?s \<noteq> Some ?v" by code_simp
  show ?thesis using conjunct1 [OF refused_tune_is_applied_later [OF mode batch tx img new]] by (simp only: fst_conv)
qed

text \<open>
  C31. A tune whose store fails leaves the backend on the old channel: with persistence on, once the radio has
  confirmed the new channel, an exception of the store means that the old channel is still reported, the tuner does
  not count as volatile, and so the next key-up keys the radio on the new channel without re-asserting anything.
\<close>

theorem failed_store_reports_the_old_channel:
  assumes "en_mode c = TunerHYBRID" and "\<not> ai_transmitting s" and "ai_pending s = Some v" and "ai_tuned s \<noteq> Some v"
    and "sv_apply (en_radio c) v (ai_tn s) = (Inr (), t1)" and "tn_persist t1" and "hb_store (en_radio c) v t1 = (Inl e, t2)"
  shows "commit_tuning c s = (Inl e, s\<lparr>ai_tn := t2\<rparr>) \<and> confirmed c v (tn_asked t2)
    \<and> as_frequency (aioc_get_status c (s\<lparr>ai_tn := t2\<rparr>)) = as_frequency (aioc_get_status c s)
    \<and> reassert_channel c (s\<lparr>ai_tn := t2\<rparr>) = (Inr (), s\<lparr>ai_tn := t2\<rparr>)"
proof -
  have "hb_apply (en_radio c) v (ai_tn s) = (Inl e, t2)" using assms(5-7) by (simp add: hb_apply_def)
  then have commit: "commit_tuning c s = (Inl e, s\<lparr>ai_tn := t2\<rparr>)" using assms(1-4) by (simp add: commit_tuning_def on_tuner_def)
  have "growing (hb_store (en_radio c) v)" by (rule growing_hb_store)
  from growingD [OF this, of "tn_asked t1" t1] assms(7) have g: "asked_from (tn_asked t1) t2" by simp
  have "confirmed c v (tn_asked t1)" using sv_apply_returns [OF assms(5)] unfolding confirmed_def by auto
  then have conf: "confirmed c v (tn_asked t2)" using g by (rule confirmed_grows)
  have w: "write_channel (en_radio c) v t1 = (Inl e, t2)" using hb_store_cases [OF assms(7)] by auto
  have "stable (en_radio c) tn_persist" by (simp add: stable_def)
  from keepD [OF keep_write_channel [OF this] assms(6) w] have "tn_persist t2" .
  then have "reassert_channel c (s\<lparr>ai_tn := t2\<rparr>) = (Inr (), s\<lparr>ai_tn := t2\<rparr>)"
    using assms(1) by (simp add: reassert_channel_def hb_volatile_def split: option.split)
  with commit conf show ?thesis by (simp add: aioc_get_status_def Let_def)
qed

definition half_tuned :: "aioc_env \<Rightarrow> aioc" where
  "half_tuned c = (booted c True LevelHIGH)\<lparr>ai_pending := Some repeater\<rparr>"

theorem failed_store_reports_the_old_channel_witness:
  "let c = plain_env TunerHYBRID exact_radio; s = snd (commit_tuning c (half_tuned c)) in
     confirmed c repeater (tn_asked (ai_tn s)) \<and> as_frequency (aioc_get_status c s) = None \<and> reassert_channel c s = (Inr (), s)"
proof -
  let ?c = "plain_env TunerHYBRID exact_radio"
  let ?s = "half_tuned ?c"
  let ?a = "sv_apply (en_radio ?c) repeater (ai_tn ?s)"
  let ?b = "hb_store (en_radio ?c) repeater (snd ?a)"
  have a: "?a = (Inr (), snd ?a)" by (subst prod_eq_iff) (simp, code_simp)
  have b: "?b = (Inl TuneError, snd ?b)" by (subst prod_eq_iff) (simp, code_simp)
  have f: "as_frequency (aioc_get_status ?c ?s) = None" by code_simp
  have h: "en_mode ?c = TunerHYBRID" "\<not> ai_transmitting ?s" "ai_pending ?s = Some repeater" "ai_tuned ?s \<noteq> Some repeater" "tn_persist (snd ?a)"
    by code_simp+
  note w = failed_store_reports_the_old_channel [OF h(1-4) a h(5) b]
  have "snd (commit_tuning ?c ?s) = ?s\<lparr>ai_tn := snd ?b\<rparr>" using w by (simp only: snd_conv)
  then show ?thesis using w f unfolding Let_def by simp
qed

text \<open>A store that fails when persistence is switched on leaves it on: the switch reports an error, but from then on
  storage counts as on, the channel is not stored, a key-up re-asserts nothing, and tuning to the same channel again
  does not reach the radio.
\<close>

theorem failed_switch_stays_on:
  assumes "en_mode c = TunerHYBRID" and "\<not> ai_transmitting s" and "ai_tuned s = Some v" and "\<not> tn_persist (ai_tn s)"
    and "hb_store (en_radio c) v ((ai_tn s)\<lparr>tn_persist := True\<rparr>) = (Inl e, t)"
  shows "set_tune_persist c True s = (Inl e, s\<lparr>ai_tn := t\<rparr>) \<and> as_tune_persist (aioc_get_status c (s\<lparr>ai_tn := t\<rparr>)) = Some True
    \<and> \<not> tu_volatile c t \<and> commit_tuning c (s\<lparr>ai_tn := t, ai_pending := Some v\<rparr>) = (Inr (), s\<lparr>ai_tn := t, ai_pending := None\<rparr>)"
proof -
  have w: "write_channel (en_radio c) v ((ai_tn s)\<lparr>tn_persist := True\<rparr>) = (Inl e, t)" using hb_store_cases [OF assms(5)] by auto
  have "stable (en_radio c) tn_persist" by (simp add: stable_def)
  from keepD [OF keep_write_channel [OF this] _ w] have "tn_persist t" by simp
  moreover have "set_tune_persist c True s = (Inl e, s\<lparr>ai_tn := t\<rparr>)" using assms by (simp add: set_tune_persist_def Let_def on_tuner_def)
  ultimately show ?thesis using assms(1,3) by (simp add: aioc_get_status_def Let_def hb_volatile_def commit_tuning_def)
qed

theorem failed_switch_stays_on_witness:
  "let c = plain_env TunerHYBRID exact_radio; s = ao_run c [AoFrequency 146940000] (booted c False LevelHIGH)
   in as_tune_persist (aioc_get_status c (snd (set_tune_persist c True s))) = Some True"
proof -
  let ?c = "plain_env TunerHYBRID exact_radio"
  let ?s = "ao_run ?c [AoFrequency 146940000] (booted ?c False LevelHIGH)"
  let ?v = "\<lparr>vi_rx_hz = 146940000, vi_tx_hz = 146940000, vi_ctcss_tenths = 0, vi_narrow = False, vi_power = 2\<rparr>"
  let ?b = "hb_store (en_radio ?c) ?v ((ai_tn ?s)\<lparr>tn_persist := True\<rparr>)"
  have b: "?b = (Inl TuneError, snd ?b)" by (subst prod_eq_iff) (simp, code_simp)
  have h1: "en_mode ?c = TunerHYBRID" by code_simp
  have h2: "\<not> ai_transmitting ?s" by code_simp
  have h3: "ai_tuned ?s = Some ?v" by code_simp
  have h4: "\<not> tn_persist (ai_tn ?s)" by code_simp
  note w = failed_switch_stays_on [OF h1 h2 h3 h4 b]
  have "snd (set_tune_persist ?c True ?s) = ?s\<lparr>ai_tn := snd ?b\<rparr>" using w by (simp only: snd_conv)
  then show ?thesis using w unfolding Let_def by (simp only:)
qed

end
