(* ===== verification/Spec2Isabelle.thy ===== *)
theory Spec2Isabelle
  imports StreamCodec StructPack Kiss Kv4pStructs Uvk5Framing Uvk5Messages Vfo DvDongle DStarFrames
    Arbiter Auth StationId Tx Tot Scan Controller Dtmf Gate DStarClient DStarBridge DStarBridgeRx DStarBridgeTx
    BoundedQueue Hubs RxPath Keypad MumbleEntries KeypadBuild MumbleBridge LinkManager Uvk5Keying Uvk5Link Kv4pRadio AiocTune
begin

text \<open>
  Verification library of radio-server, a Python server that puts a hand-held or base radio on the
  network: it keys the transmitter, receives and gates audio, decodes DTMF, lets a caller log in with
  a one-time code and run services, scans, identifies the station as the licence requires, and relays
  to Mumble and D-STAR.

  \<^bold>\<open>How the program fits together.\<close> A backend under \<open>radio_server/backends\<close> talks to the radio over a
  serial line: the two UV-K5 and kv4p protocols are byte streams cut into frames, the DV Dongle vocoder
  and the D-STAR gateway have their own packet formats. Above the backend stand the half-duplex arbiter
  (\<open>arbiter/state.py\<close>), the wrapper that bounds every key-up (\<open>tx/tot.py\<close>), the streaming transmit
  session and its slot (\<open>tx/session.py\<close>), and the station ID (\<open>services/station_id.py\<close>), which all
  transmissions pass. Received audio passes an activity gate (\<open>activity/gate.py\<close>) and the DTMF decoder
  (\<open>audio/dtmf.py\<close>); its entries go to the controller (\<open>controller/engine.py\<close>), which asks the session
  gate (\<open>auth/session.py\<close>) over a login verifier (\<open>auth/totp.py\<close>, \<open>auth/fixed.py\<close>), runs built-in
  commands and services through the station ID, and ticks the scan engine (\<open>scan/engine.py\<close>).

  \<^bold>\<open>Conventions.\<close> Prelude: bytes are lists of 8-bit words; a clock reading is a real number; exceptions
  are values of \<open>exn\<close> without their message text; a method that may raise is a function from the state to
  a result and the state it leaves behind, also when it raises (\<open>andthen\<close>, \<open>catching\<close>, \<open>guarded\<close>).
  A collaborator that is not modelled, such as a radio, a code generator or a decoder, is a function the
  definitions take as an argument, and it may raise wherever the code's collaborator may. Calls on one
  thread are sequences of operations; where the code has threads (Tot) their atomic sections are the
  steps of an inductive relation.

  \<^bold>\<open>Wire formats.\<close>
  \<^item> StreamCodec holds the interface the streaming deframers share, as the locales \<open>stream_decoder\<close>
    (cutting the stream into chunks does not matter) and \<open>framed_codec\<close> (a session of frames is read
    back); Kiss, Uvk5Framing, Uvk5Messages and DvDongle interpret them.
  \<^item> StructPack is Python's \<open>struct\<close> for little-endian integers, with its range errors.
  \<^item> Kiss and Kv4pStructs model \<open>backends/kv4p/frames.py\<close>: the decoder and encoder of escaped frames,
    and the packed structs. A session is read back under any chunking; damage costs frames but not the
    stream.
  \<^item> Uvk5Framing and Uvk5Messages model \<open>backends/uvk5/frames.py\<close>: CRC, obfuscation, the byte-wise frame
    decoder with its size limit, and every message builder and parser of the dock. Sessions are read
    back, damaged payloads are refused, parsing is total.
  \<^item> Vfo models the channel record of \<open>backends/uvk5/vfo.py\<close>: what is written to the radio's memory reads
    back as the channel that was asked for and touches no other slot.
  \<^item> DvDongle models \<open>vocoder/frames.py\<close>, DStarFrames \<open>dstar/header.py\<close> and \<open>dstar/dsrp.py\<close>: round
    trips, bounded buffering, the table-driven checksum as the bitwise one, and detection of one-byte
    damage.

  \<^bold>\<open>The transmitter.\<close>
  \<^item> Arbiter: the radio mode is a function of its two demands, transmit wins, listeners hear each change
    once, one talker at a time.
  \<^item> StationId: on every history of transmissions, checks and sign-offs nothing is on the air unidentified
    for the interval; a radio that refuses keeps the ID due. The streaming variant stamps its timer before
    the audio is rendered, so a failed rendering loses an ID, which a theorem shows.
  \<^item> Tx: the streaming session; radio, arbiter and flags agree after any operation, also a raising one, and
    close releases everything. The locale \<open>tx_identifier\<close> is what the session needs of its identifier;
    \<open>StreamingId\<close> is an interpretation. The slot admits one holder.
  \<^item> Tot: the watchdog that bounds a key-up, with caller and timer threads interleaved. Without overlapping
    calls the line is never up longer than the limit; with a clip played over a streaming key it can be
    up for ever, which a theorem shows.

  \<^bold>\<open>The receiver and the control plane.\<close>
  \<^item> Gate: the level gate passes exactly the frames its thresholds and hang time say; the polled gate fails
    closed and logs edges only.
  \<^item> Dtmf: one key per press, and what is keyed is what is entered.
  \<^item> Auth: the locales \<open>verifier\<close> and \<open>single_use_verifier\<close>; TOTP is an interpretation of both, the fixed
    code of the first. A code opens at most one session, and commands need a live session.
  \<^item> Controller: one iteration and the operator's two entries. Without a login nothing is keyed; the session
    ledger balances on prompt histories, and two theorems show the histories on which it does not.
  \<^item> Scan: only plan channels or the priority channel are tuned, the sweep is a search, and a quiet band is
    visited cyclically.

  \<^bold>\<open>Bounds and fuel.\<close> Every recursion is structural or has a proved measure (the deframer loop of
  DvDongle consumes its buffer); the one bounded recursion is \<open>py_range\<close> in Scan, whose bound, the width
  of the range, is never reached before the range ends. Integers of the wire formats are unbounded as in
  Python and cut where the source cuts them.

  \<^bold>\<open>What is not modelled.\<close> Threads other than the watchdog's, asyncio tasks and their cancellation, device
  and network I/O, floating-point signal processing (resampling, tone powers), configuration files, the
  HTTP layer and the diagnostics. Log lines are modelled only where their edges are the point. Floating
  point time is taken as real.

  \<^bold>\<open>Plan.\<close> Next: the event and audio hubs, the Mumble entries and keypad bindings, the CW timeline; then
  the D-STAR bridge's mode latch and the Mumble relay, the UV-K5 tuner over the modelled frames, and the
  kv4p transport window.
\<close>

end
